(* ===== verification/Prelude.thy ===== *)
theory Prelude
  imports Main "HOL-Library.Word"
begin

unbundle bit_operations_syntax

text \<open>
  Shared vocabulary of the development: the machine integer types of the C++ sources, the
  result type that stands for a C++ call that may throw a std::runtime_error, lists used as
  byte buffers (std::vector, stack arrays), and the generic facts on lists, words and runs
  of a state machine that the component theories use.
\<close>

section \<open>Machine integers\<close>

type_synonym u8 = "8 word"
type_synonym u16 = "16 word"
type_synonym u32 = "32 word"
type_synonym u64 = "64 word"
type_synonym bytes = "u8 list"

text \<open>Collections: unfolding of the named constants of the source, of the register
  operations of a device, and the preservation rules of the device invariants.\<close>

named_theorems source_consts "named constants of the C++ sources"
named_theorems device_defs "operations of a device model"
named_theorems inv_intros "an operation keeps the invariant of its device"

section \<open>Calls that may throw\<close>

text \<open>A call that may throw std::runtime_error returns \<open>Inl message\<close> or \<open>Inr value\<close>.\<close>

type_synonym 'a result = "string + 'a"

fun rbind :: "'a result \<Rightarrow> ('a \<Rightarrow> 'b result) \<Rightarrow> 'b result" where
  "rbind (Inl e) f = Inl e"
| "rbind (Inr a) f = f a"

lemma rbind_eq_Inr [simp]: "rbind x f = Inr b \<longleftrightarrow> (\<exists>a. x = Inr a \<and> f a = Inr b)"
  by (cases x) auto

lemma rbind_eq_Inl: "rbind x f = Inl e \<longleftrightarrow> x = Inl e \<or> (\<exists>a. x = Inr a \<and> f a = Inl e)"
  by (cases x) auto

lemma rbind_cong [fundef_cong]:
  "x = y \<Longrightarrow> (\<And>a. y = Inr a \<Longrightarrow> f a = g a) \<Longrightarrow> rbind x f = rbind y g"
  by (cases y) auto

lemma rbind_assoc: "rbind (rbind x f) g = rbind x (\<lambda>a. rbind (f a) g)"
  by (cases x) auto

section \<open>Byte buffers as lists\<close>

text \<open>Overwriting part of a buffer at an offset: memcpy into a std::vector or array. The
  uses in the model stay inside the buffer, where the length is unchanged.\<close>

definition buf_put :: "'a list \<Rightarrow> nat \<Rightarrow> 'a list \<Rightarrow> 'a list" where
  "buf_put buf off bs = take off buf @ bs @ drop (off + length bs) buf"

lemma length_buf_put [simp]:
  "off + length bs \<le> length buf \<Longrightarrow> length (buf_put buf off bs) = length buf"
  by (simp add: buf_put_def)

lemma nth_buf_put:
  assumes "off + length bs \<le> length buf" and "i < length buf"
  shows "buf_put buf off bs ! i =
    (if off \<le> i \<and> i < off + length bs then bs ! (i - off) else buf ! i)"
  using assms by (auto simp: buf_put_def nth_append min_def)

lemma take_buf_put_same:
  "off + length bs \<le> length buf \<Longrightarrow> take (length bs) (drop off (buf_put buf off bs)) = bs"
  by (simp add: buf_put_def)

lemma buf_put_append1:
  "off + length bs \<le> length xs \<Longrightarrow> buf_put (xs @ ys) off bs = buf_put xs off bs @ ys"
  by (simp add: buf_put_def)

lemma buf_put_append2:
  "length xs \<le> off \<Longrightarrow> buf_put (xs @ ys) off bs = xs @ buf_put ys (off - length xs) bs"
  by (simp add: buf_put_def)

lemma buf_put_all: "length bs = length buf \<Longrightarrow> buf_put buf 0 bs = bs"
  by (simp add: buf_put_def)

lemmas buf_parts = buf_put_append1 buf_put_append2 buf_put_all list_update_append

section \<open>Words\<close>

lemma unat_lt_power [simp]: "unat (w :: 'a::len word) < 2 ^ LENGTH('a)"
  by (rule unsigned_less)

lemma unat_u8_less: "unat (w :: u8) < 256"
  using unat_lt_power [of w] by simp

lemma unat_u16_less: "unat (w :: u16) < 65536"
  using unat_lt_power [of w] by simp

lemma unat_u32_less: "unat (w :: u32) < 4294967296"
  using unat_lt_power [of w] by simp

lemma unat_u64_less: "unat (w :: u64) < 18446744073709551616"
  using unat_lt_power [of w] by simp

lemma unat_max_u64: "unat (- 1 :: u64) = 18446744073709551615"
  by (simp add: unsigned_minus_1_eq_mask mask_eq_exp_minus_1)

lemma and_mask_8: "(w :: 'a::len word) AND 255 = take_bit 8 w"
  by (simp add: take_bit_eq_mask mask_eq_exp_minus_1)

lemma and_mask_16: "(w :: 'a::len word) AND 65535 = take_bit 16 w"
  by (simp add: take_bit_eq_mask mask_eq_exp_minus_1)

lemma and_mask_32: "(w :: 'a::len word) AND 4294967295 = take_bit 32 w"
  by (simp add: take_bit_eq_mask mask_eq_exp_minus_1)

lemmas and_masks = and_mask_8 and_mask_16 and_mask_32

lemma not_bit_8: "8 \<le> n \<Longrightarrow> \<not> bit (b :: u8) n"
  by (auto dest: bit_imp_le_length)

lemma take_bit_unat_self: "unat w < 2 ^ n \<Longrightarrow> take_bit n (w :: 'a::len word) = w"
  by (simp add: word_unat_eq_iff unsigned_take_bit_eq take_bit_nat_eq_self)

lemma bit_take_self_less: "take_bit n (w :: 'a::len word) = w \<Longrightarrow> bit w k \<Longrightarrow> k < n"
  by (metis bit_take_bit_iff)

lemma take_bit_self_iff: "take_bit n (w :: 'a::len word) = w \<longleftrightarrow> (\<forall>k. bit w k \<longrightarrow> k < n)"
  by (metis bit_take_bit_iff bit_word_eqI)

lemma not_bit_low_zero:
  assumes "take_bit n (w :: 'a::len word) = 0" and "k < n"
  shows "\<not> bit w k"
proof -
  have "\<not> bit (take_bit n w) k" by (simp add: assms(1))
  with assms(2) show ?thesis by (simp add: bit_take_bit_iff)
qed

lemma unat_take_bit: "unat (take_bit n (w :: 'a::len word)) = unat w mod 2 ^ n"
  by (simp add: unsigned_take_bit_eq take_bit_nat_def)

lemma unat_drop_bit: "unat (drop_bit n (w :: 'a::len word)) = unat w div 2 ^ n"
  by (simp add: unsigned_drop_bit_eq drop_bit_nat_def take_bit_nat_eq_self)

lemma push_drop_or_take: "push_bit n (drop_bit n w) OR take_bit n (w :: 'a::len word) = w"
  by (rule bit_word_eqI) (auto simp: bit_simps)

lemma unat_and_not_mask: "unat (w AND NOT (mask n) :: 'a::len word) = unat w div 2 ^ n * 2 ^ n"
proof -
  have "(w AND NOT (mask n)) + take_bit n w = (w AND NOT (mask n)) OR take_bit n w"
    by (rule disjunctive_add) (auto simp: bit_simps)
  also have "\<dots> = w" by (rule bit_word_eqI) (auto simp: bit_simps)
  finally have "w AND NOT (mask n) = w - take_bit n w" by (simp add: eq_diff_eq)
  moreover have "take_bit n w \<le> w" by (simp add: word_le_nat_alt unat_take_bit)
  ultimately show ?thesis by (simp add: unat_sub unat_take_bit minus_mod_eq_div_mult)
qed

lemma word_le_3_cases: "(w :: u8) \<le> 3 \<Longrightarrow> w = 0 \<or> w = 1 \<or> w = 2 \<or> w = 3"
  unfolding word_le_nat_alt word_unat_eq_iff by auto

lemma unat_add_no_wrap:
  "unat (a :: 'a::len word) + unat b < 2 ^ LENGTH('a) \<Longrightarrow> unat (a + b) = unat a + unat b"
  by (simp add: unat_word_ariths)

lemma unat_of_nat_u64: "n < 18446744073709551616 \<Longrightarrow> unat (of_nat n :: u64) = n"
  by (simp add: unat_of_nat take_bit_nat_eq_self)

lemma unat_diff_le: "(b :: 'a::len word) \<le> a \<Longrightarrow> unat (a - b) = unat a - unat b"
  by (rule unat_sub)

section \<open>Runs of a state machine\<close>

text \<open>A device is driven by a sequence of accesses; \<open>run\<close> folds one access after the other.
  The locale collects what every invariant proof shares: an invariant that one access keeps
  holds after every sequence of accesses, and a relation between two states that is
  reflexive, transitive and respected by each access relates the ends of a run.\<close>

fun run :: "('s \<Rightarrow> 'e \<Rightarrow> 's) \<Rightarrow> 's \<Rightarrow> 'e list \<Rightarrow> 's" where
  "run step s [] = s"
| "run step s (e # es) = run step (step s e) es"

lemma run_append: "run step s (es @ fs) = run step (run step s es) fs"
  by (induction es arbitrary: s) auto

locale invariant_machine =
  fixes step :: "'s \<Rightarrow> 'e \<Rightarrow> 's"
    and inv :: "'s \<Rightarrow> bool"
  assumes step_inv: "inv s \<Longrightarrow> inv (step s e)"
begin

lemma run_inv: "inv s \<Longrightarrow> inv (run step s es)"
  by (induction es arbitrary: s) (auto intro: step_inv)

lemma run_prefix_inv: "inv s \<Longrightarrow> inv (run step s (take n es))"
  by (rule run_inv)

lemma run_frame:
  assumes "\<And>s e. inv s \<Longrightarrow> f (step s e) = f s" and "inv s"
  shows "f (run step s es) = f s"
  using assms(2) by (induction es arbitrary: s) (auto simp: assms(1) step_inv)

lemma run_rel:
  assumes "\<And>s e. inv s \<Longrightarrow> R s (step s e)" and "\<And>s. R s s" and "\<And>a b c. R a b \<Longrightarrow> R b c \<Longrightarrow> R a c" and "inv s"
  shows "R s (run step s es)"
  using assms(4)
proof (induction es arbitrary: s)
  case (Cons e es)
  then have "R (step s e) (run step (step s e) es)" by (simp add: step_inv)
  then show ?case using assms(3) [OF assms(1) [OF Cons.prems]] by simp
qed (simp add: assms(2))

end

section \<open>Bounded queues\<close>

fun get_many :: "('s \<Rightarrow> 'a \<times> 's) \<Rightarrow> nat \<Rightarrow> 's \<Rightarrow> 'a list \<times> 's" where
  "get_many get 0 s = ([], s)"
| "get_many get (Suc n) s = (case get s of (x, s') \<Rightarrow> case get_many get n s' of (xs, s'') \<Rightarrow> (x # xs, s''))"

text \<open>A queue of limited capacity that takes as many items as fit and gives them back in order.\<close>

locale bounded_queue =
  fixes ok :: "'s \<Rightarrow> bool"
    and items :: "'s \<Rightarrow> 'a list"
    and put :: "'s \<Rightarrow> 'a list \<Rightarrow> 's \<times> nat"
    and get :: "'s \<Rightarrow> 'a \<times> 's"
    and cap :: nat
  assumes put_law: "\<lbrakk>ok s; put s xs = (s', n)\<rbrakk>
      \<Longrightarrow> ok s' \<and> n = min (length xs) (cap - length (items s)) \<and> items s' = items s @ take n xs"
    and get_law: "\<lbrakk>ok s; items s \<noteq> []; get s = (x, s')\<rbrakk> \<Longrightarrow> ok s' \<and> items s = x # items s'"
begin

lemma get_many_items:
  "ok s \<Longrightarrow> n \<le> length (items s) \<Longrightarrow>
   fst (get_many get n s) = take n (items s) \<and> items (snd (get_many get n s)) = drop n (items s) \<and> ok (snd (get_many get n s))"
proof (induction n arbitrary: s)
  case (Suc n)
  obtain x s' where g: "get s = (x, s')" by fastforce
  moreover have "items s \<noteq> []" using Suc.prems(2) by auto
  ultimately have l: "ok s'" "items s = x # items s'" using get_law [OF Suc.prems(1)] by auto
  then have "n \<le> length (items s')" using Suc.prems(2) by simp
  from Suc.IH [OF l(1) this] g l(2) show ?case by (auto split: prod.split)
qed simp

lemma put_get_many:
  assumes "ok s" and "length (items s) + length xs \<le> cap"
  shows "fst (get_many get (length (items s) + length xs) (fst (put s xs))) = items s @ xs"
proof -
  obtain s' n where p: "put s xs = (s', n)" by fastforce
  from put_law [OF assms(1) p] assms(2) have "ok s'" "items s' = items s @ xs" by auto
  with get_many_items [of s' "length (items s) + length xs"] p show ?thesis by simp
qed

lemma put_accepts: "ok s \<Longrightarrow> snd (put s xs) = min (length xs) (cap - length (items s))"
  using put_law by (cases "put s xs") auto

end

end
