(* ===== verification/Bytes.thy ===== *)
theory Bytes
  imports Prelude
begin

unbundle bit_operations_syntax

text \<open>
  The shared helpers of native/common/bytes.h: the throwing guards Check, CheckedAdd,
  CheckedMul and CheckRange, the little-endian readers and writers, and DepositBits.
  Memory seen through a byte pointer is a function from offsets to bytes (\<open>ram\<close>); a pointer
  \<open>p + k\<close> is the offset \<open>p + k\<close>. Every writer also has the byte list it stores, so that the
  same encoding serves std::vector buffers.
\<close>

type_synonym ram = "nat \<Rightarrow> u8"

section \<open>Throwing guards\<close>

definition Check :: "bool \<Rightarrow> string \<Rightarrow> unit result" where
  "Check ok message = (if \<not> ok then Inl message else Inr ())"

definition CheckedAdd :: "u64 \<Rightarrow> u64 \<Rightarrow> string \<Rightarrow> u64 result" where
  "CheckedAdd a b what =
     rbind (Check (b = 0 \<or> a \<le> (- 1) - b) (what @ '' overflow'')) (\<lambda>_. Inr (a + b))"

definition CheckedMul :: "u64 \<Rightarrow> u64 \<Rightarrow> string \<Rightarrow> u64 result" where
  "CheckedMul a b what =
     (if a = 0 \<or> b = 0 then Inr 0
      else rbind (Check (a \<le> (- 1) div b) (what @ '' overflow'')) (\<lambda>_. Inr (a * b)))"

definition CheckRange :: "u64 \<Rightarrow> u64 \<Rightarrow> u64 \<Rightarrow> string \<Rightarrow> unit result" where
  "CheckRange limit offset n what =
     rbind (Check (offset \<le> limit) (what @ '' offset is out of range''))
       (\<lambda>_. Check (n \<le> limit - offset) (what @ '' length is out of range''))"

section \<open>Little-endian stores and loads\<close>

text \<open>memcpy and memset on memory seen through a pointer.\<close>

definition memcpy :: "ram \<Rightarrow> nat \<Rightarrow> bytes \<Rightarrow> ram" where
  "memcpy m p bs = (\<lambda>a. if p \<le> a \<and> a < p + length bs then bs ! (a - p) else m a)"

definition memset :: "ram \<Rightarrow> nat \<Rightarrow> u8 \<Rightarrow> nat \<Rightarrow> ram" where
  "memset m p v n = (\<lambda>a. if p \<le> a \<and> a < p + n then v else m a)"

definition read_bytes :: "ram \<Rightarrow> nat \<Rightarrow> nat \<Rightarrow> bytes" where
  "read_bytes m p n = map m [p ..< p + n]"

text \<open>The bytes of a std::string.\<close>

definition string_bytes :: "string \<Rightarrow> bytes" where
  "string_bytes s = map of_char s"

lemma length_string_bytes [simp]: "length (string_bytes s) = length s"
  by (simp add: string_bytes_def)

text \<open>The bytes a store of \<open>n\<close> bytes writes, lowest byte first.\<close>

definition le_bytes :: "nat \<Rightarrow> 'a::len word \<Rightarrow> bytes" where
  "le_bytes n v = map (\<lambda>i. ucast (drop_bit (8 * i) v AND 0xff)) [0 ..< n]"

definition WriteU16 :: "ram \<Rightarrow> nat \<Rightarrow> u16 \<Rightarrow> ram" where
  "WriteU16 m p v = m(p := ucast (v AND 0xff), p + 1 := ucast (drop_bit 8 v AND 0xff))"

definition WriteU32 :: "ram \<Rightarrow> nat \<Rightarrow> u32 \<Rightarrow> ram" where
  "WriteU32 m p v = fold (\<lambda>i m. m(p + i := ucast (drop_bit (8 * i) v AND 0xff))) [0 ..< 4] m"

definition WriteU64 :: "ram \<Rightarrow> nat \<Rightarrow> u64 \<Rightarrow> ram" where
  "WriteU64 m p v = fold (\<lambda>i m. m(p + i := ucast (drop_bit (8 * i) v AND 0xff))) [0 ..< 8] m"

definition ReadU16 :: "ram \<Rightarrow> nat \<Rightarrow> u16" where
  "ReadU16 m p = ucast (m p) OR push_bit 8 (ucast (m (p + 1)))"

definition ReadU32 :: "ram \<Rightarrow> nat \<Rightarrow> u32" where
  "ReadU32 m p = ucast (m p) OR push_bit 8 (ucast (m (p + 1)))
     OR push_bit 16 (ucast (m (p + 2))) OR push_bit 24 (ucast (m (p + 3)))"

definition ReadU64 :: "ram \<Rightarrow> nat \<Rightarrow> u64" where
  "ReadU64 m p = fold (\<lambda>i v. v OR push_bit (8 * i) (ucast (m (p + i)))) [0 ..< 8] 0"

text \<open>Partial-width accesses; \<open>len\<close> is clamped to 8.\<close>

definition ReadLe :: "ram \<Rightarrow> nat \<Rightarrow> nat \<Rightarrow> u64" where
  "ReadLe m p len =
     fold (\<lambda>i v. v OR push_bit (i * 8) (ucast (m (p + i)))) [0 ..< min len 8] 0"

definition WriteLe :: "ram \<Rightarrow> nat \<Rightarrow> nat \<Rightarrow> u64 \<Rightarrow> ram" where
  "WriteLe m p len value =
     fold (\<lambda>i m. m(p + i := ucast (drop_bit (i * 8) value))) [0 ..< min len 8] m"

definition DepositBits :: "u64 \<Rightarrow> nat \<Rightarrow> nat \<Rightarrow> u64 \<Rightarrow> u64" where
  "DepositBits old_value shift bits value =
     (if bits = 0 \<or> 64 \<le> shift then old_value
      else let effective = (if 64 - shift < bits then 64 - shift else bits);
               mask = (if effective = 64 then - 1 else push_bit effective 1 - 1)
           in (old_value AND NOT (push_bit shift mask)) OR push_bit shift (value AND mask))"

section \<open>The guards accept exactly the arithmetic that does not overflow\<close>

lemma Check_Inr [simp]: "Check ok msg = Inr u \<longleftrightarrow> ok"
  by (simp add: Check_def)

lemma Check_True [simp]: "Check True msg = Inr ()"
  by (simp add: Check_def)

lemma Check_False [simp]: "Check False msg = Inl msg"
  by (simp add: Check_def)

lemma CheckedAdd_Inr:
  "CheckedAdd a b what = Inr c \<longleftrightarrow> unat a + unat b < 2 ^ 64 \<and> c = a + b"
proof -
  have "unat ((- 1 :: u64) - b) = 18446744073709551615 - unat b"
    by (subst unat_sub) (auto simp: unat_max_u64)
  then have "a \<le> (- 1) - b \<longleftrightarrow> unat a + unat b < 18446744073709551616"
    using unat_u64_less [of b] by (simp only: word_le_nat_alt) linarith
  then show ?thesis by (auto simp: CheckedAdd_def)
qed

lemma CheckedMul_Inr:
  "CheckedMul a b what = Inr c \<longleftrightarrow> unat a * unat b < 2 ^ 64 \<and> c = a * b"
proof (cases "a = 0 \<or> b = 0")
  case True
  then show ?thesis by (auto simp: CheckedMul_def)
next
  case False
  then have b: "0 < unat b" by (simp add: unat_gt_0)
  have "(a \<le> (- 1) div b) \<longleftrightarrow> unat a \<le> (2 ^ 64 - 1) div unat b"
    by (simp add: word_le_nat_alt unat_div unat_max_u64)
  also have "\<dots> \<longleftrightarrow> unat a * unat b \<le> 2 ^ 64 - 1"
    by (rule less_eq_div_iff_mult_less_eq [OF b])
  also have "\<dots> \<longleftrightarrow> unat a * unat b < 2 ^ 64" by auto
  finally show ?thesis using False by (auto simp: CheckedMul_def)
qed

lemma CheckRange_Inr:
  "CheckRange limit off n what = Inr u \<longleftrightarrow> unat off + unat n \<le> unat limit"
proof (cases "off \<le> limit")
  case True
  then have "unat (limit - off) = unat limit - unat off" "unat off \<le> unat limit"
    by (simp_all add: unat_sub word_le_nat_alt)
  with True show ?thesis by (auto simp: CheckRange_def word_le_nat_alt)
next
  case False
  then show ?thesis by (simp add: CheckRange_def word_le_nat_alt)
qed

lemma CheckRange_cases:
  "CheckRange limit off n what =
     (if unat off + unat n \<le> unat limit then Inr ()
      else if unat off \<le> unat limit then Inl (what @ '' length is out of range'')
      else Inl (what @ '' offset is out of range''))"
  using CheckRange_Inr [of limit off n what "()"]
  by (auto simp: CheckRange_def Check_def word_le_nat_alt)

section \<open>What the loads and stores mean\<close>

text \<open>The value of a little-endian byte list.\<close>

fun le_word :: "bytes \<Rightarrow> 'a::len word" where
  "le_word [] = 0"
| "le_word (b # bs) = ucast b OR push_bit 8 (le_word bs)"

lemma length_le_bytes [simp]: "length (le_bytes n v) = n"
  by (simp add: le_bytes_def)

lemma length_read_bytes [simp]: "length (read_bytes m p n) = n"
  by (simp add: read_bytes_def)

lemma nth_read_bytes [simp]: "i < n \<Longrightarrow> read_bytes m p n ! i = m (p + i)"
  by (simp add: read_bytes_def)

lemma bit_le_word:
  "bit (le_word bs :: 'a::len word) n \<longleftrightarrow>
     n < LENGTH('a) \<and> n div 8 < length bs \<and> bit (bs ! (n div 8)) (n mod 8)"
proof (induction bs arbitrary: n)
  case Nil
  then show ?case by simp
next
  case (Cons b bs)
  show ?case
  proof (cases "n < 8")
    case True
    then show ?thesis by (auto simp: bit_simps Cons.IH)
  next
    case False
    then have "n div 8 = Suc ((n - 8) div 8)" "(n - 8) mod 8 = n mod 8"
      by (simp_all add: le_div_geq le_mod_geq)
    moreover have "\<not> bit b n" using False by (simp add: not_bit_8)
    ultimately show ?thesis using False by (auto simp: bit_simps Cons.IH)
  qed
qed

lemma bit_le_bytes:
  "i < n \<Longrightarrow> bit (le_bytes n v ! i) k \<longleftrightarrow> k < 8 \<and> bit v (8 * i + k)"
  by (auto simp: le_bytes_def and_masks bit_simps dest: bit_imp_le_length)

lemma le_word_le_bytes:
  "LENGTH('a) \<le> 8 * n \<Longrightarrow> le_word (le_bytes n (v :: 'a::len word)) = v"
  by (rule bit_word_eqI) (auto simp: bit_le_word bit_le_bytes less_mult_imp_div_less)

lemma memcpy_read_bytes [simp]: "read_bytes (memcpy m p bs) p (length bs) = bs"
  by (rule nth_equalityI) (auto simp: memcpy_def)

lemma memcpy_outside: "a < p \<or> p + length bs \<le> a \<Longrightarrow> memcpy m p bs a = m a"
  by (auto simp: memcpy_def)

lemma read_bytes_cong: "(\<And>i. i < n \<Longrightarrow> m (p + i) = m' (p + i)) \<Longrightarrow> read_bytes m p n = read_bytes m' p n"
  by (rule nth_equalityI) auto

lemma read_bytes_memcpy_disjoint:
  "q + n \<le> p \<or> p + length bs \<le> q \<Longrightarrow> read_bytes (memcpy m p bs) q n = read_bytes m q n"
  by (rule read_bytes_cong) (auto intro: memcpy_outside)

text \<open>Each store is a memcpy of the little-endian bytes, each load the value of the bytes.\<close>

lemma fold_store_memcpy:
  "fold (\<lambda>i m. m(p + i := f i)) [0 ..< n] m = memcpy m p (map f [0 ..< n])"
proof (induction n)
  case 0
  then show ?case by (auto simp: memcpy_def fun_eq_iff)
next
  case (Suc n)
  then show ?case by (auto simp: memcpy_def nth_append fun_eq_iff)
qed

lemma WriteU16_memcpy: "WriteU16 m p v = memcpy m p (le_bytes 2 v)"
proof -
  have "WriteU16 m p v = fold (\<lambda>i m. m(p + i := ucast (drop_bit (8 * i) v AND 0xff))) [0 ..< 2] m"
    by (simp add: WriteU16_def numeral_2_eq_2)
  then show ?thesis by (simp add: fold_store_memcpy le_bytes_def)
qed

lemma WriteU32_memcpy: "WriteU32 m p v = memcpy m p (le_bytes 4 v)"
  by (simp add: WriteU32_def fold_store_memcpy le_bytes_def)

lemma WriteU64_memcpy: "WriteU64 m p v = memcpy m p (le_bytes 8 v)"
  by (simp add: WriteU64_def fold_store_memcpy le_bytes_def)

lemma bit_fold_or:
  "bit (fold (\<lambda>i v. v OR f i) xs (v :: 'a::len word)) k \<longleftrightarrow> bit v k \<or> (\<exists>i \<in> set xs. bit (f i) k)"
  by (induction xs arbitrary: v) (auto simp: bit_or_iff)

lemma bit_byte_at:
  "bit (push_bit (8 * i) (ucast (b :: u8)) :: 'a::len word) k \<longleftrightarrow>
     k < LENGTH('a) \<and> k div 8 = i \<and> bit b (k mod 8)"
proof (cases "8 * i \<le> k \<and> k < 8 * i + 8")
  case True
  then have "k div 8 = i" "k - 8 * i = k mod 8" by (auto simp: div_nat_eqI modulo_nat_def)
  with True show ?thesis by (auto simp: bit_simps)
next
  case False
  then have "k div 8 \<noteq> i" by auto
  with False show ?thesis by (auto simp: bit_simps not_bit_8)
qed

lemma fold_load_le_word:
  "fold (\<lambda>i v. v OR push_bit (8 * i) (ucast (m (p + i)))) [0 ..< n] 0
     = (le_word (read_bytes m p n) :: 'a::len word)"
  by (rule bit_word_eqI) (auto simp: bit_fold_or bit_byte_at bit_le_word)

lemma ReadU64_le_word: "ReadU64 m p = le_word (read_bytes m p 8)"
  by (simp add: ReadU64_def fold_load_le_word)

lemma ReadU32_le_word: "ReadU32 m p = le_word (read_bytes m p 4)"
proof -
  have "ReadU32 m p = fold (\<lambda>i v. v OR push_bit (8 * i) (ucast (m (p + i)))) [0 ..< 4] 0"
    by (simp add: ReadU32_def eval_nat_numeral or.assoc)
  then show ?thesis by (simp only: fold_load_le_word)
qed

lemma ReadU16_le_word: "ReadU16 m p = le_word (read_bytes m p 2)"
proof -
  have "ReadU16 m p = fold (\<lambda>i v. v OR push_bit (8 * i) (ucast (m (p + i)))) [0 ..< 2] 0"
    by (simp add: ReadU16_def eval_nat_numeral)
  then show ?thesis by (simp only: fold_load_le_word)
qed

lemma ReadLe_le_word: "ReadLe m p n = le_word (read_bytes m p (min n 8))"
  by (simp only: ReadLe_def fold_load_le_word [symmetric] mult.commute)

lemma WriteLe_memcpy: "WriteLe m p n v = memcpy m p (le_bytes (min n 8) v)"
proof -
  have "ucast (drop_bit (i * 8) v) = (ucast (drop_bit (8 * i) v AND 255) :: u8)" for i
    by (rule bit_word_eqI) (auto simp: and_masks bit_simps mult.commute dest: bit_imp_le_length)
  then show ?thesis by (simp add: WriteLe_def fold_store_memcpy le_bytes_def)
qed

lemmas store_memcpy = WriteU16_memcpy WriteU32_memcpy WriteU64_memcpy WriteLe_memcpy
lemmas load_le_word = ReadU16_le_word ReadU32_le_word ReadU64_le_word ReadLe_le_word

section \<open>Memory cells: the contract of a load and a store of one width\<close>

text \<open>What every client of the little-endian helpers relies on: a load after a store of the
  same cell gives the stored value, a load depends on the bytes of its cell only, and a
  store changes the bytes of its cell only.\<close>

locale memory_cell =
  fixes load :: "ram \<Rightarrow> nat \<Rightarrow> 'v"
    and store :: "ram \<Rightarrow> nat \<Rightarrow> 'v \<Rightarrow> ram"
    and width :: nat
  assumes load_store: "load (store m p v) p = v"
    and load_local: "(\<And>i. i < width \<Longrightarrow> m (p + i) = m' (p + i)) \<Longrightarrow> load m p = load m' p"
    and store_frame: "a < p \<or> p + width \<le> a \<Longrightarrow> store m p v a = m a"
begin

lemma load_agree:
  "(\<And>a. p \<le> a \<Longrightarrow> a < p + width \<Longrightarrow> m a = m' a) \<Longrightarrow> load m p = load m' p"
  by (rule load_local) auto

lemma load_store_disjoint:
  "q + width \<le> p \<or> p + width \<le> q \<Longrightarrow> load (store m p v) q = load m q"
  by (rule load_local) (auto intro: store_frame)

lemma load_memcpy_disjoint:
  "q + width \<le> p \<or> p + length bs \<le> q \<Longrightarrow> load (memcpy m p bs) q = load m q"
  by (rule load_local) (auto intro: memcpy_outside)

lemma load_fun_upd_disjoint:
  "a < q \<or> q + width \<le> a \<Longrightarrow> load (m(a := v)) q = load m q"
  by (rule load_local) auto

end

interpretation cell16: memory_cell ReadU16 WriteU16 2
proof unfold_locales
  show "ReadU16 (WriteU16 m p v) p = v" for m p v
    using memcpy_read_bytes [of m p "le_bytes 2 v"]
    by (simp add: load_le_word store_memcpy le_word_le_bytes)
qed (auto simp: load_le_word store_memcpy memcpy_outside intro!: arg_cong [where f = le_word] read_bytes_cong)

interpretation cell32: memory_cell ReadU32 WriteU32 4
proof unfold_locales
  show "ReadU32 (WriteU32 m p v) p = v" for m p v
    using memcpy_read_bytes [of m p "le_bytes 4 v"]
    by (simp add: load_le_word store_memcpy le_word_le_bytes)
qed (auto simp: load_le_word store_memcpy memcpy_outside intro!: arg_cong [where f = le_word] read_bytes_cong)

interpretation cell64: memory_cell ReadU64 WriteU64 8
proof unfold_locales
  show "ReadU64 (WriteU64 m p v) p = v" for m p v
    using memcpy_read_bytes [of m p "le_bytes 8 v"]
    by (simp add: load_le_word store_memcpy le_word_le_bytes)
qed (auto simp: load_le_word store_memcpy memcpy_outside intro!: arg_cong [where f = le_word] read_bytes_cong)

lemmas cell_frame = cell16.store_frame cell32.store_frame cell64.store_frame
lemmas cell_same [simp] = cell16.load_store cell32.load_store cell64.load_store

lemma load_of_le_bytes:
  "ReadU16 (memcpy m p (le_bytes 2 a)) p = a"
  "ReadU32 (memcpy m p (le_bytes 4 b)) p = b"
  "ReadU64 (memcpy m p (le_bytes 8 c)) p = c"
  by (simp_all flip: store_memcpy)

text \<open>Reading a concrete layout back: stores become copies, loads skip the disjoint ones.\<close>

lemmas read_layout = store_memcpy load_of_le_bytes
  cell16.load_memcpy_disjoint cell32.load_memcpy_disjoint cell64.load_memcpy_disjoint
  cell16.load_fun_upd_disjoint cell32.load_fun_upd_disjoint cell64.load_fun_upd_disjoint

text \<open>Loads from a buffer that is a list.\<close>

lemma read_bytes_list: "p + n \<le> length xs \<Longrightarrow> read_bytes ((!) xs) p n = take n (drop p xs)"
  by (rule nth_equalityI) auto

lemma load_from_list:
  "p + 4 \<le> length xs \<Longrightarrow> take 4 (drop p xs) = le_bytes 4 v \<Longrightarrow> ReadU32 ((!) xs) p = v"
  "p + 8 \<le> length xs \<Longrightarrow> take 8 (drop p xs) = le_bytes 8 w \<Longrightarrow> ReadU64 ((!) xs) p = w"
  by (simp_all add: load_le_word read_bytes_list le_word_le_bytes)

section \<open>DepositBits replaces exactly the addressed bits\<close>

lemma bit_mask_of: "effective \<le> 64 \<Longrightarrow>
   bit ((if effective = 64 then - 1 else push_bit effective 1 - 1) :: u64) k \<longleftrightarrow> k < effective"
proof -
  assume "effective \<le> 64"
  then have "(if effective = 64 then - 1 else push_bit effective 1 - 1 :: u64) = mask effective"
    by (auto simp: mask_eq_exp_minus_1 push_bit_eq_mult)
  then show ?thesis using \<open>effective \<le> 64\<close> by (auto simp: bit_mask_iff)
qed

lemma bit_DepositBits:
  "bit (DepositBits old shift bits v) k \<longleftrightarrow>
     (if shift \<le> k \<and> k < shift + bits \<and> k < 64 then bit v (k - shift) else bit old k)"
proof (cases "bits = 0 \<or> 64 \<le> shift")
  case True
  then show ?thesis by (auto simp: DepositBits_def)
next
  case False
  define eff where "eff = (if 64 - shift < bits then 64 - shift else bits)"
  then have eff: "eff \<le> 64" by auto
  have "DepositBits old shift bits v =
      (old AND NOT (push_bit shift (if eff = 64 then - 1 else push_bit eff 1 - 1)))
        OR push_bit shift (v AND (if eff = 64 then - 1 else push_bit eff 1 - 1))"
    using False by (simp add: DepositBits_def eff_def Let_def)
  then have "bit (DepositBits old shift bits v) k \<longleftrightarrow>
      bit old k \<and> \<not> (shift \<le> k \<and> k < 64 \<and> k - shift < eff) \<or>
      shift \<le> k \<and> k < 64 \<and> k - shift < eff \<and> bit v (k - shift)"
    using bit_mask_of [OF eff] bit_imp_le_length [of old k] by (auto simp: bit_simps)
  then show ?thesis using False bit_imp_le_length [of old k] by (auto simp: eff_def split: if_splits)
qed

end
