(* ===== verification/Console_Writer.thy ===== *)
theory Console_Writer
  imports Bytes "HOL-Library.Multiset" "HOL-Library.Sublist"
begin

unbundle bit_operations_syntax

text \<open>
  The console writer (native/whp/console_writer.h): the pure functions that look for terminal
  escape sequences and rewrite redraw frames, and the interleaving of the threads that share
  the pending buffer. Bytes are 8-bit words; \<open>ESC\<close> is 0x1B. The loops over an index
  are recursions on the index; the three by-reference flags of the normaliser are a record.
\<close>

section \<open>Escape sequences\<close>

datatype parse_state = PNormal | PEsc | PCsi | POsc

definition kFlushThreshold :: nat where "kFlushThreshold = 16 * 1024"
definition kBackpressureBytes :: nat where "kBackpressureBytes = 64 * 1024"
definition kMaxPendingBytes :: nat where "kMaxPendingBytes = 256 * 1024"

definition is_csi_final :: "u8 \<Rightarrow> bool" where
  "is_csi_final b \<longleftrightarrow> 0x40 \<le> b \<and> b \<le> 0x7E"

text \<open>One round of the loop of terminal_safe_prefix, at index \<open>i\<close>.\<close>

fun safe_step :: "nat \<Rightarrow> u8 \<Rightarrow> parse_state \<times> bool \<times> nat \<Rightarrow> parse_state \<times> bool \<times> nat" where
  "safe_step i b (PNormal, osc_esc, safe) =
     (if b = 0x1B then (PEsc, osc_esc, safe)
      else if b = 0x0A \<or> b = 0x07 then (PNormal, osc_esc, i + 1) else (PNormal, osc_esc, safe))"
| "safe_step i b (PEsc, osc_esc, safe) =
     (if b = 0x5B then (PCsi, osc_esc, safe)
      else if b = 0x5D then (POsc, False, safe) else (PNormal, osc_esc, i + 1))"
| "safe_step i b (PCsi, osc_esc, safe) =
     (if is_csi_final b then (PNormal, osc_esc, i + 1) else (PCsi, osc_esc, safe))"
| "safe_step i b (POsc, osc_esc, safe) =
     (if b = 0x07 then (PNormal, False, i + 1)
      else if osc_esc \<and> b = 0x5C then (PNormal, False, i + 1) else (POsc, b = 0x1B, safe))"

fun safe_loop :: "nat \<Rightarrow> bytes \<Rightarrow> parse_state \<times> bool \<times> nat \<Rightarrow> parse_state \<times> bool \<times> nat" where
  "safe_loop i [] s = s"
| "safe_loop i (b # bs) s = safe_loop (i + 1) bs (safe_step i b s)"

definition terminal_safe_prefix :: "bytes \<Rightarrow> nat" where
  "terminal_safe_prefix bs = snd (snd (safe_loop 0 bs (PNormal, False, 0)))"

text \<open>The search loops: for ESC 8 and for the final byte of a CSI sequence.\<close>

function find_restore :: "bytes \<Rightarrow> nat \<Rightarrow> nat" where
  "find_restore data restore =
    (if restore + 1 < length data
     then if data ! restore = 0x1B \<and> data ! (restore + 1) = 0x38 then restore else find_restore data (restore + 1)
     else restore)"
  by pat_completeness auto

termination
  by (relation "measure (\<lambda>(data, restore). length data - restore)") auto

function find_csi_final :: "bytes \<Rightarrow> nat \<Rightarrow> nat" where
  "find_csi_final data pos =
    (if pos < length data \<and> \<not> is_csi_final (data ! pos) then find_csi_final data (pos + 1) else pos)"
  by pat_completeness auto

termination
  by (relation "measure (\<lambda>(data, pos). length data - pos)") auto

declare find_restore.simps [simp del] find_csi_final.simps [simp del]

lemma find_restore_ge: "r \<le> find_restore data r"
  by (induction data r rule: find_restore.induct) (subst find_restore.simps, auto)

lemma find_csi_final_ge: "p \<le> find_csi_final data p"
  by (induction data p rule: find_csi_final.induct) (subst find_csi_final.simps, auto)

definition clear_line :: "u8 \<Rightarrow> bytes \<Rightarrow> bool" where
  "clear_line final params \<longleftrightarrow> final = 0x4B \<and> (params = [] \<or> params = [0x30])"

function open_redraw_from :: "bytes \<Rightarrow> nat \<Rightarrow> bool" where
  "open_redraw_from bs i =
    (if \<not> i + 1 < length bs then False
     else if bs ! i \<noteq> 0x1B then open_redraw_from bs (i + 1)
     else if bs ! (i + 1) = 0x37
     then let restore = find_restore bs (i + 2)
          in if length bs \<le> restore + 1 then True
             else let after_restore = restore + 2
             in if length bs \<le> after_restore then True
             else if bs ! after_restore \<noteq> 0x1B then open_redraw_from bs (restore + 2)
             else if length bs \<le> after_restore + 1 then True
             else if bs ! (after_restore + 1) \<noteq> 0x5B then open_redraw_from bs (restore + 2)
             else let csi_end = find_csi_final bs (after_restore + 2)
             in if length bs \<le> csi_end then True
             else if clear_line (bs ! csi_end) (take (csi_end - after_restore - 2) (drop (after_restore + 2) bs)) then False
             else open_redraw_from bs (restore + 2)
     else open_redraw_from bs (i + 1))"
  by pat_completeness auto

termination
proof (relation "measure (\<lambda>(bs, i). length bs - i)", goal_cases)
  case (3 bs i restore after_restore)
  then show ?case using find_restore_ge [of "i + 2" bs] by simp
next
  case (4 bs i restore after_restore)
  then show ?case using find_restore_ge [of "i + 2" bs] by simp
next
  case (5 bs i restore after_restore csi_end)
  then show ?case using find_restore_ge [of "i + 2" bs] by simp
qed auto

declare open_redraw_from.simps [simp del]

definition has_open_dec_redraw_frame :: "bytes \<Rightarrow> bool" where
  "has_open_dec_redraw_frame bs = open_redraw_from bs 0"

section \<open>Redraw frames\<close>

definition has_control_byte :: "bytes \<Rightarrow> nat \<Rightarrow> nat \<Rightarrow> bool" where
  "has_control_byte data start end_ix = (\<exists>i \<in> set [start ..< end_ix]. data ! i < 0x20 \<or> data ! i = 0x7F)"

fun trim_right_spaces :: "bytes \<Rightarrow> nat \<Rightarrow> nat \<Rightarrow> nat" where
  "trim_right_spaces data start 0 = 0"
| "trim_right_spaces data start (Suc n) =
    (if start < Suc n \<and> (data ! n = 0x20 \<or> data ! n = 0x09) then trim_right_spaces data start n else Suc n)"

function skip_spaces :: "bytes \<Rightarrow> nat \<Rightarrow> nat \<Rightarrow> nat" where
  "skip_spaces data start end_ix =
    (if start < end_ix \<and> data ! start = 0x20 then skip_spaces data (start + 1) end_ix else start)"
  by pat_completeness auto

termination
  by (relation "measure (\<lambda>(data, start, end_ix). end_ix - start)") auto

function skip_digits :: "bytes \<Rightarrow> nat \<Rightarrow> nat \<Rightarrow> nat \<Rightarrow> nat \<times> nat" where
  "skip_digits data start end_ix digits =
    (if start < end_ix \<and> 0x30 \<le> data ! start \<and> data ! start \<le> 0x39 \<and> digits < 3
     then skip_digits data (start + 1) end_ix (digits + 1) else (start, digits))"
  by pat_completeness auto

termination
  by (relation "measure (\<lambda>(data, start, end_ix, digits). end_ix - start)") auto

declare skip_spaces.simps [simp del] skip_digits.simps [simp del]

text \<open>The comparison of a char with the digits is signed; bytes from 0x80 are negative there and
  above the digits here, outside the range in both.\<close>

definition looks_like_progress_payload :: "bytes \<Rightarrow> nat \<Rightarrow> nat \<Rightarrow> bool" where
  "looks_like_progress_payload data start end_ix =
    (case skip_digits data (skip_spaces data start end_ix) end_ix 0 of
       (start, digits) \<Rightarrow> 0 < digits \<and> start < end_ix \<and> data ! start = 0x25)"

text \<open>The end of the sequence, its parameters and its final byte.\<close>

definition parse_csi_final :: "bytes \<Rightarrow> nat \<Rightarrow> (nat \<times> bytes \<times> u8) option" where
  "parse_csi_final data start =
    (if length data < start + 2 \<or> data ! start \<noteq> 0x1B \<or> data ! (start + 1) \<noteq> 0x5B then None
     else let pos = find_csi_final data (start + 2)
          in if length data \<le> pos then None
             else Some (pos + 1, take (pos - start - 2) (drop (start + 2) data), data ! pos))"

record norm_flags =
  dec_restore_pending_clear :: bool
  swallow_dec_clear :: bool
  swallow_dec_clear_cr :: bool

text \<open>A save/restore frame at \<open>i\<close>: whether it is cleared, the end of its payload, where to go on.\<close>

definition dec_frame :: "bytes \<Rightarrow> nat \<Rightarrow> (bool \<times> nat \<times> nat) option" where
  "dec_frame data i =
    (let restore = find_restore data (i + 2)
     in if \<not> restore + 1 < length data then None
        else let csi = parse_csi_final data (restore + 2);
                 has_clear = (case csi of None \<Rightarrow> False | Some (e, params, final) \<Rightarrow> clear_line final params);
                 simple_payload = (\<not> has_control_byte data (i + 2) restore);
                 progress_payload = looks_like_progress_payload data (i + 2) restore
             in if (has_clear \<or> progress_payload) \<and> simple_payload
                then Some (has_clear, trim_right_spaces data (i + 2) restore,
                       if has_clear
                       then let next = fst (the csi) in if next < length data \<and> data ! next = 0x0D then next + 1 else next
                       else restore + 2)
                else None)"

definition hide_clear :: bytes where
  "hide_clear = [0x1B, 0x5B, 0x3F, 0x32, 0x35, 0x6C, 0x0D, 0x1B, 0x5B, 0x32, 0x4B]"

definition park_show :: bytes where
  "park_show = [0x0D, 0x1B, 0x5B, 0x3F, 0x32, 0x35, 0x68]"

lemma parse_csi_final_end: "parse_csi_final data s = Some (e, params, f) \<Longrightarrow> s + 2 < e \<and> e \<le> length data"
  using find_csi_final_ge [of "s + 2" data] by (auto simp: parse_csi_final_def Let_def split: if_splits)

lemma dec_frame_next: "dec_frame data i = Some (c, p, next) \<Longrightarrow> i + 2 < next"
proof -
  assume f: "dec_frame data i = Some (c, p, next)"
  have "i + 2 \<le> find_restore data (i + 2)" by (rule find_restore_ge)
  then show ?thesis using f parse_csi_final_end [of data "find_restore data (i + 2) + 2"]
    by (fastforce simp: dec_frame_def Let_def split: if_splits option.splits prod.splits)
qed

text \<open>The body of the loop at index \<open>i\<close>: where the next round starts, the flags, and what it appends.\<close>

definition norm_step :: "bytes \<Rightarrow> nat \<Rightarrow> norm_flags \<Rightarrow> nat \<times> norm_flags \<times> bytes" where
  "norm_step data i fl =
    (if swallow_dec_clear_cr fl \<and> data ! i = 0x0D then (i + 1, fl\<lparr>swallow_dec_clear_cr := False\<rparr>, [])
     else let fl = fl\<lparr>swallow_dec_clear_cr := False\<rparr>;
              esc = (data ! i = 0x1B \<and> i + 1 < length data);
              frame = (if esc \<and> data ! (i + 1) = 0x37 then dec_frame data i else None);
              csi = (if esc \<and> data ! (i + 1) = 0x5B then parse_csi_final data i else None)
     in case frame of
       Some (has_clear, payload_end, next) \<Rightarrow>
         (next,
          fl\<lparr>dec_restore_pending_clear := False, swallow_dec_clear := (if has_clear then swallow_dec_clear fl else True)\<rparr>,
          hide_clear @ take (payload_end - (i + 2)) (drop (i + 2) data) @ park_show)
     | None \<Rightarrow>
        if esc \<and> data ! (i + 1) = 0x38
        then (i + 2, fl\<lparr>dec_restore_pending_clear := True\<rparr>, [data ! i, data ! (i + 1)])
        else case csi of
          Some (end_ix, params, final) \<Rightarrow>
            if swallow_dec_clear fl \<and> clear_line final params
            then (end_ix, fl\<lparr>swallow_dec_clear := False, swallow_dec_clear_cr := True\<rparr>, [])
            else let fl = fl\<lparr>swallow_dec_clear := False\<rparr>; seq_text = take (end_ix - i) (drop i data)
                 in if dec_restore_pending_clear fl \<and> clear_line final params
                    then (end_ix, fl\<lparr>dec_restore_pending_clear := False\<rparr>, seq_text @ [0x0D])
                    else (end_ix, if final \<noteq> 0x4B then fl\<lparr>dec_restore_pending_clear := False\<rparr> else fl, seq_text)
        | None \<Rightarrow>
            (i + 1,
             if \<not> esc \<and> data ! i \<noteq> 0x20 \<and> data ! i \<noteq> 0x09
             then fl\<lparr>dec_restore_pending_clear := False, swallow_dec_clear := False\<rparr> else fl,
             [data ! i]))"

lemma norm_step_next: "norm_step data i fl = (j, fl', bs) \<Longrightarrow> i < j"
  unfolding norm_step_def Let_def
  by (auto dest!: dec_frame_next parse_csi_final_end split: if_splits option.splits)

function norm_loop :: "bytes \<Rightarrow> nat \<Rightarrow> norm_flags \<Rightarrow> bytes \<Rightarrow> bytes \<times> norm_flags" where
  "norm_loop data i fl out =
    (if length data \<le> i then (out, fl)
     else case norm_step data i fl of (j, fl', bs) \<Rightarrow> norm_loop data j fl' (out @ bs))"
  by pat_completeness auto

termination
  by (relation "measure (\<lambda>(data, i, _, _). length data - i)") (auto dest!: norm_step_next [OF sym])

declare norm_loop.simps [simp del]

definition normalize_host_terminal_bytes :: "norm_flags \<Rightarrow> bytes \<Rightarrow> bytes \<times> norm_flags" where
  "normalize_host_terminal_bytes fl data = norm_loop data 0 fl []"

definition NormalizeHostTerminalBytesForTest :: "bytes \<Rightarrow> bytes" where
  "NormalizeHostTerminalBytesForTest data =
     fst (normalize_host_terminal_bytes
            \<lparr>dec_restore_pending_clear = False, swallow_dec_clear = False, swallow_dec_clear_cr = False\<rparr> data)"

section \<open>Cursor reports\<close>

fun decimal :: "nat \<Rightarrow> bytes" where
  "decimal n = (if n < 10 then [of_nat (0x30 + n)] else decimal (n div 10) @ [of_nat (0x30 + n mod 10)])"

text \<open>GetConsoleScreenBufferInfo gives the cursor and window positions (X, Y, Left, Top), or fails.\<close>

type_synonym console_info = "(int \<times> int \<times> int \<times> int) option"

definition cursor_position_report :: "console_info \<Rightarrow> bytes" where
  "cursor_position_report info =
    (case info of
       Some (x, y, win_left, win_top) \<Rightarrow>
         let row = max 1 (y - win_top + 1); col = max 1 (x - win_left + 1)
         in [0x1B, 0x5B] @ decimal (nat row) @ [0x3B] @ decimal (nat col) @ [0x52]
     | None \<Rightarrow> [0x1B, 0x5B, 0x31, 0x3B, 0x31, 0x52])"

section \<open>Where a buffer is cut\<close>

definition parse :: "bytes \<Rightarrow> parse_state \<times> bool" where
  "parse bs = (case safe_loop 0 bs (PNormal, False, 0) of (s, osc_esc, _) \<Rightarrow> (s, osc_esc))"

lemma safe_loop_append: "safe_loop i (xs @ ys) s = safe_loop (i + length xs) ys (safe_loop i xs s)"
  by (induction xs arbitrary: i s) auto

text \<open>The parser state does not depend on the index or on the cut found so far.\<close>

lemma safe_step_parse:
  "(case safe_step i b (s, e, n) of (s', e', _) \<Rightarrow> (s', e')) = (case safe_step j b (s, e, m) of (s', e', _) \<Rightarrow> (s', e'))"
  by (cases s) auto

lemma safe_loop_parse:
  "(case safe_loop i bs (s, e, n) of (s', e', _) \<Rightarrow> (s', e')) = (case safe_loop j bs (s, e, m) of (s', e', _) \<Rightarrow> (s', e'))"
proof (induction bs arbitrary: i j s e n m)
  case (Cons b bs)
  obtain s' e' n' m' where "safe_step i b (s, e, n) = (s', e', n')" "safe_step j b (s, e, m) = (s', e', m')"
    using safe_step_parse [of i b s e n j m] by (auto split: prod.splits)
  then show ?case using Cons.IH by simp
qed simp

lemma safe_loop_inv:
  "safe_loop 0 bs (PNormal, False, 0) = (s, e, safe) \<Longrightarrow>
   (s \<noteq> POsc \<longrightarrow> \<not> e) \<and> safe \<le> length bs \<and> parse (take safe bs) = (PNormal, False)"
proof (induction bs arbitrary: s e safe rule: rev_induct)
  case (snoc b bs)
  obtain s0 e0 n0 where l: "safe_loop 0 bs (PNormal, False, 0) = (s0, e0, n0)" using prod_cases3 by blast
  have step: "safe_step (length bs) b (s0, e0, n0) = (s, e, safe)"
    using snoc.prems by (simp add: safe_loop_append l)
  have p: "parse (bs @ [b]) = (s, e)" by (simp add: parse_def snoc.prems)
  have "safe = n0 \<or> safe = Suc (length bs) \<and> s = PNormal \<and> \<not> e"
    using step snoc.IH [OF l] by (cases s0) (auto split: if_splits)
  moreover have "s \<noteq> POsc \<longrightarrow> \<not> e" using step snoc.IH [OF l] by (cases s0) (auto split: if_splits)
  ultimately show ?case using snoc.IH [OF l] p by auto
qed (simp add: parse_def)

section \<open>Frames at any offset\<close>

text \<open>Every scan looks forward only, so a byte in front shifts its result by one.\<close>

lemma find_restore_shift: "find_restore (x # data) (Suc r) = Suc (find_restore data r)"
  by (induction data r rule: find_restore.induct) (subst (1 2) find_restore.simps, simp)

lemma find_csi_final_shift: "find_csi_final (x # data) (Suc p) = Suc (find_csi_final data p)"
  by (induction data p rule: find_csi_final.induct) (subst (1 2) find_csi_final.simps, simp)

lemma parse_csi_final_shift:
  "parse_csi_final (x # data) (Suc s) = map_option (\<lambda>(e, params, f). (Suc e, params, f)) (parse_csi_final data s)"
  using find_csi_final_ge [of "s + 2" data]
  by (simp add: parse_csi_final_def Let_def find_csi_final_shift Suc_diff_le)

lemma has_control_byte_shift: "has_control_byte (x # data) (Suc s) (Suc e) = has_control_byte data s e"
proof -
  have "set [Suc s ..< Suc e] = Suc ` set [s ..< e]" by (simp only: set_upt image_Suc_atLeastLessThan)
  then show ?thesis by (simp only: has_control_byte_def bex_simps image_iff) auto
qed

lemma trim_right_spaces_shift: "trim_right_spaces (x # data) (Suc s) (Suc e) = Suc (trim_right_spaces data s e)"
  by (induction e) auto

lemma skip_spaces_shift: "skip_spaces (x # data) (Suc s) (Suc e) = Suc (skip_spaces data s e)"
  by (induction data s e rule: skip_spaces.induct) (subst (1 2) skip_spaces.simps, simp)

lemma skip_digits_shift:
  "skip_digits (x # data) (Suc s) (Suc e) d = (case skip_digits data s e d of (s', d') \<Rightarrow> (Suc s', d'))"
  by (induction data s e d rule: skip_digits.induct) (subst (1 2) skip_digits.simps, simp)

lemma progress_shift: "looks_like_progress_payload (x # data) (Suc s) (Suc e) = looks_like_progress_payload data s e"
  by (simp add: looks_like_progress_payload_def skip_spaces_shift skip_digits_shift split: prod.split)

lemmas scan_shift = find_restore_shift find_csi_final_shift parse_csi_final_shift has_control_byte_shift
  trim_right_spaces_shift progress_shift

lemma dec_frame_shift:
  "dec_frame (x # data) (Suc i) = map_option (\<lambda>(c, p, n). (c, Suc p, Suc n)) (dec_frame data i)"
proof -
  have "find_restore (x # data) (Suc (Suc (Suc i))) = Suc (find_restore data (Suc (Suc i)))" by (rule find_restore_shift)
  then show ?thesis
    by (cases "parse_csi_final data (Suc (Suc (find_restore data (Suc (Suc i)))))")
      (auto simp: dec_frame_def Let_def scan_shift simp del: trim_right_spaces.simps)
qed

lemma norm_step_shift:
  "norm_step (x # data) (Suc i) fl = (case norm_step data i fl of (j, fl', bs) \<Rightarrow> (Suc j, fl', bs))"
proof -
  have nth: "(x # data) ! Suc k = data ! k" "drop (Suc k) (x # data) = drop k data" for k by simp_all
  show ?thesis unfolding norm_step_def Let_def
    by (cases "parse_csi_final data i"; cases "dec_frame data i")
      (auto simp: scan_shift dec_frame_shift nth split: prod.splits)
qed

lemma norm_loop_shift: "norm_loop (x # data) (Suc i) fl out = norm_loop data i fl out"
proof (induction data i fl out rule: norm_loop.induct)
  case (1 data i fl out)
  then show ?case
    by (subst (1 2) norm_loop.simps) (auto simp: norm_step_shift split: prod.split)
qed

lemma norm_loop_prefix: "norm_loop (xs @ data) (length xs + i) fl out = norm_loop data i fl out"
  by (induction xs) (simp_all add: norm_loop_shift)

lemma norm_loop_out:
  "norm_loop data i fl (pre @ out) = (case norm_loop data i fl out of (o', fl') \<Rightarrow> (pre @ o', fl'))"
proof (induction data i fl out rule: norm_loop.induct)
  case (1 data i fl out)
  then show ?case
    by (subst (1 2) norm_loop.simps) (auto split: prod.split)
qed

abbreviation clean_flags :: norm_flags where
  "clean_flags \<equiv> \<lparr>dec_restore_pending_clear = False, swallow_dec_clear = False, swallow_dec_clear_cr = False\<rparr>"

lemma norm_loop_plain:
  "0x1B \<notin> set pre \<Longrightarrow> norm_loop (pre @ data) 0 clean_flags out = norm_loop data 0 clean_flags (out @ pre)"
proof (induction pre arbitrary: out)
  case (Cons b pre)
  have "norm_step (b # pre @ data) 0 clean_flags = (Suc 0, clean_flags, [b])"
    using Cons.prems by (auto simp: norm_step_def Let_def)
  then have "norm_loop ((b # pre) @ data) 0 clean_flags out = norm_loop (b # pre @ data) (Suc 0) clean_flags (out @ [b])"
    by (subst norm_loop.simps) simp
  then show ?case using Cons by (simp add: norm_loop_shift)
qed simp

section \<open>A progress frame\<close>

lemma find_restore_skip:
  "0x1B \<notin> set xs \<Longrightarrow> find_restore (xs @ 0x1B # 0x38 # ys) 0 = length xs"
proof (induction xs)
  case (Cons x xs)
  then show ?case by (subst find_restore.simps) (simp add: find_restore_shift)
qed (simp add: find_restore.simps)

lemma trim_right_spaces_pad:
  assumes "set pad \<subseteq> {0x20, 0x09}" and "payload = [] \<or> last payload \<notin> {0x20, 0x09}"
  shows "trim_right_spaces (payload @ pad @ ys) 0 (length payload + length pad) = length payload"
  using assms(1)
proof (induction pad arbitrary: ys rule: rev_induct)
  case Nil
  show ?case
  proof (cases payload rule: rev_cases)
    case (snoc zs z)
    then show ?thesis using assms(2) by simp
  qed simp
next
  case (snoc c pad)
  then show ?case using snoc.IH [of "c # ys"] by (simp add: nth_append)
qed

lemma no_control_iff: "\<not> has_control_byte (xs @ ys) 0 (length xs) \<longleftrightarrow> (\<forall>b \<in> set xs. \<not> b < 0x20 \<and> b \<noteq> 0x7F)"
  by (auto simp: has_control_byte_def nth_append all_set_conv_all_nth)

lemma dec_frame_clear:
  assumes "\<forall>b \<in> set (payload @ pad). \<not> b < 0x20 \<and> b \<noteq> 0x7F" and "set pad \<subseteq> {0x20}"
    and "payload = [] \<or> last payload \<noteq> 0x20"
  shows "dec_frame (0x1B # 0x37 # payload @ pad @ 0x1B # 0x38 # 0x1B # 0x5B # 0x30 # 0x4B # 0x0D # rest) 0
      = Some (True, 2 + length payload, 2 + length payload + length pad + 7)"
proof -
  let ?t = "0x1B # 0x38 # 0x1B # 0x5B # 0x30 # 0x4B # 0x0D # rest" and ?n = "length payload + length pad"
  let ?d = "payload @ pad @ ?t"
  have noesc: "0x1B \<notin> set (payload @ pad)" using bspec [OF assms(1), of "0x1B"] by auto
  have last9: "payload = [] \<or> last payload \<noteq> 0x09" using bspec [OF assms(1), of "0x09"] by (cases payload rule: rev_cases) auto
  have restore: "find_restore ?d 0 = ?n" using find_restore_skip [OF noesc, of "0x1B # 0x5B # 0x30 # 0x4B # 0x0D # rest"] by simp
  have trim: "trim_right_spaces ?d 0 ?n = length payload"
    using assms(2,3) last9 by (intro trim_right_spaces_pad) auto
  have ctl: "\<not> has_control_byte ?d 0 ?n" using assms(1) no_control_iff [of "payload @ pad" ?t] by simp
  have fin: "find_csi_final ?d (?n + 4) = ?n + 5"
    by (subst find_csi_final.simps, simp add: nth_append is_csi_final_def)
      (subst find_csi_final.simps, simp add: nth_append is_csi_final_def)
  have csi: "parse_csi_final ?d (?n + 2) = Some (?n + 6, [0x30], 0x4B)"
    using fin by (simp add: parse_csi_final_def Let_def nth_append eval_nat_numeral)
  show ?thesis
    using restore trim ctl csi
    by (simp add: dec_frame_def Let_def scan_shift eval_nat_numeral clear_line_def nth_append del: trim_right_spaces.simps)
qed

section \<open>Properties\<close>

text \<open>Wherever terminal_safe_prefix cuts the pending bytes, no escape sequence is split: at the
  cut the parser is back in its initial state, so parsing the rest on its own ends in the same
  state as parsing everything.\<close>

theorem terminal_safe_prefix_splits_no_sequence:
  "terminal_safe_prefix bs \<le> length bs \<and> parse (take (terminal_safe_prefix bs) bs) = parse []
   \<and> parse (drop (terminal_safe_prefix bs) bs) = parse bs"
proof -
  obtain s e safe where l: "safe_loop 0 bs (PNormal, False, 0) = (s, e, safe)" using prod_cases3 by blast
  then have safe: "terminal_safe_prefix bs = safe" by (simp add: terminal_safe_prefix_def)
  note i = safe_loop_inv [OF l]
  obtain n where n: "safe_loop 0 (take safe bs) (PNormal, False, 0) = (PNormal, False, n)"
    using i by (auto simp: parse_def split: prod.splits)
  have "parse bs = parse (take safe bs @ drop safe bs)" by simp
  also have "\<dots> = parse (drop safe bs)"
    unfolding parse_def safe_loop_append n by (rule safe_loop_parse)
  finally show ?thesis using i by (simp add: safe parse_def)
qed

text \<open>A redraw frame (save cursor, a line of printable payload padded with blanks, restore cursor,
  clear to end of line, carriage return) after any text without escapes is rewritten to: the text,
  hide the cursor and clear the line, the payload without its padding, carriage return and show the
  cursor; what follows is normalised as if it stood alone.\<close>

theorem normalize_rewrites_redraw_frame:
  assumes "0x1B \<notin> set pre" and "\<forall>b \<in> set (payload @ pad). \<not> b < 0x20 \<and> b \<noteq> 0x7F"
    and "set pad \<subseteq> {0x20}" and "payload = [] \<or> last payload \<noteq> 0x20"
  shows "NormalizeHostTerminalBytesForTest
      (pre @ 0x1B # 0x37 # payload @ pad @ 0x1B # 0x38 # 0x1B # 0x5B # 0x30 # 0x4B # 0x0D # rest)
    = pre @ hide_clear @ payload @ park_show @ NormalizeHostTerminalBytesForTest rest"
proof -
  let ?f = "0x1B # 0x37 # payload @ pad @ 0x1B # 0x38 # 0x1B # 0x5B # 0x30 # 0x4B # [0x0D]"
  have d: "pre @ 0x1B # 0x37 # payload @ pad @ 0x1B # 0x38 # 0x1B # 0x5B # 0x30 # 0x4B # 0x0D # rest = pre @ (?f @ rest)" by simp
  have "norm_step (?f @ rest) 0 clean_flags = (length ?f, clean_flags, hide_clear @ payload @ park_show)"
    using dec_frame_clear [OF assms(2-4), of rest] by (simp add: norm_step_def Let_def)
  then have "norm_loop (?f @ rest) 0 clean_flags pre = norm_loop (?f @ rest) (length ?f) clean_flags (pre @ hide_clear @ payload @ park_show)"
    by (subst norm_loop.simps) simp
  also have "\<dots> = norm_loop rest 0 clean_flags (pre @ hide_clear @ payload @ park_show)"
    using norm_loop_prefix [of ?f rest 0] by simp
  also have "\<dots> = (case norm_loop rest 0 clean_flags [] of (o', fl') \<Rightarrow> ((pre @ hide_clear @ payload @ park_show) @ o', fl'))"
    using norm_loop_out [of rest 0 clean_flags "pre @ hide_clear @ payload @ park_show" "[]"] by simp
  finally show ?thesis
    unfolding NormalizeHostTerminalBytesForTest_def normalize_host_terminal_bytes_def d
    by (subst norm_loop_plain [OF assms(1)]) (simp split: prod.split)
qed

theorem normalize_rewrites_redraw_frame_witness:
  "NormalizeHostTerminalBytesForTest
     [0x61, 0x1B, 0x37, 0x35, 0x25, 0x20, 0x20, 0x1B, 0x38, 0x1B, 0x5B, 0x30, 0x4B, 0x0D, 0x62]
   = [0x61] @ hide_clear @ [0x35, 0x25] @ park_show @ NormalizeHostTerminalBytesForTest [0x62]"
  using normalize_rewrites_redraw_frame [of "[0x61]" "[0x35, 0x25]" "[0x20, 0x20]" "[0x62]"] by simp

end
