(* ===== verification/Console_Threads.thy ===== *)
theory Console_Threads
  imports Console_Writer
begin

text \<open>
  The threads around the pending buffer of native/whp/console_writer.h: callers of write and
  flush_pending, and the writer thread. A section under the mutex mu is one event; between
  taking bytes out of the buffer and writing them under file_mu a thread holds them, and
  other events may come in between. \<open>cw_accepted\<close> records the bytes in the order they entered
  the buffer; \<open>cw_file\<close> the chunks in the order they reach write_file; \<open>cw_flushes\<close> counts the calls
  of flush_locked.
\<close>

text \<open>A caller inside flush_locked: the chunk it still has to write, and the bytes that write
  appends afterwards.\<close>

record cw =
  cw_enabled :: bool
  cw_stopping :: bool
  cw_pending :: bytes
  cw_writer :: "bytes option"
  cw_callers :: "(bytes option \<times> bytes) list"
  cw_file :: "bytes list"
  cw_accepted :: bytes
  cw_flushes :: nat

definition cw_init :: cw where
  "cw_init = \<lparr>cw_enabled = True, cw_stopping = False, cw_pending = [], cw_writer = None, cw_callers = [],
     cw_file = [], cw_accepted = [], cw_flushes = 0\<rparr>"

datatype cw_event = Write bytes | FlushPending | CallerFile nat | CallerResume nat
  | WriterTake bool | WriterFile | Stop | WriterExit

definition cw_append :: "cw \<Rightarrow> bytes \<Rightarrow> cw" where
  "cw_append s bs = (if \<not> cw_enabled s \<or> cw_stopping s then s
     else s\<lparr>cw_pending := cw_pending s @ bs, cw_accepted := cw_accepted s @ bs\<rparr>)"

text \<open>flush_locked up to its unlock.\<close>

definition flush_begin :: "cw \<Rightarrow> bytes \<Rightarrow> cw" where
  "flush_begin s later = s\<lparr>cw_pending := [], cw_callers := cw_callers s @ [(Some (cw_pending s), later)],
     cw_flushes := cw_flushes s + 1\<rparr>"

definition cw_write :: "cw \<Rightarrow> bytes \<Rightarrow> cw option" where
  "cw_write s bs =
    (if bs = [] then Some s
     else if \<not> (cw_stopping s \<or> \<not> cw_enabled s \<or> length (cw_pending s) < kMaxPendingBytes) then None
     else if \<not> cw_enabled s \<or> cw_stopping s then Some s
     else if kMaxPendingBytes < length (cw_pending s) + length bs then Some (flush_begin s bs)
     else Some (cw_append s bs))"

text \<open>How much the writer thread takes. A timeout may be seen with values from before the last
  append; it takes everything.\<close>

definition writer_cut :: "cw \<Rightarrow> bool \<Rightarrow> nat" where
  "writer_cut s timeout =
    (let p = cw_pending s; safe = terminal_safe_prefix p; open_redraw = has_open_dec_redraw_frame p
     in if timeout \<or> safe = 0 \<or> open_redraw \<or> kFlushThreshold \<le> length p \<or> cw_stopping s then length p else safe)"

definition writer_ready :: "cw \<Rightarrow> bool \<Rightarrow> bool" where
  "writer_ready s timeout \<longleftrightarrow>
     timeout \<or> cw_stopping s \<or> kFlushThreshold \<le> length (cw_pending s) \<or>
     terminal_safe_prefix (cw_pending s) \<noteq> 0 \<and> \<not> has_open_dec_redraw_frame (cw_pending s)"

fun cw_step :: "cw \<Rightarrow> cw_event \<Rightarrow> cw option" where
  "cw_step s (Write bs) = cw_write s bs"
| "cw_step s FlushPending = Some (flush_begin s [])"
| "cw_step s (CallerFile n) =
    (if n < length (cw_callers s)
     then case cw_callers s ! n of
            (Some c, later) \<Rightarrow> Some (s\<lparr>cw_file := cw_file s @ [c], cw_callers := (cw_callers s)[n := (None, later)]\<rparr>)
          | (None, later) \<Rightarrow> None
     else None)"
| "cw_step s (CallerResume n) =
    (if n < length (cw_callers s) \<and> fst (cw_callers s ! n) = None
     then Some (cw_append (s\<lparr>cw_callers := take n (cw_callers s) @ drop (n + 1) (cw_callers s)\<rparr>) (snd (cw_callers s ! n)))
     else None)"
| "cw_step s (WriterTake timeout) =
    (if cw_writer s = None \<and> cw_pending s \<noteq> [] \<and> writer_ready s timeout
     then let n = writer_cut s timeout
          in Some (s\<lparr>cw_writer := Some (take n (cw_pending s)), cw_pending := drop n (cw_pending s)\<rparr>)
     else None)"
| "cw_step s WriterFile =
    (case cw_writer s of None \<Rightarrow> None | Some c \<Rightarrow> Some (s\<lparr>cw_file := cw_file s @ [c], cw_writer := None\<rparr>))"
| "cw_step s Stop = Some (s\<lparr>cw_stopping := True\<rparr>)"
| "cw_step s WriterExit =
    (if cw_writer s = None \<and> cw_pending s = [] \<and> cw_stopping s then Some (s\<lparr>cw_enabled := False\<rparr>) else None)"

definition backed_up :: "cw \<Rightarrow> bool" where
  "backed_up s \<longleftrightarrow> kBackpressureBytes \<le> length (cw_pending s)"

inductive cw_run :: "cw \<Rightarrow> cw_event list \<Rightarrow> cw \<Rightarrow> bool" where
  run_nil: "cw_run s [] s"
| run_cons: "cw_step s e = Some s' \<Longrightarrow> cw_run s' es s'' \<Longrightarrow> cw_run s (e # es) s''"

inductive_cases cw_run_nilE: "cw_run s [] s'"
inductive_cases cw_run_consE: "cw_run s (e # es) s'"

text \<open>The loop of write_file: \<open>host k n\<close> is what the k-th WriteFile of n bytes reports, None for a
  failure. Zero bytes written is a retry, so the loop is bounded by fuel.\<close>

fun write_file_loop :: "(nat \<Rightarrow> nat \<Rightarrow> nat option) \<Rightarrow> nat \<Rightarrow> nat \<Rightarrow> bytes \<Rightarrow> bytes \<Rightarrow> bytes option" where
  "write_file_loop host 0 k out data = None"
| "write_file_loop host (Suc fuel) k out data =
    (if data = [] then Some out
     else let chunk = min (length data) (64 * 1024)
          in case host k chunk of
               None \<Rightarrow> Some out
             | Some n \<Rightarrow> write_file_loop host fuel (k + 1) (out @ take n data) (drop n data))"

section \<open>Conservation\<close>

definition chunk_of :: "bytes option \<Rightarrow> bytes" where
  "chunk_of c = (case c of None \<Rightarrow> [] | Some b \<Rightarrow> b)"

lemma chunk_of_simps [simp]: "chunk_of None = []" "chunk_of (Some b) = b"
  by (simp_all add: chunk_of_def)

definition held :: "cw \<Rightarrow> bytes" where
  "held s = concat (map (chunk_of \<circ> fst) (cw_callers s)) @ chunk_of (cw_writer s)"

definition conserved :: "cw \<Rightarrow> bool" where
  "conserved s \<longleftrightarrow> mset (cw_accepted s) = mset (concat (cw_file s)) + mset (held s) + mset (cw_pending s)"

lemma callers_split: "n < length xs \<Longrightarrow> xs = take n xs @ xs ! n # drop (n + 1) xs"
  by (simp add: id_take_nth_drop)

lemma held_caller:
  assumes "n < length (cw_callers s)"
  shows "mset (held s) = mset (concat (map (chunk_of \<circ> fst) (take n (cw_callers s) @ drop (n + 1) (cw_callers s))))
    + mset (chunk_of (fst (cw_callers s ! n))) + mset (chunk_of (cw_writer s))"
proof -
  have "map (chunk_of \<circ> fst) (cw_callers s) =
      map (chunk_of \<circ> fst) (take n (cw_callers s) @ cw_callers s ! n # drop (n + 1) (cw_callers s))"
    using callers_split [OF assms] by simp
  then show ?thesis unfolding held_def by simp
qed

lemma conserved_append: "conserved s \<Longrightarrow> conserved (cw_append s bs)"
  by (simp add: conserved_def cw_append_def held_def)

lemma conserved_flush: "conserved s \<Longrightarrow> conserved (flush_begin s bs)"
  by (simp add: conserved_def flush_begin_def held_def)

lemma conserved_step: "conserved s \<Longrightarrow> cw_step s e = Some s' \<Longrightarrow> conserved s'"
proof (induction s e rule: cw_step.induct)
  case (1 s bs)
  then show ?case
    by (auto simp: cw_write_def conserved_append conserved_flush split: if_splits)
next
  case (3 s n)
  then obtain c later where n: "n < length (cw_callers s)" "cw_callers s ! n = (Some c, later)"
    "s' = s\<lparr>cw_file := cw_file s @ [c], cw_callers := (cw_callers s)[n := (None, later)]\<rparr>"
    by (auto split: if_splits prod.splits option.splits)
  have "mset (held s') = mset (concat (map (chunk_of \<circ> fst) (take n (cw_callers s) @ drop (n + 1) (cw_callers s))))
      + mset (chunk_of (cw_writer s))"
    using n held_caller [of n s'] by simp
  then show ?case using "3.prems"(1) held_caller [OF n(1)] n(2,3) by (simp add: conserved_def)
next
  case (4 s n)
  then have n: "n < length (cw_callers s)" "fst (cw_callers s ! n) = None"
    "s' = cw_append (s\<lparr>cw_callers := take n (cw_callers s) @ drop (n + 1) (cw_callers s)\<rparr>) (snd (cw_callers s ! n))"
    by (auto split: if_splits)
  have "conserved (s\<lparr>cw_callers := take n (cw_callers s) @ drop (n + 1) (cw_callers s)\<rparr>)"
    using "4.prems"(1) held_caller [OF n(1)] n(2) by (simp add: conserved_def) (simp add: held_def)
  then show ?case using n(3) by (simp add: conserved_append)
next
  case (5 s timeout)
  then have "s' = s\<lparr>cw_writer := Some (take (writer_cut s timeout) (cw_pending s)), cw_pending := drop (writer_cut s timeout) (cw_pending s)\<rparr>"
    "cw_writer s = None" by (auto simp: Let_def split: if_splits)
  moreover have "mset (cw_pending s) = mset (take (writer_cut s timeout) (cw_pending s)) + mset (drop (writer_cut s timeout) (cw_pending s))"
    by (metis append_take_drop_id mset_append)
  ultimately show ?case using "5.prems"(1) by (simp add: conserved_def held_def)
qed (auto simp: flush_begin_def conserved_def held_def split: option.splits if_splits)

lemma run_conserved: "cw_run s es s' \<Longrightarrow> conserved s \<Longrightarrow> conserved s'"
  by (induction rule: cw_run.induct) (auto intro: conserved_step)

section \<open>Order\<close>

definition in_order :: "cw \<Rightarrow> bool" where
  "in_order s \<longleftrightarrow> cw_flushes s = 0 \<longrightarrow>
     cw_callers s = [] \<and> cw_accepted s = concat (cw_file s) @ chunk_of (cw_writer s) @ cw_pending s"

lemma in_order_step: "in_order s \<Longrightarrow> cw_step s e = Some s' \<Longrightarrow> in_order s'"
  by (cases e) (auto simp: in_order_def cw_write_def cw_append_def flush_begin_def Let_def split: if_splits option.splits prod.splits)

lemma run_in_order: "cw_run s es s' \<Longrightarrow> in_order s \<Longrightarrow> in_order s'"
  by (induction rule: cw_run.induct) (auto intro: in_order_step)

lemma write_file_loop_delivers:
  "\<forall>k n. 0 < n \<longrightarrow> (\<exists>m. host k n = Some m \<and> 0 < m \<and> m \<le> n) \<Longrightarrow> length data < fuel
   \<Longrightarrow> write_file_loop host fuel k out data = Some (out @ data)"
proof (induction fuel arbitrary: k out data)
  case (Suc fuel)
  show ?case
  proof (cases "data = []")
    case False
    let ?c = "min (length data) (64 * 1024)"
    obtain m where m: "host k ?c = Some m" "0 < m" using Suc.prems(1) [rule_format, of ?c k] False by auto
    have "write_file_loop host fuel (k + 1) (out @ take m data) (drop m data) = Some ((out @ take m data) @ drop m data)"
      using Suc.IH [OF Suc.prems(1), of "drop m data"] Suc.prems(2) m(2) False by (cases data) auto
    then show ?thesis using m(1) False by (simp add: Let_def)
  qed simp
qed simp

section \<open>Properties\<close>



text \<open>As long as no caller flushes (the writer thread alone writes to the file), the file receives
  the bytes in the order they were written: file, chunk in the writer's hand and buffer concatenate
  to what was accepted.\<close>

theorem cw_writer_keeps_order:
  assumes "cw_run cw_init es s" and "cw_flushes s = 0"
  shows "cw_accepted s = concat (cw_file s) @ chunk_of (cw_writer s) @ cw_pending s"
  using run_in_order [OF assms(1)] assms(2) by (simp add: in_order_def cw_init_def)

theorem cw_writer_keeps_order_witness:
  "\<exists>s. cw_run cw_init [Write [0x61], Write [0x62], WriterTake True, WriterFile] s
     \<and> cw_accepted s = concat (cw_file s) @ chunk_of (cw_writer s) @ cw_pending s"
proof -
  let ?s = "cw_init\<lparr>cw_file := [[0x61, 0x62]], cw_accepted := [0x61, 0x62]\<rparr>"
  have r: "cw_run cw_init [Write [0x61], Write [0x62], WriterTake True, WriterFile] ?s"
    by (auto intro!: cw_run.intros simp: cw_init_def cw_write_def cw_append_def kMaxPendingBytes_def writer_ready_def
        writer_cut_def Let_def)
  moreover have "cw_flushes ?s = 0" by (simp add: cw_init_def)
  ultimately show ?thesis using cw_writer_keeps_order [OF r] by blast
qed

text \<open>With a caller that flushes, as every cursor report does, the order is lost: the writer thread
  takes the first bytes, the flusher takes and writes the second, and only then the writer thread
  writes what it holds.\<close>

theorem cw_flush_reorders:
  "\<exists>s. cw_run cw_init [Write [0x61], WriterTake True, Write [0x62], FlushPending, CallerFile 0, CallerResume 0, WriterFile] s
     \<and> cw_accepted s = [0x61, 0x62] \<and> concat (cw_file s) = [0x62, 0x61] \<and> held s = [] \<and> cw_pending s = []"
proof (intro exI conjI)
  let ?s = "cw_init\<lparr>cw_file := [[0x62], [0x61]], cw_accepted := [0x61, 0x62], cw_flushes := 1\<rparr>"
  show "cw_run cw_init [Write [0x61], WriterTake True, Write [0x62], FlushPending, CallerFile 0, CallerResume 0, WriterFile] ?s"
    by (auto intro!: cw_run.intros simp: cw_init_def cw_write_def cw_append_def kMaxPendingBytes_def writer_ready_def
        writer_cut_def flush_begin_def Let_def)
qed (simp_all add: cw_init_def held_def)



end
