(* ===== verification/Page_Tables.thy ===== *)
theory Page_Tables
  imports Bytes
begin

unbundle bit_operations_syntax

text \<open>
  The boot page tables (native/whp/page_tables.cc). \<open>BuildPageTables\<close> is the code's loop
  nest; \<open>page_walk\<close> is the abstract specification, the four-level translation of an x86-64
  processor with CR3 at the table base, for the 2 MiB pages the tables use. The main facts:
  every address below 4 GiB translates to itself, present and writable, and the builder
  changes nothing outside the six pages it owns.
\<close>

section \<open>The builder\<close>

definition BuildPageTables :: "ram \<Rightarrow> u64 \<Rightarrow> ram" where
  "BuildPageTables mem base =
    (let page_size = 0x1000; flags = 0x07; huge = 0x83;
         pml4 = base; pdpt = base + page_size; pd = base + 2 * page_size
     in fold (\<lambda>i mem.
          let this_pd = pd + of_nat i * page_size
          in fold (\<lambda>j mem.
               let phys = of_nat (i * 512 + j) * 0x200000
               in WriteU64 mem (unat this_pd + j * 8) (phys OR huge))
             [0 ..< 512] (WriteU64 mem (unat pdpt + i * 8) (this_pd OR flags)))
        [0 ..< 4] (WriteU64 mem (unat pml4) (pdpt OR flags)))"

text \<open>Segment and table registers of the long-mode entry state. The bit-fields of
  WHV_X64_SEGMENT_REGISTER (SegmentType, NonSystemSegment, Present, Long, Default,
  Granularity) are bits 3:0, 4, 7, 13, 14 and 15 of its attribute word.\<close>

record segment_register =
  seg_base :: u64
  seg_limit :: u32
  seg_selector :: u16
  seg_attributes :: u16

record table_register =
  tbl_base :: u64
  tbl_limit :: u16

definition set_segment_type :: "u16 \<Rightarrow> u16 \<Rightarrow> u16" where
  "set_segment_type t attrs = (attrs AND NOT 0xF) OR (t AND 0xF)"

definition Segment :: "u16 \<Rightarrow> u16 \<Rightarrow> segment_register" where
  "Segment selector attributes =
     \<lparr>seg_base = 0, seg_limit = 0xffff, seg_selector = selector, seg_attributes = attributes\<rparr>"

definition LongCodeSegment :: segment_register where
  "LongCodeSegment =
    (let segment = Segment 0x08 0
     in segment\<lparr>seg_limit := 0xFFFFF,
          seg_attributes := set_bit 15 (set_bit 13 (set_bit 7 (set_bit 4
            (set_segment_type 11 (seg_attributes segment)))))\<rparr>)"

definition LongDataSegment :: segment_register where
  "LongDataSegment =
    (let segment = Segment 0x10 0
     in segment\<lparr>seg_limit := 0xFFFFF,
          seg_attributes := set_bit 15 (set_bit 14 (set_bit 7 (set_bit 4
            (set_segment_type 3 (seg_attributes segment)))))\<rparr>)"

definition Table :: "u64 \<Rightarrow> u16 \<Rightarrow> table_register" where
  "Table base limit = \<lparr>tbl_base = base, tbl_limit = limit\<rparr>"

section \<open>The translation a processor performs\<close>

text \<open>Bits 51:12 and 51:21 of an entry, the table index at a bit position, and the walk.\<close>

definition pt_addr :: "u64 \<Rightarrow> u64" where
  "pt_addr e = push_bit 12 (take_bit 40 (drop_bit 12 e))"

definition huge_addr :: "u64 \<Rightarrow> u64" where
  "huge_addr e = push_bit 21 (take_bit 31 (drop_bit 21 e))"

definition pt_index :: "nat \<Rightarrow> u64 \<Rightarrow> nat" where
  "pt_index k va = unat (take_bit 9 (drop_bit k va))"

definition next_table :: "ram \<Rightarrow> u64 \<Rightarrow> nat \<Rightarrow> u64 option" where
  "next_table m table idx =
     (let e = ReadU64 m (unat table + 8 * idx)
      in if bit e 0 \<and> bit e 1 \<and> \<not> bit e 7 then Some (pt_addr e) else None)"

definition huge_page :: "ram \<Rightarrow> u64 \<Rightarrow> nat \<Rightarrow> u64 option" where
  "huge_page m table idx =
     (let e = ReadU64 m (unat table + 8 * idx)
      in if bit e 0 \<and> bit e 1 \<and> bit e 7 then Some (huge_addr e) else None)"

definition page_walk :: "ram \<Rightarrow> u64 \<Rightarrow> u64 \<Rightarrow> u64 option" where
  "page_walk m cr3 va =
     Option.bind (next_table m cr3 (pt_index 39 va)) (\<lambda>pdpt.
     Option.bind (next_table m pdpt (pt_index 30 va)) (\<lambda>pd.
     Option.bind (huge_page m pd (pt_index 21 va)) (\<lambda>frame.
     Some (frame OR take_bit 21 va))))"

section \<open>Arrays of eight-byte entries\<close>

lemma fold_WriteU64_frame:
  "a < p \<or> p + 8 * n \<le> a \<Longrightarrow> fold (\<lambda>j m. WriteU64 m (p + j * 8) (f j)) [0 ..< n] m a = m a"
  by (induction n) (auto simp: cell64.store_frame)

lemma fold_WriteU64_read:
  "j < n \<Longrightarrow> ReadU64 (fold (\<lambda>j m. WriteU64 m (p + j * 8) (f j)) [0 ..< n] m) (p + j * 8) = f j"
proof (induction n)
  case 0
  then show ?case by simp
next
  case (Suc n)
  then show ?case by (cases "j = n") (auto simp: cell64.load_store_disjoint)
qed

section \<open>The layout of the tables the builder leaves behind\<close>

text \<open>One level-2 directory and its entry in the directory pointer table.\<close>

definition build_pd :: "nat \<Rightarrow> nat \<Rightarrow> nat \<Rightarrow> u64 \<Rightarrow> ram \<Rightarrow> ram" where
  "build_pd pdpt pd i entry mem =
     fold (\<lambda>j mem. WriteU64 mem (pd + j * 8) (of_nat (i * 512 + j) * 0x200000 OR 0x83)) [0 ..< 512]
       (WriteU64 mem (pdpt + i * 8) entry)"

lemma build_pd_frame:
  "\<lbrakk>a < pdpt + i * 8 \<or> pdpt + i * 8 + 8 \<le> a; a < pd \<or> pd + 4096 \<le> a\<rbrakk>
   \<Longrightarrow> build_pd pdpt pd i e m a = m a"
  by (simp add: build_pd_def fold_WriteU64_frame cell64.store_frame)

lemma build_pd_read_pd:
  "j < 512 \<Longrightarrow> ReadU64 (build_pd pdpt pd i e m) (pd + j * 8) = of_nat (i * 512 + j) * 0x200000 OR 0x83"
  unfolding build_pd_def by (rule fold_WriteU64_read)

lemma build_pd_read_pdpt:
  assumes "q = pdpt + i * 8" and "q + 8 \<le> pd"
  shows "ReadU64 (build_pd pdpt pd i e m) q = e"
proof -
  have "ReadU64 (build_pd pdpt pd i e m) q = ReadU64 (WriteU64 m q e) q"
    using assms unfolding build_pd_def by (intro cell64.load_agree) (simp add: fold_WriteU64_frame)
  then show ?thesis by simp
qed

lemma BuildPageTables_unfold:
  assumes "unat base + 0x6000 \<le> 2 ^ 32"
  shows "BuildPageTables mem base =
    (let B = unat base; pd = (\<lambda>i. B + 0x2000 + i * 0x1000);
         entry = (\<lambda>i. (base + 0x2000 + of_nat i * 0x1000) OR 7)
     in build_pd (B + 0x1000) (pd 3) 3 (entry 3) (build_pd (B + 0x1000) (pd 2) 2 (entry 2)
        (build_pd (B + 0x1000) (pd 1) 1 (entry 1) (build_pd (B + 0x1000) (pd 0) 0 (entry 0)
          (WriteU64 mem B ((base + 0x1000) OR 7))))))"
proof -
  have nowrap: "k \<le> 0x6000 \<Longrightarrow> unat (base + of_nat k) = unat base + k" for k
    using assms by (subst unat_add_no_wrap) (auto simp: unat_of_nat)
  have [simp]: "unat (base + 0x1000) = unat base + 0x1000" "unat (base + 0x2000) = unat base + 0x2000"
    "unat (base + 0x3000) = unat base + 0x3000" "unat (base + 0x4000) = unat base + 0x4000"
    "unat (base + 0x5000) = unat base + 0x5000"
    using nowrap [of "0x1000"] nowrap [of "0x2000"] nowrap [of "0x3000"] nowrap [of "0x4000"]
      nowrap [of "0x5000"] by simp_all
  have four: "[0 ..< 4] = [0, 1, 2, 3::nat]" by (simp add: upt_rec)
  show ?thesis unfolding BuildPageTables_def Let_def four build_pd_def by (simp add: add.assoc)
qed

lemma read_over_build_pd:
  "\<lbrakk>q + 8 \<le> pdpt + i * 8 \<or> pdpt + i * 8 + 8 \<le> q; q + 8 \<le> pd \<or> pd + 4096 \<le> q\<rbrakk>
   \<Longrightarrow> ReadU64 (build_pd pdpt pd i e m) q = ReadU64 m q"
  by (intro cell64.load_agree build_pd_frame) auto

lemma BuildPageTables_read:
  assumes "unat base + 0x6000 \<le> 2 ^ 32"
  shows pml4_read: "ReadU64 (BuildPageTables m base) (unat base) = (base + 0x1000) OR 7"
    and pdpt_read: "i < 4 \<Longrightarrow> ReadU64 (BuildPageTables m base) (unat base + 0x1000 + i * 8)
      = (base + 0x2000 + of_nat i * 0x1000) OR 7"
    and pd_read: "i < 4 \<Longrightarrow> j < 512 \<Longrightarrow>
      ReadU64 (BuildPageTables m base) (unat base + 0x2000 + i * 0x1000 + j * 8)
      = of_nat (i * 512 + j) * 0x200000 OR 0x83"
proof -
  note unf = BuildPageTables_unfold [OF assms, of m] Let_def
  show "ReadU64 (BuildPageTables m base) (unat base) = (base + 0x1000) OR 7"
    by (simp add: unf read_over_build_pd)
  have four: "i < 4 \<Longrightarrow> i = 0 \<or> i = 1 \<or> i = 2 \<or> i = (3::nat)" by arith
  show "ReadU64 (BuildPageTables m base) (unat base + 0x1000 + i * 8)
      = (base + 0x2000 + of_nat i * 0x1000) OR 7" if "i < 4"
    using four [OF that]
    by (elim disjE; simp add: unf read_over_build_pd build_pd_read_pdpt)
  show "ReadU64 (BuildPageTables m base) (unat base + 0x2000 + i * 0x1000 + j * 8)
      = of_nat (i * 512 + j) * 0x200000 OR 0x83" if "i < 4" "j < 512"
    using four [OF that(1)] that(2)
    by (elim disjE; simp add: unf read_over_build_pd build_pd_read_pd)
qed

lemma BuildPageTables_frame:
  assumes "unat base + 0x6000 \<le> 2 ^ 32" and "a < unat base \<or> unat base + 0x6000 \<le> a"
  shows "BuildPageTables m base a = m a"
  using assms(2) by (auto simp: BuildPageTables_unfold [OF assms(1)] Let_def build_pd_frame cell64.store_frame)

section \<open>The walk over the built tables\<close>

lemma pt_addr_table:
  assumes "take_bit 12 t = 0" and "unat t < 2 ^ 52"
  shows "pt_addr (t OR 7) = t"
proof (rule bit_word_eqI)
  fix n assume "n < LENGTH(64)"
  have low: "n < 12 \<Longrightarrow> \<not> bit t n"
    using assms(1) by (rule not_bit_low_zero)
  have "take_bit 52 t = t"
    using assms(2) by (rule take_bit_unat_self)
  then have high: "bit t n \<Longrightarrow> n < 52" by (metis bit_take_bit_iff)
  have seven: "(7 :: u64) = mask 3" by (simp add: mask_eq_exp_minus_1)
  show "bit (pt_addr (t OR 7)) n = bit t n"
    using low high \<open>n < LENGTH(64)\<close>
    by (cases "n < 12") (auto simp: pt_addr_def bit_simps seven)
qed

lemma aligned_nat: "take_bit 12 (t :: u64) = 0 \<longleftrightarrow> unat t mod 4096 = 0"
  using unat_take_bit [of 12 t] unat_eq_0 [of "take_bit 12 t"] by simp

lemma table_flags:
  "take_bit 12 t = 0 \<Longrightarrow> bit (t OR 7 :: u64) 0 \<and> bit (t OR 7) 1 \<and> \<not> bit (t OR 7) 7"
  by (simp add: bit_simps not_bit_low_zero)

lemma next_table_eq:
  assumes "ReadU64 m (unat table + 8 * idx) = t OR 7" and "take_bit 12 t = 0" and "unat t < 2 ^ 52"
  shows "next_table m table idx = Some t"
  using assms table_flags [OF assms(2)] by (simp add: next_table_def pt_addr_table Let_def)

lemma huge_page_eq:
  assumes "ReadU64 m (unat table + 8 * idx) = push_bit 21 k OR 0x83" and "unat k < 2 ^ 31"
  shows "huge_page m table idx = Some (push_bit 21 k)"
proof -
  have "take_bit 31 k = k" using assms(2) by (rule take_bit_unat_self)
  then have "take_bit 31 (drop_bit 21 (push_bit 21 k OR 0x83)) = k"
    by (intro bit_word_eqI) (auto simp: bit_simps dest: bit_take_self_less [of 31 k])
  then show ?thesis using assms(1) by (simp add: huge_page_def huge_addr_def bit_simps Let_def)
qed

lemma pt_index_nat: "pt_index k va = unat va div 2 ^ k mod 512"
  by (simp add: pt_index_def unat_take_bit unat_drop_bit)

lemma page_number_split:
  assumes "unat (va :: u64) < 2 ^ 32"
  shows "of_nat (pt_index 30 va * 512 + pt_index 21 va) = drop_bit 21 va"
proof -
  have "unat va div 1073741824 = unat va div 2097152 div 512"
    by (simp flip: div_mult2_eq)
  then have "pt_index 30 va * 512 + pt_index 21 va = unat va div 2 ^ 21"
    using assms by (simp add: pt_index_nat)
  then show ?thesis using assms by (simp add: word_unat_eq_iff unat_drop_bit unat_of_nat take_bit_nat_eq_self le_less_trans [OF div_le_dividend])
qed

text \<open>The walk over any memory that holds the built tables in their six pages.\<close>

lemma page_tables_walk:
  assumes aligned: "take_bit 12 base = 0" and room: "unat base + 0x6000 \<le> 2 ^ 32"
    and va: "unat va < 2 ^ 32"
    and held: "\<And>a. unat base \<le> a \<Longrightarrow> a < unat base + 0x6000 \<Longrightarrow> M a = BuildPageTables m base a"
  shows "page_walk M base va = Some va"
proof -
  let ?M = M and ?i = "pt_index 30 va" and ?j = "pt_index 21 va"
  define pd where "pd = base + of_nat (0x2000 + ?i * 0x1000)"
  have same: "ReadU64 M p = ReadU64 (BuildPageTables m base) p" if "unat base \<le> p" "p + 8 \<le> unat base + 0x6000" for p
    using that by (intro cell64.load_agree held) auto
  have i: "?i < 4" and j: "?j < 512" and top: "pt_index 39 va = 0"
    using va by (simp_all add: pt_index_nat)
  have unat_base: "k \<le> 0x6000 \<Longrightarrow> unat (base + of_nat k) = unat base + k" for k
    using room by (subst unat_add_no_wrap) (auto simp: unat_of_nat)
  have unat_pdpt: "unat (base + 0x1000) = unat base + 0x1000"
    using unat_base [of "0x1000"] by simp
  have unat_pd: "unat pd = unat base + 0x2000 + ?i * 0x1000"
    unfolding pd_def using i by (subst unat_base) auto
  have aligned_pd: "take_bit 12 pd = 0" and aligned_pdpt: "take_bit 12 (base + 0x1000) = 0"
    using aligned by (simp_all add: aligned_nat unat_pd unat_pdpt mod_add_left_eq [symmetric, of "unat base"])
  have "next_table ?M base (pt_index 39 va) = Some (base + 0x1000)"
    using room aligned_pdpt by (intro next_table_eq) (auto simp: top same pml4_read unat_pdpt)
  moreover have "next_table ?M (base + 0x1000) ?i = Some pd"
    using aligned_pd room i pdpt_read [OF room i, of m]
    by (intro next_table_eq) (simp_all add: same unat_pdpt unat_pd mult.commute, simp add: pd_def add.assoc)
  moreover have "huge_page ?M pd ?j = Some (push_bit 21 (drop_bit 21 va))"
  proof (rule huge_page_eq)
    show "ReadU64 ?M (unat pd + 8 * ?j) = push_bit 21 (drop_bit 21 va) OR 131"
      using pd_read [OF room i j, of m, unfolded page_number_split [OF va]]
      by (subst same) (use i j in \<open>simp_all add: unat_pd mult.commute push_bit_eq_mult\<close>)
    show "unat (drop_bit 21 va) < 2 ^ 31" using va by (simp add: unat_drop_bit)
  qed
  ultimately show ?thesis by (simp add: page_walk_def push_drop_or_take)
qed

text \<open>The tables BuildPageTables writes at a page-aligned base below 4 GiB make a four-level
  walk from that base translate every virtual address of the first 4 GiB to itself.\<close>

theorem BuildPageTables_identity_map:
  assumes aligned: "take_bit 12 base = 0" and room: "unat base + 0x6000 \<le> 2 ^ 32"
    and va: "unat va < 2 ^ 32"
  shows "page_walk (BuildPageTables m base) base va = Some va"
  by (rule page_tables_walk [OF assms refl])

theorem BuildPageTables_identity_map_witness:
  "page_walk (BuildPageTables (\<lambda>_. 0) 0x9000) 0x9000 0xFEC01234 = Some 0xFEC01234"
  by (rule BuildPageTables_identity_map) (simp_all add: aligned_nat)

end
