(* ===== verification/Elf_Loader.thy ===== *)
theory Elf_Loader
  imports Bytes
begin

unbundle bit_operations_syntax

text \<open>
  The vmlinux loader (native/whp/elf_loader.cc). The kernel file is the byte list that
  ReadWholeFile returns (the file read itself is host I/O and an argument here); the packed
  structs Elf64Ehdr and Elf64Phdr are records decoded at the byte offsets the packed layout
  gives their fields. The loader copies every PT_LOAD segment to its physical address and
  zero-fills the rest of its memory size; every error return of the source is a branch.
\<close>

definition kElfMagic :: bytes where
  "kElfMagic = [0x7f, 0x45, 0x4c, 0x46]"

definition kElfClass64 :: u8 where "kElfClass64 = 2"
definition kElfDataLe :: u8 where "kElfDataLe = 1"
definition kElfMachineX64 :: u16 where "kElfMachineX64 = 62"
definition kElfPtLoad :: u32 where "kElfPtLoad = 1"

lemmas elf_consts [source_consts] = kElfMagic_def kElfClass64_def kElfDataLe_def
  kElfMachineX64_def kElfPtLoad_def

record elf64_ehdr =
  eh_ident :: bytes
  eh_machine :: u16
  eh_entry :: u64
  eh_phoff :: u64
  eh_phentsize :: u16
  eh_phnum :: u16

record elf64_phdr =
  ph_type :: u32
  ph_offset :: u64
  ph_paddr :: u64
  ph_filesz :: u64
  ph_memsz :: u64

text \<open>sizeof the packed structs.\<close>

definition sizeof_Ehdr :: nat where "sizeof_Ehdr = 64"
definition sizeof_Phdr :: nat where "sizeof_Phdr = 56"

definition read_ehdr :: "bytes \<Rightarrow> elf64_ehdr" where
  "read_ehdr data =
     \<lparr>eh_ident = take 16 data,
      eh_machine = ReadU16 ((!) data) 18,
      eh_entry = ReadU64 ((!) data) 24,
      eh_phoff = ReadU64 ((!) data) 32,
      eh_phentsize = ReadU16 ((!) data) 54,
      eh_phnum = ReadU16 ((!) data) 56\<rparr>"

definition read_phdr :: "bytes \<Rightarrow> nat \<Rightarrow> elf64_phdr" where
  "read_phdr data off =
     \<lparr>ph_type = ReadU32 ((!) data) off,
      ph_offset = ReadU64 ((!) data) (off + 8),
      ph_paddr = ReadU64 ((!) data) (off + 24),
      ph_filesz = ReadU64 ((!) data) (off + 32),
      ph_memsz = ReadU64 ((!) data) (off + 40)\<rparr>"

record kernel_info =
  ki_entry :: u64
  ki_kernel_end :: u64

text \<open>One iteration of the program header loop: skip, throw, or copy and zero-fill.\<close>

definition load_segment ::
  "u64 \<Rightarrow> bytes \<Rightarrow> elf64_phdr \<Rightarrow> ram \<times> u64 \<Rightarrow> (ram \<times> u64) result" where
  "load_segment mem_size data ph st =
    (if ph_type ph \<noteq> kElfPtLoad then Inr st
     else
      rbind (Check (ph_filesz ph \<le> ph_memsz ph) ''kernel segment file size exceeds memory size'') (\<lambda>_.
      rbind (CheckRange (of_nat (length data)) (ph_offset ph) (ph_filesz ph) ''kernel segment file range'') (\<lambda>_.
      rbind (CheckRange mem_size (ph_paddr ph) (ph_memsz ph) ''kernel segment guest range'') (\<lambda>_.
      let mem = memcpy (fst st) (unat (ph_paddr ph))
                  (take (unat (ph_filesz ph)) (drop (unat (ph_offset ph)) data))
      in rbind (if ph_filesz ph < ph_memsz ph
                then rbind (CheckedAdd (ph_paddr ph) (ph_filesz ph) ''kernel zero-fill range'') (\<lambda>zero_start.
                     Inr (memset mem (unat zero_start) 0 (unat (ph_memsz ph - ph_filesz ph))))
                else Inr mem) (\<lambda>mem.
         rbind (CheckedAdd (ph_paddr ph) (ph_memsz ph) ''kernel end'') (\<lambda>segment_end.
         Inr (mem, max (snd st) segment_end)))))))"

fun load_segments ::
  "u64 \<Rightarrow> bytes \<Rightarrow> elf64_ehdr \<Rightarrow> nat list \<Rightarrow> ram \<times> u64 \<Rightarrow> (ram \<times> u64) result" where
  "load_segments mem_size data eh [] st = Inr st"
| "load_segments mem_size data eh (i # is) st =
    rbind (CheckedMul (of_nat i) (of_nat sizeof_Phdr) ''kernel program header offset'') (\<lambda>rel.
    rbind (CheckedAdd (eh_phoff eh) rel ''kernel program header offset'') (\<lambda>ph_off.
    rbind (load_segment mem_size data (read_phdr data (unat ph_off)) st) (\<lambda>st'.
    load_segments mem_size data eh is st')))"

definition LoadElfKernel :: "ram \<Rightarrow> u64 \<Rightarrow> bytes \<Rightarrow> (ram \<times> kernel_info) result" where
  "LoadElfKernel mem mem_size data =
    rbind (Check (sizeof_Ehdr \<le> length data) ''kernel is too small'') (\<lambda>_.
    let eh = read_ehdr data in
    rbind (Check (take 4 (eh_ident eh) = kElfMagic) ''kernel must be an ELF vmlinux for WHP v1'') (\<lambda>_.
    rbind (Check (eh_ident eh ! 4 = kElfClass64) ''kernel must be ELF64'') (\<lambda>_.
    rbind (Check (eh_ident eh ! 5 = kElfDataLe) ''kernel must be little-endian ELF'') (\<lambda>_.
    rbind (Check (eh_machine eh = kElfMachineX64) ''kernel must be x86_64 ELF'') (\<lambda>_.
    rbind (Check (unat (eh_phentsize eh) = sizeof_Phdr) ''kernel ELF program header size is unsupported'') (\<lambda>_.
    rbind (CheckedMul (ucast (eh_phnum eh)) (of_nat sizeof_Phdr) ''kernel program header table'') (\<lambda>ph_size.
    rbind (CheckRange (of_nat (length data)) (eh_phoff eh) ph_size ''kernel program header table'') (\<lambda>_.
    rbind (load_segments mem_size data eh [0 ..< unat (eh_phnum eh)] (mem, 0)) (\<lambda>(mem', kernel_end).
    rbind (Check (eh_entry eh \<noteq> 0) ''kernel ELF entrypoint is zero'') (\<lambda>_.
    Inr (mem', \<lparr>ki_entry = eh_entry eh, ki_kernel_end = kernel_end\<rparr>)))))))))))"

section \<open>What a loaded image is\<close>

text \<open>Specification over natural numbers: a segment fits, its image laid over memory, the
  PT_LOAD segments of a file, and the file header tests.\<close>

definition segment_ok :: "u64 \<Rightarrow> bytes \<Rightarrow> elf64_phdr \<Rightarrow> bool" where
  "segment_ok mem_size data ph \<longleftrightarrow>
     unat (ph_filesz ph) \<le> unat (ph_memsz ph) \<and>
     unat (ph_offset ph) + unat (ph_filesz ph) \<le> length data \<and>
     unat (ph_paddr ph) + unat (ph_memsz ph) \<le> unat mem_size"

definition place_segment :: "bytes \<Rightarrow> elf64_phdr \<Rightarrow> ram \<Rightarrow> ram" where
  "place_segment data ph m = (\<lambda>a.
     if unat (ph_paddr ph) \<le> a \<and> a < unat (ph_paddr ph) + unat (ph_filesz ph)
     then data ! (unat (ph_offset ph) + (a - unat (ph_paddr ph)))
     else if unat (ph_paddr ph) \<le> a \<and> a < unat (ph_paddr ph) + unat (ph_memsz ph) then 0
     else m a)"

definition segment_end :: "elf64_phdr \<Rightarrow> nat" where
  "segment_end ph = unat (ph_paddr ph) + unat (ph_memsz ph)"

definition pt_loads :: "bytes \<Rightarrow> elf64_phdr list" where
  "pt_loads data = (let eh = read_ehdr data in
     filter (\<lambda>ph. ph_type ph = kElfPtLoad)
       (map (\<lambda>i. read_phdr data (unat (eh_phoff eh) + i * sizeof_Phdr)) [0 ..< unat (eh_phnum eh)]))"

definition header_ok :: "bytes \<Rightarrow> bool" where
  "header_ok data \<longleftrightarrow> (let eh = read_ehdr data in
     sizeof_Ehdr \<le> length data \<and> take 4 data = kElfMagic \<and> data ! 4 = kElfClass64 \<and>
     data ! 5 = kElfDataLe \<and> eh_machine eh = kElfMachineX64 \<and> unat (eh_phentsize eh) = sizeof_Phdr \<and>
     unat (eh_phoff eh) + unat (eh_phnum eh) * sizeof_Phdr \<le> length data \<and> eh_entry eh \<noteq> 0)"

lemma load_segment_ok:
  assumes "ph_type ph = kElfPtLoad" and "segment_ok mem_size data ph" and len: "length data < 2 ^ 64"
  shows "\<exists>e. load_segment mem_size data ph (m, k) = Inr (place_segment data ph m, e)
     \<and> unat e = max (unat k) (segment_end ph)"
proof -
  have room: "unat (ph_paddr ph) + unat (ph_memsz ph) < 2 ^ 64"
    using assms(2) by (auto simp: segment_ok_def intro: le_less_trans [OF _ unat_u64_less [of mem_size]])
  have fm: "unat (ph_filesz ph) \<le> unat (ph_memsz ph)" using assms(2) by (simp add: segment_ok_def)
  have addr: "unat (ph_paddr ph + ph_filesz ph) = unat (ph_paddr ph) + unat (ph_filesz ph)"
    "unat (ph_paddr ph + ph_memsz ph) = unat (ph_paddr ph) + unat (ph_memsz ph)"
    using room fm by (auto intro!: unat_add_no_wrap)
  have image: "memset (memcpy m (unat (ph_paddr ph))
        (take (unat (ph_filesz ph)) (drop (unat (ph_offset ph)) data)))
        (unat (ph_paddr ph) + unat (ph_filesz ph)) 0 (unat (ph_memsz ph) - unat (ph_filesz ph))
      = place_segment data ph m"
    using assms(2) fm by (auto simp: memset_def memcpy_def place_segment_def segment_ok_def fun_eq_iff)
  have whole: "unat (ph_filesz ph) = unat (ph_memsz ph) \<Longrightarrow>
      memcpy m (unat (ph_paddr ph)) (take (unat (ph_memsz ph)) (drop (unat (ph_offset ph)) data))
      = place_segment data ph m"
    using assms(2) by (auto simp: memcpy_def place_segment_def segment_ok_def fun_eq_iff)
  show ?thesis
    using assms room fm
    by (cases "unat (ph_filesz ph) = unat (ph_memsz ph)")
      (auto simp: load_segment_def segment_ok_def CheckRange_Inr CheckedAdd_Inr unat_of_nat
        word_le_nat_alt word_less_nat_alt addr image whole unat_sub segment_end_def max_def Let_def
        take_bit_nat_eq_self)
qed

lemma load_segment_bad:
  assumes "ph_type ph = kElfPtLoad" and "\<not> segment_ok mem_size data ph" and "length data < 2 ^ 64"
  shows "\<exists>e. load_segment mem_size data ph st = Inl e"
proof (cases "load_segment mem_size data ph st")
  case (Inr st')
  then have "segment_ok mem_size data ph"
    using assms(1,3)
    by (auto simp: load_segment_def segment_ok_def CheckRange_Inr word_le_nat_alt unat_of_nat
        take_bit_nat_eq_self Let_def)
  with assms(2) show ?thesis by simp
qed auto

lemma load_segment_skip:
  "ph_type ph \<noteq> kElfPtLoad \<Longrightarrow> load_segment mem_size data ph st = Inr st"
  by (simp add: load_segment_def)

text \<open>The loop over the program headers lays the PT_LOAD images over memory in order, and
  throws exactly when one of them does not fit; inside the table it checked first, the
  overflow guards of the header offsets never fire.\<close>

definition loads_at :: "bytes \<Rightarrow> nat \<Rightarrow> nat list \<Rightarrow> elf64_phdr list" where
  "loads_at data phoff is =
     filter (\<lambda>ph. ph_type ph = kElfPtLoad) (map (\<lambda>i. read_phdr data (phoff + i * sizeof_Phdr)) is)"

lemma header_offset:
  assumes "unat (eh_phoff eh) + i * sizeof_Phdr < 2 ^ 64"
  shows "\<exists>r off. CheckedMul (of_nat i) (of_nat sizeof_Phdr) w = Inr r \<and> CheckedAdd (eh_phoff eh) r w = Inr off
     \<and> unat off = unat (eh_phoff eh) + i * sizeof_Phdr"
proof -
  have i: "i < 2 ^ 64" using assms by (simp add: sizeof_Phdr_def)
  then have ui: "unat (of_nat i :: u64) = i" by (simp add: unat_of_nat take_bit_nat_eq_self)
  have "unat (of_nat i * of_nat sizeof_Phdr :: u64) = i * sizeof_Phdr"
    using assms by (simp add: unat_word_ariths ui sizeof_Phdr_def)
  then show ?thesis
    using assms by (auto simp: CheckedMul_Inr CheckedAdd_Inr ui sizeof_Phdr_def unat_add_no_wrap)
qed

lemma load_segments_spec:
  assumes "\<forall>i \<in> set is. unat (eh_phoff eh) + i * sizeof_Phdr < 2 ^ 64" and len: "length data < 2 ^ 64"
  shows "if \<forall>ph \<in> set (loads_at data (unat (eh_phoff eh)) is). segment_ok mem_size data ph
     then \<exists>e. load_segments mem_size data eh is (m, k)
           = Inr (fold (place_segment data) (loads_at data (unat (eh_phoff eh)) is) m, e)
        \<and> unat e = fold max (map segment_end (loads_at data (unat (eh_phoff eh)) is)) (unat k)
     else \<exists>e. load_segments mem_size data eh is (m, k) = Inl e"
  using assms(1)
proof (induction "is" arbitrary: m k)
  case Nil
  then show ?case by (simp add: loads_at_def)
next
  case (Cons i "is")
  let ?ph = "read_phdr data (unat (eh_phoff eh) + i * sizeof_Phdr)"
  obtain r off where off: "CheckedMul (of_nat i) (of_nat sizeof_Phdr) ''kernel program header offset'' = Inr r"
    "CheckedAdd (eh_phoff eh) r ''kernel program header offset'' = Inr off"
    "unat off = unat (eh_phoff eh) + i * sizeof_Phdr"
    using header_offset [of eh i "''kernel program header offset''"] Cons.prems by auto
  have step: "load_segments mem_size data eh (i # is) st
      = rbind (load_segment mem_size data ?ph st) (load_segments mem_size data eh is)" for st
    using off by simp
  have unf: "loads_at data (unat (eh_phoff eh)) (i # is) =
      (if ph_type ?ph = kElfPtLoad then [?ph] else []) @ loads_at data (unat (eh_phoff eh)) is"
    by (simp add: loads_at_def)
  have IH: "if \<forall>ph \<in> set (loads_at data (unat (eh_phoff eh)) is). segment_ok mem_size data ph
     then \<exists>e. load_segments mem_size data eh is (m, k)
           = Inr (fold (place_segment data) (loads_at data (unat (eh_phoff eh)) is) m, e)
        \<and> unat e = fold max (map segment_end (loads_at data (unat (eh_phoff eh)) is)) (unat k)
     else \<exists>e. load_segments mem_size data eh is (m, k) = Inl e" for m k
    using Cons.IH Cons.prems by simp
  consider (skip) "ph_type ?ph \<noteq> kElfPtLoad" | (bad) "ph_type ?ph = kElfPtLoad" "\<not> segment_ok mem_size data ?ph"
    | (good) "ph_type ?ph = kElfPtLoad" "segment_ok mem_size data ?ph" by blast
  then show ?case
  proof cases
    case skip
    then show ?thesis using IH [of m k]
      by (simp only: step unf load_segment_skip [OF skip] rbind.simps if_False append_Nil)
  next
    case bad
    then show ?thesis using load_segment_bad [OF bad len, of "(m, k)"]
      by (simp only: step unf) auto
  next
    case good
    obtain e where "load_segment mem_size data ?ph (m, k) = Inr (place_segment data ?ph m, e)"
      "unat e = max (unat k) (segment_end ?ph)"
      using load_segment_ok [OF good len] by blast
    with good show ?thesis using IH [of "place_segment data ?ph m" e]
      by (simp only: step unf) (simp add: max.commute)
  qed
qed

lemma header_table_offsets:
  assumes "unat (eh_phoff eh) + unat (eh_phnum eh) * sizeof_Phdr \<le> length data" and "length data < 2 ^ 64"
  shows "\<forall>i \<in> set [0 ..< unat (eh_phnum eh)]. unat (eh_phoff eh) + i * sizeof_Phdr < 2 ^ 64"
proof
  fix i assume "i \<in> set [0 ..< unat (eh_phnum eh)]"
  then have "i * sizeof_Phdr \<le> unat (eh_phnum eh) * sizeof_Phdr" by simp
  with assms show "unat (eh_phoff eh) + i * sizeof_Phdr < 2 ^ 64" by linarith
qed

lemma table_check:
  assumes "length data < 2 ^ 64"
  shows "(\<exists>r. CheckedMul (ucast (eh_phnum eh)) (of_nat sizeof_Phdr) w = Inr r
       \<and> CheckRange (of_nat (length data)) (eh_phoff eh) r w' = Inr u)
     \<longleftrightarrow> unat (eh_phoff eh) + unat (eh_phnum eh) * sizeof_Phdr \<le> length data"
proof -
  have n: "unat (ucast (eh_phnum eh) :: u64) = unat (eh_phnum eh)"
    by (simp add: unsigned_ucast_eq take_bit_nat_eq_self less_trans [OF unat_u16_less])
  have "unat (eh_phnum eh) * 56 < 2 ^ 64" using unat_u16_less [of "eh_phnum eh"] by simp
  then have "unat (ucast (eh_phnum eh) * of_nat sizeof_Phdr :: u64) = unat (eh_phnum eh) * sizeof_Phdr"
    by (simp add: unat_word_ariths n sizeof_Phdr_def)
  then show ?thesis
    using \<open>unat (eh_phnum eh) * 56 < 2 ^ 64\<close> assms
    by (auto simp: CheckedMul_Inr CheckRange_Inr n sizeof_Phdr_def unat_of_nat take_bit_nat_eq_self)
qed

text \<open>LoadElfKernel accepts exactly the files with a good header whose PT_LOAD segments fit,
  and then memory is the segment images laid over the old contents in file order.\<close>

lemma LoadElfKernel_header:
  assumes len: "length data < 2 ^ 64"
  shows "LoadElfKernel m mem_size data = Inr (m', ki) \<longleftrightarrow>
    header_ok data \<and> ki_entry ki = eh_entry (read_ehdr data) \<and>
    load_segments mem_size data (read_ehdr data) [0 ..< unat (eh_phnum (read_ehdr data))] (m, 0)
      = Inr (m', ki_kernel_end ki)"
proof -
  have nth: "64 \<le> length data \<Longrightarrow> take 16 data ! 4 = data ! 4 \<and> take 16 data ! 5 = data ! 5" by simp
  have ki: "\<lparr>ki_entry = e, ki_kernel_end = k\<rparr> = ki \<longleftrightarrow> e = ki_entry ki \<and> k = ki_kernel_end ki" for e k
    by (cases ki) auto
  show ?thesis
    using table_check [OF len, of "read_ehdr data" "''kernel program header table''" "''kernel program header table''" "()"]
    by (auto simp: LoadElfKernel_def header_ok_def Let_def sizeof_Ehdr_def read_ehdr_def nth ki min_def
        split: prod.splits)
qed

lemma LoadElfKernel_spec:
  assumes len: "length data < 2 ^ 64"
  shows "if header_ok data \<and> (\<forall>ph \<in> set (pt_loads data). segment_ok mem_size data ph)
    then \<exists>ki. LoadElfKernel m mem_size data = Inr (fold (place_segment data) (pt_loads data) m, ki)
       \<and> ki_entry ki = eh_entry (read_ehdr data)
       \<and> unat (ki_kernel_end ki) = fold max (map segment_end (pt_loads data)) 0
    else \<exists>e. LoadElfKernel m mem_size data = Inl e"
proof -
  let ?eh = "read_ehdr data"
  have pl: "pt_loads data = loads_at data (unat (eh_phoff ?eh)) [0 ..< unat (eh_phnum ?eh)]"
    by (simp add: pt_loads_def loads_at_def Let_def)
  have spec: "header_ok data \<Longrightarrow>
      (if \<forall>ph \<in> set (pt_loads data). segment_ok mem_size data ph
       then \<exists>e. load_segments mem_size data ?eh [0 ..< unat (eh_phnum ?eh)] (m, 0)
              = Inr (fold (place_segment data) (pt_loads data) m, e)
            \<and> unat e = fold max (map segment_end (pt_loads data)) (unat (0 :: u64))
       else \<exists>e. load_segments mem_size data ?eh [0 ..< unat (eh_phnum ?eh)] (m, 0) = Inl e)"
    unfolding pl using len
    by (intro load_segments_spec header_table_offsets) (simp_all add: header_ok_def Let_def)
  show ?thesis
  proof (cases "header_ok data \<and> (\<forall>ph \<in> set (pt_loads data). segment_ok mem_size data ph)")
    case True
    then obtain e where "load_segments mem_size data ?eh [0 ..< unat (eh_phnum ?eh)] (m, 0)
        = Inr (fold (place_segment data) (pt_loads data) m, e)"
      "unat e = fold max (map segment_end (pt_loads data)) 0"
      using spec by auto
    then have "LoadElfKernel m mem_size data = Inr (fold (place_segment data) (pt_loads data) m,
        \<lparr>ki_entry = eh_entry ?eh, ki_kernel_end = e\<rparr>)"
      using True by (simp add: LoadElfKernel_header [OF len])
    with True \<open>unat e = _\<close> show ?thesis by simp
  next
    case False
    then have "LoadElfKernel m mem_size data \<noteq> Inr r" for r
      using spec by (cases r) (auto simp: LoadElfKernel_header [OF len] split: if_splits)
    with False show ?thesis by (cases "LoadElfKernel m mem_size data") auto
  qed
qed

lemma place_segments_frame:
  "(\<forall>ph \<in> set phs. segment_ok mem_size data ph) \<Longrightarrow> unat mem_size \<le> a
   \<Longrightarrow> fold (place_segment data) phs m a = m a"
  by (induction phs arbitrary: m) (auto simp: place_segment_def segment_ok_def)

lemma LoadElfKernel_frame:
  assumes "length data < 2 ^ 64" and "LoadElfKernel m mem_size data = Inr (m', ki)"
    and "unat mem_size \<le> a"
  shows "m' a = m a"
  using LoadElfKernel_spec [OF assms(1), of mem_size m] assms(2,3)
  by (auto simp: place_segments_frame split: if_splits)

section \<open>Properties\<close>

text \<open>C26. LoadElfKernel returns exactly when the file has a valid x86-64 ELF header with a
  non-zero entry point and every PT_LOAD segment fits the file and guest memory. Guest memory is
  then the segment images (file bytes, then zeros up to memsz) laid over the old contents in
  program header order, no byte beyond mem_size changes, and the result names the ELF entry point
  and the highest segment end. In every other case it throws.\<close>

theorem LoadElfKernel_correct:
  assumes "length data < 2 ^ 64"
  shows "case LoadElfKernel m mem_size data of
      Inr (m', ki) \<Rightarrow> header_ok data \<and> (\<forall>ph \<in> set (pt_loads data). segment_ok mem_size data ph)
        \<and> m' = fold (place_segment data) (pt_loads data) m
        \<and> (\<forall>a \<ge> unat mem_size. m' a = m a)
        \<and> ki_entry ki = eh_entry (read_ehdr data)
        \<and> unat (ki_kernel_end ki) = fold max (map segment_end (pt_loads data)) 0
    | Inl _ \<Rightarrow> \<not> (header_ok data \<and> (\<forall>ph \<in> set (pt_loads data). segment_ok mem_size data ph))"
  using LoadElfKernel_spec [OF assms, of mem_size m]
  by (auto simp: place_segments_frame split: if_splits sum.splits prod.splits)

text \<open>A 122-byte image with one PT_LOAD segment of two bytes at 0x800, four bytes in memory.\<close>

definition sample_elf :: bytes where
  "sample_elf =
     kElfMagic @ [2, 1, 1] @ replicate 9 0 @ [2, 0, 62, 0] @ le_bytes 4 (1 :: u32)
     @ le_bytes 8 (0x800 :: u64) @ le_bytes 8 (64 :: u64) @ le_bytes 8 (0 :: u64)
     @ le_bytes 4 (0 :: u32) @ [64, 0, 56, 0, 1, 0] @ replicate 6 0
     @ le_bytes 4 (1 :: u32) @ le_bytes 4 (5 :: u32) @ le_bytes 8 (120 :: u64) @ le_bytes 8 (0x800 :: u64)
     @ le_bytes 8 (0x800 :: u64) @ le_bytes 8 (2 :: u64) @ le_bytes 8 (4 :: u64) @ le_bytes 8 (0 :: u64)
     @ [0xF4, 0xEB]"

lemma sample_elf_facts:
  "length sample_elf = 122" "header_ok sample_elf" "eh_entry (read_ehdr sample_elf) = 0x800"
  "map (\<lambda>ph. (ph_paddr ph, ph_offset ph, ph_filesz ph, ph_memsz ph)) (pt_loads sample_elf)
     = [(0x800, 120, 2, 4)]" "drop 120 sample_elf = [0xF4, 0xEB]"
  by code_simp+

theorem LoadElfKernel_correct_witness:
  "\<exists>m' ki. LoadElfKernel (\<lambda>_. 0xCC) 0x1000 sample_elf = Inr (m', ki) \<and> ki_entry ki = 0x800
     \<and> unat (ki_kernel_end ki) = 0x804 \<and> map m' [0x7FF ..< 0x805] = [0xCC, 0xF4, 0xEB, 0, 0, 0xCC]"
proof -
  obtain ph where ph: "pt_loads sample_elf = [ph]" "ph_paddr ph = 0x800" "ph_offset ph = 120"
    "ph_filesz ph = 2" "ph_memsz ph = 4"
    using sample_elf_facts(4) by (auto simp: map_eq_Cons_conv)
  have nth: "sample_elf ! 120 = 0xF4" "sample_elf ! 121 = 0xEB"
    using arg_cong [OF sample_elf_facts(5), of "\<lambda>xs. xs ! 0"]
      arg_cong [OF sample_elf_facts(5), of "\<lambda>xs. xs ! 1"] by (simp_all add: sample_elf_facts(1))
  have "[0x7FF ..< 0x805] = [0x7FF, 0x800, 0x801, 0x802, 0x803, 0x804::nat]" by (simp add: upt_rec)
  with LoadElfKernel_correct [of sample_elf "0x1000" "\<lambda>_. 0xCC"] ph sample_elf_facts nth show ?thesis
    by (auto simp: segment_ok_def segment_end_def place_segment_def split: sum.splits)
qed

end
