(* ===== verification/Boot_Params.thy ===== *)
theory Boot_Params
  imports Bytes
begin

unbundle bit_operations_syntax

text \<open>
  The Linux zero page and the MP configuration table (native/whp/boot_params.cc).
  \<open>WriteBootParams\<close> and \<open>WriteMpTable\<close> keep the order of the range checks and of the stores
  of the source. The tables built in std::vector buffers are byte lists. \<open>std::string\<close> is a
  byte list here (its size() counts bytes).
\<close>

definition kBootParamsAddr :: u64 where "kBootParamsAddr = 0x7000"
definition kCmdlineAddr :: u64 where "kCmdlineAddr = 0x20000"
definition kE820Offset :: u64 where "kE820Offset = 0x2D0"
definition kE820EntrySize :: u64 where "kE820EntrySize = 20"
definition kMaxE820Entries :: u64 where "kMaxE820Entries = 4"

lemmas boot_consts [source_consts] =
  kBootParamsAddr_def kCmdlineAddr_def kE820Offset_def kE820EntrySize_def kMaxE820Entries_def

definition PutE820 :: "ram \<Rightarrow> nat \<Rightarrow> u64 \<Rightarrow> u64 \<Rightarrow> u32 \<Rightarrow> ram" where
  "PutE820 mem off addr n type =
     WriteU32 (WriteU64 (WriteU64 mem off addr) (off + 8) n) (off + 16) type"

definition Checksum :: "bytes \<Rightarrow> nat \<Rightarrow> nat \<Rightarrow> u8" where
  "Checksum data start n =
     (let s = fold (\<lambda>i s. s + data ! (start + i)) [0 ..< n] 0 in NOT s + 1)"

definition boot_param_checks :: "u64 \<Rightarrow> u64 \<Rightarrow> unit result" where
  "boot_param_checks mem_size cmdline_len =
    rbind (CheckRange mem_size kCmdlineAddr cmdline_len ''kernel cmdline'') (\<lambda>_.
    rbind (CheckRange mem_size (kBootParamsAddr + 0x1E8) 1 ''boot params e820 count'') (\<lambda>_.
    rbind (CheckRange mem_size (kBootParamsAddr + 0x1FA) 2 ''boot params video mode'') (\<lambda>_.
    rbind (CheckRange mem_size (kBootParamsAddr + 0x1FE) 2 ''boot params setup signature'') (\<lambda>_.
    rbind (CheckRange mem_size (kBootParamsAddr + 0x202) 4 ''boot params header signature'') (\<lambda>_.
    rbind (CheckRange mem_size (kBootParamsAddr + 0x210) 2 ''boot params loader flags'') (\<lambda>_.
    rbind (CheckRange mem_size (kBootParamsAddr + 0x228) 4 ''boot params cmdline pointer'') (\<lambda>_.
    rbind (CheckRange mem_size (kBootParamsAddr + 0x238) 4 ''boot params cmdline length'') (\<lambda>_.
    CheckRange mem_size (kBootParamsAddr + kE820Offset) (kE820EntrySize * kMaxE820Entries)
      ''boot params e820 table''))))))))"

text \<open>The stores, after every check has passed; \<open>cmdline.c_str()\<close> carries the final NUL.\<close>

definition boot_param_stores :: "ram \<Rightarrow> u64 \<Rightarrow> bytes \<Rightarrow> ram" where
  "boot_param_stores mem mem_size cmdline =
    (let bp = unat kBootParamsAddr; tbl = bp + unat kE820Offset; es = unat kE820EntrySize;
         mem = memcpy mem (unat kCmdlineAddr) (cmdline @ [0]);
         mem = mem(bp + 0x1E8 := 4);
         mem = PutE820 mem tbl 0x00000000 0x0009FC00 1;
         mem = PutE820 mem (tbl + es) 0x0009FC00 0x00040400 2;
         mem = PutE820 mem (tbl + 2 * es) 0x000E0000 0x00020000 2;
         mem = (if 0x00100000 < mem_size
                then PutE820 mem (tbl + 3 * es) 0x00100000 (mem_size - 0x00100000) 1 else mem);
         mem = WriteU16 mem (bp + 0x1FA) 0xFFFF;
         mem = WriteU16 mem (bp + 0x1FE) 0xAA55;
         mem = WriteU32 mem (bp + 0x202) 0x53726448;
         mem = mem(bp + 0x210 := 0xFF);
         mem = mem(bp + 0x211 := mem (bp + 0x211) OR 0x01);
         mem = WriteU32 mem (bp + 0x228) (ucast kCmdlineAddr);
         mem = WriteU32 mem (bp + 0x238) (of_nat (length cmdline))
     in mem)"

definition WriteBootParams :: "ram \<Rightarrow> u64 \<Rightarrow> bytes \<Rightarrow> ram result" where
  "WriteBootParams mem mem_size cmdline =
    (if 0xFFFFFFFF < length cmdline then Inl ''kernel cmdline is too large''
     else rbind (boot_param_checks mem_size (of_nat (length cmdline) + 1)) (\<lambda>_.
          Inr (boot_param_stores mem mem_size cmdline)))"

section \<open>The MP configuration table\<close>

definition mp_processor_entry :: "nat \<Rightarrow> bytes" where
  "mp_processor_entry cpu =
    (let entry = replicate 20 0;
         entry = entry[0 := 0, 1 := of_nat cpu, 2 := 0x14, 3 := (0x01 OR (if cpu = 0 then 0x02 else 0))];
         entry = buf_put entry 4 (le_bytes 4 (0x600 :: u32));
         entry = buf_put entry 8 (le_bytes 4 (0x200 OR 0x001 :: u32))
     in entry)"

definition mp_bus_entry :: bytes where
  "mp_bus_entry = buf_put ((replicate 8 0)[0 := 1]) 2 [0x49, 0x53, 0x41, 0x20, 0x20, 0x20]"

definition mp_ioapic_entry :: "u8 \<Rightarrow> bytes" where
  "mp_ioapic_entry io_apic_id =
     buf_put ((replicate 8 0)[0 := 2, 1 := io_apic_id, 2 := 0x14, 3 := 1]) 4
       (le_bytes 4 (0xFEC00000 :: u32))"

definition mp_interrupt_entry :: "u8 \<Rightarrow> u32 \<Rightarrow> nat \<Rightarrow> bytes" where
  "mp_interrupt_entry io_apic_id pit_io_apic_pin irq =
     (replicate 8 0)[0 := 3, 1 := 0, 4 := 0, 5 := of_nat irq, 6 := io_apic_id,
       7 := ucast (if irq = 0 then pit_io_apic_pin else of_nat irq :: u32)]"

definition mp_entries :: "nat \<Rightarrow> u32 \<Rightarrow> bytes list" where
  "mp_entries cpus pit_io_apic_pin =
    (let io_apic_id = of_nat (cpus + 1)
     in map mp_processor_entry [0 ..< cpus]
        @ [mp_bus_entry, mp_ioapic_entry io_apic_id]
        @ map (mp_interrupt_entry io_apic_id pit_io_apic_pin) [0 ..< 24]
        @ [(replicate 8 0)[0 := 4, 1 := 3], (replicate 8 0)[0 := 4, 1 := 1, 6 := 0xFF, 7 := 1]])"

definition mp_table_size :: "nat \<Rightarrow> nat" where
  "mp_table_size cpus = 16 + 44 + (20 * cpus) + 8 + 8 + (8 * (23 + 1)) + (8 * 2)"

text \<open>The floating pointer structure and the configuration table, in one buffer that
  is copied to guest memory at \<open>start\<close>. The C code counts the entries while it appends them.\<close>

definition mp_table_bytes :: "u64 \<Rightarrow> nat \<Rightarrow> u32 \<Rightarrow> bytes" where
  "mp_table_bytes start cpus pit_io_apic_pin =
    (let buf = replicate (mp_table_size cpus) 0;
         table_addr = ucast (start + 16) :: u32;
         buf = buf_put buf 0 [0x5F, 0x4D, 0x50, 0x5F];
         buf = buf_put buf 4 (le_bytes 4 table_addr);
         buf = buf[8 := 1, 9 := 4];
         buf = buf[10 := Checksum buf 0 16];
         entries = concat (mp_entries cpus pit_io_apic_pin);
         entry_count = of_nat (length (mp_entries cpus pit_io_apic_pin)) :: u16;
         buf = buf_put buf 16 [0x50, 0x43, 0x4D, 0x50];
         buf = buf_put buf (16 + 4) (le_bytes 2 (of_nat (44 + length entries) :: u16));
         buf = buf[16 + 6 := 4];
         buf = buf_put buf (16 + 8) [0x46, 0x43, 0x20, 0x20, 0x20, 0x20, 0x20, 0x20];
         buf = buf_put buf (16 + 16) (replicate 12 0x30);
         buf = buf_put buf (16 + 34) (le_bytes 2 entry_count);
         buf = buf_put buf (16 + 36) (le_bytes 4 (0xFEE00000 :: u32));
         buf = buf_put buf (16 + 44) entries;
         buf = buf[16 + 7 := Checksum buf 16 (44 + length entries)]
     in buf)"

definition WriteMpTable :: "ram \<Rightarrow> u64 \<Rightarrow> nat \<Rightarrow> u32 \<Rightarrow> ram result" where
  "WriteMpTable mem mem_size cpus pit_io_apic_pin =
    (let n = mp_table_size cpus;
         start = (0xA0000 - of_nat n) AND NOT 0xF
     in rbind (CheckRange mem_size start (of_nat n) ''MP table'') (\<lambda>_.
        Inr (memcpy mem (unat start) (mp_table_bytes start cpus pit_io_apic_pin))))"

section \<open>Checksums\<close>

lemma Checksum_sum:
  "start + n \<le> length data \<Longrightarrow> Checksum data start n = - sum_list (take n (drop start data))"
proof -
  assume le: "start + n \<le> length data"
  have "fold (\<lambda>i s. s + data ! (start + i)) [0 ..< k] 0 = sum_list (take k (drop start data))"
    if "k \<le> n" for k
    using that le by (induction k) (auto simp: take_Suc_conv_app_nth)
  then show ?thesis by (simp add: Checksum_def Let_def minus_eq_not_plus_1)
qed

lemma sum_list_update_word:
  "i < length xs \<Longrightarrow> sum_list (xs[i := v]) = sum_list xs - xs ! i + (v :: u8)"
  by (induction xs arbitrary: i) (auto split: nat.splits)

text \<open>Storing the checksum into a zero byte of a range makes the bytes of the range sum to 0.\<close>

lemma Checksum_balances:
  assumes "start + n \<le> length data" and "k < n" and "data ! (start + k) = 0"
  shows "sum_list (take n (drop start (data[start + k := Checksum data start n]))) = 0"
proof -
  have "take n (drop start (data[start + k := Checksum data start n]))
      = (take n (drop start data))[k := Checksum data start n]"
    using assms(1,2) by (simp add: drop_update_swap take_update_swap)
  then show ?thesis
    using assms by (simp add: sum_list_update_word Checksum_sum)
qed

lemma Checksum_balances_all:
  "k < length d \<Longrightarrow> d ! k = 0 \<Longrightarrow> n = length d \<Longrightarrow> sum_list (d[k := Checksum d 0 n]) = 0"
  using Checksum_balances [of 0 n d k] by simp

section \<open>The MP table\<close>

lemma length_mp_entries:
  "length (concat (mp_entries cpus pin)) = 20 * cpus + 8 + 8 + 8 * 24 + 8 * 2"
proof -
  have "length (mp_processor_entry c) = 20" for c
    by (simp add: mp_processor_entry_def)
  moreover have "length (mp_interrupt_entry a b c) = 8" for a b c
    by (simp add: mp_interrupt_entry_def)
  ultimately show ?thesis
    by (simp add: mp_entries_def length_concat mp_bus_entry_def mp_ioapic_entry_def Let_def comp_def
        sum_list_triv)
qed

text \<open>The buffer in its three parts: floating pointer, table header, entries.\<close>

definition mp_floating :: "u64 \<Rightarrow> bytes" where
  "mp_floating start =
    (let b = (buf_put (buf_put (replicate 16 0) 0 [0x5F, 0x4D, 0x50, 0x5F]) 4
                (le_bytes 4 (ucast (start + 16) :: u32)))[8 := 1, 9 := 4]
     in b[10 := Checksum b 0 16])"

definition mp_header :: "nat \<Rightarrow> u16 \<Rightarrow> bytes" where
  "mp_header n count =
     buf_put (buf_put (buf_put (buf_put ((buf_put (buf_put (replicate 44 0) 0 [0x50, 0x43, 0x4D, 0x50]) 4
       (le_bytes 2 (of_nat (44 + n) :: u16)))[6 := 4]) 8 [0x46, 0x43, 0x20, 0x20, 0x20, 0x20, 0x20, 0x20])
       16 (replicate 12 0x30)) 34 (le_bytes 2 count)) 36 (le_bytes 4 (0xFEE00000 :: u32))"

lemma Checksum_append: "start + n \<le> length xs \<Longrightarrow> Checksum (xs @ ys) start n = Checksum xs start n"
  by (simp add: Checksum_sum)

lemma length_mp_floating [simp]: "length (mp_floating start) = 16"
  by (simp add: mp_floating_def Let_def)

lemma length_mp_header [simp]: "length (mp_header n c) = 44"
  by (simp add: mp_header_def)

lemma mp_table_bytes_parts:
  fixes start cpus pin
  defines "E \<equiv> concat (mp_entries cpus pin)"
  defines "B \<equiv> mp_floating start @ mp_header (length E) (of_nat (length (mp_entries cpus pin))) @ E"
  shows "mp_table_bytes start cpus pin = B[16 + 7 := Checksum B 16 (44 + length E)]"
proof -
  have split: "replicate (mp_table_size cpus) (0 :: u8) = replicate 16 0 @ replicate 44 0 @ replicate (length E) 0"
    using length_mp_entries [of cpus pin]
    by (simp add: E_def mp_table_size_def flip: replicate_add)
  show ?thesis
    unfolding mp_table_bytes_def Let_def split E_def [symmetric] B_def
    by (simp add: buf_parts Checksum_append mp_floating_def mp_header_def Let_def)
qed

lemma mp_table_layout:
  shows mp_table_length: "length (mp_table_bytes start cpus pin) = mp_table_size cpus"
    and mp_floating_sum: "sum_list (take 16 (mp_table_bytes start cpus pin)) = 0"
    and mp_config_sum: "sum_list (drop 16 (mp_table_bytes start cpus pin)) = 0"
    and mp_signature: "take 4 (mp_table_bytes start cpus pin) = [0x5F, 0x4D, 0x50, 0x5F]"
    and mp_entry_bytes: "drop 60 (mp_table_bytes start cpus pin) = concat (mp_entries cpus pin)"
proof -
  define E where "E = concat (mp_entries cpus pin)"
  define H where "H = mp_header (length E) (of_nat (length (mp_entries cpus pin)))"
  define B where "B = mp_floating start @ H @ E"
  have eq: "mp_table_bytes start cpus pin = B[16 + 7 := Checksum B 16 (44 + length E)]"
    by (simp add: mp_table_bytes_parts B_def H_def E_def)
  have H: "length H = 44" by (simp add: H_def)
  then have len: "length B = 60 + length E" by (simp add: B_def)
  have zero: "B ! (16 + 7) = 0"
    by (simp add: B_def nth_append H) (simp add: H_def mp_header_def nth_buf_put)
  show "length (mp_table_bytes start cpus pin) = mp_table_size cpus"
    using length_mp_entries [of cpus pin] len by (simp add: eq mp_table_size_def E_def)
  show "sum_list (drop 16 (mp_table_bytes start cpus pin)) = 0"
    using Checksum_balances [of 16 "44 + length E" B 7] len zero by (simp add: eq)
  have take16: "take 16 (mp_table_bytes start cpus pin) = mp_floating start"
    by (simp add: eq B_def list_update_append)
  show "sum_list (take 16 (mp_table_bytes start cpus pin)) = 0"
    unfolding take16 mp_floating_def Let_def
    by (rule Checksum_balances_all) (simp_all add: nth_buf_put)
  have "take 4 (mp_table_bytes start cpus pin) = take 4 (take 16 (mp_table_bytes start cpus pin))"
    by simp
  then show "take 4 (mp_table_bytes start cpus pin) = [0x5F, 0x4D, 0x50, 0x5F]"
    by (simp only: take16 mp_floating_def Let_def) (simp add: buf_put_def eval_nat_numeral)
  show "drop 60 (mp_table_bytes start cpus pin) = concat (mp_entries cpus pin)"
    by (simp add: eq B_def list_update_append H E_def)
qed

section \<open>The zero page\<close>

definition e820_entry :: "ram \<Rightarrow> nat \<Rightarrow> u64 \<times> u64 \<times> u32" where
  "e820_entry m i = (let p = 0x72D0 + 20 * i in (ReadU64 m p, ReadU64 m (p + 8), ReadU32 m (p + 16)))"

lemma boot_param_checks_Inr:
  "boot_param_checks mem_size n = Inr u \<longleftrightarrow> 0x20000 + unat n \<le> unat mem_size"
proof -
  have "0x20000 + unat n \<le> unat mem_size \<Longrightarrow> 0x7320 \<le> unat mem_size" by simp
  then show ?thesis
    by (auto simp: boot_param_checks_def CheckRange_Inr source_consts)
qed

lemma boot_param_e820:
  assumes "0x100000 < mem_size"
  shows "map (e820_entry (boot_param_stores m mem_size cmdline)) [0, 1, 2, 3] =
    [(0, 0x9FC00, 1), (0x9FC00, 0x40400, 2), (0xE0000, 0x20000, 2), (0x100000, mem_size - 0x100000, 1)]"
  using assms
  by (simp add: boot_param_stores_def e820_entry_def PutE820_def source_consts read_layout Let_def)

lemma boot_param_e820_count: "boot_param_stores m mem_size cmdline 0x71E8 = 4"
  by (simp add: boot_param_stores_def PutE820_def source_consts store_memcpy memcpy_outside Let_def)

lemma boot_param_signature: "ReadU16 (boot_param_stores m mem_size cmdline) 0x71FE = 0xAA55"
  by (simp add: boot_param_stores_def source_consts read_layout Let_def)

lemma boot_param_header: "ReadU32 (boot_param_stores m mem_size cmdline) 0x7202 = 0x53726448"
  by (simp add: boot_param_stores_def source_consts read_layout Let_def)

lemma boot_param_cmdline_ptr: "ReadU32 (boot_param_stores m mem_size cmdline) 0x7228 = 0x20000"
  by (simp add: boot_param_stores_def source_consts read_layout Let_def)

lemma boot_param_cmdline_size:
  "ReadU32 (boot_param_stores m mem_size cmdline) 0x7238 = of_nat (length cmdline)"
  by (simp add: boot_param_stores_def source_consts read_layout Let_def)

lemmas boot_param_fields = boot_param_e820_count boot_param_signature boot_param_header
  boot_param_cmdline_ptr boot_param_cmdline_size

lemma boot_param_cmdline:
  "read_bytes (boot_param_stores m mem_size cmdline) 0x20000 (length cmdline + 1) = cmdline @ [0]"
  by (rule nth_equalityI)
    (auto simp: boot_param_stores_def PutE820_def source_consts store_memcpy Let_def memcpy_def nth_append)

lemma boot_param_frame:
  "\<lbrakk>a < 0x71E8 \<or> 0x7320 \<le> a; a < 0x20000 \<or> 0x20000 + length cmdline < a\<rbrakk>
   \<Longrightarrow> boot_param_stores m mem_size cmdline a = m a"
  by (elim disjE; simp add: boot_param_stores_def PutE820_def source_consts store_memcpy memcpy_outside Let_def)

section \<open>Properties\<close>

lemma WriteBootParams_stores:
  assumes "length cmdline \<le> 0xFFFFFFFF" and "0x20000 + length cmdline < unat mem_size"
  shows "WriteBootParams m mem_size cmdline = Inr (boot_param_stores m mem_size cmdline)"
proof -
  have "unat (of_nat (length cmdline) + 1 :: u64) = length cmdline + 1"
    using assms(1) by (simp add: unat_word_ariths unat_of_nat take_bit_nat_eq_self)
  then show ?thesis using assms by (simp add: WriteBootParams_def boot_param_checks_Inr)
qed

text \<open>When the command line (at most 4 GiB - 1) and its NUL fit guest memory above 0x20000 and
  there is RAM above 1 MiB, WriteBootParams succeeds: the e820 map tiles [0, mem_size) with the
  legacy area reserved, the setup signatures are in place, the command line is stored
  NUL-terminated where the header says, and nothing else of memory changes.\<close>

theorem WriteBootParams_correct:
  assumes "length cmdline \<le> 0xFFFFFFFF" and "0x20000 + length cmdline < unat mem_size" and "0x100000 < mem_size"
  shows "\<exists>m'. WriteBootParams m mem_size cmdline = Inr m'
    \<and> m' 0x71E8 = 4
    \<and> map (e820_entry m') [0, 1, 2, 3] =
       [(0, 0x9FC00, 1), (0x9FC00, 0x40400, 2), (0xE0000, 0x20000, 2), (0x100000, mem_size - 0x100000, 1)]
    \<and> ReadU16 m' 0x71FE = 0xAA55 \<and> ReadU32 m' 0x7202 = 0x53726448
    \<and> ReadU32 m' 0x7228 = 0x20000 \<and> ReadU32 m' 0x7238 = of_nat (length cmdline)
    \<and> read_bytes m' 0x20000 (length cmdline + 1) = cmdline @ [0]
    \<and> (\<forall>a. (a < 0x71E8 \<or> 0x7320 \<le> a) \<and> (a < 0x20000 \<or> 0x20000 + length cmdline < a) \<longrightarrow> m' a = m a)"
  using boot_param_e820 [OF assms(3), of m cmdline] boot_param_cmdline [of m mem_size cmdline] WriteBootParams_stores [OF assms(1,2), of m]
  by (auto simp: boot_param_fields boot_param_frame)

theorem WriteBootParams_correct_witness:
  "\<exists>m'. WriteBootParams (\<lambda>_. 0) 0x10000000 [0x71, 0x75] = Inr m' \<and> ReadU32 m' 0x7238 = 2
     \<and> e820_entry m' 3 = (0x100000, 0xFF00000, 1)"
  using WriteBootParams_correct [of "[0x71, 0x75]" "0x10000000" "\<lambda>_. 0"] by auto

lemma mp_table_placed:
  assumes "mp_table_size cpus \<le> 0xA0000" and "0xA0000 \<le> unat mem_size"
  shows "\<exists>m' start. WriteMpTable m mem_size cpus pin = Inr m'
    \<and> 16 dvd start \<and> start + mp_table_size cpus \<le> 0xA0000 \<and> 0xA0000 < start + mp_table_size cpus + 16
    \<and> sum_list (read_bytes m' start 16) = 0
    \<and> sum_list (read_bytes m' (start + 16) (mp_table_size cpus - 16)) = 0
    \<and> read_bytes m' (start + 60) (mp_table_size cpus - 60) = concat (mp_entries cpus pin)
    \<and> (\<forall>a. a < start \<or> start + mp_table_size cpus \<le> a \<longrightarrow> m' a = m a)"
proof -
  let ?n = "mp_table_size cpus" and ?s = "(0xA0000 - of_nat (mp_table_size cpus)) AND NOT 0xF :: u64"
  let ?b = "mp_table_bytes ?s cpus pin" and ?m = "memcpy m (unat ?s) (mp_table_bytes ?s cpus pin)"
  have n: "unat (of_nat ?n :: u64) = ?n" using assms(1) by (simp add: unat_of_nat take_bit_nat_eq_self)
  then have sub: "unat (0xA0000 - of_nat ?n :: u64) = 0xA0000 - ?n"
    using assms(1) by (subst unat_sub) (simp_all add: word_le_nat_alt)
  have "(0xF :: u64) = mask 4" by (simp add: mask_eq_exp_minus_1)
  then have s: "unat ?s = (0xA0000 - ?n) div 16 * 16" by (simp only: unat_and_not_mask sub) simp
  then have place: "unat ?s + ?n \<le> 0xA0000" "0xA0000 < unat ?s + ?n + 16"
    using assms(1) by linarith+
  have ok: "WriteMpTable m mem_size cpus pin = Inr ?m"
    using place(1) assms(2) n by (simp add: WriteMpTable_def Let_def CheckRange_cases)
  have read: "read_bytes ?m (unat ?s + i) k = take k (drop i ?b)" if "i + k \<le> ?n" for i k
    using that by (intro nth_equalityI) (auto simp: memcpy_def mp_table_length)
  have "60 \<le> ?n" by (simp add: mp_table_size_def)
  then have "sum_list (read_bytes ?m (unat ?s) 16) = 0" "sum_list (read_bytes ?m (unat ?s + 16) (?n - 16)) = 0"
    "read_bytes ?m (unat ?s + 60) (?n - 60) = concat (mp_entries cpus pin)"
    using read [of 0 16] read [of 16 "?n - 16"] read [of 60 "?n - 60"]
      mp_floating_sum mp_config_sum mp_entry_bytes mp_table_length [of ?s cpus pin]
      length_mp_entries [of cpus pin] by (simp_all add: mp_table_size_def)
  moreover have "\<forall>a. a < unat ?s \<or> unat ?s + ?n \<le> a \<longrightarrow> ?m a = m a"
    by (auto simp: memcpy_def mp_table_length)
  moreover have "16 dvd unat ?s" unfolding s by simp
  ultimately show ?thesis using ok place by blast
qed

text \<open>For every CPU count whose table fits below 640 KiB, the MP table is stored right
  below 0xA0000 on a 16-byte boundary, both checksums balance to zero over the bytes the guest
  reads back, and everything outside the table keeps its value.\<close>

theorem WriteMpTable_correct:
  assumes "mp_table_size cpus \<le> 0xA0000" and "0xA0000 \<le> unat mem_size"
  shows "\<exists>m' start. WriteMpTable m mem_size cpus pin = Inr m'
    \<and> 16 dvd start \<and> start + mp_table_size cpus \<le> 0xA0000 \<and> 0xA0000 < start + mp_table_size cpus + 16
    \<and> sum_list (read_bytes m' start 16) = 0
    \<and> sum_list (read_bytes m' (start + 16) (mp_table_size cpus - 16)) = 0
    \<and> read_bytes m' (start + 60) (mp_table_size cpus - 60) = concat (mp_entries cpus pin)
    \<and> (\<forall>a. a < start \<or> start + mp_table_size cpus \<le> a \<longrightarrow> m' a = m a)"
  by (rule mp_table_placed [OF assms])

theorem WriteMpTable_correct_witness:
  "\<exists>m' start. WriteMpTable (\<lambda>_. 0) 0x8000000 2 2 = Inr m' \<and> start + 324 \<le> 0xA0000
     \<and> sum_list (read_bytes m' start 16) = 0"
  using WriteMpTable_correct [of 2 "0x8000000" "\<lambda>_. 0" 2] by (auto simp: mp_table_size_def)

end
