(* ===== verification/Aml.thy ===== *)
theory Aml
  imports Boot_Params
begin

unbundle bit_operations_syntax

text \<open>
  The AML encoders of native/whp/backend.cc and the DSDT body they build: package lengths, name
  paths, integers, resource descriptors, devices and the system-bus scope. A std::string is a
  \<open>string\<close>, a std::vector of bytes a \<open>bytes\<close>; what may throw returns a \<open>result\<close>. The package
  length and the integers have decoders here, as the ACPI specification reads them.
\<close>

definition kVirtioMmioBase :: u64 where "kVirtioMmioBase = 0xD0000000"
definition kVirtioStride :: u64 where "kVirtioStride = 0x200"
definition kHpetBase :: u64 where "kHpetBase = 0xFED00000"
definition kHpetSize :: u64 where "kHpetSize = 0x400"
definition kVirtioMmioIrqBase :: u32 where "kVirtioMmioIrqBase = 5"
definition kMaxIoApicPins :: u32 where "kMaxIoApicPins = 24"
definition kCom1Base :: u16 where "kCom1Base = 0x3F8"
definition kCom1IRQ :: u32 where "kCom1IRQ = 4"

definition VirtioMmioBase :: "u32 \<Rightarrow> u64" where
  "VirtioMmioBase index = kVirtioMmioBase + ucast index * kVirtioStride"

definition VirtioMmioIrq :: "u32 \<Rightarrow> u32" where
  "VirtioMmioIrq index = kVirtioMmioIrqBase + index"

definition CheckVirtioMmioDeviceCount :: "u64 \<Rightarrow> unit result" where
  "CheckVirtioMmioDeviceCount count =
    rbind (Check (count > 0) ''at least one virtio-mmio device is required'') (\<lambda>_.
      Check (ucast kVirtioMmioIrqBase + count - 1 < ucast kMaxIoApicPins) ''too many virtio-mmio devices'')"

definition digit_char :: "nat \<Rightarrow> char" where
  "digit_char d = char_of (48 + d)"

definition VirtioMmioDeviceName :: "u32 \<Rightarrow> string result" where
  "VirtioMmioDeviceName index =
    rbind (Check (index \<le> 999) ''too many virtio-mmio devices'') (\<lambda>_.
      Inr [CHR ''V'', digit_char (unat index div 100), digit_char (unat index div 10 mod 10), digit_char (unat index mod 10)])"

definition AlignUp :: "u64 \<Rightarrow> u64 \<Rightarrow> u64" where
  "AlignUp value align = (value + align - 1) AND NOT (align - 1)"

definition AppendPkgLength :: "bytes \<Rightarrow> nat \<Rightarrow> bool \<Rightarrow> bytes" where
  "AppendPkgLength out payload_len include_self =
    (let length_len = (if (push_bit 20 1 :: nat) - 3 \<le> payload_len then 4 else if (push_bit 12 1 :: nat) - 2 \<le> payload_len then 3
                       else if (push_bit 6 1 :: nat) - 1 \<le> payload_len then 2 else 1);
         n = payload_len + (if include_self then length_len else 0)
     in out @ (if length_len = 1 then [of_nat n]
        else if length_len = 2 then [of_nat (push_bit 6 1 OR (n AND 0x0F)), of_nat (drop_bit 4 n AND 0xFF)]
        else if length_len = 3 then [of_nat (push_bit 6 2 OR (n AND 0x0F)), of_nat (drop_bit 4 n AND 0xFF), of_nat (drop_bit 12 n AND 0xFF)]
        else [of_nat (push_bit 6 3 OR (n AND 0x0F)), of_nat (drop_bit 4 n AND 0xFF), of_nat (drop_bit 12 n AND 0xFF), of_nat (drop_bit 20 n AND 0xFF)]))"

function path_parts :: "string \<Rightarrow> string list result" where
  "path_parts name =
    (let part = takeWhile (\<lambda>c. c \<noteq> CHR ''.'') name; rest = dropWhile (\<lambda>c. c \<noteq> CHR ''.'') name
     in rbind (Check (length part = 4) (''AML path part must be four characters: '' @ part)) (\<lambda>_.
          if rest = [] then Inr [part] else rbind (path_parts (tl rest)) (\<lambda>parts. Inr (part # parts))))"
  by pat_completeness auto
termination
proof (relation "measure length")
  fix name :: string and x xa
  assume "xa = dropWhile (\<lambda>c. c \<noteq> CHR ''.'') name" "xa \<noteq> []"
  then have "xa \<noteq> []" "length xa \<le> length name" by (simp_all add: length_dropWhile_le)
  then show "(tl xa, name) \<in> measure length" by (cases xa) simp_all
qed simp

declare path_parts.simps [simp del]

definition EncodePath :: "string \<Rightarrow> bytes result" where
  "EncodePath name =
    (let root = (name \<noteq> [] \<and> name ! 0 = CHR 0x5C);
         out = (if root then [0x5C] else []);
         name = (if root then drop 1 name else name)
     in rbind (path_parts name) (\<lambda>parts.
          let out = (if length parts = 2 then out @ [0x2E]
                     else if length parts > 2 then out @ [0x2F, of_nat (length parts)] else out)
          in Inr (out @ concat (map string_bytes parts))))"

definition EncodeString :: "string \<Rightarrow> bytes" where
  "EncodeString s = [0x0D] @ string_bytes s @ [0]"

definition EncodeByte :: "u8 \<Rightarrow> bytes" where
  "EncodeByte v = [0x0A, v]"

definition EncodeWord :: "u16 \<Rightarrow> bytes" where
  "EncodeWord v = buf_put [0x0B, 0, 0] 1 (le_bytes 2 v)"

definition EncodeDword :: "u32 \<Rightarrow> bytes" where
  "EncodeDword v = buf_put [0x0C, 0, 0, 0, 0] 1 (le_bytes 4 v)"

definition EncodeInteger :: "u64 \<Rightarrow> bytes" where
  "EncodeInteger v =
    (if v = 0 then [0x00]
     else if v = 1 then [0x01]
     else if v \<le> 0xFF then EncodeByte (ucast v)
     else if v \<le> 0xFFFF then EncodeWord (ucast v)
     else if v \<le> 0xFFFFFFFF then EncodeDword (ucast v)
     else buf_put [0x0E, 0, 0, 0, 0, 0, 0, 0, 0] 1 (le_bytes 8 v))"

definition AppendName :: "string \<Rightarrow> bytes \<Rightarrow> bytes result" where
  "AppendName path v = rbind (EncodePath path) (\<lambda>path_bytes. Inr ([0x08] @ path_bytes @ v))"

definition ResMemory32Fixed :: "bool \<Rightarrow> u32 \<Rightarrow> u32 \<Rightarrow> bytes" where
  "ResMemory32Fixed read_write base n =
    (let out = (replicate 12 0)[0 := 0x86];
         out = buf_put out 1 (le_bytes 2 (9 :: u16));
         out = out[3 := if read_write then 1 else 0];
         out = buf_put out 4 (le_bytes 4 base)
     in buf_put out 8 (le_bytes 4 n))"

definition ResInterrupt :: "bool \<Rightarrow> bool \<Rightarrow> bool \<Rightarrow> bool \<Rightarrow> u32 \<Rightarrow> bytes" where
  "ResInterrupt consumer edge_triggered active_low shared number =
    (let out = (replicate 9 0)[0 := 0x89];
         out = buf_put out 1 (le_bytes 2 (6 :: u16));
         flags = (0 :: u8);
         flags = (if shared then flags OR push_bit 3 1 else flags);
         flags = (if active_low then flags OR push_bit 2 1 else flags);
         flags = (if edge_triggered then flags OR push_bit 1 1 else flags);
         flags = (if consumer then flags OR 1 else flags);
         out = out[3 := flags, 4 := 1]
     in buf_put out 5 (le_bytes 4 number))"

definition ResIoPort :: "u16 \<Rightarrow> u8 \<Rightarrow> bytes" where
  "ResIoPort base n =
    (let out = (replicate 8 0)[0 := 0x47, 1 := 0x01];
         out = buf_put out 2 (le_bytes 2 base);
         out = buf_put out 4 (le_bytes 2 base)
     in out[6 := 0x01, 7 := n])"

definition BuildResourceTemplate :: "bytes list \<Rightarrow> bytes" where
  "BuildResourceTemplate resources =
    (let payload = concat resources @ [0x79, 0x00];
         len_obj = EncodeInteger (of_nat (length payload));
         tmp = len_obj @ payload
     in AppendPkgLength [0x11] (length tmp) True @ tmp)"

definition AppendDevice :: "string \<Rightarrow> bytes list \<Rightarrow> bytes result" where
  "AppendDevice name children =
    rbind (EncodePath name) (\<lambda>path.
      let payload = path @ concat children in Inr (AppendPkgLength [0x5B, 0x82] (length payload) True @ payload))"

definition AppendScope :: "string \<Rightarrow> bytes list \<Rightarrow> bytes result" where
  "AppendScope name children =
    rbind (EncodePath name) (\<lambda>path.
      let payload = path @ concat children in Inr (AppendPkgLength [0x10] (length payload) True @ payload))"

definition BuildVirtioMmioDevice :: "string \<Rightarrow> u32 \<Rightarrow> u64 \<Rightarrow> u32 \<Rightarrow> bytes result" where
  "BuildVirtioMmioDevice name uid base irq =
    rbind (AppendName ''_HID'' (EncodeString ''LNRO0005'')) (\<lambda>hid.
    rbind (AppendName ''_UID'' (EncodeInteger (ucast uid))) (\<lambda>uid_obj.
    rbind (AppendName ''_CCA'' [0x01]) (\<lambda>cca.
    rbind (AppendName ''_CRS''
       (BuildResourceTemplate [ResMemory32Fixed True (ucast base) (ucast kVirtioStride), ResInterrupt True True False False irq])) (\<lambda>crs.
    AppendDevice name [hid, uid_obj, cca, crs]))))"

definition BuildHpetDevice :: "bytes result" where
  "BuildHpetDevice =
    rbind (AppendName ''_HID'' (EncodeString ''PNP0103'')) (\<lambda>hid.
    rbind (AppendName ''_UID'' (EncodeInteger 0)) (\<lambda>uid_obj.
    rbind (AppendName ''_CRS'' (BuildResourceTemplate [ResMemory32Fixed False (ucast kHpetBase) (ucast kHpetSize)])) (\<lambda>crs.
    AppendDevice ''HPET'' [hid, uid_obj, crs])))"

definition BuildCom1Device :: "bytes result" where
  "BuildCom1Device =
    rbind (AppendName ''_HID'' (EncodeString ''PNP0501'')) (\<lambda>hid.
    rbind (AppendName ''_UID'' (EncodeInteger 0)) (\<lambda>uid_obj.
    rbind (AppendName ''_CRS'' (BuildResourceTemplate [ResIoPort kCom1Base 8, ResInterrupt True True False False kCom1IRQ])) (\<lambda>crs.
    AppendDevice ''COM1'' [hid, uid_obj, crs])))"

definition virtio_child :: "u32 \<Rightarrow> bytes result" where
  "virtio_child index =
    rbind (VirtioMmioDeviceName index) (\<lambda>name.
      BuildVirtioMmioDevice name index (VirtioMmioBase index) (VirtioMmioIrq index))"

fun disk_children :: "nat list \<Rightarrow> bytes list \<Rightarrow> bytes list result" where
  "disk_children [] children = Inr children"
| "disk_children (index # rest) children =
    rbind (virtio_child (of_nat index)) (\<lambda>dev. disk_children rest (children @ [dev]))"

definition BuildDsdtBody :: "bool \<Rightarrow> u32 \<Rightarrow> bytes result" where
  "BuildDsdtBody network_enabled disk_count =
    (let rng_index = disk_count + 1
     in rbind (CheckVirtioMmioDeviceCount (ucast (rng_index + 1))) (\<lambda>_.
        rbind BuildHpetDevice (\<lambda>hpet.
        rbind BuildCom1Device (\<lambda>com1.
        rbind (disk_children [0 ..< unat disk_count] [hpet, com1]) (\<lambda>children.
        rbind (virtio_child rng_index) (\<lambda>rng.
        rbind (if network_enabled then rbind (virtio_child disk_count) (\<lambda>net. Inr (children @ [rng, net])) else Inr (children @ [rng])) (\<lambda>children.
        AppendScope (CHR 0x5C # ''_SB_'') children)))))))"

section \<open>Package lengths\<close>

text \<open>The decoder of the ACPI specification: the two high bits of the first byte say how many bytes
  follow; alone it holds six bits of the length, otherwise four.\<close>

definition decode_pkg :: "bytes \<Rightarrow> (nat \<times> bytes) option" where
  "decode_pkg bs = (case bs of [] \<Rightarrow> None
     | b # rest \<Rightarrow>
         (let k = unat b div 64
          in if length rest < k then None
             else Some (if k = 0 then unat b mod 64
                        else unat b mod 16 + (\<Sum>i \<leftarrow> [0 ..< k]. unat (rest ! i) * 2 ^ (4 + 8 * i)), drop k rest)))"

lemma nat_and_masks: "(n :: nat) AND 15 = n mod 16" "(n :: nat) AND 255 = n mod 256"
  using take_bit_eq_mask [of 4 n] take_bit_eq_mask [of 8 n] by (simp_all add: take_bit_nat_def mask_eq_exp_minus_1)

lemma pkg_lead: "k < 4 \<Longrightarrow> unat (of_nat (push_bit 6 k OR (n AND 15)) :: u8) = 64 * k + n mod 16"
proof -
  assume "k < 4"
  have "push_bit 6 k + n mod 16 = push_bit 6 k OR n mod 16"
  proof (rule disjunctive_add_eq_or)
    show "push_bit 6 k AND (n mod 16) = 0"
      using take_bit_nat_def [of 4 n] by (intro bit_eqI) (auto simp: bit_simps simp flip: take_bit_nat_def [of 4, simplified])
  qed
  then show ?thesis using \<open>k < 4\<close> by (simp add: nat_and_masks push_bit_nat_def unsigned_of_nat take_bit_nat_def)
qed

lemma pkg_byte: "unat (of_nat (drop_bit s n AND 255) :: u8) = n div 2 ^ s mod 256"
  by (simp add: nat_and_masks drop_bit_nat_def unsigned_of_nat take_bit_nat_def)

lemma pkg_single: "n < 64 \<Longrightarrow> unat (of_nat n :: u8) = n"
  by (simp add: unsigned_of_nat take_bit_nat_def)

lemma split_low:
  "n mod 16 + n div 16 mod 256 * 16 = n mod 4096" "n mod 4096 + n div 4096 mod 256 * 4096 = n mod 1048576"
  "n mod 1048576 + n div 1048576 mod 256 * 1048576 = (n :: nat) mod 268435456"
  using mod_mult2_eq [of n 16 256] mod_mult2_eq [of n 4096 256] mod_mult2_eq [of n 1048576 256] by simp_all

definition pkg_len_len :: "nat \<Rightarrow> nat" where
  "pkg_len_len n = (if 1048573 \<le> n then 4 else if 4094 \<le> n then 3 else if 63 \<le> n then 2 else 1)"

lemma AppendPkgLength_append: "AppendPkgLength out n b @ rest = out @ AppendPkgLength [] n b @ rest"
  by (simp add: AppendPkgLength_def Let_def)

lemma length_AppendPkgLength [simp]: "length (AppendPkgLength out n b) = length out + pkg_len_len n"
  by (simp add: AppendPkgLength_def Let_def pkg_len_len_def)

lemma decode_lead:
  assumes "0 < k" "k < 4" "length bs = k"
  shows "decode_pkg (of_nat (push_bit 6 k OR (m AND 15)) # bs @ rest)
    = Some (m mod 16 + (\<Sum>i \<leftarrow> [0 ..< k]. unat (bs ! i) * 2 ^ (4 + 8 * i)), rest)"
proof -
  have "(64 * k + m mod 16) div 64 = k" using mod_less_divisor [of 16 m] by simp
  moreover have "(64 * k + m mod 16) mod 16 = m mod 16" using mod_mult_self4 [of 16 "4 * k" "m mod 16"] by simp
  moreover have "map (\<lambda>i. unat ((bs @ rest) ! i) * 2 ^ (4 + 8 * i)) [0 ..< k] = map (\<lambda>i. unat (bs ! i) * 2 ^ (4 + 8 * i)) [0 ..< k]"
    using assms(3) by (simp add: nth_append)
  ultimately show ?thesis using assms pkg_lead [of k m] by (simp add: decode_pkg_def Let_def del: map_eq_conv)
qed

lemma decode_bytes:
  "decode_pkg (of_nat (push_bit 6 1 OR (m AND 15)) # of_nat (drop_bit 4 m AND 255) # rest) = Some (m mod 4096, rest)"
  "decode_pkg (of_nat (push_bit 6 2 OR (m AND 15)) # of_nat (drop_bit 4 m AND 255) # of_nat (drop_bit 12 m AND 255) # rest)
    = Some (m mod 1048576, rest)"
  "decode_pkg (of_nat (push_bit 6 3 OR (m AND 15)) # of_nat (drop_bit 4 m AND 255) # of_nat (drop_bit 12 m AND 255)
      # of_nat (drop_bit 20 m AND 255) # rest) = Some (m mod 268435456, rest)"
  using decode_lead [of 1 "[of_nat (drop_bit 4 m AND 255)]" m rest]
    decode_lead [of 2 "[of_nat (drop_bit 4 m AND 255), of_nat (drop_bit 12 m AND 255)]" m rest]
    decode_lead [of 3 "[of_nat (drop_bit 4 m AND 255), of_nat (drop_bit 12 m AND 255), of_nat (drop_bit 20 m AND 255)]" m rest]
    split_low [of m]
  by (simp_all add: pkg_byte upt_rec algebra_simps del: push_bit_of_1)

lemma decode_AppendPkgLength:
  assumes n: "n + 4 < 2 ^ 28"
  shows "decode_pkg (AppendPkgLength [] n True @ rest) = Some (n + pkg_len_len n, rest)"
proof -
  consider "n < 63" | "63 \<le> n" "n < 4094" | "4094 \<le> n" "n < 1048573" | "1048573 \<le> n" by linarith
  then show ?thesis
  proof cases
    case 1
    then show ?thesis using pkg_single [of "n + 1"]
      by (simp add: AppendPkgLength_def decode_pkg_def pkg_len_len_def)
  next
    case 2
    then show ?thesis using decode_bytes(1) [of "n + 2" rest] by (simp add: AppendPkgLength_def pkg_len_len_def Let_def)
  next
    case 3
    then show ?thesis using decode_bytes(2) [of "n + 3" rest] by (simp add: AppendPkgLength_def pkg_len_len_def Let_def)
  next
    case 4
    then show ?thesis using n decode_bytes(3) [of "n + 4" rest] by (simp add: AppendPkgLength_def pkg_len_len_def Let_def)
  qed
qed

text \<open>One term with a package: the payload the length covers, and what follows.\<close>

definition parse_pkg :: "bytes \<Rightarrow> bytes \<Rightarrow> (bytes \<times> bytes) option" where
  "parse_pkg opcode bs =
    (if take (length opcode) bs \<noteq> opcode then None
     else let r = drop (length opcode) bs
          in case decode_pkg r of None \<Rightarrow> None
             | Some (n, rest) \<Rightarrow>
                 (let m = n - (length r - length rest)
                  in if length rest < m then None else Some (take m rest, drop m rest)))"

lemma parse_AppendPkgLength:
  assumes "length payload + 4 < 2 ^ 28"
  shows "parse_pkg opcode (AppendPkgLength opcode (length payload) True @ payload @ rest) = Some (payload, rest)"
  using decode_AppendPkgLength [OF assms, of "payload @ rest"]
  by (simp add: parse_pkg_def AppendPkgLength_append [of opcode])

text \<open>The devices of a scope, by the payloads of their packages.\<close>

function parse_devices :: "bytes \<Rightarrow> bytes list option" where
  "parse_devices bs =
    (if bs = [] then Some []
     else case parse_pkg [0x5B, 0x82] bs of None \<Rightarrow> None
       | Some (payload, rest) \<Rightarrow>
           (if length bs \<le> length rest then None else map_option ((#) payload) (parse_devices rest)))"
  by pat_completeness auto
termination
  by (relation "measure length") auto

declare parse_devices.simps [simp del]

definition device_bytes :: "bytes \<Rightarrow> bytes" where
  "device_bytes payload = AppendPkgLength [0x5B, 0x82] (length payload) True @ payload"

lemma parse_devices_concat:
  assumes "\<forall>p \<in> set payloads. length p + 4 < 2 ^ 28"
  shows "parse_devices (concat (map device_bytes payloads)) = Some payloads"
  using assms
proof (induction payloads)
  case Nil
  show ?case by (simp add: parse_devices.simps)
next
  case (Cons p ps)
  then have "parse_pkg [0x5B, 0x82] (device_bytes p @ concat (map device_bytes ps)) = Some (p, concat (map device_bytes ps))"
    by (simp add: device_bytes_def parse_AppendPkgLength)
  moreover have "length (device_bytes p) > 2" by (simp add: device_bytes_def pkg_len_len_def)
  then have "device_bytes p \<noteq> []" by auto
  ultimately show ?case using Cons by (subst parse_devices.simps) simp
qed

section \<open>Names and devices\<close>

lemma path_parts_single:
  assumes "length name = 4" and "CHR ''.'' \<notin> set name"
  shows "path_parts name = Inr [name]"
proof -
  have whole: "takeWhile (\<lambda>c. c \<noteq> CHR ''.'') name = name" "dropWhile (\<lambda>c. c \<noteq> CHR ''.'') name = []"
    using assms(2) by (auto simp: takeWhile_eq_all_conv dropWhile_eq_Nil_conv)
  show ?thesis by (subst path_parts.simps) (simp only: Let_def whole assms(1) Check_True rbind.simps simp_thms if_True)
qed

lemma EncodePath_name:
  "\<lbrakk>length name = 4; CHR ''.'' \<notin> set name; name ! 0 \<noteq> CHR 0x5C\<rbrakk> \<Longrightarrow> EncodePath name = Inr (string_bytes name)"
  by (simp add: EncodePath_def path_parts_single Let_def)

lemma EncodePath_root:
  "\<lbrakk>length name = 4; CHR ''.'' \<notin> set name\<rbrakk> \<Longrightarrow> EncodePath (CHR 0x5C # name) = Inr (0x5C # string_bytes name)"
  by (simp add: EncodePath_def path_parts_single Let_def)

text \<open>What the encoded objects should be: a name object, and the payload of each device.\<close>

definition name_obj :: "string \<Rightarrow> bytes \<Rightarrow> bytes" where
  "name_obj name v = 0x08 # string_bytes name @ v"

lemma AppendName_const:
  "AppendName ''_HID'' v = Inr (name_obj ''_HID'' v)" "AppendName ''_UID'' v = Inr (name_obj ''_UID'' v)"
  "AppendName ''_CCA'' v = Inr (name_obj ''_CCA'' v)" "AppendName ''_CRS'' v = Inr (name_obj ''_CRS'' v)"
  by (simp_all add: AppendName_def EncodePath_name name_obj_def)

definition virtio_name :: "nat \<Rightarrow> string" where
  "virtio_name i = [CHR ''V'', digit_char (i div 100), digit_char (i div 10 mod 10), digit_char (i mod 10)]"

definition virtio_payload :: "nat \<Rightarrow> bytes" where
  "virtio_payload i = string_bytes (virtio_name i) @ name_obj ''_HID'' (EncodeString ''LNRO0005'')
     @ name_obj ''_UID'' (EncodeInteger (of_nat i)) @ name_obj ''_CCA'' [0x01]
     @ name_obj ''_CRS'' (BuildResourceTemplate
         [ResMemory32Fixed True (0xD0000000 + of_nat i * 0x200) 0x200, ResInterrupt True True False False (5 + of_nat i)])"

definition hpet_payload :: bytes where
  "hpet_payload = string_bytes ''HPET'' @ name_obj ''_HID'' (EncodeString ''PNP0103'') @ name_obj ''_UID'' [0]
     @ name_obj ''_CRS'' (BuildResourceTemplate [ResMemory32Fixed False 0xFED00000 0x400])"

definition com1_payload :: bytes where
  "com1_payload = string_bytes ''COM1'' @ name_obj ''_HID'' (EncodeString ''PNP0501'') @ name_obj ''_UID'' [0]
     @ name_obj ''_CRS'' (BuildResourceTemplate [ResIoPort 0x3F8 8, ResInterrupt True True False False 4])"

definition dsdt_payloads :: "bool \<Rightarrow> nat \<Rightarrow> bytes list" where
  "dsdt_payloads network_enabled n = [hpet_payload, com1_payload] @ map virtio_payload [0 ..< n] @ [virtio_payload (n + 1)]
     @ (if network_enabled then [virtio_payload n] else [])"

lemma digit_char_plain: "d < 10 \<Longrightarrow> digit_char d \<noteq> CHR ''.'' \<and> digit_char d \<noteq> CHR 0x5C"
proof -
  assume "d < 10"
  then have "of_char (digit_char d) = 48 + d" by (simp add: digit_char_def)
  then show ?thesis using \<open>d < 10\<close> by auto
qed

lemma AppendDevice_name:
  "\<lbrakk>length name = 4; CHR ''.'' \<notin> set name; name ! 0 \<noteq> CHR 0x5C\<rbrakk> \<Longrightarrow>
   AppendDevice name children = Inr (device_bytes (string_bytes name @ concat children))"
  by (simp add: AppendDevice_def EncodePath_name device_bytes_def)

lemma BuildHpetDevice_eq: "BuildHpetDevice = Inr (device_bytes hpet_payload)"
  by (simp add: BuildHpetDevice_def AppendName_const AppendDevice_name hpet_payload_def kHpetBase_def kHpetSize_def EncodeInteger_def)

lemma BuildCom1Device_eq: "BuildCom1Device = Inr (device_bytes com1_payload)"
  by (simp add: BuildCom1Device_def AppendName_const AppendDevice_name com1_payload_def kCom1Base_def kCom1IRQ_def EncodeInteger_def)

lemma virtio_child_eq:
  assumes "i \<le> 999"
  shows "virtio_child (of_nat i) = Inr (device_bytes (virtio_payload i))"
proof -
  have small: "unat (of_nat i :: u32) = i" using assms by (simp add: unsigned_of_nat take_bit_nat_eq_self)
  have digits: "i div 100 < 10" "i div 10 mod 10 < 10" "i mod 10 < 10" using assms by auto
  have name: "VirtioMmioDeviceName (of_nat i) = Inr (virtio_name i)"
    using assms by (simp add: VirtioMmioDeviceName_def word_le_nat_alt small virtio_name_def)
  have plain: "length (virtio_name i) = 4" "CHR ''.'' \<notin> set (virtio_name i)" "virtio_name i ! 0 \<noteq> CHR 0x5C"
    using digits [THEN digit_char_plain] by (auto simp: virtio_name_def)
  have base: "ucast (VirtioMmioBase (of_nat i)) = (0xD0000000 + of_nat i * 0x200 :: u32)"
    using assms by (intro word_unat_eq_iff [THEN iffD2])
      (simp add: VirtioMmioBase_def kVirtioMmioBase_def kVirtioStride_def unsigned_ucast_eq unat_word_ariths small take_bit_nat_def
        mod_simps unsigned_of_nat)
  have uid: "(ucast (of_nat i :: u32) :: u64) = of_nat i"
    using assms by (intro word_unat_eq_iff [THEN iffD2]) (simp add: unsigned_ucast_eq small take_bit_nat_def unsigned_of_nat)
  show ?thesis
    by (simp add: virtio_child_def name BuildVirtioMmioDevice_def AppendName_const AppendDevice_name plain virtio_payload_def base
        VirtioMmioIrq_def kVirtioMmioIrqBase_def kVirtioStride_def uid)
qed

lemma virtio_child_limit: "virtio_child index = Inr d \<Longrightarrow> index \<le> 999"
  by (auto simp: virtio_child_def VirtioMmioDeviceName_def)

lemma disk_children_Inr:
  "\<forall>i \<in> set is. i \<le> 999 \<Longrightarrow> disk_children is cs = Inr (cs @ map (device_bytes \<circ> virtio_payload) is)"
  by (induction "is" arbitrary: cs) (simp_all add: virtio_child_eq)

lemma disk_children_limit: "disk_children is cs = Inr ds \<Longrightarrow> i \<in> set is \<Longrightarrow> (of_nat i :: u32) \<le> 999"
  by (induction "is" arbitrary: cs) (auto dest: virtio_child_limit)

text \<open>The size of what is encoded.\<close>

lemma length_EncodeInteger: "length (EncodeInteger v) \<le> 9"
  by (simp add: EncodeInteger_def EncodeByte_def EncodeWord_def EncodeDword_def)

lemma length_res [simp]:
  "length (ResMemory32Fixed rw b n) = 12" "length (ResInterrupt c e l s k) = 9" "length (ResIoPort p m) = 8"
  by (simp_all add: ResMemory32Fixed_def ResInterrupt_def ResIoPort_def Let_def)

lemma pkg_len_len_le: "pkg_len_len n \<le> 4"
  by (simp add: pkg_len_len_def)

lemma length_template: "length (BuildResourceTemplate rs) \<le> length (concat rs) + 16"
proof -
  define payload where "payload = concat rs @ [0x79, 0x00 :: u8]"
  define tmp where "tmp = EncodeInteger (of_nat (length payload)) @ payload"
  have "length (BuildResourceTemplate rs) = 1 + pkg_len_len (length tmp) + length tmp"
    unfolding BuildResourceTemplate_def Let_def payload_def [symmetric] tmp_def [symmetric] by simp
  moreover have "length tmp \<le> 9 + length payload" using length_EncodeInteger by (simp add: tmp_def)
  moreover have "length payload = length (concat rs) + 2" by (simp add: payload_def)
  ultimately show ?thesis using pkg_len_len_le [of "length tmp"] by linarith
qed

lemma length_virtio_payload: "length (virtio_payload i) \<le> 100"
proof -
  have "length (BuildResourceTemplate [ResMemory32Fixed True b n, ResInterrupt True True False False k]) \<le> 37" for b n k
    using length_template [of "[ResMemory32Fixed True b n, ResInterrupt True True False False k]"] by simp
  from this [of "0xD0000000 + of_nat i * 0x200" "0x200" "5 + of_nat i"] show ?thesis
    using length_EncodeInteger [of "of_nat i"]
    unfolding virtio_payload_def name_obj_def EncodeString_def virtio_name_def by simp
qed

lemma length_fixed_payloads: "length hpet_payload \<le> 100" "length com1_payload \<le> 100"
  using length_template [of "[ResMemory32Fixed False 0xFED00000 0x400]"] length_template [of "[ResIoPort 0x3F8 8, ResInterrupt True True False False 4]"]
  by (simp_all add: hpet_payload_def com1_payload_def name_obj_def EncodeString_def)

lemma dsdt_payload_sizes: "p \<in> set (dsdt_payloads net n) \<Longrightarrow> length p \<le> 100"
  by (auto simp: dsdt_payloads_def length_virtio_payload length_fixed_payloads split: if_splits)

lemma length_devices: "\<forall>p \<in> set ps. length p \<le> 100 \<Longrightarrow> length (concat (map device_bytes ps)) \<le> 106 * length ps"
proof (induction ps)
  case (Cons p ps)
  then show ?case using pkg_len_len_le [of "length p"] by (simp add: device_bytes_def)
qed simp

lemma device_count_word: "unat (w :: u64) < 2 ^ 32 \<Longrightarrow>
  CheckVirtioMmioDeviceCount w = Inr u \<longleftrightarrow> 0 < unat w \<and> unat w \<le> 19"
proof -
  assume w: "unat w < 2 ^ 32"
  have "ucast kVirtioMmioIrqBase + w - 1 = 4 + w" by (simp add: kVirtioMmioIrqBase_def)
  moreover have "unat (4 + w) = unat w + 4" using w by (simp add: unat_word_ariths)
  ultimately show ?thesis by (auto simp: CheckVirtioMmioDeviceCount_def kMaxIoApicPins_def word_less_nat_alt)
qed

lemma device_count_ok:
  "CheckVirtioMmioDeviceCount (ucast (d + 1 + 1 :: u32)) = Inr u \<longleftrightarrow> unat d \<le> 17 \<or> unat d = 4294967295"
proof -
  have "unat (ucast (d + 1 + 1) :: u64) = unat (d + 1 + 1)"
    using unat_u32_less [of "d + 1 + 1"] by (simp add: unsigned_ucast_eq take_bit_nat_eq_self)
  moreover have "unat (d + 1 + 1) = (unat d + 2) mod 4294967296" by (simp add: unat_word_ariths mod_simps)
  moreover have "\<dots> = (if unat d + 2 < 4294967296 then unat d + 2 else unat d + 2 - 4294967296)"
    using unat_u32_less [of d] by (simp add: mod_if)
  ultimately show ?thesis
    using unat_u32_less [of d] device_count_word [of "ucast (d + 1 + 1)" u] by (auto split: if_splits)
qed

lemma BuildDsdtBody_Inr:
  assumes "unat d \<le> 17"
  shows "BuildDsdtBody net d = AppendScope (CHR 0x5C # ''_SB_'') (map device_bytes (dsdt_payloads net (unat d)))"
proof -
  have d: "d = of_nat (unat d)" "d + 1 = of_nat (unat d + 1)" by simp_all
  have rng: "virtio_child (d + 1) = Inr (device_bytes (virtio_payload (unat d + 1)))"
    and net: "virtio_child d = Inr (device_bytes (virtio_payload (unat d)))"
    using virtio_child_eq [of "unat d + 1"] virtio_child_eq [of "unat d"] assms by (simp_all add: add.commute)
  show ?thesis
    using assms device_count_ok [of d "()"]
    by (simp add: BuildDsdtBody_def BuildHpetDevice_eq BuildCom1Device_eq disk_children_Inr rng net dsdt_payloads_def)
qed

lemma BuildDsdtBody_limit:
  assumes "BuildDsdtBody net d = Inr body"
  shows "unat d \<le> 17"
proof (rule ccontr)
  assume large: "\<not> unat d \<le> 17"
  from assms obtain u cs where "CheckVirtioMmioDeviceCount (ucast (d + 1 + 1)) = Inr u"
      and cs: "disk_children [0 ..< unat d] [device_bytes hpet_payload, device_bytes com1_payload] = Inr cs"
    by (auto simp: BuildDsdtBody_def Let_def BuildHpetDevice_eq BuildCom1Device_eq)
  then have "unat d = 4294967295" using device_count_ok large by blast
  then have "1000 \<in> set [0 ..< unat d]" by (simp only: atLeastLessThan_upt [symmetric]) simp
  from disk_children_limit [OF cs this] show False by simp
qed

lemma BuildDsdtBody_reads:
  "(\<exists>body. BuildDsdtBody network_enabled disk_count = Inr body) \<longleftrightarrow> unat disk_count \<le> 17"
  "BuildDsdtBody network_enabled disk_count = Inr body \<Longrightarrow>
   \<exists>scope. parse_pkg [0x10] body = Some (0x5C # string_bytes ''_SB_'' @ scope, []) \<and>
     parse_devices scope = Some (dsdt_payloads network_enabled (unat disk_count))"
proof -
  let ?ps = "dsdt_payloads network_enabled (unat disk_count)"
  let ?scope = "concat (map device_bytes ?ps)"
  let ?payload = "0x5C # string_bytes ''_SB_'' @ ?scope"
  have scope: "AppendScope (CHR 0x5C # ''_SB_'') (map device_bytes ?ps) = Inr (AppendPkgLength [0x10] (length ?payload) True @ ?payload)"
    by (simp add: AppendScope_def EncodePath_root)
  then show "(\<exists>body. BuildDsdtBody network_enabled disk_count = Inr body) \<longleftrightarrow> unat disk_count \<le> 17"
    using BuildDsdtBody_Inr BuildDsdtBody_limit by metis
  assume body: "BuildDsdtBody network_enabled disk_count = Inr body"
  have small: "unat disk_count \<le> 17" by (rule BuildDsdtBody_limit [OF body])
  then have "length ?ps \<le> 21" by (simp add: dsdt_payloads_def)
  moreover have sizes: "\<forall>p \<in> set ?ps. length p \<le> 100" using dsdt_payload_sizes by blast
  ultimately have "length ?scope \<le> 106 * 21" using length_devices [of ?ps] by linarith
  then have "parse_pkg [0x10] (AppendPkgLength [0x10] (length ?payload) True @ ?payload @ []) = Some (?payload, [])"
    by (intro parse_AppendPkgLength) simp
  moreover have "body = AppendPkgLength [0x10] (length ?payload) True @ ?payload"
    using body scope BuildDsdtBody_Inr [OF small] by simp
  moreover have "\<forall>p \<in> set ?ps. length p + 4 < 2 ^ 28" using sizes by fastforce
  then have "parse_devices ?scope = Some ?ps" by (rule parse_devices_concat)
  ultimately show "\<exists>scope. parse_pkg [0x10] body = Some (0x5C # string_bytes ''_SB_'' @ scope, []) \<and> parse_devices scope = Some ?ps"
    by (intro exI [of _ ?scope]) simp
qed



end
