(* ===== verification/Acpi.thy ===== *)
theory Acpi
  imports Aml
begin

unbundle bit_operations_syntax

text \<open>
  The ACPI tables of native/whp/backend.cc: the common header and its checksum, DSDT, HPET, FADT,
  MADT, RSDT, XSDT, the root pointer, and their placement in guest memory below 0xE0000. The
  correctness statement reads the tables back from guest memory the way an operating system
  finds them, from the root pointer on.
\<close>

definition kPitIoApicPin :: u32 where "kPitIoApicPin = 2"
definition kAcpiPmTimerPort :: u16 where "kAcpiPmTimerPort = 0x408"

definition TableChecksum :: "bytes \<Rightarrow> u8" where
  "TableChecksum table = (let sum = fold (\<lambda>b sum. sum + b) table 0 in NOT sum + 1)"

definition BuildSdtHeader :: "string \<Rightarrow> u32 \<Rightarrow> u8 \<Rightarrow> string \<Rightarrow> bytes" where
  "BuildSdtHeader sig len revision table_id =
    (let out = replicate 36 0;
         out = buf_put out 0 (string_bytes (take 4 sig));
         out = buf_put out 4 (le_bytes 4 len);
         out = out[8 := revision];
         out = buf_put out 10 (string_bytes ''GOCRKR'');
         out = buf_put out 16 (string_bytes (take 8 table_id));
         out = buf_put out 28 (le_bytes 4 (0x47434154 :: u32))
     in buf_put out 32 (le_bytes 4 (0x20260402 :: u32)))"

definition FinalizeSdt :: "bytes \<Rightarrow> bytes" where
  "FinalizeSdt table = (let table = table[9 := 0] in table[9 := TableChecksum table])"

definition BuildDsdtTable :: "bool \<Rightarrow> u32 \<Rightarrow> bytes result" where
  "BuildDsdtTable network_enabled disk_count =
    rbind (BuildDsdtBody network_enabled disk_count) (\<lambda>body.
      Inr (FinalizeSdt (BuildSdtHeader ''DSDT'' (of_nat (36 + length body)) 2 ''GCDSDT01'' @ body)))"

definition BuildHpetTable :: bytes where
  "BuildHpetTable =
    (let out = BuildSdtHeader ''HPET'' 56 1 ''GCHPET01'' @ replicate 20 0;
         out = buf_put out 36 (le_bytes 4 (0x8086A201 :: u32));
         out = out[40 := 0, 41 := 0, 42 := 0, 43 := 0];
         out = buf_put out 44 (le_bytes 8 kHpetBase);
         out = out[52 := 0];
         out = buf_put out 53 (le_bytes 2 (0 :: u16));
         out = out[55 := 0]
     in FinalizeSdt out)"

definition BuildFadt :: "u64 \<Rightarrow> bytes" where
  "BuildFadt dsdt_addr =
    (let out = replicate 276 0;
         hdr = BuildSdtHeader ''FACP'' 276 6 ''GCFADT01'';
         out = buf_put out 0 hdr;
         out = buf_put out 40 (le_bytes 4 (ucast dsdt_addr :: u32));
         out = buf_put out 76 (le_bytes 4 (ucast kAcpiPmTimerPort :: u32));
         out = out[91 := 4, 108 := 0x32];
         out = buf_put out 109 (le_bytes 2 (push_bit 2 1 :: u16));
         out = buf_put out 112 (le_bytes 4 (push_bit 20 1 OR push_bit 8 1 OR push_bit 4 1 OR push_bit 5 1 :: u32));
         out = out[131 := 5];
         out = buf_put out 140 (le_bytes 8 dsdt_addr);
         out = out[208 := 1, 209 := 32, 210 := 0, 211 := 3];
         out = buf_put out 212 (le_bytes 8 (ucast kAcpiPmTimerPort :: u64));
         out = buf_put out 268 (string_bytes ''GOCRKVM '')
     in FinalizeSdt out)"

definition madt_lapic :: "nat \<Rightarrow> bytes \<Rightarrow> bytes" where
  "madt_lapic i body =
    (let off = 30 + 8 * i;
         body = body[off := 0, off + 1 := 8, off + 2 := of_nat i, off + 3 := of_nat i]
     in buf_put body (off + 4) (le_bytes 4 (1 :: u32)))"

definition BuildMadt :: "nat \<Rightarrow> bytes" where
  "BuildMadt cpus =
    (let body = replicate (8 + 12 + 10 + cpus * 8) 0;
         body = buf_put body 0 (le_bytes 4 (0xFEE00000 :: u32));
         body = buf_put body 4 (le_bytes 4 (1 :: u32));
         body = body[8 := 1, 9 := 12];
         body = buf_put body 12 (le_bytes 4 (0xFEC00000 :: u32));
         body = body[20 := 2, 21 := 10, 22 := 0, 23 := 0];
         body = buf_put body 24 (le_bytes 4 kPitIoApicPin);
         body = buf_put body 28 (le_bytes 2 (0 :: u16));
         body = fold madt_lapic [0 ..< cpus] body;
         out = BuildSdtHeader ''APIC'' (of_nat (36 + length body)) 6 ''GCMADT01'' @ body
     in FinalizeSdt out)"

definition BuildRsdt :: "u64 list \<Rightarrow> bytes" where
  "BuildRsdt addrs =
    (let body = fold (\<lambda>i body. buf_put body (i * 4) (le_bytes 4 (ucast (addrs ! i) :: u32))) [0 ..< length addrs] (replicate (length addrs * 4) 0);
         out = BuildSdtHeader ''RSDT'' (of_nat (36 + length body)) 1 ''GCRSDT01'' @ body
     in FinalizeSdt out)"

definition BuildXsdt :: "u64 list \<Rightarrow> bytes" where
  "BuildXsdt addrs =
    (let body = fold (\<lambda>i body. buf_put body (i * 8) (le_bytes 8 (addrs ! i))) [0 ..< length addrs] (replicate (length addrs * 8) 0);
         out = BuildSdtHeader ''XSDT'' (of_nat (36 + length body)) 1 ''GCXSDT01'' @ body
     in FinalizeSdt out)"

definition BuildRsdp :: "u64 \<Rightarrow> u64 \<Rightarrow> bytes" where
  "BuildRsdp rsdt_addr xsdt_addr =
    (let out = replicate 36 0;
         out = buf_put out 0 (string_bytes ''RSD PTR '');
         out = buf_put out 9 (string_bytes ''GOCRKR'');
         out = out[15 := 2];
         out = buf_put out 16 (le_bytes 4 (ucast rsdt_addr :: u32));
         out = buf_put out 20 (le_bytes 4 (36 :: u32));
         out = buf_put out 24 (le_bytes 8 xsdt_addr);
         sum20 = fold (\<lambda>i sum. sum + out ! i) [0 ..< 20] 0;
         out = out[8 := NOT sum20 + 1];
         sum36 = fold (\<lambda>b sum. sum + b) out 0
     in out[32 := NOT sum36 + 1])"

definition rsdp_address :: u64 where "rsdp_address = 0x000E0000"

definition write_table :: "u64 \<Rightarrow> bytes \<Rightarrow> u64 \<times> ram \<Rightarrow> (u64 \<times> u64 \<times> ram) result" where
  "write_table mem_size table = (\<lambda>(cursor, mem).
    let cursor = AlignUp cursor 8; addr = cursor
    in rbind (CheckRange mem_size addr (of_nat (length table)) ''ACPI table'') (\<lambda>_.
       let mem = memcpy mem (unat addr) table; cursor = cursor + of_nat (length table)
       in rbind (Check (cursor < rsdp_address) ''ACPI tables overflow low memory'') (\<lambda>_. Inr (addr, cursor, mem))))"

definition CreateAcpiTables :: "ram \<Rightarrow> u64 \<Rightarrow> bool \<Rightarrow> nat \<Rightarrow> u32 \<Rightarrow> (u64 \<times> ram) result" where
  "CreateAcpiTables mem mem_size network_enabled cpus disk_count =
    rbind (BuildDsdtTable network_enabled disk_count) (\<lambda>dsdt.
    rbind (write_table mem_size dsdt (0x000A0000, mem)) (\<lambda>(dsdt_addr, st).
    rbind (write_table mem_size (BuildFadt dsdt_addr) st) (\<lambda>(fadt_addr, st).
    rbind (write_table mem_size (BuildMadt cpus) st) (\<lambda>(madt_addr, st).
    rbind (write_table mem_size BuildHpetTable st) (\<lambda>(hpet_addr, st).
    rbind (write_table mem_size (BuildRsdt [fadt_addr, madt_addr, hpet_addr]) st) (\<lambda>(rsdt_addr, st).
    rbind (write_table mem_size (BuildXsdt [fadt_addr, madt_addr, hpet_addr]) st) (\<lambda>(xsdt_addr, _, mem).
    let rsdp = BuildRsdp rsdt_addr xsdt_addr
    in rbind (CheckRange mem_size rsdp_address (of_nat (length rsdp)) ''RSDP'') (\<lambda>_.
         Inr (rsdp_address, memcpy mem (unat rsdp_address) rsdp)))))))))"

section \<open>Fields of a buffer\<close>

definition field :: "nat \<Rightarrow> nat \<Rightarrow> bytes \<Rightarrow> bytes" where
  "field k n buf = take n (drop k buf)"

lemma field_put_same: "\<lbrakk>off + length bs \<le> length buf; n = length bs\<rbrakk> \<Longrightarrow> field off n (buf_put buf off bs) = bs"
  by (simp add: field_def take_buf_put_same)

lemma field_put_other:
  assumes "off + length bs \<le> length buf" "k + n \<le> length buf" "k + n \<le> off \<or> off + length bs \<le> k"
  shows "field k n (buf_put buf off bs) = field k n buf"
  using assms by (intro nth_equalityI) (auto simp: field_def nth_buf_put)

lemma field_update_other: "i < k \<or> k + n \<le> i \<Longrightarrow> field k n (buf[i := v]) = field k n buf"
  by (intro nth_equalityI) (auto simp: field_def nth_list_update)

lemma field_append1: "k + n \<le> length xs \<Longrightarrow> field k n (xs @ ys) = field k n xs"
  by (simp add: field_def)

lemma field_append2: "length xs \<le> k \<Longrightarrow> field k n (xs @ ys) = field (k - length xs) n ys"
  by (simp add: field_def)

lemma field_put_within:
  "\<lbrakk>off + length bs \<le> length buf; off \<le> k; k + n \<le> off + length bs\<rbrakk> \<Longrightarrow> field k n (buf_put buf off bs) = field (k - off) n bs"
  by (intro nth_equalityI) (auto simp: field_def nth_buf_put add.commute)

lemmas field_simps = field_put_same field_put_other field_update_other field_append1 field_append2

section \<open>Well-formed tables\<close>

lemma fold_sum: "fold (\<lambda>b sum. sum + b) bs (a :: u8) = a + sum_list bs"
  by (induction bs arbitrary: a) (simp_all add: add.assoc)

lemma TableChecksum_sum: "TableChecksum table = - sum_list table"
  by (simp add: TableChecksum_def fold_sum Let_def minus_eq_not_plus_1)

text \<open>A table with its signature, its length and bytes that sum to zero.\<close>

definition sdt_ok :: "string \<Rightarrow> bytes \<Rightarrow> bool" where
  "sdt_ok sig table \<longleftrightarrow> 36 \<le> length table \<and> field 0 4 table = string_bytes sig \<and>
     field 4 4 table = le_bytes 4 (of_nat (length table) :: u32) \<and> sum_list table = 0"

lemma Finalize_sum: "9 < length table \<Longrightarrow> sum_list (FinalizeSdt table) = 0"
  using sum_list_update_word [of 9 "table[9 := 0]" "TableChecksum (table[9 := 0])"]
  by (simp add: FinalizeSdt_def Let_def TableChecksum_sum)

lemma length_Finalize [simp]: "length (FinalizeSdt table) = length table"
  by (simp add: FinalizeSdt_def)

lemma field_Finalize: "9 < k \<or> k + n \<le> 9 \<Longrightarrow> field k n (FinalizeSdt table) = field k n table"
  by (simp add: FinalizeSdt_def Let_def field_update_other)

lemma length_header [simp]: "length sig = 4 \<Longrightarrow> length ident = 8 \<Longrightarrow> length (BuildSdtHeader sig len r ident) = 36"
  by (simp add: BuildSdtHeader_def Let_def)

lemma header_fields:
  assumes "length sig = 4" "length ident = 8"
  shows "field 0 4 (BuildSdtHeader sig len r ident) = string_bytes sig" "field 4 4 (BuildSdtHeader sig len r ident) = le_bytes 4 len"
  using assms by (simp_all add: BuildSdtHeader_def Let_def field_simps)

lemma Finalize_ok:
  assumes "36 \<le> length table" "field 0 4 table = string_bytes sig" "field 4 4 table = le_bytes 4 (of_nat (length table) :: u32)"
  shows "sdt_ok sig (FinalizeSdt table)"
  using assms by (simp add: sdt_ok_def Finalize_sum field_Finalize)

lemma Finalize_header_ok:
  "\<lbrakk>length sig = 4; length ident = 8; n = of_nat (36 + length body)\<rbrakk> \<Longrightarrow> sdt_ok sig (FinalizeSdt (BuildSdtHeader sig n r ident @ body))"
  by (intro Finalize_ok) (simp_all add: field_append1 header_fields)

lemma dsdt_ok: "BuildDsdtTable net d = Inr t \<Longrightarrow> sdt_ok ''DSDT'' t"
  by (auto simp: BuildDsdtTable_def intro!: Finalize_header_ok)

lemma hpet_ok: "sdt_ok ''HPET'' BuildHpetTable"
  unfolding BuildHpetTable_def Let_def by (rule Finalize_ok) (simp_all add: field_simps header_fields)

lemma fadt_ok: "sdt_ok ''FACP'' (BuildFadt a)"
  unfolding BuildFadt_def Let_def
  by (rule Finalize_ok) (simp_all add: field_simps header_fields field_put_within)

lemma fadt_dsdt: "field 40 4 (BuildFadt a) = le_bytes 4 (ucast a :: u32)" "field 140 8 (BuildFadt a) = le_bytes 8 a"
  unfolding BuildFadt_def Let_def by (simp_all add: field_simps field_Finalize)

lemma madt_ok: "sdt_ok ''APIC'' (BuildMadt cpus)"
  unfolding BuildMadt_def Let_def by (rule Finalize_header_ok) simp_all

lemma length_lapics: "set is \<subseteq> {..<n} \<Longrightarrow> length body = 30 + 8 * n \<Longrightarrow> length (fold madt_lapic is body) = length body"
  by (induction "is" arbitrary: body) (auto simp: madt_lapic_def Let_def)

lemma length_all_lapics: "length body = 30 + 8 * n \<Longrightarrow> length (fold madt_lapic [0 ..< n] body) = length body"
  by (rule length_lapics) auto

lemma length_madt: "length (BuildMadt cpus) = 66 + 8 * cpus"
  unfolding BuildMadt_def Let_def by (simp add: length_all_lapics)

lemma rsdt_ok: "sdt_ok ''RSDT'' (BuildRsdt as)" and xsdt_ok: "sdt_ok ''XSDT'' (BuildXsdt as)"
  unfolding BuildRsdt_def BuildXsdt_def Let_def by (rule Finalize_header_ok; simp)+

lemma length_rsdt: "length (BuildRsdt [a, b, c]) = 48" "length (BuildXsdt [a, b, c]) = 60"
  by (simp_all add: BuildRsdt_def BuildXsdt_def Let_def upt_rec)

lemma rsdt_entries:
  "field 36 4 (BuildRsdt [a, b, c]) = le_bytes 4 (ucast a :: u32)"
  "field 40 4 (BuildRsdt [a, b, c]) = le_bytes 4 (ucast b :: u32)"
  "field 44 4 (BuildRsdt [a, b, c]) = le_bytes 4 (ucast c :: u32)"
  by (simp_all add: BuildRsdt_def Let_def upt_rec field_Finalize field_simps)

lemma xsdt_entries:
  "field 36 8 (BuildXsdt [a, b, c]) = le_bytes 8 a"
  "field 44 8 (BuildXsdt [a, b, c]) = le_bytes 8 b"
  "field 52 8 (BuildXsdt [a, b, c]) = le_bytes 8 c"
  by (simp_all add: BuildXsdt_def Let_def upt_rec field_Finalize field_simps)

lemma length_hpet: "length BuildHpetTable = 56" and length_fadt: "length (BuildFadt a) = 276"
  by (simp_all add: BuildHpetTable_def BuildFadt_def Let_def)

section \<open>The root pointer\<close>

lemma fold_sum_nth: "n \<le> length bs \<Longrightarrow> fold (\<lambda>i sum. sum + bs ! i) [0 ..< n] (0 :: u8) = sum_list (take n bs)"
  by (induction n) (simp_all add: take_Suc_conv_app_nth)

definition rsdp_fields :: "u64 \<Rightarrow> u64 \<Rightarrow> bytes" where
  "rsdp_fields rsdt xsdt = buf_put (buf_put (buf_put ((buf_put (buf_put (replicate 36 0) 0 (string_bytes ''RSD PTR '')) 9 (string_bytes ''GOCRKR''))[15 := 2])
     16 (le_bytes 4 (ucast rsdt :: u32))) 20 (le_bytes 4 (36 :: u32))) 24 (le_bytes 8 xsdt)"

lemma BuildRsdp_eq:
  "BuildRsdp rsdt xsdt =
    (let out = rsdp_fields rsdt xsdt; out = out[8 := - sum_list (take 20 out)] in out[32 := - sum_list out])"
  by (simp add: BuildRsdp_def rsdp_fields_def Let_def fold_sum fold_sum_nth minus_eq_not_plus_1)

lemma rsdp_fields_facts [simp]: "length (rsdp_fields r x) = 36" "rsdp_fields r x ! 8 = 0" "rsdp_fields r x ! 32 = 0"
  by (simp_all add: rsdp_fields_def nth_buf_put)

lemma length_rsdp [simp]: "length (BuildRsdp r x) = 36"
  by (simp add: BuildRsdp_eq Let_def)

lemma rsdp_sums: "sum_list (take 20 (BuildRsdp r x)) = 0" "sum_list (BuildRsdp r x) = 0"
proof -
  define out where "out = (rsdp_fields r x)[8 := - sum_list (take 20 (rsdp_fields r x))]"
  have eq: "BuildRsdp r x = out[32 := - sum_list out]" by (simp add: BuildRsdp_eq Let_def out_def)
  have len: "length out = 36" and zero: "out ! 32 = 0" by (simp_all add: out_def)
  show "sum_list (BuildRsdp r x) = 0"
    using sum_list_update_word [of 32 out "- sum_list out"] len zero by (simp add: eq)
  have "take 20 (BuildRsdp r x) = (take 20 (rsdp_fields r x))[8 := - sum_list (take 20 (rsdp_fields r x))]"
    by (simp add: eq out_def take_update_swap list_update_beyond)
  then show "sum_list (take 20 (BuildRsdp r x)) = 0"
    using sum_list_update_word [of 8 "take 20 (rsdp_fields r x)"] by simp
qed

lemma rsdp_pointers:
  "field 0 8 (BuildRsdp r x) = string_bytes ''RSD PTR ''" "field 16 4 (BuildRsdp r x) = le_bytes 4 (ucast r :: u32)"
  "field 24 8 (BuildRsdp r x) = le_bytes 8 x"
  by (simp_all add: BuildRsdp_eq Let_def rsdp_fields_def field_simps)

section \<open>Placement\<close>

definition placed :: "ram \<Rightarrow> u64 \<Rightarrow> u64 \<Rightarrow> bytes \<Rightarrow> bool" where
  "placed mem cursor a table \<longleftrightarrow> unat a + length table \<le> unat cursor \<and> read_bytes mem (unat a) (length table) = table"

lemma AlignUp_8:
  assumes "unat v < 2 ^ 32"
  shows "unat v \<le> unat (AlignUp v 8)" "unat (AlignUp v 8) \<le> unat v + 7"
proof -
  have "unat (v + 8 - 1) = unat v + 7" using assms by (simp add: unat_word_ariths)
  moreover have "AlignUp v 8 = (v + 8 - 1) AND NOT (mask 3)" by (simp add: AlignUp_def mask_eq_exp_minus_1)
  ultimately have "unat (AlignUp v 8) = (unat v + 7) div 8 * 8" by (simp add: unat_and_not_mask del: add_diff_eq)
  then show "unat v \<le> unat (AlignUp v 8)" "unat (AlignUp v 8) \<le> unat v + 7" by linarith+
qed

lemma write_table_Inr:
  assumes res: "write_table ms table (c, mem) = Inr (a, c', mem')" and c: "unat c < 0xE0000" and len: "length table < 2 ^ 32"
  shows "unat c \<le> unat a" "unat c' < 0xE0000" "placed mem' c' a table" "mem' = memcpy mem (unat a) table"
    and "placed mem c b t \<Longrightarrow> placed mem' c' b t" and "unat c \<le> unat c'" and "i < unat c \<or> 0xE0000 \<le> i \<Longrightarrow> mem' i = mem i"
proof -
  have a: "a = AlignUp c 8" "c' = a + of_nat (length table)" and mem': "mem' = memcpy mem (unat a) table" and lt: "c' < rsdp_address"
    using res by (auto simp: write_table_def Let_def)
  have up: "unat c \<le> unat a" "unat a \<le> unat c + 7" using AlignUp_8 [of c] c by (simp_all add: a(1))
  then have "unat c' = unat a + length table"
    using c len by (simp add: a(2) unat_word_ariths unsigned_of_nat take_bit_nat_eq_self)
  then show "unat c \<le> unat a" "unat c' < 0xE0000" "placed mem' c' a table" "mem' = memcpy mem (unat a) table"
    using up lt by (simp_all add: mem' placed_def rsdp_address_def word_less_nat_alt)
  show "unat c \<le> unat c'" "i < unat c \<or> 0xE0000 \<le> i \<Longrightarrow> mem' i = mem i"
    using up lt \<open>unat c' = unat a + length table\<close> by (auto simp: mem' rsdp_address_def word_less_nat_alt intro!: memcpy_outside)
  assume "placed mem c b t"
  then show "placed mem' c' b t"
    using up \<open>unat c' = unat a + length table\<close> by (auto simp: placed_def mem' read_bytes_memcpy_disjoint)
qed

lemma write_table_fits:
  assumes "unat c + 7 + length table < 0xE0000" and "0xE0000 \<le> unat ms"
  shows "\<exists>a c' mem'. write_table ms table (c, mem) = Inr (a, c', mem') \<and> unat c' \<le> unat c + 7 + length table"
proof -
  define a where "a = AlignUp c 8"
  have up: "unat a \<le> unat c + 7" using AlignUp_8 [of c] assms(1) by (simp add: a_def)
  have n: "unat (of_nat (length table) :: u64) = length table"
    using assms(1) by (simp add: unsigned_of_nat take_bit_nat_eq_self)
  then have sum: "unat (a + of_nat (length table)) = unat a + length table"
    using up assms(1) by (simp add: unat_word_ariths)
  have "CheckRange ms a (of_nat (length table)) ''ACPI table'' = Inr ()"
    using CheckRange_Inr [of ms a "of_nat (length table)"] up n assms by simp
  moreover have "a + of_nat (length table) < rsdp_address"
    using sum up assms(1) by (simp add: word_less_nat_alt rsdp_address_def)
  ultimately show ?thesis
    using sum up by (simp add: write_table_def Let_def flip: a_def)
qed

section \<open>What an operating system reads\<close>

definition table_at :: "ram \<Rightarrow> u64 \<Rightarrow> string \<Rightarrow> bool" where
  "table_at mem a sig \<longleftrightarrow> (let n = unat (ReadU32 mem (unat a + 4))
     in 36 \<le> n \<and> read_bytes mem (unat a) 4 = string_bytes sig \<and> sum_list (read_bytes mem (unat a) n) = 0)"

lemma read_field:
  assumes "read_bytes mem p (length table) = table" and "k + n \<le> length table"
  shows "read_bytes mem (p + k) n = field k n table"
proof -
  have "field k n table = field k n (read_bytes mem p (length table))" by (simp add: assms(1))
  also have "\<dots> = read_bytes mem (p + k) n"
    using assms(2) by (intro nth_equalityI) (auto simp: field_def add.assoc simp del: assms(1))
  finally show ?thesis by simp
qed

lemma read_word_field:
  assumes "read_bytes mem p (length table) = table"
  shows "\<lbrakk>field k 4 table = le_bytes 4 v; k + 4 \<le> length table\<rbrakk> \<Longrightarrow> ReadU32 mem (p + k) = v"
    and "\<lbrakk>field k 8 table = le_bytes 8 w; k + 8 \<le> length table\<rbrakk> \<Longrightarrow> ReadU64 mem (p + k) = w"
  using read_field [OF assms, of k 4] read_field [OF assms, of k 8]
  by (simp_all add: load_le_word le_word_le_bytes)

lemma placed_table_at:
  assumes "placed mem c a table" and "sdt_ok sig table" and "length table < 2 ^ 32"
  shows "table_at mem a sig"
proof -
  have r: "read_bytes mem (unat a) (length table) = table" using assms(1) by (simp add: placed_def)
  have "ReadU32 mem (unat a + 4) = of_nat (length table)"
    using assms(2) by (intro read_word_field(1) [OF r]) (simp_all add: sdt_ok_def)
  then have "unat (ReadU32 mem (unat a + 4)) = length table"
    using assms(3) by (simp add: unsigned_of_nat take_bit_nat_eq_self)
  then show ?thesis using assms(2) r read_field [OF r, of 0 4] by (simp add: table_at_def sdt_ok_def)
qed

lemma placed_memcpy_above:
  "\<lbrakk>placed mem c a t; unat c \<le> p\<rbrakk> \<Longrightarrow> placed (memcpy mem p bs) c a t"
  by (simp add: placed_def read_bytes_memcpy_disjoint)

text \<open>The tables reached from the root pointer at 0xE0000.\<close>

definition acpi_tables_ok :: "ram \<Rightarrow> bool" where
  "acpi_tables_ok mem \<longleftrightarrow>
    read_bytes mem 0xE0000 8 = string_bytes ''RSD PTR '' \<and>
    sum_list (read_bytes mem 0xE0000 20) = 0 \<and> sum_list (read_bytes mem 0xE0000 36) = 0 \<and>
    (let rsdt = ucast (ReadU32 mem 0xE0010) :: u64; xsdt = ReadU64 mem 0xE0018;
         r_entry = (\<lambda>i. ucast (ReadU32 mem (unat rsdt + 36 + 4 * i)) :: u64); x_entry = (\<lambda>i. ReadU64 mem (unat xsdt + 36 + 8 * i));
         fadt = x_entry 0
     in table_at mem rsdt ''RSDT'' \<and> table_at mem xsdt ''XSDT'' \<and>
        r_entry 0 = x_entry 0 \<and> r_entry 1 = x_entry 1 \<and> r_entry 2 = x_entry 2 \<and>
        table_at mem fadt ''FACP'' \<and> table_at mem (x_entry 1) ''APIC'' \<and> table_at mem (x_entry 2) ''HPET'' \<and>
        table_at mem (ReadU64 mem (unat fadt + 140)) ''DSDT'' \<and>
        ucast (ReadU32 mem (unat fadt + 40)) = ReadU64 mem (unat fadt + 140))"

lemma ucast_low: "unat (a :: u64) < 2 ^ 32 \<Longrightarrow> ucast (ucast a :: u32) = a"
  by (simp add: word_unat_eq_iff unsigned_ucast_eq unat_take_bit)

text \<open>Tables placed at six addresses and the root pointer above them make a readable set.\<close>

lemma acpi_assembled:
  fixes mem c d f m h r x
  defines "w \<equiv> memcpy mem 0xE0000 (BuildRsdp r x)"
  assumes c: "unat c \<le> 0xE0000" and dsdt: "sdt_ok ''DSDT'' t" "length t < 2 ^ 32"
    and p: "placed mem c d t" "placed mem c f (BuildFadt d)" "placed mem c m (BuildMadt cpus)" "placed mem c h BuildHpetTable"
      "placed mem c r (BuildRsdt [f, m, h])" "placed mem c x (BuildXsdt [f, m, h])" and cpus: "cpus \<le> 64"
  shows "acpi_tables_ok w"
proof -
  note q = p [THEN placed_memcpy_above [OF _ c], of "BuildRsdp r x", folded w_def]
  note bytes = q [unfolded placed_def, THEN conjunct2]
  have low: "unat z < 2 ^ 32" if "placed mem c z s" for z s using that c by (simp add: placed_def)
  have root: "read_bytes w 0xE0000 36 = BuildRsdp r x" using memcpy_read_bytes [of mem "0xE0000" "BuildRsdp r x"] by (simp add: w_def)
  have ptr: "ReadU32 w 0xE0010 = ucast r" "ReadU64 w 0xE0018 = x"
    using read_word_field(1) [of w "0xE0000" "BuildRsdp r x" 16 "ucast r"] read_word_field(2) [of w "0xE0000" "BuildRsdp r x" 24 x] root
    by (simp_all add: rsdp_pointers)
  have sums: "sum_list (read_bytes w 0xE0000 20) = 0" "sum_list (read_bytes w 0xE0000 36) = 0" "read_bytes w 0xE0000 8 = string_bytes ''RSD PTR ''"
    using read_field [of w "0xE0000" "BuildRsdp r x" 0] root rsdp_sums [of r x] rsdp_pointers(1) [of r x] by (simp_all add: field_def)
  have xs: "ReadU64 w (unat x + 36) = f" "ReadU64 w (unat x + 44) = m" "ReadU64 w (unat x + 52) = h"
    by (rule read_word_field(2) [OF bytes(6)]; simp add: length_rsdt xsdt_entries)+
  have rs: "ReadU32 w (unat r + 36) = ucast f" "ReadU32 w (unat r + 40) = ucast m" "ReadU32 w (unat r + 44) = ucast h"
    by (rule read_word_field(1) [OF bytes(5)]; simp add: length_rsdt rsdt_entries)+
  have fs: "ReadU32 w (unat f + 40) = ucast d" "ReadU64 w (unat f + 140) = d"
    using read_word_field(1) [OF bytes(2) fadt_dsdt(1)] read_word_field(2) [OF bytes(2) fadt_dsdt(2)] by (simp_all add: length_fadt)
  have tables: "table_at w d ''DSDT''" "table_at w f ''FACP''" "table_at w m ''APIC''" "table_at w h ''HPET''" "table_at w r ''RSDT''" "table_at w x ''XSDT''"
    using placed_table_at [OF q(1) dsdt] placed_table_at [OF q(2) fadt_ok] placed_table_at [OF q(3) madt_ok] placed_table_at [OF q(4) hpet_ok]
      placed_table_at [OF q(5) rsdt_ok] placed_table_at [OF q(6) xsdt_ok] cpus
    by (simp_all add: length_fadt length_madt length_hpet length_rsdt)
  show ?thesis
    using p [THEN low, THEN ucast_low] tables sums xs rs
    unfolding acpi_tables_ok_def Let_def ptr by (simp add: fs add.commute)
qed

lemma length_dsdt:
  assumes "BuildDsdtTable net d = Inr t"
  shows "length t \<le> 2400"
proof -
  obtain body where body: "BuildDsdtBody net d = Inr body" and t: "length t = 36 + length body"
    using assms by (auto simp: BuildDsdtTable_def)
  have small: "unat d \<le> 17" by (rule BuildDsdtBody_limit [OF body])
  let ?ps = "dsdt_payloads net (unat d)"
  have "length ?ps \<le> 21" using small by (simp add: dsdt_payloads_def)
  moreover have "\<forall>p \<in> set ?ps. length p \<le> 100" using dsdt_payload_sizes by blast
  ultimately have "length (concat (map device_bytes ?ps)) \<le> 2226" using length_devices [of ?ps] by linarith
  then show ?thesis
    using body BuildDsdtBody_Inr [OF small, of net] pkg_len_len_le [of "length (0x5C # string_bytes ''_SB_'' @ concat (map device_bytes ?ps))"] t
    by (auto simp: AppendScope_def EncodePath_root)
qed

lemma placed_agree:
  assumes "unat c \<le> 0xE0000" and "\<forall>i. 0xA0000 \<le> i \<and> i < 0xE0000 \<longrightarrow> w i = mem i" and "placed mem c a t" and "0xA0000 \<le> unat a"
  shows "placed w c a t"
proof -
  have "read_bytes w (unat a) (length t) = read_bytes mem (unat a) (length t)"
    using assms by (intro read_bytes_cong) (simp add: placed_def)
  then show ?thesis using assms(3) by (simp add: placed_def)
qed

lemma CreateAcpiTables_parts:
  assumes "CreateAcpiTables mem ms net cpus disks = Inr (a, w)" and "cpus \<le> 64"
  shows "a = 0xE0000 \<and> (\<forall>w'. (\<forall>i. 0xA0000 \<le> i \<and> i < 0xE0024 \<longrightarrow> w' i = w i) \<longrightarrow> acpi_tables_ok w') \<and>
    (\<forall>i. i < 0xA0000 \<or> 0xE0024 \<le> i \<longrightarrow> w i = mem i)"
proof -
  obtain t d f m h r x c1 c2 c3 c4 c5 c6 m1 m2 m3 m4 m5 m6 where t: "BuildDsdtTable net disks = Inr t"
      and s: "write_table ms t (0xA0000, mem) = Inr (d, c1, m1)" "write_table ms (BuildFadt d) (c1, m1) = Inr (f, c2, m2)"
        "write_table ms (BuildMadt cpus) (c2, m2) = Inr (m, c3, m3)" "write_table ms BuildHpetTable (c3, m3) = Inr (h, c4, m4)"
        "write_table ms (BuildRsdt [f, m, h]) (c4, m4) = Inr (r, c5, m5)" "write_table ms (BuildXsdt [f, m, h]) (c5, m5) = Inr (x, c6, m6)"
      and res: "a = 0xE0000" "w = memcpy m6 0xE0000 (BuildRsdp r x)"
    using assms(1) by (auto simp: CreateAcpiTables_def Let_def rsdp_address_def split: prod.splits)
  have c0: "unat (0xA0000 :: u64) < 0xE0000" by simp
  have len: "length t < 2 ^ 32" using length_dsdt [OF t] by simp
  have lens: "length (BuildFadt d) < 2 ^ 32" "length (BuildMadt cpus) < 2 ^ 32" "length BuildHpetTable < 2 ^ 32"
      "length (BuildRsdt [f, m, h]) < 2 ^ 32" "length (BuildXsdt [f, m, h]) < 2 ^ 32"
    using assms(2) by (simp_all add: length_fadt length_madt length_hpet length_rsdt)
  note w1 = write_table_Inr [OF s(1) c0 len]
  note w2 = write_table_Inr [OF s(2) w1(2) lens(1)]
  note w3 = write_table_Inr [OF s(3) w2(2) lens(2)]
  note w4 = write_table_Inr [OF s(4) w3(2) lens(3)]
  note w5 = write_table_Inr [OF s(5) w4(2) lens(4)]
  note w6 = write_table_Inr [OF s(6) w5(2) lens(5)]
  have le: "0xA0000 \<le> unat c1" "unat c1 \<le> unat c2" "unat c2 \<le> unat c3" "unat c3 \<le> unat c4" "unat c4 \<le> unat c5"
    using w1(6) w2(6) w3(6) w4(6) w5(6) by simp_all
  have lo: "0xA0000 \<le> unat d" "0xA0000 \<le> unat f" "0xA0000 \<le> unat m" "0xA0000 \<le> unat h" "0xA0000 \<le> unat r" "0xA0000 \<le> unat x"
    using le w1(1) w2(1) w3(1) w4(1) w5(1) w6(1) by simp_all
  have c6: "unat c6 \<le> 0xE0000" using w6(2) by simp
  have ok: "acpi_tables_ok w'" if agree: "\<forall>i. 0xA0000 \<le> i \<and> i < 0xE0024 \<longrightarrow> w' i = w i" for w'
  proof -
    have "\<forall>i. 0xA0000 \<le> i \<and> i < 0xE0000 \<longrightarrow> w' i = m6 i"
      using agree by (simp add: res(2) memcpy_outside)
    note keep = placed_agree [OF c6 this]
    have "acpi_tables_ok (memcpy w' 0xE0000 (BuildRsdp r x))"
      by (rule acpi_assembled [OF c6 dsdt_ok [OF t] len
          keep [OF w1(3) [THEN w2(5), THEN w3(5), THEN w4(5), THEN w5(5), THEN w6(5)] lo(1)]
          keep [OF w2(3) [THEN w3(5), THEN w4(5), THEN w5(5), THEN w6(5)] lo(2)]
          keep [OF w3(3) [THEN w4(5), THEN w5(5), THEN w6(5)] lo(3)] keep [OF w4(3) [THEN w5(5), THEN w6(5)] lo(4)]
          keep [OF w5(3) [THEN w6(5)] lo(5)] keep [OF w6(3) lo(6)] assms(2)])
    moreover have "memcpy w' 0xE0000 (BuildRsdp r x) = w'"
      using agree by (intro ext) (auto simp: res(2) memcpy_def)
    ultimately show ?thesis by simp
  qed
  have "w i = mem i" if "i < 0xA0000 \<or> 0xE0024 \<le> i" for i
  proof -
    have "w i = m6 i" using that by (auto simp: res(2) intro!: memcpy_outside)
    also have "\<dots> = m5 i" using that le by (intro w6(7)) linarith
    also have "\<dots> = m4 i" using that le by (intro w5(7)) linarith
    also have "\<dots> = m3 i" using that le by (intro w4(7)) linarith
    also have "\<dots> = m2 i" using that le by (intro w3(7)) linarith
    also have "\<dots> = m1 i" using that le by (intro w2(7)) linarith
    also have "\<dots> = mem i" using that by (intro w1(7)) auto
    finally show ?thesis .
  qed
  then show ?thesis using res(1) ok by blast
qed

lemma CreateAcpiTables_succeeds:
  assumes "unat disks \<le> 17" and "cpus \<le> 64" and ms: "0xE0024 \<le> unat ms"
  shows "\<exists>r. CreateAcpiTables mem ms net cpus disks = Inr r"
proof -
  have big: "0xE0000 \<le> unat ms" using ms by simp
  obtain body where "BuildDsdtBody net disks = Inr body"
    using BuildDsdtBody_Inr [OF assms(1), of net] by (simp add: AppendScope_def EncodePath_root)
  then obtain t where t: "BuildDsdtTable net disks = Inr t" by (simp add: BuildDsdtTable_def)
  have tl: "length t \<le> 2400" by (rule length_dsdt [OF t])
  obtain d c1 m1 where 1: "write_table ms t (0xA0000, mem) = Inr (d, c1, m1)" "unat c1 \<le> 0xA0000 + 7 + length t"
    using write_table_fits [of "0xA0000" t ms mem] tl big by auto
  obtain f c2 m2 where 2: "write_table ms (BuildFadt d) (c1, m1) = Inr (f, c2, m2)" "unat c2 \<le> unat c1 + 7 + length (BuildFadt d)"
    using write_table_fits [of c1 "BuildFadt d" ms m1] tl 1(2) big by (auto simp: length_fadt)
  obtain m c3 m3 where 3: "write_table ms (BuildMadt cpus) (c2, m2) = Inr (m, c3, m3)" "unat c3 \<le> unat c2 + 7 + length (BuildMadt cpus)"
    using write_table_fits [of c2 "BuildMadt cpus" ms m2] tl 1(2) 2(2) assms(2) big by (auto simp: length_fadt length_madt)
  obtain h c4 m4 where 4: "write_table ms BuildHpetTable (c3, m3) = Inr (h, c4, m4)" "unat c4 \<le> unat c3 + 7 + length BuildHpetTable"
    using write_table_fits [of c3 BuildHpetTable ms m3] tl 1(2) 2(2) 3(2) assms(2) big by (auto simp: length_fadt length_madt length_hpet)
  note bound4 = tl 1(2) 2(2) 3(2) 4(2) assms(2) big
  obtain r c5 m5 where 5: "write_table ms (BuildRsdt [f, m, h]) (c4, m4) = Inr (r, c5, m5)" "unat c5 \<le> unat c4 + 7 + length (BuildRsdt [f, m, h])"
    using write_table_fits [of c4 "BuildRsdt [f, m, h]" ms m4] bound4 by (auto simp: length_fadt length_madt length_hpet length_rsdt)
  obtain x c6 m6 where 6: "write_table ms (BuildXsdt [f, m, h]) (c5, m5) = Inr (x, c6, m6)"
    using write_table_fits [of c5 "BuildXsdt [f, m, h]" ms m5] bound4 5(2) by (auto simp: length_fadt length_madt length_hpet length_rsdt)
  have "CheckRange ms rsdp_address 36 ''RSDP'' = Inr ()"
    using CheckRange_Inr [of ms rsdp_address 36 "''RSDP''" "()"] ms by (simp add: rsdp_address_def)
  then show ?thesis by (simp add: CreateAcpiTables_def t 1(1) 2(1) 3(1) 4(1) 5(1) 6)
qed



end
