(* ===== verification/Boot.thy ===== *)
theory Boot
  imports Page_Tables Elf_Loader Acpi
begin

unbundle bit_operations_syntax

text \<open>
  How a guest is prepared (native/whp/backend.cc): the sequence of RunVm that fills guest memory,
  and the bootstrap of a virtual processor, SetupLongMode and SetupWhpBootstrapVcpu. The bytes of the
  kernel file and the hypervisor call that sets registers are parameters. The HRESULT text of a failed
  call is left out of the error.
\<close>

definition kPageTableBase :: u64 where "kPageTableBase = 0x9000"
definition kGdtAddr :: u64 where "kGdtAddr = 0x500"
definition kIdtAddr :: u64 where "kIdtAddr = 0x520"

section \<open>Guest memory\<close>

definition build_guest :: "ram \<Rightarrow> u64 \<Rightarrow> bytes \<Rightarrow> bool \<Rightarrow> nat \<Rightarrow> u32 \<Rightarrow> bytes \<Rightarrow> (ram \<times> kernel_info) result" where
  "build_guest mem ram_bytes kernel_file slirp_enabled cpus disk_count cmdline =
    rbind (LoadElfKernel mem ram_bytes kernel_file) (\<lambda>(mem, kernel).
    rbind (CreateAcpiTables mem ram_bytes slirp_enabled cpus disk_count) (\<lambda>(rsdp_addr, mem).
    rbind (WriteBootParams mem ram_bytes cmdline) (\<lambda>mem.
    rbind (CheckRange ram_bytes (kBootParamsAddr + 0x70) 8 ''guest memory'') (\<lambda>_.
    rbind (WriteMpTable (WriteU64 mem (unat (kBootParamsAddr + 0x70)) rsdp_addr) ram_bytes cpus kPitIoApicPin) (\<lambda>mem.
    Inr (mem, kernel))))))"

definition long_mode_gdt :: "u64 list" where
  "long_mode_gdt = [0x0000000000000000, 0x00AF9B000000FFFF, 0x00CF93000000FFFF, 0x008F8B000000FFFF]"

definition long_mode_memory :: "ram \<Rightarrow> ram" where
  "long_mode_memory mem =
    (let mem = BuildPageTables mem kPageTableBase;
         mem = fold (\<lambda>i mem. WriteU64 mem (unat kGdtAddr + i * 8) (long_mode_gdt ! i)) [0 ..< 4] mem
     in WriteU64 mem (unat kIdtAddr) 0)"

section \<open>Registers\<close>

datatype boot_reg = R_Rip | R_Rsi | R_Rdi | R_Rflags | R_Rsp | R_Rbp | R_Cr0 | R_Cr3 | R_Cr4 | R_Efer
  | R_Cs | R_Ds | R_Es | R_Fs | R_Gs | R_Ss | R_Tr | R_Gdtr | R_Idtr | R_Pat | R_MsrMtrrDefType | R_ApicBase

datatype boot_value = V_Reg64 u64 | V_Segment segment_register | V_Table table_register

definition long_mode_registers :: "u32 \<Rightarrow> u64 \<Rightarrow> (boot_reg \<times> boot_value) list" where
  "long_mode_registers vp_index entry =
    [(R_Rip, V_Reg64 entry), (R_Rsi, V_Reg64 kBootParamsAddr), (R_Rdi, V_Reg64 (ucast vp_index)), (R_Rflags, V_Reg64 0x2),
     (R_Rsp, V_Reg64 0x8FF0), (R_Rbp, V_Reg64 0x8FF0), (R_Cr0, V_Reg64 0x80000001), (R_Cr3, V_Reg64 kPageTableBase),
     (R_Cr4, V_Reg64 0x20), (R_Efer, V_Reg64 0x500), (R_Cs, V_Segment LongCodeSegment), (R_Ds, V_Segment LongDataSegment),
     (R_Es, V_Segment LongDataSegment), (R_Fs, V_Segment LongDataSegment), (R_Gs, V_Segment LongDataSegment),
     (R_Ss, V_Segment LongDataSegment),
     (R_Tr, V_Segment (let tr = (Segment 0x18 0x8b)\<lparr>seg_limit := 0xFFFFF\<rparr> in tr\<lparr>seg_attributes := set_bit 15 (set_bit 7 (seg_attributes tr))\<rparr>)),
     (R_Gdtr, V_Table (Table kGdtAddr 31)), (R_Idtr, V_Table (Table kIdtAddr 7))]"

text \<open>The call that sets registers: the state of the hypervisor, the processor and the registers give
  success and the new state.\<close>

type_synonym 'p set_registers = "'p \<Rightarrow> u32 \<Rightarrow> (boot_reg \<times> boot_value) list \<Rightarrow> bool \<times> 'p"

definition SetupLongMode :: "'p set_registers \<Rightarrow> 'p \<Rightarrow> u32 \<Rightarrow> ram \<Rightarrow> u64 \<Rightarrow> ('p \<times> ram) result" where
  "SetupLongMode set_regs p vp_index mem entry =
    (let mem = long_mode_memory mem; (hr, p) = set_regs p vp_index (long_mode_registers vp_index entry)
     in if hr then Inr (p, mem) else Inl ''WHvSetVirtualProcessorRegisters(long mode)'')"

definition SetupWhpBootstrapVcpu :: "'p set_registers \<Rightarrow> 'p \<Rightarrow> u32 \<Rightarrow> ram \<Rightarrow> u64 \<Rightarrow> bool \<Rightarrow> bool \<Rightarrow> ('p \<times> ram) result" where
  "SetupWhpBootstrapVcpu set_regs p vp_index mem entry enable_apic rootfs_smp_ap =
    (let set_optional_reg = (\<lambda>name value p. snd (set_regs p vp_index [(name, V_Reg64 value)]))
     in rbind (if \<not> rootfs_smp_ap
               then rbind (SetupLongMode set_regs p vp_index mem entry) (\<lambda>(p, mem).
                      let p = set_optional_reg R_Pat 0x0007040600070406 p
                      in Inr (set_optional_reg R_MsrMtrrDefType (push_bit 11 1 OR 0x6) p, mem))
               else Inr (p, mem)) (\<lambda>(p, mem).
        Inr (if enable_apic
             then set_optional_reg R_ApicBase (0xFEE00000 OR push_bit 11 1 OR (if vp_index = 0 then push_bit 8 1 else 0)) p
             else p, mem)))"

text \<open>The processors in turn: with a root file system only the first enters long mode.\<close>

fun setup_vcpus :: "'p set_registers \<Rightarrow> u64 \<Rightarrow> bool \<Rightarrow> nat list \<Rightarrow> 'p \<times> ram \<Rightarrow> ('p \<times> ram) result" where
  "setup_vcpus set_regs entry rootfs_backed [] st = Inr st"
| "setup_vcpus set_regs entry rootfs_backed (i # is) (p, mem) =
    (let is_rootfs_ap = (rootfs_backed \<and> i \<noteq> 0)
     in rbind (SetupWhpBootstrapVcpu set_regs p (of_nat i) mem entry rootfs_backed is_rootfs_ap)
          (setup_vcpus set_regs entry rootfs_backed is))"

section \<open>What the guest finds\<close>

text \<open>The zero page and command line of a guest, and an MP table in the last page below 640 KiB.\<close>

definition zero_page_ok :: "u64 \<Rightarrow> bytes \<Rightarrow> ram \<Rightarrow> bool" where
  "zero_page_ok mem_size cmdline m \<longleftrightarrow> m 0x71E8 = 4 \<and>
     map (e820_entry m) [0, 1, 2, 3] = [(0, 0x9FC00, 1), (0x9FC00, 0x40400, 2), (0xE0000, 0x20000, 2), (0x100000, mem_size - 0x100000, 1)] \<and>
     ReadU16 m 0x71FE = 0xAA55 \<and> ReadU32 m 0x7202 = 0x53726448 \<and> ReadU32 m 0x7228 = 0x20000 \<and>
     ReadU32 m 0x7238 = of_nat (length cmdline) \<and> read_bytes m 0x20000 (length cmdline + 1) = cmdline @ [0]"

definition mp_table_ok :: "nat \<Rightarrow> ram \<Rightarrow> bool" where
  "mp_table_ok cpus m \<longleftrightarrow> (\<exists>start. 16 dvd start \<and> 0x9F000 \<le> start \<and> start + mp_table_size cpus \<le> 0xA0000 \<and>
     sum_list (read_bytes m start 16) = 0 \<and> sum_list (read_bytes m (start + 16) (mp_table_size cpus - 16)) = 0 \<and>
     read_bytes m (start + 60) (mp_table_size cpus - 60) = concat (mp_entries cpus kPitIoApicPin))"

lemma zero_page_agree:
  assumes ok: "zero_page_ok ms cmdline m" and low: "\<And>a. 0x71E8 \<le> a \<Longrightarrow> a < 0x7320 \<Longrightarrow> m' a = m a"
    and cmd: "\<And>a. 0x20000 \<le> a \<Longrightarrow> a \<le> 0x20000 + length cmdline \<Longrightarrow> m' a = m a"
  shows "zero_page_ok ms cmdline m'"
proof -
  have r64: "ReadU64 m' p = ReadU64 m p" if "0x71E8 \<le> p" "p + 8 \<le> 0x7320" for p using that by (intro cell64.load_agree low) auto
  have r32: "ReadU32 m' p = ReadU32 m p" if "0x71E8 \<le> p" "p + 4 \<le> 0x7320" for p using that by (intro cell32.load_agree low) auto
  have r16: "ReadU16 m' p = ReadU16 m p" if "0x71E8 \<le> p" "p + 2 \<le> 0x7320" for p using that by (intro cell16.load_agree low) auto
  have "e820_entry m' i = e820_entry m i" if "i < 4" for i using that by (simp add: e820_entry_def Let_def r64 r32)
  moreover have "read_bytes m' 0x20000 (length cmdline + 1) = read_bytes m 0x20000 (length cmdline + 1)" by (rule read_bytes_cong) (simp add: cmd)
  ultimately show ?thesis using ok by (simp add: zero_page_ok_def r32 r16 low)
qed

lemma mp_table_agree:
  assumes "mp_table_ok cpus m" and "\<And>a. 0x9F000 \<le> a \<Longrightarrow> a < 0xA0000 \<Longrightarrow> m' a = m a"
  shows "mp_table_ok cpus m'"
proof -
  obtain start where s: "16 dvd start" "0x9F000 \<le> start" "start + mp_table_size cpus \<le> 0xA0000"
    "sum_list (read_bytes m start 16) = 0" "sum_list (read_bytes m (start + 16) (mp_table_size cpus - 16)) = 0"
    "read_bytes m (start + 60) (mp_table_size cpus - 60) = concat (mp_entries cpus kPitIoApicPin)"
    using assms(1) by (auto simp: mp_table_ok_def)
  have same: "read_bytes m' (start + k) n = read_bytes m (start + k) n" if "k + n \<le> mp_table_size cpus" for k n
    using that s(2,3) by (intro read_bytes_cong assms(2)) auto
  have "60 \<le> mp_table_size cpus" by (simp add: mp_table_size_def)
  then show ?thesis unfolding mp_table_ok_def
    using s same [of 0 16] same [of 16 "mp_table_size cpus - 16"] same [of 60 "mp_table_size cpus - 60"]
    by (intro exI [of _ start]) simp
qed

lemma long_mode_frame:
  "a < 0x500 \<or> 0x528 \<le> a \<Longrightarrow> a < 0x9000 \<or> 0xF000 \<le> a \<Longrightarrow> long_mode_memory m a = m a"
  by (elim disjE; simp add: long_mode_memory_def kPageTableBase_def kGdtAddr_def kIdtAddr_def upt_rec Let_def cell64.store_frame BuildPageTables_frame)

lemma long_mode_tables:
  "0x9000 \<le> a \<Longrightarrow> a < 0xF000 \<Longrightarrow> long_mode_memory m a = BuildPageTables m 0x9000 a"
  by (simp add: long_mode_memory_def kPageTableBase_def kGdtAddr_def kIdtAddr_def upt_rec Let_def cell64.store_frame)

lemma long_mode_gdt_read: "i < 4 \<Longrightarrow> ReadU64 (long_mode_memory m) (0x500 + 8 * i) = long_mode_gdt ! i"
proof -
  assume "i < 4"
  then have "i = 0 \<or> i = 1 \<or> i = 2 \<or> i = 3" by auto
  then show ?thesis
    by (elim disjE) (simp_all add: long_mode_memory_def kPageTableBase_def kGdtAddr_def kIdtAddr_def upt_rec Let_def cell64.load_store_disjoint long_mode_gdt_def)
qed

text \<open>Every structure of the guest at once, in any memory that agrees with the prepared one outside the
  areas that the bootstrap of a processor writes.\<close>

lemma build_guest_ok:
  assumes elf: "LoadElfKernel m ms file = Inr (m1, k)" and lim: "cpus \<le> 64" "unat disks \<le> 17" "length cmdline \<le> 0x7E000"
    and ms: "0x100000 < ms"
  shows "\<exists>w. build_guest m ms file net cpus disks cmdline = Inr (w, k) \<and> (\<forall>a \<ge> 0x100000. w a = m1 a) \<and>
    (\<forall>w'. (\<forall>a. a < 0x500 \<or> 0x528 \<le> a \<longrightarrow> a < 0x9000 \<or> 0xF000 \<le> a \<longrightarrow> w' a = w a) \<longrightarrow>
      acpi_tables_ok w' \<and> ReadU64 w' 0x7070 = 0xE0000 \<and> zero_page_ok ms cmdline w' \<and> mp_table_ok cpus w')"
proof -
  have big: "0x100000 < unat ms" using ms by (simp add: word_less_nat_alt)
  obtain a m2 where acpi: "CreateAcpiTables m1 ms net cpus disks = Inr (a, m2)"
    using CreateAcpiTables_succeeds [OF lim(2,1), of ms m1 net] big by auto
  from CreateAcpiTables_parts [OF acpi lim(1)] have a: "a = 0xE0000"
      and tables: "\<And>w'. \<forall>i. 0xA0000 \<le> i \<and> i < 0xE0024 \<longrightarrow> w' i = m2 i \<Longrightarrow> acpi_tables_ok w'"
      and m2: "\<And>i. 0xE0024 \<le> i \<Longrightarrow> m2 i = m1 i" by blast+
  define m3 where "m3 = boot_param_stores m2 ms cmdline"
  have bp: "WriteBootParams m2 ms cmdline = Inr m3"
    unfolding m3_def using lim(3) big by (intro WriteBootParams_stores) simp_all
  have zp: "zero_page_ok ms cmdline m3"
    using boot_param_e820 [OF ms, of m2 cmdline] boot_param_cmdline [of m2 ms cmdline]
    by (simp add: zero_page_ok_def m3_def boot_param_fields)
  have m3: "m3 i = m2 i" if "i < 0x71E8 \<or> 0x7320 \<le> i" "i < 0x20000 \<or> 0x20000 + length cmdline < i" for i
    unfolding m3_def using that by (intro boot_param_frame) auto
  define m4 where "m4 = WriteU64 m3 0x7070 0xE0000"
  have m4: "m4 i = m3 i" if "i < 0x7070 \<or> 0x7078 \<le> i" for i using that by (simp add: m4_def cell64.store_frame)
  have size: "mp_table_size cpus \<le> 1564" using lim(1) by (simp add: mp_table_size_def)
  then obtain w start where mp: "WriteMpTable m4 ms cpus kPitIoApicPin = Inr w" and start: "16 dvd start"
      "start + mp_table_size cpus \<le> 0xA0000" "0xA0000 < start + mp_table_size cpus + 16"
      and mpok: "sum_list (read_bytes w start 16) = 0" "sum_list (read_bytes w (start + 16) (mp_table_size cpus - 16)) = 0"
        "read_bytes w (start + 60) (mp_table_size cpus - 60) = concat (mp_entries cpus kPitIoApicPin)"
      and wf: "\<forall>i. i < start \<or> start + mp_table_size cpus \<le> i \<longrightarrow> w i = m4 i"
    using mp_table_placed [of cpus ms m4 kPitIoApicPin] big by auto
  have lo: "0x9F000 \<le> start" using size start(3) by linarith
  have w: "w i = m4 i" if "i < 0x9F000 \<or> 0xA0000 \<le> i" for i using wf that lo start(2) by auto
  have range: "CheckRange ms 0x7070 8 ''guest memory'' = Inr ()" using big by (simp add: CheckRange_cases)
  have "build_guest m ms file net cpus disks cmdline = Inr (w, k)"
    by (simp add: build_guest_def elf acpi bp a kBootParamsAddr_def range m4_def [symmetric] mp)
  moreover have "\<forall>i \<ge> 0x100000. w i = m1 i" using w m4 m3 m2 lim(3) by simp
  moreover have "acpi_tables_ok w' \<and> ReadU64 w' 0x7070 = 0xE0000 \<and> zero_page_ok ms cmdline w' \<and> mp_table_ok cpus w'"
    if ag: "\<forall>i. i < 0x500 \<or> 0x528 \<le> i \<longrightarrow> i < 0x9000 \<or> 0xF000 \<le> i \<longrightarrow> w' i = w i" for w'
  proof (intro conjI)
    show "acpi_tables_ok w'" using ag w m4 m3 lim(3) by (intro tables) simp
    have "ReadU64 w' 0x7070 = ReadU64 m4 0x7070" using ag w by (intro cell64.load_agree) simp
    then show "ReadU64 w' 0x7070 = 0xE0000" by (simp add: m4_def)
    show "zero_page_ok ms cmdline w'" using ag w m4 lim(3) by (intro zero_page_agree [OF zp]) simp_all
    have "mp_table_ok cpus w" unfolding mp_table_ok_def using start lo mpok by blast
    then show "mp_table_ok cpus w'" by (rule mp_table_agree) (use ag in simp)
  qed
  ultimately show ?thesis by blast
qed

text \<open>The boot processor: memory, and the batch of registers the hypervisor accepted.\<close>

lemma SetupLongMode_Inr:
  "SetupLongMode set_regs p i m entry = Inr (p', m') \<longleftrightarrow>
     set_regs p i (long_mode_registers i entry) = (True, p') \<and> m' = long_mode_memory m"
  by (auto simp: SetupLongMode_def Let_def split: prod.split)

lemma bootstrap_memory:
  assumes "SetupWhpBootstrapVcpu set_regs p i m entry apic ap = Inr (p', m')"
  shows "m' = (if ap then m else long_mode_memory m)"
  using assms by (auto simp: SetupWhpBootstrapVcpu_def Let_def SetupLongMode_Inr split: if_splits)

lemma setup_vcpus_aps:
  "setup_vcpus set_regs entry True is (p, m) = Inr (p', m') \<Longrightarrow> 0 \<notin> set is \<Longrightarrow> m' = m"
proof (induction "is" arbitrary: p m)
  case (Cons i "is")
  then obtain p1 m1 where s: "SetupWhpBootstrapVcpu set_regs p (of_nat i) m entry True True = Inr (p1, m1)"
      and rest: "setup_vcpus set_regs entry True is (p1, m1) = Inr (p', m')" by auto
  then show ?case using Cons.IH [OF rest] Cons.prems(2) bootstrap_memory [OF s] by simp
qed simp

lemma setup_vcpus_memory:
  assumes "setup_vcpus set_regs entry True [0 ..< cpus] (p, m) = Inr (p', m')" and "0 < cpus"
  shows "m' = long_mode_memory m"
proof -
  have "[0 ..< cpus] = 0 # [1 ..< cpus]" using assms(2) by (simp add: upt_conv_Cons)
  then obtain p1 m1 where s: "SetupWhpBootstrapVcpu set_regs p 0 m entry True False = Inr (p1, m1)"
      and rest: "setup_vcpus set_regs entry True [1 ..< cpus] (p1, m1) = Inr (p', m')"
    using assms(1) by auto
  have "m1 = long_mode_memory m" using bootstrap_memory [OF s] by simp
  then show ?thesis using setup_vcpus_aps [OF rest] by simp
qed

text \<open>What the architecture asks of a processor that starts in 64-bit mode: paging and protection on, physical
  address extension on, long mode enabled and active, the tables of the guest in CR3, a
  64-bit code segment, interrupts off, the boot parameters in RSI and the kernel's entry point in RIP.\<close>

definition in_long_mode :: "u64 \<Rightarrow> (boot_reg \<times> boot_value) list \<Rightarrow> bool" where
  "in_long_mode entry rs \<longleftrightarrow> distinct (map fst rs) \<and>
     (\<exists>cr0 cr4 efer flags cs. map_of rs R_Cr0 = Some (V_Reg64 cr0) \<and> bit cr0 0 \<and> bit cr0 31 \<and>
        map_of rs R_Cr4 = Some (V_Reg64 cr4) \<and> bit cr4 5 \<and> map_of rs R_Efer = Some (V_Reg64 efer) \<and> bit efer 8 \<and> bit efer 10 \<and>
        map_of rs R_Rflags = Some (V_Reg64 flags) \<and> \<not> bit flags 9 \<and>
        map_of rs R_Cs = Some (V_Segment cs) \<and> bit (seg_attributes cs) 13 \<and> bit (seg_attributes cs) 7 \<and> \<not> bit (seg_attributes cs) 14 \<and>
        map_of rs R_Cr3 = Some (V_Reg64 0x9000) \<and> map_of rs R_Rsi = Some (V_Reg64 0x7000) \<and> map_of rs R_Rip = Some (V_Reg64 entry))"

lemma long_mode_registers_ok: "in_long_mode entry (long_mode_registers i entry)"
  by (simp add: in_long_mode_def long_mode_registers_def kPageTableBase_def kBootParamsAddr_def LongCodeSegment_def Let_def
      Segment_def set_segment_type_def bit_simps bit_numeral_rec)

section \<open>The whole preparation\<close>

definition prepare_vm :: "'p set_registers \<Rightarrow> 'p \<Rightarrow> ram \<Rightarrow> u64 \<Rightarrow> bytes \<Rightarrow> bool \<Rightarrow> nat \<Rightarrow> u32 \<Rightarrow> bytes \<Rightarrow> ('p \<times> ram \<times> kernel_info) result" where
  "prepare_vm set_regs p mem ram_bytes kernel_file slirp_enabled cpus disk_count cmdline =
    rbind (build_guest mem ram_bytes kernel_file slirp_enabled cpus disk_count cmdline) (\<lambda>(mem, kernel).
    rbind (setup_vcpus set_regs (ki_entry kernel) True [0 ..< cpus] (p, mem)) (\<lambda>(p, mem). Inr (p, mem, kernel)))"

lemma setup_vcpus_succeeds:
  assumes "\<forall>p i rs. fst (set_regs p i rs)"
  shows "\<exists>p' m'. setup_vcpus set_regs entry rootfs is (p, m) = Inr (p', m')"
proof (induction "is" arbitrary: p m)
  case (Cons i "is")
  have "\<exists>p' m'. SetupLongMode set_regs p j m entry = Inr (p', m')" for p j m
    using assms by (auto simp: SetupLongMode_def Let_def split: prod.split) (metis fst_conv)
  then obtain p1 m1 where "SetupLongMode set_regs p (of_nat i) m entry = Inr (p1, m1)" by blast
  then have "\<exists>p' m'. SetupWhpBootstrapVcpu set_regs p (of_nat i) m entry rootfs (rootfs \<and> i \<noteq> 0) = Inr (p', m')"
    by (auto simp: SetupWhpBootstrapVcpu_def Let_def)
  then show ?case using Cons.IH by (auto simp: Let_def)
qed simp

end
