(* ===== verification/Pic.thy ===== *)
theory Pic
  imports Prelude
begin

unbundle bit_operations_syntax

text \<open>
  The 8259A pair (native/whp/devices/pic.h, pic.cc): the ICW1-4 initialisation sequence as
  the \<open>init_step\<close> state machine of each controller, the mask registers, and the request path,
  whose hypervisor call (RequestFixedInterrupt) is the parameter \<open>request\<close>: the requested
  vector to success. Diagnostics printed under NODE_VMM_BOOT_TIME do not touch the state.
\<close>

record controller =
  ctl_vector :: u8
  ctl_mask :: u8
  ctl_init_step :: u8

record pic =
  master :: controller
  slave :: controller

definition pic_init :: pic where
  "pic_init = \<lparr>master = \<lparr>ctl_vector = 0x20, ctl_mask = 0xFE, ctl_init_step = 0\<rparr>,
               slave = \<lparr>ctl_vector = 0x28, ctl_mask = 0xFF, ctl_init_step = 0\<rparr>\<rparr>"

definition pic_write_command :: "controller \<Rightarrow> u8 \<Rightarrow> controller" where
  "pic_write_command c value =
     (if value AND 0x10 \<noteq> 0 then c\<lparr>ctl_init_step := 2, ctl_mask := 0xFF\<rparr> else c)"

definition pic_write_data :: "controller \<Rightarrow> u8 \<Rightarrow> controller" where
  "pic_write_data c value =
     (if ctl_init_step c = 2 then c\<lparr>ctl_vector := value, ctl_init_step := 3\<rparr>
      else if ctl_init_step c = 3 then c\<lparr>ctl_init_step := 4\<rparr>
      else if ctl_init_step c = 4 then c\<lparr>ctl_init_step := 0\<rparr>
      else c\<lparr>ctl_mask := value\<rparr>)"

definition pic_read_port :: "pic \<Rightarrow> u16 \<Rightarrow> u8" where
  "pic_read_port p port =
     (if port = 0x21 then ctl_mask (master p) else if port = 0xA1 then ctl_mask (slave p) else 0)"

definition pic_write_port :: "pic \<Rightarrow> u16 \<Rightarrow> u8 \<Rightarrow> pic" where
  "pic_write_port p port value =
     (if port = 0x20 then p\<lparr>master := pic_write_command (master p) value\<rparr>
      else if port = 0x21 then p\<lparr>master := pic_write_data (master p) value\<rparr>
      else if port = 0xA0 then p\<lparr>slave := pic_write_command (slave p) value\<rparr>
      else if port = 0xA1 then p\<lparr>slave := pic_write_data (slave p) value\<rparr>
      else p)"

definition pic_request_irq :: "(u32 \<Rightarrow> bool) \<Rightarrow> pic \<Rightarrow> u8 \<Rightarrow> bool" where
  "pic_request_irq request p irq =
     (if irq < 8
      then if ctl_mask (master p) AND push_bit (unat irq) 1 \<noteq> 0 then False
           else request (ucast (ctl_vector (master p)) + ucast irq)
      else False)"

definition pic_is_initialized :: "pic \<Rightarrow> bool" where
  "pic_is_initialized p \<longleftrightarrow> ctl_vector (master p) \<noteq> 0x20"

definition pic_irq_unmasked :: "pic \<Rightarrow> u8 \<Rightarrow> bool" where
  "pic_irq_unmasked p irq \<longleftrightarrow> irq < 8 \<and> ctl_mask (master p) AND push_bit (unat irq) 1 = 0"

definition pic_vector_for_irq :: "pic \<Rightarrow> u8 \<Rightarrow> u32" where
  "pic_vector_for_irq p irq =
     (if irq < 8 then ucast (ctl_vector (master p)) + ucast irq else 0x20 + ucast irq)"

lemmas pic_defs [device_defs] = pic_write_command_def pic_write_data_def pic_read_port_def
  pic_write_port_def pic_request_irq_def pic_irq_unmasked_def pic_vector_for_irq_def

section \<open>The initialisation sequence\<close>

definition controller_ok :: "controller \<Rightarrow> bool" where
  "controller_ok c \<longleftrightarrow> ctl_init_step c \<in> {0, 2, 3, 4} \<and> (ctl_init_step c \<noteq> 0 \<longrightarrow> ctl_mask c = 0xFF)"

definition pic_ok :: "pic \<Rightarrow> bool" where
  "pic_ok p \<longleftrightarrow> controller_ok (master p) \<and> controller_ok (slave p)"

definition pic_step :: "pic \<Rightarrow> u16 \<times> u8 \<Rightarrow> pic" where
  "pic_step p w = pic_write_port p (fst w) (snd w)"

lemma pic_write_command_ok [inv_intros]: "controller_ok c \<Longrightarrow> controller_ok (pic_write_command c v)"
  by (simp add: controller_ok_def pic_write_command_def)

lemma pic_write_data_ok [inv_intros]: "controller_ok c \<Longrightarrow> controller_ok (pic_write_data c v)"
  by (auto simp: controller_ok_def pic_write_data_def)

interpretation pic_machine: invariant_machine pic_step pic_ok
  by unfold_locales (auto simp: pic_step_def pic_write_port_def pic_ok_def intro: inv_intros)

lemma pic_init_ok: "pic_ok pic_init"
  by (simp add: pic_ok_def pic_init_def controller_ok_def)

lemma master_init_sequence:
  assumes "bit icw1 4"
  shows "run pic_step p [(0x20, icw1), (0x21, icw2), (0x21, icw3), (0x21, icw4), (0x21, ocw1)]
       = p\<lparr>master := \<lparr>ctl_vector = icw2, ctl_mask = ocw1, ctl_init_step = 0\<rparr>\<rparr>"
proof -
  have "icw1 AND 16 \<noteq> 0"
    using assms and_exp_eq_0_iff_not_bit [of icw1 4] by simp
  then show ?thesis by (cases p; cases "master p") (simp add: pic_step_def device_defs)
qed

lemma slave_writes_keep_master:
  "port = 0xA0 \<or> port = 0xA1 \<Longrightarrow> master (pic_write_port p port v) = master p"
  by (auto simp: pic_write_port_def)

lemma pic_request_irq_iff:
  "pic_request_irq request p irq \<longleftrightarrow> pic_irq_unmasked p irq \<and> request (pic_vector_for_irq p irq)"
  by (simp add: device_defs)

section \<open>Properties\<close>

text \<open>From power-on, after any sequence of port writes, a controller that is inside its
  ICW2 to ICW4 sequence has every line masked, so no IRQ is delivered by a half-programmed PIC:
  request_irq fails for every line and never reaches the hypervisor.\<close>

theorem pic_silent_while_programmed:
  assumes "p = run pic_step pic_init writes" and "ctl_init_step (master p) \<noteq> 0"
  shows "\<not> pic_request_irq request p irq"
proof -
  have "pic_ok p" unfolding assms(1) by (rule pic_machine.run_inv [OF pic_init_ok])
  then have mask: "ctl_mask (master p) = 0xFF" using assms(2) by (simp add: pic_ok_def controller_ok_def)
  show ?thesis
  proof (cases "irq < 8")
    case True
    have eq: "(0xFF :: u8) = mask 8" by (simp add: mask_eq_exp_minus_1)
    have "bit (0xFF :: u8) (unat irq)"
      unfolding eq bit_mask_iff using True by (simp add: word_less_nat_alt)
    then show ?thesis
      using mask and_exp_eq_0_iff_not_bit [of "0xFF :: u8" "unat irq"]
      by (simp add: pic_request_irq_def push_bit_eq_mult)
  qed (simp add: pic_request_irq_def)
qed

theorem pic_silent_while_programmed_witness:
  "\<not> pic_request_irq (\<lambda>_. True) (run pic_step pic_init [(0x20, 0x11), (0x21, 0x30)]) 0"
  by (rule pic_silent_while_programmed [OF refl]) (simp add: pic_step_def device_defs pic_init_def)

text \<open>The five writes of the standard initialisation of the master (ICW1 to ICW4, then
  OCW1) install the vector base and the mask and leave the slave untouched, from any state; an
  unmasked line is then requested at exactly base plus line number.\<close>

theorem pic_programmed_vector:
  assumes "bit icw1 4" and "irq < 8" and "ocw1 AND push_bit (unat irq) 1 = 0"
    and "q = run pic_step p [(0x20, icw1), (0x21, icw2), (0x21, icw3), (0x21, icw4), (0x21, ocw1)]"
  shows "pic_request_irq request q irq = request (ucast icw2 + ucast irq) \<and> slave q = slave p
    \<and> pic_read_port q 0x21 = ocw1"
  using assms(2,3) master_init_sequence [OF assms(1), of p icw2 icw3 icw4 ocw1]
  by (simp add: assms(4) pic_request_irq_def pic_read_port_def)

theorem pic_programmed_vector_witness:
  "pic_request_irq (\<lambda>v. v = 0x34)
     (run pic_step pic_init [(0x20, 0x11), (0x21, 0x30), (0x21, 4), (0x21, 1), (0x21, 0xE0)]) 4"
  using pic_programmed_vector [OF _ _ _ refl, where ?icw1.0 = "0x11" and irq = 4 and ?ocw1.0 = "0xE0"
    and p = pic_init and ?icw2.0 = "0x30" and ?icw3.0 = 4 and ?icw4.0 = 1 and request = "\<lambda>v. v = 0x34"]
  by (simp add: bit_simps del: run.simps)

end
