(* ===== verification/Pit.thy ===== *)
theory Pit
  imports Prelude
begin

unbundle bit_operations_syntax

text \<open>
  The 8254 timer (native/whp/devices/pit.h, pit.cc). The steady clock is an argument \<open>now\<close>,
  in nanoseconds; time points are integers. Tick arithmetic keeps the 64-bit unsigned
  product of the source, so its wrap-around is part of the model. The catch-up loop of
  poll_irq0 is a partial function whose termination is proved.
\<close>

definition kPitHz :: u64 where "kPitHz = 1193182"

record channel =
  ch_reload :: u16
  ch_latch :: u16
  ch_latch_valid :: bool
  ch_access :: u8
  ch_mode :: u8
  ch_write_phase :: u8
  ch_read_phase :: u8
  ch_start :: int
  ch_next_irq :: int
  ch_irq_enabled :: bool

record pit =
  pit_channels :: "channel list"
  pit_channel2_gated :: bool

definition pit_divisor :: "channel \<Rightarrow> u32" where
  "pit_divisor ch = (if ch_reload ch = 0 then 65536 else ucast (ch_reload ch))"

definition pit_irq_interval :: "channel \<Rightarrow> int" where
  "pit_irq_interval ch =
     (let d = ucast (pit_divisor ch) :: u64
      in uint (max ((d * 1000000000) div kPitHz) 1000000))"

text \<open>duration_cast to nanoseconds, then the tick count of the source.\<close>

definition pit_ticks :: "int \<Rightarrow> u64" where
  "pit_ticks elapsed = (if elapsed \<le> 0 then 0 else (of_int elapsed * kPitHz) div 1000000000)"

definition pit_current_count :: "channel \<Rightarrow> int \<Rightarrow> u16" where
  "pit_current_count ch now =
     (let ticks = pit_ticks (now - ch_start ch);
          count = pit_divisor ch;
          counter = (if ch_mode ch = 2 \<or> ch_mode ch = 3
                     then count - ucast (ticks mod ucast count)
                     else (count - ucast ticks) AND 0xffff)
      in ucast (counter AND 0xFFFF))"

definition pit_schedule_next_irq :: "pit \<Rightarrow> int \<Rightarrow> pit" where
  "pit_schedule_next_irq p now =
     (let ch = pit_channels p ! 0
      in p\<lparr>pit_channels := (pit_channels p)[0 := ch\<lparr>ch_next_irq := now + pit_irq_interval ch\<rparr>]\<rparr>)"

definition channel_default :: channel where
  "channel_default = \<lparr>ch_reload = 0, ch_latch = 0, ch_latch_valid = False, ch_access = 3, ch_mode = 3,
     ch_write_phase = 0, ch_read_phase = 0, ch_start = 0, ch_next_irq = 0, ch_irq_enabled = True\<rparr>"

definition pit_init :: "int \<Rightarrow> pit" where
  "pit_init now = pit_schedule_next_irq
     \<lparr>pit_channels = replicate 3 (channel_default\<lparr>ch_start := now\<rparr>), pit_channel2_gated = False\<rparr> now"

definition pit_reset_channel_timer :: "pit \<Rightarrow> nat \<Rightarrow> int \<Rightarrow> pit" where
  "pit_reset_channel_timer p index now =
    (let ch = (pit_channels p ! index)\<lparr>ch_start := now\<rparr>;
         p1 = p\<lparr>pit_channels := (pit_channels p)[index := ch]\<rparr>
     in if index = 0
        then pit_schedule_next_irq
               (p1\<lparr>pit_channels := (pit_channels p1)[index := ch\<lparr>ch_irq_enabled := True\<rparr>]\<rparr>) now
        else p1)"

definition pit_write_command :: "pit \<Rightarrow> u8 \<Rightarrow> int \<Rightarrow> pit" where
  "pit_write_command p value now =
    (if value AND 0xC0 = 0xC0 then p
     else let index = unat (drop_bit 6 value AND 0x03)
     in if length (pit_channels p) \<le> index then p
        else let ch = pit_channels p ! index; access = drop_bit 4 value AND 0x03
        in if access = 0
           then p\<lparr>pit_channels := (pit_channels p)[index :=
                  ch\<lparr>ch_latch := pit_current_count ch now, ch_latch_valid := True, ch_read_phase := 0\<rparr>]\<rparr>
           else let mode = drop_bit 1 value AND 0x07;
                    mode = (if 5 < mode then mode - 4 else mode)
                in p\<lparr>pit_channels := (pit_channels p)[index :=
                     ch\<lparr>ch_access := access, ch_mode := mode, ch_write_phase := 0, ch_read_phase := 0,
                        ch_latch_valid := False\<rparr>]\<rparr>)"

definition pit_write_channel :: "pit \<Rightarrow> nat \<Rightarrow> u8 \<Rightarrow> int \<Rightarrow> pit" where
  "pit_write_channel p index value now =
    (let ch = pit_channels p ! index;
         low = ch\<lparr>ch_reload := (ch_reload ch AND 0xFF00) OR ucast value\<rparr>;
         high = ch\<lparr>ch_reload := (ch_reload ch AND 0x00FF) OR push_bit 8 (ucast value)\<rparr>;
         put = (\<lambda>c. p\<lparr>pit_channels := (pit_channels p)[index := c]\<rparr>)
     in if ch_access ch = 1 then pit_reset_channel_timer (put low) index now
        else if ch_access ch = 2 then pit_reset_channel_timer (put high) index now
        else if ch_write_phase ch = 0 then put (low\<lparr>ch_write_phase := 1\<rparr>)
        else pit_reset_channel_timer (put (high\<lparr>ch_write_phase := 0\<rparr>)) index now)"

definition pit_read_channel :: "channel \<Rightarrow> int \<Rightarrow> u8 \<times> channel" where
  "pit_read_channel ch now =
    (let value = (if ch_latch_valid ch then ch_latch ch else pit_current_count ch now);
         low = ucast (value AND 0xFF); high = ucast (drop_bit 8 value AND 0xFF)
     in if ch_access ch = 1 then (low, ch\<lparr>ch_latch_valid := False\<rparr>)
        else if ch_access ch = 2 then (high, ch\<lparr>ch_latch_valid := False\<rparr>)
        else if ch_read_phase ch = 0 then (low, ch\<lparr>ch_read_phase := 1\<rparr>)
        else (high, ch\<lparr>ch_read_phase := 0, ch_latch_valid := False\<rparr>))"

definition pit_read_port :: "pit \<Rightarrow> u16 \<Rightarrow> int \<Rightarrow> u8 \<times> pit" where
  "pit_read_port p port now =
    (if port < 0x40 \<or> 0x43 < port then (0, p)
     else if port = 0x43 then (0, p)
     else let i = unat (port - 0x40); (v, ch) = pit_read_channel (pit_channels p ! i) now
          in (v, p\<lparr>pit_channels := (pit_channels p)[i := ch]\<rparr>))"

definition pit_write_port :: "pit \<Rightarrow> u16 \<Rightarrow> u8 \<Rightarrow> int \<Rightarrow> pit" where
  "pit_write_port p port value now =
    (if port = 0x43 then pit_write_command p value now
     else if 0x40 \<le> port \<and> port \<le> 0x42 then pit_write_channel p (unat (port - 0x40)) value now
     else p)"

text \<open>The do-while loop of poll_irq0.\<close>

partial_function (option) pit_catch_up :: "int \<Rightarrow> int \<Rightarrow> int \<Rightarrow> int option" where
  "pit_catch_up interval now next_irq =
     (let t = next_irq + interval in if t \<le> now then pit_catch_up interval now t else Some t)"

definition pit_poll_irq0 :: "pit \<Rightarrow> int \<Rightarrow> (bool \<times> pit) option" where
  "pit_poll_irq0 p now =
    (let ch = pit_channels p ! 0
     in if \<not> ch_irq_enabled ch \<or> now < ch_next_irq ch then Some (False, p)
        else Option.bind (pit_catch_up (pit_irq_interval ch) now (ch_next_irq ch)) (\<lambda>t.
             Some (True, p\<lparr>pit_channels := (pit_channels p)[0 := ch\<lparr>ch_next_irq := t\<rparr>]\<rparr>)))"

definition pit_channel2_out_high :: "pit \<Rightarrow> int \<Rightarrow> bool" where
  "pit_channel2_out_high p now =
    (if \<not> pit_channel2_gated p then False
     else let ch = pit_channels p ! 2; elapsed = now - ch_start ch
          in if elapsed \<le> 0 then False
             else ucast (pit_divisor ch) \<le> (of_int elapsed * kPitHz) div 1000000000)"

definition pit_set_channel2_gate :: "pit \<Rightarrow> bool \<Rightarrow> int \<Rightarrow> pit" where
  "pit_set_channel2_gate p gated now =
    (let p1 = (if gated \<and> \<not> pit_channel2_gated p
               then p\<lparr>pit_channels := (pit_channels p)[2 := (pit_channels p ! 2)\<lparr>ch_start := now\<rparr>]\<rparr>
               else p)
     in p1\<lparr>pit_channel2_gated := gated\<rparr>)"

lemmas pit_defs [device_defs] = pit_write_command_def pit_write_channel_def pit_read_channel_def
  pit_read_port_def pit_write_port_def pit_reset_channel_timer_def pit_schedule_next_irq_def
  pit_set_channel2_gate_def

section \<open>Periodic interrupts\<close>

lemma pit_interval_pos: "1000000 \<le> pit_irq_interval ch"
proof -
  have "(1000000 :: u64) \<le> max x 1000000" for x by simp
  then have "uint (1000000 :: u64) \<le> uint (max x (1000000 :: u64))" for x by (simp only: word_le_def)
  then show ?thesis by (simp add: pit_irq_interval_def Let_def)
qed

lemma pit_catch_up_total:
  assumes "0 < interval" and "next_irq \<le> now"
  shows "\<exists>t k. pit_catch_up interval now next_irq = Some t \<and> t = next_irq + int k * interval
     \<and> now < t \<and> t \<le> now + interval"
  using assms(2)
proof (induction "nat (now - next_irq)" arbitrary: next_irq rule: less_induct)
  case less
  show ?case
  proof (cases "next_irq + interval \<le> now")
    case True
    then obtain t k where "pit_catch_up interval now (next_irq + interval) = Some t"
      "t = next_irq + interval + int k * interval" "now < t" "t \<le> now + interval"
      using less.hyps [of "next_irq + interval"] assms(1) less.prems by auto
    then show ?thesis using True
      by (intro exI [of _ t] exI [of _ "Suc k"])
        (simp add: pit_catch_up.simps [of interval now next_irq] algebra_simps)
  next
    case False
    then show ?thesis using less.prems
      by (intro exI [of _ "next_irq + interval"] exI [of _ 1])
        (simp add: pit_catch_up.simps [of interval now next_irq])
  qed
qed

lemma pit_poll_irq0_spec:
  assumes "ch = pit_channels p ! 0" and "pit_channels p \<noteq> []"
  shows "\<exists>fired p'. pit_poll_irq0 p now = Some (fired, p')
     \<and> (fired \<longleftrightarrow> ch_irq_enabled ch \<and> ch_next_irq ch \<le> now)
     \<and> (fired \<longrightarrow> now < ch_next_irq (pit_channels p' ! 0)
           \<and> ch_next_irq (pit_channels p' ! 0) \<le> now + pit_irq_interval ch
           \<and> pit_irq_interval ch dvd ch_next_irq (pit_channels p' ! 0) - ch_next_irq ch)
     \<and> (\<not> fired \<longrightarrow> p' = p)"
proof (cases "ch_irq_enabled ch \<and> ch_next_irq ch \<le> now")
  case True
  obtain t k where "pit_catch_up (pit_irq_interval ch) now (ch_next_irq ch) = Some t"
    "t = ch_next_irq ch + int k * pit_irq_interval ch" "now < t" "t \<le> now + pit_irq_interval ch"
    using pit_catch_up_total [of "pit_irq_interval ch" "ch_next_irq ch" now] pit_interval_pos [of ch] True by force
  with True assms show ?thesis by (auto simp: pit_poll_irq0_def Let_def)
next
  case False
  with assms show ?thesis by (auto simp: pit_poll_irq0_def Let_def)
qed

section \<open>The programming interface\<close>

definition channel_ok :: "channel \<Rightarrow> bool" where
  "channel_ok ch \<longleftrightarrow> ch_access ch \<in> {1, 2, 3} \<and> ch_mode ch \<le> 5
     \<and> ch_write_phase ch \<in> {0, 1} \<and> ch_read_phase ch \<in> {0, 1}"

definition pit_ok :: "pit \<Rightarrow> bool" where
  "pit_ok p \<longleftrightarrow> length (pit_channels p) = 3 \<and> (\<forall>ch \<in> set (pit_channels p). channel_ok ch)"

datatype pit_access = PitRead u16 | PitWrite u16 u8 | PitGate bool

fun pit_step :: "pit \<Rightarrow> int \<times> pit_access \<Rightarrow> pit" where
  "pit_step p (now, PitRead port) = snd (pit_read_port p port now)"
| "pit_step p (now, PitWrite port v) = pit_write_port p port v now"
| "pit_step p (now, PitGate g) = pit_set_channel2_gate p g now"

lemma pit_ok_update:
  "pit_ok p \<Longrightarrow> (i < 3 \<Longrightarrow> channel_ok ch) \<Longrightarrow> pit_ok (p\<lparr>pit_channels := (pit_channels p)[i := ch]\<rparr>)"
  by (cases "i < 3") (auto simp: pit_ok_def list_update_beyond dest: set_update_subset_insert [THEN subsetD])

lemma pit_ok_nth: "pit_ok p \<Longrightarrow> i < 3 \<Longrightarrow> channel_ok (pit_channels p ! i)"
  by (simp add: pit_ok_def)

lemma pit_schedule_ok [inv_intros]: "pit_ok p \<Longrightarrow> pit_ok (pit_schedule_next_irq p now)"
  unfolding pit_schedule_next_irq_def Let_def
  using pit_ok_nth [of p 0] by (intro pit_ok_update) (auto simp: channel_ok_def)

lemma two_bit_cases: "(v :: u8) AND 3 \<in> {0, 1, 2, 3}"
  using word_le_3_cases [of "v AND 3"] word_and_le1 [of v 3] by simp

lemma pit_mode_ok: "(if 5 < (v :: u8) AND 7 then (v AND 7) - 4 else v AND 7) \<le> 5"
proof -
  have "v AND 7 \<le> 7" by (rule word_and_le1)
  then show ?thesis by unat_arith
qed

lemma pit_reset_ok [inv_intros]:
  assumes "pit_ok p" and "i < 3"
  shows "pit_ok (pit_reset_channel_timer p i now)"
proof -
  have "channel_ok ((pit_channels p ! i)\<lparr>ch_start := now\<rparr>)"
    using pit_ok_nth [OF assms] by (simp add: channel_ok_def)
  then show ?thesis using assms
    by (auto simp: pit_reset_channel_timer_def Let_def intro!: pit_schedule_ok pit_ok_update)
      (auto simp: channel_ok_def)
qed

lemma pit_write_command_ok [inv_intros]:
  assumes "pit_ok p"
  shows "pit_ok (pit_write_command p v now)"
proof -
  have "channel_ok (pit_channels p ! i)" if "\<not> length (pit_channels p) \<le> i" for i
    using that assms by (simp add: pit_ok_def)
  then show ?thesis
    using assms two_bit_cases [of "drop_bit 4 v"] pit_mode_ok [of "drop_bit 1 v"]
    by (auto simp: pit_write_command_def Let_def channel_ok_def simp del: One_nat_def intro!: pit_ok_update)
qed

lemma pit_write_channel_ok [inv_intros]:
  assumes "pit_ok p" and "i < 3"
  shows "pit_ok (pit_write_channel p i v now)"
proof -
  have ch: "channel_ok (pit_channels p ! i)" using assms by (rule pit_ok_nth)
  have put: "channel_ok c \<Longrightarrow> pit_ok (p\<lparr>pit_channels := (pit_channels p)[i := c]\<rparr>)" for c
    using assms(1) by (rule pit_ok_update)
  show ?thesis unfolding pit_write_channel_def Let_def
    using ch assms(2) by (auto intro!: put pit_reset_ok simp: channel_ok_def)
qed

lemma pit_read_channel_ok: "channel_ok ch \<Longrightarrow> channel_ok (snd (pit_read_channel ch now))"
  by (auto simp: pit_read_channel_def Let_def channel_ok_def)

lemma pit_port_index: "0x40 \<le> (port :: u16) \<Longrightarrow> port \<le> 0x42 \<Longrightarrow> unat (port - 0x40) < 3"
  by unat_arith

interpretation pit_machine: invariant_machine pit_step pit_ok
proof
  fix p and e :: "int \<times> pit_access" assume p: "pit_ok p"
  obtain now a where e: "e = (now, a)" by (cases e)
  show "pit_ok (pit_step p e)"
  proof (cases a)
    case (PitRead port)
    show ?thesis
    proof (cases "port < 0x40 \<or> 0x43 < port \<or> port = 0x43")
      case True
      then show ?thesis using p by (auto simp: e PitRead pit_read_port_def)
    next
      case False
      then have "port \<le> 0x42" "0x40 \<le> port" by unat_arith+
      then show ?thesis using p False
        by (auto simp: e PitRead pit_read_port_def Let_def case_prod_unfold pit_port_index
            intro!: pit_ok_update pit_read_channel_ok pit_ok_nth)
    qed
  next
    case (PitWrite port v)
    then show ?thesis using p by (auto simp: e pit_write_port_def pit_port_index intro: inv_intros)
  next
    case (PitGate g)
    have "channel_ok (pit_channels p ! 2)" using p by (rule pit_ok_nth) simp
    then have "pit_ok (p\<lparr>pit_channels := (pit_channels p)[2 := (pit_channels p ! 2)\<lparr>ch_start := now\<rparr>]\<rparr>)"
      using p by (intro pit_ok_update) (auto simp: channel_ok_def)
    with p PitGate show ?thesis by (auto simp: e pit_set_channel2_gate_def Let_def pit_ok_def)
  qed
qed

lemma pit_init_ok: "pit_ok (pit_init now)"
  unfolding pit_init_def
  by (rule pit_schedule_ok) (simp add: pit_ok_def channel_ok_def channel_default_def)

text \<open>A channel programmed low byte then high byte counts down from that value; a latched
  count is read back low byte first and survives until it is consumed.\<close>

lemma merge_bytes:
  "(((r AND 0xFF00) OR ucast (lo :: u8)) AND 0x00FF) OR push_bit 8 (ucast (hi :: u8))
     = (ucast hi * 256 + ucast lo :: u16)"
proof -
  have mask: "(0xFF00 :: u16) = push_bit 8 (mask 8)" "(0x00FF :: u16) = mask 8"
    by (simp_all add: mask_eq_exp_minus_1 push_bit_eq_mult)
  have "(((r AND 0xFF00) OR ucast lo) AND 0x00FF) OR push_bit 8 (ucast hi)
      = (push_bit 8 (ucast hi) OR ucast lo :: u16)"
    unfolding mask by (rule bit_word_eqI) (auto simp: bit_simps dest: bit_imp_le_length)
  also have "\<dots> = push_bit 8 (ucast hi) + ucast lo"
    by (rule disjunctive_add [symmetric]) (auto simp: bit_simps dest: bit_imp_le_length)
  finally show ?thesis by (simp add: push_bit_eq_mult mult.commute)
qed

lemma pit_program_reload:
  assumes "pit_ok p" and "i < 3" and "ch_access (pit_channels p ! i) = 3"
    and "ch_write_phase (pit_channels p ! i) = 0"
    and q: "q = pit_write_channel (pit_write_channel p i lo t0) i hi t1"
  shows "ch_reload (pit_channels q ! i) = ucast hi * 256 + ucast lo"
    and "ch_start (pit_channels q ! i) = t1"
    and "ch_write_phase (pit_channels q ! i) = 0"
  using assms(1-4)
  by (auto simp: q pit_write_channel_def pit_reset_channel_timer_def pit_schedule_next_irq_def Let_def
      pit_ok_def merge_bytes)

lemma split_bytes:
  "ucast (ucast (drop_bit 8 v AND 0xFF) :: u8) * 256 + ucast (ucast (v AND 0xFF) :: u8) = (v :: u16)"
proof -
  have hi: "unat (ucast (ucast (drop_bit 8 v AND 0xFF) :: u8) :: u16) = unat v div 256"
    using unat_u16_less [of v]
    by (simp add: and_masks unsigned_ucast_eq unat_take_bit unat_drop_bit take_bit_nat_def)
  have lo: "unat (ucast (ucast (v AND 0xFF) :: u8) :: u16) = unat v mod 256"
    by (simp add: and_masks unsigned_ucast_eq unat_take_bit take_bit_nat_def)
  show ?thesis
    using unat_u16_less [of v] by (simp add: word_unat_eq_iff unat_word_ariths hi lo)
qed

lemma pit_latch_roundtrip:
  assumes "ch_access ch = 3" and "ch_latch_valid ch" and "ch_read_phase ch = 0"
    and "pit_read_channel ch t0 = (lo, ch1)" and "pit_read_channel ch1 t1 = (hi, ch2)"
  shows "ucast hi * 256 + ucast lo = ch_latch ch \<and> \<not> ch_latch_valid ch2 \<and> ch_read_phase ch2 = 0"
  using assms by (auto simp: pit_read_channel_def Let_def split_bytes)

section \<open>Tick arithmetic\<close>

lemma pit_ticks_exact:
  assumes "0 < elapsed" and "elapsed * 1193182 < 2 ^ 64"
  shows "unat (pit_ticks elapsed) = nat (elapsed * 1193182) div 1000000000"
proof -
  have "unat (of_int elapsed :: u64) = nat elapsed"
    using assms by (simp add: unat_eq_nat_uint uint_word_of_int_eq take_bit_int_eq_self)
  then have "unat (of_int elapsed * kPitHz) = nat elapsed * 1193182"
    using assms by (simp add: unat_word_ariths kPitHz_def nat_mult_distrib)
  then show ?thesis using assms by (simp add: pit_ticks_def unat_div nat_mult_distrib)
qed

section \<open>Properties\<close>

text \<open>poll_irq0 always returns: its catch-up loop ends. It reports a tick exactly when
  channel 0 is enabled and its deadline has passed, and then the new deadline is the first
  one of the old grid (multiples of the interval) strictly in the future.\<close>

theorem pit_poll_irq0_next_deadline:
  assumes "pit_ok p" and "ch = pit_channels p ! 0"
  shows "\<exists>fired p'. pit_poll_irq0 p now = Some (fired, p')
     \<and> (fired \<longleftrightarrow> ch_irq_enabled ch \<and> ch_next_irq ch \<le> now)
     \<and> (fired \<longrightarrow> now < ch_next_irq (pit_channels p' ! 0)
           \<and> ch_next_irq (pit_channels p' ! 0) \<le> now + pit_irq_interval ch
           \<and> pit_irq_interval ch dvd ch_next_irq (pit_channels p' ! 0) - ch_next_irq ch)
     \<and> (\<not> fired \<longrightarrow> p' = p)"
  using assms by (intro pit_poll_irq0_spec) (auto simp: pit_ok_def)

theorem pit_poll_irq0_next_deadline_witness:
  "\<exists>p'. pit_poll_irq0 (pit_init 0) 200000000 = Some (True, p') \<and> 200000000 < ch_next_irq (pit_channels p' ! 0)"
proof -
  have "ch_irq_enabled (pit_channels (pit_init 0) ! 0)" "ch_next_irq (pit_channels (pit_init 0) ! 0) \<le> 200000000"
    by code_simp+
  with pit_poll_irq0_next_deadline [OF pit_init_ok [of 0] refl, of 200000000] show ?thesis by fastforce
qed

text \<open>In every state the guest can reach, a mode command with lobyte/hibyte access
  followed by the two data bytes loads exactly the 16-bit reload value and restarts the channel
  at the time of the second byte.\<close>

theorem pit_program_channel:
  assumes "p = run pit_step (pit_init t) accs" and "i < 3" and "mode \<le> 5"
    and "cmd = push_bit 6 (of_nat i) OR 0x30 OR push_bit 1 mode"
    and "q = run pit_step p [(t0, PitWrite 0x43 cmd), (t1, PitWrite (0x40 + of_nat i) lo),
               (t2, PitWrite (0x40 + of_nat i) hi)]"
  shows "ch_reload (pit_channels q ! i) = ucast hi * 256 + ucast lo
     \<and> ch_start (pit_channels q ! i) = t2 \<and> ch_mode (pit_channels q ! i) = mode"
proof -
  have p: "pit_ok p" unfolding assms(1) by (rule pit_machine.run_inv [OF pit_init_ok])
  have i: "i = 0 \<or> i = 1 \<or> i = 2" using assms(2) by arith
  have mode: "mode = 0 \<or> mode = 1 \<or> mode = 2 \<or> mode = 3 \<or> mode = 4 \<or> mode = 5"
    using assms(3) unfolding word_le_nat_alt word_unat_eq_iff by auto
  define r where "r = pit_write_command p cmd t0"
  have cmd: "cmd AND 0xC0 \<noteq> 0xC0" "unat (drop_bit 6 cmd AND 3) = i" "drop_bit 4 cmd AND 3 = 3"
    "drop_bit 1 cmd AND 7 = mode"
    using i mode unfolding assms(4) by (elim disjE; simp)+
  have rc: "pit_channels r ! i = (pit_channels p ! i)\<lparr>ch_access := 3, ch_mode := mode, ch_write_phase := 0,
      ch_read_phase := 0, ch_latch_valid := False\<rparr>"
    using p assms(2,3) by (simp add: r_def pit_write_command_def Let_def pit_ok_def cmd not_less del: One_nat_def)
  have r: "pit_ok r" unfolding r_def using p by (rule pit_write_command_ok)
  have "q = pit_write_channel (pit_write_channel r i lo t1) i hi t2"
    using i by (auto simp: assms(5) r_def pit_write_port_def)
  moreover have "ch_mode (pit_channels (pit_write_channel s j v now) ! i) = ch_mode (pit_channels s ! i)"
    if "j < length (pit_channels s)" for s j v now
    using that by (cases "i = j") (auto simp: pit_write_channel_def pit_reset_channel_timer_def
      pit_schedule_next_irq_def Let_def nth_list_update)
  moreover have "length (pit_channels (pit_write_channel s j v now)) = length (pit_channels s)" for s j v now
    by (simp add: pit_write_channel_def pit_reset_channel_timer_def pit_schedule_next_irq_def Let_def)
  ultimately show ?thesis
    using pit_program_reload [OF r assms(2), of q lo t1 hi t2] r assms(2) by (simp add: rc pit_ok_def)
qed

theorem pit_program_channel_witness:
  "ch_reload (pit_channels (run pit_step (run pit_step (pit_init 0) [])
     [(1, PitWrite 0x43 0x34), (2, PitWrite (0x40 + of_nat 0) 0x9C), (3, PitWrite (0x40 + of_nat 0) 0x2E)]) ! 0) = 0x2E9C"
  using pit_program_channel [OF refl, of 0 2 _ _ 0 "[]" 1 2 "0x9C" 3 "0x2E", OF _ _ refl refl]
  by (simp del: run.simps)

end
