(* ===== verification/Hpet.thy ===== *)
theory Hpet
  imports Bytes
begin

unbundle bit_operations_syntax

text \<open>
  The high precision event timer (native/whp/devices/hpet.h, hpet.cc). The steady clock is
  the argument \<open>now\<close> (nanoseconds). The up-call attached with attach_irq_line is modelled by
  its calls: an operation that may de-assert a line returns the list of (pin, level) calls,
  which is empty unless a callback is attached. The periodic re-arm loop of poll_expired
  adds in 64-bit unsigned arithmetic and is a partial function.
\<close>

definition hpet_kBase :: u64 where "hpet_kBase = 0xFED00000"
definition hpet_kSize :: u64 where "hpet_kSize = 0x400"
definition kClockPeriodNs :: u64 where "kClockPeriodNs = 10"
definition kClockPeriodFs :: u64 where "kClockPeriodFs = kClockPeriodNs * 1000000"
definition kNumTimers :: nat where "kNumTimers = 3"
definition kTimer0IoApicPin :: u32 where "kTimer0IoApicPin = 2"
definition kIntCap :: u32 where "kIntCap = push_bit (unat kTimer0IoApicPin) 1"
definition kCapabilities :: u64 where
  "kCapabilities = 0x8086A001 OR push_bit 8 (of_nat kNumTimers - 1) OR push_bit 32 kClockPeriodFs"
definition kCfgEnable :: u64 where "kCfgEnable = 0x001"
definition kCfgLegacy :: u64 where "kCfgLegacy = 0x002"
definition kCfgWriteMask :: u64 where "kCfgWriteMask = 0x003"
definition kTimerTypeLevel :: u64 where "kTimerTypeLevel = 0x002"
definition kTimerEnable :: u64 where "kTimerEnable = 0x004"
definition kTimerPeriodic :: u64 where "kTimerPeriodic = 0x008"
definition kTimerPeriodicCap :: u64 where "kTimerPeriodicCap = 0x010"
definition kTimerSizeCap :: u64 where "kTimerSizeCap = 0x020"
definition kTimerSetVal :: u64 where "kTimerSetVal = 0x040"
definition kTimer32Bit :: u64 where "kTimer32Bit = 0x100"
definition kTimerIntRouteMask :: u64 where "kTimerIntRouteMask = 0x3E00"
definition kTimerCfgWriteMask :: u64 where "kTimerCfgWriteMask = 0x7F4E"

lemmas hpet_consts = hpet_kBase_def hpet_kSize_def kClockPeriodNs_def
  kClockPeriodFs_def kNumTimers_def kTimer0IoApicPin_def kIntCap_def kCapabilities_def kCfgEnable_def
  kCfgLegacy_def kCfgWriteMask_def kTimerTypeLevel_def kTimerEnable_def kTimerPeriodic_def
  kTimerPeriodicCap_def kTimerSizeCap_def kTimerSetVal_def kTimer32Bit_def kTimerIntRouteMask_def
  kTimerCfgWriteMask_def

record hpet_irq =
  irq_ioapic_pin :: u32
  irq_pic_irq :: u8
  irq_level :: bool

record hpet_timer =
  tm_config :: u64
  tm_cmp :: u64
  tm_cmp64 :: u64
  tm_period :: u64
  tm_armed :: bool

record hpet =
  hp_timers :: "hpet_timer list"
  hp_asserted :: "hpet_irq option list"
  hp_config :: u64
  hp_isr :: u64
  hp_counter_base :: u64
  hp_started_at :: int
  hp_irq_line :: bool

type_synonym irq_calls = "(u32 \<times> bool) list"

definition hpet_init :: "int \<Rightarrow> hpet" where
  "hpet_init now =
     \<lparr>hp_timers = replicate kNumTimers
        \<lparr>tm_config = kTimerPeriodicCap OR kTimerSizeCap OR push_bit 32 (ucast kIntCap),
         tm_cmp = - 1, tm_cmp64 = - 1, tm_period = 0, tm_armed = False\<rparr>,
      hp_asserted = replicate kNumTimers None, hp_config = 0, hp_isr = 0, hp_counter_base = 0,
      hp_started_at = now, hp_irq_line = False\<rparr>"

definition hpet_attach_irq_line :: "hpet \<Rightarrow> hpet" where
  "hpet_attach_irq_line h = h\<lparr>hp_irq_line := True\<rparr>"

definition hpet_legacy_mode :: "hpet \<Rightarrow> bool" where
  "hpet_legacy_mode h \<longleftrightarrow> hp_config h AND kCfgLegacy \<noteq> 0"

definition valid_access :: "u64 \<Rightarrow> u32 \<Rightarrow> bool" where
  "valid_access addr n \<longleftrightarrow>
     n \<noteq> 0 \<and> n \<le> 8 \<and> hpet_kBase \<le> addr \<and> addr < hpet_kBase + hpet_kSize \<and>
     ucast n \<le> hpet_kBase + hpet_kSize - addr"

definition counter_reached :: "u64 \<Rightarrow> u64 \<Rightarrow> bool" where
  "counter_reached now target \<longleftrightarrow> sint (target - now) \<le> 0"

definition hpet_counter :: "hpet \<Rightarrow> int \<Rightarrow> u64" where
  "hpet_counter h now =
     (if hp_config h AND kCfgEnable = 0 then hp_counter_base h
      else let elapsed = now - hp_started_at h;
               ticks = (if elapsed \<le> 0 then 0 else of_int elapsed div kClockPeriodNs)
           in hp_counter_base h + ticks)"

definition route_for_timer :: "hpet \<Rightarrow> nat \<Rightarrow> hpet_irq" where
  "route_for_timer h i =
    (let level = (tm_config (hp_timers h ! i) AND kTimerTypeLevel \<noteq> 0)
     in if i \<le> 1 \<and> hp_config h AND kCfgLegacy \<noteq> 0
        then if i = 0 then \<lparr>irq_ioapic_pin = kTimer0IoApicPin, irq_pic_irq = 0, irq_level = level\<rparr>
             else \<lparr>irq_ioapic_pin = 8, irq_pic_irq = 8, irq_level = level\<rparr>
        else let route = ucast (drop_bit 9 (tm_config (hp_timers h ! i) AND kTimerIntRouteMask))
             in \<lparr>irq_ioapic_pin = route, irq_pic_irq = 0xFF, irq_level = level\<rparr>)"

text \<open>One round of the loop in deassert_cleared_irqs, then the loop over the timers.\<close>

definition deassert_one :: "u64 \<Rightarrow> nat \<Rightarrow> hpet \<times> irq_calls \<Rightarrow> hpet \<times> irq_calls" where
  "deassert_one cleared i st =
    (let (h, calls) = st
     in if cleared AND push_bit i 1 = 0 then st
        else let irq = (case hp_asserted h ! i of Some irq \<Rightarrow> irq | None \<Rightarrow> route_for_timer h i);
                 h' = h\<lparr>hp_asserted := (hp_asserted h)[i := None]\<rparr>
             in if hp_irq_line h \<and> irq_level irq \<and> irq_ioapic_pin irq < 24
                then (h', calls @ [(irq_ioapic_pin irq, False)]) else (h', calls))"

definition deassert_cleared_irqs :: "hpet \<Rightarrow> u64 \<Rightarrow> hpet \<times> irq_calls" where
  "deassert_cleared_irqs h cleared = fold (deassert_one cleared) [0 ..< length (hp_timers h)] (h, [])"

definition set_timer :: "hpet \<Rightarrow> nat \<Rightarrow> int \<Rightarrow> hpet" where
  "set_timer h i t =
    (let timer = (hp_timers h ! i)\<lparr>tm_armed := False\<rparr>;
         put = (\<lambda>x. h\<lparr>hp_timers := (hp_timers h)[i := x]\<rparr>)
     in if hp_config h AND kCfgEnable = 0 \<or> tm_config timer AND kTimerEnable = 0 then put timer
        else let now = hpet_counter h t;
                 cmp64 = (if tm_config timer AND kTimer32Bit \<noteq> 0
                          then let c = (now AND NOT 0xFFFFFFFF) OR ucast (ucast (tm_cmp timer) :: u32)
                               in if sint (c - now) < 0 then c + 0x100000000 else c
                          else tm_cmp timer)
             in put (timer\<lparr>tm_cmp64 := cmp64, tm_armed := True\<rparr>))"

definition reprogram_timers :: "hpet \<Rightarrow> int \<Rightarrow> hpet" where
  "reprogram_timers h t = fold (\<lambda>i h. set_timer h i t) [0 ..< length (hp_timers h)] h"

definition hpet_write_config :: "hpet \<Rightarrow> nat \<Rightarrow> nat \<Rightarrow> u64 \<Rightarrow> int \<Rightarrow> hpet \<times> irq_calls" where
  "hpet_write_config h shift bits value t =
    (let old = hp_config h;
         new = DepositBits old shift bits value;
         new = (new AND kCfgWriteMask) OR (old AND NOT kCfgWriteMask);
         was_enabled = (old AND kCfgEnable \<noteq> 0);
         will_enable = (new AND kCfgEnable \<noteq> 0);
         h1 = (if was_enabled \<and> \<not> will_enable then h\<lparr>hp_counter_base := hpet_counter h t\<rparr> else h);
         h2 = h1\<lparr>hp_config := new\<rparr>;
         h3 = (if \<not> was_enabled \<and> will_enable then h2\<lparr>hp_started_at := t\<rparr> else h2)
     in if will_enable then (reprogram_timers h3 t, [])
        else deassert_cleared_irqs
               (h3\<lparr>hp_timers := map (\<lambda>tm. tm\<lparr>tm_armed := False\<rparr>) (hp_timers h3), hp_isr := 0\<rparr>)
               (hp_isr h3))"

definition write_timer_config :: "hpet \<Rightarrow> nat \<Rightarrow> nat \<Rightarrow> nat \<Rightarrow> u64 \<Rightarrow> int \<Rightarrow> hpet \<times> irq_calls" where
  "write_timer_config h i shift bits value t =
    (let old = tm_config (hp_timers h ! i);
         new = DepositBits old shift bits value;
         new = (new AND kTimerCfgWriteMask) OR (old AND NOT kTimerCfgWriteMask);
         clear_level_irq = (old AND kTimerTypeLevel \<noteq> 0 \<and>
           (new AND kTimerTypeLevel = 0 \<or> new AND kTimerEnable = 0));
         (h1, calls) = (if clear_level_irq
           then let clear = push_bit i 1
                in deassert_cleared_irqs (h\<lparr>hp_isr := hp_isr h AND NOT clear\<rparr>) (hp_isr h AND clear)
           else (h, []));
         timer = (hp_timers h1 ! i)\<lparr>tm_config := new\<rparr>;
         timer = (if tm_config timer AND kTimer32Bit \<noteq> 0
                  then timer\<lparr>tm_cmp := ucast (ucast (tm_cmp timer) :: u32),
                             tm_period := ucast (ucast (tm_period timer) :: u32)\<rparr> else timer)
     in (set_timer (h1\<lparr>hp_timers := (hp_timers h1)[i := timer]\<rparr>) i t, calls))"

definition write_timer_cmp :: "hpet \<Rightarrow> nat \<Rightarrow> nat \<Rightarrow> nat \<Rightarrow> u64 \<Rightarrow> int \<Rightarrow> hpet" where
  "write_timer_cmp h i shift bits value t =
    (let timer = hp_timers h ! i; narrow = (tm_config timer AND kTimer32Bit \<noteq> 0)
     in if narrow \<and> shift \<noteq> 0 then h
        else let bits = (if narrow then 64 else bits);
                 value = (if narrow then ucast (ucast value :: u32) else value);
                 timer = (if tm_config timer AND kTimerPeriodic = 0 \<or> tm_config timer AND kTimerSetVal \<noteq> 0
                          then timer\<lparr>tm_cmp := DepositBits (tm_cmp timer) shift bits value\<rparr> else timer);
                 timer = (if tm_config timer AND kTimerPeriodic \<noteq> 0
                          then timer\<lparr>tm_period := DepositBits (tm_period timer) shift bits value\<rparr> else timer);
                 timer = timer\<lparr>tm_config := tm_config timer AND NOT kTimerSetVal\<rparr>
             in set_timer (h\<lparr>hp_timers := (hp_timers h)[i := timer]\<rparr>) i t)"

definition hpet_read_reg :: "hpet \<Rightarrow> u64 \<Rightarrow> int \<Rightarrow> u64" where
  "hpet_read_reg h off t =
    (if off \<le> 0xFF
     then if off = 0x000 then kCapabilities
          else if off = 0x010 then hp_config h
          else if off = 0x020 then hp_isr h
          else if off = 0x0F0 then hpet_counter h t else 0
     else let timer_id = unat ((off - 0x100) div 0x20)
          in if length (hp_timers h) \<le> timer_id then 0
             else if off AND 0x18 = 0x00 then tm_config (hp_timers h ! timer_id)
             else if off AND 0x18 = 0x08 then tm_cmp (hp_timers h ! timer_id) else 0)"

definition hpet_write_reg :: "hpet \<Rightarrow> u64 \<Rightarrow> nat \<Rightarrow> nat \<Rightarrow> u64 \<Rightarrow> int \<Rightarrow> hpet \<times> irq_calls" where
  "hpet_write_reg h off shift bits value t =
    (if off \<le> 0xFF
     then if off = 0x010 then hpet_write_config h shift bits value t
          else if off = 0x020
          then let clear = DepositBits 0 shift bits value
               in deassert_cleared_irqs (h\<lparr>hp_isr := hp_isr h AND NOT clear\<rparr>) (hp_isr h AND clear)
          else if off = 0x0F0
          then (if hp_config h AND kCfgEnable = 0
                then h\<lparr>hp_counter_base := DepositBits (hp_counter_base h) shift bits value\<rparr> else h, [])
          else (h, [])
     else let timer_id = unat ((off - 0x100) div 0x20)
          in if length (hp_timers h) \<le> timer_id then (h, [])
             else if off AND 0x18 = 0x00 then write_timer_config h timer_id shift bits value t
             else if off AND 0x18 = 0x08 then (write_timer_cmp h timer_id shift bits value t, [])
             else (h, []))"

text \<open>MMIO: the data buffer is the byte list of the access, zeroed first on a read.\<close>

definition hpet_read_mmio :: "hpet \<Rightarrow> u64 \<Rightarrow> u32 \<Rightarrow> int \<Rightarrow> bytes" where
  "hpet_read_mmio h addr n t =
    (if \<not> valid_access addr n then replicate (unat n) 0
     else let off = addr - hpet_kBase; shift = unat ((off AND 4) * 8);
              value = hpet_read_reg h (off AND NOT 4) t
          in le_bytes (unat n) (drop_bit shift value))"

definition hpet_write_mmio :: "hpet \<Rightarrow> u64 \<Rightarrow> bytes \<Rightarrow> int \<Rightarrow> hpet \<times> irq_calls" where
  "hpet_write_mmio h addr data t =
    (if \<not> valid_access addr (of_nat (length data)) then (h, [])
     else let off = addr - hpet_kBase; shift = unat ((off AND 4) * 8);
              bits = min (length data * 8) (64 - shift)
          in hpet_write_reg h (off AND NOT 4) shift bits (ReadLe ((!) data) 0 (length data)) t)"

text \<open>The do-while loop that moves a periodic comparator past the counter.\<close>

partial_function (option) hpet_rearm :: "u64 \<Rightarrow> u64 \<Rightarrow> u64 \<Rightarrow> u64 option" where
  "hpet_rearm period now cmp64 =
     (let c = cmp64 + period in if counter_reached now c then hpet_rearm period now c else Some c)"

definition poll_timer :: "u64 \<Rightarrow> nat \<Rightarrow> hpet \<times> hpet_irq list \<Rightarrow> (hpet \<times> hpet_irq list) option" where
  "poll_timer now i st =
    (let (h, irqs) = st; timer = hp_timers h ! i
     in if \<not> tm_armed timer \<or> tm_config timer AND kTimerEnable = 0 then Some st
        else if \<not> counter_reached now (tm_cmp64 timer) then Some st
        else let irq = route_for_timer h i;
                 h1 = (if tm_config timer AND kTimerTypeLevel \<noteq> 0
                       then h\<lparr>hp_isr := hp_isr h OR push_bit i 1,
                              hp_asserted := (hp_asserted h)[i := Some irq]\<rparr> else h);
                 put = (\<lambda>x. h1\<lparr>hp_timers := (hp_timers h1)[i := x]\<rparr>)
             in if tm_config timer AND kTimerPeriodic \<noteq> 0 \<and> tm_period timer \<noteq> 0
                then Option.bind (hpet_rearm (tm_period timer) now (tm_cmp64 timer)) (\<lambda>c.
                     Some (put (timer\<lparr>tm_cmp64 := c,
                       tm_cmp := (if tm_config timer AND kTimer32Bit \<noteq> 0 then ucast (ucast c :: u32) else c)\<rparr>),
                       irqs @ [irq]))
                else Some (put (timer\<lparr>tm_armed := False\<rparr>), irqs @ [irq]))"

fun poll_timers :: "u64 \<Rightarrow> nat list \<Rightarrow> hpet \<times> hpet_irq list \<Rightarrow> (hpet \<times> hpet_irq list) option" where
  "poll_timers now [] st = Some st"
| "poll_timers now (i # is) st = Option.bind (poll_timer now i st) (poll_timers now is)"

definition poll_expired :: "hpet \<Rightarrow> int \<Rightarrow> (hpet \<times> hpet_irq list) option" where
  "poll_expired h t =
    (if hp_config h AND kCfgEnable = 0 then Some (h, [])
     else poll_timers (hpet_counter h t) [0 ..< length (hp_timers h)] (h, []))"

section \<open>Lines and the interrupt status register\<close>

lemma and_one_bit: "(c :: u64) AND push_bit i 1 = 0 \<longleftrightarrow> \<not> bit c i"
  by (simp add: and_exp_eq_0_iff_not_bit push_bit_eq_mult)

text \<open>The call, if any, that clearing status bit \<open>i\<close> makes.\<close>

definition deassert_call :: "hpet \<Rightarrow> nat \<Rightarrow> irq_calls" where
  "deassert_call h i =
    (let irq = (case hp_asserted h ! i of Some irq \<Rightarrow> irq | None \<Rightarrow> route_for_timer h i)
     in if hp_irq_line h \<and> irq_level irq \<and> irq_ioapic_pin irq < 24 then [(irq_ioapic_pin irq, False)] else [])"

lemma deassert_one_eq:
  "deassert_one c n (h, calls) =
    (if bit c n then (h\<lparr>hp_asserted := (hp_asserted h)[n := None]\<rparr>, calls @ deassert_call h n) else (h, calls))"
  by (simp add: deassert_one_def and_one_bit deassert_call_def Let_def del: push_bit_of_1)

lemma route_upd [simp]: "route_for_timer (h\<lparr>hp_asserted := x\<rparr>) n = route_for_timer h n"
  by (simp add: route_for_timer_def Let_def)

lemma deassert_call_upd:
  "x ! n = hp_asserted h ! n \<Longrightarrow> deassert_call (h\<lparr>hp_asserted := x\<rparr>) n = deassert_call h n"
  by (cases "hp_asserted h ! n") (simp_all add: deassert_call_def)

lemma deassert_loop:
  assumes "n \<le> length (hp_asserted h)"
  shows "fold (deassert_one c) [0 ..< n] (h, []) =
    (h\<lparr>hp_asserted := map (\<lambda>i. if bit c i then None else hp_asserted h ! i) [0 ..< n] @ drop n (hp_asserted h)\<rparr>,
     concat (map (\<lambda>i. if bit c i then deassert_call h i else []) [0 ..< n]))"
  using assms
proof (induction n)
  case (Suc n)
  let ?A = "map (\<lambda>i. if bit c i then None else hp_asserted h ! i) [0 ..< n]"
  have d: "drop n (hp_asserted h) = hp_asserted h ! n # drop (Suc n) (hp_asserted h)"
    using Suc.prems by (simp add: Cons_nth_drop_Suc)
  then have "(?A @ drop n (hp_asserted h)) ! n = hp_asserted h ! n"
    "(?A @ drop n (hp_asserted h))[n := None] = ?A @ None # drop (Suc n) (hp_asserted h)"
    by (simp_all add: nth_append list_update_append)
  with Suc d show ?case by (simp add: deassert_one_eq deassert_call_upd)
qed simp

lemma deassert_cleared_irqs_eq:
  assumes "length (hp_timers h) = 3" and "length (hp_asserted h) = 3"
  shows "deassert_cleared_irqs h c =
    (h\<lparr>hp_asserted := map (\<lambda>i. if bit c i then None else hp_asserted h ! i) [0 ..< 3]\<rparr>,
     concat (map (\<lambda>i. if bit c i then deassert_call h i else []) [0 ..< 3]))"
  using deassert_loop [of 3 h c] assms by (simp add: deassert_cleared_irqs_def)

definition hpet_ok :: "hpet \<Rightarrow> bool" where
  "hpet_ok h \<longleftrightarrow> length (hp_timers h) = 3 \<and> length (hp_asserted h) = 3 \<and> take_bit 3 (hp_isr h) = hp_isr h
     \<and> (\<forall>i < 3. bit (hp_isr h) i \<longleftrightarrow> hp_asserted h ! i \<noteq> None)
     \<and> (\<forall>i < 3. \<forall>irq. hp_asserted h ! i = Some irq \<longrightarrow> irq_level irq)"

lemma hpet_ok_timers:
  "hpet_ok h \<Longrightarrow> length ts = 3 \<Longrightarrow> hpet_ok (h\<lparr>hp_timers := ts\<rparr>)"
  by (simp add: hpet_ok_def)

lemma set_timer_frame:
  "hpet_ok h \<Longrightarrow> hpet_ok (set_timer h i t)"
  "hpet_counter (set_timer h i t) t' = hpet_counter h t'" "hp_config (set_timer h i t) = hp_config h"
  "length (hp_timers (set_timer h i t)) = length (hp_timers h)"
  by (auto simp: set_timer_def Let_def hpet_counter_def intro!: hpet_ok_timers) (auto simp: hpet_ok_def)

lemma reprogram_loop:
  "hpet_ok h \<Longrightarrow> hpet_ok (fold (\<lambda>i h. set_timer h i t) is h)"
  "hpet_counter (fold (\<lambda>i h. set_timer h i t) is h) t' = hpet_counter h t'"
  "hp_config (fold (\<lambda>i h. set_timer h i t) is h) = hp_config h"
  by (induction "is" arbitrary: h) (auto simp: set_timer_frame)

lemma clear_isr_ok [inv_intros]:
  assumes "hpet_ok h"
  shows "hpet_ok (fst (deassert_cleared_irqs (h\<lparr>hp_isr := hp_isr h AND NOT c\<rparr>) (hp_isr h AND c)))"
  using assms
  by (auto simp: deassert_cleared_irqs_eq hpet_ok_def bit_simps take_bit_self_iff simp del: take_bit_and)

lemma clear_all_ok:
  assumes "hpet_ok h" and "length (hp_timers g) = 3" and "hp_asserted g = hp_asserted h" and "hp_isr g = 0"
  shows "hpet_ok (fst (deassert_cleared_irqs g (hp_isr h)))"
  using assms by (auto simp: deassert_cleared_irqs_eq hpet_ok_def)

lemma hpet_ok_config: "hpet_ok (h\<lparr>hp_config := c\<rparr>) = hpet_ok h" "hpet_ok (h\<lparr>hp_counter_base := b\<rparr>) = hpet_ok h"
  "hpet_ok (h\<lparr>hp_started_at := s\<rparr>) = hpet_ok h"
  by (simp_all add: hpet_ok_def)

lemma hpet_write_config_ok [inv_intros]:
  assumes h: "hpet_ok h"
  shows "hpet_ok (fst (hpet_write_config h s b v t))"
proof -
  have "length (hp_timers h) = 3" using h by (simp add: hpet_ok_def)
  then show ?thesis using h unfolding hpet_write_config_def Let_def
    by (auto simp: reprogram_timers_def hpet_ok_config intro!: reprogram_loop(1) clear_all_ok [OF h])
qed

lemma put_timer_ok: "hpet_ok h \<Longrightarrow> hpet_ok (set_timer (h\<lparr>hp_timers := (hp_timers h)[i := tm]\<rparr>) i t)"
  by (rule set_timer_frame(1), rule hpet_ok_timers) (simp_all add: hpet_ok_def)

lemma write_timer_config_ok [inv_intros]:
  assumes "hpet_ok h"
  shows "hpet_ok (fst (write_timer_config h i s b v t))"
proof -
  let ?d = "deassert_cleared_irqs (h\<lparr>hp_isr := hp_isr h AND NOT (push_bit i 1)\<rparr>) (hp_isr h AND push_bit i 1)"
  have "hpet_ok (fst ?d)" using assms by (rule clear_isr_ok)
  then show ?thesis using assms
    by (simp add: write_timer_config_def Let_def case_prod_unfold put_timer_ok)
qed

lemma write_timer_cmp_ok [inv_intros]: "hpet_ok h \<Longrightarrow> hpet_ok (write_timer_cmp h i s b v t)"
  by (simp add: write_timer_cmp_def Let_def put_timer_ok)

lemma hpet_write_reg_ok [inv_intros]: "hpet_ok h \<Longrightarrow> hpet_ok (fst (hpet_write_reg h off s b v t))"
  by (auto simp: hpet_write_reg_def Let_def hpet_ok_config intro: inv_intros)

lemma poll_timer_ok:
  assumes "hpet_ok h" and "i < 3" and "poll_timer now i (h, irqs) = Some (h', irqs')"
  shows "hpet_ok h'"
proof -
  have "hpet_ok (h\<lparr>hp_isr := hp_isr h OR push_bit i 1, hp_asserted := (hp_asserted h)[i := Some (route_for_timer h i)]\<rparr>)"
    if "tm_config (hp_timers h ! i) AND kTimerTypeLevel \<noteq> 0"
    using assms(1,2) that
    by (auto simp: hpet_ok_def bit_simps nth_list_update route_for_timer_def Let_def take_bit_self_iff
        simp del: take_bit_or split: if_splits)
  then show ?thesis using assms
    by (auto simp: poll_timer_def Let_def hpet_ok_def bind_eq_Some_conv split: if_splits)
qed

lemma poll_timers_ok:
  "\<lbrakk>poll_timers now is (h, irqs) = Some (h', irqs'); hpet_ok h; set is \<subseteq> {..<3}\<rbrakk> \<Longrightarrow> hpet_ok h'"
proof (induction "is" arbitrary: h irqs)
  case (Cons i "is")
  then obtain g gs where "poll_timer now i (h, irqs) = Some (g, gs)" "poll_timers now is (g, gs) = Some (h', irqs')"
    by (auto simp: bind_eq_Some_conv)
  with Cons.IH [of g gs] Cons.prems show ?case by (auto dest: poll_timer_ok)
qed simp

lemma poll_expired_ok: "hpet_ok h \<Longrightarrow> poll_expired h t = Some (h', irqs) \<Longrightarrow> hpet_ok h'"
  by (auto simp: poll_expired_def hpet_ok_def dest!: poll_timers_ok split: if_splits)

text \<open>The accesses that change the device: a guest store to its window, and the poll of the
  timer thread. A poll that does not return leaves no next state; the step keeps the old one.\<close>

datatype hpet_access = HpetWrite u64 bytes | HpetPoll

fun hpet_step :: "hpet \<Rightarrow> int \<times> hpet_access \<Rightarrow> hpet" where
  "hpet_step h (t, HpetWrite addr data) = fst (hpet_write_mmio h addr data t)"
| "hpet_step h (t, HpetPoll) = (case poll_expired h t of Some (h', _) \<Rightarrow> h' | None \<Rightarrow> h)"

interpretation hpet_machine: invariant_machine hpet_step hpet_ok
proof
  fix h and e :: "int \<times> hpet_access" assume h: "hpet_ok h"
  show "hpet_ok (hpet_step h e)"
    by (cases "(h, e)" rule: hpet_step.cases)
      (use h in \<open>auto simp: hpet_write_mmio_def Let_def intro: inv_intros poll_expired_ok split: option.splits\<close>)
qed

lemma hpet_init_ok: "hpet_ok (hpet_attach_irq_line (hpet_init t))" "hpet_ok (hpet_init t)"
  by (auto simp: hpet_ok_def hpet_init_def hpet_attach_irq_line_def hpet_consts)

section \<open>Re-arming a periodic timer\<close>

lemma sint_u64_bounds: "- (2 ^ 63) \<le> sint (x :: u64)" "sint (x :: u64) < 2 ^ 63"
  using sint_greater_eq [of x] sint_lt [of x] by simp_all

lemma sint_add_u64:
  "- (2 ^ 63) \<le> sint x + sint y \<Longrightarrow> sint x + sint y < 2 ^ 63 \<Longrightarrow> sint (x + y :: u64) = sint x + sint y"
  by (simp add: sint_word_ariths signed_take_bit_int_eq_self)

lemma hpet_rearm_total:
  assumes "0 < sint period" and "counter_reached now cmp64"
  shows "\<exists>c k. hpet_rearm period now cmp64 = Some c \<and> c = cmp64 + of_nat k * period
    \<and> 0 < sint (c - now) \<and> sint (c - now) \<le> sint period"
  using assms(2)
proof (induction "nat (- sint (cmp64 - now))" arbitrary: cmp64 rule: less_induct)
  case less
  let ?c = "cmp64 + period"
  have neg: "sint (cmp64 - now) \<le> 0" using less.prems by (simp add: counter_reached_def)
  have add: "sint (?c - now) = sint (cmp64 - now) + sint period"
    using sint_add_u64 [of "cmp64 - now" period] neg sint_u64_bounds [of "cmp64 - now"]
      sint_u64_bounds [of period] assms(1) by (simp add: algebra_simps)
  show ?case
  proof (cases "counter_reached now ?c")
    case True
    then obtain c k where "hpet_rearm period now ?c = Some c" "c = ?c + of_nat k * period"
      "0 < sint (c - now)" "sint (c - now) \<le> sint period"
      using less.hyps [of ?c] add neg assms(1) by (auto simp: counter_reached_def)
    then show ?thesis using True
      by (intro exI [of _ c] exI [of _ "Suc k"]) (simp add: hpet_rearm.simps [of _ _ cmp64] algebra_simps)
  next
    case False
    then show ?thesis using add neg
      by (intro exI [of _ ?c] exI [of _ 1]) (simp add: hpet_rearm.simps [of _ _ cmp64] counter_reached_def)
  qed
qed

lemma counter_reached_half: "counter_reached now now" "counter_reached now (now + 0x8000000000000000)"
  by (simp_all add: counter_reached_def)

lemma hpet_rearm_diverges: "hpet_rearm 0x8000000000000000 now now = None"
proof -
  have "\<not> (p = 0x8000000000000000 \<and> (c = n \<or> c = n + 0x8000000000000000))"
    if "hpet_rearm p n c = Some y" for p n c y
  proof (rule hpet_rearm.raw_induct
      [of "\<lambda>p n c y. \<not> (p = 0x8000000000000000 \<and> (c = n \<or> c = n + 0x8000000000000000))", OF _ that])
    fix f p n c y
    assume IH: "\<And>p n c y. f p n c = Some y \<Longrightarrow>
        \<not> (p = 0x8000000000000000 \<and> (c = n \<or> c = n + 0x8000000000000000))"
      and body: "(let c = c + p in if counter_reached n c then f p n c else Some c) = Some (y :: u64)"
    have "n + 0x8000000000000000 + 0x8000000000000000 = n" by (simp add: add.assoc)
    then have "c + p = n + 0x8000000000000000 \<or> c + p = n"
      if "p = 0x8000000000000000" "c = n \<or> c = n + 0x8000000000000000" using that by metis
    with IH [of p n "c + p" y] body counter_reached_half [of n]
    show "\<not> (p = 0x8000000000000000 \<and> (c = n \<or> c = n + 0x8000000000000000))"
      unfolding Let_def by metis
  qed
  then show ?thesis by (cases "hpet_rearm 0x8000000000000000 now now") auto
qed

section \<open>The poll, timer by timer\<close>

definition expired :: "u64 \<Rightarrow> hpet \<Rightarrow> nat \<Rightarrow> bool" where
  "expired now h i \<longleftrightarrow> tm_armed (hp_timers h ! i) \<and> tm_config (hp_timers h ! i) AND kTimerEnable \<noteq> 0
     \<and> counter_reached now (tm_cmp64 (hp_timers h ! i))"

definition forward_period :: "hpet \<Rightarrow> nat \<Rightarrow> bool" where
  "forward_period h i \<longleftrightarrow> 0 \<le> sint (tm_period (hp_timers h ! i))"

lemma sint_pos: "(x :: u64) \<noteq> 0 \<Longrightarrow> 0 \<le> sint x \<Longrightarrow> 0 < sint x"
  by (metis less_le signed_0 signed_word_eqI)

lemma poll_timer_spec:
  assumes "i < length (hp_timers h)" and "forward_period h i"
  shows "\<exists>h'. poll_timer now i (h, irqs) = Some (h', irqs @ (if expired now h i then [route_for_timer h i] else []))
    \<and> hp_config h' = hp_config h \<and> length (hp_timers h') = length (hp_timers h)
    \<and> (\<forall>j. j \<noteq> i \<longrightarrow> hp_timers h' ! j = hp_timers h ! j) \<and> \<not> expired now h' i"
proof (cases "expired now h i \<and> tm_config (hp_timers h ! i) AND kTimerPeriodic \<noteq> 0 \<and> tm_period (hp_timers h ! i) \<noteq> 0")
  case True
  then obtain c where "hpet_rearm (tm_period (hp_timers h ! i)) now (tm_cmp64 (hp_timers h ! i)) = Some c" "0 < sint (c - now)"
    using hpet_rearm_total [of "tm_period (hp_timers h ! i)" now "tm_cmp64 (hp_timers h ! i)"] assms(2) sint_pos
    by (force simp: expired_def forward_period_def)
  with True assms(1) show ?thesis
    by (auto simp: poll_timer_def Let_def expired_def counter_reached_def)
next
  case False
  with assms(1) show ?thesis by (auto simp: poll_timer_def Let_def expired_def)
qed

lemma poll_timers_spec:
  assumes "distinct is" and "set is \<subseteq> {..<length (hp_timers h)}" and "\<forall>i \<in> set is. forward_period h i"
  shows "\<exists>h'. poll_timers now is (h, irqs) = Some (h', irqs @ map (route_for_timer h) (filter (expired now h) is))
    \<and> hp_config h' = hp_config h \<and> (\<forall>j. j \<notin> set is \<longrightarrow> hp_timers h' ! j = hp_timers h ! j)
    \<and> (\<forall>j \<in> set is. \<not> expired now h' j)"
  using assms
proof (induction "is" arbitrary: h irqs)
  case (Cons i "is")
  obtain g where g: "poll_timer now i (h, irqs) = Some (g, irqs @ (if expired now h i then [route_for_timer h i] else []))"
    "hp_config g = hp_config h" "length (hp_timers g) = length (hp_timers h)"
    "\<And>j. j \<noteq> i \<Longrightarrow> hp_timers g ! j = hp_timers h ! j" "\<not> expired now g i"
    using poll_timer_spec [of i h now irqs] Cons.prems by auto
  have same: "expired now g j = expired now h j" "route_for_timer g j = route_for_timer h j"
    "forward_period g j = forward_period h j" if "j \<in> set is" for j
  proof -
    have "hp_timers g ! j = hp_timers h ! j" using that Cons.prems(1) by (intro g(4)) auto
    then show "expired now g j = expired now h j" "route_for_timer g j = route_for_timer h j"
      "forward_period g j = forward_period h j"
      by (simp_all add: expired_def route_for_timer_def forward_period_def Let_def g(2))
  qed
  obtain h' where h': "poll_timers now is (g, irqs @ (if expired now h i then [route_for_timer h i] else []))
      = Some (h', (irqs @ (if expired now h i then [route_for_timer h i] else []))
          @ map (route_for_timer g) (filter (expired now g) is))"
    "hp_config h' = hp_config g" "\<And>j. j \<notin> set is \<Longrightarrow> hp_timers h' ! j = hp_timers g ! j"
    "\<And>j. j \<in> set is \<Longrightarrow> \<not> expired now h' j"
    using Cons.IH [of g "irqs @ (if expired now h i then [route_for_timer h i] else [])"] Cons.prems g(3) same(3)
    by auto
  have "\<not> expired now h' i" using h'(3) [of i] g(5) Cons.prems(1) by (simp add: expired_def)
  moreover have "map (route_for_timer g) (filter (expired now g) is) = map (route_for_timer h) (filter (expired now h) is)"
    using same by (simp cong: filter_cong)
  ultimately show ?case using h' g by auto
qed simp

section \<open>What the guest cannot change\<close>

definition hpet_fixed :: "hpet \<Rightarrow> bool \<times> u64 list" where
  "hpet_fixed h = (hp_irq_line h, map (\<lambda>tm. tm_config tm AND NOT kTimerCfgWriteMask) (hp_timers h))"

lemma map_update_same: "f x = f (xs ! i) \<Longrightarrow> map f (xs[i := x]) = map f xs"
  by (simp add: map_update) (metis list_update_id list_update_beyond map_update nth_map not_less length_map)

lemma hpet_fixed_put:
  "tm_config tm AND NOT kTimerCfgWriteMask = tm_config (hp_timers h ! i) AND NOT kTimerCfgWriteMask
   \<Longrightarrow> hpet_fixed (h\<lparr>hp_timers := (hp_timers h)[i := tm]\<rparr>) = hpet_fixed h"
  by (simp add: hpet_fixed_def map_update_same)

lemma hpet_fixed_updates [simp]:
  "hpet_fixed (h\<lparr>hp_isr := a\<rparr>) = hpet_fixed h" "hpet_fixed (h\<lparr>hp_asserted := b\<rparr>) = hpet_fixed h"
  "hpet_fixed (h\<lparr>hp_config := c\<rparr>) = hpet_fixed h" "hpet_fixed (h\<lparr>hp_counter_base := d\<rparr>) = hpet_fixed h"
  "hpet_fixed (h\<lparr>hp_started_at := e\<rparr>) = hpet_fixed h"
  by (simp_all add: hpet_fixed_def)

lemma hpet_fixed_set_timer [simp]: "hpet_fixed (set_timer h i t) = hpet_fixed h"
  by (auto simp: set_timer_def Let_def intro!: hpet_fixed_put)

lemma hpet_fixed_reprogram: "hpet_fixed (fold (\<lambda>i h. set_timer h i t) is h) = hpet_fixed h"
  by (induction "is" arbitrary: h) auto

lemma hpet_fixed_deassert: "hpet_fixed (fst (deassert_cleared_irqs h c)) = hpet_fixed h"
proof -
  have "hpet_fixed (fst (fold (deassert_one c) is (g, cs))) = hpet_fixed g" for "is" g cs
    by (induction "is" arbitrary: g cs) (auto simp: deassert_one_eq)
  then show ?thesis by (simp add: deassert_cleared_irqs_def)
qed

lemma keep_masked: "((x AND m) OR (y AND NOT m)) AND NOT m = (y AND NOT m :: u64)"
  by (rule bit_word_eqI) (auto simp: bit_simps)

lemma hpet_fixed_write_reg: "hpet_fixed (fst (hpet_write_reg h off s b v t)) = hpet_fixed h"
proof -
  have setval: "(x AND NOT kTimerSetVal) AND NOT kTimerCfgWriteMask = x AND NOT kTimerCfgWriteMask" for x
    by (simp add: and.assoc hpet_consts)
  have "hpet_fixed (fst (hpet_write_config h s b v t)) = hpet_fixed h"
  proof -
    have "hp_irq_line g = hp_irq_line h \<Longrightarrow>
        hpet_fixed (g\<lparr>hp_timers := map (\<lambda>tm. tm\<lparr>tm_armed := False\<rparr>) (hp_timers h)\<rparr>) = hpet_fixed h" for g
      by (simp add: hpet_fixed_def comp_def)
    then show ?thesis
      by (simp add: hpet_write_config_def Let_def hpet_fixed_deassert reprogram_timers_def hpet_fixed_reprogram)
  qed
  moreover have "hpet_fixed (fst (write_timer_config h i s b v t)) = hpet_fixed h" for i
  proof -
    let ?d = "deassert_cleared_irqs (h\<lparr>hp_isr := hp_isr h AND NOT (push_bit i 1)\<rparr>) (hp_isr h AND push_bit i 1)"
    have "hp_timers (fst (fold (deassert_one c) is (g, cs))) = hp_timers g" for c "is" g cs
      by (induction "is" arbitrary: g cs) (auto simp: deassert_one_eq)
    then have "hp_timers (fst ?d) = hp_timers h" by (simp add: deassert_cleared_irqs_def)
    moreover have "hpet_fixed (fst ?d) = hpet_fixed h" by (simp add: hpet_fixed_deassert)
    ultimately show ?thesis
      by (simp add: write_timer_config_def Let_def case_prod_unfold hpet_fixed_put keep_masked del: push_bit_of_1)
  qed
  moreover have "hpet_fixed (write_timer_cmp h i s b v t) = hpet_fixed h" for i
    by (simp add: write_timer_cmp_def Let_def hpet_fixed_put setval)
  ultimately show ?thesis by (simp add: hpet_write_reg_def Let_def hpet_fixed_deassert)
qed

lemma hpet_fixed_poll:
  "poll_timers now is (h, irqs) = Some (h', irqs') \<Longrightarrow> hpet_fixed h' = hpet_fixed h"
proof (induction "is" arbitrary: h irqs)
  case (Cons i "is")
  then obtain g gs where "poll_timer now i (h, irqs) = Some (g, gs)" "poll_timers now is (g, gs) = Some (h', irqs')"
    by (auto simp: bind_eq_Some_conv)
  moreover from this have "hpet_fixed g = hpet_fixed h"
    using hpet_fixed_put by (fastforce simp: poll_timer_def Let_def bind_eq_Some_conv hpet_fixed_def map_update_same split: if_splits)
  ultimately show ?case using Cons.IH by simp
qed simp

lemma hpet_fixed_run: "hpet_ok h \<Longrightarrow> hpet_fixed (run hpet_step h accs) = hpet_fixed h"
proof (rule hpet_machine.run_frame)
  show "hpet_fixed (hpet_step s e) = hpet_fixed s" for s and e :: "int \<times> hpet_access"
    by (cases "(s, e)" rule: hpet_step.cases)
      (auto simp: hpet_write_mmio_def Let_def hpet_fixed_write_reg poll_expired_def hpet_fixed_poll split: option.splits)
qed

section \<open>Properties\<close>

text \<open>In every state reachable from power-on with the IOAPIC call-back attached, the
  guest's write-one-to-clear of the interrupt status register clears exactly the written bits
  and lowers exactly the lines that are held up for them, on the pin that was raised at the time
  the timer fired (a later re-routing of the timer does not lose the line).\<close>

theorem hpet_isr_write_lowers_lines:
  assumes "h = run hpet_step (hpet_attach_irq_line (hpet_init t0)) accs"
  shows "hp_isr (fst (hpet_write_reg h 0x020 0 64 clear t)) = hp_isr h AND NOT clear
    \<and> snd (hpet_write_reg h 0x020 0 64 clear t) =
       concat (map (\<lambda>i. case hp_asserted h ! i of None \<Rightarrow> []
          | Some irq \<Rightarrow> if bit clear i \<and> irq_ioapic_pin irq < 24 then [(irq_ioapic_pin irq, False)] else []) [0 ..< 3])"
proof -
  have ok: "hpet_ok h" unfolding assms by (rule hpet_machine.run_inv [OF hpet_init_ok(1)])
  have "hpet_fixed h = hpet_fixed (hpet_attach_irq_line (hpet_init t0))"
    unfolding assms by (rule hpet_fixed_run [OF hpet_init_ok(1)])
  then have line: "hp_irq_line h" by (simp add: hpet_fixed_def hpet_attach_irq_line_def)
  have all: "DepositBits 0 0 64 clear = clear" by (rule bit_word_eqI) (simp add: bit_DepositBits)
  show ?thesis using ok
    by (auto simp: hpet_write_reg_def Let_def all deassert_cleared_irqs_eq hpet_ok_def bit_simps deassert_call_def line
        split: option.splits intro!: arg_cong [where f = concat])
qed

theorem hpet_isr_write_lowers_lines_witness:
  "snd (hpet_write_reg (run hpet_step (hpet_attach_irq_line (hpet_init 0))
      [(0, HpetWrite 0xFED00108 [5, 0, 0, 0, 0, 0, 0, 0]), (0, HpetWrite 0xFED00100 [0x06, 0x04, 0, 0, 0, 0, 0, 0]),
       (0, HpetWrite 0xFED00010 [1, 0, 0, 0, 0, 0, 0, 0]), (60, HpetPoll)]) 0x020 0 64 1 70) = [(2, False)]"
  (is "snd (hpet_write_reg ?h 0x020 0 64 1 70) = _")
proof -
  have "concat (map (\<lambda>i. case hp_asserted ?h ! i of None \<Rightarrow> []
      | Some irq \<Rightarrow> if bit (1 :: u64) i \<and> irq_ioapic_pin irq < 24 then [(irq_ioapic_pin irq, False)] else []) [0 ..< 3])
      = [(2, False)]"
    by code_simp
  then show ?thesis by (simp only: hpet_isr_write_lowers_lines [OF refl, THEN conjunct2])
qed

text \<open>No sequence of guest accesses and polls changes the read-only capability bits of a
  timer: periodic and 64-bit capable, routable to IOAPIC pin 2 only, no FSB delivery.\<close>

theorem hpet_capabilities_read_only:
  assumes "i < 3"
  shows "tm_config (hp_timers (run hpet_step (hpet_init t0) accs) ! i) AND NOT 0x7F4E = 0x400000030"
proof -
  have "hpet_fixed (run hpet_step (hpet_init t0) accs) = hpet_fixed (hpet_init t0)"
    by (rule hpet_fixed_run [OF hpet_init_ok(2)])
  moreover have "length (hp_timers (run hpet_step (hpet_init t0) accs)) = 3"
    using hpet_machine.run_inv [OF hpet_init_ok(2)] by (simp add: hpet_ok_def)
  ultimately show ?thesis using assms
    by (auto simp: hpet_fixed_def hpet_init_def hpet_consts list_eq_iff_nth_eq)
qed

theorem hpet_capabilities_read_only_witness:
  "tm_config (hp_timers (run hpet_step (hpet_init 0) [(0, HpetWrite 0xFED00100 (replicate 8 0xFF))]) ! 0)
     AND NOT 0x7F4E = 0x400000030"
  by (rule hpet_capabilities_read_only) simp

text \<open>Writing the general configuration register, whatever it enables or disables, never
  makes the main counter jump: at the moment of the write it reads the same before and after.\<close>

theorem hpet_config_keeps_counter:
  "hpet_counter (fst (hpet_write_config h shift bits value t)) t = hpet_counter h t"
proof -
  have deassert: "hpet_counter (fst (deassert_cleared_irqs g c)) t = hpet_counter g t" for g c
  proof -
    have upd: "hpet_counter (g\<lparr>hp_asserted := x\<rparr>) t = hpet_counter g t" for g x
      by (simp add: hpet_counter_def)
    have "hpet_counter (fst (fold (deassert_one c) is (g, cs))) t = hpet_counter g t" for "is" cs
      by (induction "is" arbitrary: g cs) (auto simp: deassert_one_eq upd)
    then show ?thesis by (simp add: deassert_cleared_irqs_def)
  qed
  show ?thesis
    by (simp add: hpet_write_config_def Let_def deassert reprogram_timers_def reprogram_loop)
      (simp add: hpet_counter_def Let_def)
qed

text \<open>When no timer has a period with the top bit set, poll_expired returns: it reports one
  interrupt, routed by the current configuration, for exactly the armed and enabled timers whose
  comparator has been reached, in timer order, and afterwards no timer is still expired.\<close>

theorem hpet_poll_expired_spec:
  assumes "hpet_ok h" and "\<forall>i < 3. forward_period h i" and "hp_config h AND kCfgEnable \<noteq> 0"
  shows "\<exists>h'. poll_expired h t =
      Some (h', map (route_for_timer h) (filter (expired (hpet_counter h t) h) [0 ..< 3]))
    \<and> (\<forall>i < 3. \<not> expired (hpet_counter h t) h' i)"
  using poll_timers_spec [of "[0 ..< 3]" h "hpet_counter h t" "[]"] assms
  by (fastforce simp: poll_expired_def hpet_ok_def lessThan_atLeast0)

theorem hpet_poll_expired_spec_witness:
  "\<exists>h'. poll_expired (run hpet_step (hpet_init 0) [(0, HpetWrite 0xFED00108 [5, 0, 0, 0, 0, 0, 0, 0]),
       (0, HpetWrite 0xFED00100 [0x06, 0x04, 0, 0, 0, 0, 0, 0]),
       (0, HpetWrite 0xFED00010 [1, 0, 0, 0, 0, 0, 0, 0])]) 60
     = Some (h', [\<lparr>irq_ioapic_pin = 2, irq_pic_irq = 0xFF, irq_level = True\<rparr>])"
  (is "\<exists>h'. poll_expired ?h 60 = _")
proof -
  have "hpet_ok ?h" by (rule hpet_machine.run_inv [OF hpet_init_ok(2)])
  moreover have "\<forall>i < 3. forward_period ?h i"
    by (simp add: numeral_3_eq_3 All_less_Suc) (intro conjI; code_simp)
  moreover have "hp_config ?h AND kCfgEnable \<noteq> 0" by code_simp
  moreover have "map (route_for_timer ?h) (filter (expired (hpet_counter ?h 60) ?h) [0 ..< 3])
      = [\<lparr>irq_ioapic_pin = 2, irq_pic_irq = 0xFF, irq_level = True\<rparr>]" by code_simp
  ultimately show ?thesis using hpet_poll_expired_spec [of ?h 60] by auto
qed

text \<open>The guest can program a periodic timer (period 2^63, comparator 5) so that the poll at
  the tick of its comparator never returns: the re-arm loop of poll_expired alternates between
  two comparators that both count as reached, and the polling thread is lost.\<close>

theorem hpet_poll_can_hang:
  "poll_expired (run hpet_step (hpet_init 0)
     [(0, HpetWrite 0xFED00100 [0x4C, 0, 0, 0, 0, 0, 0, 0]),
      (0, HpetWrite 0xFED00108 [5, 0, 0, 0, 0, 0, 0, 0]),
      (0, HpetWrite 0xFED00108 [0, 0, 0, 0, 0, 0, 0, 0x80]),
      (0, HpetWrite 0xFED00010 [1, 0, 0, 0, 0, 0, 0, 0])]) 50 = None"
  (is "poll_expired ?h 50 = None")
proof -
  have "hp_config ?h AND kCfgEnable \<noteq> 0 \<and> hpet_counter ?h 50 = 5 \<and> length (hp_timers ?h) = 3 \<and>
      (let tm = hp_timers ?h ! 0 in tm_armed tm \<and> tm_config tm AND kTimerEnable \<noteq> 0 \<and>
        tm_config tm AND kTimerPeriodic \<noteq> 0 \<and> tm_cmp64 tm = 5 \<and> tm_period tm = 0x8000000000000000)"
    by code_simp
  then show ?thesis
    by (simp add: poll_expired_def poll_timer_def Let_def upt_rec [of 0 3] hpet_rearm_diverges counter_reached_half)
qed

end
