(* ===== verification/Rtc_Timers.thy ===== *)
theory Rtc_Timers
  imports Prelude
begin

unbundle bit_operations_syntax

text \<open>
  The CMOS/RTC (native/whp/devices/cmos.h, cmos.cc) and the ACPI power-management timer
  (native/whp/devices/acpi_pm_timer.h, acpi_pm_timer.cc). GetSystemTime and the steady clock
  are host services and arguments of the model: a broken-down UTC time, and a time in
  nanoseconds.
\<close>

section \<open>CMOS\<close>

record systemtime =
  wYear :: u16
  wMonth :: u16
  wDayOfWeek :: u16
  wDay :: u16
  wHour :: u16
  wMinute :: u16
  wSecond :: u16

record cmos =
  cmos_selected :: u8
  cmos_regs :: "u8 list"

definition to_bcd :: "u16 \<Rightarrow> u8" where
  "to_bcd value = ucast (push_bit 4 (value div 10) OR (value mod 10))"

definition encode_time_value :: "cmos \<Rightarrow> u16 \<Rightarrow> u8" where
  "encode_time_value c value =
     (if cmos_regs c ! 0x0B AND 0x04 \<noteq> 0 then ucast value else to_bcd value)"

definition refresh_time :: "cmos \<Rightarrow> systemtime \<Rightarrow> cmos" where
  "refresh_time c now =
    (let enc = encode_time_value c
     in c\<lparr>cmos_regs := (cmos_regs c)
          [0x00 := enc (wSecond now), 0x02 := enc (wMinute now), 0x04 := enc (wHour now),
           0x06 := enc (wDayOfWeek now + 1), 0x07 := enc (wDay now), 0x08 := enc (wMonth now),
           0x09 := enc (wYear now mod 100), 0x32 := enc (wYear now div 100)]\<rparr>)"

definition cmos_init :: "systemtime \<Rightarrow> cmos" where
  "cmos_init now = refresh_time
     \<lparr>cmos_selected = 0,
      cmos_regs = (replicate 0x80 0)[0x0A := 0x26, 0x0B := 0x02, 0x0D := 0x80, 0x0F := 0x00]\<rparr> now"

definition cmos_read_port :: "cmos \<Rightarrow> u16 \<Rightarrow> systemtime \<Rightarrow> u8 \<times> cmos" where
  "cmos_read_port c port now =
    (if port = 0x71
     then let c = refresh_time c now in (cmos_regs c ! unat (cmos_selected c AND 0x7F), c)
     else (0xFF, c))"

definition cmos_write_port :: "cmos \<Rightarrow> u16 \<Rightarrow> u8 \<Rightarrow> cmos" where
  "cmos_write_port c port value =
    (if port = 0x70 then c\<lparr>cmos_selected := value\<rparr>
     else if port = 0x71
     then let reg = cmos_selected c AND 0x7F
          in if reg = 0x0A \<or> reg = 0x0B \<or> reg = 0x0C \<or> reg = 0x0F
             then c\<lparr>cmos_regs := (cmos_regs c)[unat reg := value]\<rparr> else c
     else c)"

section \<open>ACPI power-management timer\<close>

definition kPort :: u16 where "kPort = 0x408"
definition kPmTimerHz :: u64 where "kPmTimerHz = 3579545"

definition pm_counter :: "int \<Rightarrow> int \<Rightarrow> u32" where
  "pm_counter started_at now =
    (let elapsed = now - started_at
     in if elapsed \<le> 0 then 0 else ucast ((of_int elapsed * kPmTimerHz) div 1000000000))"

definition pm_read :: "int \<Rightarrow> u16 \<Rightarrow> u8 \<Rightarrow> int \<Rightarrow> u32" where
  "pm_read started_at port n now =
    (if port < kPort \<or> kPort + 4 \<le> port \<or> n = 0 \<or> 4 < n then 0
     else let shift = unat ((port - kPort) * 8) in drop_bit shift (pm_counter started_at now))"

section \<open>The clock registers\<close>

datatype cmos_access = CmosRead u16 systemtime | CmosWrite u16 u8

fun cmos_step :: "cmos \<Rightarrow> cmos_access \<Rightarrow> cmos" where
  "cmos_step c (CmosRead port now) = snd (cmos_read_port c port now)"
| "cmos_step c (CmosWrite port v) = cmos_write_port c port v"

definition cmos_ok :: "cmos \<Rightarrow> bool" where
  "cmos_ok c \<longleftrightarrow> length (cmos_regs c) = 0x80 \<and> cmos_regs c ! 0x0D = 0x80"

lemma refresh_time_ok [inv_intros]: "cmos_ok c \<Longrightarrow> cmos_ok (refresh_time c now)"
  by (simp add: cmos_ok_def refresh_time_def Let_def)

interpretation cmos_machine: invariant_machine cmos_step cmos_ok
proof
  fix c e assume c: "cmos_ok c"
  then have "cmos_ok (c\<lparr>cmos_regs := (cmos_regs c)[unat r := v]\<rparr>)"
    if "r = 0x0A \<or> r = 0x0B \<or> r = 0x0C \<or> r = 0x0F" for r v :: u8
    using that by (auto simp: cmos_ok_def)
  with c show "cmos_ok (cmos_step c e)"
    by (cases e) (auto simp: cmos_read_port_def cmos_write_port_def Let_def intro: inv_intros, auto simp: cmos_ok_def)
qed

lemma cmos_init_ok: "cmos_ok (cmos_init now)"
  unfolding cmos_init_def by (rule refresh_time_ok) (simp add: cmos_ok_def)

text \<open>What the clock registers stand for: the host time, field by field.\<close>

definition rtc_field :: "systemtime \<Rightarrow> u8 \<Rightarrow> u16 option" where
  "rtc_field now reg =
    (if reg = 0x00 then Some (wSecond now) else if reg = 0x02 then Some (wMinute now)
     else if reg = 0x04 then Some (wHour now) else if reg = 0x06 then Some (wDayOfWeek now + 1)
     else if reg = 0x07 then Some (wDay now) else if reg = 0x08 then Some (wMonth now)
     else if reg = 0x09 then Some (wYear now mod 100) else if reg = 0x32 then Some (wYear now div 100)
     else None)"

lemma refresh_time_field:
  assumes "cmos_ok c" and "rtc_field now reg = Some v"
  shows "cmos_regs (refresh_time c now) ! unat reg = encode_time_value c v"
  using assms by (auto simp: cmos_ok_def rtc_field_def refresh_time_def Let_def split: if_splits)

lemma to_bcd_decode:
  assumes "v < 100"
  shows "unat (drop_bit 4 (to_bcd v)) * 10 + unat (take_bit 4 (to_bcd v)) = unat v"
    "unat (take_bit 4 (to_bcd v)) < 10"
proof -
  have v: "unat v < 100" using assms by (simp add: word_less_nat_alt)
  have disj: "push_bit 4 (v div 10) OR (v mod 10) = push_bit 4 (v div 10) + (v mod 10)"
  proof (rule disjunctive_add [symmetric])
    have "unat (v mod 10) < 2 ^ 4" by (simp add: unat_mod less_trans [OF mod_less_divisor])
    then have "take_bit 4 (v mod 10) = v mod 10" by (rule take_bit_unat_self)
    then show "\<not> bit (push_bit 4 (v div 10)) n \<or> \<not> bit (v mod 10) n" for n
      by (auto simp: bit_simps dest: bit_take_self_less)
  qed
  have "unat (push_bit 4 (v div 10) + v mod 10) = 16 * (unat v div 10) + unat v mod 10"
    using v by (simp add: push_bit_eq_mult unat_word_ariths unat_div unat_mod)
  then have "unat (to_bcd v) = 16 * (unat v div 10) + unat v mod 10"
    using v by (simp add: to_bcd_def disj unsigned_ucast_eq take_bit_nat_eq_self)
  then show "unat (drop_bit 4 (to_bcd v)) * 10 + unat (take_bit 4 (to_bcd v)) = unat v"
    "unat (take_bit 4 (to_bcd v)) < 10"
    by (simp_all add: unat_drop_bit unat_take_bit)
qed

section \<open>Properties\<close>

text \<open>Whatever the guest wrote before, a read of a clock register returns the host's time at
  the moment of the read: binary when the guest selected binary mode, otherwise two BCD digits
  that decode to the value.\<close>

theorem cmos_reads_host_clock:
  assumes "c = run cmos_step (cmos_init t0) accs"
    and "rtc_field now (sel AND 0x7F) = Some v" and "v < 100"
    and "b = fst (cmos_read_port (cmos_write_port c 0x70 sel) 0x71 now)"
  shows "if cmos_regs c ! 0x0B AND 0x04 \<noteq> 0 then unat b = unat v
    else unat (drop_bit 4 b) * 10 + unat (take_bit 4 b) = unat v \<and> unat (take_bit 4 b) < 10"
proof -
  let ?c = "cmos_write_port c 0x70 sel"
  have ok: "cmos_ok c" unfolding assms(1) by (rule cmos_machine.run_inv [OF cmos_init_ok])
  then have "cmos_ok ?c" by (simp add: cmos_write_port_def cmos_ok_def)
  then have "b = encode_time_value ?c v"
    using refresh_time_field [OF _ assms(2), of ?c]
    by (simp add: assms(4) cmos_read_port_def Let_def) (simp add: cmos_write_port_def refresh_time_def Let_def)
  moreover have "unat (ucast v :: u8) = unat v"
    using assms(3) by (simp add: unsigned_ucast_eq take_bit_nat_eq_self word_less_nat_alt)
  ultimately show ?thesis using to_bcd_decode [OF assms(3)]
    by (simp add: encode_time_value_def cmos_write_port_def)
qed

theorem cmos_reads_host_clock_witness:
  "unat (drop_bit 4 (fst (cmos_read_port (cmos_write_port (run cmos_step (cmos_init
       \<lparr>wYear = 2024, wMonth = 2, wDayOfWeek = 4, wDay = 29, wHour = 23, wMinute = 59, wSecond = 58\<rparr>) []) 0x70 0x80) 0x71
       \<lparr>wYear = 2024, wMonth = 2, wDayOfWeek = 4, wDay = 29, wHour = 23, wMinute = 59, wSecond = 59\<rparr>))) = 5"
proof -
  let ?t = "\<lparr>wYear = 2024, wMonth = 2, wDayOfWeek = 4, wDay = 29, wHour = 23, wMinute = 59, wSecond = 58\<rparr>"
  let ?u = "\<lparr>wYear = 2024, wMonth = 2, wDayOfWeek = 4, wDay = 29, wHour = 23, wMinute = 59, wSecond = 59\<rparr>"
  have "rtc_field ?u (0x80 AND 0x7F) = Some 59" "cmos_regs (run cmos_step (cmos_init ?t) []) ! 0x0B AND 0x04 = 0"
    by (simp_all add: rtc_field_def cmos_init_def refresh_time_def Let_def)
  then show ?thesis using cmos_reads_host_clock [OF refl _ _ refl, of ?u "0x80" 59 ?t "[]"]
    by (simp del: run.simps)
qed

text \<open>For the first 5153 seconds of a guest's life the PM timer is exact: it is the number of
  3.579545 MHz ticks since power-on, modulo the 32-bit register.\<close>

theorem pm_counter_exact:
  assumes "started_at \<le> now" and "(now - started_at) * 3579545 < 2 ^ 64"
  shows "unat (pm_counter started_at now) = nat ((now - started_at) * 3579545) div 1000000000 mod 2 ^ 32"
proof -
  define e where "e = now - started_at"
  have e: "0 \<le> e" "e * 3579545 < 2 ^ 64" using assms by (simp_all add: e_def)
  then have "unat (of_int e :: u64) = nat e"
    by (simp add: unat_eq_nat_uint uint_word_of_int_eq take_bit_int_eq_self)
  then have "unat (of_int e * kPmTimerHz) = nat (e * 3579545)"
    using e by (simp add: unat_word_ariths kPmTimerHz_def nat_mult_distrib)
  then have "unat (ucast (of_int e * kPmTimerHz div 1000000000) :: u32) = nat (e * 3579545) div 1000000000 mod 2 ^ 32"
    by (simp add: unsigned_ucast_eq unat_div take_bit_nat_def)
  then show ?thesis using e by (auto simp: pm_counter_def Let_def e_def [symmetric])
qed

theorem pm_counter_exact_witness: "unat (pm_counter 0 1000000000) = 3579545"
  using pm_counter_exact [of 0 1000000000] by simp

text \<open>After that the 64-bit product overflows: one nanosecond later the counter falls from
  1266874889 to 0 instead of staying there, so the clock source is not monotone.\<close>

theorem pm_counter_overflow:
  "pm_counter 0 5153376776576 = 1266874889 \<and> pm_counter 0 (5153376776576 + 1) = 0"
  by (simp add: pm_counter_def kPmTimerHz_def)

end
