(* ===== verification/Guest_Memory.thy ===== *)
theory Guest_Memory
  imports Bytes
begin

unbundle bit_operations_syntax

text \<open>
  Guest RAM as the devices see it (native/whp/guest_memory.h): the host buffer and its
  length. \<open>gm_ptr\<close> is GuestMemory::ptr, the bounds check in front of every access; the
  offset it returns is the host pointer. \<open>ptr_or_null\<close> is the non-throwing variant of the
  virtio-rng and virtio-net devices. The facts here say that a pointer obtained this way
  addresses guest RAM only, so a store through it never changes a byte outside it.
\<close>

record guest_memory =
  gm_data :: ram
  gm_len :: u64

definition gm_ptr :: "guest_memory \<Rightarrow> u64 \<Rightarrow> u64 \<Rightarrow> nat result" where
  "gm_ptr mem offset n =
     rbind (CheckRange (gm_len mem) offset n ''guest memory'') (\<lambda>_. Inr (unat offset))"

definition gm_size :: "guest_memory \<Rightarrow> u64" where
  "gm_size mem = gm_len mem"

definition ptr_or_null :: "guest_memory \<Rightarrow> u64 \<Rightarrow> u64 \<Rightarrow> nat option" where
  "ptr_or_null mem gpa n =
     (if gm_size mem < gpa \<or> gm_size mem - gpa < n then None else Some (unat gpa))"

definition gm_write :: "guest_memory \<Rightarrow> nat \<Rightarrow> bytes \<Rightarrow> guest_memory" where
  "gm_write mem p bs = mem\<lparr>gm_data := memcpy (gm_data mem) p bs\<rparr>"

definition gm_read :: "guest_memory \<Rightarrow> nat \<Rightarrow> nat \<Rightarrow> bytes" where
  "gm_read mem p n = read_bytes (gm_data mem) p n"

lemma gm_ptr_Inr:
  "gm_ptr mem off n = Inr p \<longleftrightarrow> p = unat off \<and> unat off + unat n \<le> unat (gm_len mem)"
  by (auto simp: gm_ptr_def CheckRange_Inr)

lemma gm_ptr_Inl:
  "(\<exists>e. gm_ptr mem off n = Inl e) \<longleftrightarrow> unat (gm_len mem) < unat off + unat n"
  by (auto simp: gm_ptr_def CheckRange_cases)

lemma ptr_or_null_Some:
  "ptr_or_null mem gpa n = Some p \<longleftrightarrow> p = unat gpa \<and> unat gpa + unat n \<le> unat (gm_len mem)"
proof (cases "gm_size mem < gpa")
  case True
  then show ?thesis by (auto simp: ptr_or_null_def gm_size_def word_less_nat_alt)
next
  case False
  then have "unat (gm_size mem - gpa) = unat (gm_size mem) - unat gpa" "unat gpa \<le> unat (gm_size mem)"
    by (auto simp: unat_sub word_le_nat_alt not_less)
  with False show ?thesis by (auto simp: ptr_or_null_def gm_size_def word_less_nat_alt)
qed

lemma ptr_or_null_None:
  "ptr_or_null mem gpa n = None \<longleftrightarrow> unat (gm_len mem) < unat gpa + unat n"
  using ptr_or_null_Some [of mem gpa n "unat gpa"]
  by (cases "ptr_or_null mem gpa n") (auto simp: ptr_or_null_Some)

lemma ptr_or_null_gm_ptr:
  "ptr_or_null mem a n = (case gm_ptr mem a n of Inl e \<Rightarrow> None | Inr p \<Rightarrow> Some p)"
  by (auto simp: gm_ptr_Inr ptr_or_null_Some ptr_or_null_None split: sum.split dest!: gm_ptr_Inl [THEN iffD1, OF exI])

text \<open>Two memories of one size that agree outside guest RAM: what every device operation
  keeps, whatever the guest put into its rings.\<close>

definition same_outside :: "guest_memory \<Rightarrow> guest_memory \<Rightarrow> bool" where
  "same_outside mem mem' \<longleftrightarrow>
     gm_len mem' = gm_len mem \<and> (\<forall>a \<ge> unat (gm_len mem). gm_data mem' a = gm_data mem a)"

lemma same_outside_refl [simp, intro]: "same_outside m m"
  by (simp add: same_outside_def)

lemma same_outside_trans [trans]:
  "same_outside a b \<Longrightarrow> same_outside b c \<Longrightarrow> same_outside a c"
  by (simp add: same_outside_def)

lemma same_outside_len: "same_outside m m' \<Longrightarrow> gm_len m' = gm_len m"
  by (simp add: same_outside_def)

lemma same_outside_gm_write:
  "p + length bs \<le> unat (gm_len mem) \<Longrightarrow> same_outside mem (gm_write mem p bs)"
  by (auto simp: same_outside_def gm_write_def memcpy_def)

lemma gm_len_gm_write [simp]: "gm_len (gm_write mem p bs) = gm_len mem"
  by (simp add: gm_write_def)

lemma gm_read_gm_write [simp]: "gm_read (gm_write mem p bs) p (length bs) = bs"
  by (simp add: gm_read_def gm_write_def)

end
