(* ===== verification/Virtqueue.thy ===== *)
theory Virtqueue
  imports Guest_Memory
begin

unbundle bit_operations_syntax

text \<open>
  The split virtqueue as the virtio-mmio devices share it (native/whp/virtio/desc.h): the
  constants of the transport and of the rings, the descriptor, and the two helpers of
  native/whp/virtio/blk.cc that walk a chain and publish a used element. The chain walk is
  specified by paths through the descriptor table.
\<close>

definition kMagic :: u32 where "kMagic = 0x74726976"
definition kVendor :: u32 where "kVendor = 0x554D4551"
definition kVersion :: u32 where "kVersion = 2"
definition kMaxQueueSize :: u32 where "kMaxQueueSize = 256"
definition kStatusDriverOk :: u32 where "kStatusDriverOk = 0x04"
definition kStatusFeaturesOk :: u32 where "kStatusFeaturesOk = 0x08"
definition kStatusFailed :: u32 where "kStatusFailed = 0x80"
definition kRingDescFNext :: u16 where "kRingDescFNext = 1"
definition kRingDescFWrite :: u16 where "kRingDescFWrite = 2"
definition kRingDescFIndirect :: u16 where "kRingDescFIndirect = 4"
definition kRingAvailFNoInterrupt :: u16 where "kRingAvailFNoInterrupt = 1"
definition kFVersion1 :: u64 where "kFVersion1 = push_bit 32 1"
definition kNetFMac :: u64 where "kNetFMac = push_bit 5 1"
definition kNetFStatus :: u64 where "kNetFStatus = push_bit 16 1"
definition kInterruptVring :: u32 where "kInterruptVring = 0x1"
definition kInterruptConfig :: u32 where "kInterruptConfig = 0x2"

lemmas ring_consts [source_consts] = kMagic_def kVendor_def kVersion_def kMaxQueueSize_def
  kStatusDriverOk_def kStatusFeaturesOk_def kStatusFailed_def kRingDescFNext_def kRingDescFWrite_def
  kRingDescFIndirect_def kRingAvailFNoInterrupt_def kFVersion1_def kNetFMac_def kNetFStatus_def
  kInterruptVring_def kInterruptConfig_def

definition kMmioMagicValue :: u32 where "kMmioMagicValue = 0x000"
definition kMmioVersion :: u32 where "kMmioVersion = 0x004"
definition kMmioDeviceId :: u32 where "kMmioDeviceId = 0x008"
definition kMmioVendorId :: u32 where "kMmioVendorId = 0x00C"
definition kMmioDeviceFeatures :: u32 where "kMmioDeviceFeatures = 0x010"
definition kMmioDeviceFeaturesSel :: u32 where "kMmioDeviceFeaturesSel = 0x014"
definition kMmioDriverFeatures :: u32 where "kMmioDriverFeatures = 0x020"
definition kMmioDriverFeaturesSel :: u32 where "kMmioDriverFeaturesSel = 0x024"
definition kMmioQueueSel :: u32 where "kMmioQueueSel = 0x030"
definition kMmioQueueNumMax :: u32 where "kMmioQueueNumMax = 0x034"
definition kMmioQueueNum :: u32 where "kMmioQueueNum = 0x038"
definition kMmioQueueReady :: u32 where "kMmioQueueReady = 0x044"
definition kMmioQueueNotify :: u32 where "kMmioQueueNotify = 0x050"
definition kMmioInterruptStatus :: u32 where "kMmioInterruptStatus = 0x060"
definition kMmioInterruptAck :: u32 where "kMmioInterruptAck = 0x064"
definition kMmioStatus :: u32 where "kMmioStatus = 0x070"
definition kMmioQueueDescLow :: u32 where "kMmioQueueDescLow = 0x080"
definition kMmioQueueDescHigh :: u32 where "kMmioQueueDescHigh = 0x084"
definition kMmioQueueDriverLow :: u32 where "kMmioQueueDriverLow = 0x090"
definition kMmioQueueDriverHigh :: u32 where "kMmioQueueDriverHigh = 0x094"
definition kMmioQueueDeviceLow :: u32 where "kMmioQueueDeviceLow = 0x0A0"
definition kMmioQueueDeviceHigh :: u32 where "kMmioQueueDeviceHigh = 0x0A4"
definition kMmioShmLenLow :: u32 where "kMmioShmLenLow = 0x0B0"
definition kMmioShmLenHigh :: u32 where "kMmioShmLenHigh = 0x0B4"
definition kMmioShmBaseLow :: u32 where "kMmioShmBaseLow = 0x0B8"
definition kMmioShmBaseHigh :: u32 where "kMmioShmBaseHigh = 0x0BC"
definition kMmioConfigGeneration :: u32 where "kMmioConfigGeneration = 0x0FC"
definition kMmioConfig :: u32 where "kMmioConfig = 0x100"

lemmas mmio_regs = kMmioMagicValue_def kMmioVersion_def kMmioDeviceId_def kMmioVendorId_def
  kMmioDeviceFeatures_def kMmioDeviceFeaturesSel_def kMmioDriverFeatures_def kMmioDriverFeaturesSel_def
  kMmioQueueSel_def kMmioQueueNumMax_def kMmioQueueNum_def kMmioQueueReady_def kMmioQueueNotify_def
  kMmioInterruptStatus_def kMmioInterruptAck_def kMmioStatus_def kMmioQueueDescLow_def
  kMmioQueueDescHigh_def kMmioQueueDriverLow_def kMmioQueueDriverHigh_def kMmioQueueDeviceLow_def
  kMmioQueueDeviceHigh_def kMmioShmLenLow_def kMmioShmLenHigh_def kMmioShmBaseLow_def
  kMmioShmBaseHigh_def kMmioConfigGeneration_def kMmioConfig_def

text \<open>The two halves of a 64-bit register, written separately.\<close>

definition set_low :: "u64 \<Rightarrow> u32 \<Rightarrow> u64" where
  "set_low old v = (old AND NOT 0xFFFFFFFF) OR ucast v"

definition set_high :: "u64 \<Rightarrow> u32 \<Rightarrow> u64" where
  "set_high old v = (old AND 0xFFFFFFFF) OR push_bit 32 (ucast v)"

section \<open>Descriptors and chains\<close>

record desc =
  d_addr :: u64
  d_len :: u32
  d_flags :: u16
  d_next :: u16

definition read_desc :: "guest_memory \<Rightarrow> nat \<Rightarrow> desc" where
  "read_desc mem p =
     \<lparr>d_addr = ReadU64 (gm_data mem) p, d_len = ReadU32 (gm_data mem) (p + 8),
      d_flags = ReadU16 (gm_data mem) (p + 12), d_next = ReadU16 (gm_data mem) (p + 14)\<rparr>"

definition DescChain_push :: "desc list \<Rightarrow> desc \<Rightarrow> desc list result" where
  "DescChain_push chain d =
     rbind (Check (length chain < unat kMaxQueueSize) ''virtio descriptor chain too long'') (\<lambda>_. Inr (chain @ [d]))"

function walk_chain_loop ::
  "guest_memory \<Rightarrow> u64 \<Rightarrow> u32 \<Rightarrow> u16 list \<Rightarrow> desc list \<Rightarrow> u16 \<Rightarrow> desc list result" where
  "walk_chain_loop mem desc_addr q_size seen chain idx =
    rbind (Check (ucast idx < q_size) ''virtio descriptor next out of bounds'') (\<lambda>_.
    rbind (Check (idx \<notin> set seen) ''virtio descriptor cycle'') (\<lambda>_.
    rbind (Check (ucast idx < q_size) ''virtio descriptor index out of bounds'') (\<lambda>_.
    rbind (gm_ptr mem (desc_addr + ucast idx * 16) 16) (\<lambda>p.
    let d = read_desc mem p in
    rbind (Check (d_flags d AND kRingDescFIndirect = 0) ''virtio indirect descriptors are not supported'') (\<lambda>_.
    rbind (DescChain_push chain d) (\<lambda>chain'.
    if d_flags d AND kRingDescFNext = 0 then Inr chain'
    else walk_chain_loop mem desc_addr q_size (idx # seen) chain' (d_next d)))))))"
  by pat_completeness auto

text \<open>Every round marks one more index below the queue size, so the walk ends.\<close>

termination
proof (relation "measure (\<lambda>(_, _, q_size, seen, _, _). card ({i :: u16. ucast i < q_size} - set seen))", goal_cases)
  case (2 mem desc_addr q_size seen chain idx)
  then have "idx \<in> {i :: u16. ucast i < q_size} - set seen" by simp
  then have "card ({i :: u16. ucast i < q_size} - set seen - {idx}) < card ({i :: u16. ucast i < q_size} - set seen)"
    by (intro card_Diff1_less finite)
  moreover have "{i :: u16. ucast i < q_size} - set (idx # seen) = {i. ucast i < q_size} - set seen - {idx}" by auto
  ultimately show ?case by (simp only: in_measure split_conv)
qed simp

declare walk_chain_loop.simps [simp del]

definition walk_chain_inline :: "guest_memory \<Rightarrow> u64 \<Rightarrow> u32 \<Rightarrow> u16 \<Rightarrow> desc list result" where
  "walk_chain_inline mem desc_addr q_size head = walk_chain_loop mem desc_addr q_size [] [] head"

text \<open>Publishing a used element: the memory is kept when a pointer check throws.\<close>

definition push_used_inline :: "guest_memory \<Rightarrow> u64 \<Rightarrow> u32 \<Rightarrow> u32 \<Rightarrow> u32 \<Rightarrow> guest_memory \<times> unit result" where
  "push_used_inline mem device_addr q_size ident written =
    (case gm_ptr mem (device_addr + 2) 2 of Inl e \<Rightarrow> (mem, Inl e) | Inr idxp \<Rightarrow>
     let used = ReadU16 (gm_data mem) idxp;
         entry = device_addr + 4 + ucast (ucast used mod q_size) * 8
     in case gm_ptr mem entry 8 of Inl e \<Rightarrow> (mem, Inl e) | Inr p \<Rightarrow>
     let mem = mem\<lparr>gm_data := WriteU32 (gm_data mem) p ident\<rparr>
     in case gm_ptr mem (entry + 4) 4 of Inl e \<Rightarrow> (mem, Inl e) | Inr p4 \<Rightarrow>
     let mem = mem\<lparr>gm_data := WriteU32 (gm_data mem) p4 written\<rparr>
     in (mem\<lparr>gm_data := WriteU16 (gm_data mem) idxp (used + 1)\<rparr>, Inr ()))"

text \<open>The measure of the loops that follow the available index, which wraps at 2^16.\<close>

lemma avail_distance_decreases:
  "a \<noteq> (b :: u16) \<Longrightarrow> unat (b - (a + 1)) < unat (b - a)"
proof -
  assume "a \<noteq> b"
  then have "b - a \<noteq> 0" by auto
  then have "unat (b - a - 1) = unat (b - a) - 1" "0 < unat (b - a)"
    by (simp_all add: unat_minus_one unat_gt_0)
  then show ?thesis by (simp add: diff_diff_eq)
qed

section \<open>What a chain is\<close>

definition valid_desc :: "guest_memory \<Rightarrow> u64 \<Rightarrow> u32 \<Rightarrow> u16 \<Rightarrow> desc \<Rightarrow> bool" where
  "valid_desc mem desc_addr q_size idx d \<longleftrightarrow>
     ucast idx < q_size \<and> unat (desc_addr + ucast idx * 16) + 16 \<le> unat (gm_len mem) \<and>
     d = read_desc mem (unat (desc_addr + ucast idx * 16)) \<and> d_flags d AND kRingDescFIndirect = 0"

inductive chain_path :: "guest_memory \<Rightarrow> u64 \<Rightarrow> u32 \<Rightarrow> u16 \<Rightarrow> u16 list \<Rightarrow> desc list \<Rightarrow> bool"
  for mem desc_addr q_size where
  chain_last: "\<lbrakk>valid_desc mem desc_addr q_size idx d; d_flags d AND kRingDescFNext = 0\<rbrakk>
     \<Longrightarrow> chain_path mem desc_addr q_size idx [idx] [d]"
| chain_more: "\<lbrakk>valid_desc mem desc_addr q_size idx d; d_flags d AND kRingDescFNext \<noteq> 0;
     chain_path mem desc_addr q_size (d_next d) idxs ds\<rbrakk>
     \<Longrightarrow> chain_path mem desc_addr q_size idx (idx # idxs) (d # ds)"

lemma chain_path_step:
  "chain_path mem da qs idx idxs ds \<longleftrightarrow>
     (\<exists>d. valid_desc mem da qs idx d \<and>
       (if d_flags d AND kRingDescFNext = 0 then idxs = [idx] \<and> ds = [d]
        else \<exists>js es. chain_path mem da qs (d_next d) js es \<and> idxs = idx # js \<and> ds = d # es))"
  by (subst chain_path.simps) (auto split: if_splits)

lemma chain_path_lengths: "chain_path mem da qs idx idxs ds \<Longrightarrow> length idxs = length ds \<and> ds \<noteq> []"
  by (induction rule: chain_path.induct) auto

lemma ucast_index: "unat (ucast (i :: u16) :: u32) = unat i"
  by (simp add: unsigned_ucast_eq take_bit_nat_eq_self less_trans [OF unat_u16_less])

lemma indices_below_card:
  assumes "distinct seen" and "\<forall>i \<in> set seen. ucast (i :: u16) < (q :: u32)" and "q \<le> 256"
  shows "length seen \<le> 256"
proof -
  have "unat ` set seen \<subseteq> {..<unat q}"
    using assms(2) by (auto simp: word_less_nat_alt ucast_index)
  then have "card (unat ` set seen) \<le> unat q" by (metis card_lessThan card_mono finite_lessThan)
  moreover have "card (unat ` set seen) = length seen"
    using distinct_card [OF assms(1)] by (subst card_image) (auto simp: inj_on_def word_unat_eq_iff)
  ultimately have "length seen \<le> unat q" by simp
  with assms(3) show ?thesis by (simp add: word_le_nat_alt)
qed

lemma walk_chain_loop_iff:
  assumes "q_size \<le> 256" and "distinct seen" and "\<forall>i \<in> set seen. ucast i < q_size" and "length chain = length seen"
  shows "walk_chain_loop mem da q_size seen chain idx = Inr ds \<longleftrightarrow>
    (\<exists>idxs es. chain_path mem da q_size idx idxs es \<and> distinct idxs \<and> set idxs \<inter> set seen = {} \<and> ds = chain @ es)"
  using assms
proof (induction mem da q_size seen chain idx rule: walk_chain_loop.induct)
  case (1 mem da q_size seen chain idx)
  let ?p = "unat (da + ucast idx * 16)"
  let ?d = "read_desc mem ?p"
  show ?case
  proof (cases "valid_desc mem da q_size idx ?d \<and> idx \<notin> set seen")
    case False
    then show ?thesis
      by (subst walk_chain_loop.simps)
        (auto simp: Let_def gm_ptr_Inr valid_desc_def chain_path_step [of mem da q_size idx] DescChain_push_def)
  next
    case True
    have room: "length chain < 256"
      using indices_below_card [of "idx # seen" q_size] "1.prems" True by (simp add: valid_desc_def)
    then have push: "DescChain_push chain ?d = Inr (chain @ [?d])"
      by (simp add: DescChain_push_def source_consts)
    have step: "walk_chain_loop mem da q_size seen chain idx =
        (if d_flags ?d AND kRingDescFNext = 0 then Inr (chain @ [?d])
         else walk_chain_loop mem da q_size (idx # seen) (chain @ [?d]) (d_next ?d))"
      using True by (subst walk_chain_loop.simps) (simp add: valid_desc_def Let_def push gm_ptr_def CheckRange_cases)
    have valid: "valid_desc mem da q_size idx d \<longleftrightarrow> d = ?d" for d using True by (auto simp: valid_desc_def)
    show ?thesis
    proof (cases "d_flags ?d AND kRingDescFNext = 0")
      case last: True
      then show ?thesis using True by (auto simp: step chain_path_step [of mem da q_size idx] valid)
    next
      case more: False
      have IH: "walk_chain_loop mem da q_size (idx # seen) (chain @ [?d]) (d_next ?d) = Inr ds \<longleftrightarrow>
        (\<exists>idxs es. chain_path mem da q_size (d_next ?d) idxs es \<and> distinct idxs
          \<and> set idxs \<inter> set (idx # seen) = {} \<and> ds = (chain @ [?d]) @ es)"
        using True more "1.prems" push
        by (intro "1.IH" [of "()" "()" "()" ?p ?d "()" "chain @ [?d]"])
          (auto simp: valid_desc_def gm_ptr_def CheckRange_cases)
      have path: "chain_path mem da q_size idx idxs es \<longleftrightarrow>
          (\<exists>js fs. chain_path mem da q_size (d_next ?d) js fs \<and> idxs = idx # js \<and> es = ?d # fs)" for idxs es
        using more by (subst chain_path_step) (simp add: valid)
      have "(\<exists>idxs es. chain_path mem da q_size (d_next ?d) idxs es \<and> distinct idxs
            \<and> set idxs \<inter> set (idx # seen) = {} \<and> ds = (chain @ [?d]) @ es) \<longleftrightarrow>
          (\<exists>idxs es. chain_path mem da q_size idx idxs es \<and> distinct idxs
            \<and> set idxs \<inter> set seen = {} \<and> ds = chain @ es)"
        unfolding path using True by fastforce
      then show ?thesis using more by (simp only: step IH if_False)
    qed
  qed
qed

lemma walk_chain_iff:
  "q_size \<le> 256 \<Longrightarrow> walk_chain_inline mem da q_size head = Inr ds \<longleftrightarrow>
    (\<exists>idxs. chain_path mem da q_size head idxs ds \<and> distinct idxs)"
  using walk_chain_loop_iff [of q_size "[]" "[]" mem da head ds] by (auto simp: walk_chain_inline_def)

section \<open>The used ring\<close>

lemma same_outside_store:
  assumes "gm_ptr mem a n = Inr p" and "k \<le> unat n"
  shows "k = 4 \<Longrightarrow> same_outside mem (mem\<lparr>gm_data := WriteU32 (gm_data mem) p v\<rparr>)"
    and "k = 2 \<Longrightarrow> same_outside mem (mem\<lparr>gm_data := WriteU16 (gm_data mem) p h\<rparr>)"
  using assms by (auto simp: gm_ptr_Inr same_outside_def store_memcpy memcpy_outside)

lemma push_used_safe: "same_outside mem (fst (push_used_inline mem da qs ident w))"
  unfolding push_used_inline_def Let_def
  by (auto simp: same_outside_def gm_ptr_Inr store_memcpy memcpy_outside split: sum.splits)

lemma unat_used_entry:
  assumes "unat da + 4 + 8 * unat (qs :: u32) \<le> unat (len :: u64)" and "0 < qs"
  shows "unat (da + 4 + ucast (ucast (used :: u16) mod qs) * 8 :: u64) = unat da + 4 + 8 * (unat used mod unat qs)"
proof -
  have qs: "0 < unat qs" using assms(2) by (simp add: unat_gt_0)
  have m: "unat (ucast (ucast used mod qs) :: u64) = unat used mod unat qs"
  proof -
    have "unat used mod unat qs < 2 ^ 64"
      by (rule le_less_trans [OF mod_less_eq_dividend less_trans [OF unat_u16_less]]) simp
    moreover have "take_bit 32 (unat used) = unat used"
      using unat_u16_less [of used] by (simp add: take_bit_nat_eq_self)
    ultimately show ?thesis by (simp add: unsigned_ucast_eq unat_mod take_bit_nat_eq_self)
  qed
  have "unat used mod unat qs < unat qs" using qs by simp
  then have "unat da + 4 + 8 * (unat used mod unat qs) < 2 ^ 64"
    using assms(1) unat_u64_less [of len] by simp
  then show ?thesis by (simp add: unat_word_ariths m mult.commute)
qed

lemma push_used_ok:
  assumes ring: "unat da + 4 + 8 * unat qs \<le> unat (gm_len mem)" and "0 < qs"
    and u: "used = ReadU16 (gm_data mem) (unat da + 2)"
    and e: "e = unat da + 4 + 8 * (unat used mod unat qs)"
  shows "push_used_inline mem da qs ident w =
    (mem\<lparr>gm_data := WriteU16 (WriteU32 (WriteU32 (gm_data mem) e ident) (e + 4) w) (unat da + 2) (used + 1)\<rparr>, Inr ())"
proof -
  let ?e = "da + 4 + ucast (ucast used mod qs) * 8 :: u64"
  have pos: "0 < unat qs" using assms(2) by (simp add: unat_gt_0)
  have entry: "unat ?e = e" unfolding e using ring assms(2) by (rule unat_used_entry)
  have less: "unat used mod unat qs < unat qs" using pos by simp
  then have room: "e + 8 \<le> unat (gm_len mem)" unfolding e using ring by linarith
  have "unat (da + 2) = unat da + 2"
    using ring unat_u64_less [of "gm_len mem"] by (subst unat_add_no_wrap) auto
  then have p2: "gm_ptr mem (da + 2) 2 = Inr (unat da + 2)" using ring by (simp add: gm_ptr_Inr)
  have p8: "gm_ptr mem ?e 8 = Inr e" using room entry by (simp add: gm_ptr_Inr)
  have "unat (?e + 4) = e + 4"
    using room unat_u64_less [of "gm_len mem"] by (subst unat_add_no_wrap) (auto simp: entry)
  then have p4: "gm_ptr (mem\<lparr>gm_data := d\<rparr>) (?e + 4) 4 = Inr (e + 4)" for d
    using room by (simp add: gm_ptr_Inr)
  show ?thesis unfolding push_used_inline_def Let_def p2 sum.case u [symmetric] p8 p4 by simp
qed

lemma push_used_effect:
  assumes "unat da + 4 + 8 * unat qs \<le> unat (gm_len mem)" and "0 < qs"
    and "used = ReadU16 (gm_data mem) (unat da + 2)" and "e = unat da + 4 + 8 * (unat used mod unat qs)"
  shows "\<exists>mem'. push_used_inline mem da qs ident w = (mem', Inr ()) \<and> gm_len mem' = gm_len mem
    \<and> ReadU32 (gm_data mem') e = ident \<and> ReadU32 (gm_data mem') (e + 4) = w
    \<and> ReadU16 (gm_data mem') (unat da + 2) = used + 1
    \<and> (\<forall>a. a \<notin> {e ..< e + 8} \<union> {unat da + 2 ..< unat da + 4} \<longrightarrow> gm_data mem' a = gm_data mem a)"
proof -
  let ?d = "WriteU16 (WriteU32 (WriteU32 (gm_data mem) e ident) (e + 4) w) (unat da + 2) (used + 1)"
  have e: "unat da + 4 \<le> e" by (simp add: assms(4))
  have "ReadU32 ?d e = ident" "ReadU32 ?d (e + 4) = w" "ReadU16 ?d (unat da + 2) = used + 1"
    using e by (simp_all only: read_layout length_le_bytes)
      (simp_all add: cell32.load_memcpy_disjoint load_of_le_bytes)
  moreover have "\<forall>a. a \<notin> {e ..< e + 8} \<union> {unat da + 2 ..< unat da + 4} \<longrightarrow> ?d a = gm_data mem a"
    by (simp add: store_memcpy memcpy_def)
  ultimately show ?thesis
    using push_used_ok [OF assms, of ident w]
    by (intro exI [of _ "mem\<lparr>gm_data := ?d\<rparr>"]) (simp del: Un_iff)
qed

text \<open>C15. The walk of a descriptor chain always returns, and it returns a chain exactly when the
  guest's table has a path from the head along NEXT links through pairwise distinct, in-range,
  direct descriptors that lie in guest RAM; it then returns those descriptors in order. Cycles and
  out-of-range links are errors, for every content of guest memory.\<close>

theorem walk_chain_exact:
  assumes "q_size \<le> kMaxQueueSize"
  shows "walk_chain_inline mem desc_addr q_size head = Inr ds \<longleftrightarrow>
    (\<exists>idxs. chain_path mem desc_addr q_size head idxs ds \<and> distinct idxs)"
  using assms walk_chain_iff by (simp add: source_consts)

definition one_desc_memory :: guest_memory where
  "one_desc_memory = \<lparr>gm_data = memcpy (\<lambda>_. 0) 0x10 (le_bytes 8 (0x2000 :: u64) @ le_bytes 4 (64 :: u32) @ [2, 0, 0, 0]),
     gm_len = 0x10000\<rparr>"

theorem walk_chain_exact_witness:
  "walk_chain_inline one_desc_memory 0x10 8 0 = Inr [\<lparr>d_addr = 0x2000, d_len = 64, d_flags = 2, d_next = 0\<rparr>]
   \<and> \<not> (\<exists>ds. walk_chain_inline one_desc_memory 0x10 8 9 = Inr ds)"
proof -
  let ?d = "\<lparr>d_addr = 0x2000, d_len = 64, d_flags = 2, d_next = 0\<rparr>"
  have "read_desc one_desc_memory 0x10 = ?d" by code_simp
  then have "chain_path one_desc_memory 0x10 8 0 [0] [?d]"
    by (intro chain_last) (simp_all add: valid_desc_def source_consts, simp add: one_desc_memory_def)
  moreover have "\<not> chain_path one_desc_memory 0x10 8 9 idxs ds" for idxs ds
    by (subst chain_path_step) (simp add: valid_desc_def)
  ultimately show ?thesis
    using walk_chain_exact [of 8 one_desc_memory "0x10"] by (auto simp: source_consts intro!: exI [of _ "[0]"])
qed

text \<open>Publishing a completion on a used ring that lies in guest RAM stores the element (id and
  length) in slot idx mod size and then advances idx by one modulo 2^16; every other byte keeps
  its value.\<close>

theorem push_used_publishes:
  assumes "unat da + 4 + 8 * unat qs \<le> unat (gm_len mem)" and "0 < qs"
    and "used = ReadU16 (gm_data mem) (unat da + 2)" and "e = unat da + 4 + 8 * (unat used mod unat qs)"
  shows "\<exists>mem'. push_used_inline mem da qs ident w = (mem', Inr ()) \<and> gm_len mem' = gm_len mem
    \<and> ReadU32 (gm_data mem') e = ident \<and> ReadU32 (gm_data mem') (e + 4) = w
    \<and> ReadU16 (gm_data mem') (unat da + 2) = used + 1
    \<and> (\<forall>a. a \<notin> {e ..< e + 8} \<union> {unat da + 2 ..< unat da + 4} \<longrightarrow> gm_data mem' a = gm_data mem a)"
  using assms by (rule push_used_effect)

theorem push_used_publishes_witness:
  "\<exists>mem'. push_used_inline \<lparr>gm_data = (\<lambda>_. 0), gm_len = 0x10000\<rparr> 0x3000 8 5 64 = (mem', Inr ())
     \<and> ReadU32 (gm_data mem') 0x3004 = 5 \<and> ReadU16 (gm_data mem') 0x3002 = 1"
proof -
  let ?m = "\<lparr>gm_data = (\<lambda>_. 0), gm_len = 0x10000\<rparr>"
  have u: "0 = ReadU16 (gm_data ?m) (unat (0x3000 :: u64) + 2)" by (simp add: ReadU16_def)
  have e: "(0x3004 :: nat) = unat (0x3000 :: u64) + 4 + 8 * (unat (0 :: u16) mod unat (8 :: u32))" by simp
  have ring: "unat (0x3000 :: u64) + 4 + 8 * unat (8 :: u32) \<le> unat (gm_len ?m)" by simp
  obtain mem' where "push_used_inline ?m 0x3000 8 5 64 = (mem', Inr ())" "ReadU32 (gm_data mem') 0x3004 = 5"
    "ReadU16 (gm_data mem') (unat (0x3000 :: u64) + 2) = 0 + 1"
    using push_used_publishes [OF ring _ u e, of 5 64] by auto
  then show ?thesis by simp
qed

end
