(* ===== verification/Queue_State.thy ===== *)
theory Queue_State
  imports Virtqueue
begin

unbundle bit_operations_syntax

text \<open>
  The state of one split virtqueue, the struct Queue that every virtio-mmio device keeps
  (native/whp/virtio/blk.h, rng.h, native/whp/backend.cc), and what publishing a used element
  does when the rings lie in guest RAM.
\<close>

text \<open>A queue as the driver programs it: its size, the ready bit, the next available entry and the
  guest addresses of the descriptor table and of the available (driver) and used (device) rings.\<close>

record vq =
  q_size :: u32
  q_ready :: bool
  q_last_avail :: u16
  q_desc_addr :: u64
  q_driver_addr :: u64
  q_device_addr :: u64

definition vq_ok :: "vq \<Rightarrow> bool" where
  "vq_ok q \<longleftrightarrow> 0 < q_size q \<and> q_size q \<le> kMaxQueueSize"

text \<open>The rings of a queue inside guest RAM, and the addresses of its used ring.\<close>

definition rings_in_ram :: "guest_memory \<Rightarrow> vq \<Rightarrow> bool" where
  "rings_in_ram mem q \<longleftrightarrow>
     unat (q_driver_addr q) + 4 + 2 * unat (q_size q) \<le> unat (gm_len mem) \<and>
     unat (q_device_addr q) + 4 + 8 * unat (q_size q) \<le> unat (gm_len mem)"

definition used_area :: "vq \<Rightarrow> nat set" where
  "used_area q = {unat (q_device_addr q) ..< unat (q_device_addr q) + 4 + 8 * unat (q_size q)}"

lemma ucast_len: "unat (ucast (n :: u32) :: u64) = unat n"
  by (simp add: unsigned_ucast_eq take_bit_nat_eq_self less_trans [OF unat_u32_less])

lemma gm_write_ptr_safe:
  "gm_ptr mem a n = Inr p \<Longrightarrow> length bs \<le> unat n \<Longrightarrow> same_outside mem (gm_write mem p bs)"
  by (intro same_outside_gm_write) (auto simp: gm_ptr_Inr)

lemma push_used_in_ram:
  assumes "rings_in_ram mem q" and "vq_ok q" and "gm_len m = gm_len mem"
  shows "snd (push_used_inline m (q_device_addr q) (q_size q) i w) = Inr ()"
  using push_used_ok [OF _ _ refl refl, of "q_device_addr q" "q_size q" m i w] assms
  by (simp add: rings_in_ram_def vq_ok_def)

lemma used_publish:
  assumes "rings_in_ram mem q" and "vq_ok q" and "gm_len m = gm_len mem"
  shows "\<exists>m'. push_used_inline m (q_device_addr q) (q_size q) i w = (m', Inr ())
    \<and> ReadU16 (gm_data m') (unat (q_device_addr q) + 2) = ReadU16 (gm_data m) (unat (q_device_addr q) + 2) + 1
    \<and> (\<forall>a. a \<notin> used_area q \<longrightarrow> gm_data m' a = gm_data m a)"
proof -
  let ?u = "ReadU16 (gm_data m) (unat (q_device_addr q) + 2)"
  have "unat ?u mod unat (q_size q) < unat (q_size q)"
    using assms(2) by (simp add: vq_ok_def word_less_nat_alt)
  then have sub: "{unat (q_device_addr q) + 4 + 8 * (unat ?u mod unat (q_size q)) ..<
      unat (q_device_addr q) + 4 + 8 * (unat ?u mod unat (q_size q)) + 8}
      \<union> {unat (q_device_addr q) + 2 ..< unat (q_device_addr q) + 4} \<subseteq> used_area q"
    unfolding used_area_def by (intro Un_least) auto
  have "unat (q_device_addr q) + 4 + 8 * unat (q_size q) \<le> unat (gm_len m)" and "0 < q_size q"
    using assms by (simp_all add: rings_in_ram_def vq_ok_def)
  from push_used_effect [OF this refl refl, of i w] obtain m' where m':
    "push_used_inline m (q_device_addr q) (q_size q) i w = (m', Inr ())"
    "ReadU16 (gm_data m') (unat (q_device_addr q) + 2) = ?u + 1"
    "\<forall>a. a \<notin> {unat (q_device_addr q) + 4 + 8 * (unat ?u mod unat (q_size q)) ..<
      unat (q_device_addr q) + 4 + 8 * (unat ?u mod unat (q_size q)) + 8}
      \<union> {unat (q_device_addr q) + 2 ..< unat (q_device_addr q) + 4} \<longrightarrow> gm_data m' a = gm_data m a" by blast
  from m'(3) sub have "\<forall>a. a \<notin> used_area q \<longrightarrow> gm_data m' a = gm_data m a" by (meson subsetD)
  with m'(1,2) show ?thesis by blast
qed

text \<open>The available ring: its index and the slot of an entry.\<close>

lemma avail_index_address:
  assumes "rings_in_ram mem q"
  shows "unat (q_driver_addr q + 2) = unat (q_driver_addr q) + 2"
proof -
  have "unat (q_driver_addr q) + unat (2 :: u64) < 2 ^ LENGTH(64)"
    using assms unat_u64_less [of "gm_len mem"] by (simp add: rings_in_ram_def)
  from unat_add_no_wrap [OF this] show ?thesis by simp
qed

lemma avail_slot_address:
  assumes "rings_in_ram mem q" and "vq_ok q"
  shows "unat (q_driver_addr q + 4 + ucast (ucast (la :: u16) mod q_size q) * 2 :: u64)
      = unat (q_driver_addr q) + 4 + 2 * (unat la mod unat (q_size q))"
    and "unat (q_driver_addr q) + 4 + 2 * (unat la mod unat (q_size q)) + 2 \<le> unat (gm_len mem)"
proof -
  have pos: "0 < unat (q_size q)" using assms(2) by (simp add: vq_ok_def word_less_nat_alt)
  have m: "unat (ucast (ucast la mod q_size q) :: u64) = unat la mod unat (q_size q)"
    by (simp add: ucast_len unat_mod ucast_index)
  have "unat la mod unat (q_size q) < unat (q_size q)" using pos by simp
  then show room: "unat (q_driver_addr q) + 4 + 2 * (unat la mod unat (q_size q)) + 2 \<le> unat (gm_len mem)"
    using assms(1) unfolding rings_in_ram_def by linarith
  then show "unat (q_driver_addr q + 4 + ucast (ucast la mod q_size q) * 2 :: u64)
      = unat (q_driver_addr q) + 4 + 2 * (unat la mod unat (q_size q))"
    using unat_u64_less [of "gm_len mem"] by (simp add: unat_word_ariths m mult.commute)
qed

text \<open>Bytes stored away from the used ring leave its index as it was.\<close>
lemma used_index_apart:
  assumes "bs \<noteq> []" and "{p ..< p + length bs} \<inter> used_area q = {}"
  shows "ReadU16 (gm_data (gm_write mem p bs)) (unat (q_device_addr q) + 2) = ReadU16 (gm_data mem) (unat (q_device_addr q) + 2)"
proof -
  have "unat (q_device_addr q) + 4 \<le> p \<or> p + length bs \<le> unat (q_device_addr q)"
  proof (rule ccontr)
    assume "\<not> ?thesis"
    then have "max p (unat (q_device_addr q)) \<in> {p ..< p + length bs} \<inter> used_area q"
      using assms(1) by (auto simp: used_area_def max_def)
    then show False using assms(2) by blast
  qed
  then show ?thesis by (auto simp: gm_write_def intro!: cell16.load_memcpy_disjoint)
qed

end
