(* ===== verification/Block_Disk.thy ===== *)
theory Block_Disk
  imports Bytes
begin

unbundle bit_operations_syntax

text \<open>
  The disk behind virtio-blk: positioned file I/O (native/whp/win_io.h) and the copy-on-write
  overlay of native/whp/virtio/blk.cc (sector_dirty to WriteDisk). The Win32 file calls are
  the fields of \<open>file_api\<close>, an argument of every definition that reaches them: the position of
  the handle is explicit, \<open>None\<close> is a failed call, and \<open>contents\<close> reads a handle's file off.
  \<open>api_reliable\<close> states their documented behaviour. A throwing operation returns the state it
  leaves behind next to the error.
\<close>

record 'f file_api =
  SetFilePointerEx :: "'f \<Rightarrow> u64 \<Rightarrow> bool"
  ReadFile :: "'f \<Rightarrow> nat \<Rightarrow> nat \<Rightarrow> bytes option"
  WriteFile :: "'f \<Rightarrow> nat \<Rightarrow> bytes \<Rightarrow> (nat \<times> 'f) option"
  FlushFileBuffers :: "'f \<Rightarrow> bool"

section \<open>Positioned reads and writes\<close>

text \<open>The bytes that PreadAll has stored at its destination, and whether it threw.\<close>

function pread_loop :: "'f file_api \<Rightarrow> 'f \<Rightarrow> nat \<Rightarrow> nat \<Rightarrow> nat \<Rightarrow> bytes \<Rightarrow> bytes \<times> unit result" where
  "pread_loop api f pos len ndone dst =
    (if ndone < len
     then let want = min (len - ndone) 1048576
          in case ReadFile api f (pos + ndone) want of
               None \<Rightarrow> (dst, Inl ''read disk failed: '')
             | Some got \<Rightarrow> if length got = 0 then (dst, Inl ''short disk read'')
                           else pread_loop api f pos len (ndone + length got) (dst @ got)
     else (dst, Inr ()))"
  by pat_completeness auto

termination
  by (relation "measure (\<lambda>(_, _, _, len, ndone, _). len - ndone)") (auto simp: neq_Nil_conv)

declare pread_loop.simps [simp del]

definition PreadAll :: "'f file_api \<Rightarrow> 'f \<Rightarrow> nat \<Rightarrow> u64 \<Rightarrow> bytes \<times> unit result" where
  "PreadAll api f len off =
    (if \<not> SetFilePointerEx api f off then ([], Inl ''seek disk read failed: '')
     else pread_loop api f (unat off) len 0 [])"

function pwrite_loop :: "'f file_api \<Rightarrow> 'f \<Rightarrow> bytes \<Rightarrow> nat \<Rightarrow> nat \<Rightarrow> 'f \<times> unit result" where
  "pwrite_loop api f src pos ndone =
    (if ndone < length src
     then let want = min (length src - ndone) 1048576
          in case WriteFile api f (pos + ndone) (take want (drop ndone src)) of
               None \<Rightarrow> (f, Inl ''write disk failed: '')
             | Some (wrote, f') \<Rightarrow> if wrote = 0 then (f', Inl ''short disk write'')
                                   else pwrite_loop api f' src pos (ndone + wrote)
     else (f, Inr ()))"
  by pat_completeness auto

termination
  by (relation "measure (\<lambda>(_, _, src, _, ndone). length src - ndone)") auto

declare pwrite_loop.simps [simp del]

definition PwriteAll :: "'f file_api \<Rightarrow> 'f \<Rightarrow> bytes \<Rightarrow> u64 \<Rightarrow> 'f \<times> unit result" where
  "PwriteAll api f src off =
    (if \<not> SetFilePointerEx api f off then (f, Inl ''seek disk write failed: '')
     else pwrite_loop api f src (unat off) 0)"

section \<open>The overlay\<close>

record 'f vdisk =
  vd_base :: 'f
  vd_overlay :: "'f option"
  vd_dirty :: "u8 list"
  vd_disk_bytes :: u64
  vd_sectors :: u64
  vd_read_only :: bool

definition has_overlay :: "'f vdisk \<Rightarrow> bool" where
  "has_overlay d \<longleftrightarrow> vd_overlay d \<noteq> None"

definition write_handle :: "'f vdisk \<Rightarrow> 'f" where
  "write_handle d = (case vd_overlay d of Some f \<Rightarrow> f | None \<Rightarrow> vd_base d)"

definition set_write_handle :: "'f vdisk \<Rightarrow> 'f \<Rightarrow> 'f vdisk" where
  "set_write_handle d f =
    (case vd_overlay d of Some _ \<Rightarrow> d\<lparr>vd_overlay := Some f\<rparr> | None \<Rightarrow> d\<lparr>vd_base := f\<rparr>)"

definition sector_dirty :: "'f vdisk \<Rightarrow> u64 \<Rightarrow> bool" where
  "sector_dirty d sector =
    (if \<not> has_overlay d \<or> vd_sectors d \<le> sector then False
     else vd_dirty d ! unat (sector div 8) AND push_bit (unat (sector mod 8)) 1 \<noteq> 0)"

definition mark_dirty :: "'f vdisk \<Rightarrow> u64 \<Rightarrow> 'f vdisk" where
  "mark_dirty d sector =
    (if \<not> has_overlay d \<or> vd_sectors d \<le> sector then d
     else let i = unat (sector div 8)
          in d\<lparr>vd_dirty := (vd_dirty d)[i := vd_dirty d ! i OR push_bit (unat (sector mod 8)) 1]\<rparr>)"

definition mark_dirty_range :: "'f vdisk \<Rightarrow> u64 \<Rightarrow> u64 \<Rightarrow> 'f vdisk" where
  "mark_dirty_range d byte_off len =
    (if \<not> has_overlay d \<or> len = 0 then d
     else let first = byte_off div 512; last' = (byte_off + len - 1) div 512
          in fold (\<lambda>sector d. mark_dirty d (of_nat sector)) [unat first ..< unat last' + 1] d)"

fun prepare_sectors ::
  "'f file_api \<Rightarrow> u64 \<Rightarrow> u64 \<Rightarrow> nat list \<Rightarrow> 'f vdisk \<Rightarrow> 'f vdisk \<times> unit result" where
  "prepare_sectors api byte_off end' [] d = (d, Inr ())"
| "prepare_sectors api byte_off end' (s # ss) d =
    (let sector = of_nat s :: u64; sector_start = sector * 512;
         covers_full_sector = (byte_off \<le> sector_start \<and> sector_start + 512 \<le> end')
     in if covers_full_sector \<or> sector_dirty d sector then prepare_sectors api byte_off end' ss d
        else case PreadAll api (vd_base d) 512 sector_start of
          (_, Inl e) \<Rightarrow> (d, Inl e)
        | (buf, Inr _) \<Rightarrow>
            (case PwriteAll api (the (vd_overlay d)) buf sector_start of
               (f, Inl e) \<Rightarrow> (d\<lparr>vd_overlay := Some f\<rparr>, Inl e)
             | (f, Inr _) \<Rightarrow> prepare_sectors api byte_off end' ss (d\<lparr>vd_overlay := Some f\<rparr>)))"

definition prepare_partial_overlay_sectors ::
  "'f file_api \<Rightarrow> 'f vdisk \<Rightarrow> u64 \<Rightarrow> u64 \<Rightarrow> 'f vdisk \<times> unit result" where
  "prepare_partial_overlay_sectors api d byte_off len =
    (if \<not> has_overlay d \<or> len = 0 then (d, Inr ())
     else case rbind (CheckRange (vd_disk_bytes d) byte_off len ''virtio-blk overlay prepare'') (\<lambda>_.
            CheckedAdd byte_off len ''virtio-blk overlay range'') of
       Inl e \<Rightarrow> (d, Inl e)
     | Inr end' \<Rightarrow> let first = byte_off div 512; last' = (end' - 1) div 512
        in prepare_sectors api byte_off end' [unat first ..< unat last' + 1] d)"

function read_chunks :: "'f file_api \<Rightarrow> 'f vdisk \<Rightarrow> u64 \<Rightarrow> nat \<Rightarrow> nat \<Rightarrow> bytes \<Rightarrow> bytes \<times> unit result" where
  "read_chunks api d byte_off len ndone dst =
    (if ndone < len
     then let current_byte = byte_off + of_nat ndone; current_sector = current_byte div 512;
              in_sector = unat (current_byte mod 512);
              chunk = min (len - ndone) (512 - in_sector);
              file = (if sector_dirty d current_sector then the (vd_overlay d) else vd_base d)
          in case PreadAll api file chunk current_byte of
               (bs, Inl e) \<Rightarrow> (dst @ bs, Inl e)
             | (bs, Inr _) \<Rightarrow> read_chunks api d byte_off len (ndone + chunk) (dst @ bs)
     else (dst, Inr ()))"
  by pat_completeness auto

termination
proof (relation "measure (\<lambda>(_, _, _, len, ndone, _). len - ndone)", goal_cases)
  case (2 api d byte_off len ndone dst cb cs in_s chunk)
  have "unat (cb mod 512) < 512" by (simp add: unat_mod)
  with 2 show ?case by simp
qed simp

declare read_chunks.simps [simp del]

definition ReadDisk :: "'f file_api \<Rightarrow> 'f vdisk \<Rightarrow> u64 \<Rightarrow> u64 \<Rightarrow> bytes \<times> unit result" where
  "ReadDisk api d sector len =
    (case CheckedMul sector 512 ''virtio-blk read offset'' of Inl e \<Rightarrow> ([], Inl e) | Inr byte_off \<Rightarrow>
     case CheckRange (vd_disk_bytes d) byte_off len ''virtio-blk read'' of Inl e \<Rightarrow> ([], Inl e) | Inr _ \<Rightarrow>
     if \<not> has_overlay d then PreadAll api (vd_base d) (unat len) byte_off
     else read_chunks api d byte_off (unat len) 0 [])"

definition WriteDisk :: "'f file_api \<Rightarrow> 'f vdisk \<Rightarrow> u64 \<Rightarrow> bytes \<Rightarrow> 'f vdisk \<times> unit result" where
  "WriteDisk api d sector src =
    (let len = of_nat (length src) :: u64
     in case rbind (Check (\<not> vd_read_only d) ''virtio-blk write to read-only disk'') (\<lambda>_.
             rbind (CheckedMul sector 512 ''virtio-blk write offset'') (\<lambda>byte_off.
             rbind (CheckRange (vd_disk_bytes d) byte_off len ''virtio-blk write'') (\<lambda>_. Inr byte_off))) of
          Inl e \<Rightarrow> (d, Inl e)
        | Inr byte_off \<Rightarrow>
           (case prepare_partial_overlay_sectors api d byte_off len of
              (d, Inl e) \<Rightarrow> (d, Inl e)
            | (d, Inr _) \<Rightarrow>
               (case PwriteAll api (write_handle d) src byte_off of
                  (f, Inl e) \<Rightarrow> (set_write_handle d f, Inl e)
                | (f, Inr _) \<Rightarrow> (mark_dirty_range (set_write_handle d f) byte_off len, Inr ()))))"

text \<open>Opening the disk, in the constructor of VirtioBlk. CreateFileA (for the image, with write
  access or not, and for a fresh overlay), GetFileSizeEx, MarkFileSparse and TruncateFileTo are
  host services: fields of \<open>open_api\<close>, \<open>None\<close> and \<open>False\<close> for a failed call.\<close>

record 'f open_api =
  open_existing :: "string \<Rightarrow> bool \<Rightarrow> 'f option"
  create_always :: "string \<Rightarrow> 'f option"
  file_size :: "'f \<Rightarrow> int option"
  mark_sparse :: "'f \<Rightarrow> bool"
  truncate_to :: "'f \<Rightarrow> u64 \<Rightarrow> 'f option"

definition require :: "'a option \<Rightarrow> string \<Rightarrow> 'a result" where
  "require x message = (case x of Some a \<Rightarrow> Inr a | None \<Rightarrow> Inl message)"

definition VirtioBlk_open :: "'f open_api \<Rightarrow> string \<Rightarrow> string \<Rightarrow> bool \<Rightarrow> 'f vdisk result" where
  "VirtioBlk_open os path overlay_path read_only =
    (let overlay = (overlay_path \<noteq> [])
     in rbind (Check (\<not> (read_only \<and> overlay)) ''read-only disk cannot use an overlay'') (\<lambda>_.
        rbind (require (open_existing os path (\<not> (overlay \<or> read_only))) (''open rootfs '' @ path @ '' failed: '')) (\<lambda>base.
        rbind (require (file_size os base) (''stat rootfs '' @ path @ '' failed: '')) (\<lambda>n.
        rbind (Check (0 \<le> n) (''negative rootfs size: '' @ path)) (\<lambda>_.
        let disk_bytes = of_int n; sectors = disk_bytes div 512;
            d = \<lparr>vd_base = base, vd_overlay = None, vd_dirty = [], vd_disk_bytes = disk_bytes,
                 vd_sectors = sectors, vd_read_only = read_only\<rparr>
        in if overlay
           then rbind (Check (overlay_path \<noteq> path) ''overlayPath must not equal rootfsPath'') (\<lambda>_.
                rbind (require (create_always os overlay_path) (''open overlay '' @ overlay_path @ '' failed: '')) (\<lambda>f.
                rbind (Check (mark_sparse os f) ''mark overlay sparse failed: '') (\<lambda>_.
                rbind (require (truncate_to os f disk_bytes) ''truncate overlay failed: '') (\<lambda>f.
                Inr (d\<lparr>vd_overlay := Some f, vd_dirty := replicate (unat ((sectors + 7) div 8)) 0\<rparr>)))))
           else Inr d)))))"

section \<open>What the file calls are relied on for\<close>

definition api_reliable :: "'f file_api \<Rightarrow> ('f \<Rightarrow> bytes) \<Rightarrow> bool" where
  "api_reliable api contents \<longleftrightarrow>
    (\<forall>f off. unat off < 2 ^ 63 \<longrightarrow> SetFilePointerEx api f off) \<and>
    (\<forall>f pos want. 0 < want \<and> pos < length (contents f) \<longrightarrow>
       (\<exists>n. 0 < n \<and> n \<le> want \<and> pos + n \<le> length (contents f) \<and>
          ReadFile api f pos want = Some (take n (drop pos (contents f))))) \<and>
    (\<forall>f pos bs. bs \<noteq> [] \<and> pos + length bs \<le> length (contents f) \<longrightarrow>
       (\<exists>n f'. 0 < n \<and> n \<le> length bs \<and> WriteFile api f pos bs = Some (n, f') \<and>
          contents f' = buf_put (contents f) pos (take n bs)))"

lemma api_read:
  assumes "api_reliable api contents" and "0 < want" and "pos < length (contents f)"
  obtains n where "0 < n" "n \<le> want" "pos + n \<le> length (contents f)"
    "ReadFile api f pos want = Some (take n (drop pos (contents f)))"
  using assms unfolding api_reliable_def by metis

lemma api_write:
  assumes "api_reliable api contents" and "bs \<noteq> []" and "pos + length bs \<le> length (contents f)"
  obtains n f' where "0 < n" "n \<le> length bs" "WriteFile api f pos bs = Some (n, f')"
    "contents f' = buf_put (contents f) pos (take n bs)"
  using assms unfolding api_reliable_def by metis

lemma pread_loop_ok:
  assumes api: "api_reliable api contents" and len: "pos + len \<le> length (contents f)"
    and "ndone \<le> len" and "dst = take ndone (drop pos (contents f))"
  shows "pread_loop api f pos len ndone dst = (take len (drop pos (contents f)), Inr ())"
  using assms(3,4)
proof (induction "len - ndone" arbitrary: ndone dst rule: less_induct)
  case less
  show ?case
  proof (cases "ndone < len")
    case True
    obtain n where n: "0 < n" "n \<le> min (len - ndone) 1048576"
      "ReadFile api f (pos + ndone) (min (len - ndone) 1048576) = Some (take n (drop (pos + ndone) (contents f)))"
      "pos + ndone + n \<le> length (contents f)"
      using api_read [OF api, of "min (len - ndone) 1048576" "pos + ndone" f] True len by auto
    have "dst @ take n (drop (pos + ndone) (contents f)) = take (ndone + n) (drop pos (contents f))"
      using take_add [of ndone n "drop pos (contents f)"] by (simp add: less.prems(2) add.commute)
    with True n less.prems len less.hyps [of "ndone + n" "dst @ take n (drop (pos + ndone) (contents f))"]
    show ?thesis by (subst pread_loop.simps) (auto simp: Let_def)
  next
    case False
    with less.prems show ?thesis by (subst pread_loop.simps) simp
  qed
qed

lemma PreadAll_ok:
  assumes "api_reliable api contents" and "unat off + len \<le> length (contents f)" and "unat off < 2 ^ 63"
  shows "PreadAll api f len off = (take len (drop (unat off) (contents f)), Inr ())"
  using assms pread_loop_ok [OF assms(1,2), of 0 "[]"] by (simp add: PreadAll_def api_reliable_def)

lemma buf_put_two:
  assumes "pos + length (xs @ ys) \<le> length c"
  shows "buf_put (buf_put c pos xs) (pos + length xs) ys = buf_put c pos (xs @ ys)"
  using assms by (intro nth_equalityI) (auto simp: nth_buf_put nth_append)

lemma pwrite_loop_ok:
  assumes api: "api_reliable api contents" and len: "pos + length src \<le> length c"
    and "ndone \<le> length src" and "contents f = buf_put c pos (take ndone src)"
  shows "\<exists>f'. pwrite_loop api f src pos ndone = (f', Inr ()) \<and> contents f' = buf_put c pos src"
  using assms(3,4)
proof (induction "length src - ndone" arbitrary: ndone f rule: less_induct)
  case less
  show ?case
  proof (cases "ndone < length src")
    case True
    let ?bs = "take (min (length src - ndone) 1048576) (drop ndone src)"
    have lenf: "length (contents f) = length c" using less.prems len by simp
    obtain n f' where n: "0 < n" "n \<le> length ?bs" "WriteFile api f (pos + ndone) ?bs = Some (n, f')"
      "contents f' = buf_put (contents f) (pos + ndone) (take n ?bs)"
    proof (rule api_write [OF api, of ?bs "pos + ndone" f])
      show "?bs \<noteq> []" using True by simp
      show "pos + ndone + length ?bs \<le> length (contents f)" using True len lenf by simp
    qed
    have "n \<le> min (length src - ndone) 1048576" and nsrc: "ndone + n \<le> length src" using n(2) True by auto
    then have "take n ?bs = take n (drop ndone src)" by (simp add: min_absorb1)
    moreover have "buf_put (buf_put c pos (take ndone src)) (pos + ndone) (take n (drop ndone src))
        = buf_put c pos (take ndone src @ take n (drop ndone src))"
      using buf_put_two [of pos "take ndone src" "take n (drop ndone src)" c] nsrc len by simp
    ultimately have "contents f' = buf_put c pos (take (ndone + n) src)"
      using n(4) less.prems(2) by (simp add: take_add)
    with True n less.hyps [of "ndone + n" f'] show ?thesis
      by (subst pwrite_loop.simps) (auto simp: Let_def)
  next
    case False
    with less.prems show ?thesis by (subst pwrite_loop.simps) simp
  qed
qed

lemma PwriteAll_ok:
  assumes "api_reliable api contents" and "unat off + length src \<le> length (contents f)" and "unat off < 2 ^ 63"
  shows "\<exists>f'. PwriteAll api f src off = (f', Inr ()) \<and> contents f' = buf_put (contents f) (unat off) src"
  using assms pwrite_loop_ok [OF assms(1,2), of 0 f] by (simp add: PwriteAll_def api_reliable_def buf_put_def)

section \<open>What holds for every host\<close>

text \<open>ReadFile never returns more bytes than asked for; nothing else is assumed here.\<close>

definition api_bounded :: "'f file_api \<Rightarrow> bool" where
  "api_bounded api \<longleftrightarrow> (\<forall>f pos want bs. ReadFile api f pos want = Some bs \<longrightarrow> length bs \<le> want)"

lemma pread_loop_bounded:
  "\<lbrakk>api_bounded api; length dst = ndone; ndone \<le> len\<rbrakk> \<Longrightarrow> length (fst (pread_loop api f pos len ndone dst)) \<le> len"
proof (induction api f pos len ndone dst rule: pread_loop.induct)
  case (1 api f pos len ndone dst)
  show ?case
  proof (cases "ndone < len")
    case True
    let ?w = "min (len - ndone) 1048576"
    show ?thesis
    proof (cases "ReadFile api f (pos + ndone) ?w")
      case (Some got)
      then have "length got \<le> ?w" using "1.prems"(1) unfolding api_bounded_def by blast
      with Some True "1.prems" "1.IH" [OF True refl Some] show ?thesis
        by (subst pread_loop.simps) (auto simp: Let_def)
    qed (use True "1.prems" in \<open>subst pread_loop.simps, simp\<close>)
  qed (use "1.prems" in \<open>subst pread_loop.simps, simp\<close>)
qed

lemma PreadAll_bounded: "api_bounded api \<Longrightarrow> length (fst (PreadAll api f len off)) \<le> len"
  using pread_loop_bounded [of api "[]" 0 len f "unat off"] by (simp add: PreadAll_def)

lemma read_chunks_bounded:
  "\<lbrakk>api_bounded api; length dst \<le> ndone; ndone \<le> len\<rbrakk> \<Longrightarrow> length (fst (read_chunks api d off len ndone dst)) \<le> len"
proof (induction api d off len ndone dst rule: read_chunks.induct)
  case (1 api d off len ndone dst)
  show ?case
  proof (cases "ndone < len")
    case True
    let ?cb = "off + of_nat ndone"
    let ?n = "min (len - ndone) (512 - unat (?cb mod 512))"
    let ?f = "if sector_dirty d (?cb div 512) then the (vd_overlay d) else vd_base d"
    obtain bs r where r: "PreadAll api ?f ?n ?cb = (bs, r)" by (cases "PreadAll api ?f ?n ?cb")
    have "length bs \<le> ?n" using PreadAll_bounded [OF "1.prems"(1), of ?f ?n ?cb] r by simp
    with r True "1.prems" "1.IH" [OF True refl refl refl refl refl r [symmetric]] show ?thesis
      by (subst read_chunks.simps) (auto simp: Let_def split: sum.splits)
  qed (use "1.prems" in \<open>subst read_chunks.simps, simp\<close>)
qed

lemma ReadDisk_bounded: "api_bounded api \<Longrightarrow> length (fst (ReadDisk api d s n)) \<le> unat n"
  by (auto simp: ReadDisk_def PreadAll_bounded read_chunks_bounded split: sum.splits)

text \<open>A write never reaches the base image under an overlay, nor anything of a read-only disk.\<close>

definition disk_protected :: "'f vdisk \<Rightarrow> 'f vdisk \<Rightarrow> bool" where
  "disk_protected d d' \<longleftrightarrow> has_overlay d' = has_overlay d \<and> vd_read_only d' = vd_read_only d
     \<and> vd_disk_bytes d' = vd_disk_bytes d \<and> (has_overlay d \<longrightarrow> vd_base d' = vd_base d) \<and> (vd_read_only d \<longrightarrow> d' = d)"

lemma disk_protected_refl [simp]: "disk_protected d d"
  by (simp add: disk_protected_def)

lemma disk_protected_trans: "disk_protected a b \<Longrightarrow> disk_protected b c \<Longrightarrow> disk_protected a c"
  by (auto simp: disk_protected_def)

lemma prepare_sectors_protected:
  "has_overlay d \<Longrightarrow> \<not> vd_read_only d \<Longrightarrow> disk_protected d (fst (prepare_sectors api off e ss d))"
proof (induction ss arbitrary: d)
  case (Cons s ss)
  have upd: "disk_protected d (d\<lparr>vd_overlay := Some f\<rparr>)" for f
    using Cons.prems by (simp add: disk_protected_def has_overlay_def)
  have "disk_protected d (fst (prepare_sectors api off e ss (d\<lparr>vd_overlay := Some f\<rparr>)))" for f
    using Cons.IH [of "d\<lparr>vd_overlay := Some f\<rparr>"] Cons.prems upd [of f] disk_protected_trans
    by (fastforce simp: has_overlay_def)
  then show ?case using Cons upd by (simp add: Let_def split: prod.splits sum.splits)
qed simp

lemma mark_fold_frame:
  "vd_base (fold (\<lambda>s d. mark_dirty d (of_nat s)) xs d) = vd_base d"
  "vd_overlay (fold (\<lambda>s d. mark_dirty d (of_nat s)) xs d) = vd_overlay d"
  "vd_disk_bytes (fold (\<lambda>s d. mark_dirty d (of_nat s)) xs d) = vd_disk_bytes d"
  "vd_read_only (fold (\<lambda>s d. mark_dirty d (of_nat s)) xs d) = vd_read_only d"
  by (induction xs arbitrary: d) (auto simp: mark_dirty_def Let_def)

lemma WriteDisk_protected: "disk_protected d (fst (WriteDisk api d s src))"
proof (cases "vd_read_only d")
  case False
  have set: "disk_protected x (set_write_handle x f)" if "\<not> vd_read_only x" for x f
    using that by (auto simp: disk_protected_def set_write_handle_def has_overlay_def split: option.splits)
  have mark: "disk_protected x (mark_dirty_range x a n)" if "\<not> vd_read_only x" for x a n
    using that by (simp add: disk_protected_def mark_dirty_range_def has_overlay_def Let_def mark_fold_frame del: upt_Suc)
  have "disk_protected d (fst (prepare_partial_overlay_sectors api d a n))" for a n
    using prepare_sectors_protected [of d api] False
    by (auto simp: prepare_partial_overlay_sectors_def Let_def split: sum.splits)
  then have prep: "prepare_partial_overlay_sectors api d a n = (x, r) \<Longrightarrow> disk_protected d x" for a n x r
    by (metis fst_conv)
  have fin: "disk_protected d (mark_dirty_range (set_write_handle x f) a n)" "disk_protected d (set_write_handle x f)"
    if "disk_protected d x" for x f a n
    using that False set mark disk_protected_trans by (metis disk_protected_def)+
  show ?thesis
    by (auto simp: WriteDisk_def Let_def split: sum.splits prod.splits intro: fin dest: prep)
qed (simp add: WriteDisk_def Let_def)

section \<open>The disk as one array of bytes\<close>

text \<open>The guest's disk is the overlay where a sector is dirty and the base image elsewhere.\<close>

definition disk_view :: "('f \<Rightarrow> bytes) \<Rightarrow> 'f vdisk \<Rightarrow> bytes" where
  "disk_view contents d = map (\<lambda>i. if sector_dirty d (of_nat (i div 512))
     then contents (the (vd_overlay d)) ! i else contents (vd_base d) ! i) [0 ..< unat (vd_disk_bytes d)]"

definition disk_ok :: "('f \<Rightarrow> bytes) \<Rightarrow> 'f vdisk \<Rightarrow> bool" where
  "disk_ok contents d \<longleftrightarrow>
     unat (vd_disk_bytes d) < 2 ^ 63 \<and> vd_sectors d = vd_disk_bytes d div 512 \<and>
     length (contents (vd_base d)) = unat (vd_disk_bytes d) \<and>
     (\<forall>f. vd_overlay d = Some f \<longrightarrow> length (contents f) = unat (vd_disk_bytes d) \<and>
        8 * length (vd_dirty d) \<ge> unat (vd_sectors d) \<and> \<not> vd_read_only d)"

lemma length_disk_view [simp]: "length (disk_view contents d) = unat (vd_disk_bytes d)"
  by (simp add: disk_view_def)

lemma nth_disk_view: "i < unat (vd_disk_bytes d) \<Longrightarrow> disk_view contents d ! i =
    (if sector_dirty d (of_nat (i div 512)) then contents (the (vd_overlay d)) ! i else contents (vd_base d) ! i)"
  by (simp add: disk_view_def)

lemma sector_dirty_overlay: "sector_dirty d s \<Longrightarrow> \<exists>f. vd_overlay d = Some f"
  by (auto simp: sector_dirty_def has_overlay_def split: if_splits)

lemma disk_view_no_overlay:
  "disk_ok contents d \<Longrightarrow> \<not> has_overlay d \<Longrightarrow> disk_view contents d = contents (vd_base d)"
  by (intro nth_equalityI) (auto simp: nth_disk_view disk_ok_def sector_dirty_def)

text \<open>The file a sector is read from holds the view of that sector.\<close>

lemma sector_file_view:
  assumes ok: "disk_ok contents d" and s: "a div 512 = s" "(a + n - 1) div 512 = s"
    and n: "a + n \<le> unat (vd_disk_bytes d)"
    and f: "f = (if sector_dirty d (of_nat s) then the (vd_overlay d) else vd_base d)"
  shows "take n (drop a (contents f)) = take n (drop a (disk_view contents d))" and "length (contents f) = unat (vd_disk_bytes d)"
proof -
  show len: "length (contents f) = unat (vd_disk_bytes d)"
    using ok sector_dirty_overlay [of d "of_nat s"] by (auto simp: disk_ok_def f)
  have "contents f ! (a + i) = disk_view contents d ! (a + i)" if "i < n" for i
  proof -
    have "a div 512 \<le> (a + i) div 512" "(a + i) div 512 \<le> (a + n - 1) div 512"
      using that by (auto intro: div_le_mono)
    then have "(a + i) div 512 = s" using s by simp
    then show ?thesis using that n by (simp add: nth_disk_view f)
  qed
  then show "take n (drop a (contents f)) = take n (drop a (disk_view contents d))"
    using n len by (intro nth_equalityI) auto
qed

lemma unat_div_512: "unat ((w :: u64) div 512) = unat w div 512" "unat (w mod 512) = unat w mod 512"
  by (simp_all add: unat_div unat_mod)

lemma chunk_in_sector:
  assumes "0 < n" and "n \<le> 512 - a mod 512"
  shows "(a + n - 1) div 512 = a div (512 :: nat)"
proof -
  have "a mod 512 + (n - 1) < 512" using assms mod_less_divisor [of 512 a] by linarith
  moreover have "a + n - 1 = 512 * (a div 512) + (a mod 512 + (n - 1))" using assms(1) by simp
  ultimately show ?thesis by (simp only: div_mult_self4 div_less)
qed

lemma read_chunks_ok:
  assumes api: "api_reliable api contents" and ok: "disk_ok contents d"
    and range: "unat byte_off + len \<le> unat (vd_disk_bytes d)"
    and "ndone \<le> len" and "dst = take ndone (drop (unat byte_off) (disk_view contents d))"
  shows "read_chunks api d byte_off len ndone dst = (take len (drop (unat byte_off) (disk_view contents d)), Inr ())"
  using assms(4,5)
proof (induction "len - ndone" arbitrary: ndone dst rule: less_induct)
  case less
  show ?case
  proof (cases "ndone < len")
    case True
    let ?a = "unat byte_off + ndone"
    let ?n = "min (len - ndone) (512 - ?a mod 512)"
    let ?f = "if sector_dirty d (of_nat (?a div 512)) then the (vd_overlay d) else vd_base d"
    have big: "unat (vd_disk_bytes d) < 2 ^ 63" using ok by (simp add: disk_ok_def)
    have nd: "unat (of_nat ndone :: u64) = ndone" using True range big by (intro unat_of_nat_u64) simp
    have "?a < 2 ^ LENGTH(64)" using True range big by simp
    then have a: "unat (byte_off + of_nat ndone) = ?a" by (subst unat_add_no_wrap) (simp_all only: nd)
    have "?a div 512 < 18446744073709551616" using \<open>?a < 2 ^ LENGTH(64)\<close> by simp
    then have sec: "(byte_off + of_nat ndone) div 512 = of_nat (?a div 512)"
      by (simp only: word_unat_eq_iff unat_div_512 a unat_of_nat_u64)
    have n: "0 < ?n" "?n \<le> 512 - ?a mod 512" "?a + ?n \<le> unat (vd_disk_bytes d)" using True range by auto
    note sf = sector_file_view [OF ok refl chunk_in_sector [OF n(1,2)] n(3) refl]
    have pread: "PreadAll api ?f ?n (byte_off + of_nat ndone) = (take ?n (drop ?a (disk_view contents d)), Inr ())"
    proof -
      have "unat (byte_off + of_nat ndone) + ?n \<le> length (contents ?f)" "unat (byte_off + of_nat ndone) < 2 ^ 63"
        using n(1,3) big unfolding a sf(2) by linarith+
      from PreadAll_ok [OF api this] show ?thesis by (simp only: a sf(1))
    qed
    have "dst @ take ?n (drop ?a (disk_view contents d)) = take (ndone + ?n) (drop (unat byte_off) (disk_view contents d))"
      using take_add [of ndone ?n "drop (unat byte_off) (disk_view contents d)"] by (simp add: less.prems(2) add.commute)
    then have "read_chunks api d byte_off len (ndone + ?n) (dst @ take ?n (drop ?a (disk_view contents d)))
        = (take len (drop (unat byte_off) (disk_view contents d)), Inr ())"
      using True n(1) by (intro less.hyps) auto
    then show ?thesis using True pread
      by (subst read_chunks.simps) (simp add: Let_def sec unat_div_512 a)
  next
    case False
    with less.prems show ?thesis by (subst read_chunks.simps) simp
  qed
qed

lemma CheckedMul_512:
  "unat s * 512 < 2 ^ 64 \<Longrightarrow> CheckedMul s 512 w = Inr (s * 512) \<and> unat (s * 512) = unat s * 512"
  by (simp add: CheckedMul_Inr unat_word_ariths)

lemma ReadDisk_view:
  assumes api: "api_reliable api contents" and ok: "disk_ok contents d"
    and range: "unat sector * 512 + unat len \<le> unat (vd_disk_bytes d)"
  shows "ReadDisk api d sector len = (take (unat len) (drop (unat sector * 512) (disk_view contents d)), Inr ())"
proof -
  have big: "unat (vd_disk_bytes d) < 2 ^ 63" using ok by (simp add: disk_ok_def)
  then have m: "CheckedMul sector 512 w = Inr (sector * 512)" "unat (sector * 512) = unat sector * 512" for w
    using range CheckedMul_512 [of sector] by simp_all
  show ?thesis
    using range big PreadAll_ok [OF api, of "sector * 512" "unat len" "vd_base d"] ok
      read_chunks_ok [OF api ok, of "sector * 512" "unat len" 0 "[]"] disk_view_no_overlay [OF ok]
    by (simp add: ReadDisk_def m CheckRange_cases) (simp add: disk_ok_def)
qed

lemma ReadDisk_bad:
  assumes "unat (vd_disk_bytes d) < unat sector * 512 + unat len"
  shows "\<exists>e. ReadDisk api d sector len = ([], Inl e)"
proof (cases "CheckedMul sector 512 ''virtio-blk read offset''")
  case (Inr b)
  then have "b = sector * 512" "unat b = unat sector * 512"
    using CheckedMul_512 [of sector] by (simp_all add: CheckedMul_Inr)
  with assms Inr show ?thesis by (simp add: ReadDisk_def CheckRange_cases)
qed (simp add: ReadDisk_def)

section \<open>Writes\<close>

lemma byte_bit: "(b :: u8) AND push_bit k 1 \<noteq> 0 \<longleftrightarrow> bit b k"
  by (simp add: and_exp_eq_0_iff_not_bit push_bit_eq_mult)

lemma mark_dirty_frame [simp]:
  "vd_base (mark_dirty d s) = vd_base d" "vd_overlay (mark_dirty d s) = vd_overlay d"
  "vd_disk_bytes (mark_dirty d s) = vd_disk_bytes d" "vd_sectors (mark_dirty d s) = vd_sectors d"
  "vd_read_only (mark_dirty d s) = vd_read_only d" "length (vd_dirty (mark_dirty d s)) = length (vd_dirty d)"
  by (simp_all add: mark_dirty_def Let_def)

lemma word_div_mod_8: "(s :: u64) div 8 = t div 8 \<Longrightarrow> s mod 8 = t mod 8 \<Longrightarrow> s = t"
  by (metis div_mod_decomp word_mod_div_equality)

lemma sector_dirty_mark:
  assumes "unat (vd_sectors d) \<le> 8 * length (vd_dirty d)"
  shows "sector_dirty (mark_dirty d s) t \<longleftrightarrow> sector_dirty d t \<or> (s = t \<and> has_overlay d \<and> t < vd_sectors d)"
proof -
  have idx: "x < vd_sectors d \<Longrightarrow> unat (x div 8) < length (vd_dirty d)" for x
    using assms by (simp add: unat_div word_less_nat_alt less_mult_imp_div_less)
  have same: "unat (s div 8) = unat (t div 8) \<and> unat (s mod 8) = unat (t mod 8) \<longleftrightarrow> s = t"
    using word_div_mod_8 [of s t] by (auto simp flip: word_unat_eq_iff)
  have small: "unat (x mod 8) < 8" for x :: u64 by (simp add: unat_mod)
  show ?thesis using idx [of s] idx [of t] same small
    by (auto simp: sector_dirty_def mark_dirty_def has_overlay_def Let_def byte_bit nth_list_update bit_simps not_le
        simp del: push_bit_of_1)
qed

lemma mark_fold:
  assumes "unat (vd_sectors d) \<le> 8 * length (vd_dirty d)" and "d' = fold (\<lambda>s d. mark_dirty d (of_nat s)) xs d"
  shows "sector_dirty d' t \<longleftrightarrow> sector_dirty d t \<or> (has_overlay d \<and> t < vd_sectors d \<and> (\<exists>x \<in> set xs. of_nat x = t))"
    and "vd_base d' = vd_base d \<and> vd_overlay d' = vd_overlay d \<and> vd_disk_bytes d' = vd_disk_bytes d
      \<and> vd_sectors d' = vd_sectors d \<and> vd_read_only d' = vd_read_only d \<and> length (vd_dirty d') = length (vd_dirty d)"
  using assms by (induction xs arbitrary: d) (auto simp: sector_dirty_mark has_overlay_def)

lemma prepare_covered:
  "(\<And>s. s \<in> set ss \<Longrightarrow> off \<le> of_nat s * 512 \<and> of_nat s * 512 + 512 \<le> e) \<Longrightarrow> prepare_sectors api off e ss d = (d, Inr ())"
  by (induction ss) (simp_all add: Let_def)

text \<open>A run of whole sectors: the arithmetic of the byte offsets.\<close>

lemma run_words:
  assumes fits: "A * 512 + L * 512 < 2 ^ 63" and nonempty: "0 < L"
    and off: "unat (off :: u64) = A * 512" and len: "unat len = L * 512"
  shows "unat (off + len) = (A + L) * 512" "unat (off div 512) = A" "[unat (off div 512) ..< unat ((off + len - 1) div 512) + 1] = [A ..< A + L]"
proof -
  show sum: "unat (off + len) = (A + L) * 512"
  proof -
    have "unat off + unat len < 2 ^ LENGTH(64)" using fits unfolding off len by simp
    then show ?thesis by (simp only: unat_add_no_wrap off len add_mult_distrib)
  qed
  show A: "unat (off div 512) = A" by (simp add: unat_div off)
  have "1 \<le> off + len" using sum nonempty by (simp add: word_le_nat_alt)
  then have "unat (off + len - 1) = (A + L) * 512 - 1" by (simp add: unat_sub sum)
  moreover have "((A + L) * 512 - 1) div 512 + 1 = A + L" using nonempty by (cases L) simp_all
  ultimately have "unat ((off + len - 1) div 512) + 1 = A + L" by (simp add: unat_div)
  then show "[unat (off div 512) ..< unat ((off + len - 1) div 512) + 1] = [A ..< A + L]" by (simp only: A)
qed

lemma run_covered:
  assumes fits: "A * 512 + L * 512 < 2 ^ 63" and nonempty: "0 < L"
    and off: "unat (off :: u64) = A * 512" and len: "unat len = L * 512" and s: "A \<le> s" "s < A + L"
  shows "off \<le> of_nat s * 512 \<and> of_nat s * 512 + 512 \<le> off + len"
proof -
  have le: "s * 512 + 512 \<le> (A + L) * 512" "A * 512 \<le> s * 512" using s by auto
  have small: "s * 512 + 512 < 2 ^ 63" using le(1) fits by (simp add: algebra_simps)
  then have "unat (of_nat s :: u64) = s" by (intro unat_of_nat_u64) simp
  then have "unat (of_nat s * 512 :: u64) = s * 512" using small by (simp add: unat_word_ariths)
  moreover from this have "unat (of_nat s * 512 + 512 :: u64) = s * 512 + 512"
    using small by (subst unat_add_no_wrap) simp_all
  ultimately show ?thesis using run_words(1) [OF fits nonempty off len] le off by (simp add: word_le_nat_alt)
qed

lemma prepare_whole_sectors:
  assumes "A * 512 + L * 512 < 2 ^ 63" and "unat off = A * 512" and "unat len = L * 512"
    and "A * 512 + L * 512 \<le> unat (vd_disk_bytes d)"
  shows "prepare_partial_overlay_sectors api d off len = (d, Inr ())"
proof (cases "len = 0")
  case False
  then have L: "0 < L" using assms(3) by (metis gr0I mult_0 unat_eq_0)
  note w = run_words [OF assms(1) L assms(2,3)]
  have "CheckedAdd off len x = Inr (off + len)" for x
    using assms by (simp add: CheckedAdd_Inr)
  moreover have "CheckRange (vd_disk_bytes d) off len x = Inr ()" for x
    using assms by (simp add: CheckRange_cases)
  moreover have "prepare_sectors api off (off + len) [A ..< A + L] d = (d, Inr ())"
    using run_covered [OF assms(1) L assms(2,3)] by (intro prepare_covered) auto
  ultimately show ?thesis using w(3) by (simp add: prepare_partial_overlay_sectors_def Let_def del: upt_Suc)
qed (simp add: prepare_partial_overlay_sectors_def)

lemma of_nat_u64_eq: "i < 2 ^ 63 \<Longrightarrow> j < 2 ^ 63 \<Longrightarrow> of_nat i = (of_nat j :: u64) \<longleftrightarrow> i = j"
  by (simp add: word_unat_eq_iff unat_of_nat_u64)

lemma view_overlay_write:
  assumes ok: "disk_ok contents d" and o: "vd_overlay d = Some g" and f: "contents f = buf_put (contents g) (A * 512) src"
    and len: "length src = L * 512" and range: "A * 512 + length src \<le> unat (vd_disk_bytes d)"
    and d': "d' = fold (\<lambda>s d. mark_dirty d (of_nat s)) [A ..< A + L] (d\<lparr>vd_overlay := Some f\<rparr>)"
  shows "disk_ok contents d' \<and> disk_view contents d' = buf_put (disk_view contents d) (A * 512) src"
proof -
  let ?e = "d\<lparr>vd_overlay := Some f\<rparr>"
  have bytes: "unat (vd_disk_bytes d) < 2 ^ 63" and g: "length (contents g) = unat (vd_disk_bytes d)"
    and secs: "unat (vd_sectors d) = unat (vd_disk_bytes d) div 512" and bm: "unat (vd_sectors ?e) \<le> 8 * length (vd_dirty ?e)"
    and ro: "\<not> vd_read_only d" and base: "length (contents (vd_base d)) = unat (vd_disk_bytes d)"
    and seceq: "vd_sectors d = vd_disk_bytes d div 512"
    using ok o by (auto simp: disk_ok_def unat_div)
  note frame = mark_fold(2) [OF bm d']
  have lf: "length (contents f) = unat (vd_disk_bytes d)" using range g by (simp add: f)
  have ok': "disk_ok contents d'" using frame bytes base lf bm ro seceq by (simp add: disk_ok_def)
  have dirty: "sector_dirty d' (of_nat s) \<longleftrightarrow> sector_dirty d (of_nat s) \<or> A \<le> s \<and> s < A + L"
    if "s < 2 ^ 63" for s
  proof -
    have AL: "A + L \<le> unat (vd_disk_bytes d) div 512" using range len by linarith
    have e: "sector_dirty ?e t = sector_dirty d t" for t by (simp add: sector_dirty_def has_overlay_def o)
    have "(\<exists>x \<in> set [A ..< A + L]. of_nat x = (of_nat s :: u64)) \<longleftrightarrow> A \<le> s \<and> s < A + L"
    proof -
      have "x < 2 ^ 63" if "x < A + L" for x using that AL bytes by linarith
      then show ?thesis using that by (auto simp: of_nat_u64_eq)
    qed
    moreover have "of_nat s < vd_sectors d" if "s < A + L"
      using that AL \<open>s < 2 ^ 63\<close> by (simp add: word_less_nat_alt unat_of_nat_u64 secs)
    ultimately show ?thesis using mark_fold(1) [OF bm d', of "of_nat s"] by (auto simp: e has_overlay_def)
  qed
  have "disk_view contents d' ! i = buf_put (disk_view contents d) (A * 512) src ! i"
    if i: "i < unat (vd_disk_bytes d)" for i
  proof -
    have "i div 512 < 2 ^ 63" using i bytes by (simp add: less_mult_imp_div_less)
    moreover have "A * 512 \<le> i \<and> i < A * 512 + length src \<longleftrightarrow> A \<le> i div 512 \<and> i div 512 < A + L"
      using len by auto
    ultimately show ?thesis using i range g frame o
      by (auto simp: nth_disk_view nth_buf_put dirty f)
  qed
  then show ?thesis using ok' frame range by (auto intro!: nth_equalityI)
qed

text \<open>What a completed write of whole sectors leaves, whichever file call stored the bytes.\<close>

lemma written_view:
  assumes ok: "disk_ok contents d" and range: "unat sector * 512 + length src \<le> unat (vd_disk_bytes d)" and len: "length src = L * 512"
    and f: "contents f = buf_put (contents (write_handle d)) (unat sector * 512) src"
    and d': "d' = mark_dirty_range (set_write_handle d f) (sector * 512) (of_nat (length src))"
  shows "disk_ok contents d' \<and> disk_view contents d' = buf_put (disk_view contents d) (unat sector * 512) src
    \<and> (has_overlay d \<longrightarrow> vd_base d' = vd_base d) \<and> has_overlay d' = has_overlay d
    \<and> vd_disk_bytes d' = vd_disk_bytes d \<and> vd_read_only d' = vd_read_only d"
proof -
  let ?A = "unat sector" and ?off = "sector * 512" and ?n = "of_nat (length src) :: u64"
  have big: "unat (vd_disk_bytes d) < 2 ^ 63" using ok by (simp add: disk_ok_def)
  then have off: "unat ?off = ?A * 512" using range CheckedMul_512 [of sector] by simp
  have n: "unat ?n = L * 512" using range big len by (subst unat_of_nat_u64) auto
  show ?thesis
  proof (cases "vd_overlay d")
    case None
    then have "set_write_handle d f = d\<lparr>vd_base := f\<rparr>" "write_handle d = vd_base d"
      "mark_dirty_range (d\<lparr>vd_base := f\<rparr>) ?off ?n = d\<lparr>vd_base := f\<rparr>"
      by (simp_all add: set_write_handle_def write_handle_def mark_dirty_range_def has_overlay_def)
    moreover have "disk_ok contents (d\<lparr>vd_base := f\<rparr>)"
      using ok None f range calculation(2) by (simp add: disk_ok_def)
    moreover have "\<not> has_overlay d" "\<not> has_overlay (d\<lparr>vd_base := f\<rparr>)" using None by (simp_all add: has_overlay_def)
    ultimately show ?thesis using f ok d' by (simp add: disk_view_no_overlay has_overlay_def)
  next
    case (Some g)
    let ?d = "fold (\<lambda>s d. mark_dirty d (of_nat s)) [?A ..< ?A + L] (d\<lparr>vd_overlay := Some f\<rparr>)"
    have h: "set_write_handle d f = d\<lparr>vd_overlay := Some f\<rparr>" "write_handle d = g"
      using Some by (simp_all add: set_write_handle_def write_handle_def)
    have "mark_dirty_range (d\<lparr>vd_overlay := Some f\<rparr>) ?off ?n = ?d"
    proof (cases "L = 0")
      case False
      have fits: "?A * 512 + L * 512 < 2 ^ 63" using range big len by simp
      have "?n \<noteq> 0" using n False by (auto simp: word_unat_eq_iff)
      then show ?thesis using run_words(3) [OF fits _ off n] False
        by (simp add: mark_dirty_range_def has_overlay_def Let_def del: upt_Suc)
    qed (use len in \<open>simp add: mark_dirty_range_def\<close>)
    moreover have "disk_ok contents ?d \<and> disk_view contents ?d = buf_put (disk_view contents d) (?A * 512) src"
      using f h(2) range by (intro view_overlay_write [OF ok Some _ len _ refl]) simp_all
    moreover have "unat (vd_sectors (d\<lparr>vd_overlay := Some f\<rparr>)) \<le> 8 * length (vd_dirty (d\<lparr>vd_overlay := Some f\<rparr>))"
      using ok Some by (auto simp: disk_ok_def)
    ultimately show ?thesis using d' h mark_fold(2) [OF _ refl, of "d\<lparr>vd_overlay := Some f\<rparr>" "[?A ..< ?A + L]"] Some
      by (simp add: has_overlay_def)
  qed
qed

lemma write_handle_length: "disk_ok contents d \<Longrightarrow> length (contents (write_handle d)) = unat (vd_disk_bytes d)"
  by (auto simp: write_handle_def disk_ok_def split: option.splits)

lemma WriteDisk_view:
  assumes api: "api_reliable api contents" and ok: "disk_ok contents d" and ro: "\<not> vd_read_only d"
    and range: "unat sector * 512 + length src \<le> unat (vd_disk_bytes d)" and len: "length src = L * 512"
  shows "\<exists>d'. WriteDisk api d sector src = (d', Inr ()) \<and> disk_ok contents d'
    \<and> disk_view contents d' = buf_put (disk_view contents d) (unat sector * 512) src
    \<and> (has_overlay d \<longrightarrow> vd_base d' = vd_base d) \<and> has_overlay d' = has_overlay d
    \<and> vd_disk_bytes d' = vd_disk_bytes d \<and> vd_read_only d' = vd_read_only d"
proof -
  let ?A = "unat sector" and ?off = "sector * 512" and ?n = "of_nat (length src) :: u64"
  have big: "unat (vd_disk_bytes d) < 2 ^ 63" using ok by (simp add: disk_ok_def)
  then have off: "unat ?off = ?A * 512" and mul: "CheckedMul sector 512 w = Inr ?off" for w
    using range CheckedMul_512 [of sector] by simp_all
  have rl: "?A * 512 + L * 512 \<le> unat (vd_disk_bytes d)" using range len by simp
  have n: "unat ?n = L * 512" using range big len by (subst unat_of_nat_u64) auto
  obtain f where f: "PwriteAll api (write_handle d) src ?off = (f, Inr ())"
    "contents f = buf_put (contents (write_handle d)) (?A * 512) src"
    using PwriteAll_ok [OF api, of ?off src "write_handle d"] range big write_handle_length [OF ok] off by auto
  have "prepare_partial_overlay_sectors api d ?off ?n = (d, Inr ())"
    using rl big by (intro prepare_whole_sectors [of ?A L]) (simp_all add: off n)
  then have wd: "WriteDisk api d sector src = (mark_dirty_range (set_write_handle d f) ?off ?n, Inr ())"
    using ro rl by (simp add: WriteDisk_def Let_def mul CheckRange_cases off n f)
  then show ?thesis using written_view [OF ok range len f(2) refl] by blast
qed

section \<open>The contract of a block store\<close>

text \<open>What virtio-blk promises the guest of its disk, whatever file layout is behind it: reads
  return the view, and a write of whole sectors changes exactly the addressed bytes of it.\<close>

fun apply_writes :: "('d \<Rightarrow> nat \<Rightarrow> bytes \<Rightarrow> 'd option) \<Rightarrow> (nat \<times> bytes) list \<Rightarrow> 'd \<Rightarrow> 'd option" where
  "apply_writes wr [] d = Some d"
| "apply_writes wr ((s, bs) # ws) d = Option.bind (wr d s bs) (apply_writes wr ws)"

definition flat_write :: "nat \<times> bytes \<Rightarrow> bytes \<Rightarrow> bytes" where
  "flat_write w v = buf_put v (fst w * 512) (snd w)"

definition writes_fit :: "nat \<Rightarrow> (nat \<times> bytes) list \<Rightarrow> bool" where
  "writes_fit n ws \<longleftrightarrow> (\<forall>(s, bs) \<in> set ws. s * 512 + length bs \<le> n \<and> 512 dvd length bs)"

locale block_store =
  fixes ok :: "'d \<Rightarrow> bool"
    and view :: "'d \<Rightarrow> bytes"
    and rd :: "'d \<Rightarrow> nat \<Rightarrow> nat \<Rightarrow> bytes option"
    and wr :: "'d \<Rightarrow> nat \<Rightarrow> bytes \<Rightarrow> 'd option"
  assumes rd_view: "ok d \<Longrightarrow> s * 512 + n \<le> length (view d) \<Longrightarrow> rd d s n = Some (take n (drop (s * 512) (view d)))"
    and wr_view: "ok d \<Longrightarrow> s * 512 + length bs \<le> length (view d) \<Longrightarrow> 512 dvd length bs \<Longrightarrow>
      \<exists>d'. wr d s bs = Some d' \<and> ok d' \<and> view d' = buf_put (view d) (s * 512) bs"
begin

lemma writes_refine:
  assumes "ok d" and "writes_fit (length (view d)) ws"
  shows "\<exists>d'. apply_writes wr ws d = Some d' \<and> ok d' \<and> view d' = fold flat_write ws (view d)"
  using assms
proof (induction ws arbitrary: d)
  case (Cons w ws)
  obtain s bs where w: "w = (s, bs)" by (cases w)
  then have fit: "s * 512 + length bs \<le> length (view d)" "512 dvd length bs"
    using Cons.prems(2) by (auto simp: writes_fit_def)
  obtain d1 where d1: "wr d s bs = Some d1" "ok d1" "view d1 = buf_put (view d) (s * 512) bs"
    using wr_view [OF Cons.prems(1) fit] by blast
  then have "length (view d1) = length (view d)" using fit(1) by simp
  then have "writes_fit (length (view d1)) ws" using Cons.prems(2) by (simp add: writes_fit_def)
  from Cons.IH [OF d1(2) this] d1 show ?case by (auto simp: w flat_write_def)
qed simp

lemma read_after_write:
  assumes "ok d" and "s * 512 + length bs \<le> length (view d)" and "512 dvd length bs" and "wr d s bs = Some d'"
  shows "rd d' s (length bs) = Some bs"
  using wr_view [OF assms(1-3)] assms rd_view [of d' s "length bs"] by (auto simp: take_buf_put_same)

end

text \<open>The overlay disk of the code, and the disk without overlay, as such stores. The state
  carries the host's file calls; \<open>base\<close> is the image the overlay protects.\<close>

type_synonym 'f store = "'f file_api \<times> ('f \<Rightarrow> bytes) \<times> 'f vdisk"

fun store_view :: "'f store \<Rightarrow> bytes" where
  "store_view (api, c, d) = disk_view c d"

fun store_rd :: "'f store \<Rightarrow> nat \<Rightarrow> nat \<Rightarrow> bytes option" where
  "store_rd (api, c, d) s n = (case ReadDisk api d (of_nat s) (of_nat n) of (bs, Inr _) \<Rightarrow> Some bs | (_, Inl _) \<Rightarrow> None)"

fun store_wr :: "'f store \<Rightarrow> nat \<Rightarrow> bytes \<Rightarrow> 'f store option" where
  "store_wr (api, c, d) s bs = (case WriteDisk api d (of_nat s) bs of (d', Inr _) \<Rightarrow> Some (api, c, d') | (_, Inl _) \<Rightarrow> None)"

fun overlay_ok :: "'f \<Rightarrow> 'f store \<Rightarrow> bool" where
  "overlay_ok base (api, c, d) \<longleftrightarrow>
     api_reliable api c \<and> disk_ok c d \<and> has_overlay d \<and> \<not> vd_read_only d \<and> vd_base d = base"

fun direct_ok :: "'f store \<Rightarrow> bool" where
  "direct_ok (api, c, d) \<longleftrightarrow> api_reliable api c \<and> disk_ok c d \<and> \<not> has_overlay d \<and> \<not> vd_read_only d"

lemma store_laws:
  assumes api: "api_reliable api c" and ok: "disk_ok c d" and ro: "\<not> vd_read_only d"
    and fit: "s * 512 + n \<le> unat (vd_disk_bytes d)"
  shows "store_rd (api, c, d) s n = Some (take n (drop (s * 512) (disk_view c d)))"
    and "length bs = n \<Longrightarrow> 512 dvd n \<Longrightarrow> \<exists>d'. store_wr (api, c, d) s bs = Some (api, c, d') \<and> disk_ok c d'
      \<and> disk_view c d' = buf_put (disk_view c d) (s * 512) bs \<and> (has_overlay d \<longrightarrow> vd_base d' = vd_base d)
      \<and> has_overlay d' = has_overlay d \<and> \<not> vd_read_only d'"
proof -
  have big: "unat (vd_disk_bytes d) < 2 ^ 63" using ok by (simp add: disk_ok_def)
  have s: "unat (of_nat s :: u64) = s" and n: "unat (of_nat n :: u64) = n"
    using fit big by (auto intro!: unat_of_nat_u64)
  show "store_rd (api, c, d) s n = Some (take n (drop (s * 512) (disk_view c d)))"
    using ReadDisk_view [OF api ok, of "of_nat s" "of_nat n"] fit by (simp add: s n)
  assume "length bs = n" and "512 dvd n"
  then obtain L where "length bs = L * 512" by (metis dvd_def mult.commute)
  with WriteDisk_view [OF api ok ro, of "of_nat s" bs L] fit \<open>length bs = n\<close> ro
  show "\<exists>d'. store_wr (api, c, d) s bs = Some (api, c, d') \<and> disk_ok c d'
      \<and> disk_view c d' = buf_put (disk_view c d) (s * 512) bs \<and> (has_overlay d \<longrightarrow> vd_base d' = vd_base d)
      \<and> has_overlay d' = has_overlay d \<and> \<not> vd_read_only d'"
    by (auto simp: s)
qed

interpretation overlay_store: block_store "overlay_ok base" store_view store_rd store_wr for base
proof
  fix d :: "'a store" and s n :: nat and bs :: bytes
  obtain api c v where d: "d = (api, c, v)" by (cases d)
  assume ok: "overlay_ok base d"
  show "store_rd d s n = Some (take n (drop (s * 512) (store_view d)))" if "s * 512 + n \<le> length (store_view d)"
    using store_laws(1) [of api c v s n] ok that by (simp add: d)
  show "\<exists>d'. store_wr d s bs = Some d' \<and> overlay_ok base d' \<and> store_view d' = buf_put (store_view d) (s * 512) bs"
    if "s * 512 + length bs \<le> length (store_view d)" "512 dvd length bs"
    using store_laws(2) [of api c v s "length bs" bs] ok that by (auto simp: d)
qed

interpretation direct_store: block_store direct_ok store_view store_rd store_wr
proof
  fix d :: "'a store" and s n :: nat and bs :: bytes
  obtain api c v where d: "d = (api, c, v)" by (cases d)
  assume ok: "direct_ok d"
  show "store_rd d s n = Some (take n (drop (s * 512) (store_view d)))" if "s * 512 + n \<le> length (store_view d)"
    using store_laws(1) [of api c v s n] ok that by (simp add: d)
  show "\<exists>d'. store_wr d s bs = Some d' \<and> direct_ok d' \<and> store_view d' = buf_put (store_view d) (s * 512) bs"
    if "s * 512 + length bs \<le> length (store_view d)" "512 dvd length bs"
    using store_laws(2) [of api c v s "length bs" bs] ok that by (auto simp: d)
qed

lemma WriteDisk_rejects:
  assumes "vd_read_only d \<or> unat (vd_disk_bytes d) < unat sector * 512 + length src" and "length src < 2 ^ 64"
  shows "\<exists>e. WriteDisk api d sector src = (d, Inl e)"
proof (cases "vd_read_only d")
  case False
  then have range: "unat (vd_disk_bytes d) < unat sector * 512 + unat (of_nat (length src) :: u64)"
    using assms by (simp add: unat_of_nat_u64)
  show ?thesis
  proof (cases "CheckedMul sector 512 ''virtio-blk write offset''")
    case (Inr b)
    then have "unat b = unat sector * 512" using CheckedMul_512 [of sector] by (simp add: CheckedMul_Inr)
    with range Inr False show ?thesis by (simp add: WriteDisk_def Let_def CheckRange_cases)
  qed (simp add: WriteDisk_def Let_def False)
qed (simp add: WriteDisk_def Let_def)

lemma fresh_disk_clean:
  assumes "vd_dirty d = replicate n 0" and "unat (vd_sectors d) \<le> 8 * n"
  shows "\<not> sector_dirty d s"
  using assms by (auto simp: sector_dirty_def has_overlay_def unat_div word_less_nat_alt not_le less_mult_imp_div_less)

section \<open>Properties\<close>

text \<open>A file system of byte lists, for the witnesses.\<close>

definition list_api :: "bytes file_api" where
  "list_api = \<lparr>SetFilePointerEx = (\<lambda>_ off. unat off < 2 ^ 63), ReadFile = (\<lambda>f pos n. Some (take n (drop pos f))),
     WriteFile = (\<lambda>f pos bs. Some (length bs, buf_put f pos bs)), FlushFileBuffers = (\<lambda>_. True)\<rparr>"

lemma list_api_reliable: "api_reliable list_api (\<lambda>f. f)"
  unfolding api_reliable_def
proof (intro conjI allI impI)
  fix f :: bytes and pos want :: nat assume "0 < want \<and> pos < length f"
  then show "\<exists>n. 0 < n \<and> n \<le> want \<and> pos + n \<le> length f \<and> ReadFile list_api f pos want = Some (take n (drop pos f))"
    by (intro exI [of _ "min want (length f - pos)"]) (auto simp: list_api_def min_def)
qed (auto simp: list_api_def)

definition sample_disk :: "bytes vdisk" where
  "sample_disk = \<lparr>vd_base = replicate 1024 7, vd_overlay = Some (replicate 1024 0), vd_dirty = [0],
     vd_disk_bytes = 1024, vd_sectors = 2, vd_read_only = False\<rparr>"

lemma sample_disk_ok: "disk_ok (\<lambda>f. f) sample_disk" "has_overlay sample_disk" "\<not> vd_read_only sample_disk"
  by (simp_all add: disk_ok_def sample_disk_def has_overlay_def)

text \<open>C14. A disk with an overlay behaves as one flat array of sectors: after any sequence of
  whole-sector writes inside it, every read returns the last bytes written to each sector and the
  base image elsewhere, although the writes only ever reach the overlay file; the base image is
  never written.\<close>

theorem overlay_disk_refines_flat_disk:
  assumes "api_reliable api contents" and "disk_ok contents d" and "has_overlay d" and "\<not> vd_read_only d"
    and "writes_fit (unat (vd_disk_bytes d)) ws" and "s * 512 + n \<le> unat (vd_disk_bytes d)"
  shows "\<exists>st. apply_writes store_wr ws (api, contents, d) = Some st \<and> vd_base (snd (snd st)) = vd_base d
    \<and> store_rd st s n = Some (take n (drop (s * 512) (fold flat_write ws (disk_view contents d))))"
proof -
  obtain st where st: "apply_writes store_wr ws (api, contents, d) = Some st" "overlay_ok (vd_base d) st"
    "store_view st = fold flat_write ws (disk_view contents d)"
    using overlay_store.writes_refine [of "vd_base d" "(api, contents, d)" ws] assms by auto
  have "length (fold flat_write ws v) = length v" if "writes_fit (length v) ws" for v
    using that by (induction ws arbitrary: v) (auto simp: flat_write_def writes_fit_def)
  then have "length (store_view st) = unat (vd_disk_bytes d)" using st(3) assms(5) by simp
  moreover have "vd_base (snd (snd st)) = vd_base d" using st(2) by (cases st) simp
  ultimately show ?thesis using overlay_store.rd_view [OF st(2), of s n] st assms(6) by auto
qed

theorem overlay_disk_refines_flat_disk_witness:
  "\<exists>st. apply_writes store_wr [(1, replicate 512 9)] (list_api, (\<lambda>f. f), sample_disk) = Some st
     \<and> vd_base (snd (snd st)) = replicate 1024 7 \<and> store_rd st 1 512 = Some (replicate 512 9)"
proof -
  have "writes_fit (unat (vd_disk_bytes sample_disk)) [(1, replicate 512 9)]" "vd_disk_bytes sample_disk = 1024"
    "vd_base sample_disk = replicate 1024 7"
    by (simp_all add: writes_fit_def sample_disk_def)
  moreover have "take 512 (drop (1 * 512) (flat_write (1, replicate 512 9) (disk_view (\<lambda>f. f) sample_disk))) = replicate 512 9"
    by (simp add: flat_write_def buf_put_def sample_disk_def)
  ultimately show ?thesis
    using overlay_disk_refines_flat_disk [OF list_api_reliable sample_disk_ok, of "[(1, replicate 512 9)]" 1 512] by simp
qed

text \<open>A write that is refused (read-only disk, or a range that leaves the disk, including one
  whose byte offset overflows) throws before it touches any file or the dirty map, whatever the
  host's file calls do.\<close>

theorem WriteDisk_refused_untouched:
  assumes "vd_read_only d \<or> unat (vd_disk_bytes d) < unat sector * 512 + length src" and "length src < 2 ^ 64"
  shows "\<exists>e. WriteDisk api d sector src = (d, Inl e)"
  using assms by (rule WriteDisk_rejects)

theorem WriteDisk_refused_untouched_witness:
  "\<exists>e. WriteDisk list_api sample_disk 0x8000000000000000 (replicate 512 1) = (sample_disk, Inl e)"
  by (rule WriteDisk_refused_untouched) (simp_all add: sample_disk_def)

text \<open>Opening a disk with an overlay gives the guest exactly the base image: the fresh overlay
  of the image's size is consistent with it and no sector counts as overwritten.\<close>

theorem VirtioBlk_open_shows_image:
  assumes "VirtioBlk_open os path overlay_path ro = Inr d"
    and "\<And>f n. file_size os f = Some n \<Longrightarrow> n = int (length (contents f)) \<and> n < 2 ^ 63"
    and "\<And>f n g. truncate_to os f n = Some g \<Longrightarrow> length (contents g) = unat n"
  shows "disk_ok contents d \<and> disk_view contents d = contents (vd_base d) \<and> has_overlay d = (overlay_path \<noteq> [])"
proof -
  obtain base n where n: "file_size os base = Some n" "vd_base d = base" "vd_disk_bytes d = of_int n"
    "vd_sectors d = of_int n div 512"
    using assms(1)
    by (auto simp: VirtioBlk_open_def Let_def require_def rbind_eq_Inl split: if_splits option.splits)
  have bytes: "unat (vd_disk_bytes d) = length (contents base)" "unat (vd_disk_bytes d) < 2 ^ 63"
    using assms(2) [OF n(1)] unat_of_nat_u64 [of "length (contents base)"] by (simp_all add: n(3))
  show ?thesis
  proof (cases "overlay_path = []")
    case True
    then have "vd_overlay d = None" using assms(1)
      by (auto simp: VirtioBlk_open_def Let_def require_def split: if_splits option.splits)
    then show ?thesis using n bytes True by (simp add: disk_view_no_overlay disk_ok_def has_overlay_def)
  next
    case False
    then obtain f0 f k where d: "vd_overlay d = Some f" "vd_dirty d = replicate k 0"
      "k = unat ((vd_sectors d + 7) div 8)" "truncate_to os f0 (vd_disk_bytes d) = Some f" "\<not> vd_read_only d"
      using assms(1) by (auto simp: VirtioBlk_open_def Let_def require_def split: if_splits option.splits)
    have f: "length (contents f) = unat (vd_disk_bytes d)" using assms(3) [OF d(4)] .
    have "unat (vd_sectors d) = unat (vd_disk_bytes d) div 512" by (simp add: n unat_div)
    then have "unat (vd_sectors d) + unat (7 :: u64) < 2 ^ LENGTH(64)" using bytes(2) by simp
    then have "unat (vd_sectors d + 7) = unat (vd_sectors d) + 7" by (simp only: unat_add_no_wrap) simp
    then have "unat (vd_sectors d) \<le> 8 * k" unfolding d(3) by (simp add: unat_div)
    moreover from this have "\<not> sector_dirty d s" for s by (rule fresh_disk_clean [OF d(2)])
    ultimately show ?thesis using n bytes f d False
      by (auto simp: disk_ok_def has_overlay_def nth_disk_view intro!: nth_equalityI)
  qed
qed

theorem VirtioBlk_open_shows_image_witness:
  "\<exists>d. VirtioBlk_open \<lparr>open_existing = (\<lambda>_ _. Some (replicate 1024 7)), create_always = (\<lambda>_. Some []),
      file_size = (\<lambda>f. if length f < 2 ^ 63 then Some (int (length f)) else None), mark_sparse = (\<lambda>_. True),
      truncate_to = (\<lambda>f n. Some (replicate (unat n) 0))\<rparr> ''a'' ''b'' False = Inr d
     \<and> disk_view (\<lambda>f. f) d = replicate 1024 (7 :: u8)"
  (is "\<exists>d. VirtioBlk_open ?os ''a'' ''b'' False = Inr d \<and> _")
proof -
  obtain d where d: "VirtioBlk_open ?os ''a'' ''b'' False = Inr d" "vd_base d = replicate 1024 7"
    by (simp add: VirtioBlk_open_def Let_def require_def)
  have "disk_view (\<lambda>f. f) d = vd_base d"
    by (rule VirtioBlk_open_shows_image [OF d(1), THEN conjunct2, THEN conjunct1]) (auto split: if_splits)
  with d show ?thesis by simp
qed

end
