(* ===== verification/Virtio_Blk.thy ===== *)
theory Virtio_Blk
  imports Queue_State Block_Disk
begin

unbundle bit_operations_syntax

text \<open>
  The virtio-blk device (native/whp/virtio/blk.h, blk.cc): MMIO registers, the request queue
  and the requests. A throwing step returns the memory and disk it leaves behind, because the
  handler of process_request catches, reports status 1 and goes on. The raise_irq call-back
  is the boolean result of write_reg. \<open>api\<close> are the host's file calls of Block_Disk.
\<close>

record 'f blk =
  b_mmio_base :: u64
  b_mem :: guest_memory
  b_disk :: "'f vdisk"
  b_status :: u32
  b_drv_features :: u64
  b_dev_features_sel :: u32
  b_drv_features_sel :: u32
  b_queue_sel :: u32
  b_interrupt_status :: u32
  b_queues :: "vq list"

definition vq_default :: vq where
  "vq_default = \<lparr>q_size = 256, q_ready = False, q_last_avail = 0, q_desc_addr = 0, q_driver_addr = 0, q_device_addr = 0\<rparr>"

definition blk_init :: "u64 \<Rightarrow> guest_memory \<Rightarrow> 'f vdisk \<Rightarrow> 'f blk" where
  "blk_init mmio_base mem disk =
     \<lparr>b_mmio_base = mmio_base, b_mem = mem, b_disk = disk, b_status = 0, b_drv_features = 0,
      b_dev_features_sel = 0, b_drv_features_sel = 0, b_queue_sel = 0, b_interrupt_status = 0,
      b_queues = (replicate 8 vq_default)[0 := vq_default\<lparr>q_size := kMaxQueueSize\<rparr>]\<rparr>"

section \<open>Requests\<close>

fun blk_read_data ::
  "'f file_api \<Rightarrow> 'f vdisk \<Rightarrow> desc list \<Rightarrow> guest_memory \<Rightarrow> u64 \<Rightarrow> u32 \<Rightarrow> guest_memory \<times> u32 \<times> unit result" where
  "blk_read_data api disk [] mem sector written = (mem, written, Inr ())"
| "blk_read_data api disk (d # ds) mem sector written =
    (case rbind (Check (d_flags d AND kRingDescFWrite \<noteq> 0) ''virtio-blk read data descriptor must be writable'') (\<lambda>_.
          rbind (Check (d_len d mod 512 = 0) ''virtio-blk read length must be sector-aligned'') (\<lambda>_.
          gm_ptr mem (d_addr d) (ucast (d_len d)))) of
       Inl e \<Rightarrow> (mem, written, Inl e)
     | Inr p \<Rightarrow>
        (case ReadDisk api disk sector (ucast (d_len d)) of
           (bs, Inl e) \<Rightarrow> (gm_write mem p bs, written, Inl e)
         | (bs, Inr _) \<Rightarrow> blk_read_data api disk ds (gm_write mem p bs)
                            (sector + ucast (d_len d div 512)) (written + d_len d)))"

fun blk_write_data ::
  "'f file_api \<Rightarrow> guest_memory \<Rightarrow> desc list \<Rightarrow> 'f vdisk \<Rightarrow> u64 \<Rightarrow> 'f vdisk \<times> unit result" where
  "blk_write_data api mem [] disk sector = (disk, Inr ())"
| "blk_write_data api mem (d # ds) disk sector =
    (case rbind (Check (d_flags d AND kRingDescFWrite = 0) ''virtio-blk write data descriptor must be read-only'') (\<lambda>_.
          rbind (Check (d_len d mod 512 = 0) ''virtio-blk write length must be sector-aligned'') (\<lambda>_.
          gm_ptr mem (d_addr d) (ucast (d_len d)))) of
       Inl e \<Rightarrow> (disk, Inl e)
     | Inr p \<Rightarrow>
        (case WriteDisk api disk sector (gm_read mem p (unat (d_len d))) of
           (disk, Inl e) \<Rightarrow> (disk, Inl e)
         | (disk, Inr _) \<Rightarrow> blk_write_data api mem ds disk (sector + ucast (d_len d div 512))))"

text \<open>The identification string with its terminating NUL, to the first data descriptor.\<close>

definition blk_id :: bytes where
  "blk_id = [0x6E, 0x6F, 0x64, 0x65, 0x2D, 0x76, 0x6D, 0x6D, 0]"

definition blk_get_id :: "desc list \<Rightarrow> guest_memory \<Rightarrow> guest_memory \<times> u32 \<times> unit result" where
  "blk_get_id ds mem =
    (case ds of [] \<Rightarrow> (mem, 0, Inr ())
     | d # _ \<Rightarrow> let n = min (d_len d) (of_nat (length blk_id))
                in case gm_ptr mem (d_addr d) (ucast n) of
                     Inl e \<Rightarrow> (mem, 0, Inl e)
                   | Inr p \<Rightarrow> (gm_write mem p (take (unat n) blk_id), n, Inr ()))"

text \<open>The switch on the request type: memory, disk, bytes written, status byte, and whether
  the branch threw.\<close>

definition blk_dispatch ::
  "'f file_api \<Rightarrow> u32 \<Rightarrow> u64 \<Rightarrow> desc list \<Rightarrow> guest_memory \<Rightarrow> 'f vdisk
   \<Rightarrow> guest_memory \<times> 'f vdisk \<times> u32 \<times> u8 \<times> unit result" where
  "blk_dispatch api type sector data mem disk =
    (if type = 0 then case blk_read_data api disk data mem sector 0 of (mem, written, r) \<Rightarrow> (mem, disk, written, 0, r)
     else if type = 1 then case blk_write_data api mem data disk sector of (disk, r) \<Rightarrow> (mem, disk, 0, 0, r)
     else if type = 4
     then (mem, disk, 0, 0,
           if \<not> vd_read_only disk
           then Check (FlushFileBuffers api (write_handle disk)) ''virtio-blk flush failed: '' else Inr ())
     else if type = 8 then case blk_get_id data mem of (mem, written, r) \<Rightarrow> (mem, disk, written, 0, r)
     else (mem, disk, 0, 2, Inr ()))"

definition blk_header_checks :: "guest_memory \<Rightarrow> vq \<Rightarrow> u16 \<Rightarrow> (desc list \<times> nat) result" where
  "blk_header_checks mem q head =
    rbind (walk_chain_inline mem (q_desc_addr q) (q_size q) head) (\<lambda>chain.
    rbind (Check (2 \<le> length chain) ''virtio-blk descriptor chain too short'') (\<lambda>_.
    let header = chain ! 0; status_desc = chain ! (length chain - 1) in
    rbind (Check (16 \<le> d_len header) ''virtio-blk header too short'') (\<lambda>_.
    rbind (Check (d_flags status_desc AND kRingDescFWrite \<noteq> 0 \<and> 1 \<le> d_len status_desc)
             ''virtio-blk status descriptor invalid'') (\<lambda>_.
    rbind (gm_ptr mem (d_addr header) 16) (\<lambda>p. Inr (chain, p))))))"

text \<open>The body of the try block.\<close>

definition blk_try ::
  "'f file_api \<Rightarrow> guest_memory \<Rightarrow> 'f vdisk \<Rightarrow> vq \<Rightarrow> u16 \<Rightarrow> guest_memory \<times> 'f vdisk \<times> u32 \<times> unit result" where
  "blk_try api mem disk q head =
    (case blk_header_checks mem q head of Inl e \<Rightarrow> (mem, disk, 0, Inl e) | Inr (chain, p) \<Rightarrow>
     let type = ReadU32 (gm_data mem) p; sector = ReadU64 (gm_data mem) (p + 8);
         status_desc = chain ! (length chain - 1);
         data = take (length chain - 2) (drop 1 chain)
     in case blk_dispatch api type sector data mem disk of
          (mem, disk, written, status, Inl e) \<Rightarrow> (mem, disk, written, Inl e)
        | (mem, disk, written, status, Inr _) \<Rightarrow>
           (case gm_ptr mem (d_addr status_desc) 1 of Inl e \<Rightarrow> (mem, disk, written, Inl e)
            | Inr sp \<Rightarrow>
               (case push_used_inline (gm_write mem sp [status]) (q_device_addr q) (q_size q) (ucast head) (written + 1) of
                  (mem, r) \<Rightarrow> (mem, disk, written, r))))"

text \<open>The handler: status 1 if the chain can still be walked, then the used element.\<close>

definition blk_fail_status :: "guest_memory \<Rightarrow> vq \<Rightarrow> u16 \<Rightarrow> guest_memory" where
  "blk_fail_status mem q head =
    (case walk_chain_inline mem (q_desc_addr q) (q_size q) head of
       Inl _ \<Rightarrow> mem
     | Inr chain \<Rightarrow>
        if chain = [] then mem
        else case gm_ptr mem (d_addr (chain ! (length chain - 1))) 1 of Inl _ \<Rightarrow> mem | Inr sp \<Rightarrow> gm_write mem sp [1])"

definition process_request ::
  "'f file_api \<Rightarrow> guest_memory \<Rightarrow> 'f vdisk \<Rightarrow> vq \<Rightarrow> u16 \<Rightarrow> guest_memory \<times> 'f vdisk \<times> unit result" where
  "process_request api mem disk q head =
    (case blk_try api mem disk q head of
       (mem, disk, written, Inr _) \<Rightarrow> (mem, disk, Inr ())
     | (mem, disk, written, Inl _) \<Rightarrow>
        (case push_used_inline (blk_fail_status mem q head) (q_device_addr q) (q_size q) (ucast head) written of
           (mem, r) \<Rightarrow> (mem, disk, r)))"

section \<open>The queue\<close>

function blk_queue_loop ::
  "'f file_api \<Rightarrow> vq \<Rightarrow> u16 \<Rightarrow> guest_memory \<Rightarrow> 'f vdisk \<Rightarrow> u16 \<Rightarrow> guest_memory \<times> 'f vdisk \<times> u16 \<times> unit result" where
  "blk_queue_loop api q avail_idx mem disk last_avail =
    (if last_avail = avail_idx then (mem, disk, last_avail, Inr ())
     else case gm_ptr mem (q_driver_addr q + 4 + ucast (ucast last_avail mod q_size q) * 2) 2 of
            Inl e \<Rightarrow> (mem, disk, last_avail, Inl e)
          | Inr p \<Rightarrow>
             (case process_request api mem disk q (ReadU16 (gm_data mem) p) of
                (mem', disk', Inl e) \<Rightarrow> (mem', disk', last_avail + 1, Inl e)
              | (mem', disk', Inr _) \<Rightarrow> blk_queue_loop api q avail_idx mem' disk' (last_avail + 1)))"
  by pat_completeness auto

termination
  by (relation "measure (\<lambda>(_, _, avail_idx, _, _, last_avail). unat (avail_idx - last_avail))")
    (auto simp: avail_distance_decreases)

declare blk_queue_loop.simps [simp del]

definition handle_queue :: "'f file_api \<Rightarrow> guest_memory \<Rightarrow> 'f vdisk \<Rightarrow> vq \<Rightarrow> guest_memory \<times> 'f vdisk \<times> u16 \<times> unit result" where
  "handle_queue api mem disk q =
    (case gm_ptr mem (q_driver_addr q + 2) 2 of Inl e \<Rightarrow> (mem, disk, q_last_avail q, Inl e)
     | Inr p \<Rightarrow> blk_queue_loop api q (ReadU16 (gm_data mem) p) mem disk (q_last_avail q))"

section \<open>Registers\<close>

definition blk_reset :: "'f blk \<Rightarrow> 'f blk" where
  "blk_reset b = b\<lparr>b_status := 0, b_drv_features := 0, b_dev_features_sel := 0, b_drv_features_sel := 0,
     b_queue_sel := 0, b_interrupt_status := 0, b_queues := replicate (length (b_queues b)) vq_default\<rparr>"

definition blk_read_reg :: "'f blk \<Rightarrow> u32 \<Rightarrow> u32" where
  "blk_read_reg b off =
    (if off = kMmioMagicValue then kMagic
     else if off = kMmioVersion then kVersion
     else if off = kMmioDeviceId then 2
     else if off = kMmioVendorId then kVendor
     else if off = kMmioDeviceFeatures
     then let features = kFVersion1 OR push_bit 9 1;
              features = (if vd_read_only (b_disk b) then features OR push_bit 5 1 else features)
          in if b_dev_features_sel b = 1 then ucast (drop_bit 32 features) else ucast features
     else if off = kMmioQueueNumMax then kMaxQueueSize
     else if off = kMmioQueueReady then (if q_ready (b_queues b ! unat (b_queue_sel b)) then 1 else 0)
     else if off = kMmioInterruptStatus then b_interrupt_status b
     else if off = kMmioStatus then b_status b
     else if off = kMmioConfigGeneration then 0
     else 0)"

definition blk_config :: "'f blk \<Rightarrow> bytes" where
  "blk_config b = buf_put (buf_put (buf_put (replicate 16 0) 0 (le_bytes 8 (vd_sectors (b_disk b))))
     8 (le_bytes 4 (0 :: u32))) 12 (le_bytes 4 (128 :: u32))"

definition blk_read_mmio :: "'f blk \<Rightarrow> u64 \<Rightarrow> u32 \<Rightarrow> bytes" where
  "blk_read_mmio b addr n =
    (let off = ucast (addr - b_mmio_base b) :: u32; data = replicate (unat n) 0
     in if off < 0x100
        then if n \<noteq> 4 then data else le_bytes 4 (blk_read_reg b off)
        else let cfg_off = unat (off - 0x100)
             in if cfg_off < 16
                then buf_put data 0 (take (min (unat n) (16 - cfg_off)) (drop cfg_off (blk_config b))) else data)"

definition blk_put_queue :: "'f blk \<Rightarrow> (vq \<Rightarrow> vq) \<Rightarrow> 'f blk" where
  "blk_put_queue b f = (let i = unat (b_queue_sel b) in b\<lparr>b_queues := (b_queues b)[i := f (b_queues b ! i)]\<rparr>)"

definition blk_notify :: "'f file_api \<Rightarrow> 'f blk \<Rightarrow> u32 \<Rightarrow> 'f blk \<times> bool \<times> unit result" where
  "blk_notify api b value =
    (if value < 8 \<and> q_ready (b_queues b ! unat value)
     then let i = unat value; q = b_queues b ! i
          in case handle_queue api (b_mem b) (b_disk b) q of (mem, disk, last_avail, r) \<Rightarrow>
             let b' = b\<lparr>b_mem := mem, b_disk := disk, b_queues := (b_queues b)[i := q\<lparr>q_last_avail := last_avail\<rparr>]\<rparr>
             in case r of Inl e \<Rightarrow> (b', False, Inl e)
                | Inr _ \<Rightarrow> (b'\<lparr>b_interrupt_status := b_interrupt_status b' OR kInterruptVring\<rparr>, True, Inr ())
     else (b, False, Inr ()))"

definition blk_write_reg :: "'f file_api \<Rightarrow> 'f blk \<Rightarrow> u32 \<Rightarrow> u32 \<Rightarrow> 'f blk \<times> bool \<times> unit result" where
  "blk_write_reg api b off value =
    (let done_with = (\<lambda>b. (b, False, Inr ()))
     in if off = kMmioDeviceFeaturesSel then done_with (b\<lparr>b_dev_features_sel := value\<rparr>)
     else if off = kMmioDriverFeaturesSel then done_with (b\<lparr>b_drv_features_sel := value\<rparr>)
     else if off = kMmioDriverFeatures
     then done_with (b\<lparr>b_drv_features := (if b_drv_features_sel b = 0 then set_low (b_drv_features b) value
                                      else set_high (b_drv_features b) value)\<rparr>)
     else if off = kMmioQueueSel then done_with (if value < 8 then b\<lparr>b_queue_sel := value\<rparr> else b)
     else if off = kMmioQueueNum
     then done_with (if 1 \<le> value \<and> value \<le> kMaxQueueSize then blk_put_queue b (\<lambda>q. q\<lparr>q_size := value\<rparr>) else b)
     else if off = kMmioQueueReady then done_with (blk_put_queue b (\<lambda>q. q\<lparr>q_ready := (value \<noteq> 0)\<rparr>))
     else if off = kMmioQueueNotify then blk_notify api b value
     else if off = kMmioInterruptAck then done_with (b\<lparr>b_interrupt_status := b_interrupt_status b AND NOT value\<rparr>)
     else if off = kMmioStatus then done_with (if value = 0 then blk_reset b else b\<lparr>b_status := value\<rparr>)
     else if off = kMmioQueueDescLow
     then done_with (blk_put_queue b (\<lambda>q. q\<lparr>q_desc_addr := set_low (q_desc_addr q) value\<rparr>))
     else if off = kMmioQueueDescHigh
     then done_with (blk_put_queue b (\<lambda>q. q\<lparr>q_desc_addr := set_high (q_desc_addr q) value\<rparr>))
     else if off = kMmioQueueDriverLow
     then done_with (blk_put_queue b (\<lambda>q. q\<lparr>q_driver_addr := set_low (q_driver_addr q) value\<rparr>))
     else if off = kMmioQueueDriverHigh
     then done_with (blk_put_queue b (\<lambda>q. q\<lparr>q_driver_addr := set_high (q_driver_addr q) value\<rparr>))
     else if off = kMmioQueueDeviceLow
     then done_with (blk_put_queue b (\<lambda>q. q\<lparr>q_device_addr := set_low (q_device_addr q) value\<rparr>))
     else if off = kMmioQueueDeviceHigh
     then done_with (blk_put_queue b (\<lambda>q. q\<lparr>q_device_addr := set_high (q_device_addr q) value\<rparr>))
     else done_with b)"

definition blk_write_mmio :: "'f file_api \<Rightarrow> 'f blk \<Rightarrow> u64 \<Rightarrow> bytes \<Rightarrow> 'f blk \<times> bool \<times> unit result" where
  "blk_write_mmio api b addr data =
    (let off = ucast (addr - b_mmio_base b) :: u32
     in if 0x100 \<le> off \<or> length data \<noteq> 4 then (b, False, Inr ())
        else blk_write_reg api b off (ReadU32 ((!) data) 0))"

section \<open>Confinement\<close>

text \<open>Whatever the rings hold and whatever the host's file calls do, a request changes guest RAM
  and the writable part of the disk only.\<close>

lemma blk_read_data_safe:
  assumes "api_bounded api"
  shows "same_outside mem (fst (blk_read_data api disk ds mem sector w))"
proof (induction ds arbitrary: mem sector w)
  case (Cons d ds)
  show ?case
  proof (cases "rbind (Check (d_flags d AND kRingDescFWrite \<noteq> 0) ''virtio-blk read data descriptor must be writable'') (\<lambda>_.
      rbind (Check (d_len d mod 512 = 0) ''virtio-blk read length must be sector-aligned'') (\<lambda>_.
      gm_ptr mem (d_addr d) (ucast (d_len d))))")
    case (Inr p)
    obtain bs r where r: "ReadDisk api disk sector (ucast (d_len d)) = (bs, r)" by fastforce
    have "gm_ptr mem (d_addr d) (ucast (d_len d)) = Inr p" using Inr by simp
    moreover have "length bs \<le> unat (ucast (d_len d) :: u64)"
      using ReadDisk_bounded [OF assms, of disk sector "ucast (d_len d)"] r by simp
    ultimately have "same_outside mem (gm_write mem p bs)" by (rule gm_write_ptr_safe)
    with Inr r Cons.IH show ?thesis
      by (cases r) (simp_all, blast intro: same_outside_trans)
  qed simp
qed simp

lemma blk_get_id_safe: "same_outside mem (fst (blk_get_id ds mem))"
  by (auto simp: blk_get_id_def Let_def ucast_len split: list.splits sum.splits intro!: gm_write_ptr_safe)

lemma blk_write_data_protected: "disk_protected disk (fst (blk_write_data api mem ds disk sector))"
proof (induction ds arbitrary: disk sector)
  case (Cons d ds)
  have "WriteDisk api disk s bs = (disk', r) \<Longrightarrow> disk_protected disk disk'" for s bs disk' r
    using WriteDisk_protected [of disk api s bs] by simp
  with Cons.IH show ?case
    by (auto split: sum.splits prod.splits) (metis disk_protected_trans)
qed simp

lemma blk_dispatch_confined:
  assumes "api_bounded api" and "blk_dispatch api type sector data mem disk = (mem', disk', w, st, r)"
  shows "same_outside mem mem' \<and> disk_protected disk disk'"
  using assms(2) blk_read_data_safe [OF assms(1), of mem disk data sector 0] blk_get_id_safe [of mem data]
    blk_write_data_protected [of disk api mem data sector]
  by (auto simp: blk_dispatch_def split: if_splits prod.splits)

lemma blk_try_confined:
  assumes "api_bounded api" and "blk_try api mem disk q head = (mem', disk', w, r)"
  shows "same_outside mem mem' \<and> disk_protected disk disk'"
proof -
  show ?thesis
  proof (cases "blk_header_checks mem q head")
    case (Inl e)
    then show ?thesis using assms(2) by (simp add: blk_try_def)
  next
    case (Inr cp)
    obtain chain p where cp: "cp = (chain, p)" by (cases cp)
    let ?data = "take (length chain - 2) (drop 1 chain)" and ?s = "chain ! (length chain - 1)"
    obtain m d w' st r' where disp: "blk_dispatch api (ReadU32 (gm_data mem) p) (ReadU64 (gm_data mem) (p + 8)) ?data mem disk
        = (m, d, w', st, r')" using prod_cases5 by blast
    note conf = blk_dispatch_confined [OF assms(1) disp]
    have "same_outside m (fst (push_used_inline (gm_write m sp [st]) da qs i k))"
      if "gm_ptr m (d_addr ?s) 1 = Inr sp" for sp da qs i k
      using gm_write_ptr_safe [OF that, of "[st]"] push_used_safe same_outside_trans by fastforce
    then have "push_used_inline (gm_write m sp [st]) da qs i k = (m', x) \<Longrightarrow> gm_ptr m (d_addr ?s) 1 = Inr sp
        \<Longrightarrow> same_outside mem m'" for sp da qs i k m' x
      using conf same_outside_trans by (metis fst_conv)
    then show ?thesis using assms(2) conf
      by (auto simp: blk_try_def Inr cp disp Let_def simp del: One_nat_def split: sum.splits prod.splits)
  qed
qed

lemma blk_fail_status_safe: "same_outside mem (blk_fail_status mem q head)"
  by (auto simp: blk_fail_status_def split: sum.splits intro: gm_write_ptr_safe)

lemma process_request_confined:
  assumes "api_bounded api" and "process_request api mem disk q head = (mem', disk', r)"
  shows "same_outside mem mem' \<and> disk_protected disk disk'"
proof -
  obtain m d w r' where t: "blk_try api mem disk q head = (m, d, w, r')" using prod_cases4 by blast
  have "same_outside m (fst (push_used_inline (blk_fail_status m q head) da qs i k))" for da qs i k
    using push_used_safe blk_fail_status_safe same_outside_trans by blast
  then show ?thesis using assms(2) blk_try_confined [OF assms(1) t]
    by (cases r') (auto simp: process_request_def t split: prod.splits intro: same_outside_trans,
        metis fst_conv same_outside_trans)
qed

lemma blk_queue_loop_confined:
  "api_bounded api \<Longrightarrow> blk_queue_loop api q avail mem disk la = (mem', disk', l, r)
   \<Longrightarrow> same_outside mem mem' \<and> disk_protected disk disk'"
proof (induction api q avail mem disk la rule: blk_queue_loop.induct)
  case (1 api q avail mem disk la)
  show ?case
  proof (cases "la = avail")
    case False
    show ?thesis
    proof (cases "gm_ptr mem (q_driver_addr q + 4 + ucast (ucast la mod q_size q) * 2) 2")
      case (Inl e)
      then show ?thesis using "1.prems" False by (subst (asm) blk_queue_loop.simps) simp
    next
      case (Inr p)
      obtain m d rr where pr: "process_request api mem disk q (ReadU16 (gm_data mem) p) = (m, d, rr)"
        using prod_cases3 by blast
      note conf = process_request_confined [OF "1.prems"(1) pr]
      show ?thesis
      proof (cases rr)
        case (Inl e)
        then show ?thesis using "1.prems" False \<open>gm_ptr _ _ _ = Inr p\<close> pr conf
          by (subst (asm) blk_queue_loop.simps) simp
      next
        case (Inr u)
        then have "blk_queue_loop api q avail m d (la + 1) = (mem', disk', l, r)"
          using "1.prems" False \<open>gm_ptr _ _ _ = Inr p\<close> pr by (subst (asm) blk_queue_loop.simps) simp
        then show ?thesis
          using "1.IH" [OF False \<open>gm_ptr _ _ _ = Inr p\<close> pr [symmetric] refl, of u] Inr "1.prems"(1) conf
          by (auto intro: same_outside_trans disk_protected_trans)
      qed
    qed
  qed (use "1.prems" in \<open>simp add: blk_queue_loop.simps [of api q avail mem disk avail]\<close>)
qed

lemma handle_queue_confined:
  "api_bounded api \<Longrightarrow> handle_queue api mem disk q = (mem', disk', l, r)
   \<Longrightarrow> same_outside mem mem' \<and> disk_protected disk disk'"
  by (auto simp: handle_queue_def split: sum.splits dest: blk_queue_loop_confined)

section \<open>The register file\<close>

definition blk_ok :: "'f blk \<Rightarrow> bool" where
  "blk_ok b \<longleftrightarrow> length (b_queues b) = 8 \<and> b_queue_sel b < 8 \<and> (\<forall>q \<in> set (b_queues b). vq_ok q)"

definition blk_step :: "'f file_api \<Rightarrow> 'f blk \<Rightarrow> u64 \<times> bytes \<Rightarrow> 'f blk" where
  "blk_step api b w = fst (blk_write_mmio api b (fst w) (snd w))"

lemma vq_default_ok [simp]: "vq_ok vq_default"
  by (simp add: vq_ok_def vq_default_def source_consts)

lemma blk_ok_put:
  "blk_ok b \<Longrightarrow> (\<And>q. vq_ok q \<Longrightarrow> vq_ok (f q)) \<Longrightarrow> blk_ok (blk_put_queue b f)"
  by (auto simp: blk_ok_def blk_put_queue_def Let_def word_less_nat_alt dest!: set_update_subset_insert [THEN subsetD])

lemma blk_put_oks:
  assumes "blk_ok b"
  shows "1 \<le> v \<Longrightarrow> v \<le> kMaxQueueSize \<Longrightarrow> blk_ok (blk_put_queue b (\<lambda>q. q\<lparr>q_size := v\<rparr>))"
    "blk_ok (blk_put_queue b (\<lambda>q. q\<lparr>q_ready := r\<rparr>))" "blk_ok (blk_put_queue b (\<lambda>q. q\<lparr>q_desc_addr := f q\<rparr>))"
    "blk_ok (blk_put_queue b (\<lambda>q. q\<lparr>q_driver_addr := f q\<rparr>))" "blk_ok (blk_put_queue b (\<lambda>q. q\<lparr>q_device_addr := f q\<rparr>))"
  using assms by (auto intro!: blk_ok_put simp: vq_ok_def word_less_nat_alt word_le_nat_alt)

lemma blk_notify_ok [inv_intros]: "blk_ok b \<Longrightarrow> blk_ok (fst (blk_notify api b v))"
  unfolding blk_notify_def Let_def
  by (auto simp: blk_ok_def vq_ok_def word_less_nat_alt split: prod.splits sum.splits
      dest!: set_update_subset_insert [THEN subsetD])

lemma blk_ok_frame [simp]:
  "blk_ok (b\<lparr>b_dev_features_sel := x\<rparr>) = blk_ok b" "blk_ok (b\<lparr>b_drv_features_sel := x\<rparr>) = blk_ok b"
  "blk_ok (b\<lparr>b_drv_features := y\<rparr>) = blk_ok b" "blk_ok (b\<lparr>b_interrupt_status := x\<rparr>) = blk_ok b"
  "blk_ok (b\<lparr>b_status := x\<rparr>) = blk_ok b"
  by (simp_all add: blk_ok_def)

lemma blk_write_reg_ok [inv_intros]: "blk_ok b \<Longrightarrow> blk_ok (fst (blk_write_reg api b off v))"
proof -
  assume b: "blk_ok b"
  have "blk_ok (blk_reset b)" using b by (simp add: blk_ok_def blk_reset_def)
  moreover have "v < 8 \<Longrightarrow> blk_ok (b\<lparr>b_queue_sel := v\<rparr>)" using b by (simp add: blk_ok_def)
  ultimately show ?thesis using b unfolding blk_write_reg_def Let_def
    by (simp add: blk_put_oks blk_notify_ok)
qed

interpretation blk_machine: invariant_machine "blk_step api" blk_ok for api
  by unfold_locales (auto simp: blk_step_def blk_write_mmio_def Let_def intro: inv_intros)

lemma blk_init_ok: "blk_ok (blk_init base mem disk)"
proof -
  have "vq_default\<lparr>q_size := kMaxQueueSize\<rparr> = vq_default" by (simp add: vq_default_def source_consts)
  then show ?thesis
    by (auto simp: blk_ok_def blk_init_def dest!: set_update_subset_insert [THEN subsetD])
qed

definition blk_confined :: "'f blk \<Rightarrow> 'f blk \<Rightarrow> bool" where
  "blk_confined b b' \<longleftrightarrow> same_outside (b_mem b) (b_mem b') \<and> disk_protected (b_disk b) (b_disk b')"

lemma blk_confined_refl [simp]: "blk_confined b b"
  by (simp add: blk_confined_def)

lemma blk_put_queue_frame [simp]:
  "b_mem (blk_put_queue b f) = b_mem b" "b_disk (blk_put_queue b f) = b_disk b"
  by (simp_all add: blk_put_queue_def Let_def)

lemma blk_notify_confined: "api_bounded api \<Longrightarrow> blk_confined b (fst (blk_notify api b v))"
  by (auto simp: blk_notify_def blk_confined_def Let_def dest: handle_queue_confined split: prod.splits sum.splits)

lemma blk_confined_same: "b_mem b' = b_mem b \<Longrightarrow> b_disk b' = b_disk b \<Longrightarrow> blk_confined b b'"
  by (simp add: blk_confined_def)

lemma blk_write_reg_confined:
  assumes "api_bounded api"
  shows "blk_confined b (fst (blk_write_reg api b off v))"
proof -
  have split: "blk_confined b (fst x) \<Longrightarrow> blk_confined b (fst y) \<Longrightarrow> blk_confined b (fst (if c then x else y))"
    for c and x y :: "'a blk \<times> bool \<times> unit result" by simp
  show ?thesis unfolding blk_write_reg_def Let_def
    by (intro split) (use blk_notify_confined [OF assms, of b v] in \<open>simp_all add: blk_confined_def blk_reset_def\<close>)
qed

lemma blk_run_confined:
  assumes "api_bounded api" and "blk_ok b"
  shows "blk_confined b (run (blk_step api) b accs)"
proof (rule blk_machine.run_rel [OF _ _ _ assms(2)])
  show "blk_confined s (blk_step api s e)" for s e
    using blk_write_reg_confined [OF assms(1)]
    by (simp add: blk_step_def blk_write_mmio_def Let_def)
qed (auto simp: blk_confined_def intro: same_outside_trans disk_protected_trans)

section \<open>Completion\<close>

lemma process_request_completes:
  assumes "api_bounded api" and "rings_in_ram mem q" and "vq_ok q"
  shows "\<exists>mem' disk'. process_request api mem disk q head = (mem', disk', Inr ())"
proof -
  obtain m d w r where t: "blk_try api mem disk q head = (m, d, w, r)" using prod_cases4 by blast
  have "gm_len (blk_fail_status m q head) = gm_len mem"
    using blk_try_confined [OF assms(1) t] blk_fail_status_safe [of m q head] by (simp add: same_outside_def)
  then have "snd (push_used_inline (blk_fail_status m q head) (q_device_addr q) (q_size q) (ucast head) w) = Inr ()"
    by (rule push_used_in_ram [OF assms(2,3)])
  then show ?thesis by (cases r) (auto simp: process_request_def t split: prod.splits)
qed

lemma blk_queue_loop_completes:
  "\<lbrakk>api_bounded api; rings_in_ram mem q; vq_ok q\<rbrakk>
   \<Longrightarrow> \<exists>mem' disk'. blk_queue_loop api q avail mem disk la = (mem', disk', avail, Inr ())"
proof (induction api q avail mem disk la rule: blk_queue_loop.induct)
  case (1 api q avail mem disk la)
  show ?case
  proof (cases "la = avail")
    case False
    let ?a = "q_driver_addr q + 4 + ucast (ucast la mod q_size q) * 2 :: u64"
    have "unat ?a + 2 \<le> unat (gm_len mem)"
      using avail_slot_address [OF "1.prems"(2,3), of la] by (simp only:)
    then have p: "gm_ptr mem ?a 2 = Inr (unat ?a)" by (simp add: gm_ptr_Inr)
    obtain m d where pr: "process_request api mem disk q (ReadU16 (gm_data mem) (unat ?a)) = (m, d, Inr ())"
      using process_request_completes [OF "1.prems"] by blast
    then have "rings_in_ram m q"
      using "1.prems" process_request_confined [OF "1.prems"(1) pr] by (simp add: rings_in_ram_def same_outside_def)
    with "1.IH" [OF False p pr [symmetric] refl refl] "1.prems" False p pr show ?thesis
      by (simp add: blk_queue_loop.simps [of api q avail mem disk la])
  qed (simp add: blk_queue_loop.simps [of api q avail mem disk avail])
qed

section \<open>Well-formed requests\<close>

text \<open>A request of three descriptors: header, one data buffer, status byte.\<close>

definition request_ok :: "guest_memory \<Rightarrow> vq \<Rightarrow> u16 \<Rightarrow> desc \<Rightarrow> desc \<Rightarrow> desc \<Rightarrow> bool" where
  "request_ok mem q head h d s \<longleftrightarrow>
     walk_chain_inline mem (q_desc_addr q) (q_size q) head = Inr [h, d, s] \<and>
     16 \<le> d_len h \<and> d_flags s AND kRingDescFWrite \<noteq> 0 \<and> 1 \<le> d_len s \<and> d_len d mod 512 = 0 \<and>
     unat (d_addr h) + 16 \<le> unat (gm_len mem) \<and> unat (d_addr d) + unat (d_len d) \<le> unat (gm_len mem) \<and>
     unat (d_addr s) + 1 \<le> unat (gm_len mem)"

definition buffer :: "desc \<Rightarrow> nat set" where
  "buffer d = {unat (d_addr d) ..< unat (d_addr d) + unat (d_len d)}"

lemma request_ptrs:
  assumes "request_ok mem q head h d s" and "gm_len m = gm_len mem"
  shows "gm_ptr m (d_addr h) 16 = Inr (unat (d_addr h))" "gm_ptr m (d_addr d) (ucast (d_len d)) = Inr (unat (d_addr d))"
    "gm_ptr m (d_addr s) 1 = Inr (unat (d_addr s))"
  using assms by (simp_all add: request_ok_def gm_ptr_Inr ucast_len)

lemma request_header:
  "request_ok mem q head h d s \<Longrightarrow> blk_header_checks mem q head = Inr ([h, d, s], unat (d_addr h))"
  using request_ptrs [of mem q head h d s mem] by (simp add: blk_header_checks_def request_ok_def Let_def)

lemma blk_try_dispatched:
  assumes req: "request_ok mem q head h d s" and rings: "rings_in_ram mem q" "vq_ok q"
    and disp: "blk_dispatch api (ReadU32 (gm_data mem) (unat (d_addr h))) (ReadU64 (gm_data mem) (unat (d_addr h) + 8)) [d] mem disk
      = (m, disk', w, st, Inr ())"
    and len: "gm_len m = gm_len mem" and apart: "unat (d_addr s) \<notin> used_area q"
  shows "\<exists>m'. process_request api mem disk q head = (m', disk', Inr ()) \<and> gm_data m' (unat (d_addr s)) = st
    \<and> (\<forall>a. a \<notin> used_area q \<and> a \<noteq> unat (d_addr s) \<longrightarrow> gm_data m' a = gm_data m a)"
proof -
  let ?m = "gm_write m (unat (d_addr s)) [st]"
  obtain m' where m': "push_used_inline ?m (q_device_addr q) (q_size q) (ucast head) (w + 1) = (m', Inr ())"
    "\<And>a. a \<notin> used_area q \<Longrightarrow> gm_data m' a = gm_data ?m a"
    using used_publish [OF rings, of ?m "ucast head" "w + 1"] len by auto
  have "blk_try api mem disk q head = (m', disk', w, Inr ())"
    using request_ptrs(3) [OF req len] m'(1)
    by (simp add: blk_try_def request_header [OF req] Let_def disp)
  moreover have "gm_data ?m a = (if a = unat (d_addr s) then st else gm_data m a)" for a
    by (simp add: gm_write_def memcpy_def)
  ultimately show ?thesis using m'(2) apart by (auto simp: process_request_def)
qed

lemma gm_read_agree:
  "(\<And>a. a \<in> buffer d \<Longrightarrow> gm_data m' a = gm_data m a)
   \<Longrightarrow> gm_read m' (unat (d_addr d)) (unat (d_len d)) = gm_read m (unat (d_addr d)) (unat (d_len d))"
  unfolding gm_read_def by (rule read_bytes_cong) (auto simp: buffer_def)

text \<open>Concrete instances: a table of three descriptors at 0x10 (header, data, status), the
  header at 0x40 and a ready queue of eight entries.\<close>

definition sample_request :: "u32 \<Rightarrow> u16 \<Rightarrow> guest_memory" where
  "sample_request type data_flags = \<lparr>gm_data = memcpy (\<lambda>_. 0) 0x10
     (le_bytes 8 (0x40 :: u64) @ le_bytes 4 (16 :: u32) @ le_bytes 2 (1 :: u16) @ le_bytes 2 (1 :: u16) @
      le_bytes 8 (0x200 :: u64) @ le_bytes 4 (512 :: u32) @ le_bytes 2 data_flags @ le_bytes 2 (2 :: u16) @
      le_bytes 8 (0x50 :: u64) @ le_bytes 4 (1 :: u32) @ le_bytes 2 (2 :: u16) @ le_bytes 2 (0 :: u16) @
      le_bytes 4 type @ le_bytes 4 (0 :: u32) @ le_bytes 8 (1 :: u64)), gm_len = 0x10000\<rparr>"

definition sample_queue :: vq where
  "sample_queue = \<lparr>q_size = 8, q_ready = True, q_last_avail = 0, q_desc_addr = 0x10, q_driver_addr = 0x800,
     q_device_addr = 0x400\<rparr>"

lemma sample_queue_ok: "vq_ok sample_queue" "rings_in_ram (sample_request type fl) sample_queue"
  by (simp_all add: vq_ok_def sample_queue_def rings_in_ram_def sample_request_def source_consts)

lemma sample_request_ok:
  "request_ok (sample_request 0 3) sample_queue 0 \<lparr>d_addr = 0x40, d_len = 16, d_flags = 1, d_next = 1\<rparr>
     \<lparr>d_addr = 0x200, d_len = 512, d_flags = 3, d_next = 2\<rparr> \<lparr>d_addr = 0x50, d_len = 1, d_flags = 2, d_next = 0\<rparr>"
  "request_ok (sample_request 1 1) sample_queue 0 \<lparr>d_addr = 0x40, d_len = 16, d_flags = 1, d_next = 1\<rparr>
     \<lparr>d_addr = 0x200, d_len = 512, d_flags = 1, d_next = 2\<rparr> \<lparr>d_addr = 0x50, d_len = 1, d_flags = 2, d_next = 0\<rparr>"
proof -
  have w: "walk_chain_inline (sample_request 0 3) 0x10 8 0 = Inr [\<lparr>d_addr = 0x40, d_len = 16, d_flags = 1, d_next = 1\<rparr>,
     \<lparr>d_addr = 0x200, d_len = 512, d_flags = 3, d_next = 2\<rparr>, \<lparr>d_addr = 0x50, d_len = 1, d_flags = 2, d_next = 0\<rparr>]"
    "walk_chain_inline (sample_request 1 1) 0x10 8 0 = Inr [\<lparr>d_addr = 0x40, d_len = 16, d_flags = 1, d_next = 1\<rparr>,
     \<lparr>d_addr = 0x200, d_len = 512, d_flags = 1, d_next = 2\<rparr>, \<lparr>d_addr = 0x50, d_len = 1, d_flags = 2, d_next = 0\<rparr>]"
    by code_simp+
  have len: "gm_len (sample_request type fl) = 0x10000" for type fl by (simp add: sample_request_def)
  show "request_ok (sample_request 0 3) sample_queue 0 \<lparr>d_addr = 0x40, d_len = 16, d_flags = 1, d_next = 1\<rparr>
     \<lparr>d_addr = 0x200, d_len = 512, d_flags = 3, d_next = 2\<rparr> \<lparr>d_addr = 0x50, d_len = 1, d_flags = 2, d_next = 0\<rparr>"
    "request_ok (sample_request 1 1) sample_queue 0 \<lparr>d_addr = 0x40, d_len = 16, d_flags = 1, d_next = 1\<rparr>
     \<lparr>d_addr = 0x200, d_len = 512, d_flags = 1, d_next = 2\<rparr> \<lparr>d_addr = 0x50, d_len = 1, d_flags = 2, d_next = 0\<rparr>"
    by (simp_all add: request_ok_def sample_queue_def w len source_consts)
qed

lemma sample_header:
  "ReadU32 (gm_data (sample_request 0 3)) 64 = 0" "ReadU64 (gm_data (sample_request 0 3)) 72 = 1"
  "ReadU32 (gm_data (sample_request 1 1)) 64 = 1" "ReadU64 (gm_data (sample_request 1 1)) 72 = 1"
  by code_simp+

section \<open>Properties\<close>

text \<open>Whatever a guest writes to the device's registers and whatever it puts into its rings,
  the device never changes host memory outside guest RAM, never writes the base image under an
  overlay, and never changes a read-only disk; only that ReadFile does not return more bytes than
  asked for is assumed of the host.\<close>

theorem blk_device_confined:
  assumes "api_bounded api" and "b = run (blk_step api) (blk_init base mem disk) accs"
  shows "same_outside mem (b_mem b) \<and> (has_overlay disk \<longrightarrow> vd_base (b_disk b) = vd_base disk)
    \<and> (vd_read_only disk \<longrightarrow> b_disk b = disk)"
  using blk_run_confined [OF assms(1) blk_init_ok, of base mem disk accs] assms(2)
  by (auto simp: blk_confined_def blk_init_def disk_protected_def)

theorem blk_device_confined_witness:
  "vd_base (b_disk (run (blk_step list_api) (blk_init 0xD0000000 \<lparr>gm_data = (\<lambda>_. 0), gm_len = 0x10000\<rparr> sample_disk)
     [(0xD0000044, [1, 0, 0, 0]), (0xD0000050, [0, 0, 0, 0])])) = replicate 1024 7"
proof -
  have "api_bounded list_api" by (simp add: api_bounded_def list_api_def)
  from blk_device_confined [OF this refl, where disk = sample_disk]
  show ?thesis by (simp add: sample_disk_ok(2) del: run.simps) (simp add: sample_disk_def)
qed

text \<open>When the rings of a ready queue lie in guest RAM, a notification always returns without
  an exception, having consumed every available request and raised the interrupt, for every content
  of the rings, the descriptors and the disk: malformed requests are completed with an error.\<close>

theorem blk_notify_completes:
  assumes "api_bounded api" and "blk_ok b" and "v < 8" and "q = b_queues b ! unat v" and "q_ready q"
    and "rings_in_ram (b_mem b) q"
  shows "\<exists>b'. blk_notify api b v = (b', True, Inr ())
    \<and> q_last_avail (b_queues b' ! unat v) = ReadU16 (gm_data (b_mem b)) (unat (q_driver_addr q) + 2)
    \<and> bit (b_interrupt_status b') 0"
proof -
  have q: "vq_ok q" using assms(2-4) by (simp add: blk_ok_def word_less_nat_alt)
  have two: "unat (q_driver_addr q) + 4 \<le> unat (gm_len (b_mem b))" using assms(6) by (simp add: rings_in_ram_def)
  have "unat (q_driver_addr q + 2) = unat (q_driver_addr q) + 2" by (rule avail_index_address [OF assms(6)])
  then have "gm_ptr (b_mem b) (q_driver_addr q + 2) 2 = Inr (unat (q_driver_addr q) + 2)"
    using two by (simp add: gm_ptr_Inr)
  moreover obtain m d where "blk_queue_loop api q (ReadU16 (gm_data (b_mem b)) (unat (q_driver_addr q) + 2))
      (b_mem b) (b_disk b) (q_last_avail q) = (m, d, ReadU16 (gm_data (b_mem b)) (unat (q_driver_addr q) + 2), Inr ())"
    using blk_queue_loop_completes [OF assms(1,6) q] by blast
  ultimately have "handle_queue api (b_mem b) (b_disk b) q =
      (m, d, ReadU16 (gm_data (b_mem b)) (unat (q_driver_addr q) + 2), Inr ())"
    unfolding handle_queue_def by (simp only: sum.case)
  then show ?thesis using assms(2-5)
    by (simp add: blk_notify_def Let_def blk_ok_def word_less_nat_alt kInterruptVring_def bit_simps)
qed

theorem blk_notify_completes_witness:
  "\<exists>b'. blk_notify list_api ((blk_init 0xD0000000 (sample_request 0 3) sample_disk)
       \<lparr>b_queues := sample_queue # replicate 7 vq_default\<rparr>) 0 = (b', True, Inr ()) \<and> bit (b_interrupt_status b') 0"
proof -
  let ?b = "(blk_init 0xD0000000 (sample_request 0 3) sample_disk)\<lparr>b_queues := sample_queue # replicate 7 vq_default\<rparr>"
  have api: "api_bounded list_api" by (simp add: api_bounded_def list_api_def)
  have ok: "blk_ok ?b" using sample_queue_ok(1) by (simp add: blk_ok_def blk_init_def vq_default_def vq_ok_def less_Suc_eq_0_disj nth_Cons' source_consts)
  have rings: "rings_in_ram (b_mem ?b) (b_queues ?b ! unat 0)" using sample_queue_ok(2) by (simp add: blk_init_def)
  have ready: "q_ready (b_queues ?b ! unat 0)" by (simp add: sample_queue_def)
  from blk_notify_completes [OF api ok _ refl ready rings] show ?thesis by auto
qed

text \<open>C22. A well-formed read request of whole sectors inside the disk fills the guest's buffer with
  exactly the disk's bytes at the requested sector, sets the status byte to OK and completes, leaving
  all other guest memory outside the used ring as it was.\<close>

theorem blk_read_request:
  assumes "api_reliable api contents" and "disk_ok contents disk"
    and req: "request_ok mem q head h d s" and rings: "rings_in_ram mem q" "vq_ok q"
    and "ReadU32 (gm_data mem) (unat (d_addr h)) = 0" and "d_flags d AND kRingDescFWrite \<noteq> 0"
    and "sector = ReadU64 (gm_data mem) (unat (d_addr h) + 8)"
    and "unat sector * 512 + unat (d_len d) \<le> unat (vd_disk_bytes disk)"
    and apart: "unat (d_addr s) \<notin> used_area q" "buffer d \<inter> used_area q = {}" "unat (d_addr s) \<notin> buffer d"
  shows "\<exists>m'. process_request api mem disk q head = (m', disk, Inr ()) \<and> gm_data m' (unat (d_addr s)) = 0
    \<and> gm_read m' (unat (d_addr d)) (unat (d_len d)) = take (unat (d_len d)) (drop (unat sector * 512) (disk_view contents disk))
    \<and> (\<forall>a. a \<notin> used_area q \<union> buffer d \<and> a \<noteq> unat (d_addr s) \<longrightarrow> gm_data m' a = gm_data mem a)"
proof -
  let ?bs = "take (unat (d_len d)) (drop (unat sector * 512) (disk_view contents disk))"
  let ?m = "gm_write mem (unat (d_addr d)) ?bs"
  have len: "length ?bs = unat (d_len d)" using assms(9) by simp
  have rd: "ReadDisk api disk sector (ucast (d_len d)) = (?bs, Inr ())"
    using ReadDisk_view [OF assms(1,2), of sector "ucast (d_len d)"] assms(9) by (simp add: ucast_len)
  have disp: "blk_dispatch api (ReadU32 (gm_data mem) (unat (d_addr h))) (ReadU64 (gm_data mem) (unat (d_addr h) + 8)) [d] mem disk
      = (?m, disk, d_len d, 0, Inr ())"
    using request_ptrs(2) [OF req refl] req assms(7)
    by (simp add: blk_dispatch_def assms(6) assms(8) [symmetric] rd request_ok_def)
  obtain m' where m': "process_request api mem disk q head = (m', disk, Inr ())" "gm_data m' (unat (d_addr s)) = 0"
    "\<And>a. a \<notin> used_area q \<Longrightarrow> a \<noteq> unat (d_addr s) \<Longrightarrow> gm_data m' a = gm_data ?m a"
    using blk_try_dispatched [OF req rings disp _ apart(1)] by auto
  have "gm_read m' (unat (d_addr d)) (unat (d_len d)) = gm_read ?m (unat (d_addr d)) (unat (d_len d))"
    using apart by (intro gm_read_agree m'(3)) auto
  moreover have "gm_read ?m (unat (d_addr d)) (unat (d_len d)) = ?bs"
    using gm_read_gm_write [of mem "unat (d_addr d)" ?bs] unfolding len .
  moreover have "a \<notin> buffer d \<Longrightarrow> gm_data ?m a = gm_data mem a" for a
    unfolding buffer_def gm_write_def using memcpy_outside [of a "unat (d_addr d)" ?bs "gm_data mem"]
    unfolding len by auto
  ultimately show ?thesis using m' by (intro exI [of _ m']) simp
qed

theorem blk_read_request_witness:
  "\<exists>m'. process_request list_api (sample_request 0 3) sample_disk sample_queue 0 = (m', sample_disk, Inr ())
     \<and> gm_data m' 0x50 = 0 \<and> gm_read m' 0x200 512 = replicate 512 7"
proof -
  note r = blk_read_request [OF list_api_reliable sample_disk_ok(1) sample_request_ok(1) sample_queue_ok(2,1), where sector = 1]
  have view: "take 512 (drop 512 (disk_view (\<lambda>f. f) sample_disk)) = replicate 512 7"
  proof (rule nth_equalityI)
    fix i assume "i < length (take 512 (drop 512 (disk_view (\<lambda>f. f) sample_disk)))"
    then have i: "i < 512" "(512 + i) div 512 = 1" by (simp_all add: sample_disk_def)
    then show "take 512 (drop 512 (disk_view (\<lambda>f. f) sample_disk)) ! i = replicate 512 7 ! i"
      by (simp add: disk_view_def sample_disk_def sector_dirty_def has_overlay_def)
  qed (simp add: sample_disk_def)
  have "unat (vd_disk_bytes sample_disk) = 1024" by (simp add: sample_disk_def)
  then show ?thesis using r
    by (simp add: sample_header source_consts used_area_def buffer_def sample_queue_def view) blast
qed

text \<open>C16. A well-formed write request of whole sectors inside a writable disk changes the disk, as
  the guest sees it, exactly at the requested sectors to the bytes of the guest's buffer, keeps the
  disk consistent, and completes with status OK.\<close>

theorem blk_write_request:
  assumes "api_reliable api contents" and "disk_ok contents disk" and "\<not> vd_read_only disk"
    and req: "request_ok mem q head h d s" and rings: "rings_in_ram mem q" "vq_ok q"
    and "ReadU32 (gm_data mem) (unat (d_addr h)) = 1" and "d_flags d AND kRingDescFWrite = 0"
    and "sector = ReadU64 (gm_data mem) (unat (d_addr h) + 8)"
    and "unat sector * 512 + unat (d_len d) \<le> unat (vd_disk_bytes disk)"
    and apart: "unat (d_addr s) \<notin> used_area q"
  shows "\<exists>m' disk'. process_request api mem disk q head = (m', disk', Inr ()) \<and> gm_data m' (unat (d_addr s)) = 0
    \<and> disk_ok contents disk' \<and> disk_view contents disk' =
       buf_put (disk_view contents disk) (unat sector * 512) (gm_read mem (unat (d_addr d)) (unat (d_len d)))"
proof -
  let ?src = "gm_read mem (unat (d_addr d)) (unat (d_len d))"
  have len: "length ?src = unat (d_len d)" by (simp add: gm_read_def)
  have "unat (d_len d) mod 512 = 0"
    using req unat_mod [of "d_len d" 512] by (simp add: request_ok_def)
  then obtain L where "length ?src = L * 512" using len by (metis dvd_def mod_0_imp_dvd mult.commute)
  then obtain disk' where wd: "WriteDisk api disk sector ?src = (disk', Inr ())" "disk_ok contents disk'"
    "disk_view contents disk' = buf_put (disk_view contents disk) (unat sector * 512) ?src"
    using WriteDisk_view [OF assms(1-3), of sector ?src L] assms(10) len by auto
  have disp: "blk_dispatch api (ReadU32 (gm_data mem) (unat (d_addr h))) (ReadU64 (gm_data mem) (unat (d_addr h) + 8)) [d] mem disk
      = (mem, disk', 0, 0, Inr ())"
    using request_ptrs(2) [OF req refl] req assms(8)
    by (simp add: blk_dispatch_def assms(7) assms(9) [symmetric] wd(1) request_ok_def)
  from blk_try_dispatched [OF req rings disp refl apart] show ?thesis using wd(2,3) by auto
qed

theorem blk_write_request_witness:
  "\<exists>m' disk'. process_request list_api (sample_request 1 1) sample_disk sample_queue 0 = (m', disk', Inr ())
     \<and> gm_data m' 0x50 = 0 \<and> disk_ok (\<lambda>f. f) disk' \<and> disk_view (\<lambda>f. f) disk' =
       buf_put (disk_view (\<lambda>f. f) sample_disk) 512 (gm_read (sample_request 1 1) 0x200 512)"
proof -
  have "unat (vd_disk_bytes sample_disk) = 1024" by (simp add: sample_disk_def)
  then show ?thesis
    using blk_write_request [OF list_api_reliable sample_disk_ok(1,3) sample_request_ok(2) sample_queue_ok(2,1), where sector = 1]
    by (simp add: sample_header source_consts used_area_def sample_queue_def)
qed

end
