(* ===== verification/Virtio_Rng.thy ===== *)
theory Virtio_Rng
  imports Queue_State
begin

unbundle bit_operations_syntax

text \<open>
  The virtio-rng device (native/whp/virtio/rng.h, rng.cc). BCryptGenRandom is a parameter: the
  \<open>k\<close>-th call of a device for \<open>n\<close> bytes gives \<open>rand k n\<close>, whether it succeeded and the bytes it
  stored. Only the Check in fill_random throws; a bad guest address makes the other helpers
  skip or stop, so their results are plain values. The raise_irq call-back is the boolean
  result of a register write.
\<close>

type_synonym rand_gen = "nat \<Rightarrow> nat \<Rightarrow> bool \<times> bytes"

record rng =
  r_mmio_base :: u64
  r_mem :: guest_memory
  r_queue :: vq
  r_status :: u32
  r_drv_features :: u64
  r_dev_features_sel :: u32
  r_drv_features_sel :: u32
  r_queue_sel :: u32
  r_interrupt_status :: u32
  r_calls :: nat

definition rng_queue_default :: vq where
  "rng_queue_default = \<lparr>q_size = 64, q_ready = False, q_last_avail = 0, q_desc_addr = 0, q_driver_addr = 0, q_device_addr = 0\<rparr>"

definition rng_init :: "u64 \<Rightarrow> guest_memory \<Rightarrow> rng" where
  "rng_init mmio_base mem =
     \<lparr>r_mmio_base = mmio_base, r_mem = mem, r_queue = rng_queue_default, r_status = 0, r_drv_features = 0,
      r_dev_features_sel = 0, r_drv_features_sel = 0, r_queue_sel = 0, r_interrupt_status = 0, r_calls = 0\<rparr>"

section \<open>Requests\<close>

text \<open>Memory, number of generator calls so far, and whether the Check threw.\<close>

function fill_random :: "rand_gen \<Rightarrow> guest_memory \<Rightarrow> nat \<Rightarrow> nat \<Rightarrow> nat \<Rightarrow> guest_memory \<times> nat \<times> unit result" where
  "fill_random rand mem k dst len =
    (if len = 0 then (mem, k, Inr ())
     else let chunk = min len 0x100000;
              (ok, bs) = rand k chunk;
              mem = gm_write mem dst bs
          in if \<not> ok then (mem, k + 1, Inl ''BCryptGenRandom failed'')
             else fill_random rand mem (k + 1) (dst + chunk) (len - chunk))"
  by pat_completeness auto

termination
  by (relation "measure (\<lambda>(_, _, _, _, len). len)") auto

declare fill_random.simps [simp del]

text \<open>One descriptor: a writable buffer inside guest RAM is filled.\<close>

definition service_desc :: "rand_gen \<Rightarrow> guest_memory \<Rightarrow> nat \<Rightarrow> desc \<Rightarrow> u32 \<Rightarrow> guest_memory \<times> nat \<times> u32 result" where
  "service_desc rand mem k d written =
    (if d_flags d AND kRingDescFWrite \<noteq> 0 \<and> 0 < d_len d
     then case ptr_or_null mem (d_addr d) (ucast (d_len d)) of
            None \<Rightarrow> (mem, k, Inr written)
          | Some dst \<Rightarrow>
             (case fill_random rand mem k dst (unat (d_len d)) of
                (mem, k, Inl e) \<Rightarrow> (mem, k, Inl e)
              | (mem, k, Inr _) \<Rightarrow> (mem, k, Inr (written + d_len d)))
     else (mem, k, Inr written))"

fun service_loop ::
  "rand_gen \<Rightarrow> vq \<Rightarrow> nat \<Rightarrow> guest_memory \<Rightarrow> nat \<Rightarrow> u16 list \<Rightarrow> u16 \<Rightarrow> u32 \<Rightarrow> guest_memory \<times> nat \<times> u32 result" where
  "service_loop rand q 0 mem k seen idx written = (mem, k, Inr written)"
| "service_loop rand q (Suc hops) mem k seen idx written =
    (if q_size q \<le> ucast idx \<or> idx \<in> set seen then (mem, k, Inr written)
     else case ptr_or_null mem (q_desc_addr q + ucast idx * 16) 16 of
       None \<Rightarrow> (mem, k, Inr written)
     | Some p \<Rightarrow>
        let d = read_desc mem p
        in case service_desc rand mem k d written of
             (mem', k', Inl e) \<Rightarrow> (mem', k', Inl e)
           | (mem', k', Inr written') \<Rightarrow>
              if d_flags d AND kRingDescFNext = 0 then (mem', k', Inr written')
              else service_loop rand q hops mem' k' (idx # seen) (d_next d) written')"

definition service_chain :: "rand_gen \<Rightarrow> vq \<Rightarrow> guest_memory \<Rightarrow> nat \<Rightarrow> u16 \<Rightarrow> guest_memory \<times> nat \<times> u32 result" where
  "service_chain rand q mem k head = service_loop rand q (unat (q_size q)) mem k [] head 0"

definition rng_push_used :: "guest_memory \<Rightarrow> vq \<Rightarrow> u16 \<Rightarrow> u32 \<Rightarrow> guest_memory" where
  "rng_push_used mem q ident written =
    (case ptr_or_null mem (q_device_addr q + 2) 2 of None \<Rightarrow> mem | Some idxp \<Rightarrow>
     if q_size q = 0 then mem
     else let used = ReadU16 (gm_data mem) idxp;
              entry = q_device_addr q + 4 + ucast (ucast used mod q_size q) * 8
          in case ptr_or_null mem entry 8 of None \<Rightarrow> mem | Some elem \<Rightarrow>
             mem\<lparr>gm_data := WriteU16 (WriteU32 (WriteU32 (gm_data mem) elem (ucast ident)) (elem + 4) written) idxp (used + 1)\<rparr>)"

text \<open>The loop of handle_queue: memory, generator calls, last_avail, processed.\<close>

function rng_queue_loop ::
  "rand_gen \<Rightarrow> vq \<Rightarrow> u16 \<Rightarrow> guest_memory \<Rightarrow> nat \<Rightarrow> u16 \<Rightarrow> bool \<Rightarrow> guest_memory \<times> nat \<times> u16 \<times> bool result" where
  "rng_queue_loop rand q avail_idx mem k last_avail processed =
    (if last_avail = avail_idx then (mem, k, last_avail, Inr processed)
     else case ptr_or_null mem (q_driver_addr q + 4 + ucast (ucast last_avail mod q_size q) * 2) 2 of
       None \<Rightarrow> (mem, k, last_avail, Inr processed)
     | Some headp \<Rightarrow>
        let head = ReadU16 (gm_data mem) headp
        in case service_chain rand q mem k head of
             (mem', k', Inl e) \<Rightarrow> (mem', k', last_avail + 1, Inl e)
           | (mem', k', Inr written) \<Rightarrow>
              rng_queue_loop rand q avail_idx (rng_push_used mem' q head written) k' (last_avail + 1) True)"
  by pat_completeness auto

termination
  by (relation "measure (\<lambda>(_, _, avail_idx, _, _, last_avail, _). unat (avail_idx - last_avail))")
    (auto simp: avail_distance_decreases)

declare rng_queue_loop.simps [simp del]

definition rng_handle_queue :: "rand_gen \<Rightarrow> rng \<Rightarrow> rng \<times> bool \<times> unit result" where
  "rng_handle_queue rand r =
    (let q = r_queue r
     in if \<not> q_ready q \<or> q_size q = 0 \<or> q_desc_addr q = 0 \<or> q_driver_addr q = 0 \<or> q_device_addr q = 0
        then (r, False, Inr ())
        else case ptr_or_null (r_mem r) (q_driver_addr q + 2) 2 of None \<Rightarrow> (r, False, Inr ()) | Some p \<Rightarrow>
          (case rng_queue_loop rand q (ReadU16 (gm_data (r_mem r)) p) (r_mem r) (r_calls r) (q_last_avail q) False of
             (mem, k, la, res) \<Rightarrow>
               let r' = r\<lparr>r_mem := mem, r_calls := k, r_queue := q\<lparr>q_last_avail := la\<rparr>\<rparr>
               in case res of Inl e \<Rightarrow> (r', False, Inl e)
                  | Inr processed \<Rightarrow>
                     if \<not> processed then (r', False, Inr ())
                     else let flags = (case ptr_or_null mem (q_driver_addr q) 2 of None \<Rightarrow> 0 | Some fp \<Rightarrow> ReadU16 (gm_data mem) fp)
                          in if flags AND kRingAvailFNoInterrupt = 0
                             then (r'\<lparr>r_interrupt_status := r_interrupt_status r' OR kInterruptVring\<rparr>, True, Inr ())
                             else (r', False, Inr ())))"

section \<open>Registers\<close>

definition rng_reset :: "rng \<Rightarrow> rng" where
  "rng_reset r = r\<lparr>r_status := 0, r_drv_features := 0, r_dev_features_sel := 0, r_drv_features_sel := 0,
     r_queue_sel := 0, r_interrupt_status := 0, r_queue := rng_queue_default\<rparr>"

definition rng_read_reg :: "rng \<Rightarrow> u32 \<Rightarrow> u32" where
  "rng_read_reg r off =
    (if off = kMmioMagicValue then kMagic
     else if off = kMmioVersion then kVersion
     else if off = kMmioDeviceId then 4
     else if off = kMmioVendorId then kVendor
     else if off = kMmioDeviceFeatures
     then (if r_dev_features_sel r = 1 then ucast (drop_bit 32 kFVersion1) else 0)
     else if off = kMmioQueueNumMax then 64
     else if off = kMmioQueueReady then (if q_ready (r_queue r) then 1 else 0)
     else if off = kMmioInterruptStatus then r_interrupt_status r
     else if off = kMmioStatus then r_status r
     else if off = kMmioConfigGeneration then 0
     else 0)"

definition rng_read_mmio :: "rng \<Rightarrow> u64 \<Rightarrow> u32 \<Rightarrow> bytes" where
  "rng_read_mmio r addr n =
    (if n \<noteq> 4 then replicate (unat n) 0
     else le_bytes 4 (rng_read_reg r (ucast (addr - r_mmio_base r))))"

definition rng_set_queue :: "rng \<Rightarrow> (vq \<Rightarrow> vq) \<Rightarrow> rng" where
  "rng_set_queue r f = r\<lparr>r_queue := f (r_queue r)\<rparr>"

definition rng_write_reg :: "rand_gen \<Rightarrow> rng \<Rightarrow> u32 \<Rightarrow> u32 \<Rightarrow> rng \<times> bool \<times> unit result" where
  "rng_write_reg rand r off value =
    (let done_with = (\<lambda>r. (r, False, Inr ()))
     in if off = kMmioDeviceFeaturesSel then done_with (r\<lparr>r_dev_features_sel := value\<rparr>)
     else if off = kMmioDriverFeaturesSel then done_with (r\<lparr>r_drv_features_sel := value\<rparr>)
     else if off = kMmioDriverFeatures
     then done_with (r\<lparr>r_drv_features := (if r_drv_features_sel r = 0 then set_low (r_drv_features r) value
                                      else set_high (r_drv_features r) value)\<rparr>)
     else if off = kMmioQueueSel then done_with (r\<lparr>r_queue_sel := value\<rparr>)
     else if off = kMmioQueueNum
     then done_with (if r_queue_sel r = 0 \<and> 1 \<le> value \<and> value \<le> 64 then rng_set_queue r (\<lambda>q. q\<lparr>q_size := value\<rparr>) else r)
     else if off = kMmioQueueReady
     then done_with (if r_queue_sel r = 0 then rng_set_queue r (\<lambda>q. q\<lparr>q_ready := (value \<noteq> 0)\<rparr>) else r)
     else if off = kMmioQueueNotify then (if value = 0 then rng_handle_queue rand r else done_with r)
     else if off = kMmioInterruptAck then done_with (r\<lparr>r_interrupt_status := r_interrupt_status r AND NOT value\<rparr>)
     else if off = kMmioStatus then done_with (if value = 0 then rng_reset r else r\<lparr>r_status := value\<rparr>)
     else if off = kMmioQueueDescLow then done_with (rng_set_queue r (\<lambda>q. q\<lparr>q_desc_addr := set_low (q_desc_addr q) value\<rparr>))
     else if off = kMmioQueueDescHigh then done_with (rng_set_queue r (\<lambda>q. q\<lparr>q_desc_addr := set_high (q_desc_addr q) value\<rparr>))
     else if off = kMmioQueueDriverLow then done_with (rng_set_queue r (\<lambda>q. q\<lparr>q_driver_addr := set_low (q_driver_addr q) value\<rparr>))
     else if off = kMmioQueueDriverHigh then done_with (rng_set_queue r (\<lambda>q. q\<lparr>q_driver_addr := set_high (q_driver_addr q) value\<rparr>))
     else if off = kMmioQueueDeviceLow then done_with (rng_set_queue r (\<lambda>q. q\<lparr>q_device_addr := set_low (q_device_addr q) value\<rparr>))
     else if off = kMmioQueueDeviceHigh then done_with (rng_set_queue r (\<lambda>q. q\<lparr>q_device_addr := set_high (q_device_addr q) value\<rparr>))
     else done_with r)"

definition rng_write_mmio :: "rand_gen \<Rightarrow> rng \<Rightarrow> u64 \<Rightarrow> bytes \<Rightarrow> rng \<times> bool \<times> unit result" where
  "rng_write_mmio rand r addr data =
    (if length data \<noteq> 4 then (r, False, Inr ())
     else rng_write_reg rand r (ucast (addr - r_mmio_base r)) (ReadU32 ((!) data) 0))"

section \<open>Confinement\<close>

definition rand_bounded :: "rand_gen \<Rightarrow> bool" where
  "rand_bounded rand \<longleftrightarrow> (\<forall>k n. length (snd (rand k n)) \<le> n)"

lemma fill_random_safe:
  "\<lbrakk>rand_bounded rand; dst + len \<le> unat (gm_len mem)\<rbrakk> \<Longrightarrow> same_outside mem (fst (fill_random rand mem k dst len))"
proof (induction rand mem k dst len rule: fill_random.induct)
  case (1 rand mem k dst len)
  show ?case
  proof (cases "len = 0")
    case False
    let ?n = "min len 0x100000"
    obtain ok bs where r: "rand k ?n = (ok, bs)" by fastforce
    then have "length bs \<le> ?n" using "1.prems"(1) by (metis rand_bounded_def snd_conv)
    then have s: "same_outside mem (gm_write mem dst bs)"
      using "1.prems"(2) by (intro same_outside_gm_write) linarith
    have "dst + ?n + (len - ?n) \<le> unat (gm_len (gm_write mem dst bs))" using "1.prems"(2) by simp
    with "1.IH" [OF False refl r [symmetric] refl refl] "1.prems"(1)
    have "ok \<Longrightarrow> same_outside (gm_write mem dst bs) (fst (fill_random rand (gm_write mem dst bs) (k + 1) (dst + ?n) (len - ?n)))"
      by simp
    with s False r show ?thesis
      by (subst fill_random.simps) (auto simp: Let_def intro: same_outside_trans)
  qed (simp add: fill_random.simps)
qed

lemma service_desc_safe:
  assumes "rand_bounded rand"
  shows "same_outside mem (fst (service_desc rand mem k d written))"
proof (cases "ptr_or_null mem (d_addr d) (ucast (d_len d))")
  case (Some dst)
  then have "same_outside mem (fst (fill_random rand mem k dst (unat (d_len d))))"
    by (intro fill_random_safe [OF assms]) (simp add: ptr_or_null_Some ucast_len)
  with Some show ?thesis by (auto simp: service_desc_def split: prod.split sum.split)
qed (simp add: service_desc_def)

lemma service_loop_safe:
  assumes "rand_bounded rand"
  shows "same_outside mem (fst (service_loop rand q hops mem k seen idx written))"
proof (induction hops arbitrary: mem k seen idx written)
  case (Suc hops)
  show ?case
  proof (cases "ptr_or_null mem (q_desc_addr q + ucast idx * 16) 16")
    case (Some p)
    obtain m k' r where d: "service_desc rand mem k (read_desc mem p) written = (m, k', r)" using prod_cases3 by blast
    then have "same_outside mem m" using service_desc_safe [OF assms, of mem k "read_desc mem p" written] by simp
    then show ?thesis using Suc.IH [of m k']
      by (cases r) (auto simp: Some d Let_def intro: same_outside_trans)
  qed simp
qed simp

lemma rng_push_used_inline:
  "rng_push_used mem q ident w =
     (if q_size q = 0 then mem else fst (push_used_inline mem (q_device_addr q) (q_size q) (ucast ident) w))"
proof -
  let ?u = "ReadU16 (gm_data mem) (unat (q_device_addr q + 2))"
  let ?e = "q_device_addr q + 4 + ucast (ucast ?u mod q_size q) * 8"
  have second: "gm_ptr mem ?e 8 = Inr (unat ?e) \<Longrightarrow> gm_ptr (mem\<lparr>gm_data := d\<rparr>) (?e + 4) 4 = Inr (unat ?e + 4)" for d
  proof -
    assume "gm_ptr mem ?e 8 = Inr (unat ?e)"
    then have room: "unat ?e + 8 \<le> unat (gm_len mem)" by (simp add: gm_ptr_Inr)
    then have "unat ?e + unat (4 :: u64) < 2 ^ LENGTH(64)" using unat_u64_less [of "gm_len mem"] by simp
    then have "unat (?e + 4) = unat ?e + unat (4 :: u64)" by (rule unat_add_no_wrap)
    with room show ?thesis by (simp add: gm_ptr_Inr)
  qed
  have ptr: "gm_ptr mem a n = Inr p \<Longrightarrow> p = unat a" for a n p by (simp add: gm_ptr_Inr)
  show ?thesis
  proof (cases "gm_ptr mem (q_device_addr q + 2) 2")
    case (Inr p)
    with ptr have p: "gm_ptr mem (q_device_addr q + 2) 2 = Inr (unat (q_device_addr q + 2))" by metis
    show ?thesis
    proof (cases "gm_ptr mem ?e 8")
      case (Inr e)
      with ptr have e: "gm_ptr mem ?e 8 = Inr (unat ?e)" by metis
      show ?thesis
        unfolding rng_push_used_def push_used_inline_def ptr_or_null_gm_ptr Let_def p e second [OF e] sum.case option.case
        by simp
    qed (simp add: rng_push_used_def push_used_inline_def ptr_or_null_gm_ptr Let_def p)
  qed (simp add: rng_push_used_def push_used_inline_def ptr_or_null_gm_ptr)
qed

lemma rng_push_used_safe: "same_outside mem (rng_push_used mem q ident w)"
  by (simp add: rng_push_used_inline push_used_safe)

lemma rng_queue_loop_safe:
  "rand_bounded rand \<Longrightarrow> same_outside mem (fst (rng_queue_loop rand q avail mem k la processed))"
proof (induction rand q avail mem k la processed rule: rng_queue_loop.induct)
  case (1 rand q avail mem k la processed)
  let ?a = "q_driver_addr q + 4 + ucast (ucast la mod q_size q) * 2"
  show ?case
  proof (cases "la = avail \<or> ptr_or_null mem ?a 2 = None")
    case False
    then obtain hp where hp: "ptr_or_null mem ?a 2 = Some hp" by auto
    let ?h = "ReadU16 (gm_data mem) hp"
    obtain m k' r where s: "service_chain rand q mem k ?h = (m, k', r)" using prod_cases3 by blast
    have m: "same_outside mem m"
      using service_loop_safe [OF "1.prems", of mem q _ k "[]" ?h 0] s unfolding service_chain_def by (metis fst_conv)
    show ?thesis
    proof (cases r)
      case (Inr w)
      have "same_outside (rng_push_used m q ?h w) (fst (rng_queue_loop rand q avail (rng_push_used m q ?h w) k' (la + 1) True))"
        using "1.IH" [OF _ hp refl s [symmetric] refl Inr "1.prems"] False by simp
      then have "same_outside mem (fst (rng_queue_loop rand q avail (rng_push_used m q ?h w) k' (la + 1) True))"
        using m rng_push_used_safe by (blast intro: same_outside_trans)
      with False hp s Inr show ?thesis by (subst rng_queue_loop.simps) (simp add: Let_def)
    qed (use False hp s m in \<open>subst rng_queue_loop.simps, simp add: Let_def\<close>)
  qed (subst rng_queue_loop.simps, auto)
qed

definition rng_ok :: "rng \<Rightarrow> bool" where
  "rng_ok r \<longleftrightarrow> 0 < q_size (r_queue r) \<and> q_size (r_queue r) \<le> 64"

definition rng_step :: "rand_gen \<Rightarrow> rng \<Rightarrow> u64 \<times> bytes \<Rightarrow> rng" where
  "rng_step rand r w = fst (rng_write_mmio rand r (fst w) (snd w))"

definition rng_rel :: "rng \<Rightarrow> rng \<Rightarrow> bool" where
  "rng_rel r r' \<longleftrightarrow> same_outside (r_mem r) (r_mem r') \<and> (rng_ok r \<longrightarrow> rng_ok r')"

lemma rng_handle_queue_rel:
  assumes "rand_bounded rand"
  shows "rng_rel r (fst (rng_handle_queue rand r))"
proof (cases "ptr_or_null (r_mem r) (q_driver_addr (r_queue r) + 2) 2")
  case (Some p)
  obtain m k la res where l: "rng_queue_loop rand (r_queue r) (ReadU16 (gm_data (r_mem r)) p) (r_mem r) (r_calls r)
      (q_last_avail (r_queue r)) False = (m, k, la, res)" using prod_cases4 by blast
  then have "same_outside (r_mem r) m"
    using rng_queue_loop_safe [OF assms] by (metis fst_conv)
  then show ?thesis
    by (cases res) (simp_all add: rng_handle_queue_def Let_def Some l rng_rel_def rng_ok_def)
qed (simp add: rng_handle_queue_def Let_def rng_rel_def)

lemma rng_set_queue_rel:
  "(\<And>q. 0 < q_size q \<and> q_size q \<le> 64 \<Longrightarrow> 0 < q_size (f q) \<and> q_size (f q) \<le> 64) \<Longrightarrow> rng_rel r (rng_set_queue r f)"
  by (simp add: rng_rel_def rng_ok_def rng_set_queue_def)

lemma rng_write_reg_rel:
  assumes "rand_bounded rand"
  shows "rng_rel r (fst (rng_write_reg rand r off v))"
proof -
  have split: "rng_rel r (fst x) \<Longrightarrow> rng_rel r (fst y) \<Longrightarrow> rng_rel r (fst (if c then x else y))"
    for c and x y :: "rng \<times> bool \<times> unit result" by simp
  have reset: "rng_rel r (rng_reset r)" by (simp add: rng_rel_def rng_ok_def rng_reset_def rng_queue_default_def)
  have size: "1 \<le> v \<Longrightarrow> v \<le> 64 \<Longrightarrow> rng_rel r (rng_set_queue r (\<lambda>q. q\<lparr>q_size := v\<rparr>))"
    by (rule rng_set_queue_rel) (simp add: word_less_nat_alt word_le_nat_alt)
  have same: "r_mem r' = r_mem r \<Longrightarrow> r_queue r' = r_queue r \<Longrightarrow> rng_rel r r'" for r'
    by (simp add: rng_rel_def rng_ok_def)
  show ?thesis unfolding rng_write_reg_def Let_def
    by (intro split) (use reset size rng_handle_queue_rel [OF assms] in \<open>simp_all add: same rng_set_queue_rel\<close>)
qed

interpretation rng_machine: invariant_machine "rng_step rand" "\<lambda>_. True" for rand
  by unfold_locales simp

section \<open>What a request receives\<close>

definition rand_reliable :: "rand_gen \<Rightarrow> bool" where
  "rand_reliable rand \<longleftrightarrow> (\<forall>k n. n \<le> 0x100000 \<longrightarrow> fst (rand k n) \<and> length (snd (rand k n)) = n)"

text \<open>The bytes of consecutive generator calls of at most 1 MiB each.\<close>

definition chunk_count :: "nat \<Rightarrow> nat" where
  "chunk_count len = (len + 0xFFFFF) div 0x100000"

definition random_bytes :: "rand_gen \<Rightarrow> nat \<Rightarrow> nat \<Rightarrow> bytes" where
  "random_bytes rand k len =
     concat (map (\<lambda>i. snd (rand (k + i) (min (len - i * 0x100000) 0x100000))) [0 ..< chunk_count len])"

lemma chunk_count_step: "0 < len \<Longrightarrow> chunk_count len = Suc (chunk_count (len - min len 0x100000))"
proof (cases "len \<le> 0x100000")
  case False
  then have "len + 0xFFFFF = (len - 0x100000 + 0xFFFFF) + 0x100000" by simp
  then show ?thesis using False unfolding chunk_count_def by simp
qed (simp add: chunk_count_def div_nat_eqI)

lemma random_bytes_step:
  assumes "0 < len"
  shows "random_bytes rand k len =
    snd (rand k (min len 0x100000)) @ random_bytes rand (k + 1) (len - min len 0x100000)"
proof -
  have "len - Suc i * 0x100000 = len - min len 0x100000 - i * 0x100000" for i by (simp add: min_def)
  then show ?thesis
    by (simp add: random_bytes_def chunk_count_step [OF assms] upt_conv_Cons map_Suc_upt [symmetric]
        comp_def del: upt_Suc)
qed

lemma gm_write_append: "gm_write (gm_write mem p xs) (p + length xs) ys = gm_write mem p (xs @ ys)"
proof -
  have "memcpy (memcpy m p xs) (p + length xs) ys = memcpy m p (xs @ ys)" for m
    by (auto simp: memcpy_def nth_append fun_eq_iff)
  then show ?thesis by (simp add: gm_write_def)
qed

lemma gm_write_Nil: "gm_write mem p [] = mem"
proof -
  have "memcpy m p [] = m" for m by (rule ext) (auto simp: memcpy_def)
  then show ?thesis by (simp add: gm_write_def)
qed

lemma fill_random_reliable:
  "rand_reliable rand \<Longrightarrow>
   fill_random rand mem k dst len = (gm_write mem dst (random_bytes rand k len), k + chunk_count len, Inr ())
   \<and> length (random_bytes rand k len) = len"
proof (induction rand mem k dst len rule: fill_random.induct)
  case (1 rand mem k dst len)
  show ?case
  proof (cases "len = 0")
    case True
    then show ?thesis by (simp add: fill_random.simps random_bytes_def chunk_count_def gm_write_Nil)
  next
    case False
    let ?n = "min len 0x100000"
    have "fst (rand k ?n) \<and> length (snd (rand k ?n)) = ?n"
      using "1.prems" unfolding rand_reliable_def by (meson min.cobounded2)
    then obtain bs where bs: "rand k ?n = (True, bs)" "length bs = ?n" by (cases "rand k ?n") simp
    have "fill_random rand mem k dst len = fill_random rand (gm_write mem dst bs) (k + 1) (dst + ?n) (len - ?n)"
      using False bs(1) by (subst fill_random.simps) (simp add: Let_def)
    moreover note "1.IH" [OF False refl bs(1) [symmetric] refl refl _ "1.prems"]
    moreover have "random_bytes rand k len = bs @ random_bytes rand (k + 1) (len - ?n)"
      using random_bytes_step [of len rand k] False bs(1) by simp
    ultimately show ?thesis
      using False bs(2) gm_write_append [of mem dst bs] chunk_count_step [of len] by simp
  qed
qed

lemma service_chain_single:
  assumes "rand_reliable rand" and "valid_desc mem (q_desc_addr q) (q_size q) head d"
    and "d_flags d AND kRingDescFWrite \<noteq> 0" and "d_flags d AND kRingDescFNext = 0" and "0 < d_len d"
    and "unat (d_addr d) + unat (d_len d) \<le> unat (gm_len mem)"
  shows "service_chain rand q mem k head =
    (gm_write mem (unat (d_addr d)) (random_bytes rand k (unat (d_len d))), k + chunk_count (unat (d_len d)), Inr (d_len d))"
proof -
  let ?p = "unat (q_desc_addr q + ucast head * 16)"
  have d: "ucast head < q_size q" "d = read_desc mem ?p" "unat (q_desc_addr q + ucast head * 16) + 16 \<le> unat (gm_len mem)"
    using assms(2) by (simp_all add: valid_desc_def)
  have p: "ptr_or_null mem (q_desc_addr q + ucast head * 16) 16 = Some ?p"
    using d(3) by (simp only: ptr_or_null_Some) simp
  have "ptr_or_null mem (d_addr d) (ucast (d_len d)) = Some (unat (d_addr d))"
    using assms(6) by (simp add: ptr_or_null_Some ucast_len)
  then have desc: "service_desc rand mem k d 0 =
    (gm_write mem (unat (d_addr d)) (random_bytes rand k (unat (d_len d))), k + chunk_count (unat (d_len d)), Inr (d_len d))"
    using fill_random_reliable [OF assms(1)] assms(3,5) by (simp add: service_desc_def)
  obtain n where "unat (q_size q) = Suc n"
    using d(1) by (cases "unat (q_size q)") (auto simp: word_less_nat_alt)
  moreover have "\<not> q_size q \<le> ucast head" using d(1) by simp
  ultimately show ?thesis unfolding service_chain_def using assms(4)
    by (simp add: p Let_def d(2) [symmetric] desc)
qed

section \<open>Properties\<close>

text \<open>Whatever a guest writes to the virtio-rng registers and puts into its rings, the device
  never changes host memory outside guest RAM and its queue size stays between 1 and 64, so the
  64-entry table of visited descriptors is never indexed out of bounds; of the generator only
  that it stores at most the bytes asked for is assumed.\<close>

theorem rng_device_confined:
  assumes "rand_bounded rand" and "r = run (rng_step rand) (rng_init base mem) accs"
  shows "same_outside mem (r_mem r) \<and> 0 < q_size (r_queue r) \<and> q_size (r_queue r) \<le> 64"
proof -
  have "rng_rel (rng_init base mem) (run (rng_step rand) (rng_init base mem) accs)"
  proof (rule rng_machine.run_rel)
    show "rng_rel s (rng_step rand s e)" for s e
      using rng_write_reg_rel [OF assms(1)] by (simp add: rng_step_def rng_write_mmio_def rng_rel_def)
  qed (auto simp: rng_rel_def intro: same_outside_trans)
  then show ?thesis using assms(2) by (simp add: rng_rel_def rng_ok_def rng_init_def rng_queue_default_def)
qed

theorem rng_device_confined_witness:
  "q_size (r_queue (run (rng_step (\<lambda>k n. (True, replicate n 0x5A))) (rng_init 0xD0000400 \<lparr>gm_data = (\<lambda>_. 0), gm_len = 0x10000\<rparr>)
     [(0xD0000438, [0, 1, 0, 0]), (0xD0000450, [0, 0, 0, 0])])) \<le> 64"
proof -
  have "rand_bounded (\<lambda>k n. (True, replicate n 0x5A))" by (simp add: rand_bounded_def)
  from rng_device_confined [OF this refl] show ?thesis by blast
qed

text \<open>A request of one writable descriptor, the way the guest's driver posts it: the notification
  fills exactly the descriptor's buffer with fresh generator output, publishes (head, length) on
  the used ring, consumes the available entry, and raises the interrupt unless the driver has
  suppressed it.\<close>

theorem rng_request_served:
  assumes "rand_reliable rand" and "q = r_queue r" and "mem = r_mem r" and "q_ready q" and "vq_ok q" and "rings_in_ram mem q"
    and "q_desc_addr q \<noteq> 0" and "q_driver_addr q \<noteq> 0" and "q_device_addr q \<noteq> 0"
    and "ReadU16 (gm_data mem) (unat (q_driver_addr q) + 2) = q_last_avail q + 1"
    and "head = ReadU16 (gm_data mem) (unat (q_driver_addr q) + 4 + 2 * (unat (q_last_avail q) mod unat (q_size q)))"
    and "valid_desc mem (q_desc_addr q) (q_size q) head d"
    and "d_flags d AND kRingDescFWrite \<noteq> 0" and "d_flags d AND kRingDescFNext = 0" and "0 < d_len d"
    and "unat (d_addr d) + unat (d_len d) \<le> unat (gm_len mem)"
    and "{unat (d_addr d) ..< unat (d_addr d) + unat (d_len d)} \<inter> used_area q = {}"
  shows "\<exists>mem' raised. rng_handle_queue rand r =
      (r\<lparr>r_mem := mem', r_calls := r_calls r + chunk_count (unat (d_len d)), r_queue := q\<lparr>q_last_avail := q_last_avail q + 1\<rparr>,
         r_interrupt_status := (if raised then r_interrupt_status r OR kInterruptVring else r_interrupt_status r)\<rparr>,
       raised, Inr ())
    \<and> raised = (ReadU16 (gm_data mem') (unat (q_driver_addr q)) AND kRingAvailFNoInterrupt = 0)
    \<and> gm_read mem' (unat (d_addr d)) (unat (d_len d)) = random_bytes rand (r_calls r) (unat (d_len d))
    \<and> (\<forall>a. a \<notin> used_area q \<and> a \<notin> {unat (d_addr d) ..< unat (d_addr d) + unat (d_len d)} \<longrightarrow> gm_data mem' a = gm_data mem a)
    \<and> ReadU16 (gm_data mem') (unat (q_device_addr q) + 2) = ReadU16 (gm_data mem) (unat (q_device_addr q) + 2) + 1"
proof -
  let ?buf = "{unat (d_addr d) ..< unat (d_addr d) + unat (d_len d)}"
  let ?bs = "random_bytes rand (r_calls r) (unat (d_len d))" and ?k = "r_calls r + chunk_count (unat (d_len d))"
  let ?m = "gm_write mem (unat (d_addr d)) ?bs"
  have bs: "length ?bs = unat (d_len d)" using fill_random_reliable [OF assms(1)] by blast
  obtain mem' where mem': "push_used_inline ?m (q_device_addr q) (q_size q) (ucast head) (d_len d) = (mem', Inr ())"
    "ReadU16 (gm_data mem') (unat (q_device_addr q) + 2) = ReadU16 (gm_data ?m) (unat (q_device_addr q) + 2) + 1"
    "\<And>a. a \<notin> used_area q \<Longrightarrow> gm_data mem' a = gm_data ?m a"
    using used_publish [OF assms(6,5), of ?m "ucast head" "d_len d"] by auto
  have len': "gm_len mem' = gm_len mem"
    using push_used_safe [of ?m "q_device_addr q" "q_size q" "ucast head" "d_len d"] mem'(1) by (simp add: same_outside_def)
  have push: "rng_push_used ?m q head (d_len d) = mem'" using mem'(1) assms(5) by (auto simp: rng_push_used_inline vq_ok_def)
  have slot: "ptr_or_null mem (q_driver_addr q + 4 + ucast (ucast (q_last_avail q) mod q_size q) * 2) 2
      = Some (unat (q_driver_addr q) + 4 + 2 * (unat (q_last_avail q) mod unat (q_size q)))"
    using avail_slot_address [OF assms(6,5), of "q_last_avail q"] by (simp only: ptr_or_null_Some) simp
  have loop: "rng_queue_loop rand q (q_last_avail q + 1) mem (r_calls r) (q_last_avail q) False
      = (mem', ?k, q_last_avail q + 1, Inr True)"
    using service_chain_single [OF assms(1,12,13,14,15,16), of "r_calls r"]
    by (subst rng_queue_loop.simps) (simp add: slot Let_def assms(11) [symmetric] push rng_queue_loop.simps)
  have idx: "ptr_or_null mem (q_driver_addr q + 2) 2 = Some (unat (q_driver_addr q) + 2)"
    using avail_index_address [OF assms(6)] assms(6) by (simp only: ptr_or_null_Some rings_in_ram_def) simp
  have flags: "ptr_or_null mem' (q_driver_addr q) 2 = Some (unat (q_driver_addr q))"
    using assms(6) by (simp add: ptr_or_null_Some rings_in_ram_def len')
  have outside: "a \<notin> used_area q \<Longrightarrow> a \<notin> ?buf \<Longrightarrow> gm_data mem' a = gm_data mem a" for a
    using mem'(3) [of a] bs by (auto simp: gm_write_def memcpy_outside not_less)
  have "gm_read mem' (unat (d_addr d)) (unat (d_len d)) = gm_read ?m (unat (d_addr d)) (unat (d_len d))"
    unfolding gm_read_def using assms(17) mem'(3) by (intro read_bytes_cong) (auto simp: disjoint_iff)
  also have "\<dots> = ?bs" using gm_read_gm_write [of mem "unat (d_addr d)" ?bs] by (simp only: bs)
  finally have buf: "gm_read mem' (unat (d_addr d)) (unat (d_len d)) = ?bs" .
  have "ReadU16 (gm_data ?m) (unat (q_device_addr q) + 2) = ReadU16 (gm_data mem) (unat (q_device_addr q) + 2)"
    by (rule used_index_apart) (use assms(15,17) bs in \<open>auto simp: word_less_nat_alt\<close>)
  moreover have "q_size q \<noteq> 0" using assms(5) by (auto simp: vq_ok_def)
  ultimately show ?thesis
    using assms(2-4,7-10) loop idx flags buf outside mem'(2)
    by (intro exI [of _ mem'] exI [of _ "ReadU16 (gm_data mem') (unat (q_driver_addr q)) AND kRingAvailFNoInterrupt = 0"])
      (simp add: rng_handle_queue_def Let_def)
qed

definition sample_rng :: rng where
  "sample_rng = (rng_init 0xD0000400 \<lparr>gm_data = memcpy (memcpy (\<lambda>_. 0) 0x10
       (le_bytes 8 (0x30 :: u64) @ le_bytes 4 (4 :: u32) @ [2, 0, 0, 0])) 0x42 [1, 0], gm_len = 0x1000\<rparr>)
     \<lparr>r_queue := \<lparr>q_size = 4, q_ready = True, q_last_avail = 0, q_desc_addr = 0x10, q_driver_addr = 0x40, q_device_addr = 0x80\<rparr>\<rparr>"

theorem rng_request_served_witness:
  "\<exists>mem'. rng_handle_queue (\<lambda>k n. (True, replicate n 0x5A)) sample_rng =
      (sample_rng\<lparr>r_mem := mem', r_calls := 1, r_queue := r_queue sample_rng\<lparr>q_last_avail := 1\<rparr>, r_interrupt_status := 1\<rparr>, True, Inr ())
    \<and> gm_read mem' 0x30 4 = [0x5A, 0x5A, 0x5A, 0x5A]"
proof -
  let ?rand = "\<lambda>k n. (True, replicate n (0x5A :: u8))" and ?m = "r_mem sample_rng" and ?q = "r_queue sample_rng"
  let ?d = "\<lparr>d_addr = 0x30, d_len = 4, d_flags = 2, d_next = 0\<rparr>"
  have q: "?q = \<lparr>q_size = 4, q_ready = True, q_last_avail = 0, q_desc_addr = 0x10, q_driver_addr = 0x40, q_device_addr = 0x80\<rparr>"
    and r: "r_calls sample_rng = 0" "r_interrupt_status sample_rng = 0" "gm_len ?m = 0x1000"
    by (simp_all add: sample_rng_def rng_init_def)
  have idx: "ReadU16 (gm_data ?m) 66 = 1" and hd: "ReadU16 (gm_data ?m) 68 = 0" and fl: "ReadU16 (gm_data ?m) 64 = 0"
    and d: "read_desc ?m 16 = ?d" by code_simp+
  have rel: "rand_reliable ?rand" by (simp add: rand_reliable_def)
  have valid: "valid_desc ?m (q_desc_addr ?q) (q_size ?q) 0 ?d" using d by (simp add: valid_desc_def q r source_consts)
  have rings: "rings_in_ram ?m ?q" "vq_ok ?q" by (simp_all add: rings_in_ram_def vq_ok_def q r source_consts)
  have ready: "q_ready ?q" and addr: "q_desc_addr ?q \<noteq> 0" "q_driver_addr ?q \<noteq> 0" "q_device_addr ?q \<noteq> 0"
    and av: "ReadU16 (gm_data ?m) (unat (q_driver_addr ?q) + 2) = q_last_avail ?q + 1"
    and at: "0 = ReadU16 (gm_data ?m) (unat (q_driver_addr ?q) + 4 + 2 * (unat (q_last_avail ?q) mod unat (q_size ?q)))"
    by (simp_all add: q idx hd)
  have fl2: "d_flags ?d AND kRingDescFWrite \<noteq> 0" "d_flags ?d AND kRingDescFNext = 0" and len: "0 < d_len ?d"
    and ram: "unat (d_addr ?d) + unat (d_len ?d) \<le> unat (gm_len ?m)"
    and apart: "{unat (d_addr ?d) ..< unat (d_addr ?d) + unat (d_len ?d)} \<inter> used_area ?q = {}"
    by (simp_all add: source_consts r used_area_def q)
  obtain mem' raised where m: "rng_handle_queue ?rand sample_rng =
      (sample_rng\<lparr>r_mem := mem', r_calls := r_calls sample_rng + chunk_count (unat (d_len ?d)),
         r_queue := ?q\<lparr>q_last_avail := q_last_avail ?q + 1\<rparr>,
         r_interrupt_status := (if raised then r_interrupt_status sample_rng OR kInterruptVring else r_interrupt_status sample_rng)\<rparr>,
       raised, Inr ())"
    "raised = (ReadU16 (gm_data mem') (unat (q_driver_addr ?q)) AND kRingAvailFNoInterrupt = 0)"
    "gm_read mem' (unat (d_addr ?d)) (unat (d_len ?d)) = random_bytes ?rand (r_calls sample_rng) (unat (d_len ?d))"
    "\<forall>a. a \<notin> used_area ?q \<and> a \<notin> {unat (d_addr ?d) ..< unat (d_addr ?d) + unat (d_len ?d)} \<longrightarrow> gm_data mem' a = gm_data ?m a"
    using rng_request_served [OF rel refl refl ready rings(2,1) addr av at valid fl2 len ram apart]
    by (elim exE conjE) (rule that)
  have "ReadU16 (gm_data mem') 64 = ReadU16 (gm_data ?m) 64"
    by (rule cell16.load_agree) (simp add: m(4) used_area_def q)
  then have "raised" using m(2) by (simp add: fl q)
  moreover have c: "chunk_count 4 = 1" by (simp add: chunk_count_def)
  moreover have "replicate 4 (0x5A :: u8) = [0x5A, 0x5A, 0x5A, 0x5A]" by (simp add: numeral_eq_Suc)
  then have "random_bytes ?rand 0 4 = [0x5A, 0x5A, 0x5A, 0x5A]" by (simp add: random_bytes_def c)
  ultimately show ?thesis using m(1,3) by (intro exI [of _ mem']) (simp add: r q source_consts)
qed

end
