(* ===== verification/Virtio_Net.thy ===== *)
theory Virtio_Net
  imports Queue_State "HOL-Library.Sublist"
begin

unbundle bit_operations_syntax

text \<open>
  The virtio-net device (class VirtioNet of native/whp/backend.cc) and the call-back by which the
  user-mode network stack hands it packets (Slirp::on_send_packet). libslirp is a parameter:
  \<open>slirp k p\<close> is the list of packets that the k-th slirp_input, on the frame \<open>p\<close>, sends back
  before it returns. The model is one call at a time; the mutex of the device is not modelled.
  \<open>n_sent\<close> records the frames given to the network, \<open>n_taken\<close> the packets that
  deliver_rx_packet_now finished with, \<open>n_irqs\<close> the interrupt requests. The transmit loop reads the
  available index again in every round, so a guest can keep it busy: it is a partial function,
  \<open>None\<close> where the loop does not end.
\<close>

definition kNetQueueSize :: u32 where "kNetQueueSize = 256"
definition kRxBacklogLimit :: nat where "kRxBacklogLimit = 256"
definition kVirtioNetHdrLenBase :: nat where "kVirtioNetHdrLenBase = 12"
definition kVirtioNetFMrgRxbuf :: u64 where "kVirtioNetFMrgRxbuf = push_bit 15 1"
definition kVirtioNetSLinkUp :: u16 where "kVirtioNetSLinkUp = 0x1"

record net_queue =
  nq_ready :: bool
  nq_num :: u32
  nq_desc :: u64
  nq_driver :: u64
  nq_device :: u64
  nq_last_avail :: u16
  nq_last_used :: u16

definition net_queue_default :: net_queue where
  "net_queue_default = \<lparr>nq_ready = False, nq_num = kNetQueueSize, nq_desc = 0, nq_driver = 0, nq_device = 0, nq_last_avail = 0, nq_last_used = 0\<rparr>"

record net =
  n_mem :: guest_memory
  n_mmio_base :: u64
  n_mac :: bytes
  n_slirp :: bool
  n_device_features_sel :: u32
  n_driver_features_sel :: u32
  n_driver_features :: u64
  n_status :: u32
  n_interrupt_status :: u32
  n_queue_sel :: u32
  n_config_generation :: u32
  n_link_up :: bool
  n_driver_ok_announced :: bool
  n_rx_flush_active :: bool
  n_rx :: net_queue
  n_tx :: net_queue
  n_rx_backlog :: "bytes list"
  n_inputs :: nat
  n_sent :: "bytes list"
  n_taken :: "bytes list"
  n_irqs :: nat

definition net_init :: "guest_memory \<Rightarrow> u64 \<Rightarrow> bytes \<Rightarrow> net" where
  "net_init mem mmio_base mac =
    \<lparr>n_mem = mem, n_mmio_base = mmio_base, n_mac = mac, n_slirp = False, n_device_features_sel = 0, n_driver_features_sel = 0,
     n_driver_features = 0, n_status = 0, n_interrupt_status = 0, n_queue_sel = 0, n_config_generation = 0, n_link_up = True,
     n_driver_ok_announced = False, n_rx_flush_active = False, n_rx = net_queue_default, n_tx = net_queue_default,
     n_rx_backlog = [], n_inputs = 0, n_sent = [], n_taken = [], n_irqs = 0\<rparr>"

definition attach_slirp :: "net \<Rightarrow> net" where
  "attach_slirp n = n\<lparr>n_slirp := True\<rparr>"

definition virtio_net_hdr_len :: "net \<Rightarrow> nat" where
  "virtio_net_hdr_len n = (if n_driver_features n AND kVirtioNetFMrgRxbuf \<noteq> 0 then 14 else kVirtioNetHdrLenBase)"

definition net_read_u16 :: "guest_memory \<Rightarrow> u64 \<Rightarrow> u16" where
  "net_read_u16 mem gpa = (case ptr_or_null mem gpa 2 of None \<Rightarrow> 0 | Some p \<Rightarrow> ReadU16 (gm_data mem) p)"

definition net_write_u16 :: "guest_memory \<Rightarrow> u64 \<Rightarrow> u16 \<Rightarrow> guest_memory" where
  "net_write_u16 mem gpa v = (case ptr_or_null mem gpa 2 of None \<Rightarrow> mem | Some p \<Rightarrow> gm_write mem p (le_bytes 2 v))"

definition net_write_u32 :: "guest_memory \<Rightarrow> u64 \<Rightarrow> u32 \<Rightarrow> guest_memory" where
  "net_write_u32 mem gpa v = (case ptr_or_null mem gpa 4 of None \<Rightarrow> mem | Some p \<Rightarrow> gm_write mem p (le_bytes 4 v))"

definition VirtioNetDeviceFeatures :: u64 where
  "VirtioNetDeviceFeatures = kNetFMac OR kNetFStatus OR kFVersion1"

section \<open>Registers that change no ring\<close>

definition build_net_config :: "net \<Rightarrow> bytes" where
  "build_net_config n = take 6 (n_mac n @ replicate 6 0) @ le_bytes 2 (if n_link_up n then kVirtioNetSLinkUp else 0)
     @ le_bytes 2 (1 :: u16) @ le_bytes 2 (1500 :: u16)"

definition net_read_reg :: "net \<Rightarrow> u32 \<Rightarrow> u32" where
  "net_read_reg n off =
    (if off = kMmioMagicValue then kMagic
     else if off = kMmioVersion then 2
     else if off = kMmioDeviceId then 1
     else if off = kMmioVendorId then 0x554D4551
     else if off = kMmioDeviceFeatures
     then (if n_device_features_sel n = 1 then ucast (drop_bit 32 VirtioNetDeviceFeatures)
           else ucast (VirtioNetDeviceFeatures AND 0xFFFFFFFF))
     else if off = kMmioQueueNumMax then kNetQueueSize
     else if off = kMmioQueueReady
     then (if n_queue_sel n < 2 \<and> nq_ready (if n_queue_sel n = 0 then n_rx n else n_tx n) then 1 else 0)
     else if off = kMmioInterruptStatus then n_interrupt_status n
     else if off = kMmioStatus then n_status n
     else if off = kMmioConfigGeneration then n_config_generation n
     else if off = kMmioShmLenLow \<or> off = kMmioShmLenHigh then 0xFFFFFFFF
     else if off = kMmioShmBaseLow \<or> off = kMmioShmBaseHigh then 0xFFFFFFFF
     else if kMmioConfig \<le> off \<and> off < kMmioConfig + 12
     then let cfg_off = unat (off - kMmioConfig)
          in fold (\<lambda>i value. value OR push_bit (i * 8) (ucast (build_net_config n ! (cfg_off + i)))) [0 ..< min 4 (12 - cfg_off)] 0
     else 0)"

definition net_read_mmio :: "net \<Rightarrow> u64 \<Rightarrow> u32 \<Rightarrow> bytes" where
  "net_read_mmio n addr len =
    (if len \<noteq> 1 \<and> len \<noteq> 2 \<and> len \<noteq> 4 then replicate (unat len) 0
     else le_bytes (unat len) (net_read_reg n (ucast (addr - n_mmio_base n))))"

definition net_update_status :: "net \<Rightarrow> u32 \<Rightarrow> net" where
  "net_update_status n new_status =
    (let prev = n_status n; n = n\<lparr>n_status := new_status\<rparr>
     in if new_status = 0
        then n\<lparr>n_rx := net_queue_default, n_tx := net_queue_default, n_interrupt_status := 0, n_driver_ok_announced := False\<rparr>
        else if new_status AND kStatusFailed \<noteq> 0 then n\<lparr>n_rx := (n_rx n)\<lparr>nq_ready := False\<rparr>, n_tx := (n_tx n)\<lparr>nq_ready := False\<rparr>\<rparr>
        else let n = (if new_status AND kStatusFeaturesOk \<noteq> 0 \<and> prev AND kStatusFeaturesOk = 0
                       \<and> n_driver_features n AND NOT VirtioNetDeviceFeatures \<noteq> 0
                      then n\<lparr>n_status := n_status n AND NOT kStatusFeaturesOk\<rparr> else n)
             in if new_status AND kStatusDriverOk \<noteq> 0 \<and> prev AND kStatusDriverOk = 0 \<and> \<not> n_driver_ok_announced n
                then n\<lparr>n_driver_ok_announced := True\<rparr> else n)"

definition raise_config_change_irq :: "net \<Rightarrow> net" where
  "raise_config_change_irq n =
    n\<lparr>n_interrupt_status := n_interrupt_status n OR kInterruptConfig, n_irqs := n_irqs n + 1\<rparr>"

definition raise_used_buffer_irq :: "net \<Rightarrow> u32 \<Rightarrow> net" where
  "raise_used_buffer_irq n queue_index =
    (if 2 \<le> queue_index then n
     else let q = (if queue_index = 0 then n_rx n else n_tx n)
     in if \<not> nq_ready q \<or> nq_driver q = 0 then n
        else if net_read_u16 (n_mem n) (nq_driver q) AND kRingAvailFNoInterrupt \<noteq> 0 then n
        else n\<lparr>n_interrupt_status := n_interrupt_status n OR kInterruptVring, n_irqs := n_irqs n + 1\<rparr>)"

section \<open>Rings\<close>

definition queue_usable :: "net_queue \<Rightarrow> bool" where
  "queue_usable q \<longleftrightarrow> nq_ready q \<and> nq_num q \<noteq> 0 \<and> nq_driver q \<noteq> 0 \<and> nq_desc q \<noteq> 0 \<and> nq_device q \<noteq> 0"

definition avail_index :: "guest_memory \<Rightarrow> net_queue \<Rightarrow> u16" where
  "avail_index mem q = net_read_u16 mem (nq_driver q + 2)"

definition avail_entry :: "guest_memory \<Rightarrow> net_queue \<Rightarrow> u16" where
  "avail_entry mem q =
    (let ring_off = ucast (ucast (nq_last_avail q) mod nq_num q) :: u16
     in net_read_u16 mem (nq_driver q + 4 + ucast ring_off * 2))"

definition net_push_used :: "guest_memory \<Rightarrow> net_queue \<Rightarrow> u16 \<Rightarrow> u32 \<Rightarrow> guest_memory \<times> net_queue" where
  "net_push_used mem q desc_idx n =
    (let used_off = ucast (ucast (nq_last_used q) mod nq_num q) :: u16;
         used_elem_addr = nq_device q + 4 + ucast used_off * 8;
         mem = net_write_u32 mem used_elem_addr (ucast desc_idx);
         mem = net_write_u32 mem (used_elem_addr + 4) n;
         q = q\<lparr>nq_last_used := nq_last_used q + 1\<rparr>
     in (net_write_u16 mem (nq_device q + 2) (nq_last_used q), q))"

section \<open>Receive\<close>

definition frame_packet :: "nat \<Rightarrow> bytes \<Rightarrow> bytes" where
  "frame_packet hdr_len data =
    (let framed = replicate (hdr_len + length data) 0;
         framed = (if 14 \<le> hdr_len then framed[12 := 0x01, 13 := 0x00] else framed)
     in buf_put framed hdr_len data)"

text \<open>The copy into the descriptor chain; \<open>left\<close> counts the hops that remain. The result says
  whether the chain was good.\<close>

fun rx_copy :: "u32 \<Rightarrow> u64 \<Rightarrow> bytes \<Rightarrow> nat \<Rightarrow> guest_memory \<Rightarrow> nat \<Rightarrow> u16 \<Rightarrow> guest_memory \<times> bool" where
  "rx_copy queue_num desc_addr framed left mem copied current =
    (if length framed \<le> copied then (mem, True)
     else if queue_num \<le> ucast current then (mem, False)
     else case left of 0 \<Rightarrow> (mem, False)
     | Suc left' \<Rightarrow>
       (case ptr_or_null mem (desc_addr + ucast current * 16) 16 of None \<Rightarrow> (mem, False)
        | Some p \<Rightarrow>
          let d = read_desc mem p; n = min (unat (d_len d)) (length framed - copied)
          in if d_flags d AND kRingDescFWrite = 0 then (mem, False)
             else case ptr_or_null mem (d_addr d) (of_nat n) of None \<Rightarrow> (mem, False)
             | Some segment \<Rightarrow>
                let mem = gm_write mem segment (take n (drop copied framed))
                in if d_flags d AND kRingDescFNext = 0 then (mem, True)
                   else if queue_num \<le> ucast (d_next d) then (mem, False)
                   else rx_copy queue_num desc_addr framed left' mem (copied + n) (d_next d)))"

declare rx_copy.simps [simp del]

definition deliver_rx_packet_now :: "net \<Rightarrow> bytes \<Rightarrow> net \<times> bool" where
  "deliver_rx_packet_now n data =
    (let taken = n\<lparr>n_taken := n_taken n @ [data]\<rparr>
     in if 1500 + 14 + 4 < length data then (taken, True)
     else let q = n_rx n; mem = n_mem n
     in if \<not> queue_usable q then (n, False)
        else if nq_last_avail q = avail_index mem q then (n, False)
        else let desc_idx = avail_entry mem q; q' = q\<lparr>nq_last_avail := nq_last_avail q + 1\<rparr>; taken = taken\<lparr>n_rx := q'\<rparr>
        in if nq_num q \<le> ucast desc_idx then (taken, True)
           else let framed = frame_packet (virtio_net_hdr_len n) data;
                    (mem, ok) = rx_copy (nq_num q) (nq_desc q) framed (unat (nq_num q)) mem 0 desc_idx;
                    taken = taken\<lparr>n_mem := mem\<rparr>
                in if \<not> ok then (taken, True)
                   else if \<not> nq_ready q' \<or> nq_num q' = 0 \<or> nq_device q' = 0 then (taken, True)
                   else let (mem, q'') = net_push_used mem q' desc_idx (of_nat (length framed))
                        in (raise_used_buffer_irq (taken\<lparr>n_mem := mem, n_rx := q''\<rparr>) 0, True))"

text \<open>The loop of flush_rx_backlog; its list is the backlog, which nothing but the loop shortens.\<close>

fun flush_loop_rx :: "bytes list \<Rightarrow> net \<Rightarrow> net" where
  "flush_loop_rx [] n = n\<lparr>n_rx_flush_active := False\<rparr>"
| "flush_loop_rx (packet # rest) n =
    (case deliver_rx_packet_now n packet of
       (n', False) \<Rightarrow> n'\<lparr>n_rx_flush_active := False\<rparr>
     | (n', True) \<Rightarrow> flush_loop_rx rest (n'\<lparr>n_rx_backlog := tl (n_rx_backlog n')\<rparr>))"

definition flush_rx_backlog :: "net \<Rightarrow> net" where
  "flush_rx_backlog n =
    (if n_rx_flush_active n then n else flush_loop_rx (n_rx_backlog n) (n\<lparr>n_rx_flush_active := True\<rparr>))"

definition deliver_rx_packet :: "net \<Rightarrow> bytes \<Rightarrow> net" where
  "deliver_rx_packet n data =
    (let (n', delivered) = (if n_rx_backlog n = [] then deliver_rx_packet_now n data else (n, False))
     in if delivered then flush_rx_backlog n'
        else flush_rx_backlog (if length (n_rx_backlog n') < kRxBacklogLimit then n'\<lparr>n_rx_backlog := n_rx_backlog n' @ [data]\<rparr> else n'))"

definition on_send_packet :: "bytes \<Rightarrow> net \<Rightarrow> net" where
  "on_send_packet buf n =
    (if length buf < 60 then deliver_rx_packet n (take 60 (buf_put (replicate 64 0) 0 buf)) else deliver_rx_packet n buf)"

section \<open>Transmit\<close>

type_synonym slirp = "nat \<Rightarrow> bytes \<Rightarrow> bytes list"

fun tx_gather :: "guest_memory \<Rightarrow> u32 \<Rightarrow> u64 \<Rightarrow> nat \<Rightarrow> u16 \<Rightarrow> bytes \<Rightarrow> bytes" where
  "tx_gather mem queue_num desc_addr left current packet =
    (if queue_num \<le> ucast current then packet
     else case left of 0 \<Rightarrow> packet
     | Suc left' \<Rightarrow>
       (case ptr_or_null mem (desc_addr + ucast current * 16) 16 of None \<Rightarrow> packet
        | Some p \<Rightarrow>
          let d = read_desc mem p;
              packet = (if d_flags d AND kRingDescFWrite \<noteq> 0 then packet
                        else case ptr_or_null mem (d_addr d) (ucast (d_len d)) of None \<Rightarrow> packet
                             | Some segment \<Rightarrow> packet @ gm_read mem segment (unat (d_len d)))
          in if d_flags d AND kRingDescFNext = 0 then packet
             else if queue_num \<le> ucast (d_next d) then packet
             else tx_gather mem queue_num desc_addr left' (d_next d) packet))"

declare tx_gather.simps [simp del]

definition input_packet :: "slirp \<Rightarrow> net \<Rightarrow> bytes \<Rightarrow> net" where
  "input_packet slirp n frame =
    fold on_send_packet (slirp (n_inputs n) frame) (n\<lparr>n_inputs := n_inputs n + 1, n_sent := n_sent n @ [frame]\<rparr>)"

text \<open>One round of the loop: it returns, breaks, or goes on, having processed a chain or not.\<close>

datatype tx_outcome = Tx_Return | Tx_Break | Tx_Next bool

definition tx_round :: "slirp \<Rightarrow> net \<Rightarrow> tx_outcome \<times> net" where
  "tx_round slirp n =
    (let q = n_tx n; mem = n_mem n
     in if \<not> queue_usable q then (Tx_Return, n)
        else if nq_last_avail q = avail_index mem q then (Tx_Break, n)
        else let desc_idx = avail_entry mem q; n' = n\<lparr>n_tx := q\<lparr>nq_last_avail := nq_last_avail q + 1\<rparr>\<rparr>
        in if nq_num q \<le> ucast desc_idx then (Tx_Next False, n')
           else let packet = tx_gather mem (nq_num q) (nq_desc q) (unat (nq_num q)) desc_idx [];
                    hdr_len = virtio_net_hdr_len n';
                    n' = (if hdr_len < length packet then input_packet slirp n' (drop hdr_len packet) else n');
                    q' = n_tx n'
                in if \<not> nq_ready q' \<or> nq_num q' = 0 \<or> nq_device q' = 0 then (Tx_Next False, n')
                   else let (mem', q'') = net_push_used (n_mem n') q' desc_idx 0
                        in (Tx_Next True, n'\<lparr>n_mem := mem', n_tx := q''\<rparr>))"

partial_function (option) net_tx_loop :: "slirp \<Rightarrow> bool \<Rightarrow> net \<Rightarrow> net option" where
  "net_tx_loop slirp processed n =
    (case tx_round slirp n of
       (Tx_Return, n') \<Rightarrow> Some n'
     | (Tx_Break, n') \<Rightarrow> Some (if processed then raise_used_buffer_irq n' 1 else n')
     | (Tx_Next p, n') \<Rightarrow> net_tx_loop slirp (processed \<or> p) n')"

definition process_tx_queue :: "slirp \<Rightarrow> net \<Rightarrow> net option" where
  "process_tx_queue slirp n = (if \<not> n_slirp n then Some n else net_tx_loop slirp False n)"

section \<open>Register writes\<close>

definition net_set_queue :: "net \<Rightarrow> (net_queue \<Rightarrow> net_queue) \<Rightarrow> net" where
  "net_set_queue n f =
    (if n_queue_sel n < 2
     then (if n_queue_sel n = 0 then n\<lparr>n_rx := f (n_rx n)\<rparr> else n\<lparr>n_tx := f (n_tx n)\<rparr>) else n)"

definition net_write_reg :: "slirp \<Rightarrow> net \<Rightarrow> u32 \<Rightarrow> u32 \<Rightarrow> net option" where
  "net_write_reg slirp n off value =
    (if off = kMmioDeviceFeaturesSel then Some (n\<lparr>n_device_features_sel := value\<rparr>)
     else if off = kMmioDriverFeatures
     then Some (n\<lparr>n_driver_features := (if n_driver_features_sel n = 0 then set_low (n_driver_features n) value
                                       else set_high (n_driver_features n) value)\<rparr>)
     else if off = kMmioDriverFeaturesSel then Some (n\<lparr>n_driver_features_sel := value\<rparr>)
     else if off = kMmioQueueSel then Some (n\<lparr>n_queue_sel := value\<rparr>)
     else if off = kMmioQueueNum then Some (net_set_queue n (\<lambda>q. q\<lparr>nq_num := (if value = 0 then 0 else min value kNetQueueSize)\<rparr>))
     else if off = kMmioQueueReady then Some (net_set_queue n (\<lambda>q. q\<lparr>nq_ready := (value \<noteq> 0)\<rparr>))
     else if off = kMmioQueueNotify
     then (if value = 1 then process_tx_queue slirp n else if value = 0 then Some (flush_rx_backlog n) else Some n)
     else if off = kMmioInterruptAck then Some (n\<lparr>n_interrupt_status := n_interrupt_status n AND NOT value\<rparr>)
     else if off = kMmioStatus then Some (net_update_status n value)
     else if off = kMmioQueueDescLow then Some (net_set_queue n (\<lambda>q. q\<lparr>nq_desc := set_low (nq_desc q) value\<rparr>))
     else if off = kMmioQueueDescHigh then Some (net_set_queue n (\<lambda>q. q\<lparr>nq_desc := set_high (nq_desc q) value\<rparr>))
     else if off = kMmioQueueDriverLow then Some (net_set_queue n (\<lambda>q. q\<lparr>nq_driver := set_low (nq_driver q) value\<rparr>))
     else if off = kMmioQueueDriverHigh then Some (net_set_queue n (\<lambda>q. q\<lparr>nq_driver := set_high (nq_driver q) value\<rparr>))
     else if off = kMmioQueueDeviceLow then Some (net_set_queue n (\<lambda>q. q\<lparr>nq_device := set_low (nq_device q) value\<rparr>))
     else if off = kMmioQueueDeviceHigh then Some (net_set_queue n (\<lambda>q. q\<lparr>nq_device := set_high (nq_device q) value\<rparr>))
     else Some n)"

definition net_write_mmio :: "slirp \<Rightarrow> net \<Rightarrow> u64 \<Rightarrow> bytes \<Rightarrow> net option" where
  "net_write_mmio slirp n addr data =
    (if length data \<noteq> 4 then Some n
     else net_write_reg slirp n (ucast (addr - n_mmio_base n)) (ReadU32 ((!) data) 0))"

section \<open>Confinement and order of packets\<close>

lemma net_write_safe [simp]:
  "same_outside mem (net_write_u16 mem a v)" "same_outside mem (net_write_u32 mem a w)"
  by (auto simp: net_write_u16_def net_write_u32_def ptr_or_null_Some split: option.split intro!: same_outside_gm_write)

lemma net_push_used_safe: "same_outside mem (fst (net_push_used mem q i w))"
  unfolding net_push_used_def Let_def fst_conv by (meson net_write_safe same_outside_trans)

lemma net_push_used_queue: "snd (net_push_used mem q i w) = q\<lparr>nq_last_used := nq_last_used q + 1\<rparr>"
  by (simp add: net_push_used_def Let_def)

lemma rx_copy_safe: "same_outside mem (fst (rx_copy num da framed left mem copied cur))"
proof (induction left arbitrary: mem copied cur)
  case 0
  show ?case by (simp add: rx_copy.simps)
next
  case (Suc left)
  let ?p = "ptr_or_null mem (da + ucast cur * 16) 16"
  show ?case
  proof (cases ?p)
    case None
    then show ?thesis by (simp add: rx_copy.simps)
  next
    case (Some p)
    define d where "d = read_desc mem p"
    define k where "k = min (unat (d_len d)) (length framed - copied)"
    have k: "k < 2 ^ 64" using unat_u32_less [of "d_len d"] by (simp add: k_def min_def)
    show ?thesis
    proof (cases "ptr_or_null mem (d_addr d) (of_nat k)")
      case None
      then show ?thesis using Some by (simp add: rx_copy.simps flip: d_def k_def)
    next
      case (Some s)
      then have "s + k \<le> unat (gm_len mem)"
        using k by (simp add: ptr_or_null_Some unsigned_of_nat take_bit_nat_eq_self)
      then have "same_outside mem (gm_write mem s (take k (drop copied framed)))"
        by (intro same_outside_gm_write) (simp add: min_def)
      then show ?thesis using Suc.IH [of "gm_write mem s (take k (drop copied framed))" "copied + k" "d_next d"] \<open>?p = Some p\<close> Some
        by (subst rx_copy.simps) (auto simp: Let_def simp flip: d_def k_def intro: same_outside_trans)
    qed
  qed
qed

text \<open>What a receive step leaves alone.\<close>

definition rx_frame :: "net \<Rightarrow> net \<Rightarrow> bool" where
  "rx_frame n n' \<longleftrightarrow> same_outside (n_mem n) (n_mem n') \<and> n_tx n' = n_tx n \<and> nq_num (n_rx n') = nq_num (n_rx n) \<and>
     n_slirp n' = n_slirp n \<and> n_sent n' = n_sent n \<and> n_driver_features n' = n_driver_features n"

lemma rx_frame_refl [simp]: "rx_frame n n"
  by (simp add: rx_frame_def)

lemma rx_frame_trans: "rx_frame a b \<Longrightarrow> rx_frame b c \<Longrightarrow> rx_frame a c"
  by (auto simp: rx_frame_def intro: same_outside_trans)

lemma raise_used_frame:
  "n_mem (raise_used_buffer_irq n i) = n_mem n" "n_rx (raise_used_buffer_irq n i) = n_rx n" "n_tx (raise_used_buffer_irq n i) = n_tx n"
  "n_rx_backlog (raise_used_buffer_irq n i) = n_rx_backlog n" "n_taken (raise_used_buffer_irq n i) = n_taken n"
  "n_rx_flush_active (raise_used_buffer_irq n i) = n_rx_flush_active n" "n_slirp (raise_used_buffer_irq n i) = n_slirp n"
  "n_sent (raise_used_buffer_irq n i) = n_sent n" "n_driver_features (raise_used_buffer_irq n i) = n_driver_features n"
  by (simp_all add: raise_used_buffer_irq_def Let_def)

lemma deliver_now_frame:
  assumes "deliver_rx_packet_now n data = (n', d)"
  shows "rx_frame n n'" "n_rx_backlog n' = n_rx_backlog n" "n_rx_flush_active n' = n_rx_flush_active n"
    "n_taken n' = n_taken n @ (if d then [data] else [])" "\<not> d \<Longrightarrow> n' = n"
proof -
  let ?q = "n_rx n" and ?i = "avail_entry (n_mem n) (n_rx n)"
  let ?f = "frame_packet (virtio_net_hdr_len n) data"
  obtain m ok where c: "rx_copy (nq_num ?q) (nq_desc ?q) ?f (unat (nq_num ?q)) (n_mem n) 0 ?i = (m, ok)" by fastforce
  have m: "same_outside (n_mem n) m" using rx_copy_safe c by (metis fst_conv)
  define q' where "q' = ?q\<lparr>nq_last_avail := nq_last_avail ?q + 1\<rparr>"
  obtain m2 where u: "net_push_used m q' ?i (of_nat (length ?f)) = (m2, q'\<lparr>nq_last_used := nq_last_used q' + 1\<rparr>)"
    using net_push_used_queue [of m q' ?i] by (metis prod.collapse)
  have m2: "same_outside m m2" using net_push_used_safe [of m q' ?i] u by (metis fst_conv)
  note all = assms [unfolded deliver_rx_packet_now_def Let_def c, folded q'_def, unfolded u prod.case]
  have q': "nq_num q' = nq_num ?q" by (simp add: q'_def)
  from all show "rx_frame n n'" "n_rx_backlog n' = n_rx_backlog n" "n_rx_flush_active n' = n_rx_flush_active n"
      "n_taken n' = n_taken n @ (if d then [data] else [])" "\<not> d \<Longrightarrow> n' = n"
    using m same_outside_trans [OF m m2] q'
    by (auto simp: rx_frame_def raise_used_frame split: if_splits)
qed

definition net_log :: "net \<Rightarrow> bytes list" where
  "net_log n = n_taken n @ n_rx_backlog n"

lemma flush_loop_frame:
  assumes "n_rx_backlog n = xs"
  shows "rx_frame n (flush_loop_rx xs n) \<and> net_log (flush_loop_rx xs n) = net_log n \<and> \<not> n_rx_flush_active (flush_loop_rx xs n)
    \<and> length (n_rx_backlog (flush_loop_rx xs n)) \<le> length xs"
  using assms
proof (induction xs arbitrary: n)
  case Nil
  then show ?case by (simp add: rx_frame_def net_log_def)
next
  case (Cons x xs)
  obtain n1 d where d: "deliver_rx_packet_now n x = (n1, d)" by fastforce
  note f = deliver_now_frame [OF d]
  show ?case
  proof (cases d)
    case True
    define n2 where "n2 = n1\<lparr>n_rx_backlog := tl (n_rx_backlog n1)\<rparr>"
    have "n_rx_backlog n2 = xs" using f(2) Cons.prems by (simp add: n2_def)
    note ih = Cons.IH [OF this]
    have "rx_frame n n2" "net_log n2 = net_log n"
      using f True Cons.prems by (simp_all add: n2_def rx_frame_def net_log_def)
    then show ?thesis using ih d True by (auto simp: n2_def [symmetric] intro: rx_frame_trans)
  next
    case False
    then show ?thesis using d f(5) Cons.prems by (simp add: rx_frame_def net_log_def)
  qed
qed

text \<open>One step of the device: guest memory only, packets in order, bounds kept.\<close>

definition net_ok :: "net \<Rightarrow> bool" where
  "net_ok n \<longleftrightarrow> nq_num (n_rx n) \<le> 256 \<and> nq_num (n_tx n) \<le> 256 \<and> length (n_rx_backlog n) \<le> 256 \<and> \<not> n_rx_flush_active n"

definition net_rel :: "net \<Rightarrow> net \<Rightarrow> bool" where
  "net_rel n n' \<longleftrightarrow> net_ok n' \<and> same_outside (n_mem n) (n_mem n') \<and> prefix (net_log n) (net_log n') \<and> prefix (n_sent n) (n_sent n')"

lemma net_rel_refl: "net_ok n \<Longrightarrow> net_rel n n"
  by (simp add: net_rel_def)

lemma net_rel_trans: "net_rel a b \<Longrightarrow> net_rel b c \<Longrightarrow> net_rel a c"
  by (auto simp: net_rel_def intro: same_outside_trans prefix_order.trans)

lemma net_rel_ok: "net_rel a b \<Longrightarrow> net_ok b"
  by (simp add: net_rel_def)

lemma flush_frame:
  assumes "\<not> n_rx_flush_active n"
  shows "rx_frame n (flush_rx_backlog n)" "net_log (flush_rx_backlog n) = net_log n" "\<not> n_rx_flush_active (flush_rx_backlog n)"
    "length (n_rx_backlog (flush_rx_backlog n)) \<le> length (n_rx_backlog n)"
proof -
  have "rx_frame n (n\<lparr>n_rx_flush_active := True\<rparr>)" by (simp add: rx_frame_def)
  then show "rx_frame n (flush_rx_backlog n)" "net_log (flush_rx_backlog n) = net_log n" "\<not> n_rx_flush_active (flush_rx_backlog n)"
    "length (n_rx_backlog (flush_rx_backlog n)) \<le> length (n_rx_backlog n)"
    using flush_loop_frame [of "n\<lparr>n_rx_flush_active := True\<rparr>" "n_rx_backlog n"] assms
    by (auto simp: flush_rx_backlog_def net_log_def intro: rx_frame_trans)
qed

lemma flush_rel: "net_ok n \<Longrightarrow> net_rel n (flush_rx_backlog n)"
  using flush_frame [of n] by (auto simp: net_ok_def net_rel_def rx_frame_def)

text \<open>A packet from the network: appended to the log, or dropped when 256 wait.\<close>

lemma deliver_rx_frame:
  assumes "net_ok n"
  shows "rx_frame n (deliver_rx_packet n data)" "net_ok (deliver_rx_packet n data)"
    "net_log (deliver_rx_packet n data) = net_log n @ (if length (n_rx_backlog n) < 256 then [data] else [])"
proof -
  obtain n1 d where d: "(if n_rx_backlog n = [] then deliver_rx_packet_now n data else (n, False)) = (n1, d)" by fastforce
  define n2 where "n2 = (if d then n1 else if length (n_rx_backlog n1) < 256 then n1\<lparr>n_rx_backlog := n_rx_backlog n1 @ [data]\<rparr> else n1)"
  have eq: "deliver_rx_packet n data = flush_rx_backlog n2"
    by (simp add: deliver_rx_packet_def d n2_def kRxBacklogLimit_def)
  have n1: "rx_frame n n1" "n_rx_backlog n1 = n_rx_backlog n" "n_rx_flush_active n1 = n_rx_flush_active n"
      "n_taken n1 = n_taken n @ (if d then [data] else [])" "d \<Longrightarrow> n_rx_backlog n = []"
    using d deliver_now_frame [of n data n1 d] by (auto split: if_splits)
  have n2: "rx_frame n n2" "\<not> n_rx_flush_active n2" "length (n_rx_backlog n2) \<le> 256"
      "net_log n2 = net_log n @ (if length (n_rx_backlog n) < 256 then [data] else [])"
    using n1 assms by (auto simp: n2_def rx_frame_def net_ok_def net_log_def)
  note f = flush_frame [OF n2(2)]
  show "rx_frame n (deliver_rx_packet n data)" unfolding eq by (rule rx_frame_trans [OF n2(1) f(1)])
  then show "net_ok (deliver_rx_packet n data)"
    using assms f(3,4) n2(3) by (auto simp: eq net_ok_def rx_frame_def)
  show "net_log (deliver_rx_packet n data) = net_log n @ (if length (n_rx_backlog n) < 256 then [data] else [])"
    by (simp add: eq f(2) n2(4))
qed

lemma deliver_rx_rel: "net_ok n \<Longrightarrow> net_rel n (deliver_rx_packet n data)"
  using deliver_rx_frame [of n data] by (auto simp: net_rel_def rx_frame_def)

lemma send_packet_rel: "net_ok n \<Longrightarrow> net_rel n (on_send_packet buf n)"
  by (simp add: on_send_packet_def deliver_rx_rel)

lemma send_packets_rel: "net_ok n \<Longrightarrow> net_rel n (fold on_send_packet ps n)"
proof (induction ps arbitrary: n)
  case (Cons p ps)
  then show ?case using send_packet_rel net_rel_ok net_rel_trans by (metis fold_simps(2))
qed (simp add: net_rel_refl)

lemma input_rel: "net_ok n \<Longrightarrow> net_rel n (input_packet slirp n frame)"
proof -
  assume ok: "net_ok n"
  let ?n = "n\<lparr>n_inputs := n_inputs n + 1, n_sent := n_sent n @ [frame]\<rparr>"
  have "net_rel n ?n" using ok by (simp add: net_rel_def net_ok_def net_log_def)
  then show ?thesis unfolding input_packet_def by (rule net_rel_trans) (rule send_packets_rel, use ok in \<open>simp add: net_ok_def\<close>)
qed

lemma tx_round_rel: "net_ok n \<Longrightarrow> net_rel n (snd (tx_round slirp n))"
proof -
  assume ok: "net_ok n"
  define n1 where "n1 = n\<lparr>n_tx := (n_tx n)\<lparr>nq_last_avail := nq_last_avail (n_tx n) + 1\<rparr>\<rparr>"
  have n1: "net_rel n n1" using ok by (simp add: n1_def net_rel_def net_ok_def net_log_def)
  let ?i = "avail_entry (n_mem n) (n_tx n)"
  let ?p = "tx_gather (n_mem n) (nq_num (n_tx n)) (nq_desc (n_tx n)) (unat (nq_num (n_tx n))) ?i []"
  define n2 where "n2 = (if virtio_net_hdr_len n1 < length ?p then input_packet slirp n1 (drop (virtio_net_hdr_len n1) ?p) else n1)"
  have n2: "net_rel n n2" using net_rel_trans [OF n1] input_rel net_rel_ok [OF n1] n1 by (simp add: n2_def)
  obtain m where u: "net_push_used (n_mem n2) (n_tx n2) ?i 0 = (m, (n_tx n2)\<lparr>nq_last_used := nq_last_used (n_tx n2) + 1\<rparr>)"
    using net_push_used_queue [of "n_mem n2" "n_tx n2" ?i 0] by (metis prod.collapse)
  have m: "same_outside (n_mem n2) m" using net_push_used_safe [of "n_mem n2" "n_tx n2" ?i 0] u by simp
  have "net_rel n2 (n2\<lparr>n_mem := m, n_tx := (n_tx n2)\<lparr>nq_last_used := nq_last_used (n_tx n2) + 1\<rparr>\<rparr>)"
    using net_rel_ok [OF n2] m by (simp add: net_rel_def net_ok_def net_log_def)
  from net_rel_trans [OF n2 this] show ?thesis
    using n1 n2 net_rel_refl [OF ok]
    unfolding tx_round_def Let_def n1_def [symmetric] n2_def [symmetric] u prod.case
    by (simp split: if_split)
qed

lemma tx_loop_rel:
  assumes "net_tx_loop slirp processed n = Some n'"
  shows "net_ok n \<longrightarrow> net_rel n n'"
proof (rule net_tx_loop.raw_induct [OF _ assms, where P = "\<lambda>slirp processed n n'. net_ok n \<longrightarrow> net_rel n n'"], intro impI)
  fix loop slirp processed n n'
  assume ih: "\<And>slirp processed n n'. loop slirp processed n = Some n' \<Longrightarrow> net_ok n \<longrightarrow> net_rel n n'"
    and res: "(case tx_round slirp n of (Tx_Return, n') \<Rightarrow> Some n'
      | (Tx_Break, n') \<Rightarrow> Some (if processed then raise_used_buffer_irq n' 1 else n')
      | (Tx_Next p, n') \<Rightarrow> loop slirp (processed \<or> p) n') = Some n'"
    and ok: "net_ok n"
  obtain out n1 where r: "tx_round slirp n = (out, n1)" by fastforce
  have n1: "net_rel n n1" using tx_round_rel [OF ok, of slirp] r by simp
  show "net_rel n n'"
  proof (cases out)
    case (Tx_Next p)
    then have "loop slirp (processed \<or> p) n1 = Some n'" using res r by simp
    from ih [OF this] show ?thesis using net_rel_ok [OF n1] n1 by (blast intro: net_rel_trans)
  qed (use res r n1 in \<open>auto simp: net_rel_def net_ok_def net_log_def raise_used_frame split: if_splits\<close>)
qed

lemma net_set_queue_rel:
  assumes "net_ok n" and "\<And>q. nq_num q \<le> 256 \<Longrightarrow> nq_num (f q) \<le> 256"
  shows "net_rel n (net_set_queue n f)"
  using assms by (simp add: net_set_queue_def net_rel_def net_ok_def net_log_def)

lemma net_status_rel: "net_ok n \<Longrightarrow> net_rel n (net_update_status n v)"
  by (simp add: net_update_status_def Let_def net_rel_def net_ok_def net_log_def net_queue_default_def kNetQueueSize_def)

lemma net_write_reg_rel:
  assumes ok: "net_ok n" and res: "net_write_reg slirp n off value = Some n'"
  shows "net_rel n n'"
proof -
  have tx: "process_tx_queue slirp n = Some n' \<Longrightarrow> net_rel n n'"
    using ok tx_loop_rel by (auto simp: process_tx_queue_def net_rel_refl split: if_splits)
  have plain: "net_rel n (n\<lparr>n_device_features_sel := value\<rparr>)" "net_rel n (n\<lparr>n_driver_features := w\<rparr>)"
      "net_rel n (n\<lparr>n_driver_features_sel := value\<rparr>)" "net_rel n (n\<lparr>n_queue_sel := value\<rparr>)" "net_rel n (n\<lparr>n_interrupt_status := v\<rparr>)" for w v
    using ok by (simp_all add: net_rel_def net_ok_def net_log_def)
  have queue: "net_rel n (net_set_queue n (\<lambda>q. q\<lparr>nq_num := (if value = 0 then 0 else min value kNetQueueSize)\<rparr>))"
      "net_rel n (net_set_queue n (\<lambda>q. q\<lparr>nq_ready := b\<rparr>))" "net_rel n (net_set_queue n (\<lambda>q. q\<lparr>nq_desc := g q\<rparr>))"
      "net_rel n (net_set_queue n (\<lambda>q. q\<lparr>nq_driver := g q\<rparr>))" "net_rel n (net_set_queue n (\<lambda>q. q\<lparr>nq_device := g q\<rparr>))" for b g
    by (rule net_set_queue_rel [OF ok]; simp add: kNetQueueSize_def min_def)+
  show ?thesis
    using res tx plain queue flush_rel [OF ok] net_status_rel [OF ok] net_rel_refl [OF ok]
    unfolding net_write_reg_def by (auto split: if_split_asm)
qed

datatype net_event = Net_Write u64 bytes | Net_Packet bytes

fun net_step :: "slirp \<Rightarrow> net \<Rightarrow> net_event \<Rightarrow> net option" where
  "net_step slirp n (Net_Write addr data) = net_write_mmio slirp n addr data"
| "net_step slirp n (Net_Packet buf) = Some (on_send_packet buf n)"

fun net_run :: "slirp \<Rightarrow> net \<Rightarrow> net_event list \<Rightarrow> net option" where
  "net_run slirp n [] = Some n"
| "net_run slirp n (e # es) = (case net_step slirp n e of None \<Rightarrow> None | Some n' \<Rightarrow> net_run slirp n' es)"

lemma net_step_rel: "net_ok n \<Longrightarrow> net_step slirp n e = Some n' \<Longrightarrow> net_rel n n'"
  by (cases e) (auto simp: net_write_mmio_def send_packet_rel net_rel_refl intro: net_write_reg_rel split: if_splits)

lemma net_run_rel: "net_ok n \<Longrightarrow> net_run slirp n es = Some n' \<Longrightarrow> net_rel n n'"
proof (induction es arbitrary: n)
  case (Cons e es)
  then show ?case by (auto split: option.splits dest!: net_step_rel intro: net_rel_trans dest: net_rel_ok)
qed (simp add: net_rel_refl)

lemma net_init_ok: "net_ok (net_init mem base mac)"
  by (simp add: net_ok_def net_init_def net_queue_default_def kNetQueueSize_def)

text \<open>Whatever registers the guest writes, whatever it puts into its rings and descriptors, whatever packets
  arrive and whatever the network answers: the device changes guest memory only, at most 256
  packets wait, every packet it accepts is finished with in the order of arrival and none is lost or
  repeated, and the frames it has sent are never taken back.\<close>
theorem net_confined:
  assumes "net_run slirp (net_init mem base mac) es = Some n" and "net_run slirp n fs = Some n'"
  shows "same_outside mem (n_mem n') \<and> length (n_rx_backlog n') \<le> 256 \<and>
    prefix (n_taken n @ n_rx_backlog n) (n_taken n' @ n_rx_backlog n') \<and> prefix (n_sent n) (n_sent n')"
proof -
  have r: "net_rel (net_init mem base mac) n" by (rule net_run_rel [OF net_init_ok assms(1)])
  have s: "net_rel n n'" by (rule net_run_rel [OF net_rel_ok [OF r] assms(2)])
  have "same_outside mem (n_mem n')" using net_rel_trans [OF r s] by (simp add: net_rel_def net_init_def)
  moreover have "length (n_rx_backlog n') \<le> 256" using net_rel_ok [OF s] by (simp add: net_ok_def)
  ultimately show ?thesis using s by (simp add: net_rel_def net_log_def)
qed

theorem net_confined_witness:
  "\<exists>n'. net_run (\<lambda>_ _. []) (net_init \<lparr>gm_data = (\<lambda>_. 0), gm_len = 0x1000\<rparr> 0 [2, 0, 0, 0, 0, 1]) [Net_Packet [1, 2, 3]] = Some n' \<and>
     same_outside \<lparr>gm_data = (\<lambda>_. 0), gm_len = 0x1000\<rparr> (n_mem n') \<and> length (n_rx_backlog n') \<le> 256"
proof -
  let ?n = "net_init \<lparr>gm_data = (\<lambda>_. 0), gm_len = 0x1000\<rparr> 0 [2, 0, 0, 0, 0, 1]"
  have "net_run (\<lambda>_ _. []) ?n [] = Some ?n" "net_run (\<lambda>_ _. []) ?n [Net_Packet [1, 2, 3]] = Some (on_send_packet [1, 2, 3] ?n)" by simp_all
  from net_confined [OF this] show ?thesis by auto
qed

section \<open>Rings in guest RAM\<close>

lemma index_cast: "(ucast (ucast (ucast (i :: u16) mod (num :: u32)) :: u16) :: u64) = ucast (ucast i mod num :: u32)"
proof -
  have "unat (ucast i mod num :: u32) \<le> unat i" by (simp add: unat_mod ucast_index)
  then have "unat (ucast i mod num :: u32) < 2 ^ 16" using unat_u16_less [of i] by simp
  then show ?thesis by (simp add: word_unat_eq_iff unsigned_ucast_eq take_bit_nat_eq_self unat_take_bit ucast_len)
qed

definition net_used_area :: "net_queue \<Rightarrow> nat set" where
  "net_used_area q = {unat (nq_device q) + 2 ..< unat (nq_device q) + 4 + 8 * unat (nq_num q)}"

lemma net_push_used_eq:
  assumes ring: "unat (nq_device q) + 4 + 8 * unat (nq_num q) \<le> unat (gm_len mem)" and "0 < nq_num q"
    and e: "e = unat (nq_device q) + 4 + 8 * (unat (nq_last_used q) mod unat (nq_num q))"
  shows "net_push_used mem q i w =
    (mem\<lparr>gm_data := WriteU16 (WriteU32 (WriteU32 (gm_data mem) e (ucast i)) (e + 4) w) (unat (nq_device q) + 2) (nq_last_used q + 1)\<rparr>,
     q\<lparr>nq_last_used := nq_last_used q + 1\<rparr>)"
proof -
  let ?e = "nq_device q + 4 + ucast (ucast (nq_last_used q) mod nq_num q) * 8 :: u64"
  have pos: "0 < unat (nq_num q)" using assms(2) by (simp add: unat_gt_0)
  have entry: "unat ?e = e" unfolding e using ring assms(2) by (rule unat_used_entry)
  have "unat (nq_last_used q) mod unat (nq_num q) < unat (nq_num q)" using pos by simp
  then have room: "e + 8 \<le> unat (gm_len mem)" unfolding e using ring by linarith
  have "unat (nq_device q + 2) = unat (nq_device q) + 2"
    using ring unat_u64_less [of "gm_len mem"] by (subst unat_add_no_wrap) auto
  then have p2: "ptr_or_null (mem\<lparr>gm_data := d\<rparr>) (nq_device q + 2) 2 = Some (unat (nq_device q) + 2)" for d
    using ring by (simp add: ptr_or_null_Some)
  have p8: "ptr_or_null mem ?e 4 = Some e" using room entry by (simp add: ptr_or_null_Some)
  have "unat (?e + 4) = e + 4"
    using room unat_u64_less [of "gm_len mem"] by (subst unat_add_no_wrap) (auto simp: entry)
  then have p4: "ptr_or_null (mem\<lparr>gm_data := d\<rparr>) (?e + 4) 4 = Some (e + 4)" for d
    using room by (simp add: ptr_or_null_Some)
  show ?thesis
    unfolding net_push_used_def Let_def index_cast net_write_u32_def net_write_u16_def gm_write_def p8 option.case p4
    by (simp add: store_memcpy p2)
qed

lemma net_push_used_effect:
  assumes "unat (nq_device q) + 4 + 8 * unat (nq_num q) \<le> unat (gm_len mem)" and "0 < nq_num q"
    and e: "e = unat (nq_device q) + 4 + 8 * (unat (nq_last_used q) mod unat (nq_num q))"
  shows "\<exists>mem'. net_push_used mem q i w = (mem', q\<lparr>nq_last_used := nq_last_used q + 1\<rparr>) \<and> gm_len mem' = gm_len mem
    \<and> ReadU32 (gm_data mem') e = ucast i \<and> ReadU32 (gm_data mem') (e + 4) = w
    \<and> ReadU16 (gm_data mem') (unat (nq_device q) + 2) = nq_last_used q + 1
    \<and> (\<forall>a. a \<notin> net_used_area q \<longrightarrow> gm_data mem' a = gm_data mem a)"
proof -
  let ?d = "WriteU16 (WriteU32 (WriteU32 (gm_data mem) e (ucast i)) (e + 4) w) (unat (nq_device q) + 2) (nq_last_used q + 1)"
  have lo: "unat (nq_device q) + 4 \<le> e" by (simp add: e)
  have "unat (nq_last_used q) mod unat (nq_num q) < unat (nq_num q)" using assms(2) by (simp add: unat_gt_0)
  then have hi: "e + 8 \<le> unat (nq_device q) + 4 + 8 * unat (nq_num q)" unfolding e by linarith
  have "ReadU32 ?d e = ucast i" "ReadU32 ?d (e + 4) = w" "ReadU16 ?d (unat (nq_device q) + 2) = nq_last_used q + 1"
    using lo by (simp_all only: read_layout length_le_bytes) (simp_all add: cell32.load_memcpy_disjoint load_of_le_bytes)
  moreover have "\<forall>a. a \<notin> net_used_area q \<longrightarrow> ?d a = gm_data mem a"
    using lo hi by (auto simp: store_memcpy memcpy_def net_used_area_def)
  ultimately show ?thesis
    using net_push_used_eq [OF assms, of i w] by (intro exI [of _ "mem\<lparr>gm_data := ?d\<rparr>"]) simp
qed

text \<open>One writable descriptor without a successor takes as much of a frame as it has room for.\<close>

lemma rx_copy_single:
  assumes "framed \<noteq> []" and head: "ucast head < num" and left: "0 < left"
    and p: "ptr_or_null mem (da + ucast head * 16) 16 = Some p" and d: "d = read_desc mem p"
    and "d_flags d AND kRingDescFWrite \<noteq> 0" and "d_flags d AND kRingDescFNext = 0"
    and ram: "unat (d_addr d) + unat (d_len d) \<le> unat (gm_len mem)"
  shows "rx_copy num da framed left mem 0 head = (gm_write mem (unat (d_addr d)) (take (unat (d_len d)) framed), True)"
proof -
  define k where "k = min (unat (d_len d)) (length framed)"
  have "k < 2 ^ 64" using unat_u32_less [of "d_len d"] by (simp add: k_def min_def)
  then have "unat (of_nat k :: u64) = k" by (simp add: unsigned_of_nat take_bit_nat_eq_self)
  moreover have "unat (d_addr d) + k \<le> unat (gm_len mem)" using ram by (simp add: k_def min_def)
  ultimately have s: "ptr_or_null mem (d_addr d) (of_nat k) = Some (unat (d_addr d))" by (simp add: ptr_or_null_Some)
  obtain left' where "left = Suc left'" using left by (cases left) auto
  moreover have "take k framed = take (unat (d_len d)) framed" by (simp add: k_def min_def)
  ultimately show ?thesis using assms(1,2,6,7) p s
    by (subst rx_copy.simps) (simp add: Let_def d [symmetric] k_def [symmetric])
qed

lemma frame_packet_eq: "frame_packet 12 data = replicate 12 0 @ data"
  by (simp add: frame_packet_def Let_def buf_put_def)

lemma length_frame_packet [simp]: "length (frame_packet h data) = h + length data"
  by (simp add: frame_packet_def Let_def)

text \<open>A packet for a queue with such a descriptor at the head of its available ring.\<close>

definition rx_single :: "net \<Rightarrow> desc \<Rightarrow> u16 \<Rightarrow> bool" where
  "rx_single n d head \<longleftrightarrow> (let q = n_rx n; mem = n_mem n in
     queue_usable q \<and> nq_last_avail q \<noteq> avail_index mem q \<and> head = avail_entry mem q \<and> ucast head < nq_num q \<and>
     ptr_or_null mem (nq_desc q + ucast head * 16) 16 = Some (unat (nq_desc q + ucast head * 16)) \<and>
     d = read_desc mem (unat (nq_desc q + ucast head * 16)) \<and>
     d_flags d AND kRingDescFWrite \<noteq> 0 \<and> d_flags d AND kRingDescFNext = 0 \<and>
     unat (d_addr d) + unat (d_len d) \<le> unat (gm_len mem) \<and>
     unat (nq_device q) + 4 + 8 * unat (nq_num q) \<le> unat (gm_len mem) \<and>
     {unat (d_addr d) ..< unat (d_addr d) + unat (d_len d)} \<inter> net_used_area q = {})"

lemma rx_single_delivers:
  assumes s: "rx_single n d head" and len: "length data \<le> 1518"
    and q: "q = n_rx n" and framed: "framed = frame_packet (virtio_net_hdr_len n) data"
    and e: "e = unat (nq_device q) + 4 + 8 * (unat (nq_last_used q) mod unat (nq_num q))"
  shows "\<exists>n'. deliver_rx_packet_now n data = (n', True) \<and>
    gm_read (n_mem n') (unat (d_addr d)) (min (unat (d_len d)) (length framed)) = take (unat (d_len d)) framed \<and>
    ReadU32 (gm_data (n_mem n')) e = ucast head \<and> ReadU32 (gm_data (n_mem n')) (e + 4) = of_nat (length framed) \<and>
    ReadU16 (gm_data (n_mem n')) (unat (nq_device q) + 2) = nq_last_used q + 1 \<and>
    n_rx n' = q\<lparr>nq_last_avail := nq_last_avail q + 1, nq_last_used := nq_last_used q + 1\<rparr> \<and>
    (\<forall>a. a \<notin> net_used_area q \<and> a \<notin> {unat (d_addr d) ..< unat (d_addr d) + unat (d_len d)} \<longrightarrow> gm_data (n_mem n') a = gm_data (n_mem n) a) \<and>
    n_irqs n' = n_irqs n + (if net_read_u16 (n_mem n') (nq_driver q) AND kRingAvailFNoInterrupt = 0 then 1 else 0)"
proof -
  let ?mem = "n_mem n"
  note u = s [unfolded rx_single_def Let_def, folded q]
  define m1 where "m1 = gm_write ?mem (unat (d_addr d)) (take (unat (d_len d)) framed)"
  define q' where "q' = q\<lparr>nq_last_avail := nq_last_avail q + 1\<rparr>"
  have pos: "0 < nq_num q" using u by (auto simp: queue_usable_def word_neq_0_conv)
  then have left: "0 < unat (nq_num q)" by (simp add: unat_gt_0)
  have ne: "framed \<noteq> []" by (rule length_greater_0_conv [THEN iffD1]) (simp add: framed virtio_net_hdr_len_def kVirtioNetHdrLenBase_def)
  have copy: "rx_copy (nq_num q) (nq_desc q) framed (unat (nq_num q)) ?mem 0 head = (m1, True)"
    unfolding m1_def using u by (intro rx_copy_single [OF ne _ left, where p = "unat (nq_desc q + ucast head * 16)"]) auto
  have ring: "unat (nq_device q') + 4 + 8 * unat (nq_num q') \<le> unat (gm_len m1)" "0 < nq_num q'"
    using u pos by (simp_all add: q'_def m1_def)
  obtain m2 where m2: "net_push_used m1 q' head (of_nat (length framed)) = (m2, q'\<lparr>nq_last_used := nq_last_used q' + 1\<rparr>)"
      "ReadU32 (gm_data m2) e = ucast head" "ReadU32 (gm_data m2) (e + 4) = of_nat (length framed)"
      "ReadU16 (gm_data m2) (unat (nq_device q) + 2) = nq_last_used q + 1" "\<forall>a. a \<notin> net_used_area q \<longrightarrow> gm_data m2 a = gm_data m1 a"
    using net_push_used_effect [OF ring refl, of head "of_nat (length framed)"] by (auto simp: q'_def e net_used_area_def)
  let ?n = "n\<lparr>n_taken := n_taken n @ [data], n_mem := m2, n_rx := q'\<lparr>nq_last_used := nq_last_used q' + 1\<rparr>\<rparr>"
  have "\<not> 1500 + 14 + 4 < length data" using len by simp
  moreover have usable: "queue_usable q" "nq_ready q'" "nq_num q' \<noteq> 0" "nq_device q' \<noteq> 0"
    using u by (simp_all add: q'_def queue_usable_def)
  moreover have "\<not> nq_num q \<le> ucast (avail_entry ?mem q)" using u by (auto simp: not_le)
  ultimately have res: "deliver_rx_packet_now n data = (raise_used_buffer_irq ?n 0, True)"
    unfolding deliver_rx_packet_now_def Let_def q [symmetric] framed [symmetric]
    using u copy m2(1) by (simp add: q'_def [symmetric])
  have inside: "gm_read m2 (unat (d_addr d)) (min (unat (d_len d)) (length framed)) = take (unat (d_len d)) framed"
  proof -
    have "gm_read m2 (unat (d_addr d)) (min (unat (d_len d)) (length framed)) = gm_read m1 (unat (d_addr d)) (min (unat (d_len d)) (length framed))"
      unfolding gm_read_def using u m2(5) by (intro read_bytes_cong) (auto simp: disjoint_iff)
    then show ?thesis using gm_read_gm_write [of ?mem "unat (d_addr d)" "take (unat (d_len d)) framed"] by (simp add: m1_def min.commute)
  qed
  have outside: "\<forall>a. a \<notin> net_used_area q \<and> a \<notin> {unat (d_addr d) ..< unat (d_addr d) + unat (d_len d)} \<longrightarrow> gm_data m2 a = gm_data ?mem a"
    using m2(5) by (auto simp: m1_def gm_write_def memcpy_def)
  show ?thesis
    using inside outside m2(2-4) usable(1)
    by (intro exI [of _ "raise_used_buffer_irq ?n 0"])
      (simp add: res raise_used_frame q'_def raise_used_buffer_irq_def Let_def queue_usable_def)
qed


text \<open>A buffer too small for the frame takes its beginning only, but the used element still reports the
  whole frame: more bytes than were written.\<close>

lemma rx_short_overreports:
  assumes "rx_single n d head" and "length data \<le> 1518" and "unat (d_len d) < virtio_net_hdr_len n + length data"
    and "e = unat (nq_device (n_rx n)) + 4 + 8 * (unat (nq_last_used (n_rx n)) mod unat (nq_num (n_rx n)))"
  shows "\<exists>n'. deliver_rx_packet_now n data = (n', True) \<and> d_len d < ReadU32 (gm_data (n_mem n')) (e + 4) \<and>
    (\<forall>a. a \<notin> net_used_area (n_rx n) \<and> a \<notin> {unat (d_addr d) ..< unat (d_addr d) + unat (d_len d)} \<longrightarrow> gm_data (n_mem n') a = gm_data (n_mem n) a)"
proof -
  have "virtio_net_hdr_len n \<le> 14" by (simp add: virtio_net_hdr_len_def kVirtioNetHdrLenBase_def)
  then have "unat (of_nat (virtio_net_hdr_len n + length data) :: u32) = virtio_net_hdr_len n + length data"
    using assms(2) by (simp add: unsigned_of_nat take_bit_nat_eq_self del: of_nat_add)
  then have "d_len d < of_nat (virtio_net_hdr_len n + length data)" using assms(3) by (simp add: word_less_nat_alt del: of_nat_add)
  then show ?thesis using rx_single_delivers [OF assms(1,2) refl refl assms(4)] by auto
qed

section \<open>Transmission\<close>

text \<open>The used ring apart from what a transmission reads: the available ring, the descriptor table
  and the readable buffers.\<close>

definition tx_layout :: "guest_memory \<Rightarrow> net_queue \<Rightarrow> bool" where
  "tx_layout mem q \<longleftrightarrow> queue_usable q \<and>
     unat (nq_driver q) + 4 + 2 * unat (nq_num q) \<le> unat (gm_len mem) \<and>
     unat (nq_desc q) + 16 * unat (nq_num q) \<le> unat (gm_len mem) \<and>
     unat (nq_device q) + 4 + 8 * unat (nq_num q) \<le> unat (gm_len mem) \<and>
     net_used_area q \<inter> {unat (nq_driver q) ..< unat (nq_driver q) + 4 + 2 * unat (nq_num q)} = {} \<and>
     net_used_area q \<inter> {unat (nq_desc q) ..< unat (nq_desc q) + 16 * unat (nq_num q)} = {} \<and>
     (\<forall>i < unat (nq_num q). let d = read_desc mem (unat (nq_desc q) + 16 * i) in
        net_used_area q \<inter> {unat (d_addr d) ..< unat (d_addr d) + unat (d_len d)} = {})"

definition agree_but :: "nat set \<Rightarrow> guest_memory \<Rightarrow> guest_memory \<Rightarrow> bool" where
  "agree_but A m m' \<longleftrightarrow> gm_len m' = gm_len m \<and> (\<forall>a. a \<notin> A \<longrightarrow> gm_data m' a = gm_data m a)"

lemma agree_but_ptr: "agree_but A m m' \<Longrightarrow> ptr_or_null m' a k = ptr_or_null m a k"
  by (simp add: agree_but_def ptr_or_null_def gm_size_def)

lemma agree_but_bytes: "agree_but A m m' \<Longrightarrow> A \<inter> {p ..< p + k} = {} \<Longrightarrow> read_bytes (gm_data m') p k = read_bytes (gm_data m) p k"
  by (intro read_bytes_cong) (auto simp: agree_but_def disjoint_iff)

lemma agree_but_desc:
  assumes "agree_but A m m'" and "A \<inter> {p ..< p + 16} = {}"
  shows "read_desc m' p = read_desc m p"
proof -
  have part: "k + j \<le> 16 \<Longrightarrow> read_bytes (gm_data m') (p + k) j = read_bytes (gm_data m) (p + k) j" for k j
    using assms(2) by (intro agree_but_bytes [OF assms(1)]) (auto simp: disjoint_iff)
  show ?thesis
    unfolding read_desc_def load_le_word using part [of 0 8] part [of 8 4] part [of 12 2] part [of 14 2] by simp
qed

lemma desc_address:
  assumes "unat da + 16 * unat (num :: u32) \<le> unat (len :: u64)" and "ucast (cur :: u16) < num"
  shows "unat (da + ucast cur * 16 :: u64) = unat da + 16 * unat cur" "unat cur < unat num"
proof -
  show "unat cur < unat num" using assms(2) by (simp add: word_less_nat_alt ucast_index)
  then have "unat da + 16 * unat cur < 2 ^ 64" using assms(1) unat_u64_less [of len] by simp
  moreover have "unat (ucast cur :: u64) = unat cur" using unat_u16_less [of cur] by (simp add: unsigned_ucast_eq take_bit_nat_eq_self)
  ultimately show "unat (da + ucast cur * 16 :: u64) = unat da + 16 * unat cur" by (simp add: unat_word_ariths mult.commute)
qed

lemma tx_gather_agree:
  assumes lay: "tx_layout mem q" and ag: "agree_but (net_used_area q) mem m'"
  shows "tx_gather m' (nq_num q) (nq_desc q) left cur packet = tx_gather mem (nq_num q) (nq_desc q) left cur packet"
proof (induction left arbitrary: cur packet)
  case 0
  show ?case by (simp add: tx_gather.simps)
next
  case (Suc left)
  show ?case
  proof (cases "nq_num q \<le> ucast cur")
    case True
    then show ?thesis by (simp add: tx_gather.simps)
  next
    case False
    define p where "p = unat (nq_desc q) + 16 * unat cur"
    have a: "unat (nq_desc q + ucast cur * 16) = p" "unat cur < unat (nq_num q)"
      using desc_address [of "nq_desc q" "nq_num q" "gm_len mem" cur] lay False by (simp_all add: tx_layout_def p_def not_le)
    have "net_used_area q \<inter> {p ..< p + 16} = {}" using lay a(2) by (auto simp: tx_layout_def p_def disjoint_iff)
    note d = agree_but_desc [OF ag this]
    define d where "d = read_desc mem p"
    have buf: "net_used_area q \<inter> {unat (d_addr d) ..< unat (d_addr d) + unat (d_len d)} = {}"
      using lay a(2) by (simp add: tx_layout_def Let_def d_def p_def)
    have ptr: "ptr_or_null m' x k = ptr_or_null mem x k" for x k by (rule agree_but_ptr [OF ag])
    have seg: "ptr_or_null mem (d_addr d) (ucast (d_len d)) = Some s \<Longrightarrow> gm_read m' s (unat (d_len d)) = gm_read mem s (unat (d_len d))" for s
      unfolding gm_read_def using agree_but_bytes [OF ag buf] by (simp add: ptr_or_null_Some)
    have room: "ptr_or_null mem (nq_desc q + ucast cur * 16) 16 = Some p"
      using lay a by (simp add: ptr_or_null_Some tx_layout_def p_def)
    have "(case ptr_or_null mem (d_addr d) (ucast (d_len d)) of None \<Rightarrow> packet | Some s \<Rightarrow> packet @ gm_read m' s (unat (d_len d)))
        = (case ptr_or_null mem (d_addr d) (ucast (d_len d)) of None \<Rightarrow> packet | Some s \<Rightarrow> packet @ gm_read mem s (unat (d_len d)))"
      by (cases "ptr_or_null mem (d_addr d) (ucast (d_len d))") (simp_all add: seg)
    then show ?thesis
      unfolding tx_gather.simps [of _ _ _ "Suc left"] ptr room option.case nat.case d Let_def d_def [symmetric] Suc.IH by simp
  qed
qed

text \<open>The frames an available entry stands for: at most one, without the header.\<close>

definition tx_frames :: "nat \<Rightarrow> guest_memory \<Rightarrow> net_queue \<Rightarrow> bytes list" where
  "tx_frames hdr_len mem q =
    (let i = avail_entry mem q; packet = tx_gather mem (nq_num q) (nq_desc q) (unat (nq_num q)) i []
     in if nq_num q \<le> ucast i \<or> length packet \<le> hdr_len then [] else [drop hdr_len packet])"

definition at_avail :: "net_queue \<Rightarrow> u16 \<Rightarrow> net_queue" where
  "at_avail q i = q\<lparr>nq_last_avail := i\<rparr>"

lemma avail_agree:
  assumes lay: "tx_layout mem q" and ag: "agree_but (net_used_area q) mem m'" and "nq_driver r = nq_driver q" "nq_num r = nq_num q"
  shows "avail_index m' r = avail_index mem r" "avail_entry m' r = avail_entry mem r"
proof -
  let ?R = "{unat (nq_driver q) ..< unat (nq_driver q) + 4 + 2 * unat (nq_num q)}"
  have cell: "net_read_u16 m' a = net_read_u16 mem a" if "unat (nq_driver q) \<le> unat a" "unat a + 2 \<le> unat (nq_driver q) + 4 + 2 * unat (nq_num q)" for a
  proof -
    have "net_used_area q \<inter> {unat a ..< unat a + 2} = {}" using lay that by (auto simp: tx_layout_def disjoint_iff)
    note same = agree_but_bytes [OF ag this]
    show ?thesis
    proof (cases "ptr_or_null mem a 2")
      case (Some p)
      then have "p = unat a" by (simp add: ptr_or_null_Some)
      then show ?thesis using same Some by (simp add: net_read_u16_def agree_but_ptr [OF ag] load_le_word)
    qed (simp add: net_read_u16_def agree_but_ptr [OF ag])
  qed
  have ring: "unat (nq_driver q) + 4 + 2 * unat (nq_num q) \<le> unat (gm_len mem)" and num: "0 < unat (nq_num q)"
    using lay by (auto simp: tx_layout_def queue_usable_def unat_gt_0)
  have "unat (nq_driver q + 2) = unat (nq_driver q) + 2"
    using ring unat_u64_less [of "gm_len mem"] by (subst unat_add_no_wrap) auto
  then show "avail_index m' r = avail_index mem r" unfolding avail_index_def assms(3) by (intro cell) simp_all
  have idx: "unat (ucast (ucast (nq_last_avail r) mod nq_num q :: u32) :: u64) = unat (nq_last_avail r) mod unat (nq_num q)"
    by (simp add: ucast_len unat_mod ucast_index)
  have less: "unat (nq_last_avail r) mod unat (nq_num q) < unat (nq_num q)" using num by simp
  then have "unat (nq_driver q) + 4 + 2 * (unat (nq_last_avail r) mod unat (nq_num q)) + 2 \<le> unat (nq_driver q) + 4 + 2 * unat (nq_num q)"
    by linarith
  moreover from this have "unat (nq_driver q + 4 + ucast (ucast (nq_last_avail r) mod nq_num q :: u32) * 2 :: u64)
      = unat (nq_driver q) + 4 + 2 * (unat (nq_last_avail r) mod unat (nq_num q))"
    using ring unat_u64_less [of "gm_len mem"] by (simp add: unat_word_ariths idx mult.commute)
  ultimately show "avail_entry m' r = avail_entry mem r"
    unfolding avail_entry_def Let_def assms(3,4) index_cast by (intro cell) simp_all
qed

lemma tx_frames_agree:
  assumes "tx_layout mem q" and "agree_but (net_used_area q) mem m'"
  shows "tx_frames h m' (at_avail q i) = tx_frames h mem (at_avail q i)"
  using avail_agree(2) [OF assms, of "at_avail q i"] tx_gather_agree [OF assms]
  by (simp add: tx_frames_def at_avail_def Let_def)

text \<open>A network stack that answers through its own thread only.\<close>

definition silent :: slirp where
  "silent k p = []"

lemma input_silent: "input_packet silent n frame = n\<lparr>n_inputs := n_inputs n + 1, n_sent := n_sent n @ [frame]\<rparr>"
  by (simp add: input_packet_def silent_def)

text \<open>A state of the transmit loop that has come to entry \<open>i\<close> of the queue \<open>q\<close>, programmed in memory \<open>mem\<close>.\<close>

definition tx_at :: "guest_memory \<Rightarrow> net_queue \<Rightarrow> nat \<Rightarrow> net \<Rightarrow> u16 \<Rightarrow> bytes list \<Rightarrow> bool" where
  "tx_at mem q h n i sent \<longleftrightarrow> agree_but (net_used_area q) mem (n_mem n) \<and> (\<exists>lu. n_tx n = q\<lparr>nq_last_avail := i, nq_last_used := lu\<rparr>) \<and>
     virtio_net_hdr_len n = h \<and> n_sent n = sent"

lemma tx_round_silent:
  assumes lay: "tx_layout mem q" and at: "tx_at mem q h n i sent" and "i \<noteq> avail_index mem q"
  shows "\<exists>p n'. tx_round silent n = (Tx_Next p, n') \<and> tx_at mem q h n' (i + 1) (sent @ tx_frames h mem (at_avail q i))"
proof -
  obtain lu where r: "n_tx n = q\<lparr>nq_last_avail := i, nq_last_used := lu\<rparr>" and ag: "agree_but (net_used_area q) mem (n_mem n)"
      and h: "virtio_net_hdr_len n = h" and sent: "n_sent n = sent"
    using at by (auto simp: tx_at_def)
  let ?d = "avail_entry mem (at_avail q i)"
  have entry: "avail_entry (n_mem n) (n_tx n) = ?d" "avail_index (n_mem n) (n_tx n) = avail_index mem q"
    using avail_agree [OF lay ag, of "n_tx n"] by (simp_all add: r avail_entry_def avail_index_def at_avail_def)
  have gather: "tx_gather (n_mem n) (nq_num q) (nq_desc q) k c xs = tx_gather mem (nq_num q) (nq_desc q) k c xs" for k c xs
    by (rule tx_gather_agree [OF lay ag])
  let ?p = "tx_gather mem (nq_num q) (nq_desc q) (unat (nq_num q)) ?d []"
  define n1 where "n1 = n\<lparr>n_tx := q\<lparr>nq_last_avail := i + 1, nq_last_used := lu\<rparr>\<rparr>"
  define n2 where "n2 = (if h < length ?p then input_packet silent n1 (drop h ?p) else n1)"
  have usable: "queue_usable (n_tx n)" using lay by (simp add: tx_layout_def queue_usable_def r)
  have hdr: "n_driver_features m = n_driver_features n \<Longrightarrow> virtio_net_hdr_len m = h" for m
    by (simp add: virtio_net_hdr_len_def flip: h)
  have n2: "n_mem n2 = n_mem n" "n_tx n2 = q\<lparr>nq_last_avail := i + 1, nq_last_used := lu\<rparr>"
      "n_sent n2 = sent @ (if h < length ?p then [drop h ?p] else [])" "n_driver_features n2 = n_driver_features n"
    using sent by (simp_all add: n2_def n1_def input_silent)
  have n1: "virtio_net_hdr_len n1 = h" by (rule hdr) (simp add: n1_def)
  have live: "nq_ready q" "nq_num q \<noteq> 0" "nq_device q \<noteq> 0" using lay by (simp_all add: tx_layout_def queue_usable_def)
  have round: "tx_round silent n = (if nq_num q \<le> ucast ?d then (Tx_Next False, n1)
      else case net_push_used (n_mem n2) (n_tx n2) ?d 0 of (m, s) \<Rightarrow> (Tx_Next True, n2\<lparr>n_mem := m, n_tx := s\<rparr>))"
  proof -
    have upd: "n\<lparr>n_tx := (n_tx n)\<lparr>nq_last_avail := nq_last_avail (n_tx n) + 1\<rparr>\<rparr> = n1" by (simp add: n1_def r)
    have static: "nq_num (n_tx n) = nq_num q" "nq_desc (n_tx n) = nq_desc q" by (simp_all add: r)
    have "nq_last_avail (n_tx n) = i" by (simp add: r)
    then show ?thesis
      unfolding tx_round_def Let_def upd entry static gather n1 n2_def [symmetric] using usable assms(3) live
      by (simp add: n2(2))
  qed
  show ?thesis
  proof (cases "nq_num q \<le> ucast ?d")
    case True
    then have "tx_frames h mem (at_avail q i) = []" by (simp add: tx_frames_def Let_def at_avail_def)
    then show ?thesis using True round n1 ag sent by (auto simp: tx_at_def n1_def)
  next
    case False
    have ring: "unat (nq_device (n_tx n2)) + 4 + 8 * unat (nq_num (n_tx n2)) \<le> unat (gm_len (n_mem n2))" "0 < nq_num (n_tx n2)"
      using lay ag live by (simp_all add: n2 tx_layout_def agree_but_def word_neq_0_conv)
    obtain m where m: "net_push_used (n_mem n2) (n_tx n2) ?d 0 = (m, (n_tx n2)\<lparr>nq_last_used := nq_last_used (n_tx n2) + 1\<rparr>)"
        "gm_len m = gm_len (n_mem n2)" "\<forall>a. a \<notin> net_used_area (n_tx n2) \<longrightarrow> gm_data m a = gm_data (n_mem n2) a"
      using net_push_used_effect [OF ring refl, of ?d 0] by auto
    have "net_used_area (n_tx n2) = net_used_area q" by (simp add: net_used_area_def n2)
    then have "agree_but (net_used_area q) mem m" using m(2,3) ag by (simp add: agree_but_def n2)
    moreover have "tx_frames h mem (at_avail q i) = (if h < length ?p then [drop h ?p] else [])"
      using False by (auto simp: tx_frames_def Let_def at_avail_def)
    moreover have "virtio_net_hdr_len (n2\<lparr>n_mem := m, n_tx := s\<rparr>) = h" for s by (rule hdr) (simp add: n2)
    ultimately show ?thesis using False round m(1) n2
      by (intro exI [of _ True] exI [of _ "n2\<lparr>n_mem := m, n_tx := (n_tx n2)\<lparr>nq_last_used := nq_last_used (n_tx n2) + 1\<rparr>\<rparr>"])
        (auto simp: tx_at_def)
  qed
qed

lemma tx_round_stops:
  assumes "tx_layout mem q" and "tx_at mem q h n (avail_index mem q) sent"
  shows "tx_round s n = (Tx_Break, n)"
proof -
  obtain lu where r: "n_tx n = q\<lparr>nq_last_avail := avail_index mem q, nq_last_used := lu\<rparr>" and ag: "agree_but (net_used_area q) mem (n_mem n)"
    using assms(2) by (auto simp: tx_at_def)
  have "avail_index (n_mem n) (n_tx n) = avail_index mem q"
    using avail_agree(1) [OF assms(1) ag, of "n_tx n"] by (simp add: r avail_index_def)
  moreover have "queue_usable (n_tx n)" using assms(1) by (simp add: r tx_layout_def queue_usable_def)
  ultimately show ?thesis by (simp add: tx_round_def Let_def r)
qed

lemma tx_loop_drains:
  assumes "tx_layout mem q" and "tx_at mem q h n i sent" and "unat (avail_index mem q - i) = k"
  shows "\<exists>n'. net_tx_loop silent processed n = Some n' \<and>
    tx_at mem q h n' (avail_index mem q) (sent @ concat (map (\<lambda>j. tx_frames h mem (at_avail q (i + of_nat j))) [0 ..< k]))"
  using assms(2,3)
proof (induction k arbitrary: n i sent processed)
  case 0
  then have i: "i = avail_index mem q" by (simp add: unat_eq_0)
  have "net_tx_loop silent processed n = Some (if processed then raise_used_buffer_irq n 1 else n)"
    using tx_round_stops [OF assms(1)] 0 i by (subst net_tx_loop.simps) simp
  moreover have "virtio_net_hdr_len (raise_used_buffer_irq n 1) = virtio_net_hdr_len n" by (simp add: virtio_net_hdr_len_def raise_used_frame)
  ultimately show ?case using 0(1) by (auto simp: i tx_at_def raise_used_frame)
next
  case (Suc k)
  then have ne: "i \<noteq> avail_index mem q" by auto
  obtain p n1 where r: "tx_round silent n = (Tx_Next p, n1)" and at1: "tx_at mem q h n1 (i + 1) (sent @ tx_frames h mem (at_avail q i))"
    using tx_round_silent [OF assms(1) Suc.prems(1) ne] by blast
  have "unat (avail_index mem q - (i + 1)) = k"
  proof -
    have "unat (avail_index mem q - i - 1) = unat (avail_index mem q - i) - 1"
      using ne by (intro unat_minus_one) auto
    then show ?thesis using Suc.prems(2) by (simp add: diff_diff_eq)
  qed
  from Suc.IH [OF at1 this, of "processed \<or> p"] obtain n' where
    "net_tx_loop silent (processed \<or> p) n1 = Some n'"
    "tx_at mem q h n' (avail_index mem q) ((sent @ tx_frames h mem (at_avail q i))
       @ concat (map (\<lambda>j. tx_frames h mem (at_avail q (i + 1 + of_nat j))) [0 ..< k]))" by blast
  moreover have "map (\<lambda>j. tx_frames h mem (at_avail q (i + of_nat j))) [0 ..< Suc k]
      = tx_frames h mem (at_avail q i) # map (\<lambda>j. tx_frames h mem (at_avail q (i + 1 + of_nat j))) [0 ..< k]"
    by (simp add: upt_conv_Cons map_Suc_upt [symmetric] add.assoc del: upt_Suc)
  ultimately show ?case using r by (subst net_tx_loop.simps) simp
qed


section \<open>A small guest\<close>

text \<open>One descriptor at 0x10 with a buffer at 0x30, the available ring at 0x60 with one entry, the used ring
  at 0x80.\<close>

definition sample_queue :: net_queue where
  "sample_queue = \<lparr>nq_ready = True, nq_num = 1, nq_desc = 0x10, nq_driver = 0x60, nq_device = 0x80, nq_last_avail = 0, nq_last_used = 0\<rparr>"

definition sample_mem :: "u8 \<Rightarrow> guest_memory" where
  "sample_mem flags = \<lparr>gm_data = memcpy (memcpy (memcpy (\<lambda>_. 0) 0x10 (le_bytes 8 (0x30 :: u64) @ le_bytes 4 (0x10 :: u32) @ [flags, 0, 0, 0]))
     0x62 [1, 0]) 0x3C [9, 8, 7, 6], gm_len = 0x1000\<rparr>"

definition sample_net :: "u8 \<Rightarrow> net" where
  "sample_net flags = (net_init (sample_mem flags) 0xD0000200 [2, 0, 0, 0, 0, 1])\<lparr>n_slirp := True, n_rx := sample_queue, n_tx := sample_queue\<rparr>"

lemma sample_reads:
  "read_desc (sample_mem 2) 16 = \<lparr>d_addr = 0x30, d_len = 0x10, d_flags = 2, d_next = 0\<rparr>"
  "read_desc (sample_mem 0) 16 = \<lparr>d_addr = 0x30, d_len = 0x10, d_flags = 0, d_next = 0\<rparr>"
  "avail_index (sample_mem 2) sample_queue = 1" "avail_entry (sample_mem 2) sample_queue = 0"
  "avail_index (sample_mem 0) sample_queue = 1" "avail_entry (sample_mem 0) sample_queue = 0"
  "gm_read (sample_mem 0) 0x30 16 = replicate 12 0 @ [9, 8, 7, 6]"
  by code_simp+

lemma sample_fields: "n_mem (sample_net f) = sample_mem f" "n_rx (sample_net f) = sample_queue" "n_tx (sample_net f) = sample_queue"
  "n_slirp (sample_net f)" "virtio_net_hdr_len (sample_net f) = 12" "n_sent (sample_net f) = []" "n_driver_features (sample_net f) = 0"
  "gm_len (sample_mem f) = 0x1000" "queue_usable sample_queue"
  by (simp_all add: sample_net_def sample_mem_def net_init_def virtio_net_hdr_len_def kVirtioNetHdrLenBase_def sample_queue_def queue_usable_def)


lemma sample_tx_layout: "tx_layout (sample_mem 0) sample_queue"
  unfolding tx_layout_def by (simp add: sample_fields) (simp add: sample_queue_def sample_reads net_used_area_def)


section \<open>A transmit queue that never drains\<close>

text \<open>A guest that places the used ring over its available ring makes every round move the index it
  is compared with: the loop runs forever, with the processor's exit still being handled.\<close>

definition overlapped :: "net \<Rightarrow> bool" where
  "overlapped n \<longleftrightarrow> gm_len (n_mem n) = 0x1000 \<and> read_desc (n_mem n) 16 = \<lparr>d_addr = 0, d_len = 0, d_flags = 0, d_next = 0\<rparr> \<and>
     ReadU16 (gm_data (n_mem n)) 0x84 = 0 \<and>
     (\<exists>u. ReadU16 (gm_data (n_mem n)) 0x82 = u \<and>
       n_tx n = \<lparr>nq_ready = True, nq_num = 1, nq_desc = 16, nq_driver = 0x80, nq_device = 0x80, nq_last_avail = u + 1, nq_last_used = u\<rparr>)"

lemma overlapped_round:
  assumes "overlapped n"
  shows "\<exists>n'. tx_round slirp n = (Tx_Next True, n') \<and> overlapped n'"
proof -
  obtain u where u: "ReadU16 (gm_data (n_mem n)) 0x82 = u" "ReadU16 (gm_data (n_mem n)) 0x84 = 0" "gm_len (n_mem n) = 0x1000"
      "n_tx n = \<lparr>nq_ready = True, nq_num = 1, nq_desc = 16, nq_driver = 0x80, nq_device = 0x80, nq_last_avail = u + 1, nq_last_used = u\<rparr>"
      "read_desc (n_mem n) 16 = \<lparr>d_addr = 0, d_len = 0, d_flags = 0, d_next = 0\<rparr>"
    using assms by (auto simp: overlapped_def)
  define q where "q = \<lparr>nq_ready = True, nq_num = 1, nq_desc = 16, nq_driver = 0x80, nq_device = 0x80, nq_last_avail = u + 1 + 1, nq_last_used = u\<rparr>"
  have cell: "net_read_u16 (n_mem n) a = ReadU16 (gm_data (n_mem n)) (unat a)" if "unat a + 2 \<le> 0x1000" for a
  proof -
    have "ptr_or_null (n_mem n) a 2 = Some (unat a)" using that u(3) by (simp add: ptr_or_null_Some)
    then show ?thesis by (simp add: net_read_u16_def)
  qed
  have "(ucast (u + 1) :: u32) mod 1 = 0" by (simp add: word_unat_eq_iff unat_mod)
  then have avail: "avail_index (n_mem n) (n_tx n) = u" "avail_entry (n_mem n) (n_tx n) = 0"
    using u(1,2) by (simp_all add: avail_index_def avail_entry_def u(4) cell)
  have p16: "ptr_or_null (n_mem n) 16 16 = Some 16" "ptr_or_null (n_mem n) 0 0 = Some 0" using u(3) by (simp_all add: ptr_or_null_Some)
  have gather: "tx_gather (n_mem n) 1 16 1 0 [] = []"
    by (subst tx_gather.simps) (simp add: p16 u(5) gm_read_def read_bytes_def)
  let ?d = "WriteU16 (WriteU32 (WriteU32 (gm_data (n_mem n)) 0x84 0) 0x88 0) 0x82 (u + 1)"
  have "net_push_used (n_mem n) q 0 0 = ((n_mem n)\<lparr>gm_data := ?d\<rparr>, q\<lparr>nq_last_used := u + 1\<rparr>)"
  proof -
    have q: "nq_device q = 0x80" "nq_num q = 1" "nq_last_used q = u" by (simp_all add: q_def)
    have ring: "unat (nq_device q) + 4 + 8 * unat (nq_num q) \<le> unat (gm_len (n_mem n))" "0 < nq_num q"
      "0x84 = unat (nq_device q) + 4 + 8 * (unat (nq_last_used q) mod unat (nq_num q))" by (simp_all add: q u(3))
    have e: "(0x84 :: nat) + 4 = 0x88" "unat (0x80 :: u64) + 2 = 0x82" by simp_all
    from net_push_used_eq [OF ring, of 0 0] show ?thesis unfolding q e ucast_0 .
  qed
  then have round: "tx_round slirp n = (Tx_Next True, n\<lparr>n_mem := (n_mem n)\<lparr>gm_data := ?d\<rparr>, n_tx := q\<lparr>nq_last_used := u + 1\<rparr>\<rparr>)"
    unfolding tx_round_def Let_def avail by (simp add: u(4) queue_usable_def gather [unfolded One_nat_def]) (simp add: q_def)
  have "?d a = gm_data (n_mem n) a" if "a < 0x80" for a using that by (simp add: store_memcpy memcpy_def)
  then have "agree_but {0x80 ..< 0x100} (n_mem n) ((n_mem n)\<lparr>gm_data := ?d\<rparr>)"
    by (auto simp: agree_but_def store_memcpy memcpy_def)
  from agree_but_desc [OF this, of 16] have desc: "read_desc ((n_mem n)\<lparr>gm_data := ?d\<rparr>) 16 = read_desc (n_mem n) 16" by simp
  have reads: "ReadU16 ?d 0x82 = u + 1"
    by simp
  have "le_bytes 4 (0 :: u32) = [0, 0, 0, 0]" by (simp add: le_bytes_def upt_rec)
  then have "?d 0x84 = 0" "?d 0x85 = 0" by (simp_all add: store_memcpy memcpy_def)
  then have zero: "ReadU16 ?d 0x84 = 0" by (simp add: ReadU16_def)
  show ?thesis
    by (rule exI, rule conjI, rule round) (simp add: overlapped_def desc u reads zero, simp add: q_def)
qed

lemma tx_loop_never_returns: "overlapped n \<Longrightarrow> net_tx_loop slirp processed n = None"
proof (rule ccontr)
  assume inv: "overlapped n" and "net_tx_loop slirp processed n \<noteq> None"
  then obtain n' where "net_tx_loop slirp processed n = Some n'" by auto
  then have "\<not> overlapped n"
  proof (rule net_tx_loop.raw_induct [rotated, where P = "\<lambda>slirp processed n n'. \<not> overlapped n"], intro notI)
    fix loop slirp processed n n'
    assume ih: "\<And>slirp processed n n'. loop slirp processed n = Some n' \<Longrightarrow> \<not> overlapped n"
      and res: "(case tx_round slirp n of (Tx_Return, n') \<Rightarrow> Some n'
        | (Tx_Break, n') \<Rightarrow> Some (if processed then raise_used_buffer_irq n' 1 else n')
        | (Tx_Next p, n') \<Rightarrow> loop slirp (processed \<or> p) n') = Some n'"
      and o: "overlapped n"
    obtain n1 where "tx_round slirp n = (Tx_Next True, n1)" "overlapped n1" using overlapped_round [OF o] by blast
    then show False using ih [of slirp True n1 n'] res by simp
  qed
  then show False using inv by blast
qed

end
