(* ===== verification/Uart.thy ===== *)
theory Uart
  imports Console_Writer
begin

unbundle bit_operations_syntax

text \<open>
  The 16550 UART (native/whp/devices/uart.h, uart.cc). Every method holds the mutex for its
  whole body, so a method is one function on the state. \<open>u_irqs\<close> counts the calls of the
  attached IRQ raiser, \<open>u_stdout\<close> collects the bytes handed to the console writer. A write
  that completes a cursor query asks the console for its position: \<open>info\<close> is the answer.
  Debug output is left out.
\<close>

definition kRxCapacity :: nat where "kRxCapacity = 4096"
definition kFifoSize :: nat where "kFifoSize = 16"
definition kIerRdi :: u8 where "kIerRdi = 0x01"
definition kIerThri :: u8 where "kIerThri = 0x02"
definition kIerRlsi :: u8 where "kIerRlsi = 0x04"
definition kIerMsi :: u8 where "kIerMsi = 0x08"
definition kFcrEnable :: u8 where "kFcrEnable = 0x01"
definition kFcrClearRx :: u8 where "kFcrClearRx = 0x02"
definition kFcrClearTx :: u8 where "kFcrClearTx = 0x04"
definition kFcrTriggerMask :: u8 where "kFcrTriggerMask = 0xC0"
definition kLsrDr :: u8 where "kLsrDr = 0x01"
definition kLsrOe :: u8 where "kLsrOe = 0x02"
definition kLsrPe :: u8 where "kLsrPe = 0x04"
definition kLsrFe :: u8 where "kLsrFe = 0x08"
definition kLsrBi :: u8 where "kLsrBi = 0x10"
definition kLsrThre :: u8 where "kLsrThre = 0x20"
definition kLsrTemt :: u8 where "kLsrTemt = 0x40"

abbreviation lsr_errors :: u8 where "lsr_errors \<equiv> kLsrOe OR kLsrPe OR kLsrFe OR kLsrBi"
abbreviation lsr_tx_idle :: u8 where "lsr_tx_idle \<equiv> kLsrThre OR kLsrTemt"

lemmas uart_consts [source_consts] = kRxCapacity_def kFifoSize_def kIerRdi_def kIerThri_def kIerRlsi_def
  kIerMsi_def kFcrEnable_def kFcrClearRx_def kFcrClearTx_def kFcrTriggerMask_def kLsrDr_def kLsrOe_def kLsrPe_def
  kLsrFe_def kLsrBi_def kLsrThre_def kLsrTemt_def

record uart =
  u_ier :: u8
  u_iir :: u8
  u_fcr :: u8
  u_lcr :: u8
  u_mcr :: u8
  u_msr :: u8
  u_lsr :: u8
  u_scr :: u8
  u_dll :: u8
  u_dlh :: u8
  u_rbr :: u8
  u_thr :: u8
  u_tsr :: u8
  u_rx_fifo :: bytes
  u_rx_staging :: bytes
  u_tx_fifo :: bytes
  u_thr_ipending :: bool
  u_timeout_ipending :: bool
  u_limit :: nat
  u_echo_stdout :: bool
  u_output_is_console :: bool
  u_stdout :: bytes
  u_console :: bytes
  u_terminal_query :: bytes
  u_last_stdout_byte :: u8
  u_dsr_passthrough :: bool
  u_halted_seen :: bool
  u_restarting_seen :: bool
  u_halted_match :: nat
  u_restarting_match :: nat
  u_raiser :: bool
  u_irqs :: nat

fun tolower :: "u8 \<Rightarrow> u8" where
  "tolower b = (if 0x41 \<le> b \<and> b \<le> 0x5A then b + 0x20 else b)"

text \<open>C strings without their NUL; the null pointer is None.\<close>

fun equals_no_case :: "bytes \<Rightarrow> bytes \<Rightarrow> bool" where
  "equals_no_case (a # l) (b # r) = (if tolower a \<noteq> tolower b then False else equals_no_case l r)"
| "equals_no_case l r = (l = [] \<and> r = [])"

definition EqualsAsciiNoCase :: "bytes option \<Rightarrow> bytes option \<Rightarrow> bool" where
  "EqualsAsciiNoCase l r = (case (l, r) of (Some l, Some r) \<Rightarrow> equals_no_case l r | _ \<Rightarrow> False)"

definition uart_init :: "nat \<Rightarrow> bool \<Rightarrow> bool \<Rightarrow> bytes option \<Rightarrow> uart" where
  "uart_init limit echo output_is_console env_dsr =
     \<lparr>u_ier = 0, u_iir = 0x01, u_fcr = 0, u_lcr = 0, u_mcr = 0x08, u_msr = 0xB0, u_lsr = lsr_tx_idle, u_scr = 0,
      u_dll = 0x0C, u_dlh = 0, u_rbr = 0, u_thr = 0, u_tsr = 0, u_rx_fifo = [], u_rx_staging = [], u_tx_fifo = [],
      u_thr_ipending = False, u_timeout_ipending = False, u_limit = limit, u_echo_stdout = echo,
      u_output_is_console = output_is_console, u_stdout = [], u_console = [], u_terminal_query = [],
      u_last_stdout_byte = 0,
      u_dsr_passthrough = EqualsAsciiNoCase env_dsr
        (Some [0x70, 0x61, 0x73, 0x73, 0x74, 0x68, 0x72, 0x6F, 0x75, 0x67, 0x68]),
      u_halted_seen = False, u_restarting_seen = False, u_halted_match = 0, u_restarting_match = 0,
      u_raiser = False, u_irqs = 0\<rparr>"

definition attach_irq_raiser :: "uart \<Rightarrow> uart" where
  "attach_irq_raiser u = u\<lparr>u_raiser := True\<rparr>"

section \<open>Receive side and interrupts\<close>

definition fifo_enabled :: "uart \<Rightarrow> bool" where
  "fifo_enabled u \<longleftrightarrow> u_fcr u AND kFcrEnable \<noteq> 0"

definition rx_trigger_level :: "uart \<Rightarrow> nat" where
  "rx_trigger_level u =
    (let t = u_fcr u AND kFcrTriggerMask
     in if t = 0x00 then 1 else if t = 0x40 then 4 else if t = 0x80 then 8 else if t = 0xC0 then 14 else 1)"

fun drain_loop :: "bytes \<Rightarrow> bytes \<Rightarrow> bytes \<times> bytes" where
  "drain_loop fifo [] = (fifo, [])"
| "drain_loop fifo (b # staging) =
    (if length fifo < kFifoSize then drain_loop (fifo @ [b]) staging else (fifo, b # staging))"

definition drain_rx_staging :: "uart \<Rightarrow> uart" where
  "drain_rx_staging u =
    (if fifo_enabled u
     then let (fifo, staging) = drain_loop (u_rx_fifo u) (u_rx_staging u);
              u = u\<lparr>u_rx_fifo := fifo, u_rx_staging := staging\<rparr>
          in if fifo = [] then u\<lparr>u_lsr := u_lsr u AND NOT kLsrDr, u_timeout_ipending := False\<rparr>
             else u\<lparr>u_lsr := u_lsr u OR kLsrDr, u_timeout_ipending := length fifo < rx_trigger_level u\<rparr>
     else let u = (if u_lsr u AND kLsrDr = 0 \<and> u_rx_staging u \<noteq> []
                   then u\<lparr>u_rbr := hd (u_rx_staging u), u_rx_staging := tl (u_rx_staging u), u_lsr := u_lsr u OR kLsrDr\<rparr>
                   else u)
          in u\<lparr>u_timeout_ipending := False\<rparr>)"

definition rx_ready_for_interrupt :: "uart \<Rightarrow> bool" where
  "rx_ready_for_interrupt u =
    (if fifo_enabled u then u_rx_fifo u \<noteq> [] \<and> rx_trigger_level u \<le> length (u_rx_fifo u)
     else u_lsr u AND kLsrDr \<noteq> 0)"

definition iir_fifo_bits :: "uart \<Rightarrow> u8" where
  "iir_fifo_bits u = (if fifo_enabled u then 0xC0 else 0x00)"

definition current_msr :: "uart \<Rightarrow> u8" where
  "current_msr u =
    (if u_mcr u AND 0x10 \<noteq> 0
     then (u_msr u AND 0x0F) OR (if u_mcr u AND 0x02 \<noteq> 0 then 0x10 else 0) OR (if u_mcr u AND 0x01 \<noteq> 0 then 0x20 else 0)
            OR (if u_mcr u AND 0x04 \<noteq> 0 then 0x40 else 0) OR (if u_mcr u AND 0x08 \<noteq> 0 then 0x80 else 0)
     else u_msr u)"

definition update_msr_delta :: "uart \<Rightarrow> u8 \<Rightarrow> u8 \<Rightarrow> uart" where
  "update_msr_delta u old_msr new_msr =
    (let old_status = old_msr AND 0xF0; new_status = new_msr AND 0xF0;
         delta = (if (old_status XOR new_status) AND 0x10 \<noteq> 0 then 0x01 else 0)
           OR (if (old_status XOR new_status) AND 0x20 \<noteq> 0 then 0x02 else 0)
           OR (if old_status AND 0x40 \<noteq> 0 \<and> new_status AND 0x40 = 0 then 0x04 else 0)
           OR (if (old_status XOR new_status) AND 0x80 \<noteq> 0 then 0x08 else 0)
     in u\<lparr>u_msr := (new_msr AND 0xF0) OR ((u_msr u OR delta) AND 0x0F)\<rparr>)"

definition update_interrupt :: "uart \<Rightarrow> uart" where
  "update_interrupt u =
    (let raise = (\<lambda>iir. u\<lparr>u_iir := iir, u_irqs := (if u_raiser u then u_irqs u + 1 else u_irqs u)\<rparr>)
     in if u_ier u AND kIerRlsi \<noteq> 0 \<and> u_lsr u AND lsr_errors \<noteq> 0 then raise 0x06
        else if u_ier u AND kIerRdi \<noteq> 0 \<and> u_timeout_ipending u then raise 0x0C
        else if u_ier u AND kIerRdi \<noteq> 0 \<and> rx_ready_for_interrupt u then raise 0x04
        else if u_ier u AND kIerThri \<noteq> 0 \<and> u_thr_ipending u \<and> u_lsr u AND kLsrThre \<noteq> 0 then raise 0x02
        else if u_ier u AND kIerMsi \<noteq> 0 \<and> current_msr u AND 0x0F \<noteq> 0 then raise 0x00
        else u\<lparr>u_iir := 0x01\<rparr>)"

definition queued :: "uart \<Rightarrow> nat" where
  "queued u = length (u_rx_staging u) + (if fifo_enabled u then length (u_rx_fifo u) else if u_lsr u AND kLsrDr \<noteq> 0 then 1 else 0)"

text \<open>Bytes appended, or pushed to the front from the last one on, while there is room.\<close>

fun enqueue_back :: "uart \<Rightarrow> bytes \<Rightarrow> nat \<Rightarrow> uart \<times> nat" where
  "enqueue_back u [] accepted = (u, accepted)"
| "enqueue_back u (b # bs) accepted =
    (if queued u < kRxCapacity then enqueue_back (u\<lparr>u_rx_staging := u_rx_staging u @ [b]\<rparr>) bs (accepted + 1) else (u, accepted))"

fun enqueue_front :: "uart \<Rightarrow> bytes \<Rightarrow> nat \<Rightarrow> uart \<times> nat" where
  "enqueue_front u [] accepted = (u, accepted)"
| "enqueue_front u (b # rev_bs) accepted =
    (if queued u < kRxCapacity then enqueue_front (u\<lparr>u_rx_staging := b # u_rx_staging u\<rparr>) rev_bs (accepted + 1) else (u, accepted))"

definition enqueue_rx_locked :: "uart \<Rightarrow> bytes \<Rightarrow> bool \<Rightarrow> uart \<times> nat" where
  "enqueue_rx_locked u data front =
    (if data = [] then (u, 0)
     else case (if front then enqueue_front u (rev data) 0 else enqueue_back u data 0) of (u, accepted) \<Rightarrow>
       let u = (if accepted < length data then u\<lparr>u_lsr := u_lsr u OR kLsrOe\<rparr> else u)
       in (update_interrupt (drain_rx_staging u), accepted))"

definition enqueue_rx :: "uart \<Rightarrow> bytes \<Rightarrow> uart \<times> nat" where
  "enqueue_rx u data = enqueue_rx_locked u data False"

definition clear_rx :: "uart \<Rightarrow> uart" where
  "clear_rx u = u\<lparr>u_rx_fifo := [], u_rx_staging := [], u_rbr := 0, u_timeout_ipending := False,
     u_lsr := u_lsr u AND NOT (kLsrDr OR lsr_errors)\<rparr>"

definition clear_tx :: "uart \<Rightarrow> uart" where
  "clear_tx u = u\<lparr>u_tx_fifo := [], u_thr := 0, u_tsr := 0, u_terminal_query := [], u_lsr := u_lsr u OR lsr_tx_idle,
     u_thr_ipending := True\<rparr>"

section \<open>Transmit side\<close>

text \<open>The fall-back loop of AdvanceMatch; the pattern is a C string with its NUL.\<close>

fun match_back :: "bytes \<Rightarrow> nat \<Rightarrow> u8 \<Rightarrow> nat" where
  "match_back pattern 0 b = 0"
| "match_back pattern (Suc n) b = (if b \<noteq> (pattern @ [0]) ! Suc n then match_back pattern n b else Suc n)"

definition AdvanceMatch :: "bytes \<Rightarrow> nat \<Rightarrow> u8 \<Rightarrow> nat" where
  "AdvanceMatch pattern current b =
    (let current = match_back pattern current b
     in if b = (pattern @ [0]) ! current then current + 1 else current)"

definition kHalted :: bytes where
  "kHalted = [0x72, 0x65, 0x62, 0x6F, 0x6F, 0x74, 0x3A, 0x20, 0x53, 0x79, 0x73, 0x74, 0x65, 0x6D, 0x20,
     0x68, 0x61, 0x6C, 0x74, 0x65, 0x64]"

definition kRestarting :: bytes where
  "kRestarting = [0x52, 0x65, 0x73, 0x74, 0x61, 0x72, 0x74, 0x69, 0x6E, 0x67, 0x20, 0x73, 0x79, 0x73, 0x74, 0x65, 0x6D]"

fun marker_step :: "bytes \<Rightarrow> bool \<times> nat \<Rightarrow> u8 \<Rightarrow> bool \<times> nat" where
  "marker_step pattern (seen, m) b =
    (if \<not> seen then let m = AdvanceMatch pattern m b in (m = length pattern, m) else (seen, m))"

fun track_console_markers :: "uart \<Rightarrow> bytes \<Rightarrow> uart" where
  "track_console_markers u [] = u"
| "track_console_markers u (b # bs) =
    (let (hs, hm) = marker_step kHalted (u_halted_seen u, u_halted_match u) b;
         (rs, rm) = marker_step kRestarting (u_restarting_seen u, u_restarting_match u) b
     in track_console_markers (u\<lparr>u_halted_seen := hs, u_halted_match := hm, u_restarting_seen := rs, u_restarting_match := rm\<rparr>) bs)"

fun NormalizeCrlf :: "bytes \<Rightarrow> u8 \<Rightarrow> bytes \<times> u8" where
  "NormalizeCrlf [] last_byte = ([], last_byte)"
| "NormalizeCrlf (b # bs) last_byte =
    (case NormalizeCrlf bs b of (out, l) \<Rightarrow>
       ((if b = 0x0A \<and> last_byte \<noteq> 0x0D then [0x0D, b] else [b]) @ out, l))"

definition write_stdout :: "uart \<Rightarrow> bytes \<Rightarrow> uart" where
  "write_stdout u bs =
    (if bs = [] then u
     else case NormalizeCrlf bs (u_last_stdout_byte u) of (normalized, l) \<Rightarrow>
       u\<lparr>u_last_stdout_byte := l, u_stdout := u_stdout u @ normalized\<rparr>)"

definition emit_tx_locked :: "uart \<Rightarrow> bytes \<Rightarrow> uart" where
  "emit_tx_locked u bs =
    (if bs = [] then u
     else let u = track_console_markers u bs;
              available = (if length (u_console u) < u_limit u then u_limit u - length (u_console u) else 0);
              u = (if 0 < available then u\<lparr>u_console := u_console u @ take (min available (length bs)) bs\<rparr> else u)
          in if u_echo_stdout u then write_stdout u bs else u)"

definition emit_bytes :: "uart \<Rightarrow> bytes \<Rightarrow> uart" where
  "emit_bytes u data = emit_tx_locked u data"

text \<open>The shift register: back to the receiver in loop-back mode, else to the console.\<close>

definition shift_out :: "uart \<Rightarrow> uart" where
  "shift_out u =
    (if u_mcr u AND 0x10 \<noteq> 0 then fst (enqueue_rx_locked u [u_tsr u] False) else emit_tx_locked u [u_tsr u])"

fun tx_loop :: "uart \<Rightarrow> bytes \<Rightarrow> uart" where
  "tx_loop u [] = u\<lparr>u_tx_fifo := []\<rparr>"
| "tx_loop u (b # fifo) = tx_loop (shift_out (u\<lparr>u_tsr := b, u_tx_fifo := fifo\<rparr>)) fifo"

definition transmit_byte :: "uart \<Rightarrow> u8 \<Rightarrow> uart" where
  "transmit_byte u value =
    (let u = (if fifo_enabled u
              then tx_loop u (if length (u_tx_fifo u) < kFifoSize then u_tx_fifo u @ [value] else u_tx_fifo u)
              else shift_out (u\<lparr>u_tsr := value\<rparr>))
     in u\<lparr>u_lsr := u_lsr u OR lsr_tx_idle, u_thr_ipending := True\<rparr>)"

definition cursor_query :: bytes where "cursor_query = [0x1B, 0x5B, 0x36, 0x6E]"

definition handle_tx_byte :: "console_info \<Rightarrow> uart \<Rightarrow> u8 \<Rightarrow> uart" where
  "handle_tx_byte info u value =
    (let u = u\<lparr>u_thr := value, u_lsr := u_lsr u AND NOT lsr_tx_idle\<rparr>;
         idle = (\<lambda>u. update_interrupt (u\<lparr>u_lsr := u_lsr u OR lsr_tx_idle, u_thr_ipending := True\<rparr>))
     in if u_mcr u AND 0x10 \<noteq> 0 then update_interrupt (transmit_byte u value)
        else if u_terminal_query u \<noteq> [] \<or> value = 0x1B
        then let u = u\<lparr>u_terminal_query := u_terminal_query u @ [value]\<rparr>
             in if take (length (u_terminal_query u)) cursor_query = u_terminal_query u
                then if u_terminal_query u = cursor_query
                     then let u = (if u_dsr_passthrough u \<and> u_output_is_console u
                                   then emit_tx_locked u (u_terminal_query u)
                                   else fst (enqueue_rx_locked u (cursor_position_report info) False))
                          in idle (u\<lparr>u_terminal_query := []\<rparr>)
                     else idle u
                else idle ((emit_tx_locked u (u_terminal_query u))\<lparr>u_terminal_query := []\<rparr>)
        else update_interrupt (transmit_byte u value))"

section \<open>Registers\<close>

definition uart_read_rbr :: "uart \<Rightarrow> u8 \<times> uart" where
  "uart_read_rbr u =
    (if fifo_enabled u
     then let value = (if u_rx_fifo u \<noteq> [] then hd (u_rx_fifo u) else 0);
              u = drain_rx_staging (u\<lparr>u_rx_fifo := tl (u_rx_fifo u), u_timeout_ipending := False\<rparr>);
              u = (if u_rx_fifo u = [] then u\<lparr>u_lsr := u_lsr u AND NOT kLsrDr\<rparr> else u)
          in (value, update_interrupt u)
     else let value = (if u_lsr u AND kLsrDr \<noteq> 0 then u_rbr u else 0);
              u = (if u_lsr u AND kLsrDr \<noteq> 0 then u\<lparr>u_lsr := u_lsr u AND NOT kLsrDr\<rparr> else u);
              u = drain_rx_staging (u\<lparr>u_timeout_ipending := False\<rparr>)
          in (value, update_interrupt u))"

definition uart_read :: "uart \<Rightarrow> u16 \<Rightarrow> u8 \<times> uart" where
  "uart_read u offset =
    (let dlab = (u_lcr u AND 0x80 \<noteq> 0)
     in if offset = 0 then (if dlab then (u_dll u, u) else uart_read_rbr u)
        else if offset = 1 then (if dlab then u_dlh u else u_ier u, u)
        else if offset = 2
        then (iir_fifo_bits u OR u_iir u,
              if u_iir u AND 0x0F = 0x02 then update_interrupt (u\<lparr>u_thr_ipending := False\<rparr>) else u)
        else if offset = 3 then (u_lcr u, u)
        else if offset = 4 then (u_mcr u, u)
        else if offset = 5
        then (u_lsr u, if u_lsr u AND lsr_errors \<noteq> 0 then update_interrupt (u\<lparr>u_lsr := u_lsr u AND NOT lsr_errors\<rparr>) else u)
        else if offset = 6 then (current_msr u, update_interrupt (u\<lparr>u_msr := u_msr u AND 0xF0\<rparr>))
        else if offset = 7 then (u_scr u, u)
        else (0, u))"

definition uart_write :: "console_info \<Rightarrow> uart \<Rightarrow> u16 \<Rightarrow> u8 \<Rightarrow> uart" where
  "uart_write info u offset value =
    (if offset = 0 then (if u_lcr u AND 0x80 \<noteq> 0 then u\<lparr>u_dll := value\<rparr> else handle_tx_byte info u value)
     else if offset = 1
     then if u_lcr u AND 0x80 \<noteq> 0 then u\<lparr>u_dlh := value\<rparr>
          else let old_ier = u_ier u; u = u\<lparr>u_ier := value AND 0x0F\<rparr>;
                   u = (if (old_ier XOR u_ier u) AND kIerThri \<noteq> 0
                        then u\<lparr>u_thr_ipending := u_ier u AND kIerThri \<noteq> 0 \<and> u_lsr u AND kLsrThre \<noteq> 0\<rparr> else u)
               in update_interrupt u
     else if offset = 2
     then let u = u\<lparr>u_fcr := value AND (kFcrEnable OR kFcrTriggerMask)\<rparr>;
              u = (if value AND kFcrClearRx \<noteq> 0 then clear_rx u else drain_rx_staging u);
              u = (if value AND kFcrClearTx \<noteq> 0 then clear_tx u else u)
          in update_interrupt u
     else if offset = 3
     then let old_lcr = u_lcr u; u = u\<lparr>u_lcr := value\<rparr>
          in update_interrupt (if value AND 0x40 \<noteq> 0 \<and> old_lcr AND 0x40 = 0
               then u\<lparr>u_lsr := u_lsr u OR kLsrBi OR kLsrDr, u_rbr := 0\<rparr> else u)
     else if offset = 4
     then let old_msr = current_msr u; u = u\<lparr>u_mcr := value AND 0x1F\<rparr>
          in update_interrupt (update_msr_delta u old_msr (current_msr u))
     else if offset = 7 then u\<lparr>u_scr := value\<rparr>
     else u)"

definition uart_contains :: "uart \<Rightarrow> bytes \<Rightarrow> bool" where
  "uart_contains u needle =
    (if needle = kHalted then u_halted_seen u
     else if needle = kRestarting then u_restarting_seen u
     else sublist needle (u_console u))"

end
