(* ===== verification/Uart_Proofs.thy ===== *)
theory Uart_Proofs
  imports Uart
begin

unbundle bit_operations_syntax

text \<open>
  The properties of the UART model of theory Uart: the receiver is a bounded queue, the
  interrupt identification register always names the pending source of highest priority, the
  marker search never misses a marker, and the output normaliser.
\<close>

section \<open>The receiver\<close>

definition dr :: "uart \<Rightarrow> bool" where "dr u \<longleftrightarrow> u_lsr u AND kLsrDr \<noteq> 0"

lemma dr_bit: "dr u \<longleftrightarrow> bit (u_lsr u) 0"
proof -
  have "u_lsr u AND 1 = 0 \<longleftrightarrow> \<not> bit (u_lsr u) 0"
    using and_exp_eq_0_iff_not_bit [of "u_lsr u" 0] by simp
  then show ?thesis by (simp add: dr_def kLsrDr_def)
qed

definition rx_stream :: "uart \<Rightarrow> bytes" where
  "rx_stream u = (if fifo_enabled u then u_rx_fifo u else if dr u then [u_rbr u] else []) @ u_rx_staging u"

definition rx_ok :: "uart \<Rightarrow> bool" where
  "rx_ok u \<longleftrightarrow> length (u_rx_fifo u) \<le> kFifoSize \<and> length (u_rx_staging u) \<le> kRxCapacity \<and>
     (if fifo_enabled u then (u_rx_staging u \<noteq> [] \<longrightarrow> length (u_rx_fifo u) = kFifoSize) \<and> (u_rx_fifo u \<noteq> [] \<longrightarrow> dr u)
      else u_rx_staging u \<noteq> [] \<longrightarrow> dr u)"

text \<open>What the receiver depends on.\<close>

definition rx_fields :: "uart \<Rightarrow> bool \<times> bytes \<times> bytes \<times> bool \<times> u8 \<times> u8" where
  "rx_fields u = (fifo_enabled u, u_rx_fifo u, u_rx_staging u, dr u, u_rbr u, u_lcr u)"

lemma rx_fields_ok: "rx_fields u' = rx_fields u \<Longrightarrow> rx_ok u' = rx_ok u \<and> rx_stream u' = rx_stream u \<and> u_lcr u' = u_lcr u"
  by (simp add: rx_fields_def rx_ok_def rx_stream_def)

lemma queued_stream: "queued u = length (rx_stream u)"
  by (simp add: queued_def rx_stream_def dr_def)

lemma rx_fields_update_interrupt [simp]: "rx_fields (update_interrupt u) = rx_fields u"
  by (simp add: update_interrupt_def Let_def rx_fields_def fifo_enabled_def dr_def)

lemma update_interrupt_rx [simp]:
  "rx_stream (update_interrupt u) = rx_stream u" "rx_ok (update_interrupt u) = rx_ok u" "u_lcr (update_interrupt u) = u_lcr u"
  using rx_fields_ok [OF rx_fields_update_interrupt, of u] by blast+

lemma rx_fields_lsr:
  "bit v 0 = bit (u_lsr u) 0 \<Longrightarrow> rx_fields (u\<lparr>u_lsr := v\<rparr>) = rx_fields u"
  by (simp add: rx_fields_def dr_bit fifo_enabled_def)

lemma drain_loop_append:
  "drain_loop fifo staging = (f', s') \<Longrightarrow> f' @ s' = fifo @ staging \<and>
     (length fifo \<le> kFifoSize \<longrightarrow> length f' \<le> kFifoSize \<and> (s' \<noteq> [] \<longrightarrow> length f' = kFifoSize))"
  by (induction fifo staging rule: drain_loop.induct) (auto split: if_splits)

lemma drain_loop_shrinks: "drain_loop fifo staging = (f', s') \<Longrightarrow> length s' \<le> length staging"
  by (induction fifo staging rule: drain_loop.induct) (auto split: if_splits)

lemma drain_rx_ok:
  assumes "length (u_rx_fifo u) \<le> kFifoSize" and "length (u_rx_staging u) \<le> kRxCapacity"
  shows "rx_ok (drain_rx_staging u)"
proof (cases "fifo_enabled u")
  case True
  obtain f s where l: "drain_loop (u_rx_fifo u) (u_rx_staging u) = (f, s)" by fastforce
  show ?thesis using True assms drain_loop_append [OF l] drain_loop_shrinks [OF l]
    by (auto simp: drain_rx_staging_def l rx_ok_def dr_bit fifo_enabled_def Let_def kLsrDr_def bit_or_iff)
next
  case False
  show ?thesis
  proof (cases "u_rx_staging u")
    case (Cons b s)
    with False assms show ?thesis
      by (auto simp: drain_rx_staging_def rx_ok_def dr_bit fifo_enabled_def Let_def kLsrDr_def bit_or_iff and_exp_eq_0_iff_not_bit [of _ 0, simplified])
  qed (use False assms in \<open>auto simp: drain_rx_staging_def rx_ok_def fifo_enabled_def Let_def\<close>)
qed

lemma drain_stream: "rx_stream (drain_rx_staging u) = rx_stream u"
proof (cases "fifo_enabled u")
  case True
  obtain f s where l: "drain_loop (u_rx_fifo u) (u_rx_staging u) = (f, s)" by fastforce
  show ?thesis using True drain_loop_append [OF l]
    by (auto simp: drain_rx_staging_def l rx_stream_def fifo_enabled_def Let_def)
next
  case False
  then show ?thesis
    by (cases "u_rx_staging u")
      (auto simp: drain_rx_staging_def rx_stream_def dr_bit fifo_enabled_def Let_def kLsrDr_def bit_or_iff
        and_exp_eq_0_iff_not_bit [of _ 0, simplified])
qed

lemma drain_lcr [simp]: "u_lcr (drain_rx_staging u) = u_lcr u"
  by (simp add: drain_rx_staging_def Let_def split: prod.split)

lemma enqueue_back_spec:
  "enqueue_back u data a = (u', n) \<Longrightarrow>
   n = a + min (length data) (kRxCapacity - length (rx_stream u)) \<and>
   u' = u\<lparr>u_rx_staging := u_rx_staging u @ take (n - a) data\<rparr>"
proof (induction u data a rule: enqueue_back.induct)
  case (2 u b bs a)
  show ?case
  proof (cases "queued u < kRxCapacity")
    case True
    let ?u = "u\<lparr>u_rx_staging := u_rx_staging u @ [b]\<rparr>"
    have s: "rx_stream ?u = rx_stream u @ [b]" by (simp add: rx_stream_def fifo_enabled_def dr_def)
    have "n = a + 1 + min (length bs) (kRxCapacity - length (rx_stream ?u)) \<and>
        u' = ?u\<lparr>u_rx_staging := u_rx_staging ?u @ take (n - (a + 1)) bs\<rparr>"
      using "2.IH" [OF True] "2.prems" True by simp
    then show ?thesis using True s by (auto simp: queued_stream)
  qed (use "2.prems" in \<open>auto simp: queued_stream\<close>)
qed simp

lemma enqueue_spec:
  assumes "rx_ok u" and "enqueue_rx_locked u data False = (u', n)"
  shows "rx_ok u' \<and> u_lcr u' = u_lcr u \<and> n = min (length data) (kRxCapacity - length (rx_stream u)) \<and>
    rx_stream u' = rx_stream u @ take n data"
proof (cases "data = []")
  case False
  obtain v where v: "enqueue_back u data 0 = (v, n)" and
    u': "u' = update_interrupt (drain_rx_staging (if n < length data then v\<lparr>u_lsr := u_lsr v OR kLsrOe\<rparr> else v))"
    using assms(2) False by (auto simp: enqueue_rx_locked_def Let_def split: prod.splits)
  note e = enqueue_back_spec [OF v]
  let ?w = "if n < length data then v\<lparr>u_lsr := u_lsr v OR kLsrOe\<rparr> else v"
  have w: "rx_fields ?w = rx_fields v" by (auto intro!: rx_fields_lsr simp: bit_or_iff kLsrOe_def bit_numeral_rec)
  have room: "length (u_rx_staging u) + n \<le> kRxCapacity"
    using e assms(1) by (auto simp: rx_stream_def rx_ok_def)
  have len: "length (u_rx_fifo ?w) \<le> kFifoSize" "length (u_rx_staging ?w) \<le> kRxCapacity"
    using e assms(1) room by (auto simp: rx_ok_def)
  have "rx_stream ?w = rx_stream v" using rx_fields_ok [OF w] by blast
  also have "\<dots> = rx_stream u @ take n data" using e by (simp add: rx_stream_def fifo_enabled_def dr_def)
  finally have "rx_stream u' = rx_stream u @ take n data"
    unfolding u' using rx_fields_ok [OF rx_fields_update_interrupt] drain_stream [of ?w] by simp
  moreover have "rx_ok u'" "u_lcr u' = u_lcr ?w"
    unfolding u' using drain_rx_ok [OF len] rx_fields_ok [OF rx_fields_update_interrupt] by simp_all
  ultimately show ?thesis using e by auto
qed (use assms in \<open>auto simp: enqueue_rx_locked_def\<close>)

lemma read_rbr_spec:
  assumes "rx_ok u" and "uart_read_rbr u = (x, u')"
  shows "rx_ok u' \<and> u_lcr u' = u_lcr u \<and> (rx_stream u \<noteq> [] \<longrightarrow> rx_stream u = x # rx_stream u')"
proof (cases "fifo_enabled u")
  case True
  let ?v = "u\<lparr>u_rx_fifo := tl (u_rx_fifo u), u_timeout_ipending := False\<rparr>" and ?w = "drain_rx_staging (u\<lparr>u_rx_fifo := tl (u_rx_fifo u), u_timeout_ipending := False\<rparr>)"
  let ?z = "if u_rx_fifo ?w = [] then ?w\<lparr>u_lsr := u_lsr ?w AND NOT kLsrDr\<rparr> else ?w"
  have en: "fifo_enabled ?w" using True by (simp add: fifo_enabled_def drain_rx_staging_def Let_def split: prod.split)
  have len: "length (u_rx_fifo ?v) \<le> kFifoSize" "length (u_rx_staging ?v) \<le> kRxCapacity"
    using assms(1) by (auto simp: rx_ok_def)
  have x: "x = (if u_rx_fifo u \<noteq> [] then hd (u_rx_fifo u) else 0)" "u' = update_interrupt ?z"
    using assms(2) True by (auto simp: uart_read_rbr_def Let_def)
  have "rx_ok ?w" by (rule drain_rx_ok [OF len])
  then have z: "rx_ok ?z" "rx_stream ?z = rx_stream ?w" "u_lcr ?z = u_lcr u"
    using en by (auto simp: rx_ok_def rx_stream_def fifo_enabled_def kFifoSize_def)
  have "rx_stream ?w = rx_stream ?v" by (rule drain_stream)
  also have "\<dots> = tl (u_rx_fifo u) @ u_rx_staging u" using True by (simp add: rx_stream_def fifo_enabled_def)
  finally have s: "rx_stream u' = tl (u_rx_fifo u) @ u_rx_staging u"
    unfolding x(2) using rx_fields_ok [OF rx_fields_update_interrupt, of ?z] z(2) by metis
  have "rx_stream u \<noteq> [] \<Longrightarrow> u_rx_fifo u \<noteq> []"
    using assms(1) True by (auto simp: rx_stream_def rx_ok_def kFifoSize_def)
  then show ?thesis
    using z rx_fields_ok [OF rx_fields_update_interrupt, of ?z] x s True by (auto simp: rx_stream_def)
next
  case False
  obtain v where v: "v = (if dr u then u\<lparr>u_lsr := u_lsr u AND NOT kLsrDr\<rparr> else u)\<lparr>u_timeout_ipending := False\<rparr>" by blast
  have x: "x = (if dr u then u_rbr u else 0)" "u' = update_interrupt (drain_rx_staging v)"
    using assms(2) False by (auto simp: uart_read_rbr_def Let_def dr_def v split: if_splits)
  have len: "length (u_rx_fifo v) \<le> kFifoSize" "length (u_rx_staging v) \<le> kRxCapacity" "u_lcr v = u_lcr u"
    using assms(1) by (auto simp: rx_ok_def v)
  have "rx_stream v = u_rx_staging u"
    using False by (auto simp: v rx_stream_def fifo_enabled_def dr_bit kLsrDr_def bit_and_iff bit_not_iff)
  then have "rx_stream u' = u_rx_staging u" "rx_ok u'" "u_lcr u' = u_lcr u"
    using drain_rx_ok [OF len(1,2)] by (simp_all add: x(2) drain_stream len(3))
  moreover have "\<not> dr u \<Longrightarrow> rx_stream u = []" using assms(1) False by (simp add: rx_stream_def rx_ok_def)
  moreover have "dr u \<Longrightarrow> rx_stream u = u_rbr u # u_rx_staging u" using False by (simp add: rx_stream_def)
  ultimately show ?thesis using x(1) by (cases "dr u") simp_all
qed

interpretation rx: bounded_queue "\<lambda>u. rx_ok u \<and> u_lcr u AND 0x80 = 0" rx_stream enqueue_rx "\<lambda>u. uart_read u 0" kRxCapacity
proof unfold_locales
  fix s s' :: uart and x :: u8 assume s: "rx_ok s \<and> u_lcr s AND 0x80 = 0" "rx_stream s \<noteq> []" "uart_read s 0 = (x, s')"
  then have "uart_read_rbr s = (x, s')" by (simp add: uart_read_def Let_def)
  from read_rbr_spec [OF _ this] s show "(rx_ok s' \<and> u_lcr s' AND 0x80 = 0) \<and> rx_stream s = x # rx_stream s'" by auto
qed (use enqueue_spec in \<open>auto simp: enqueue_rx_def\<close>)

section \<open>Output and frames\<close>

text \<open>Emitting bytes touches the console log, the host output and the marker state only.\<close>

definition emit_only :: "uart \<Rightarrow> uart \<Rightarrow> bool" where
  "emit_only u u' \<longleftrightarrow> (\<exists>a b c d e f g. u' = u\<lparr>u_halted_seen := a, u_halted_match := b, u_restarting_seen := c, u_restarting_match := d,
     u_console := e, u_stdout := f, u_last_stdout_byte := g\<rparr>)"

lemma emit_only_refl: "emit_only u u"
  unfolding emit_only_def
  by (rule exI [of _ "u_halted_seen u"], rule exI [of _ "u_halted_match u"], rule exI [of _ "u_restarting_seen u"],
      rule exI [of _ "u_restarting_match u"], rule exI [of _ "u_console u"], rule exI [of _ "u_stdout u"],
      rule exI [of _ "u_last_stdout_byte u"]) simp

lemma emit_only_trans: "emit_only u v \<Longrightarrow> emit_only v w \<Longrightarrow> emit_only u w"
  by (force simp: emit_only_def)

lemma track_emit_only: "emit_only u (track_console_markers u bs)"
proof (induction u bs rule: track_console_markers.induct)
  case (1 u)
  then show ?case by (simp add: emit_only_refl)
next
  case (2 u b bs)
  obtain hs hm where h: "marker_step kHalted (u_halted_seen u, u_halted_match u) b = (hs, hm)" by fastforce
  obtain rs rm where r: "marker_step kRestarting (u_restarting_seen u, u_restarting_match u) b = (rs, rm)" by fastforce
  let ?v = "u\<lparr>u_halted_seen := hs, u_halted_match := hm, u_restarting_seen := rs, u_restarting_match := rm\<rparr>"
  have v: "emit_only u ?v" unfolding emit_only_def
    by (rule exI [of _ hs], rule exI [of _ hm], rule exI [of _ rs], rule exI [of _ rm], rule exI [of _ "u_console u"],
        rule exI [of _ "u_stdout u"], rule exI [of _ "u_last_stdout_byte u"]) simp
  from 2 [OF refl h [symmetric] refl r [symmetric]] emit_only_trans [OF v] show ?case
    unfolding track_console_markers.simps Let_def h r prod.case by blast
qed

lemma emit_console_only: "emit_only u (u\<lparr>u_console := e\<rparr>)" "emit_only u (u\<lparr>u_last_stdout_byte := g, u_stdout := f\<rparr>)"
  by (cases u; simp add: emit_only_def)+

lemma emit_tx_only: "emit_only u (emit_tx_locked u bs)"
proof -
  have w: "emit_only v (write_stdout v bs)" for v
    by (simp add: write_stdout_def emit_only_refl emit_console_only split: prod.split)
  show ?thesis
  proof (cases "bs = []")
    case False
    let ?t = "track_console_markers u bs"
    obtain v where v: "emit_only ?t v" "emit_tx_locked u bs = (if u_echo_stdout v then write_stdout v bs else v)"
    proof -
      let ?av = "if length (u_console ?t) < u_limit ?t then u_limit ?t - length (u_console ?t) else 0"
      let ?v = "if 0 < ?av then ?t\<lparr>u_console := u_console ?t @ take (min ?av (length bs)) bs\<rparr> else ?t"
      have "emit_only ?t ?v" by (cases "0 < ?av") (simp_all add: emit_only_refl emit_console_only(1))
      moreover have "emit_tx_locked u bs = (if u_echo_stdout ?v then write_stdout ?v bs else ?v)"
        using False unfolding emit_tx_locked_def Let_def by (simp only: if_False)
      ultimately show thesis by (rule that)
    qed
    then show ?thesis using emit_only_trans [OF track_emit_only v(1)] emit_only_trans [OF _ w] by simp
  qed (simp add: emit_tx_locked_def emit_only_refl)
qed

section \<open>The invariant of the device\<close>

text \<open>The interrupt sources in the order of their priority, with their identification codes.\<close>

definition irq_sources :: "uart \<Rightarrow> (bool \<times> u8) list" where
  "irq_sources u =
    [(u_ier u AND kIerRlsi \<noteq> 0 \<and> u_lsr u AND lsr_errors \<noteq> 0, 0x06),
     (u_ier u AND kIerRdi \<noteq> 0 \<and> u_timeout_ipending u, 0x0C),
     (u_ier u AND kIerRdi \<noteq> 0 \<and> rx_ready_for_interrupt u, 0x04),
     (u_ier u AND kIerThri \<noteq> 0 \<and> u_thr_ipending u \<and> u_lsr u AND kLsrThre \<noteq> 0, 0x02),
     (u_ier u AND kIerMsi \<noteq> 0 \<and> current_msr u AND 0x0F \<noteq> 0, 0x00)]"

definition highest_pending :: "uart \<Rightarrow> u8" where
  "highest_pending u = (case filter fst (irq_sources u) of [] \<Rightarrow> 0x01 | (_, code) # _ \<Rightarrow> code)"

definition uart_ok :: "uart \<Rightarrow> bool" where
  "uart_ok u \<longleftrightarrow> rx_ok u \<and> length (u_console u) \<le> u_limit u \<and> u_tx_fifo u = [] \<and> u_iir u = highest_pending u"

definition base_ok :: "uart \<Rightarrow> bool" where
  "base_ok u \<longleftrightarrow> rx_ok u \<and> length (u_console u) \<le> u_limit u"

lemma update_interrupt_frame [simp]:
  "u_console (update_interrupt u) = u_console u" "u_limit (update_interrupt u) = u_limit u"
  "u_tx_fifo (update_interrupt u) = u_tx_fifo u" "u_mcr (update_interrupt u) = u_mcr u"
  by (simp_all add: update_interrupt_def Let_def)

lemma base_ok_update [simp]: "base_ok (update_interrupt u) = base_ok u"
  by (simp add: base_ok_def)

lemma highest_pending_cong:
  "irq_sources u' = irq_sources u \<Longrightarrow> highest_pending u' = highest_pending u"
  by (simp add: highest_pending_def)

lemma irq_sources_iir: "irq_sources (u\<lparr>u_iir := a, u_irqs := b\<rparr>) = irq_sources u" "irq_sources (u\<lparr>u_iir := a\<rparr>) = irq_sources u"
  by (simp_all add: irq_sources_def rx_ready_for_interrupt_def fifo_enabled_def rx_trigger_level_def current_msr_def)

lemma update_interrupt_iir: "u_iir (update_interrupt u) = highest_pending (update_interrupt u)"
proof -
  have "u_iir (update_interrupt u) = highest_pending u"
    by (simp add: update_interrupt_def Let_def highest_pending_def irq_sources_def)
  moreover have "irq_sources (update_interrupt u) = irq_sources u"
    by (simp add: update_interrupt_def Let_def irq_sources_iir)
  ultimately show ?thesis by (simp add: highest_pending_def)
qed

lemma uart_ok_update: "uart_ok (update_interrupt u) \<longleftrightarrow> base_ok u \<and> u_tx_fifo u = []"
  by (auto simp: uart_ok_def base_ok_def update_interrupt_iir)

lemma uart_ok_base: "uart_ok u \<Longrightarrow> base_ok u" by (simp add: uart_ok_def base_ok_def)

lemma drain_frame [simp]:
  "u_console (drain_rx_staging u) = u_console u" "u_limit (drain_rx_staging u) = u_limit u"
  "u_tx_fifo (drain_rx_staging u) = u_tx_fifo u" "u_mcr (drain_rx_staging u) = u_mcr u"
  by (simp_all add: drain_rx_staging_def Let_def split: prod.split)

lemma drain_base_ok: "\<lbrakk>length (u_rx_fifo u) \<le> kFifoSize; length (u_rx_staging u) \<le> kRxCapacity; length (u_console u) \<le> u_limit u\<rbrakk>
   \<Longrightarrow> base_ok (drain_rx_staging u)"
  by (simp add: base_ok_def drain_rx_ok)

lemma base_ok_rx: "rx_fields u' = rx_fields u \<Longrightarrow> u_console u' = u_console u \<Longrightarrow> u_limit u' = u_limit u \<Longrightarrow> base_ok u' = base_ok u"
  using rx_fields_ok [of u' u] by (simp add: base_ok_def)

lemma base_ok_fields [simp]:
  "base_ok (u\<lparr>u_thr := z\<rparr>) = base_ok u" "base_ok (u\<lparr>u_terminal_query := y\<rparr>) = base_ok u"
  "base_ok (u\<lparr>u_tsr := z\<rparr>) = base_ok u" "base_ok (u\<lparr>u_tx_fifo := y\<rparr>) = base_ok u"
  "base_ok (u\<lparr>u_thr_ipending := p\<rparr>) = base_ok u" "base_ok (u\<lparr>u_msr := z\<rparr>) = base_ok u"
  "base_ok (u\<lparr>u_mcr := z\<rparr>) = base_ok u" "base_ok (u\<lparr>u_ier := z\<rparr>) = base_ok u"
  "base_ok (u\<lparr>u_scr := z\<rparr>) = base_ok u" "base_ok (u\<lparr>u_lcr := z\<rparr>) = base_ok u"
  "base_ok (u\<lparr>u_dll := z\<rparr>) = base_ok u" "base_ok (u\<lparr>u_dlh := z\<rparr>) = base_ok u" "base_ok (u\<lparr>u_rbr := z\<rparr>) = base_ok u"
  by (simp_all add: base_ok_def rx_ok_def dr_def fifo_enabled_def)

lemma base_ok_lsr: "bit w 0 = bit (u_lsr u) 0 \<Longrightarrow> base_ok (u\<lparr>u_lsr := w\<rparr>) = base_ok u"
  by (simp add: base_ok_def rx_ok_def dr_bit fifo_enabled_def)

lemma lsr_bit0 [simp]:
  "bit (w OR lsr_tx_idle) 0 = bit w 0" "bit (w AND NOT lsr_tx_idle) 0 = bit w 0" "bit (w AND NOT lsr_errors) 0 = bit w 0"
  by (simp_all add: bit_or_iff bit_and_iff bit_not_iff source_consts)

lemma base_ok_lsr_idle [simp]:
  "base_ok (u\<lparr>u_lsr := u_lsr u OR lsr_tx_idle\<rparr>) = base_ok u" "base_ok (u\<lparr>u_lsr := u_lsr u AND NOT lsr_tx_idle\<rparr>) = base_ok u"
  "base_ok (u\<lparr>u_lsr := u_lsr u AND NOT lsr_errors\<rparr>) = base_ok u"
  by (rule base_ok_lsr, simp only: lsr_bit0)+

lemma enqueue_frame:
  assumes "enqueue_rx_locked u data False = (u', n)"
  shows "u_console u' = u_console u" "u_limit u' = u_limit u" "u_tx_fifo u' = u_tx_fifo u" "u_mcr u' = u_mcr u"
  using assms enqueue_back_spec [of u data 0]
  by (auto simp: enqueue_rx_locked_def Let_def split: if_splits prod.splits)

lemma enqueue_base_ok: "base_ok u \<Longrightarrow> base_ok (fst (enqueue_rx_locked u data False))"
  using enqueue_spec [of u data] enqueue_frame [of u data] by (cases "enqueue_rx_locked u data False") (auto simp: base_ok_def)

lemma emit_only_fields:
  assumes "emit_only u u'"
  shows "rx_fields u' = rx_fields u" "u_limit u' = u_limit u" "u_tx_fifo u' = u_tx_fifo u" "u_mcr u' = u_mcr u"
    "irq_sources u' = irq_sources u" "u_iir u' = u_iir u" "u_echo_stdout u' = u_echo_stdout u"
proof -
  obtain a b c d e f g where u': "u' = u\<lparr>u_halted_seen := a, u_halted_match := b, u_restarting_seen := c, u_restarting_match := d,
     u_console := e, u_stdout := f, u_last_stdout_byte := g\<rparr>"
    using assms unfolding emit_only_def by blast
  show "rx_fields u' = rx_fields u" by (simp add: u' rx_fields_def fifo_enabled_def dr_def)
  show "irq_sources u' = irq_sources u"
    by (simp add: u' irq_sources_def rx_ready_for_interrupt_def fifo_enabled_def rx_trigger_level_def current_msr_def)
qed (use assms in \<open>auto simp: emit_only_def\<close>)

lemma emit_console_bound:
  assumes "length (u_console u) \<le> u_limit u"
  shows "length (u_console (emit_tx_locked u bs)) \<le> u_limit u"
proof -
  have w: "u_console (write_stdout v bs) = u_console v" for v by (simp add: write_stdout_def split: prod.split)
  have "u_console (track_console_markers v cs) = u_console v" for v cs
    by (induction cs arbitrary: v) (simp_all add: Let_def del: marker_step.simps split: prod.split)
  then have "u_console (track_console_markers u bs) = u_console u" by blast
  with assms show ?thesis
    using emit_only_fields(2) [OF track_emit_only, of u bs] by (auto simp: emit_tx_locked_def Let_def w)
qed

lemma emit_base_ok: "base_ok u \<Longrightarrow> base_ok (emit_tx_locked u bs)"
  using emit_console_bound [of u bs] emit_only_fields(1,2) [OF emit_tx_only, of u bs] rx_fields_ok [of "emit_tx_locked u bs" u]
  by (simp add: base_ok_def)

lemma shift_out_ok: "base_ok u \<Longrightarrow> base_ok (shift_out u) \<and> u_tx_fifo (shift_out u) = u_tx_fifo u"
  using enqueue_base_ok [of u "[u_tsr u]"] enqueue_frame(3) [of u "[u_tsr u]"] emit_base_ok [of u "[u_tsr u]"]
    emit_only_fields(3) [OF emit_tx_only, of u "[u_tsr u]"]
  by (cases "enqueue_rx_locked u [u_tsr u] False") (simp add: shift_out_def)

lemma tx_loop_ok: "base_ok u \<Longrightarrow> base_ok (tx_loop u fifo) \<and> u_tx_fifo (tx_loop u fifo) = []"
  by (induction u fifo rule: tx_loop.induct) (simp_all add: shift_out_ok)

lemma transmit_ok:
  assumes "base_ok u" and "u_tx_fifo u = []"
  shows "base_ok (transmit_byte u v) \<and> u_tx_fifo (transmit_byte u v) = []"
proof -
  obtain w where "base_ok w" "u_tx_fifo w = []" "transmit_byte u v = w\<lparr>u_lsr := u_lsr w OR lsr_tx_idle, u_thr_ipending := True\<rparr>"
  proof (cases "fifo_enabled u")
    case True
    let ?f = "if length (u_tx_fifo u) < kFifoSize then u_tx_fifo u @ [v] else u_tx_fifo u"
    have "transmit_byte u v = (tx_loop u ?f)\<lparr>u_lsr := u_lsr (tx_loop u ?f) OR lsr_tx_idle, u_thr_ipending := True\<rparr>"
      using True unfolding transmit_byte_def Let_def by (simp only: if_True)
    then show thesis using tx_loop_ok [OF assms(1), of ?f] that by blast
  next
    case False
    let ?w = "shift_out (u\<lparr>u_tsr := v\<rparr>)"
    have "transmit_byte u v = ?w\<lparr>u_lsr := u_lsr ?w OR lsr_tx_idle, u_thr_ipending := True\<rparr>"
      using False unfolding transmit_byte_def Let_def by (simp only: if_False)
    then show thesis using shift_out_ok [of "u\<lparr>u_tsr := v\<rparr>"] assms by (intro that [of ?w]) simp_all
  qed
  then show ?thesis by simp
qed

lemma idle_ok:
  "base_ok w \<Longrightarrow> u_tx_fifo w = [] \<Longrightarrow> uart_ok (update_interrupt (w\<lparr>u_lsr := u_lsr w OR lsr_tx_idle, u_thr_ipending := True\<rparr>))"
  by (simp add: uart_ok_update)

lemma query_ok:
  assumes "base_ok u" and "u_tx_fifo u = []"
  shows "base_ok ((emit_tx_locked u bs)\<lparr>u_terminal_query := []\<rparr>)" "u_tx_fifo ((emit_tx_locked u bs)\<lparr>u_terminal_query := []\<rparr>) = []"
    "base_ok ((fst (enqueue_rx_locked u bs False))\<lparr>u_terminal_query := []\<rparr>)"
    "u_tx_fifo ((fst (enqueue_rx_locked u bs False))\<lparr>u_terminal_query := []\<rparr>) = []"
  using emit_base_ok [OF assms(1), of bs] emit_only_fields(3) [OF emit_tx_only, of u bs] assms
    enqueue_base_ok [OF assms(1), of bs] enqueue_frame(3) [of u bs]
  by (simp_all, metis eq_fst_iff)

lemma handle_tx_ok:
  assumes "base_ok u" and "u_tx_fifo u = []"
  shows "uart_ok (handle_tx_byte info u v)"
proof -
  define w where "w = u\<lparr>u_thr := v, u_lsr := u_lsr u AND NOT lsr_tx_idle\<rparr>"
  define q where "q = w\<lparr>u_terminal_query := u_terminal_query w @ [v]\<rparr>"
  have b: "bit (u_lsr u AND NOT lsr_tx_idle) 0 = bit (u_lsr (u\<lparr>u_thr := v\<rparr>)) 0" by (simp only: lsr_bit0) simp
  have w: "base_ok w" "u_tx_fifo w = []"
    using assms unfolding w_def by (simp_all only: base_ok_lsr [OF b] base_ok_fields) simp
  then have q: "base_ok q" "u_tx_fifo q = []" by (simp_all add: q_def)
  have tx: "uart_ok (update_interrupt (transmit_byte w v))" using transmit_ok [OF w] by (simp add: uart_ok_update)
  have split: "P x \<Longrightarrow> P y \<Longrightarrow> P (if c then x else y)" for P c and x y :: uart by simp
  have answer: "uart_ok (update_interrupt (r\<lparr>u_lsr := u_lsr r OR lsr_tx_idle, u_thr_ipending := True\<rparr>))"
    if "r = (if c then emit_tx_locked q bs else fst (enqueue_rx_locked q rs False))\<lparr>u_terminal_query := []\<rparr>" for r c bs rs
    using query_ok [OF q, of bs] query_ok [OF q, of rs] that by (intro idle_ok) (cases c; simp only: if_True if_False)+
  show ?thesis unfolding handle_tx_byte_def Let_def w_def [symmetric] q_def [symmetric]
    by (intro split [of uart_ok] tx idle_ok [OF q] answer [OF refl] idle_ok [OF query_ok(1,2) [OF q]])
qed

lemma uart_read_ok: "uart_ok u \<Longrightarrow> uart_ok (snd (uart_read u off))"
proof -
  assume u: "uart_ok u"
  then have b: "base_ok u" "u_tx_fifo u = []" by (simp_all add: uart_ok_def base_ok_def)
  have rbr: "uart_ok (snd (uart_read_rbr u))"
  proof -
    obtain x v where r: "uart_read_rbr u = (x, v)" by fastforce
    have "rx_ok v" using read_rbr_spec [OF _ r] b(1) by (simp add: base_ok_def)
    moreover have "u_console v = u_console u \<and> u_limit v = u_limit u \<and> u_tx_fifo v = u_tx_fifo u \<and> u_iir v = highest_pending v"
      using r by (cases "fifo_enabled u") (auto simp: uart_read_rbr_def Let_def update_interrupt_iir)
    ultimately show ?thesis using b r by (simp add: uart_ok_def base_ok_def)
  qed
  have "uart_ok (update_interrupt (u\<lparr>u_thr_ipending := False\<rparr>))" "uart_ok (update_interrupt (u\<lparr>u_msr := z\<rparr>))"
    "uart_ok (update_interrupt (u\<lparr>u_lsr := u_lsr u AND NOT lsr_errors\<rparr>))" for z
    unfolding uart_ok_update using b by (simp_all only: base_ok_fields base_ok_lsr_idle) simp_all
  moreover have split: "uart_ok (snd x) \<Longrightarrow> uart_ok (snd y) \<Longrightarrow> uart_ok (snd (if c then x else y))" for c and x y :: "u8 \<times> uart" by simp
  ultimately show ?thesis unfolding uart_read_def Let_def using rbr u
    by (intro split) (simp_all only: snd_conv if_split, simp_all)
qed

lemma clear_rx_ok: "base_ok u \<Longrightarrow> base_ok (clear_rx u) \<and> u_tx_fifo (clear_rx u) = u_tx_fifo u"
  by (simp add: base_ok_def clear_rx_def rx_ok_def)

lemma clear_tx_ok: "base_ok u \<Longrightarrow> base_ok (clear_tx u) \<and> u_tx_fifo (clear_tx u) = []"
  using base_ok_rx [of "clear_tx u" u]
  by (simp add: clear_tx_def rx_fields_def fifo_enabled_def dr_bit bit_or_iff source_consts)

lemma uart_ok_scratch: "uart_ok u \<Longrightarrow> uart_ok (u\<lparr>u_dll := z\<rparr>)" "uart_ok u \<Longrightarrow> uart_ok (u\<lparr>u_dlh := z\<rparr>)" "uart_ok u \<Longrightarrow> uart_ok (u\<lparr>u_scr := z\<rparr>)"
proof -
  have "irq_sources (u\<lparr>u_dll := z\<rparr>) = irq_sources u" "irq_sources (u\<lparr>u_dlh := z\<rparr>) = irq_sources u" "irq_sources (u\<lparr>u_scr := z\<rparr>) = irq_sources u"
    by (simp_all add: irq_sources_def rx_ready_for_interrupt_def fifo_enabled_def rx_trigger_level_def current_msr_def)
  note h = this [THEN highest_pending_cong]
  have "rx_ok (u\<lparr>u_dll := z\<rparr>) = rx_ok u" "rx_ok (u\<lparr>u_dlh := z\<rparr>) = rx_ok u" "rx_ok (u\<lparr>u_scr := z\<rparr>) = rx_ok u"
    by (simp_all add: rx_ok_def dr_def fifo_enabled_def)
  with h show "uart_ok u \<Longrightarrow> uart_ok (u\<lparr>u_dll := z\<rparr>)" "uart_ok u \<Longrightarrow> uart_ok (u\<lparr>u_dlh := z\<rparr>)" "uart_ok u \<Longrightarrow> uart_ok (u\<lparr>u_scr := z\<rparr>)"
    by (simp_all add: uart_ok_def)
qed

lemma write_fcr_ok:
  assumes "base_ok u" and "u_tx_fifo u = []"
  shows "uart_ok (uart_write info u 2 v)"
proof -
  define w where "w = u\<lparr>u_fcr := v AND (kFcrEnable OR kFcrTriggerMask)\<rparr>"
  define x where "x = (if v AND kFcrClearRx \<noteq> 0 then clear_rx w else drain_rx_staging w)"
  have len: "length (u_rx_fifo w) \<le> kFifoSize" "length (u_rx_staging w) \<le> kRxCapacity" "length (u_console w) \<le> u_limit w"
    using assms by (simp_all add: w_def base_ok_def rx_ok_def)
  have "base_ok (clear_rx w)" using len by (simp add: base_ok_def clear_rx_def rx_ok_def)
  then have x: "base_ok x" "u_tx_fifo x = []"
    using drain_base_ok [OF len] assms(2) by (simp_all add: x_def clear_rx_def w_def)
  have "uart_write info u 2 v = update_interrupt (if v AND kFcrClearTx \<noteq> 0 then clear_tx x else x)"
    unfolding uart_write_def Let_def w_def [symmetric] x_def [symmetric] by simp
  then show ?thesis using x clear_tx_ok [OF x(1)] by (simp add: uart_ok_update)
qed

lemma write_lcr_ok:
  assumes "base_ok u" and "u_tx_fifo u = []"
  shows "uart_ok (uart_write info u 3 v)"
proof -
  have "base_ok (u\<lparr>u_lcr := v, u_lsr := u_lsr u OR kLsrBi OR kLsrDr, u_rbr := 0\<rparr>)"
    using assms(1) by (auto simp: base_ok_def rx_ok_def dr_bit fifo_enabled_def bit_or_iff kLsrDr_def)
  then show ?thesis using assms by (simp add: uart_write_def Let_def uart_ok_update)
qed

lemma uart_write_ok: "uart_ok u \<Longrightarrow> uart_ok (uart_write info u off v)"
proof -
  assume u: "uart_ok u"
  then have b: "base_ok u" "u_tx_fifo u = []" by (simp_all add: uart_ok_def base_ok_def)
  consider "off = 0" | "off = 1" | "off = 2" | "off = 3" | "off = 4" | "off \<notin> {0, 1, 2, 3, 4}" by blast
  then show ?thesis
  proof cases
    case 1
    then show ?thesis using handle_tx_ok [OF b] uart_ok_scratch(1) [OF u] by (simp add: uart_write_def)
  next
    case 2
    then show ?thesis using b uart_ok_scratch(2) [OF u] by (simp add: uart_write_def Let_def uart_ok_update)
  next
    case 5
    then show ?thesis using b by (simp add: uart_write_def Let_def uart_ok_update update_msr_delta_def)
  qed (use write_fcr_ok [OF b] write_lcr_ok [OF b] uart_ok_scratch(3) [OF u] u in \<open>auto simp: uart_write_def\<close>)
qed

datatype uart_event = URead u16 | UWrite console_info u16 u8 | UEnqueue bytes | UEmit bytes | UAttach

fun uart_step :: "uart \<Rightarrow> uart_event \<Rightarrow> uart" where
  "uart_step u (URead off) = snd (uart_read u off)"
| "uart_step u (UWrite info off v) = uart_write info u off v"
| "uart_step u (UEnqueue data) = fst (enqueue_rx u data)"
| "uart_step u (UEmit data) = emit_bytes u data"
| "uart_step u UAttach = attach_irq_raiser u"

lemma enqueue_ok: "uart_ok u \<Longrightarrow> uart_ok (fst (enqueue_rx u data))"
proof (cases "data = []")
  case False
  assume u: "uart_ok u"
  obtain v n where e: "enqueue_rx_locked u data False = (v, n)" by fastforce
  then have "u_iir v = highest_pending v"
    using False by (auto simp: enqueue_rx_locked_def Let_def update_interrupt_iir split: prod.splits)
  with u e enqueue_base_ok [OF uart_ok_base [OF u], of data] enqueue_frame [OF e] show ?thesis
    by (simp add: enqueue_rx_def uart_ok_def base_ok_def)
qed (simp add: enqueue_rx_def enqueue_rx_locked_def)

lemma emit_ok: "uart_ok u \<Longrightarrow> uart_ok (emit_bytes u data)"
  using emit_base_ok [OF uart_ok_base, of u data] emit_only_fields [OF emit_tx_only, of u data] highest_pending_cong [of "emit_tx_locked u data" u]
  by (simp add: emit_bytes_def uart_ok_def base_ok_def)

lemma attach_ok: "uart_ok u \<Longrightarrow> uart_ok (attach_irq_raiser u)"
proof -
  have "irq_sources (u\<lparr>u_raiser := True\<rparr>) = irq_sources u"
    by (simp add: irq_sources_def rx_ready_for_interrupt_def fifo_enabled_def rx_trigger_level_def current_msr_def)
  then have "highest_pending (u\<lparr>u_raiser := True\<rparr>) = highest_pending u" by (rule highest_pending_cong)
  moreover have "rx_ok (u\<lparr>u_raiser := True\<rparr>) = rx_ok u" by (simp add: rx_ok_def dr_def fifo_enabled_def)
  ultimately show "uart_ok u \<Longrightarrow> uart_ok (attach_irq_raiser u)" by (simp add: attach_irq_raiser_def uart_ok_def)
qed

lemma uart_step_ok: "uart_ok u \<Longrightarrow> uart_ok (uart_step u e)"
  by (cases e) (simp_all add: uart_read_ok uart_write_ok enqueue_ok emit_ok attach_ok)

interpretation uart_machine: invariant_machine uart_step uart_ok
  by unfold_locales (rule uart_step_ok)

lemma uart_init_ok: "uart_ok (uart_init limit echo con env)"
  by (simp add: uart_ok_def uart_init_def rx_ok_def highest_pending_def irq_sources_def source_consts)

section \<open>Markers\<close>

lemma match_back_le: "match_back pattern m b \<le> m"
  by (induction m) auto

lemma match_back_largest:
  "j \<le> m \<Longrightarrow> (pattern @ [0]) ! j = b \<Longrightarrow>
   j \<le> match_back pattern m b \<and> (pattern @ [0]) ! match_back pattern m b = b"
proof (induction m)
  case (Suc m)
  then show ?case by (cases "j = Suc m") auto
qed simp

text \<open>\<open>m\<close> bounds every prefix of the pattern that the text ends with.\<close>

definition match_bound :: "bytes \<Rightarrow> bytes \<Rightarrow> nat \<Rightarrow> bool" where
  "match_bound pattern hist m \<longleftrightarrow> m \<le> length pattern \<and>
     (\<forall>k \<le> length pattern. suffix (take k pattern) hist \<longrightarrow> k \<le> m)"

lemma advance_bound:
  assumes "match_bound pattern hist m" and "m < length pattern"
  shows "match_bound pattern (hist @ [b]) (AdvanceMatch pattern m b)"
  unfolding match_bound_def
proof (intro conjI allI impI)
  show "AdvanceMatch pattern m b \<le> length pattern"
    using assms(2) match_back_le [of pattern m b] by (simp add: AdvanceMatch_def Let_def)
  fix k assume k: "k \<le> length pattern" "suffix (take k pattern) (hist @ [b])"
  show "k \<le> AdvanceMatch pattern m b"
  proof (cases k)
    case (Suc j)
    have t: "take k pattern = take j pattern @ [pattern ! j]" using k(1) Suc by (simp add: take_Suc_conv_app_nth)
    then have s: "suffix (take j pattern) hist" "pattern ! j = b" using k(2) by simp_all
    then have "j \<le> m" using assms(1) k(1) Suc by (simp add: match_bound_def)
    moreover have "(pattern @ [0]) ! j = b" using s(2) k(1) Suc by (simp add: nth_append)
    ultimately show ?thesis using match_back_largest [of j m pattern b] Suc by (simp add: AdvanceMatch_def Let_def)
  qed simp
qed

lemma marker_found:
  assumes "pattern \<noteq> []" and "foldl (marker_step pattern) (False, 0) hist = (seen, m)"
  shows "(\<not> seen \<longrightarrow> m < length pattern \<and> match_bound pattern hist m) \<and> (sublist pattern hist \<longrightarrow> seen)"
  using assms(2)
proof (induction hist arbitrary: seen m rule: rev_induct)
  case Nil
  then show ?case using assms(1) by (auto simp: match_bound_def)
next
  case (snoc b hist)
  obtain s0 m0 where l: "foldl (marker_step pattern) (False, 0) hist = (s0, m0)" by fastforce
  show ?case
  proof (cases s0)
    case True
    then show ?thesis using snoc.prems l by simp
  next
    case False
    then have inv: "m0 < length pattern" "match_bound pattern hist m0" "\<not> sublist pattern hist" using snoc.IH [OF l] by auto
    then have b: "match_bound pattern (hist @ [b]) (AdvanceMatch pattern m0 b)" by (intro advance_bound)
    have r: "seen = (m = length pattern)" "m = AdvanceMatch pattern m0 b" using snoc.prems l False by (auto simp: Let_def)
    have "sublist pattern (hist @ [b]) \<Longrightarrow> suffix pattern (hist @ [b])"
    proof -
      assume "sublist pattern (hist @ [b])"
      then obtain xs ys where e: "hist @ [b] = xs @ pattern @ ys" by (auto simp: sublist_def)
      show ?thesis
      proof (cases ys rule: rev_cases)
        case Nil
        then show ?thesis using e by (auto simp: suffix_def)
      next
        case (snoc zs z)
        then have "hist = xs @ pattern @ zs" using e by simp
        then show ?thesis using inv(3) by (auto simp: sublist_def)
      qed
    qed
    then have "sublist pattern (hist @ [b]) \<Longrightarrow> length pattern \<le> AdvanceMatch pattern m0 b"
      using b unfolding match_bound_def by (metis le_refl take_all)
    then show ?thesis using b r by (auto simp: match_bound_def)
  qed
qed

lemma track_foldl:
  "(u_halted_seen (track_console_markers u bs), u_halted_match (track_console_markers u bs)) =
     foldl (marker_step kHalted) (u_halted_seen u, u_halted_match u) bs
   \<and> (u_restarting_seen (track_console_markers u bs), u_restarting_match (track_console_markers u bs)) =
     foldl (marker_step kRestarting) (u_restarting_seen u, u_restarting_match u) bs"
  by (induction bs arbitrary: u) (simp_all add: Let_def del: marker_step.simps split: prod.split)

definition marker_state :: "uart \<Rightarrow> (bool \<times> nat) \<times> bool \<times> nat" where
  "marker_state u = ((u_halted_seen u, u_halted_match u), u_restarting_seen u, u_restarting_match u)"

lemma emit_markers: "marker_state (emit_tx_locked u bs) = marker_state (track_console_markers u bs)"
  by (auto simp: marker_state_def emit_tx_locked_def Let_def write_stdout_def split: prod.split)

lemma emit_chunks_markers:
  "marker_state (foldl emit_bytes u chunks) =
     (foldl (marker_step kHalted) (u_halted_seen u, u_halted_match u) (concat chunks),
      foldl (marker_step kRestarting) (u_restarting_seen u, u_restarting_match u) (concat chunks))"
proof (induction chunks arbitrary: u)
  case (Cons c chunks)
  have "marker_state (emit_bytes u c) = (foldl (marker_step kHalted) (u_halted_seen u, u_halted_match u) c,
      foldl (marker_step kRestarting) (u_restarting_seen u, u_restarting_match u) c)"
    using emit_markers [of u c] track_foldl [of u c] by (simp add: emit_bytes_def marker_state_def)
  then show ?case using Cons.IH [of "emit_bytes u c"] by (simp add: marker_state_def)
qed (simp add: marker_state_def)

section \<open>Line ends\<close>

text \<open>No bare line feed, when the byte before the text was \<open>l\<close>.\<close>

fun crlf_ok :: "u8 \<Rightarrow> bytes \<Rightarrow> bool" where
  "crlf_ok l [] = True"
| "crlf_ok l (b # bs) = ((b = 0x0A \<longrightarrow> l = 0x0D) \<and> crlf_ok b bs)"

lemma NormalizeCrlf_spec:
  "NormalizeCrlf bs l = (out, l') \<Longrightarrow>
   crlf_ok l out \<and> filter (\<lambda>b. b \<noteq> 0x0D) out = filter (\<lambda>b. b \<noteq> 0x0D) bs \<and> l' = last (l # bs) \<and> (crlf_ok l bs \<longrightarrow> out = bs)"
  by (induction bs arbitrary: l out l') (auto split: prod.splits)

lemma NormalizeCrlf_append:
  "NormalizeCrlf (xs @ ys) l =
     (let (o1, l1) = NormalizeCrlf xs l; (o2, l2) = NormalizeCrlf ys l1 in (o1 @ o2, l2))"
  by (induction xs arbitrary: l) (auto simp: Let_def split: prod.splits)

section \<open>Properties\<close>

text \<open>After any sequence of register accesses, received bytes and emitted output, the interrupt
  identification register names exactly the pending source of highest priority, the receive FIFO
  and staging queue and the console log are within their limits, and the transmit FIFO is empty.\<close>

theorem uart_invariant:
  assumes "u = run uart_step (uart_init limit echo con env) events"
  shows "u_iir u = highest_pending u \<and> length (u_rx_fifo u) \<le> kFifoSize \<and> length (u_rx_staging u) \<le> kRxCapacity
    \<and> length (u_console u) \<le> u_limit u \<and> u_tx_fifo u = []"
  using uart_machine.run_inv [OF uart_init_ok, of limit echo con env events] assms
  by (simp add: uart_ok_def rx_ok_def)

theorem uart_invariant_witness:
  "u_iir (run uart_step (uart_init 100 False False None) [UWrite None 1 0x01, UEnqueue [0x41]])
   = highest_pending (run uart_step (uart_init 100 False False None) [UWrite None 1 0x01, UEnqueue [0x41]])"
  using uart_invariant [OF refl, of 100 False False None "[UWrite None 1 0x01, UEnqueue [0x41]]"] by blast

text \<open>C29. The receiver is a first-in first-out queue, with and without the hardware FIFO: when the
  bytes from the host fit the capacity of 4096, reading the data register as often as there are
  bytes gives first what was queued and then the new bytes, each once and in order.\<close>

theorem uart_receives_in_order:
  assumes "u = run uart_step (uart_init limit echo con env) events" and "u_lcr u AND 0x80 = 0"
    and "length (rx_stream u) + length data \<le> kRxCapacity"
  shows "fst (get_many (\<lambda>u. uart_read u 0) (length (rx_stream u) + length data) (fst (enqueue_rx u data))) = rx_stream u @ data"
proof -
  have "rx_ok u" using uart_machine.run_inv [OF uart_init_ok, of limit echo con env events] assms(1) by (simp add: uart_ok_def)
  with assms(2,3) show ?thesis by (intro rx.put_get_many) simp_all
qed

theorem uart_receives_in_order_witness:
  "fst (get_many (\<lambda>u. uart_read u 0) 2 (fst (enqueue_rx (uart_init 100 False False None) [0x41, 0x42]))) = [0x41, 0x42]"
proof -
  have u: "uart_init 100 False False None = run uart_step (uart_init 100 False False None) []" by simp
  have l: "u_lcr (uart_init 100 False False None) AND 0x80 = 0" "rx_stream (uart_init 100 False False None) = []"
    by (simp_all add: uart_init_def rx_stream_def dr_def fifo_enabled_def source_consts)
  then show ?thesis using uart_receives_in_order [OF u l(1), of "[0x41, 0x42]"] by (simp add: kRxCapacity_def numeral_2_eq_2)
qed

text \<open>C30. A shutdown marker in the guest's output is never missed: however the output is split into
  writes, and even when the console log is full, once the emitted bytes contain
  "reboot: System halted" or "Restarting system", contains reports it.\<close>

theorem uart_never_misses_marker:
  assumes "needle = kHalted \<or> needle = kRestarting" and "sublist needle (concat chunks)"
  shows "uart_contains (foldl emit_bytes (uart_init limit echo con env) chunks) needle"
proof -
  let ?u = "foldl emit_bytes (uart_init limit echo con env) chunks"
  have m: "(u_halted_seen ?u, u_halted_match ?u) = foldl (marker_step kHalted) (False, 0) (concat chunks)"
    "(u_restarting_seen ?u, u_restarting_match ?u) = foldl (marker_step kRestarting) (False, 0) (concat chunks)"
    using emit_chunks_markers [of "uart_init limit echo con env" chunks] by (simp_all add: marker_state_def uart_init_def)
  have "kHalted \<noteq> []" "kRestarting \<noteq> []" "kRestarting \<noteq> kHalted" by (simp_all add: kHalted_def kRestarting_def)
  then show ?thesis
    using assms marker_found [OF _ m(1) [symmetric]] marker_found [OF _ m(2) [symmetric]] by (auto simp: uart_contains_def)
qed

theorem uart_never_misses_marker_witness:
  "uart_contains (foldl emit_bytes (uart_init 10 False False None) [[0x52, 0x52, 0x65, 0x73], drop 3 kRestarting @ [0x21]]) kRestarting"
proof (rule uart_never_misses_marker)
  have "concat [[0x52, 0x52, 0x65, 0x73], drop 3 kRestarting @ [0x21]] = [0x52] @ kRestarting @ [0x21]"
    by (simp add: kRestarting_def)
  then show "sublist kRestarting (concat [[0x52, 0x52, 0x65, 0x73], drop 3 kRestarting @ [0x21]])"
    by (metis sublist_def)
qed simp

text \<open>The marker search also reports markers that are not there: on a mismatch it falls back to any
  position of the pattern that holds the byte, so output "reboot: Systemm halted" counts as the
  halt marker.\<close>

theorem uart_marker_false_positive:
  "let out = take 14 kHalted @ [0x6D] @ drop 14 kHalted
   in \<not> sublist kHalted out \<and> uart_contains (emit_bytes (uart_init 100 False False None) out) kHalted"
proof -
  let ?out = "take 14 kHalted @ [0x6D] @ drop 14 kHalted"
  have n: "\<not> sublist kHalted ?out" by code_simp
  have "fst (foldl (marker_step kHalted) (False, 0) ?out)" by code_simp
  then have "u_halted_seen (emit_bytes (uart_init 100 False False None) ?out)"
    using emit_chunks_markers [of "uart_init 100 False False None" "[?out]"]
    by (simp add: marker_state_def uart_init_def prod_eq_iff)
  with n show ?thesis by (simp add: uart_contains_def Let_def)
qed

text \<open>The output normaliser leaves no bare line feed, changes nothing but carriage returns, and leaves
  text that already has CRLF line ends as it is, also when the text arrives in pieces.\<close>

theorem NormalizeCrlf_correct:
  assumes "NormalizeCrlf bs l = (out, l')"
  shows "crlf_ok l out \<and> filter (\<lambda>b. b \<noteq> 0x0D) out = filter (\<lambda>b. b \<noteq> 0x0D) bs \<and> (crlf_ok l bs \<longrightarrow> out = bs)
    \<and> NormalizeCrlf (bs @ rest) l = (out @ fst (NormalizeCrlf rest l'), snd (NormalizeCrlf rest l'))"
  using NormalizeCrlf_spec [OF assms] NormalizeCrlf_append [of bs rest l] assms by (simp add: Let_def split: prod.splits)

theorem NormalizeCrlf_correct_witness: "NormalizeCrlf [0x61, 0x0A] 0 = ([0x61, 0x0D, 0x0A], 0x0A) \<and> crlf_ok 0 [0x61, 0x0D, 0x0A]"
proof -
  have n: "NormalizeCrlf [0x61, 0x0A] 0 = ([0x61, 0x0D, 0x0A], 0x0A)" by simp
  with NormalizeCrlf_correct [OF n] show ?thesis by blast
qed

end
