(* ===== verification/Ioapic.thy ===== *)
theory Ioapic
  imports Bytes "HOL-Library.Sublist"
begin

unbundle bit_operations_syntax

text \<open>
  The I/O APIC (class IoApic of native/whp/backend.cc). Every method holds the mutex. The
  hypervisor call request_interrupt is a parameter: \<open>deliver k c\<close> says whether the k-th call
  succeeds. \<open>io_sent\<close> records the interrupts the hypervisor accepted, \<open>io_wakes\<close> the calls of the
  attached waker. Debug output is left out.
\<close>

definition kIoApicBase :: u64 where "kIoApicBase = 0xFEC00000"
definition kRteVectorMask :: u64 where "kRteVectorMask = 0xFF"
definition kRteDestinationMode :: u64 where "kRteDestinationMode = push_bit 11 1"
definition kRteRemoteIrr :: u64 where "kRteRemoteIrr = push_bit 14 1"
definition kRteTriggerMode :: u64 where "kRteTriggerMode = push_bit 15 1"
definition kRteMask :: u64 where "kRteMask = push_bit 16 1"

record irq_control =
  ic_logical :: bool
  ic_level :: bool
  ic_destination :: u32
  ic_vector :: u32

type_synonym hypervisor = "nat \<Rightarrow> irq_control \<Rightarrow> bool"

record ioapic =
  io_selected :: u32
  io_redir :: "u64 list"
  io_line :: "bool list"
  io_pending :: "irq_control list"
  io_waker :: bool
  io_sent :: "irq_control list"
  io_calls :: nat
  io_wakes :: nat

definition ioapic_init :: ioapic where
  "ioapic_init = \<lparr>io_selected = 0, io_redir = replicate 24 kRteMask, io_line = replicate 24 False, io_pending = [],
     io_waker = False, io_sent = [], io_calls = 0, io_wakes = 0\<rparr>"

definition attach_waker :: "ioapic \<Rightarrow> ioapic" where
  "attach_waker s = s\<lparr>io_waker := True\<rparr>"

definition vector_for_irq_locked :: "ioapic \<Rightarrow> u32 \<Rightarrow> u32" where
  "vector_for_irq_locked s irq =
    (let vector = ucast (io_redir s ! unat irq AND kRteVectorMask) in if vector = 0 then 0x20 + irq else vector)"

fun drain_loop_irq :: "hypervisor \<Rightarrow> ioapic \<Rightarrow> irq_control list \<Rightarrow> bool \<Rightarrow> ioapic" where
  "drain_loop_irq deliver s [] delivered =
     (let s = s\<lparr>io_pending := []\<rparr> in if delivered \<and> io_waker s then s\<lparr>io_wakes := io_wakes s + 1\<rparr> else s)"
| "drain_loop_irq deliver s (c # pending) delivered =
    (let s' = s\<lparr>io_calls := io_calls s + 1\<rparr>
     in if \<not> deliver (io_calls s) c then s'\<lparr>io_pending := c # pending\<rparr>
        else drain_loop_irq deliver (s'\<lparr>io_sent := io_sent s' @ [c]\<rparr>) pending True)"

definition drain_pending :: "hypervisor \<Rightarrow> ioapic \<Rightarrow> ioapic" where
  "drain_pending deliver s = drain_loop_irq deliver s (io_pending s) False"

definition request_irq :: "hypervisor \<Rightarrow> ioapic \<Rightarrow> u32 \<Rightarrow> ioapic" where
  "request_irq deliver s irq =
    (if 24 \<le> irq then s
     else let entry = io_redir s ! unat irq; level_triggered = (entry AND kRteTriggerMode \<noteq> 0)
     in if entry AND kRteMask \<noteq> 0 then s
        else if level_triggered \<and> entry AND kRteRemoteIrr \<noteq> 0 then s
        else if 64 < length (io_pending s) then s
        else let control = \<lparr>ic_logical = (entry AND kRteDestinationMode \<noteq> 0), ic_level = level_triggered,
                   ic_destination = ucast (drop_bit 56 entry AND 0xFF), ic_vector = vector_for_irq_locked s irq\<rparr>;
                 s = (if level_triggered then s\<lparr>io_redir := (io_redir s)[unat irq := entry OR kRteRemoteIrr]\<rparr> else s)
             in drain_pending deliver (s\<lparr>io_pending := io_pending s @ [control]\<rparr>))"

definition set_irq :: "hypervisor \<Rightarrow> ioapic \<Rightarrow> u32 \<Rightarrow> bool \<Rightarrow> ioapic" where
  "set_irq deliver s irq level =
    (if 24 \<le> irq then s
     else let s = s\<lparr>io_line := (io_line s)[unat irq := level]\<rparr> in if level then request_irq deliver s irq else s)"

definition vector_for_irq :: "ioapic \<Rightarrow> u32 \<Rightarrow> u32" where
  "vector_for_irq s irq = (if 24 \<le> irq then 0x20 + irq else vector_for_irq_locked s irq)"

definition irq_unmasked :: "ioapic \<Rightarrow> u32 \<Rightarrow> bool" where
  "irq_unmasked s irq \<longleftrightarrow> irq < 24 \<and> io_redir s ! unat irq AND kRteMask = 0"

definition eoi_one :: "hypervisor \<Rightarrow> u32 \<Rightarrow> nat \<Rightarrow> ioapic \<Rightarrow> ioapic" where
  "eoi_one deliver vector i s =
    (let entry = io_redir s ! i
     in if entry AND kRteTriggerMode = 0 \<or> entry AND kRteRemoteIrr = 0 then s
        else if vector_for_irq_locked s (of_nat i) \<noteq> vector AND 0xFF then s
        else let s = s\<lparr>io_redir := (io_redir s)[i := entry AND NOT kRteRemoteIrr]\<rparr>
             in if io_line s ! i \<and> io_redir s ! i AND kRteMask = 0 then request_irq deliver s (of_nat i) else s)"

definition eoi :: "hypervisor \<Rightarrow> ioapic \<Rightarrow> u32 \<Rightarrow> ioapic" where
  "eoi deliver s vector = drain_pending deliver (fold (eoi_one deliver vector) [0 ..< 24] s)"

definition ioapic_read_reg :: "ioapic \<Rightarrow> u32 \<Rightarrow> u32" where
  "ioapic_read_reg s reg =
    (if reg = 0x00 then push_bit 24 12
     else if reg = 0x01 then 0x11 OR push_bit 16 (24 - 1)
     else if 0x10 \<le> reg \<and> reg < 0x10 + 24 * 2
     then let entry = io_redir s ! unat ((reg - 0x10) div 2)
          in if (reg - 0x10) AND 1 \<noteq> 0 then ucast (drop_bit 32 entry) else ucast entry
     else 0)"

definition ioapic_write_reg :: "hypervisor \<Rightarrow> ioapic \<Rightarrow> u32 \<Rightarrow> u32 \<Rightarrow> ioapic" where
  "ioapic_write_reg deliver s reg value =
    (if 0x10 \<le> reg \<and> reg < 0x10 + 24 * 2
     then let irq = (reg - 0x10) div 2; high = ((reg - 0x10) AND 1 \<noteq> 0); old = io_redir s ! unat irq;
              new = (if high then (old AND 0xFFFFFFFF) OR push_bit 32 (ucast value)
                     else let e = (old AND 0xFFFFFFFF00000000) OR ucast value;
                              e = (e AND NOT kRteRemoteIrr) OR (old AND kRteRemoteIrr)
                          in if e AND kRteTriggerMode = 0 then e AND NOT kRteRemoteIrr else e);
              s = s\<lparr>io_redir := (io_redir s)[unat irq := new]\<rparr>
          in if \<not> high \<and> old AND kRteMask \<noteq> 0 \<and> new AND kRteMask = 0 \<and> io_line s ! unat irq
             then request_irq deliver s irq else s
     else s)"

definition ioapic_read_mmio :: "ioapic \<Rightarrow> u64 \<Rightarrow> u32 \<Rightarrow> bytes" where
  "ioapic_read_mmio s addr n =
    (if n \<noteq> 4 then replicate (unat n) 0
     else let off = ucast (addr - kIoApicBase) :: u32
          in if off = 0x00 then le_bytes 4 (io_selected s)
             else if off = 0x10 then le_bytes 4 (ioapic_read_reg s (io_selected s)) else replicate 4 0)"

definition ioapic_write_mmio :: "hypervisor \<Rightarrow> ioapic \<Rightarrow> u64 \<Rightarrow> bytes \<Rightarrow> ioapic" where
  "ioapic_write_mmio deliver s addr data =
    (if length data \<noteq> 4 then s
     else let off = ucast (addr - kIoApicBase) :: u32; value = ReadU32 ((!) data) 0
          in if off = 0x00 then s\<lparr>io_selected := value AND 0xFF\<rparr>
             else if off = 0x10 then ioapic_write_reg deliver s (io_selected s) value else s)"

section \<open>The invariant of the table\<close>

text \<open>Remote IRR is a bit 14 that only level-triggered entries have.\<close>

abbreviation remote_irr :: "u64 \<Rightarrow> bool" where "remote_irr e \<equiv> bit e 14"
abbreviation level_entry :: "u64 \<Rightarrow> bool" where "level_entry e \<equiv> bit e 15"
abbreviation masked_entry :: "u64 \<Rightarrow> bool" where "masked_entry e \<equiv> bit e 16"

lemma rte_bits:
  "e AND kRteRemoteIrr = 0 \<longleftrightarrow> \<not> remote_irr e"
  "e AND kRteTriggerMode = 0 \<longleftrightarrow> \<not> level_entry e"
  "e AND kRteMask = 0 \<longleftrightarrow> \<not> masked_entry e"
  using and_exp_eq_0_iff_not_bit [of e 14] and_exp_eq_0_iff_not_bit [of e 15] and_exp_eq_0_iff_not_bit [of e 16]
  by (simp_all add: kRteRemoteIrr_def kRteTriggerMode_def kRteMask_def)

lemma bit_kRteRemoteIrr: "bit kRteRemoteIrr k \<longleftrightarrow> k = 14"
  using bit_push_bit_iff [of 14 "1 :: u64" k] unfolding kRteRemoteIrr_def by (auto simp: bit_1_iff)

lemma rte_set:
  "bit (e OR kRteRemoteIrr) k \<longleftrightarrow> bit e k \<or> k = 14" "bit (e AND NOT kRteRemoteIrr) k \<longleftrightarrow> bit e k \<and> k \<noteq> 14"
  by (auto simp: bit_kRteRemoteIrr bit_or_iff bit_and_iff bit_not_iff dest: bit_imp_le_length)

definition ioapic_ok :: "ioapic \<Rightarrow> bool" where
  "ioapic_ok s \<longleftrightarrow> length (io_redir s) = 24 \<and> length (io_line s) = 24 \<and> length (io_pending s) \<le> 65 \<and>
     (\<forall>e \<in> set (io_redir s). remote_irr e \<longrightarrow> level_entry e)"

lemma ioapic_ok_frame:
  "\<lbrakk>ioapic_ok s; io_redir s' = io_redir s; io_line s' = io_line s; length (io_pending s') \<le> 65\<rbrakk> \<Longrightarrow> ioapic_ok s'"
  by (simp add: ioapic_ok_def)

lemma ioapic_ok_entry:
  assumes "ioapic_ok s" and "remote_irr e \<longrightarrow> level_entry e"
  shows "ioapic_ok (s\<lparr>io_redir := (io_redir s)[i := e]\<rparr>)"
proof -
  have "set ((io_redir s)[i := e]) \<subseteq> insert e (set (io_redir s))" by (rule set_update_subset_insert)
  then have "\<forall>x \<in> set ((io_redir s)[i := e]). remote_irr x \<longrightarrow> level_entry x"
    using assms unfolding ioapic_ok_def by blast
  then show ?thesis using assms(1) by (simp add: ioapic_ok_def)
qed

lemma drain_loop_frame:
  "io_redir (drain_loop_irq deliver s p d) = io_redir s \<and> io_line (drain_loop_irq deliver s p d) = io_line s
   \<and> length (io_pending (drain_loop_irq deliver s p d)) \<le> length p"
  by (induction deliver s p d rule: drain_loop_irq.induct) (auto simp: Let_def)

lemma ioapic_drain_frame:
  "io_redir (drain_pending deliver s) = io_redir s" "io_line (drain_pending deliver s) = io_line s"
  "length (io_pending (drain_pending deliver s)) \<le> length (io_pending s)"
  by (simp_all add: drain_pending_def drain_loop_frame)

lemma drain_ok: "ioapic_ok s \<Longrightarrow> ioapic_ok (drain_pending deliver s)"
  using drain_loop_frame [of deliver s "io_pending s" False]
  by (auto simp: drain_pending_def ioapic_ok_def)

lemma push_pending_ok:
  "\<lbrakk>ioapic_ok t; length (io_pending t) \<le> 64\<rbrakk> \<Longrightarrow> ioapic_ok (drain_pending deliver (t\<lparr>io_pending := io_pending t @ [c]\<rparr>))"
  by (rule drain_ok) (simp add: ioapic_ok_def)

lemma request_ok:
  assumes s: "ioapic_ok s"
  shows "ioapic_ok (request_irq deliver s irq)"
proof -
  have "ioapic_ok (drain_pending deliver (s\<lparr>io_redir := (io_redir s)[unat irq := io_redir s ! unat irq OR kRteRemoteIrr],
      io_pending := io_pending s @ [c]\<rparr>))"
    if "level_entry (io_redir s ! unat irq)" "length (io_pending s) \<le> 64" for c
    using push_pending_ok [OF ioapic_ok_entry [OF s, of "io_redir s ! unat irq OR kRteRemoteIrr" "unat irq"], of deliver c] that
    by (simp add: rte_set)
  moreover have "ioapic_ok (drain_pending deliver (s\<lparr>io_pending := io_pending s @ [c]\<rparr>))" if "length (io_pending s) \<le> 64" for c
    using push_pending_ok [OF s that] .
  ultimately show ?thesis using s
    by (simp add: request_irq_def Let_def rte_bits not_less)
qed

lemma set_irq_ok:
  assumes "ioapic_ok s"
  shows "ioapic_ok (set_irq deliver s irq level)"
proof -
  have "ioapic_ok (s\<lparr>io_line := (io_line s)[unat irq := level]\<rparr>)" using assms by (simp add: ioapic_ok_def)
  then show ?thesis using assms by (cases level) (simp_all add: set_irq_def Let_def request_ok)
qed

lemma eoi_ok: "ioapic_ok s \<Longrightarrow> ioapic_ok (eoi deliver s vector)"
proof -
  assume s: "ioapic_ok s"
  have one: "ioapic_ok t \<Longrightarrow> ioapic_ok (eoi_one deliver vector i t)" for t i
    using ioapic_ok_entry [of t "io_redir t ! i AND NOT kRteRemoteIrr" i]
    by (auto simp: eoi_one_def Let_def rte_set intro: request_ok)
  have "ioapic_ok (fold (eoi_one deliver vector) is t)" if "ioapic_ok t" for "is" t
    using that by (induction "is" arbitrary: t) (simp_all add: one)
  then show ?thesis using s unfolding eoi_def by (intro drain_ok)
qed

lemma write_reg_ok: "ioapic_ok s \<Longrightarrow> ioapic_ok (ioapic_write_reg deliver s reg v)"
proof (cases "0x10 \<le> reg \<and> reg < 0x10 + 24 * 2")
  case True
  assume s: "ioapic_ok s"
  let ?i = "unat ((reg - 0x10) div 2)"
  have "unat (reg - 0x10) = unat reg - 16" "unat reg < 64" "16 \<le> unat reg"
    using True by (simp_all add: unat_sub word_le_nat_alt word_less_nat_alt)
  then have "?i < 24" by (simp add: unat_div)
  then have old: "remote_irr (io_redir s ! ?i) \<longrightarrow> level_entry (io_redir s ! ?i)"
    using s by (simp add: ioapic_ok_def)
  have hi: "remote_irr ((io_redir s ! ?i AND 0xFFFFFFFF) OR push_bit 32 (ucast v)) \<longrightarrow>
      level_entry ((io_redir s ! ?i AND 0xFFFFFFFF) OR push_bit 32 (ucast v))"
    using old by (simp add: and_masks bit_simps)
  have lo: "remote_irr (if e AND kRteTriggerMode = 0 then e AND NOT kRteRemoteIrr else e) \<longrightarrow>
      level_entry (if e AND kRteTriggerMode = 0 then e AND NOT kRteRemoteIrr else e)" for e
    by (simp add: rte_bits rte_set)
  have step: "ioapic_ok (if c then request_irq deliver t irq else t)" if "ioapic_ok t" for c t irq
    using that by (simp add: request_ok)
  have "remote_irr (if c then (io_redir s ! ?i AND 0xFFFFFFFF) OR push_bit 32 (ucast v)
        else if e AND kRteTriggerMode = 0 then e AND NOT kRteRemoteIrr else e) \<longrightarrow>
      level_entry (if c then (io_redir s ! ?i AND 0xFFFFFFFF) OR push_bit 32 (ucast v)
        else if e AND kRteTriggerMode = 0 then e AND NOT kRteRemoteIrr else e)" for c e
    using hi lo [of e] by (cases c) (simp_all only: if_True if_False)
  note new = step [OF ioapic_ok_entry [OF s this]]
  show ?thesis unfolding ioapic_write_reg_def Let_def if_P [OF True] by (rule new)
qed (auto simp: ioapic_write_reg_def)

section \<open>Runs of the controller\<close>

text \<open>What reaches the controller: guest MMIO writes, device lines, the explicit requests of the
  run loop, the EOI exits and the retries of the pending queue.\<close>

datatype ioapic_event =
    Io_Mmio u64 bytes
  | Io_Request u32
  | Io_Set u32 bool
  | Io_Eoi u32
  | Io_Drain
  | Io_Waker

fun ioapic_step :: "hypervisor \<Rightarrow> ioapic \<Rightarrow> ioapic_event \<Rightarrow> ioapic" where
  "ioapic_step deliver s (Io_Mmio addr data) = ioapic_write_mmio deliver s addr data"
| "ioapic_step deliver s (Io_Request irq) = request_irq deliver s irq"
| "ioapic_step deliver s (Io_Set irq level) = set_irq deliver s irq level"
| "ioapic_step deliver s (Io_Eoi vector) = eoi deliver s vector"
| "ioapic_step deliver s Io_Drain = drain_pending deliver s"
| "ioapic_step deliver s Io_Waker = attach_waker s"

lemma write_mmio_ok: "ioapic_ok s \<Longrightarrow> ioapic_ok (ioapic_write_mmio deliver s addr data)"
  using ioapic_ok_frame [of s "s\<lparr>io_selected := ReadU32 ((!) data) 0 AND 0xFF\<rparr>"]
  by (simp add: ioapic_write_mmio_def Let_def write_reg_ok) (simp add: ioapic_ok_def)

interpretation ioapic_run: invariant_machine "ioapic_step deliver" ioapic_ok for deliver
proof
  fix s e
  assume "ioapic_ok s"
  then show "ioapic_ok (ioapic_step deliver s e)"
    by (cases e) (simp_all add: write_mmio_ok request_ok set_irq_ok eoi_ok drain_ok, simp add: attach_waker_def ioapic_ok_def)
qed

text \<open>The interrupts accepted so far in order: those the hypervisor took, then those waiting.\<close>

definition io_log :: "ioapic \<Rightarrow> irq_control list" where
  "io_log s = io_sent s @ io_pending s"

lemma io_log_frame [simp]:
  "io_log (s\<lparr>io_redir := r\<rparr>) = io_log s" "io_log (s\<lparr>io_line := l\<rparr>) = io_log s"
  "io_log (s\<lparr>io_selected := x\<rparr>) = io_log s" "io_log (s\<lparr>io_waker := w\<rparr>) = io_log s"
  by (simp_all add: io_log_def)

lemma drain_loop_log: "io_log (drain_loop_irq deliver s p d) = io_sent s @ p"
  by (induction deliver s p d rule: drain_loop_irq.induct) (auto simp: Let_def io_log_def)

lemma drain_log: "io_log (drain_pending deliver s) = io_log s"
  by (simp add: drain_pending_def drain_loop_log) (simp add: io_log_def)

lemma push_log: "io_log (drain_pending deliver (s\<lparr>io_pending := io_pending s @ [c]\<rparr>)) = io_log s @ [c]"
  by (simp add: drain_log) (simp add: io_log_def)

lemma push_log_redir:
  "io_log (drain_pending deliver (s\<lparr>io_redir := r, io_pending := io_pending s @ [c]\<rparr>)) = io_log s @ [c]"
  by (simp add: drain_log) (simp add: io_log_def)

lemma request_log: "prefix (io_log s) (io_log (request_irq deliver s irq))"
  by (simp add: request_irq_def Let_def push_log push_log_redir)

lemma set_irq_log: "prefix (io_log s) (io_log (set_irq deliver s irq level))"
  using request_log [of "s\<lparr>io_line := (io_line s)[unat irq := True]\<rparr>" deliver irq]
  by (cases level) (simp_all add: set_irq_def Let_def)

lemma eoi_one_log: "prefix (io_log s) (io_log (eoi_one deliver vector i s))"
  using request_log [of "s\<lparr>io_redir := (io_redir s)[i := io_redir s ! i AND NOT kRteRemoteIrr]\<rparr>" deliver "of_nat i"]
  by (simp add: eoi_one_def Let_def)

lemma eoi_log: "prefix (io_log s) (io_log (eoi deliver s vector))"
proof -
  have "prefix (io_log s) (io_log (fold (eoi_one deliver vector) xs s))" for xs
    by (induction xs arbitrary: s) (auto intro: prefix_order.trans eoi_one_log)
  then show ?thesis by (simp add: eoi_def drain_log)
qed

lemma write_reg_log: "prefix (io_log s) (io_log (ioapic_write_reg deliver s reg v))"
proof -
  have "prefix (io_log s) (io_log (if c then request_irq deliver (s\<lparr>io_redir := r\<rparr>) irq else s\<lparr>io_redir := r\<rparr>))" for c r irq
    using request_log [of "s\<lparr>io_redir := r\<rparr>"] by simp
  note one = this
  show ?thesis unfolding ioapic_write_reg_def Let_def by (subst if_split) (intro conjI impI one prefix_order.refl)
qed

lemma ioapic_step_log: "prefix (io_log s) (io_log (ioapic_step deliver s e))"
  by (cases e) (simp_all add: request_log set_irq_log eoi_log attach_waker_def ioapic_write_mmio_def Let_def write_reg_log drain_log)

lemma ioapic_init_ok: "ioapic_ok ioapic_init"
  by (simp add: ioapic_ok_def ioapic_init_def kRteMask_def bit_numeral_rec)

text \<open>Whatever the guest, the devices and the run loop do, and whichever of its calls the hypervisor
  refuses, the redirection table keeps its 24 entries, Remote IRR is only ever set on level-triggered
  entries, at most 65 interrupts wait, and no accepted interrupt is lost, repeated or reordered: the
  sequence of delivered and waiting interrupts only grows at its end.\<close>
theorem ioapic_fifo:
  "ioapic_ok (run (ioapic_step deliver) ioapic_init es) \<and>
   prefix (io_log (run (ioapic_step deliver) ioapic_init es)) (io_log (run (ioapic_step deliver) ioapic_init (es @ fs)))"
proof
  show ok: "ioapic_ok (run (ioapic_step deliver) ioapic_init es)"
    by (rule ioapic_run.run_inv [OF ioapic_init_ok])
  show "prefix (io_log (run (ioapic_step deliver) ioapic_init es)) (io_log (run (ioapic_step deliver) ioapic_init (es @ fs)))"
    unfolding run_append
    by (rule ioapic_run.run_rel [where R = "\<lambda>a b. prefix (io_log a) (io_log b)", OF _ _ _ ok])
      (auto intro: ioapic_step_log prefix_order.trans)
qed

section \<open>The level-triggered handshake\<close>

definition control_of :: "u64 \<Rightarrow> u32 \<Rightarrow> irq_control" where
  "control_of e irq = \<lparr>ic_logical = (e AND kRteDestinationMode \<noteq> 0), ic_level = (e AND kRteTriggerMode \<noteq> 0),
     ic_destination = ucast (drop_bit 56 e AND 0xFF),
     ic_vector = (let v = ucast (e AND kRteVectorMask) in if v = 0 then 0x20 + irq else v)\<rparr>"

lemma request_accepts:
  assumes "irq < 24" and "\<not> masked_entry (io_redir s ! unat irq)" and "level_entry (io_redir s ! unat irq)"
    and "\<not> remote_irr (io_redir s ! unat irq)" and "length (io_pending s) \<le> 64"
  shows "io_log (request_irq deliver s irq) = io_log s @ [control_of (io_redir s ! unat irq) irq]"
    and "io_redir (request_irq deliver s irq) = (io_redir s)[unat irq := io_redir s ! unat irq OR kRteRemoteIrr]"
    and "io_line (request_irq deliver s irq) = io_line s"
    and "length (io_pending (request_irq deliver s irq)) \<le> Suc (length (io_pending s))"
proof -
  have "request_irq deliver s irq = drain_pending deliver (s\<lparr>io_redir := (io_redir s)[unat irq := io_redir s ! unat irq OR kRteRemoteIrr],
      io_pending := io_pending s @ [control_of (io_redir s ! unat irq) irq]\<rparr>)"
    using assms by (simp add: request_irq_def Let_def rte_bits control_of_def vector_for_irq_locked_def not_le not_less)
  then show "io_log (request_irq deliver s irq) = io_log s @ [control_of (io_redir s ! unat irq) irq]"
    and "io_redir (request_irq deliver s irq) = (io_redir s)[unat irq := io_redir s ! unat irq OR kRteRemoteIrr]"
    and "io_line (request_irq deliver s irq) = io_line s"
    and "length (io_pending (request_irq deliver s irq)) \<le> Suc (length (io_pending s))"
    by (simp_all add: push_log_redir ioapic_drain_frame)
      (metis (no_types, lifting) ioapic_drain_frame(3) ioapic.select_convs(4) ioapic.surjective ioapic.update_convs(4) length_append_singleton)
qed

lemma request_in_service:
  "\<lbrakk>remote_irr (io_redir s ! unat irq); level_entry (io_redir s ! unat irq)\<rbrakk> \<Longrightarrow> request_irq deliver s irq = s"
  by (simp add: request_irq_def Let_def rte_bits)

lemma request_again:
  assumes "remote_irr (io_redir s ! unat irq)" and "level_entry (io_redir s ! unat irq)"
  shows "run (ioapic_step deliver) s (replicate n (Io_Request irq)) = s"
  using assms by (induction n) (simp_all add: request_in_service)

text \<open>No other entry in service answers to the vector.\<close>

definition sole_in_service :: "ioapic \<Rightarrow> nat \<Rightarrow> u32 \<Rightarrow> bool" where
  "sole_in_service s i vector \<longleftrightarrow> (\<forall>j < 24. j \<noteq> i \<longrightarrow>
     \<not> (level_entry (io_redir s ! j) \<and> remote_irr (io_redir s ! j) \<and> vector_for_irq_locked s (of_nat j) = vector AND 0xFF))"

lemma unat_small: "i < 24 \<Longrightarrow> unat (of_nat i :: u32) = i"
  by (simp add: unsigned_of_nat take_bit_nat_eq_self)

lemma eoi_skips:
  "\<lbrakk>sole_in_service s i vector; \<forall>j \<in> set js. j < 24 \<and> j \<noteq> i\<rbrakk> \<Longrightarrow> fold (eoi_one deliver vector) js s = s"
  by (induction js) (auto simp: eoi_one_def Let_def sole_in_service_def rte_bits)

lemma eoi_single:
  assumes i: "i < 24" and sole: "sole_in_service s i vector"
    and keep: "\<And>j. j \<noteq> i \<Longrightarrow> io_redir (eoi_one deliver vector i s) ! j = io_redir s ! j"
  shows "eoi deliver s vector = drain_pending deliver (eoi_one deliver vector i s)"
proof -
  have "[0 ..< 24] = [0 ..< i] @ i # [Suc i ..< 24]"
    using i upt_add_eq_append [of 0 i "24 - i"] by (simp add: upt_conv_Cons)
  moreover have "fold (eoi_one deliver vector) [0 ..< i] s = s"
    using i by (intro eoi_skips [OF sole]) auto
  moreover have "sole_in_service (eoi_one deliver vector i s) i vector"
    using sole i by (simp add: sole_in_service_def keep vector_for_irq_locked_def unat_small)
  then have "fold (eoi_one deliver vector) [Suc i ..< 24] (eoi_one deliver vector i s) = eoi_one deliver vector i s"
    by (rule eoi_skips) auto
  ultimately show ?thesis by (simp add: eoi_def)
qed

lemma vector_8bit: "irq < 24 \<Longrightarrow> vector_for_irq_locked s irq AND 0xFF = vector_for_irq_locked s irq"
proof -
  assume "irq < 24"
  then have "unat (0x20 + irq) < 2 ^ 8" by (simp add: unat_word_ariths word_less_nat_alt)
  then have "take_bit 8 (0x20 + irq) = 0x20 + irq" by (rule take_bit_unat_self)
  moreover have "take_bit 8 (ucast (take_bit 8 w) :: u32) = ucast (take_bit 8 (w :: u64))" for w
    by (rule bit_word_eqI) (auto simp: bit_simps)
  ultimately show ?thesis
    by (simp add: vector_for_irq_locked_def kRteVectorMask_def and_mask_8 Let_def)
qed

lemma eoi_one_serviced:
  assumes "i < 24" and "level_entry (io_redir s ! i)" and "remote_irr (io_redir s ! i)" and "\<not> masked_entry (io_redir s ! i)"
    and len: "length (io_redir s) = 24" and room: "length (io_pending s) \<le> 64"
    and vec: "vector_for_irq_locked s (of_nat i) = vector AND 0xFF"
  shows "io_log (eoi_one deliver vector i s) =
      io_log s @ (if io_line s ! i then [control_of (io_redir s ! i AND NOT kRteRemoteIrr) (of_nat i)] else [])"
    and "j \<noteq> i \<Longrightarrow> io_redir (eoi_one deliver vector i s) ! j = io_redir s ! j"
    and "remote_irr (io_redir (eoi_one deliver vector i s) ! i) \<longleftrightarrow> io_line s ! i"
proof -
  define t where "t = s\<lparr>io_redir := (io_redir s)[i := io_redir s ! i AND NOT kRteRemoteIrr]\<rparr>"
  have ti: "io_redir t ! i = io_redir s ! i AND NOT kRteRemoteIrr" using len \<open>i < 24\<close> by (simp add: t_def)
  have step: "eoi_one deliver vector i s = (if io_line s ! i then request_irq deliver t (of_nat i) else t)"
    using assms ti by (simp add: eoi_one_def Let_def rte_bits rte_set t_def)
  have small: "unat (of_nat i :: u32) = i" "(of_nat i :: u32) < 24"
    using \<open>i < 24\<close> by (simp_all add: unat_small word_less_nat_alt)
  have "length (io_pending t) \<le> 64" "\<not> masked_entry (io_redir t ! i)" "level_entry (io_redir t ! i)" "\<not> remote_irr (io_redir t ! i)"
    using assms by (simp_all add: ti rte_set) (simp add: t_def)
  note acc = request_accepts [of "of_nat i" t deliver, unfolded small(1), OF small(2) this(2,3,4,1)]
  show "io_log (eoi_one deliver vector i s) =
      io_log s @ (if io_line s ! i then [control_of (io_redir s ! i AND NOT kRteRemoteIrr) (of_nat i)] else [])"
    unfolding step using acc(1) ti by (simp add: t_def)
  show "j \<noteq> i \<Longrightarrow> io_redir (eoi_one deliver vector i s) ! j = io_redir s ! j"
    unfolding step using acc(2) by (simp add: t_def)
  show "remote_irr (io_redir (eoi_one deliver vector i s) ! i) \<longleftrightarrow> io_line s ! i"
    unfolding step using acc(2) len \<open>i < 24\<close> ti by (simp add: rte_set) (simp add: t_def rte_set)
qed

lemma service_vector:
  assumes "io_redir w ! unat irq = e OR kRteRemoteIrr" and "irq < 24"
  shows "vector_for_irq_locked w irq = ic_vector (control_of e irq) AND 0xFF"
proof -
  have "take_bit 8 (e OR kRteRemoteIrr) = take_bit 8 e"
    by (rule bit_word_eqI) (auto simp: bit_take_bit_iff bit_or_iff bit_kRteRemoteIrr)
  then have "vector_for_irq_locked w irq = ic_vector (control_of e irq)"
    by (simp add: vector_for_irq_locked_def control_of_def assms(1) kRteVectorMask_def and_mask_8)
  then show ?thesis using vector_8bit [OF assms(2), of w] by simp
qed

lemma irr_set_clear: "\<not> remote_irr e \<Longrightarrow> (e OR kRteRemoteIrr) AND NOT kRteRemoteIrr = e"
  by (rule bit_word_eqI) (auto simp: rte_set)

text \<open>The state that raising the line of an idle level entry leaves: one interrupt accepted, the entry in
  service, the line high.\<close>
lemma set_irq_idle:
  assumes ok: "ioapic_ok s" and irq: "irq < 24" and room: "length (io_pending s) < 64"
    and e: "e = io_redir s ! unat irq" and entry: "level_entry e" "\<not> masked_entry e" "\<not> remote_irr e"
    and u: "u = set_irq deliver s irq True"
  shows "io_log u = io_log s @ [control_of e irq]" and "io_redir u = (io_redir s)[unat irq := e OR kRteRemoteIrr]"
    and "io_line u = (io_line s)[unat irq := True]" and "length (io_pending u) \<le> 64"
proof -
  define t where "t = s\<lparr>io_line := (io_line s)[unat irq := True]\<rparr>"
  have req: "\<not> masked_entry (io_redir t ! unat irq)" "level_entry (io_redir t ! unat irq)"
      "\<not> remote_irr (io_redir t ! unat irq)" "length (io_pending t) \<le> 64"
    using entry e room by (simp_all add: t_def)
  note acc = request_accepts [of irq t deliver, OF irq req]
  have u: "u = request_irq deliver t irq" using irq by (simp add: u set_irq_def t_def not_le)
  show "io_log u = io_log s @ [control_of e irq]" using acc(1) by (simp add: u) (simp add: t_def e)
  show "io_redir u = (io_redir s)[unat irq := e OR kRteRemoteIrr]" using acc(2) by (simp add: u t_def e)
  show "io_line u = (io_line s)[unat irq := True]" using acc(3) by (simp add: u) (simp add: t_def)
  show "length (io_pending u) \<le> 64" using acc(4) room by (simp add: u t_def)
qed

text \<open>An EOI while the entry is in service: it is accepted again exactly when the line is high.\<close>
lemma eoi_in_service:
  assumes irq: "irq < 24" and len: "length (io_redir w) = 24" and pend: "length (io_pending w) \<le> 64"
    and entry: "level_entry e" "\<not> masked_entry e" "\<not> remote_irr e" and wi: "io_redir w ! unat irq = e OR kRteRemoteIrr"
    and sole: "sole_in_service w (unat irq) (ic_vector (control_of e irq))"
  shows "io_log (eoi deliver w (ic_vector (control_of e irq))) = io_log w @ (if io_line w ! unat irq then [control_of e irq] else [])"
    and "remote_irr (io_redir (eoi deliver w (ic_vector (control_of e irq))) ! unat irq) \<longleftrightarrow> io_line w ! unat irq"
proof -
  let ?i = "unat irq" and ?v = "ic_vector (control_of e irq)"
  have i: "?i < 24" using irq by (simp add: word_less_nat_alt)
  have a: "level_entry (io_redir w ! ?i)" "remote_irr (io_redir w ! ?i)" "\<not> masked_entry (io_redir w ! ?i)"
      "length (io_redir w) = 24" "length (io_pending w) \<le> 64" "vector_for_irq_locked w (of_nat ?i) = ?v AND 0xFF"
    using entry pend len service_vector [of w irq e] irq wi by (simp_all add: rte_set)
  note one = eoi_one_serviced [OF i a]
  have eoi: "eoi deliver w ?v = drain_pending deliver (eoi_one deliver ?v ?i w)" by (rule eoi_single [OF i sole one(2)])
  show "io_log (eoi deliver w ?v) = io_log w @ (if io_line w ! ?i then [control_of e irq] else [])"
    using one(1) [of deliver] by (simp add: eoi drain_log wi irr_set_clear entry(3))
  show "remote_irr (io_redir (eoi deliver w ?v) ! ?i) \<longleftrightarrow> io_line w ! ?i"
    using one(3) by (simp add: eoi ioapic_drain_frame)
qed

text \<open>C18. The level-triggered handshake. Raising the line of an unmasked, idle level entry accepts exactly one
  interrupt with the vector, destination and mode of the entry. Any number of further requests before the
  EOI accept nothing. An EOI for the vector accepts the interrupt once more when the line is still high;
  when the device lowered the line first it accepts nothing and leaves the entry idle.\<close>
theorem ioapic_level_handshake:
  assumes ok: "ioapic_ok s" and irq: "irq < 24" and room: "length (io_pending s) < 64"
    and e: "e = io_redir s ! unat irq" and entry: "level_entry e" "\<not> masked_entry e" "\<not> remote_irr e"
    and sole: "sole_in_service s (unat irq) (ic_vector (control_of e irq))"
    and s1: "s1 = run (ioapic_step deliver) s (Io_Set irq True # replicate n (Io_Request irq))"
  shows "io_log s1 = io_log s @ [control_of e irq] \<and>
    io_log (eoi deliver s1 (ic_vector (control_of e irq))) = io_log s @ [control_of e irq, control_of e irq] \<and>
    io_log (eoi deliver (set_irq deliver s1 irq False) (ic_vector (control_of e irq))) = io_log s @ [control_of e irq] \<and>
    \<not> remote_irr (io_redir (eoi deliver (set_irq deliver s1 irq False) (ic_vector (control_of e irq))) ! unat irq)"
proof -
  define u where "u = set_irq deliver s irq True"
  note up = set_irq_idle [OF ok irq room e entry u_def]
  have i: "unat irq < 24" using irq by (simp add: word_less_nat_alt)
  have len: "length (io_redir u) = 24" "length (io_line u) = 24" using ok by (simp_all add: up ioapic_ok_def)
  have ui: "io_redir u ! unat irq = e OR kRteRemoteIrr" "io_line u ! unat irq" using len i by (simp_all add: up)
  have s1u: "s1 = u" using entry by (simp add: s1 u_def [symmetric] request_again ui rte_set)
  define w where "w = u\<lparr>io_line := (io_line u)[unat irq := False]\<rparr>"
  have low: "set_irq deliver s1 irq False = w" using irq by (simp add: set_irq_def s1u w_def not_le)
  have w: "io_redir w = io_redir u" "io_pending w = io_pending u" "\<not> io_line w ! unat irq" "io_log w = io_log u"
    using i len by (simp_all add: w_def)
  have sole': "sole_in_service x (unat irq) (ic_vector (control_of e irq))" if "io_redir x = io_redir u" for x
    using sole by (simp add: sole_in_service_def that up vector_for_irq_locked_def unat_small)
  note high = eoi_in_service [OF irq len(1) up(4) entry ui(1) sole' [OF refl]]
  note down = eoi_in_service [of irq w e, OF irq _ _ entry _ sole' [OF w(1)], unfolded w(1,2), OF len(1) up(4) ui(1)]
  show ?thesis using high down up(1) ui(2) w(3,4) by (simp add: s1u low [unfolded s1u])
qed

lemma idle_entry_5: "level_entry 0x800C" "\<not> masked_entry 0x800C" "\<not> remote_irr 0x800C"
  by (simp_all add: bit_numeral_rec)

lemma idle_state_5:
  "ioapic_ok (ioapic_init\<lparr>io_redir := (replicate 24 kRteMask)[5 := 0x800C]\<rparr>)"
  "sole_in_service (ioapic_init\<lparr>io_redir := (replicate 24 kRteMask)[5 := 0x800C]\<rparr>) 5 v"
  using ioapic_ok_entry [OF ioapic_init_ok, of "0x800C" 5]
  by (simp add: idle_entry_5 ioapic_init_def)
    (simp add: sole_in_service_def ioapic_init_def kRteMask_def bit_numeral_rec)

theorem ioapic_level_handshake_witness:
  "\<exists>s. level_entry (io_redir s ! 5) \<and>
    io_log (run (ioapic_step (\<lambda>_ _. True)) s [Io_Set 5 True, Io_Request 5, Io_Request 5]) = io_log s @ [control_of 0x800C 5]"
proof -
  let ?s = "ioapic_init\<lparr>io_redir := (replicate 24 kRteMask)[5 := 0x800C]\<rparr>"
  have "io_log (run (ioapic_step (\<lambda>_ _. True)) ?s (Io_Set 5 True # replicate 2 (Io_Request 5))) = io_log ?s @ [control_of 0x800C 5]"
    by (rule ioapic_level_handshake [THEN conjunct1]) (simp_all add: idle_state_5 idle_entry_5, simp_all add: ioapic_init_def)
  then show ?thesis using idle_entry_5
    by (intro exI [of _ ?s]) (simp add: numeral_2_eq_2 ioapic_init_def)
qed

end
