(* ===== verification/Irq.thy ===== *)
theory Irq
  imports Bytes
begin

unbundle bit_operations_syntax

text \<open>
  The per-vCPU delivery of external interrupts (native/whp/irq.h, irq.cc) and the places of the vCPU
  loop that drive it (native/whp/backend.cc). The hypervisor platform is a parameter: \<open>vp_api\<close> holds
  its calls WHvGetVirtualProcessorRegisters, WHvSetVirtualProcessorRegisters and WHvRequestInterrupt on
  an abstract state \<open>'p\<close>; a call may fail. What the delivery relies on is \<open>vp_laws\<close>. Debug output is
  left out.
\<close>

datatype reg_name = Rflags | InterruptState | PendingEvent | DeliverabilityNotifications | InternalActivityState

text \<open>The kinds of pending event: exceptions, and the one the code sets.\<close>

datatype event_type = WHvX64PendingEventException | WHvX64PendingEventExtInt

text \<open>The members of the union WHV_REGISTER_VALUE that the code uses.\<close>

datatype reg_value =
    Reg64 u64
  | InterruptStateV bool
  | ExtIntEvent bool event_type u32
  | DeliverabilityV bool
  | InternalActivity bool bool bool

record fixed_interrupt =
  fi_logical :: bool
  fi_level :: bool
  fi_destination :: u32
  fi_vector :: u32

record 'p vp_api =
  get_vp_registers :: "'p \<Rightarrow> u32 \<Rightarrow> reg_name list \<Rightarrow> reg_value list option"
  set_vp_registers :: "'p \<Rightarrow> u32 \<Rightarrow> reg_name \<Rightarrow> reg_value \<Rightarrow> bool \<times> 'p"
  request_interrupt :: "'p \<Rightarrow> fixed_interrupt \<Rightarrow> bool \<times> 'p"

record irq_state =
  iq_index :: u32
  interruptable :: bool
  interrupt_flag :: bool
  interruption_pending :: bool
  ready_for_pic_interrupt :: bool
  window_registered :: bool
  ext_int_pending :: bool
  ext_int_vector :: u32

definition irq_state_init :: "u32 \<Rightarrow> irq_state" where
  "irq_state_init i = \<lparr>iq_index = i, interruptable = True, interrupt_flag = True, interruption_pending = False,
     ready_for_pic_interrupt = False, window_registered = False, ext_int_pending = False, ext_int_vector = 0\<rparr>"

record snapshot =
  if_set :: bool
  shadow :: bool
  event_pending :: bool

record exit_context =
  xc_interruption_pending :: bool
  xc_interrupt_shadow :: bool
  xc_rflags :: u64

definition RequestFixedInterrupt :: "'p vp_api \<Rightarrow> 'p \<Rightarrow> u32 \<Rightarrow> bool \<times> 'p" where
  "RequestFixedInterrupt api p vector =
    request_interrupt api p \<lparr>fi_logical = False, fi_level = False, fi_destination = 0, fi_vector = vector\<rparr>"

fun value_reg64 :: "reg_value \<Rightarrow> u64" where
  "value_reg64 (Reg64 v) = v"
| "value_reg64 _ = 0"

fun value_shadow :: "reg_value \<Rightarrow> bool" where
  "value_shadow (InterruptStateV b) = b"
| "value_shadow _ = False"

fun value_event_pending :: "reg_value \<Rightarrow> bool" where
  "value_event_pending (ExtIntEvent b _ _) = b"
| "value_event_pending _ = False"

definition ReadInterruptibility :: "'p vp_api \<Rightarrow> 'p \<Rightarrow> u32 \<Rightarrow> snapshot \<Rightarrow> bool \<times> snapshot" where
  "ReadInterruptibility api p vp_index out =
    (case get_vp_registers api p vp_index [Rflags, InterruptState, PendingEvent] of
       None \<Rightarrow> (False, out)
     | Some values \<Rightarrow>
         (True, \<lparr>if_set = value_reg64 (values ! 0) AND 0x200 \<noteq> 0, shadow = value_shadow (values ! 1),
            event_pending = value_event_pending (values ! 2)\<rparr>))"

definition SetPendingExtInt :: "'p vp_api \<Rightarrow> 'p \<Rightarrow> u32 \<Rightarrow> u32 \<Rightarrow> bool \<times> 'p" where
  "SetPendingExtInt api p vp_index vector =
    set_vp_registers api p vp_index PendingEvent (ExtIntEvent True WHvX64PendingEventExtInt (vector AND 0xFF))"

definition ArmInterruptWindow :: "'p vp_api \<Rightarrow> 'p \<Rightarrow> irq_state \<Rightarrow> 'p \<times> irq_state" where
  "ArmInterruptWindow api p vcpu =
    (if window_registered vcpu then (p, vcpu)
     else case set_vp_registers api p (iq_index vcpu) DeliverabilityNotifications (DeliverabilityV True) of
       (hr, p') \<Rightarrow> (p', if hr then vcpu\<lparr>window_registered := True\<rparr> else vcpu))"

definition DisarmInterruptWindow :: "'p vp_api \<Rightarrow> 'p \<Rightarrow> irq_state \<Rightarrow> 'p \<times> irq_state" where
  "DisarmInterruptWindow api p vcpu =
    (if \<not> window_registered vcpu then (p, vcpu)
     else (snd (set_vp_registers api p (iq_index vcpu) DeliverabilityNotifications (DeliverabilityV False)),
           vcpu\<lparr>window_registered := False\<rparr>))"

definition UpdateVcpuFromExit :: "irq_state \<Rightarrow> exit_context \<Rightarrow> irq_state" where
  "UpdateVcpuFromExit vcpu ctx =
    vcpu\<lparr>interruption_pending := xc_interruption_pending ctx, interruptable := \<not> xc_interrupt_shadow ctx,
      interrupt_flag := xc_rflags ctx AND 0x200 \<noteq> 0\<rparr>"

definition KickVcpuOutOfHlt :: "'p vp_api \<Rightarrow> 'p \<Rightarrow> u32 \<Rightarrow> 'p" where
  "KickVcpuOutOfHlt api p vp_index =
    (case get_vp_registers api p vp_index [InternalActivityState] of
       None \<Rightarrow> p
     | Some values \<Rightarrow>
         (case values ! 0 of
            InternalActivity startup True idle \<Rightarrow>
              snd (set_vp_registers api p vp_index InternalActivityState (InternalActivity startup False idle))
          | _ \<Rightarrow> p))"

datatype InjectDecision = kNoPending | kInject | kArmWindow

definition EvaluateInjectDecision :: "irq_state \<Rightarrow> InjectDecision" where
  "EvaluateInjectDecision vcpu =
    (if \<not> ext_int_pending vcpu then kNoPending
     else if ready_for_pic_interrupt vcpu \<and> interruptable vcpu \<and> interrupt_flag vcpu \<and> \<not> interruption_pending vcpu
     then kInject else kArmWindow)"

definition TryDeliverPendingExtInt :: "'p vp_api \<Rightarrow> 'p \<Rightarrow> irq_state \<Rightarrow> bool \<times> 'p \<times> irq_state" where
  "TryDeliverPendingExtInt api p vcpu =
    (case EvaluateInjectDecision vcpu of
       kNoPending \<Rightarrow> (True, p, vcpu)
     | decision \<Rightarrow>
         (let (hr, p) = (if decision = kInject then SetPendingExtInt api p (iq_index vcpu) (ext_int_vector vcpu) else (False, p))
          in if hr
             then (let vcpu = vcpu\<lparr>ext_int_pending := False, ready_for_pic_interrupt := False\<rparr>;
                       p = KickVcpuOutOfHlt api p (iq_index vcpu)
                   in (True, DisarmInterruptWindow api p vcpu))
             else (False, ArmInterruptWindow api p vcpu)))"

section \<open>The handlers of the vCPU loop that deliver interrupts\<close>

text \<open>The 8259A fallback of the UART and timer interrupt raisers.\<close>

definition raise_extint :: "irq_state \<Rightarrow> u32 \<Rightarrow> irq_state" where
  "raise_extint bsp vector = bsp\<lparr>ext_int_vector := vector, ext_int_pending := True\<rparr>"

definition halt_exit :: "'p vp_api \<Rightarrow> 'p \<Rightarrow> irq_state \<Rightarrow> 'p \<times> irq_state" where
  "halt_exit api p vcpu =
    (let vcpu = vcpu\<lparr>ready_for_pic_interrupt := interruptable vcpu \<and> interrupt_flag vcpu\<rparr>
     in if ext_int_pending vcpu then snd (TryDeliverPendingExtInt api p vcpu) else (p, vcpu))"

definition window_exit :: "'p vp_api \<Rightarrow> 'p \<Rightarrow> irq_state \<Rightarrow> 'p \<times> irq_state" where
  "window_exit api p vcpu =
    (let vcpu = vcpu\<lparr>ready_for_pic_interrupt := interruptable vcpu \<and> interrupt_flag vcpu, window_registered := False\<rparr>
     in if ext_int_pending vcpu then snd (TryDeliverPendingExtInt api p vcpu) else (p, vcpu))"

text \<open>The events of the boot processor: a device raises a vector, the pre-run pass, and the return of
  run_vp with a new hypervisor state and an exit context.\<close>

datatype 'p irq_event =
    Raise u32
  | Pre_Run
  | Exit_Halt 'p exit_context
  | Exit_Window 'p exit_context
  | Exit_Other 'p exit_context

fun irq_step :: "'p vp_api \<Rightarrow> 'p \<times> irq_state \<Rightarrow> 'p irq_event \<Rightarrow> 'p \<times> irq_state" where
  "irq_step api (p, vcpu) (Raise vector) = (p, raise_extint vcpu vector)"
| "irq_step api (p, vcpu) Pre_Run = snd (TryDeliverPendingExtInt api p vcpu)"
| "irq_step api (p, vcpu) (Exit_Halt p' ctx) = halt_exit api p' (UpdateVcpuFromExit vcpu ctx)"
| "irq_step api (p, vcpu) (Exit_Window p' ctx) = window_exit api p' (UpdateVcpuFromExit vcpu ctx)"
| "irq_step api (p, vcpu) (Exit_Other p' ctx) = (p', UpdateVcpuFromExit vcpu ctx)"

section \<open>What the hypervisor promises\<close>

text \<open>An accepted write of a register is what a later read returns, and no write changes another
  register.\<close>

definition vp_laws :: "'p vp_api \<Rightarrow> bool" where
  "vp_laws api \<longleftrightarrow> (\<forall>p i n v hr p'. set_vp_registers api p i n v = (hr, p') \<longrightarrow>
     (hr \<longrightarrow> get_vp_registers api p' i [n] = Some [v]) \<and>
     (\<forall>m. m \<noteq> n \<longrightarrow> get_vp_registers api p' i [m] = get_vp_registers api p i [m]))"

abbreviation reg_is :: "'p vp_api \<Rightarrow> 'p \<Rightarrow> u32 \<Rightarrow> reg_name \<Rightarrow> reg_value \<Rightarrow> bool" where
  "reg_is api p i n v \<equiv> get_vp_registers api p i [n] = Some [v]"

lemma set_reg_same: "\<lbrakk>vp_laws api; set_vp_registers api p i n v = (True, p')\<rbrakk> \<Longrightarrow> reg_is api p' i n v"
  by (simp add: vp_laws_def)

lemma set_reg_other:
  "\<lbrakk>vp_laws api; m \<noteq> n\<rbrakk> \<Longrightarrow> get_vp_registers api (snd (set_vp_registers api p i n v)) i [m] = get_vp_registers api p i [m]"
  unfolding vp_laws_def by (metis prod.collapse)

lemma Kick_other:
  "\<lbrakk>vp_laws api; m \<noteq> InternalActivityState\<rbrakk> \<Longrightarrow> get_vp_registers api (KickVcpuOutOfHlt api p i) i [m] = get_vp_registers api p i [m]"
  by (auto simp: KickVcpuOutOfHlt_def set_reg_other split: option.split reg_value.split bool.split)

lemma Disarm_other:
  "\<lbrakk>vp_laws api; m \<noteq> DeliverabilityNotifications\<rbrakk> \<Longrightarrow>
   get_vp_registers api (fst (DisarmInterruptWindow api p v)) (iq_index v) [m] = get_vp_registers api p (iq_index v) [m]"
  by (simp add: DisarmInterruptWindow_def set_reg_other)

lemma Arm_other:
  "\<lbrakk>vp_laws api; m \<noteq> DeliverabilityNotifications\<rbrakk> \<Longrightarrow>
   get_vp_registers api (fst (ArmInterruptWindow api p v)) (iq_index v) [m] = get_vp_registers api p (iq_index v) [m]"
  using set_reg_other [of api m DeliverabilityNotifications p "iq_index v" "DeliverabilityV True"]
  by (auto simp: ArmInterruptWindow_def split: prod.split)

definition deliverable :: "irq_state \<Rightarrow> bool" where
  "deliverable v \<longleftrightarrow> ready_for_pic_interrupt v \<and> interruptable v \<and> interrupt_flag v \<and> \<not> interruption_pending v"

abbreviation ext_event :: "u32 \<Rightarrow> reg_value" where
  "ext_event vector \<equiv> ExtIntEvent True WHvX64PendingEventExtInt (vector AND 0xFF)"

lemma Arm_keeps:
  "ext_int_pending (snd (ArmInterruptWindow api p v)) = ext_int_pending v"
  "ext_int_vector (snd (ArmInterruptWindow api p v)) = ext_int_vector v"
  "iq_index (snd (ArmInterruptWindow api p v)) = iq_index v"
  by (simp_all add: ArmInterruptWindow_def split: prod.split)

lemma Disarm_keeps:
  "ext_int_pending (snd (DisarmInterruptWindow api p v)) = ext_int_pending v"
  "ready_for_pic_interrupt (snd (DisarmInterruptWindow api p v)) = ready_for_pic_interrupt v"
  "iq_index (snd (DisarmInterruptWindow api p v)) = iq_index v"
  "\<not> window_registered (snd (DisarmInterruptWindow api p v))"
  by (simp_all add: DisarmInterruptWindow_def)

text \<open>A hypervisor that accepts every register access of the processor.\<close>

definition accepts :: "'p vp_api \<Rightarrow> u32 \<Rightarrow> bool" where
  "accepts api i \<longleftrightarrow> (\<forall>p n v. fst (set_vp_registers api p i n v))"

lemma accepts_set: "accepts api i \<Longrightarrow> set_vp_registers api p i n v = (hr, p') \<Longrightarrow> hr"
  unfolding accepts_def by (metis fst_conv)

lemma Kick_running:
  assumes "vp_laws api" and "accepts api i"
  shows "\<not> reg_is api (KickVcpuOutOfHlt api p i) i InternalActivityState (InternalActivity a True b)"
proof -
  have wrote: "reg_is api (snd (set_vp_registers api p i n v)) i n v" for n v
    using assms(2) set_reg_same [OF assms(1), of p i n v] by (cases "set_vp_registers api p i n v") (auto dest: accepts_set)
  show ?thesis
  proof (cases "\<exists>vs c d. get_vp_registers api p i [InternalActivityState] = Some vs \<and> vs ! 0 = InternalActivity c True d")
    case True
    then show ?thesis using wrote by (auto simp: KickVcpuOutOfHlt_def)
  next
    case False
    then have "KickVcpuOutOfHlt api p i = p"
      by (auto simp: KickVcpuOutOfHlt_def split: option.split reg_value.split bool.split)
    then show ?thesis using False by auto
  qed
qed

lemma TryDeliver_idle: "\<not> ext_int_pending v \<Longrightarrow> TryDeliverPendingExtInt api p v = (True, p, v)"
  by (simp add: TryDeliverPendingExtInt_def EvaluateInjectDecision_def)

lemma TryDeliver_pending:
  assumes "ext_int_pending v"
  shows "TryDeliverPendingExtInt api p v =
    (case if deliverable v then SetPendingExtInt api p (iq_index v) (ext_int_vector v) else (False, p) of (hr, q) \<Rightarrow>
       if hr then (True, DisarmInterruptWindow api (KickVcpuOutOfHlt api q (iq_index v))
                     (v\<lparr>ext_int_pending := False, ready_for_pic_interrupt := False\<rparr>))
       else (False, ArmInterruptWindow api q v))"
  using assms
  by (simp add: TryDeliverPendingExtInt_def EvaluateInjectDecision_def deliverable_def Let_def split: prod.split)

text \<open>The two outcomes for a pending interrupt.\<close>

lemma TryDeliver_outcome:
  assumes laws: "vp_laws api" and pend: "ext_int_pending v" and res: "TryDeliverPendingExtInt api p v = (ok, p', v')"
  obtains (injected) q where "ok" "deliverable v" "SetPendingExtInt api p (iq_index v) (ext_int_vector v) = (True, q)"
      "p' = fst (DisarmInterruptWindow api (KickVcpuOutOfHlt api q (iq_index v)) (v\<lparr>ext_int_pending := False, ready_for_pic_interrupt := False\<rparr>))"
      "v' = snd (DisarmInterruptWindow api (KickVcpuOutOfHlt api q (iq_index v)) (v\<lparr>ext_int_pending := False, ready_for_pic_interrupt := False\<rparr>))"
  | (deferred) q where "\<not> ok" "deliverable v \<longrightarrow> SetPendingExtInt api p (iq_index v) (ext_int_vector v) = (False, q)"
      "p' = fst (ArmInterruptWindow api q v)" "v' = snd (ArmInterruptWindow api q v)"
proof -
  obtain hr q where q: "(if deliverable v then SetPendingExtInt api p (iq_index v) (ext_int_vector v) else (False, p)) = (hr, q)"
    by (cases "if deliverable v then SetPendingExtInt api p (iq_index v) (ext_int_vector v) else (False, p)")
  show thesis
  proof (cases hr)
    case True
    then show thesis using res q TryDeliver_pending [OF pend, of api p] by (intro injected [of q]) (auto split: if_splits)
  next
    case False
    then show thesis using res q TryDeliver_pending [OF pend, of api p] by (intro deferred [of q]) (auto split: if_splits)
  qed
qed

lemma injected_event:
  assumes laws: "vp_laws api" and "SetPendingExtInt api p (iq_index v) vec = (True, q)"
    and "iq_index w = iq_index v"
  shows "reg_is api (fst (DisarmInterruptWindow api (KickVcpuOutOfHlt api q (iq_index v)) w)) (iq_index v) PendingEvent (ext_event vec)"
proof -
  have "reg_is api q (iq_index v) PendingEvent (ext_event vec)"
    using assms(2) unfolding SetPendingExtInt_def by (rule set_reg_same [OF laws])
  then show ?thesis using Disarm_other [OF laws, of PendingEvent "KickVcpuOutOfHlt api q (iq_index v)" w]
    by (simp add: assms(3) Kick_other [OF laws])
qed


lemma UpdateVcpu_keeps [simp]:
  "ext_int_pending (UpdateVcpuFromExit v ctx) = ext_int_pending v"
  "ext_int_vector (UpdateVcpuFromExit v ctx) = ext_int_vector v"
  "iq_index (UpdateVcpuFromExit v ctx) = iq_index v"
  by (simp_all add: UpdateVcpuFromExit_def)

text \<open>What one delivery attempt may do to a pending request.\<close>

definition kept_or_injected :: "'p vp_api \<Rightarrow> irq_state \<Rightarrow> 'p \<times> irq_state \<Rightarrow> bool" where
  "kept_or_injected api v r \<longleftrightarrow> iq_index (snd r) = iq_index v \<and>
     (if ext_int_pending (snd r) then ext_int_vector (snd r) = ext_int_vector v
      else reg_is api (fst r) (iq_index v) PendingEvent (ext_event (ext_int_vector v)))"

lemma TryDeliver_kept:
  assumes "vp_laws api" and "ext_int_pending v"
  shows "kept_or_injected api v (snd (TryDeliverPendingExtInt api p v))"
proof -
  obtain ok p' v' where r: "TryDeliverPendingExtInt api p v = (ok, p', v')" by (cases "TryDeliverPendingExtInt api p v")
  from assms r show ?thesis
  proof (cases rule: TryDeliver_outcome)
    case (injected q)
    then show ?thesis using r injected_event [OF assms(1) injected(3)]
      by (simp add: kept_or_injected_def Disarm_keeps)
  next
    case (deferred q)
    then show ?thesis using r assms(2) by (simp add: kept_or_injected_def Arm_keeps)
  qed
qed

lemma irq_step_kept:
  assumes "vp_laws api" and "ext_int_pending v" and "\<forall>vec. e \<noteq> Raise vec"
  shows "kept_or_injected api v (irq_step api (p, v) e)"
proof -
  have cong: "kept_or_injected api v r \<longleftrightarrow> kept_or_injected api w r"
    if "iq_index w = iq_index v" "ext_int_vector w = ext_int_vector v" for w r
    using that by (simp add: kept_or_injected_def)
  let ?u = "\<lambda>ctx. UpdateVcpuFromExit v ctx"
  show ?thesis
  proof (cases e)
    case (Exit_Halt q ctx)
    let ?w = "?u ctx\<lparr>ready_for_pic_interrupt := interruptable (?u ctx) \<and> interrupt_flag (?u ctx)\<rparr>"
    show ?thesis using assms(2) TryDeliver_kept [OF assms(1), of ?w q] cong [of ?w]
      by (simp add: Exit_Halt halt_exit_def Let_def)
  next
    case (Exit_Window q ctx)
    let ?w = "?u ctx\<lparr>ready_for_pic_interrupt := interruptable (?u ctx) \<and> interrupt_flag (?u ctx), window_registered := False\<rparr>"
    show ?thesis using assms(2) TryDeliver_kept [OF assms(1), of ?w q] cong [of ?w]
      by (simp add: Exit_Window window_exit_def Let_def)
  qed (use assms TryDeliver_kept [OF assms(1,2)] in \<open>simp_all add: kept_or_injected_def\<close>)
qed

text \<open>An exit context in which the guest takes external interrupts.\<close>

definition open_exit :: "exit_context \<Rightarrow> bool" where
  "open_exit ctx \<longleftrightarrow> \<not> xc_interruption_pending ctx \<and> \<not> xc_interrupt_shadow ctx \<and> xc_rflags ctx AND 0x200 \<noteq> 0"

lemma TryDeliver_now:
  assumes "vp_laws api" and "accepts api (iq_index v)" and "deliverable v"
  shows "\<not> ext_int_pending (snd (snd (TryDeliverPendingExtInt api p v)))"
proof (cases "ext_int_pending v")
  case True
  obtain ok p' v' where r: "TryDeliverPendingExtInt api p v = (ok, p', v')" by (cases "TryDeliverPendingExtInt api p v")
  from assms(1) True r show ?thesis
  proof (cases rule: TryDeliver_outcome)
    case (injected q)
    then show ?thesis using r by (simp add: Disarm_keeps)
  next
    case (deferred q)
    then show ?thesis using assms accepts_set by (fastforce simp: SetPendingExtInt_def)
  qed
qed (simp add: TryDeliver_idle)

lemma open_exit_delivers:
  assumes "vp_laws api" and "accepts api (iq_index v)" and "open_exit ctx" and "e = Exit_Halt q ctx \<or> e = Exit_Window q ctx"
  shows "\<not> ext_int_pending (snd (irq_step api (p, v) e))"
proof -
  let ?u = "UpdateVcpuFromExit v ctx"
  have "deliverable (?u\<lparr>ready_for_pic_interrupt := interruptable ?u \<and> interrupt_flag ?u\<rparr>)"
    "deliverable (?u\<lparr>ready_for_pic_interrupt := interruptable ?u \<and> interrupt_flag ?u, window_registered := False\<rparr>)"
    using assms(3) by (simp_all add: deliverable_def UpdateVcpuFromExit_def open_exit_def)
  note now = this [THEN TryDeliver_now [OF assms(1), rotated]]
  show ?thesis using assms(2,4) now by (auto simp: halt_exit_def window_exit_def Let_def split: if_splits)
qed

definition not_raise :: "'p irq_event \<Rightarrow> bool" where
  "not_raise e \<longleftrightarrow> (\<forall>vec. e \<noteq> Raise vec)"

lemma run_injects:
  assumes laws: "vp_laws api" and "ext_int_pending (snd s)" and "\<forall>e \<in> set es. not_raise e"
    and "\<not> ext_int_pending (snd (run (irq_step api) s es))"
  shows "\<exists>xs x ys. es = xs @ x # ys \<and> ext_int_pending (snd (run (irq_step api) s xs)) \<and>
     \<not> ext_int_pending (snd (run (irq_step api) s (xs @ [x]))) \<and>
     reg_is api (fst (run (irq_step api) s (xs @ [x]))) (iq_index (snd s)) PendingEvent (ext_event (ext_int_vector (snd s)))"
  using assms(2-4)
proof (induction es arbitrary: s)
  case (Cons e es)
  obtain p v where s: "s = (p, v)" by (cases s)
  define r where "r = irq_step api s e"
  have kept: "kept_or_injected api v r"
    using irq_step_kept [OF laws, of v e p] Cons.prems by (simp add: not_raise_def s r_def)
  show ?case
  proof (cases "ext_int_pending (snd r)")
    case True
    then have "iq_index (snd r) = iq_index v" "ext_int_vector (snd r) = ext_int_vector v"
      using kept by (simp_all add: kept_or_injected_def)
    moreover obtain xs x ys where "es = xs @ x # ys" "ext_int_pending (snd (run (irq_step api) r xs))"
        "\<not> ext_int_pending (snd (run (irq_step api) r (xs @ [x])))"
        "reg_is api (fst (run (irq_step api) r (xs @ [x]))) (iq_index (snd r)) PendingEvent (ext_event (ext_int_vector (snd r)))"
      using Cons.IH [OF True] Cons.prems by (auto simp: r_def)
    ultimately show ?thesis using s by (intro exI [of _ "e # xs"] exI [of _ x] exI [of _ ys]) (simp add: r_def)
  next
    case False
    then show ?thesis using kept Cons.prems s
      by (intro exI [of _ "[]"] exI [of _ e] exI [of _ es]) (simp add: kept_or_injected_def r_def)
  qed
qed simp

lemma run_index: "iq_index (snd (run (irq_step api) s es)) = iq_index (snd s)"
proof (induction es arbitrary: s)
  case (Cons e es)
  have "iq_index (snd (snd (TryDeliverPendingExtInt api p v))) = iq_index v" for p v
    by (cases "ext_int_pending v") (simp_all add: TryDeliver_idle TryDeliver_pending Arm_keeps Disarm_keeps split: prod.split)
  then have "iq_index (snd (irq_step api s e)) = iq_index (snd s)"
    by (cases s; cases e) (simp_all add: raise_extint_def halt_exit_def window_exit_def Let_def)
  then show ?case using Cons.IH by simp
qed simp

text \<open>The request is a single slot: a vector raised while another is pending replaces it, so two devices
  that fall back to the 8259A within one run of the processor cost the first its interrupt.\<close>

lemma raise_overwrites: "run (irq_step api) s [Raise a, Raise b] = run (irq_step api) s [Raise b]"
  by (cases s) (simp add: raise_extint_def)


section \<open>A register file as hypervisor\<close>

definition regs_api :: "(reg_name \<Rightarrow> reg_value) vp_api" where
  "regs_api = \<lparr>get_vp_registers = (\<lambda>p i ns. Some (map p ns)), set_vp_registers = (\<lambda>p i n v. (True, p(n := v))),
     request_interrupt = (\<lambda>p c. (True, p))\<rparr>"

definition halted_regs :: "reg_name \<Rightarrow> reg_value" where
  "halted_regs n = (case n of Rflags \<Rightarrow> Reg64 0x202 | InterruptState \<Rightarrow> InterruptStateV False
     | PendingEvent \<Rightarrow> ExtIntEvent False WHvX64PendingEventException 0 | DeliverabilityNotifications \<Rightarrow> DeliverabilityV False
     | InternalActivityState \<Rightarrow> InternalActivity False True False)"

lemma regs_api_laws: "vp_laws regs_api" "accepts regs_api i"
  by (simp_all add: vp_laws_def accepts_def regs_api_def)

definition ready_vcpu :: irq_state where
  "ready_vcpu = (irq_state_init 0)\<lparr>ready_for_pic_interrupt := True, ext_int_pending := True, ext_int_vector := 0x30\<rparr>"



end
