(* ===== verification/Machine_Bus.thy ===== *)
theory Machine_Bus
  imports Pic Pit Hpet Rtc_Timers Virtio_Blk Virtio_Rng Virtio_Net Uart_Proofs Ioapic Irq Acpi
begin

unbundle bit_operations_syntax

text \<open>
  The devices of a running Windows guest as one machine (native/whp/backend.cc: struct EmulatorContext, EmulatorIoPort,
  EmulatorMemory, and the part of RunVm that builds the devices, wires their interrupts and runs the timer
  thread). All virtio devices work on the same guest RAM, and all interrupts go to one I/O APIC or, through the
  8259A pair, to the external interrupt of the boot processor. An access runs under device_mu, so it is one step.
  The host is the record \<open>host\<close>; a \<open>moment\<close> holds the readings of its clocks and of its console at an access.
\<close>

section \<open>The machine\<close>

definition kNodeVmmExitPort :: u16 where "kNodeVmmExitPort = 0x501"
definition kNodeVmmConsolePort :: u16 where "kNodeVmmConsolePort = 0x600"
definition kIoApicSize :: u64 where "kIoApicSize = 0x1000"

record 'f host =
  h_files :: "'f file_api"
  h_rand :: rand_gen
  h_slirp :: slirp
  h_deliver :: hypervisor

record moment =
  w_now :: int
  w_wall :: systemtime
  w_console :: console_info

record guest_exit =
  ge_requested :: bool
  ge_status :: u32

text \<open>EmulatorContext, with the boot processor's interrupt state, the toggle of port 0x61, and a count of the
  calls of cancel_all.\<close>

record 'f machine =
  m_mem :: guest_memory
  m_uart :: uart
  m_exit :: guest_exit
  m_pic :: pic
  m_pit :: pit
  m_hpet :: hpet
  m_pm_started :: int
  m_ioapic :: ioapic
  m_blks :: "'f blk list"
  m_rng :: rng
  m_rng_irq :: u32
  m_cmos :: cmos
  m_net :: "net option"
  m_net_irq :: u32
  m_refresh :: u8
  m_bsp :: irq_state
  m_cancels :: nat

text \<open>The devices that RunVm builds: disk 0 is the root disk, then the attached ones, the generator and the network card.\<close>

definition machine_init :: "moment \<Rightarrow> guest_memory \<Rightarrow> 'f vdisk list \<Rightarrow> nat \<Rightarrow> bool \<Rightarrow> bool \<Rightarrow> bytes option \<Rightarrow> bool \<Rightarrow> 'f machine" where
  "machine_init t mem disks console_limit interactive con env_dsr network =
    (let rng_index = of_nat (length disks) + 1 :: u32; net_index = of_nat (length disks) :: u32
     in \<lparr>m_mem = mem, m_uart = attach_irq_raiser (uart_init console_limit interactive con env_dsr),
         m_exit = \<lparr>ge_requested = False, ge_status = 0\<rparr>, m_pic = pic_init, m_pit = pit_init (w_now t),
         m_hpet = hpet_attach_irq_line (hpet_init (w_now t)), m_pm_started = w_now t, m_ioapic = attach_waker ioapic_init,
         m_blks = map (\<lambda>i. blk_init (VirtioMmioBase (of_nat i)) mem (disks ! i)) [0 ..< length disks],
         m_rng = rng_init (VirtioMmioBase rng_index) mem, m_rng_irq = VirtioMmioIrq rng_index, m_cmos = cmos_init (w_wall t),
         m_net = (if network then Some (attach_slirp (net_init mem (VirtioMmioBase net_index) [0x52, 0x54, 0x00, 0x12, 0x34, 0x56])) else None),
         m_net_irq = VirtioMmioIrq net_index, m_refresh = 0, m_bsp = irq_state_init 0, m_cancels = 0\<rparr>)"

section \<open>Interrupts\<close>

text \<open>The raiser of the serial port: the I/O APIC if its pin is unmasked, else the 8259A.\<close>

definition uart_irq_raiser :: "hypervisor \<Rightarrow> u32 \<Rightarrow> 'f machine \<Rightarrow> 'f machine" where
  "uart_irq_raiser deliver irq m =
    (if irq_unmasked (m_ioapic m) irq then m\<lparr>m_ioapic := request_irq deliver (m_ioapic m) irq\<rparr>
     else if \<not> pic_is_initialized (m_pic m) \<or> \<not> pic_irq_unmasked (m_pic m) (ucast irq) then m
     else m\<lparr>m_bsp := raise_extint (m_bsp m) (pic_vector_for_irq (m_pic m) (ucast irq)), m_cancels := m_cancels m + 1\<rparr>)"

text \<open>The serial port after an operation; each interrupt it has raised goes through the raiser.\<close>

definition uart_done :: "hypervisor \<Rightarrow> uart \<Rightarrow> 'f machine \<Rightarrow> 'f machine" where
  "uart_done deliver u m = (uart_irq_raiser deliver 4 ^^ (u_irqs u - u_irqs (m_uart m))) (m\<lparr>m_uart := u\<rparr>)"

text \<open>The line that attach_irq_line gives to the HPET.\<close>

definition hpet_irq_line :: "hypervisor \<Rightarrow> u32 \<times> bool \<Rightarrow> 'f machine \<Rightarrow> 'f machine" where
  "hpet_irq_line deliver c m = (if fst c < 24 then m\<lparr>m_ioapic := set_irq deliver (m_ioapic m) (fst c) (snd c)\<rparr> else m)"

definition deliver_timer_irq :: "hypervisor \<Rightarrow> u32 \<Rightarrow> u8 \<Rightarrow> bool \<Rightarrow> 'f machine \<Rightarrow> 'f machine" where
  "deliver_timer_irq deliver ioapic_pin pic_irq level m =
    (if ioapic_pin < 24 \<and> irq_unmasked (m_ioapic m) ioapic_pin
     then if level then m\<lparr>m_ioapic := set_irq deliver (m_ioapic m) ioapic_pin True\<rparr>
          else m\<lparr>m_ioapic := request_irq deliver (m_ioapic m) ioapic_pin\<rparr>
     else if pic_irq < 8 \<and> pic_is_initialized (m_pic m) \<and> pic_irq_unmasked (m_pic m) pic_irq
     then m\<lparr>m_bsp := raise_extint (m_bsp m) (pic_vector_for_irq (m_pic m) pic_irq), m_cancels := m_cancels m + 1\<rparr>
     else m)"

section \<open>Port accesses\<close>

text \<open>EmulatorIoPort: \<open>sz\<close> is AccessSize and \<open>data\<close> the field Data, which a read replaces.\<close>

definition EmulatorIoPort :: "'f host \<Rightarrow> moment \<Rightarrow> bool \<Rightarrow> u16 \<Rightarrow> u16 \<Rightarrow> u32 \<Rightarrow> 'f machine \<Rightarrow> 'f machine \<times> u32" where
  "EmulatorIoPort host t write port sz data m =
    (let b = ucast (data AND 0xFF) :: u8
     in if port = kNodeVmmExitPort \<and> sz = 1
     then if write then (m\<lparr>m_exit := \<lparr>ge_requested = True, ge_status = data AND 0xFF\<rparr>\<rparr>, data) else (m, 0)
     else if port = kNodeVmmConsolePort \<and> sz = 1
     then if write then (uart_done (h_deliver host) (emit_bytes (m_uart m) [b]) m, data) else (m, 0)
     else if kCom1Base \<le> port \<and> port < kCom1Base + 8 \<and> sz = 1
     then let off = port - kCom1Base
          in if write then (uart_done (h_deliver host) (uart_write (w_console t) (m_uart m) off b) m, data)
             else case uart_read (m_uart m) off of (v, u) \<Rightarrow> (uart_done (h_deliver host) u m, ucast v)
     else if (port = 0x20 \<or> port = 0x21 \<or> port = 0xA0 \<or> port = 0xA1) \<and> sz = 1
     then if write then (m\<lparr>m_pic := pic_write_port (m_pic m) port b\<rparr>, data) else (m, ucast (pic_read_port (m_pic m) port))
     else if 0x40 \<le> port \<and> port \<le> 0x43 \<and> sz = 1
     then if write then (m\<lparr>m_pit := pit_write_port (m_pit m) port b (w_now t)\<rparr>, data)
          else case pit_read_port (m_pit m) port (w_now t) of (v, p) \<Rightarrow> (m\<lparr>m_pit := p\<rparr>, ucast v)
     else if port = 0x61 \<and> sz = 1
     then if write then (m\<lparr>m_pit := pit_set_channel2_gate (m_pit m) (b AND 0x01 \<noteq> 0) (w_now t)\<rparr>, data)
          else let value = (if pit_channel2_gated (m_pit m) then 0x01 else 0x00) OR (m_refresh m AND 0x10)
                     OR (if pit_channel2_out_high (m_pit m) (w_now t) then 0x20 else 0) :: u8
               in (m\<lparr>m_refresh := m_refresh m XOR 0x10\<rparr>, ucast value)
     else if kAcpiPmTimerPort \<le> port \<and> port < kAcpiPmTimerPort + 4 \<and> sz \<le> 4
     then if \<not> write then (m, pm_read (m_pm_started m) port (ucast sz) (w_now t)) else (m, data)
     else if (port = 0x70 \<or> port = 0x71) \<and> sz = 1
     then if write then (m\<lparr>m_cmos := cmos_write_port (m_cmos m) port b\<rparr>, data)
          else case cmos_read_port (m_cmos m) port (w_wall t) of (v, c) \<Rightarrow> (m\<lparr>m_cmos := c\<rparr>, ucast v)
     else if \<not> write then (m, 0) else (m, data))"

section \<open>Memory accesses\<close>

definition in_window :: "u64 \<Rightarrow> u64 \<Rightarrow> bool" where
  "in_window base gpa \<longleftrightarrow> base \<le> gpa \<and> gpa < base + kVirtioStride"

text \<open>The first disk whose window holds the address.\<close>

fun find_blk :: "'f blk list \<Rightarrow> u64 \<Rightarrow> nat option" where
  "find_blk [] gpa = None"
| "find_blk (b # bs) gpa = (if in_window (b_mmio_base b) gpa then Some 0 else map_option Suc (find_blk bs gpa))"

datatype hresult = S_OK | E_INVALIDARG | Exception string

definition outcome :: "unit result \<Rightarrow> hresult" where
  "outcome r = (case r of Inl e \<Rightarrow> Exception e | Inr _ \<Rightarrow> S_OK)"

definition blk_mmio_write :: "'f host \<Rightarrow> nat \<Rightarrow> u64 \<Rightarrow> bytes \<Rightarrow> 'f machine \<Rightarrow> 'f machine \<times> hresult" where
  "blk_mmio_write host i gpa data m =
    (case blk_write_mmio (h_files host) ((m_blks m ! i)\<lparr>b_mem := m_mem m\<rparr>) gpa data of (b, irq, r) \<Rightarrow>
       let m = m\<lparr>m_mem := b_mem b, m_blks := (m_blks m)[i := b]\<rparr>
       in (if irq then m\<lparr>m_ioapic := request_irq (h_deliver host) (m_ioapic m) (VirtioMmioIrq (of_nat i))\<rparr> else m, outcome r))"

definition rng_mmio_write :: "'f host \<Rightarrow> u64 \<Rightarrow> bytes \<Rightarrow> 'f machine \<Rightarrow> 'f machine \<times> hresult" where
  "rng_mmio_write host gpa data m =
    (case rng_write_mmio (h_rand host) ((m_rng m)\<lparr>r_mem := m_mem m\<rparr>) gpa data of (g, irq, r) \<Rightarrow>
       let m = m\<lparr>m_mem := r_mem g, m_rng := g\<rparr>
       in (if irq then m\<lparr>m_ioapic := request_irq (h_deliver host) (m_ioapic m) (m_rng_irq m)\<rparr> else m, outcome r))"

text \<open>The network card after an operation on it, with one request for each interrupt it has raised.\<close>

definition net_done :: "hypervisor \<Rightarrow> net \<Rightarrow> net \<Rightarrow> 'f machine \<Rightarrow> 'f machine" where
  "net_done deliver n n' m =
    m\<lparr>m_mem := n_mem n', m_net := Some n',
      m_ioapic := ((\<lambda>s. request_irq deliver s (m_net_irq m)) ^^ (n_irqs n' - n_irqs n)) (m_ioapic m)\<rparr>"

text \<open>EmulatorMemory: \<open>data\<close> are the AccessSize bytes of the access, which a read replaces. None: the access does not return.\<close>

definition EmulatorMemory :: "'f host \<Rightarrow> moment \<Rightarrow> bool \<Rightarrow> u64 \<Rightarrow> bytes \<Rightarrow> 'f machine \<Rightarrow> ('f machine \<times> bytes \<times> hresult) option" where
  "EmulatorMemory host t write gpa data m =
    (let sz = of_nat (length data) :: u32; got = (\<lambda>bs. Some (m, bs, S_OK)); did = (\<lambda>(m, r). Some (m, data, r))
     in if length data = 0 \<or> 8 < length data then Some (m, data, E_INVALIDARG)
     else case find_blk (m_blks m) gpa of
       Some i \<Rightarrow> if write then did (blk_mmio_write host i gpa data m) else got (blk_read_mmio (m_blks m ! i) gpa sz)
     | None \<Rightarrow>
        if in_window (r_mmio_base (m_rng m)) gpa
        then if write then did (rng_mmio_write host gpa data m) else got (rng_read_mmio (m_rng m) gpa sz)
        else if kIoApicBase \<le> gpa \<and> gpa < kIoApicBase + kIoApicSize
        then if write then did (m\<lparr>m_ioapic := ioapic_write_mmio (h_deliver host) (m_ioapic m) gpa data\<rparr>, S_OK)
             else got (ioapic_read_mmio (m_ioapic m) gpa sz)
        else if kHpetBase \<le> gpa \<and> gpa < kHpetBase + kHpetSize
        then if write
             then case hpet_write_mmio (m_hpet m) gpa data (w_now t) of (h, calls) \<Rightarrow>
                    did (fold (hpet_irq_line (h_deliver host)) calls (m\<lparr>m_hpet := h\<rparr>), S_OK)
             else got (hpet_read_mmio (m_hpet m) gpa sz (w_now t))
        else if (case m_net m of Some n \<Rightarrow> in_window (n_mmio_base n) gpa | None \<Rightarrow> False)
        then let n = (the (m_net m))\<lparr>n_mem := m_mem m\<rparr>
             in if write
                then case net_write_mmio (h_slirp host) n gpa data of
                       None \<Rightarrow> None | Some n' \<Rightarrow> did (net_done (h_deliver host) n n' m, S_OK)
                else got (net_read_mmio n gpa sz)
        else if gpa < gm_size (m_mem m) \<and> ucast sz \<le> gm_size (m_mem m) - gpa
        then case gm_ptr (m_mem m) gpa (ucast sz) of
               Inl e \<Rightarrow> Some (m, data, Exception e)
             | Inr p \<Rightarrow> if write then did (m\<lparr>m_mem := gm_write (m_mem m) p data\<rparr>, S_OK) else got (gm_read (m_mem m) p (length data))
        else if \<not> write then got (replicate (length data) 0) else did (m, S_OK))"

section \<open>The other threads\<close>

text \<open>One round of the timer thread while the machine runs.\<close>

definition timer_tick :: "'f host \<Rightarrow> moment \<Rightarrow> 'f machine \<Rightarrow> 'f machine option" where
  "timer_tick host t m =
    Option.bind (poll_expired (m_hpet m) (w_now t)) (\<lambda>(h, irqs).
      let m = fold (\<lambda>irq. deliver_timer_irq (h_deliver host) (irq_ioapic_pin irq) (irq_pic_irq irq) (irq_level irq)) irqs (m\<lparr>m_hpet := h\<rparr>)
      in if hpet_legacy_mode (m_hpet m) then Some m
         else Option.bind (pit_poll_irq0 (m_pit m) (w_now t)) (\<lambda>(fired, p).
           let m = m\<lparr>m_pit := p\<rparr>
           in Some (if fired then deliver_timer_irq (h_deliver host) kPitIoApicPin 0 False m else m)))"

text \<open>A round of deliver_uart_input: the bytes offered to the receiver. cancel_all follows in either case.\<close>

definition input_round :: "'f host \<Rightarrow> bytes \<Rightarrow> 'f machine \<Rightarrow> 'f machine \<times> nat" where
  "input_round host bs m =
    (case enqueue_rx (m_uart m) bs of (u, accepted) \<Rightarrow>
       let m = uart_done (h_deliver host) u m in (m\<lparr>m_cancels := m_cancels m + 1\<rparr>, accepted))"

text \<open>A frame from the network.\<close>

definition net_frame :: "'f host \<Rightarrow> bytes \<Rightarrow> 'f machine \<Rightarrow> 'f machine" where
  "net_frame host buf m =
    (case m_net m of None \<Rightarrow> m
     | Some n \<Rightarrow> let n = n\<lparr>n_mem := m_mem m\<rparr> in net_done (h_deliver host) n (on_send_packet buf n) m)"

section \<open>What every access keeps\<close>

definition machine_ok :: "'f machine \<Rightarrow> bool" where
  "machine_ok m \<longleftrightarrow> uart_ok (m_uart m) \<and> pic_ok (m_pic m) \<and> pit_ok (m_pit m) \<and> hpet_ok (m_hpet m) \<and> ioapic_ok (m_ioapic m) \<and>
     cmos_ok (m_cmos m) \<and> list_all blk_ok (m_blks m) \<and> rng_ok (m_rng m) \<and> pred_option net_ok (m_net m)"

definition blk_kept :: "'f blk \<Rightarrow> 'f blk \<Rightarrow> bool" where
  "blk_kept b b' \<longleftrightarrow> disk_protected (b_disk b) (b_disk b') \<and> b_mmio_base b' = b_mmio_base b"

definition net_kept :: "net \<Rightarrow> net \<Rightarrow> bool" where
  "net_kept n n' \<longleftrightarrow> prefix (net_log n) (net_log n') \<and> prefix (n_sent n) (n_sent n')"

text \<open>One machine comes after another: all devices well formed, host memory and protected disks untouched, no interrupt of
  the I/O APIC lost or overtaken, no packet lost or overtaken.\<close>

definition machine_rel :: "'f machine \<Rightarrow> 'f machine \<Rightarrow> bool" where
  "machine_rel m m' \<longleftrightarrow> machine_ok m' \<and> same_outside (m_mem m) (m_mem m') \<and> list_all2 blk_kept (m_blks m) (m_blks m') \<and>
     prefix (io_log (m_ioapic m)) (io_log (m_ioapic m')) \<and> rel_option net_kept (m_net m) (m_net m')"

lemma kept_refl [simp]: "blk_kept b b" "net_kept n n" "list_all2 blk_kept bs bs" "rel_option net_kept on on"
  by (simp_all add: blk_kept_def net_kept_def list_all2_refl option.rel_refl)

lemma kept_trans: "blk_kept a b \<Longrightarrow> blk_kept b c \<Longrightarrow> blk_kept a c" "net_kept x y \<Longrightarrow> net_kept y z \<Longrightarrow> net_kept x z"
  by (auto simp: blk_kept_def net_kept_def intro: disk_protected_trans prefix_order.trans)

lemma machine_rel_refl: "machine_ok m \<Longrightarrow> machine_rel m m"
  by (simp add: machine_rel_def)

lemma rel_option_kept_trans: "rel_option net_kept x y \<Longrightarrow> rel_option net_kept y z \<Longrightarrow> rel_option net_kept x z"
  by (cases x; cases y; cases z) (auto intro: kept_trans)

lemma machine_rel_trans: "machine_rel a b \<Longrightarrow> machine_rel b c \<Longrightarrow> machine_rel a c"
  unfolding machine_rel_def
  by (auto intro: same_outside_trans prefix_order.trans list_all2_trans [of blk_kept blk_kept blk_kept, OF kept_trans(1)]
      rel_option_kept_trans)

lemma machine_rel_ok: "machine_rel a b \<Longrightarrow> machine_ok b"
  by (simp add: machine_rel_def)


lemma fold_rel: "(\<And>x m. machine_ok m \<Longrightarrow> machine_rel m (f x m)) \<Longrightarrow> machine_ok m \<Longrightarrow> machine_rel m (fold f xs m)"
proof (induction xs arbitrary: m)
  case (Cons x xs)
  have r: "machine_rel m (f x m)" by (rule Cons.prems)+
  show ?case using machine_rel_trans [OF r Cons.IH [OF Cons.prems(1) machine_rel_ok [OF r]]] by simp
qed (simp add: machine_rel_refl)

lemma funpow_rel: "(\<And>m. machine_ok m \<Longrightarrow> machine_rel m (f m)) \<Longrightarrow> machine_ok m \<Longrightarrow> machine_rel m ((f ^^ k) m)"
proof (induction k)
  case (Suc k)
  then have "machine_rel m ((f ^^ k) m)" by blast
  with Suc.prems(1) [OF machine_rel_ok [OF this]] show ?case by (auto intro: machine_rel_trans)
qed (simp add: machine_rel_refl)

text \<open>Replacing one device.\<close>

lemma device_rel [inv_intros]:
  assumes "machine_ok m"
  shows "uart_ok u \<Longrightarrow> machine_rel m (m\<lparr>m_uart := u\<rparr>)" "pic_ok p \<Longrightarrow> machine_rel m (m\<lparr>m_pic := p\<rparr>)"
    "pit_ok pt \<Longrightarrow> machine_rel m (m\<lparr>m_pit := pt\<rparr>)" "hpet_ok h \<Longrightarrow> machine_rel m (m\<lparr>m_hpet := h\<rparr>)"
    "cmos_ok c \<Longrightarrow> machine_rel m (m\<lparr>m_cmos := c\<rparr>)" "machine_rel m (m\<lparr>m_exit := x\<rparr>)" "machine_rel m (m\<lparr>m_refresh := r\<rparr>)"
    "machine_rel m (m\<lparr>m_bsp := b, m_cancels := k\<rparr>)" "machine_rel m (m\<lparr>m_cancels := k\<rparr>)"
    "ioapic_ok s \<Longrightarrow> prefix (io_log (m_ioapic m)) (io_log s) \<Longrightarrow> machine_rel m (m\<lparr>m_ioapic := s\<rparr>)"
  using assms by (simp_all add: machine_rel_def machine_ok_def)

lemma request_rel: "machine_ok m \<Longrightarrow> machine_rel m (m\<lparr>m_ioapic := request_irq deliver (m_ioapic m) irq\<rparr>)"
  by (intro device_rel request_ok request_log) (simp_all add: machine_ok_def)

lemma set_irq_rel: "machine_ok m \<Longrightarrow> machine_rel m (m\<lparr>m_ioapic := set_irq deliver (m_ioapic m) irq level\<rparr>)"
  by (intro device_rel set_irq_ok set_irq_log) (simp_all add: machine_ok_def)

lemma raiser_rel: "machine_ok m \<Longrightarrow> machine_rel m (uart_irq_raiser deliver irq m)"
  by (simp add: uart_irq_raiser_def request_rel device_rel machine_rel_refl)

lemma timer_irq_rel: "machine_ok m \<Longrightarrow> machine_rel m (deliver_timer_irq deliver pin pic_irq level m)"
  by (simp add: deliver_timer_irq_def request_rel set_irq_rel device_rel machine_rel_refl)

lemma hpet_line_rel: "machine_ok m \<Longrightarrow> machine_rel m (hpet_irq_line deliver c m)"
  by (simp add: hpet_irq_line_def set_irq_rel machine_rel_refl)

lemma uart_done_rel: "machine_ok m \<Longrightarrow> uart_ok u \<Longrightarrow> machine_rel m (uart_done deliver u m)"
  unfolding uart_done_def by (rule machine_rel_trans [OF device_rel(1)]) (auto intro: funpow_rel raiser_rel device_rel machine_rel_ok)


lemma EmulatorIoPort_rel:
  assumes "machine_ok m"
  shows "machine_rel m (fst (EmulatorIoPort host t write port sz data m))"
proof -
  have d: "uart_ok (m_uart m)" "pic_ok (m_pic m)" "pit_ok (m_pit m)" "cmos_ok (m_cmos m)" using assms by (simp_all add: machine_ok_def)
  have pit: "pit_ok (pit_write_port (m_pit m) port v w)" "pit_ok (snd (pit_read_port (m_pit m) port w))"
      "pit_ok (pit_set_channel2_gate (m_pit m) g w)" for v g w
    using pit_machine.step_inv [OF d(3), of "(w, PitWrite port v)"] pit_machine.step_inv [OF d(3), of "(w, PitRead port)"]
      pit_machine.step_inv [OF d(3), of "(w, PitGate g)"] by simp_all
  have cmos: "cmos_ok (cmos_write_port (m_cmos m) port v)" "cmos_ok (snd (cmos_read_port (m_cmos m) port w))" for v w
    using cmos_machine.step_inv [OF d(4), of "CmosWrite port v"] cmos_machine.step_inv [OF d(4), of "CmosRead port w"] by simp_all
  have pic: "pic_ok (pic_write_port (m_pic m) port v)" for v
    using pic_machine.step_inv [OF d(2), of "(port, v)"] by (simp add: pic_step_def)
  note ops = device_rel [OF assms] uart_done_rel [OF assms] machine_rel_refl [OF assms] pit cmos pic
    emit_ok [OF d(1)] uart_write_ok [OF d(1)] uart_read_ok [OF d(1)]
  have split: "machine_rel m (fst x) \<Longrightarrow> machine_rel m (fst y) \<Longrightarrow> machine_rel m (fst (if c then x else y))" for c x y by simp
  show ?thesis unfolding EmulatorIoPort_def Let_def case_prod_beta by (intro split) (simp_all add: ops)
qed

lemma blk_write_mmio_base: "b_mmio_base (fst (blk_write_mmio api b addr data)) = b_mmio_base b"
proof -
  have split: "b_mmio_base (fst x) = a \<Longrightarrow> b_mmio_base (fst y) = a \<Longrightarrow> b_mmio_base (fst (if c then x else y)) = a"
    for c a and x y :: "'a blk \<times> bool \<times> unit result" by simp
  have "b_mmio_base (fst (blk_notify api b v)) = b_mmio_base b" for v
    by (simp add: blk_notify_def Let_def split: prod.split sum.split)
  then show ?thesis unfolding blk_write_mmio_def blk_write_reg_def Let_def
    by (intro split) (simp_all add: blk_reset_def blk_put_queue_def Let_def)
qed

lemma blk_mmio_write_rel:
  assumes "machine_ok m" and "api_bounded (h_files host)" and "i < length (m_blks m)"
  shows "machine_rel m (fst (blk_mmio_write host i gpa data m))"
proof -
  let ?b = "(m_blks m ! i)\<lparr>b_mem := m_mem m\<rparr>"
  obtain b irq r where w: "blk_write_mmio (h_files host) ?b gpa data = (b, irq, r)" by (cases "blk_write_mmio (h_files host) ?b gpa data")
  have "blk_ok ?b" using assms(1,3) by (auto simp: machine_ok_def blk_ok_def list_all_length)
  then have "blk_ok b" "blk_confined ?b b"
    using blk_machine.step_inv [of ?b "h_files host" "(gpa, data)"] blk_run_confined [OF assms(2), of ?b "[(gpa, data)]"] w
    by (simp_all add: blk_step_def)
  moreover have "b_mmio_base b = b_mmio_base (m_blks m ! i)" using blk_write_mmio_base [of "h_files host" ?b gpa data] w by simp
  ultimately have r: "machine_rel m (m\<lparr>m_mem := b_mem b, m_blks := (m_blks m)[i := b]\<rparr>)"
    using assms(1,3) by (auto simp: machine_rel_def machine_ok_def blk_confined_def blk_kept_def list_all_length nth_list_update list_all2_conv_all_nth)
  show ?thesis using r machine_rel_trans [OF r request_rel [OF machine_rel_ok [OF r]]] by (simp add: blk_mmio_write_def w Let_def)
qed

lemma rng_mmio_write_rel:
  assumes "machine_ok m" and "rand_bounded (h_rand host)"
  shows "machine_rel m (fst (rng_mmio_write host gpa data m))"
proof -
  let ?g = "(m_rng m)\<lparr>r_mem := m_mem m\<rparr>"
  obtain g irq r where w: "rng_write_mmio (h_rand host) ?g gpa data = (g, irq, r)" by (cases "rng_write_mmio (h_rand host) ?g gpa data")
  have "rng_rel ?g (fst (rng_write_mmio (h_rand host) ?g gpa data))"
    using rng_write_reg_rel [OF assms(2), of ?g] by (simp add: rng_write_mmio_def Let_def) (simp add: rng_rel_def)
  then have r: "machine_rel m (m\<lparr>m_mem := r_mem g, m_rng := g\<rparr>)"
    using assms(1) by (simp add: w machine_rel_def machine_ok_def rng_rel_def rng_ok_def)
  show ?thesis using r machine_rel_trans [OF r request_rel [OF machine_rel_ok [OF r]]] by (simp add: rng_mmio_write_def w Let_def)
qed


lemma net_done_rel:
  assumes "machine_ok m" and "m_net m = Some n" and "net_rel (n\<lparr>n_mem := m_mem m\<rparr>) n'"
  shows "machine_rel m (net_done deliver (n\<lparr>n_mem := m_mem m\<rparr>) n' m)"
proof -
  let ?s = "\<lambda>k. ((\<lambda>s. request_irq deliver s (m_net_irq m)) ^^ k) (m_ioapic m)"
  have "ioapic_ok (?s k) \<and> prefix (io_log (m_ioapic m)) (io_log (?s k))" for k
  proof (induction k)
    case (Suc k)
    then show ?case using request_ok request_log by (auto intro: prefix_order.trans)
  qed (use assms(1) in \<open>simp add: machine_ok_def\<close>)
  then show ?thesis using assms by (simp add: net_done_def machine_rel_def machine_ok_def net_rel_def net_kept_def net_log_def)
qed

lemma find_blk_Some: "find_blk bs gpa = Some i \<Longrightarrow> i < length bs \<and> in_window (b_mmio_base (bs ! i)) gpa"
  by (induction bs arbitrary: i) (auto split: if_splits)

lemma EmulatorMemory_rel:
  assumes ok: "machine_ok m" and host: "api_bounded (h_files host)" "rand_bounded (h_rand host)"
    and res: "EmulatorMemory host t write gpa data m = Some (m', bs, r)"
  shows "machine_rel m m'"
proof -
  have blk: "machine_rel m n" if "find_blk (m_blks m) gpa = Some i" "blk_mmio_write host i gpa data m = (n, e)" for i n e
    using blk_mmio_write_rel [OF ok host(1), of i gpa data] find_blk_Some [OF that(1)] that(2) by simp
  have rng: "machine_rel m n" if "rng_mmio_write host gpa data m = (n, e)" for n e
    using rng_mmio_write_rel [OF ok host(2), of gpa data] that by simp
  have io: "machine_rel m (m\<lparr>m_ioapic := ioapic_write_mmio d (m_ioapic m) gpa data\<rparr>)" for d
    using ioapic_run.step_inv [of "m_ioapic m" d "Io_Mmio gpa data"] ok ioapic_step_log [of "m_ioapic m" d "Io_Mmio gpa data"]
    by (intro device_rel [OF ok]) (simp_all add: machine_ok_def)
  have hpet: "machine_rel m (fold (hpet_irq_line d) calls (m\<lparr>m_hpet := h\<rparr>))"
    if "hpet_write_mmio (m_hpet m) gpa data (w_now t) = (h, calls)" for d h calls
  proof -
    have "hpet_ok h" using hpet_machine.step_inv [of "m_hpet m" "(w_now t, HpetWrite gpa data)"] ok that by (simp add: machine_ok_def)
    then have h: "machine_rel m (m\<lparr>m_hpet := h\<rparr>)" by (rule device_rel [OF ok])
    show ?thesis by (rule machine_rel_trans [OF h fold_rel [OF hpet_line_rel machine_rel_ok [OF h]]])
  qed
  have net: "machine_rel m (net_done d (n\<lparr>n_mem := m_mem m\<rparr>) n' m)"
    if "m_net m = Some n" "net_write_mmio slirp (n\<lparr>n_mem := m_mem m\<rparr>) gpa data = Some n'" for d n n' slirp
    using that ok net_step_rel [of "n\<lparr>n_mem := m_mem m\<rparr>" slirp "Net_Write gpa data" n']
    by (intro net_done_rel) (simp_all add: machine_ok_def net_ok_def)
  have ram: "machine_rel m (m\<lparr>m_mem := gm_write (m_mem m) p data\<rparr>)" if "gm_ptr (m_mem m) gpa n = Inr p" "unat n = length data" for n p
    using that ok by (auto simp: machine_rel_def machine_ok_def gm_ptr_Inr intro: same_outside_gm_write)
  have len: "unat (ucast (of_nat (length data) :: u32) :: u64) = length data" if "length data \<le> 8"
    using that by (simp add: ucast_len unsigned_of_nat take_bit_nat_eq_self)
  show ?thesis
    using res blk rng io hpet net ram len machine_rel_refl [OF ok]
    unfolding EmulatorMemory_def Let_def
    by (auto split: if_split_asm option.split_asm prod.split_asm sum.split_asm)
qed


lemma timer_tick_rel:
  assumes ok: "machine_ok m" and res: "timer_tick host t m = Some m'"
  shows "machine_rel m m'"
proof -
  obtain h irqs where h: "poll_expired (m_hpet m) (w_now t) = Some (h, irqs)" using res by (auto simp: timer_tick_def bind_eq_Some_conv)
  define m1 where "m1 = fold (\<lambda>irq. deliver_timer_irq (h_deliver host) (irq_ioapic_pin irq) (irq_pic_irq irq) (irq_level irq)) irqs (m\<lparr>m_hpet := h\<rparr>)"
  have "hpet_ok h" using ok h poll_expired_ok by (auto simp: machine_ok_def)
  then have m0: "machine_rel m (m\<lparr>m_hpet := h\<rparr>)" by (rule device_rel [OF ok])
  have m1: "machine_rel m m1"
    unfolding m1_def by (rule machine_rel_trans [OF m0 fold_rel [OF _ machine_rel_ok [OF m0]]]) (rule timer_irq_rel)
  show ?thesis
  proof (cases "hpet_legacy_mode (m_hpet m1)")
    case True
    then show ?thesis using res m1 by (simp add: timer_tick_def h m1_def [symmetric] Let_def)
  next
    case False
    then obtain fired p where p: "pit_poll_irq0 (m_pit m1) (w_now t) = Some (fired, p)"
        and m': "m' = (if fired then deliver_timer_irq (h_deliver host) kPitIoApicPin 0 False (m1\<lparr>m_pit := p\<rparr>) else m1\<lparr>m_pit := p\<rparr>)"
      using res by (auto simp: timer_tick_def h m1_def [symmetric] Let_def bind_eq_Some_conv)
    have "pit_ok p" using p machine_rel_ok [OF m1] pit_ok_nth [of "m_pit m1" 0]
      by (auto simp: machine_ok_def pit_poll_irq0_def Let_def bind_eq_Some_conv channel_ok_def intro!: pit_ok_update split: if_splits)
    then have m2: "machine_rel m (m1\<lparr>m_pit := p\<rparr>)" using machine_rel_trans [OF m1 device_rel(3) [OF machine_rel_ok [OF m1]]] by simp
    show ?thesis using m2 machine_rel_trans [OF m2 timer_irq_rel [OF machine_rel_ok [OF m2]]] by (simp add: m')
  qed
qed

lemma input_round_rel: "machine_ok m \<Longrightarrow> machine_rel m (fst (input_round host bs m))"
proof -
  assume ok: "machine_ok m"
  let ?u = "fst (enqueue_rx (m_uart m) bs)"
  have "machine_rel m (uart_done (h_deliver host) ?u m)" using ok by (intro uart_done_rel enqueue_ok) (simp_all add: machine_ok_def)
  note r = this
  show ?thesis using machine_rel_trans [OF r device_rel(9) [OF machine_rel_ok [OF r]]]
    by (simp add: input_round_def case_prod_beta Let_def)
qed

lemma net_frame_rel: "machine_ok m \<Longrightarrow> machine_rel m (net_frame host buf m)"
  by (auto simp: net_frame_def Let_def machine_rel_refl split: option.split intro!: net_done_rel send_packet_rel)
    (simp add: machine_ok_def net_ok_def)

section \<open>Runs of the machine\<close>

text \<open>What can reach the devices: accesses of the guest, the timer thread, typed bytes, frames from the network, and the exits of the
  processors that concern the I/O APIC. An access that throws leaves the machine as it is at that point.\<close>

datatype machine_event =
    Port_Access bool u16 u16 u32
  | Memory_Access bool u64 bytes
  | Timer_Tick
  | Console_Input bytes
  | Net_Frame bytes
  | Apic_Eoi u32
  | Drain_Pending

fun machine_step :: "'f host \<Rightarrow> 'f machine \<Rightarrow> moment \<times> machine_event \<Rightarrow> 'f machine option" where
  "machine_step host m (t, Port_Access write port sz data) = Some (fst (EmulatorIoPort host t write port sz data m))"
| "machine_step host m (t, Memory_Access write gpa data) = map_option fst (EmulatorMemory host t write gpa data m)"
| "machine_step host m (t, Timer_Tick) = timer_tick host t m"
| "machine_step host m (t, Console_Input bs) = Some (fst (input_round host bs m))"
| "machine_step host m (t, Net_Frame buf) = Some (net_frame host buf m)"
| "machine_step host m (t, Apic_Eoi vector) = Some (m\<lparr>m_ioapic := eoi (h_deliver host) (m_ioapic m) vector\<rparr>)"
| "machine_step host m (t, Drain_Pending) = Some (m\<lparr>m_ioapic := drain_pending (h_deliver host) (m_ioapic m)\<rparr>)"

fun machine_run :: "'f host \<Rightarrow> 'f machine \<Rightarrow> (moment \<times> machine_event) list \<Rightarrow> 'f machine option" where
  "machine_run host m [] = Some m"
| "machine_run host m (e # es) = Option.bind (machine_step host m e) (\<lambda>m. machine_run host m es)"

lemma machine_step_rel:
  assumes "machine_ok m" and "api_bounded (h_files host)" "rand_bounded (h_rand host)" and "machine_step host m e = Some m'"
  shows "machine_rel m m'"
proof -
  have io: "machine_rel m (m\<lparr>m_ioapic := ioapic_step d (m_ioapic m) x\<rparr>)" for d x
    using assms(1) by (intro device_rel ioapic_step_log ioapic_run.step_inv) (simp_all add: machine_ok_def)
  show ?thesis
    using assms io [of "h_deliver host" "Io_Eoi (case snd e of Apic_Eoi v \<Rightarrow> v)"] io [of "h_deliver host" Io_Drain]
    by (cases "(host, m, e)" rule: machine_step.cases)
      (auto simp: EmulatorIoPort_rel input_round_rel net_frame_rel intro: timer_tick_rel dest: EmulatorMemory_rel)
qed


lemma machine_run_rel:
  assumes "api_bounded (h_files host)" and "rand_bounded (h_rand host)"
  shows "machine_ok m \<Longrightarrow> machine_run host m es = Some m' \<Longrightarrow> machine_rel m m'"
proof (induction es arbitrary: m)
  case (Cons e es)
  then obtain m1 where m1: "machine_step host m e = Some m1" "machine_run host m1 es = Some m'" by (auto simp: bind_eq_Some_conv)
  have r: "machine_rel m m1" by (rule machine_step_rel [OF Cons.prems(1) assms m1(1)])
  show ?case by (rule machine_rel_trans [OF r Cons.IH [OF machine_rel_ok [OF r] m1(2)]])
qed (simp add: machine_rel_refl)

lemma machine_init_ok: "machine_ok (machine_init t mem disks lim echo con env network)"
proof -
  have "ioapic_ok (attach_waker ioapic_init)" using ioapic_run.step_inv [OF ioapic_init_ok, of undefined Io_Waker] by simp
  then show ?thesis
    by (simp add: machine_init_def machine_ok_def Let_def attach_ok uart_init_ok pic_init_ok pit_init_ok hpet_init_ok cmos_init_ok
      list_all_length blk_init_ok rng_ok_def rng_init_def rng_queue_default_def net_init_ok)
      (simp add: attach_slirp_def net_ok_def net_init_def net_queue_default_def kNetQueueSize_def)
qed


text \<open>The places of the disks in a machine that runs.\<close>

lemma machine_init_blks:
  "length (m_blks (machine_init t mem disks lim echo con env network)) = length disks"
  "i < length disks \<Longrightarrow> m_blks (machine_init t mem disks lim echo con env network) ! i = blk_init (VirtioMmioBase (of_nat i)) mem (disks ! i)"
  "m_mem (machine_init t mem disks lim echo con env network) = mem"
  by (simp_all add: machine_init_def Let_def)

lemma window_start: "i < 0x1000 \<Longrightarrow> unat (VirtioMmioBase (of_nat i)) = 0xD0000000 + 0x200 * i"
proof -
  assume i: "i < 0x1000"
  then have "unat (ucast (of_nat i :: u32) * 0x200 :: u64) = i * 0x200"
    by (simp add: unat_word_ariths ucast_len unsigned_of_nat take_bit_nat_eq_self)
  with i show ?thesis
    by (simp add: VirtioMmioBase_def kVirtioMmioBase_def kVirtioStride_def unat_word_ariths)
qed

lemma in_window_iff:
  assumes "i < 0x1000" and "j < 0x1000" and "off < 0x200"
  shows "in_window (VirtioMmioBase (of_nat j)) (VirtioMmioBase (of_nat i) + off) \<longleftrightarrow> i = j"
proof -
  have off: "unat off < 0x200" using assms(3) by (simp add: word_less_nat_alt)
  have a: "unat (VirtioMmioBase (of_nat i) + off) = 0xD0000000 + 0x200 * i + unat off"
    using assms(1) off by (simp add: unat_word_ariths window_start)
  have e: "unat (VirtioMmioBase (of_nat j) + 0x200) = 0xD0000000 + 0x200 * j + 0x200"
    using assms(2) by (simp add: unat_word_ariths window_start)
  show ?thesis unfolding in_window_def word_le_nat_alt word_less_nat_alt kVirtioStride_def a e window_start [OF assms(2)] using off by auto
qed

lemma find_blk_placed:
  assumes "\<forall>j < length bs. in_window (b_mmio_base (bs ! j)) gpa \<longleftrightarrow> j = i" and "i < length bs"
  shows "find_blk bs gpa = Some i"
  using assms
proof (induction bs arbitrary: i)
  case (Cons b bs)
  show ?case
  proof (cases i)
    case 0
    then show ?thesis using Cons.prems(1) [rule_format, of 0] by simp
  next
    case (Suc k)
    have "find_blk bs gpa = Some k"
      using Cons.prems Suc by (intro Cons.IH) (auto dest: spec [of _ "Suc _"])
    moreover have "\<not> in_window (b_mmio_base b) gpa" using Cons.prems(1) [rule_format, of 0] Suc by simp
    ultimately show ?thesis using Suc by simp
  qed
qed simp

lemma run_find_blk:
  assumes "machine_rel (machine_init t mem disks lim echo con env network) m" and "i < length disks" and "length disks < 0x1000" and "off < 0x200"
  shows "find_blk (m_blks m) (VirtioMmioBase (of_nat i) + off) = Some i"
proof -
  let ?m0 = "machine_init t mem disks lim echo con env network"
  have "list_all2 blk_kept (m_blks ?m0) (m_blks m)" using assms(1) by (simp add: machine_rel_def)
  then have l: "length (m_blks m) = length disks" and b: "\<And>j. j < length disks \<Longrightarrow> b_mmio_base (m_blks m ! j) = VirtioMmioBase (of_nat j)"
    by (auto simp: list_all2_conv_all_nth machine_init_blks blk_kept_def blk_init_def)
  show ?thesis by (rule find_blk_placed) (use assms l b in \<open>auto simp: in_window_iff\<close>)
qed

text \<open>A machine with one disk under an overlay and a network card.\<close>

definition sample_moment :: moment where
  "sample_moment = \<lparr>w_now = 0, w_wall = \<lparr>wYear = 2024, wMonth = 1, wDayOfWeek = 1, wDay = 1, wHour = 0, wMinute = 0, wSecond = 0\<rparr>, w_console = None\<rparr>"

definition sample_host :: "bytes host" where
  "sample_host = \<lparr>h_files = list_api, h_rand = \<lambda>_ n. (True, replicate n 0), h_slirp = \<lambda>_ _. [], h_deliver = \<lambda>_ _. True\<rparr>"

definition sample_machine :: "bytes machine" where
  "sample_machine = machine_init sample_moment \<lparr>gm_data = \<lambda>_. 0, gm_len = 0x10000\<rparr> [sample_disk] 100 False False None True"

lemma sample_host_ok: "api_bounded (h_files sample_host)" "rand_bounded (h_rand sample_host)"
  by (simp_all add: sample_host_def api_bounded_def list_api_def rand_bounded_def)

lemma sample_window:
  assumes "machine_run sample_host sample_machine es = Some m" and "off < 0x200" and "0 < length data" and "length data \<le> 8"
  shows "EmulatorMemory sample_host t True (0xD0000000 + off) data m =
    (case blk_mmio_write sample_host 0 (0xD0000000 + off) data m of (m, r) \<Rightarrow> Some (m, data, r))"
proof -
  have "find_blk (m_blks m) (VirtioMmioBase (of_nat 0) + off) = Some 0"
    by (rule run_find_blk [OF machine_run_rel [OF sample_host_ok machine_init_ok assms(1) [unfolded sample_machine_def]]]) (use assms(2) in simp_all)
  moreover have "VirtioMmioBase (of_nat 0) = 0xD0000000" by (simp add: VirtioMmioBase_def kVirtioMmioBase_def)
  ultimately show ?thesis using assms(3,4) by (simp add: EmulatorMemory_def Let_def)
qed

section \<open>The machine as a whole\<close>

text \<open>Whatever the guest, the network and the user do, the machine stays within its bounds. After any sequence of port accesses, memory
  accesses, timer rounds, typed bytes, network frames and interrupt exits, every device is
  well formed; no byte of host memory outside guest RAM has changed; no base image under an overlay
  and no read-only disk has changed; the interrupts that the I/O APIC had accepted at an earlier moment are still the first in its log,
  in their order; and so are the packets of the network card. Only that the file and random calls of the host
  do not return more bytes than asked for is assumed.\<close>
theorem machine_confined:
  assumes "api_bounded (h_files host)" and "rand_bounded (h_rand host)"
    and "machine_run host (machine_init t mem disks lim echo con env network) es1 = Some m1" and "machine_run host m1 es2 = Some m2"
  shows "machine_ok m2 \<and> same_outside mem (m_mem m2) \<and> length (m_blks m2) = length disks \<and>
    (\<forall>i < length disks. disk_protected (disks ! i) (b_disk (m_blks m2 ! i))) \<and>
    prefix (io_log (m_ioapic m1)) (io_log (m_ioapic m2)) \<and> rel_option net_kept (m_net m1) (m_net m2)"
proof -
  let ?m0 = "machine_init t mem disks lim echo con env network"
  have r1: "machine_rel ?m0 m1" by (rule machine_run_rel [OF assms(1,2) machine_init_ok assms(3)])
  have r2: "machine_rel m1 m2" by (rule machine_run_rel [OF assms(1,2) machine_rel_ok [OF r1] assms(4)])
  have "list_all2 blk_kept (m_blks ?m0) (m_blks m2)" "same_outside mem (m_mem m2)"
    using machine_rel_trans [OF r1 r2] by (simp_all add: machine_rel_def machine_init_blks)
  then have "length (m_blks m2) = length disks \<and> (\<forall>i < length disks. disk_protected (disks ! i) (b_disk (m_blks m2 ! i)))"
    by (auto simp: list_all2_conv_all_nth machine_init_blks blk_kept_def blk_init_def)
  with \<open>same_outside mem (m_mem m2)\<close> r2 show ?thesis by (simp add: machine_rel_def)
qed

theorem machine_confined_witness:
  "\<exists>m1 m2. machine_run sample_host sample_machine [(sample_moment, Memory_Access True 0xD0000044 [1, 0, 0, 0])] = Some m1 \<and>
     machine_run sample_host m1 [(sample_moment, Port_Access True 0x3F8 1 0x41), (sample_moment, Console_Input [0x68])] = Some m2 \<and>
     machine_ok m2 \<and> disk_protected sample_disk (b_disk (m_blks m2 ! 0))"
proof -
  obtain m1 where m1: "machine_run sample_host sample_machine [(sample_moment, Memory_Access True 0xD0000044 [1, 0, 0, 0])] = Some m1"
    using sample_window [of "[]" sample_machine "0x44" "[1, 0, 0, 0]" sample_moment] by (simp split: prod.splits)
  obtain m2 where m2: "machine_run sample_host m1 [(sample_moment, Port_Access True 0x3F8 1 0x41), (sample_moment, Console_Input [0x68])] = Some m2"
    by simp
  show ?thesis using machine_confined [OF sample_host_ok m1 [unfolded sample_machine_def] m2] m1 m2 by fastforce
qed

text \<open>C8. Each disk answers at the window and on the pin that the ACPI tables announce for it. In a machine with at most 17 disks that has run for any time,
  a write of up to eight bytes to the window of disk i goes to disk i alone: no other disk, no other device and nothing but
  guest RAM and the I/O APIC changes, and the interrupt of the disk goes to pin 5 + i, which exists.\<close>
theorem disk_window_routed:
  assumes "api_bounded (h_files host)" and "rand_bounded (h_rand host)"
    and "machine_run host (machine_init t mem disks lim echo con env network) es = Some m"
    and "i < length disks" and "length disks \<le> 17" and "off < 0x200" and "0 < length data" and "length data \<le> 8"
    and "blk_write_mmio (h_files host) ((m_blks m ! i)\<lparr>b_mem := m_mem m\<rparr>) (VirtioMmioBase (of_nat i) + off) data = (b, irq, r)"
  shows "EmulatorMemory host t' True (VirtioMmioBase (of_nat i) + off) data m = Some
    (m\<lparr>m_mem := b_mem b, m_blks := (m_blks m)[i := b],
       m_ioapic := (if irq then request_irq (h_deliver host) (m_ioapic m) (of_nat (5 + i)) else m_ioapic m)\<rparr>, data, outcome r) \<and>
    of_nat (5 + i) < kMaxIoApicPins"
proof -
  have "find_blk (m_blks m) (VirtioMmioBase (of_nat i) + off) = Some i"
    using assms by (intro run_find_blk [OF machine_run_rel [OF assms(1,2) machine_init_ok assms(3)]]) auto
  moreover have "VirtioMmioIrq (of_nat i) = of_nat (5 + i)" by (simp add: VirtioMmioIrq_def kVirtioMmioIrqBase_def)
  moreover have "(of_nat (5 + i) :: u32) < kMaxIoApicPins"
    using assms(4,5) by (simp add: kMaxIoApicPins_def word_less_nat_alt unsigned_of_nat take_bit_nat_eq_self del: of_nat_add)
  ultimately show ?thesis using assms(7-9) by (simp add: EmulatorMemory_def blk_mmio_write_def Let_def)
qed


theorem disk_window_routed_witness:
  "of_nat (5 + 0) < kMaxIoApicPins \<and> (\<exists>b irq r. EmulatorMemory sample_host sample_moment True 0xD0000044 [1, 0, 0, 0] sample_machine = Some
    (sample_machine\<lparr>m_mem := b_mem b, m_blks := (m_blks sample_machine)[0 := b],
       m_ioapic := (if irq then request_irq (h_deliver sample_host) (m_ioapic sample_machine) (of_nat (5 + 0)) else m_ioapic sample_machine)\<rparr>,
     [1, 0, 0, 0], outcome r))"
proof -
  have base: "VirtioMmioBase (of_nat 0) + 0x44 = 0xD0000044" by (simp add: VirtioMmioBase_def kVirtioMmioBase_def)
  have run: "machine_run sample_host (machine_init sample_moment \<lparr>gm_data = \<lambda>_. 0, gm_len = 0x10000\<rparr> [sample_disk] 100 False False None True) [] =
      Some sample_machine" by (simp add: sample_machine_def)
  obtain b irq r where w: "blk_write_mmio (h_files sample_host) ((m_blks sample_machine ! 0)\<lparr>b_mem := m_mem sample_machine\<rparr>)
      (VirtioMmioBase (of_nat 0) + 0x44) [1, 0, 0, 0] = (b, irq, r)" by (rule prod_cases3)
  show ?thesis
    using disk_window_routed [OF sample_host_ok run _ _ _ _ _ w, of sample_moment] unfolding base by fastforce
qed


section \<open>Guest RAM and the device windows\<close>

text \<open>The size of guest RAM and the addresses that RunVm maps to it. An access to a mapped address does not leave the
  guest, so no device sees it.\<close>

definition guest_ram_bytes :: "u32 \<Rightarrow> u64 result" where
  "guest_ram_bytes mem_mib =
    (let ram_bytes = ucast mem_mib * 1024 * 1024 in rbind (Check (ram_bytes \<le> push_bit 32 1) ''invalid guest memory size'') (\<lambda>_. Inr ram_bytes))"

definition gpa_mapped :: "u64 \<Rightarrow> u64 \<Rightarrow> bool" where
  "gpa_mapped ram_bytes gpa \<longleftrightarrow> gpa < ram_bytes"

text \<open>The check of the memory size lets RAM hide the devices. A guest with 4096 MiB is accepted, and then the
  windows of the first virtio device, of the I/O APIC and of the HPET are all mapped to RAM.\<close>
theorem ram_hides_devices:
  "\<exists>ram_bytes. guest_ram_bytes 4096 = Inr ram_bytes \<and>
    gpa_mapped ram_bytes (VirtioMmioBase 0) \<and> gpa_mapped ram_bytes kIoApicBase \<and> gpa_mapped ram_bytes kHpetBase"
  by (simp add: guest_ram_bytes_def gpa_mapped_def VirtioMmioBase_def kVirtioMmioBase_def kIoApicBase_def kHpetBase_def push_bit_eq_mult)

end
