(* ===== verification/Whp_Exits.thy ===== *)
theory Whp_Exits
  imports Machine_Bus
begin

unbundle bit_operations_syntax

text \<open>
  The exits of an x86 processor that the Windows backend handles itself (native/whp/backend.cc: TranslateGuestAddress to
  PrepareWhpIoContext, HandleWhpIo, HandleWhpCpuid, HandleWhpMsr, struct HyperVState). HandleWhpIo is the fallback for port
  accesses that the instruction emulator of the platform does not emulate; it is compared with the emulator's
  callback EmulatorIoPort. The register calls of the hypervisor are the record \<open>reg_api\<close> on an
  abstract state; \<open>reg_laws\<close> is their documented behaviour.
\<close>

section \<open>Registers\<close>

datatype xreg = RAX | RBX | RCX | RDX | RIP

record 'p reg_api =
  get_register :: "'p \<Rightarrow> u32 \<Rightarrow> xreg \<Rightarrow> u64 option"
  set_registers :: "'p \<Rightarrow> u32 \<Rightarrow> (xreg \<times> u64) list \<Rightarrow> 'p option"
  translate_gva :: "'p \<Rightarrow> u32 \<Rightarrow> u64 \<Rightarrow> bool \<times> u64"

text \<open>An accepted write sets the registers it names and no other, of this processor only.\<close>

definition reg_laws :: "'p reg_api \<Rightarrow> bool" where
  "reg_laws api \<longleftrightarrow> (\<forall>p i rs p'. set_registers api p i rs = Some p' \<longrightarrow> (\<forall>j r. get_register api p' j r =
     (if j = i then case map_of rs r of Some v \<Rightarrow> Some v | None \<Rightarrow> get_register api p j r else get_register api p j r)))"

definition CheckSome :: "'a option \<Rightarrow> string \<Rightarrow> 'a result" where
  "CheckSome x what = (case x of None \<Rightarrow> Inl what | Some y \<Rightarrow> Inr y)"

definition GetRegister64 :: "'p reg_api \<Rightarrow> 'p \<Rightarrow> u32 \<Rightarrow> xreg \<Rightarrow> u64 result" where
  "GetRegister64 api p i r = CheckSome (get_register api p i r) ''WHvGetVirtualProcessorRegisters''"

definition SetRip :: "'p reg_api \<Rightarrow> 'p \<Rightarrow> u32 \<Rightarrow> u64 \<Rightarrow> 'p result" where
  "SetRip api p i rip = CheckSome (set_registers api p i [(RIP, rip)]) ''WHvSetVirtualProcessorRegisters(RIP)''"

definition SetRaxRip :: "'p reg_api \<Rightarrow> 'p \<Rightarrow> u32 \<Rightarrow> u64 \<Rightarrow> u64 \<Rightarrow> 'p result" where
  "SetRaxRip api p i rax rip = CheckSome (set_registers api p i [(RAX, rax), (RIP, rip)]) ''WHvSetVirtualProcessorRegisters(RAX/RIP)''"

section \<open>The length of an I/O instruction\<close>

record io_context =
  io_count :: u8
  io_bytes :: bytes
  io_port :: u16
  io_is_write :: bool
  io_size :: u8
  io_string :: bool
  io_rep :: bool
  io_rax :: u64

definition io_prefix :: "u8 \<Rightarrow> bool" where
  "io_prefix byte \<longleftrightarrow> byte = 0x66 \<or> byte = 0x67 \<or> byte = 0xF2 \<or> byte = 0xF3 \<or> byte = 0x2E \<or> byte = 0x36 \<or> byte = 0x3E \<or> byte = 0x26 \<or>
     byte = 0x64 \<or> byte = 0x65 \<or> (0x40 \<le> byte \<and> byte \<le> 0x4F)"

text \<open>The while loop over the 16 instruction bytes.\<close>

function skip_prefixes :: "bytes \<Rightarrow> nat \<Rightarrow> nat" where
  "skip_prefixes bs pos = (if pos < 16 \<and> io_prefix (bs ! pos) then skip_prefixes bs (pos + 1) else pos)"
  by pat_completeness auto
termination by (relation "measure (\<lambda>(_, pos). 16 - pos)") auto

declare skip_prefixes.simps [simp del]

definition DecodeIoInstructionLength :: "io_context \<Rightarrow> u8" where
  "DecodeIoInstructionLength io =
    (if io_count io \<noteq> 0 then io_count io
     else let pos = skip_prefixes (io_bytes io) 0
     in if 16 \<le> pos then 0
        else let op = io_bytes io ! pos
             in if op \<in> {0xE4, 0xE5, 0xE6, 0xE7} then of_nat pos + 2
                else if op \<in> {0xEC, 0xED, 0xEE, 0xEF} then of_nat pos + 1 else 0)"

definition TranslateGuestAddress :: "'p reg_api \<Rightarrow> 'p \<Rightarrow> u32 \<Rightarrow> u64 \<Rightarrow> bool \<times> u64" where
  "TranslateGuestAddress api p i gva = translate_gva api p i gva"

definition FetchGuestInstructionByte :: "'p reg_api \<Rightarrow> 'p \<Rightarrow> u32 \<Rightarrow> guest_memory \<Rightarrow> u64 \<Rightarrow> u8 result" where
  "FetchGuestInstructionByte api p i guest gva =
    (let gpa = snd (TranslateGuestAddress api p i gva) in rbind (gm_ptr guest gpa 1) (\<lambda>q. Inr (gm_data guest q)))"

text \<open>The loop of PrepareWhpIoContext over the instruction bytes.\<close>

fun fetch_bytes :: "(u64 \<Rightarrow> u8 result) \<Rightarrow> u64 \<Rightarrow> nat list \<Rightarrow> bytes \<Rightarrow> bytes result" where
  "fetch_bytes fetch rip [] bs = Inr bs"
| "fetch_bytes fetch rip (k # ks) bs = rbind (fetch (rip + of_nat k)) (\<lambda>b. fetch_bytes fetch rip ks (bs[k := b]))"

definition PrepareWhpIoContext :: "'p reg_api \<Rightarrow> 'p \<Rightarrow> u32 \<Rightarrow> guest_memory \<Rightarrow> u64 \<Rightarrow> io_context \<Rightarrow> io_context result" where
  "PrepareWhpIoContext api p i guest rip io =
    rbind (GetRegister64 api p i RAX) (\<lambda>rax.
      let io = io\<lparr>io_rax := rax\<rparr>
      in if io_count io = 0
         then rbind (fetch_bytes (FetchGuestInstructionByte api p i guest) rip [0 ..< 16] (io_bytes io)) (\<lambda>bs.
           let io = io\<lparr>io_bytes := bs\<rparr> in Inr (io\<lparr>io_count := DecodeIoInstructionLength io\<rparr>))
         else Inr io)"

section \<open>Port accesses without the emulator\<close>

definition io_mask :: "u8 \<Rightarrow> u32" where
  "io_mask sz = (if sz = 1 then 0xFF else if sz = 2 then 0xFFFF else 0xFFFFFFFF)"

text \<open>The accesses of HandleWhpIo to the devices: the machine, and the value a read puts into the low bits of RAX.\<close>

definition whp_io_device :: "'f host \<Rightarrow> moment \<Rightarrow> io_context \<Rightarrow> u32 \<Rightarrow> 'f machine \<Rightarrow> 'f machine \<times> u32" where
  "whp_io_device host t io data m =
    (let port = io_port io; one = (io_size io = 1); write = io_is_write io; b = ucast (data AND 0xFF) :: u8
     in if port = kNodeVmmExitPort \<and> one
     then if write then (m\<lparr>m_exit := \<lparr>ge_requested = True, ge_status = data AND 0xFF\<rparr>\<rparr>, 0) else (m, 0)
     else if port = kNodeVmmConsolePort \<and> one
     then if write then (uart_done (h_deliver host) (emit_bytes (m_uart m) [b]) m, 0) else (m, 0)
     else if kCom1Base \<le> port \<and> port < kCom1Base + 8 \<and> one
     then let off = port - kCom1Base
          in if write then (uart_done (h_deliver host) (uart_write (w_console t) (m_uart m) off b) m, 0)
             else case uart_read (m_uart m) off of (v, u) \<Rightarrow> (uart_done (h_deliver host) u m, ucast v)
     else if port = 0x61 \<and> one then (m, 0)
     else if (port = 0x70 \<or> port = 0x71) \<and> one
     then if write then (m\<lparr>m_cmos := cmos_write_port (m_cmos m) port b\<rparr>, 0)
          else case cmos_read_port (m_cmos m) port (w_wall t) of (v, c) \<Rightarrow> (m\<lparr>m_cmos := c\<rparr>, ucast v)
     else if kAcpiPmTimerPort \<le> port \<and> port < kAcpiPmTimerPort + 4 \<and> io_size io \<le> 4
     then if \<not> write then (m, pm_read (m_pm_started m) port (io_size io) (w_now t) AND io_mask (io_size io)) else (m, 0)
     else (m, 0))"

definition HandleWhpIo ::
  "'f host \<Rightarrow> moment \<Rightarrow> 'p reg_api \<Rightarrow> 'p \<Rightarrow> u32 \<Rightarrow> u64 \<Rightarrow> io_context \<Rightarrow> 'f machine \<Rightarrow> ('f machine \<times> 'p) result" where
  "HandleWhpIo host t api p i rip io m =
    rbind (Check (io_size io = 1 \<or> io_size io = 2 \<or> io_size io = 4) ''unsupported I/O access size'') (\<lambda>_.
    rbind (Check (\<not> io_string io \<and> \<not> io_rep io) ''string I/O is not supported yet'') (\<lambda>_.
    rbind (Check (io_count io \<noteq> 0) ''WHP I/O exit did not include a decodable instruction length'') (\<lambda>_.
    rbind (GetRegister64 api p i RAX) (\<lambda>rax.
      let mask = io_mask (io_size io); data = ucast rax AND mask; (m, v) = whp_io_device host t io data m;
          next_rip = rip + ucast (io_count io)
      in if io_is_write io then rbind (SetRip api p i next_rip) (\<lambda>p. Inr (m, p))
         else rbind (SetRaxRip api p i (rax AND NOT (ucast mask) OR ucast v) next_rip) (\<lambda>p. Inr (m, p))))))"

section \<open>CPUID and model-specific registers\<close>

definition kHvCpuidVendorAndMax :: u32 where "kHvCpuidVendorAndMax = 0x40000000"
definition kHvCpuidInterface :: u32 where "kHvCpuidInterface = 0x40000001"
definition kHvCpuidVersion :: u32 where "kHvCpuidVersion = 0x40000002"
definition kHvCpuidFeatures :: u32 where "kHvCpuidFeatures = 0x40000003"
definition kHvCpuidEnlightenmentInfo :: u32 where "kHvCpuidEnlightenmentInfo = 0x40000004"
definition kHvCpuidImplementationLimits :: u32 where "kHvCpuidImplementationLimits = 0x40000005"
definition kHvMsrGuestOsId :: u32 where "kHvMsrGuestOsId = 0x40000000"
definition kHvMsrHypercall :: u32 where "kHvMsrHypercall = 0x40000001"
definition kHvMsrVpIndex :: u32 where "kHvMsrVpIndex = 0x40000002"
definition kHvMsrTimeRefCount :: u32 where "kHvMsrTimeRefCount = 0x40000020"
definition kHvMsrTscFrequency :: u32 where "kHvMsrTscFrequency = 0x40000022"
definition kHvMsrApicFrequency :: u32 where "kHvMsrApicFrequency = 0x40000023"

lemmas hv_consts = kHvCpuidVendorAndMax_def kHvCpuidInterface_def kHvCpuidVersion_def kHvCpuidFeatures_def kHvCpuidEnlightenmentInfo_def
  kHvCpuidImplementationLimits_def kHvMsrGuestOsId_def kHvMsrHypercall_def kHvMsrVpIndex_def kHvMsrTimeRefCount_def
  kHvMsrTscFrequency_def kHvMsrApicFrequency_def

text \<open>The four registers after CPUID, from the hypervisor's default result; \<open>low\<close> is the conversion to uint32_t.\<close>

definition low :: "u64 \<Rightarrow> u64" where
  "low x = ucast (ucast x :: u32)"

definition cpuid_result :: "u32 \<Rightarrow> u32 \<Rightarrow> u64 \<Rightarrow> u64 \<Rightarrow> u64 \<Rightarrow> u64 \<Rightarrow> u64 \<times> u64 \<times> u64 \<times> u64" where
  "cpuid_result cpus leaf drax drbx drcx drdx =
    (let rax = low drax; rbx = low drbx; rcx = low drcx; rdx = low drdx
     in if leaf = 0x00000001 then (rax, rbx, (rcx OR push_bit 31 1) AND ucast (NOT (push_bit 24 1) :: u32), rdx)
        else if leaf = 0x00000006 then (rax AND ucast (NOT (push_bit 2 1) :: u32), rbx, rcx, rdx)
        else if leaf = 0x80000007 then (rax, rbx, rcx, rdx OR push_bit 8 1)
        else if leaf = kHvCpuidVendorAndMax then (ucast kHvCpuidImplementationLimits, 0x7263694D, 0x666F736F, 0x76482074)
        else if leaf = kHvCpuidInterface then (0x31237648, 0, 0, 0)
        else if leaf = kHvCpuidVersion then (0x00001DB1, 0x000A0000, 0, 0)
        else if leaf = kHvCpuidFeatures then (push_bit 5 1 OR push_bit 6 1 OR push_bit 11 1, 0, 0, push_bit 8 1)
        else if leaf = kHvCpuidEnlightenmentInfo then (0, 0, 0, 0)
        else if leaf = kHvCpuidImplementationLimits then (ucast (max 1 cpus), 0, 0, 0)
        else (rax, rbx, rcx, rdx))"

record cpuid_access =
  ca_rax :: u64
  ca_default_rax :: u64
  ca_default_rbx :: u64
  ca_default_rcx :: u64
  ca_default_rdx :: u64

definition HandleWhpCpuid :: "'p reg_api \<Rightarrow> 'p \<Rightarrow> u32 \<Rightarrow> u64 \<Rightarrow> u8 \<Rightarrow> cpuid_access \<Rightarrow> u32 \<Rightarrow> 'p result" where
  "HandleWhpCpuid api p i rip len c cpus =
    (case cpuid_result cpus (ucast (ca_rax c)) (ca_default_rax c) (ca_default_rbx c) (ca_default_rcx c) (ca_default_rdx c) of
       (rax, rbx, rcx, rdx) \<Rightarrow>
       CheckSome (set_registers api p i [(RAX, rax), (RBX, rbx), (RCX, rcx), (RDX, rdx), (RIP, rip + ucast len)])
         ''WHvSetVirtualProcessorRegisters(CPUID)'')"

record HyperVState =
  tsc_frequency_hz :: u64
  apic_frequency_hz :: u64
  guest_os_id :: u64
  hypercall :: u64
  hv_started_at :: int

definition time_ref_count :: "HyperVState \<Rightarrow> int \<Rightarrow> u64" where
  "time_ref_count hv now = (let elapsed = now - hv_started_at hv in if elapsed \<le> 0 then 0 else of_int elapsed div 100)"

record msr_access =
  ma_number :: u32
  ma_is_write :: bool
  ma_rax :: u64
  ma_rdx :: u64

definition msr_value :: "HyperVState \<Rightarrow> u32 \<Rightarrow> int \<Rightarrow> u32 \<Rightarrow> u64" where
  "msr_value hv i now n =
    (if n = kHvMsrGuestOsId then guest_os_id hv else if n = kHvMsrHypercall then hypercall hv
     else if n = kHvMsrVpIndex then ucast i else if n = kHvMsrTimeRefCount then time_ref_count hv now
     else if n = kHvMsrTscFrequency then tsc_frequency_hz hv else if n = kHvMsrApicFrequency then apic_frequency_hz hv else 0)"

definition HandleWhpMsr :: "'p reg_api \<Rightarrow> 'p \<Rightarrow> u32 \<Rightarrow> u64 \<Rightarrow> u8 \<Rightarrow> msr_access \<Rightarrow> int \<Rightarrow> HyperVState \<Rightarrow> ('p \<times> HyperVState) result" where
  "HandleWhpMsr api p i rip len a now hv =
    (let next_rip = rip + ucast len; write_value = (ma_rax a AND 0xFFFFFFFF) OR push_bit 32 (ma_rdx a AND 0xFFFFFFFF)
     in if ma_is_write a
        then let hv = (if ma_number a = kHvMsrGuestOsId then hv\<lparr>guest_os_id := write_value\<rparr>
                       else if ma_number a = kHvMsrHypercall then hv\<lparr>hypercall := write_value\<rparr> else hv)
             in rbind (SetRip api p i next_rip) (\<lambda>p. Inr (p, hv))
        else let val = msr_value hv i now (ma_number a)
             in rbind (SetRaxRip api p i (val AND 0xFFFFFFFF) next_rip) (\<lambda>p.
                rbind (CheckSome (set_registers api p i [(RDX, drop_bit 32 val)]) ''WHvSetVirtualProcessorRegisters(MSR RDX)'') (\<lambda>p.
                Inr (p, hv))))"

section \<open>Decoding\<close>

lemma skip_prefixes_run:
  assumes "list_all io_prefix ps" and "\<not> io_prefix b"
  shows "skip_prefixes (ps @ b # rest) (length ps - k) = (if length ps \<le> 16 then length ps else max 16 (length ps - k))"
  using assms
proof (induction k)
  case 0
  then show ?case by (subst skip_prefixes.simps) (simp add: nth_append)
next
  case (Suc k)
  show ?case
  proof (cases "k < length ps")
    case True
    then have pos: "Suc (length ps - Suc k) = length ps - k" by simp
    have "io_prefix ((ps @ b # rest) ! (length ps - Suc k))" using True Suc.prems(1) by (auto simp: nth_append list_all_length)
    then show ?thesis using Suc True pos by (subst skip_prefixes.simps) (auto simp: max_def)
  next
    case False
    then have "length ps - Suc k = length ps - k" by simp
    then show ?thesis using Suc by simp
  qed
qed

lemma skip_prefixes_zero:
  "list_all io_prefix ps \<Longrightarrow> \<not> io_prefix b \<Longrightarrow> length ps < 16 \<Longrightarrow> skip_prefixes (ps @ b # rest) 0 = length ps"
  using skip_prefixes_run [of ps b rest "length ps"] by simp

text \<open>The length of a port instruction is found behind any legal prefixes. For an instruction that the hypervisor did not
  decode, with at most 14 prefix bytes before its opcode, the decoder returns the number of prefixes plus two
  for the immediate forms of IN and OUT, plus one for the forms with DX, and zero, which the handler refuses, for every other opcode.\<close>
theorem DecodeIo_exact:
  assumes "list_all io_prefix ps" and "\<not> io_prefix op" and "length ps \<le> 14" and "io_bytes io = ps @ op # rest" and "io_count io = 0"
  shows "unat (DecodeIoInstructionLength io) =
    (if 0xE4 \<le> op \<and> op \<le> 0xE7 then length ps + 2 else if 0xEC \<le> op \<and> op \<le> 0xEF then length ps + 1 else 0)"
proof -
  have s: "skip_prefixes (io_bytes io) 0 = length ps" unfolding assms(4) by (rule skip_prefixes_zero) (use assms in simp_all)
  have op: "io_bytes io ! length ps = op" by (simp add: assms(4))
  have "op \<in> {0xE4, 0xE5, 0xE6, 0xE7} \<longleftrightarrow> 0xE4 \<le> op \<and> op \<le> 0xE7" "op \<in> {0xEC, 0xED, 0xEE, 0xEF} \<longleftrightarrow> 0xEC \<le> op \<and> op \<le> 0xEF"
    by (auto simp: word_le_nat_alt word_unat_eq_iff)
  moreover have "unat (of_nat (length ps) + 2 :: u8) = length ps + 2" "unat (of_nat (length ps) + 1 :: u8) = length ps + 1"
    using assms(3) by (simp_all add: unat_word_ariths unsigned_of_nat take_bit_nat_eq_self)
  ultimately show ?thesis unfolding DecodeIoInstructionLength_def Let_def s op using assms(3,5) by simp
qed

text \<open>The instruction out dx, ax with an operand-size prefix.\<close>

definition sample_io :: io_context where
  "sample_io = \<lparr>io_count = 0, io_bytes = [0x66, 0xEF] @ replicate 14 0x90, io_port = 0x3F8, io_is_write = True, io_size = 1,
     io_string = False, io_rep = False, io_rax = 0\<rparr>"

theorem DecodeIo_exact_witness: "unat (DecodeIoInstructionLength sample_io) = 2"
proof -
  have "list_all io_prefix [0x66]" "\<not> io_prefix 0xEF" "io_bytes sample_io = [0x66] @ 0xEF # replicate 14 0x90" "io_count sample_io = 0"
    by (simp_all add: io_prefix_def sample_io_def)
  from DecodeIo_exact [OF this(1,2) _ this(3,4)] show ?thesis by simp
qed

section \<open>The fallback agrees with the emulator\<close>

text \<open>The ports that only the emulator's callback knows.\<close>

definition emulator_only :: "u16 \<Rightarrow> bool" where
  "emulator_only port \<longleftrightarrow> port \<in> {0x20, 0x21, 0xA0, 0xA1, 0x40, 0x41, 0x42, 0x43, 0x61}"

lemma whp_io_device_agrees:
  assumes "\<not> emulator_only (io_port io)" and "io_size io = 1 \<or> io_size io = 2 \<or> io_size io = 4"
    and "EmulatorIoPort host t (io_is_write io) (io_port io) (ucast (io_size io)) data m = (m', v)"
  shows "fst (whp_io_device host t io data m) = m'" "\<not> io_is_write io \<Longrightarrow> snd (whp_io_device host t io data m) = v AND io_mask (io_size io)"
proof -
  let ?port = "io_port io"
  have port: "(?port = 0x20) = False" "(?port = 0x21) = False" "(?port = 0xA0) = False" "(?port = 0xA1) = False" "(?port = 0x61) = False"
      "(0x40 \<le> ?port \<and> ?port \<le> 0x43 \<and> io_size io = 1) = False"
    using assms(1) by (auto simp: emulator_only_def word_le_nat_alt word_unat_eq_iff)
  have sz: "((ucast (io_size io) :: u16) = 1) = (io_size io = 1)" "((ucast (io_size io) :: u16) \<le> 4) = True" "(io_size io \<le> 4) = True" "(ucast (ucast (io_size io) :: u16) :: u8) = io_size io"
    using assms(2) by auto
  have byte: "(ucast (x :: u8) :: u32) AND 0xFF = ucast x" for x by (rule bit_word_eqI) (auto simp: and_masks bit_simps dest: bit_imp_le_length)
  define f where "f x = (fst x, if io_is_write io then 0 else snd x AND io_mask (io_size io))" for x :: "'a machine \<times> u32"
  have push: "f (if c then x else y) = (if c then f x else f y)" for c x y by simp
  have swap: "(if a then x else if b then y else z) = (if b then y else if a then x else z)" if "\<not> (a \<and> b)" for a b and x y z :: "'a machine \<times> u32"
    using that by simp
  have apart: "\<not> ((kAcpiPmTimerPort \<le> ?port \<and> ?port < kAcpiPmTimerPort + 4) \<and> (?port = 0x70 \<or> ?port = 0x71) \<and> io_size io = 1)"
    by (auto simp: kAcpiPmTimerPort_def)
  have "whp_io_device host t io data m = f (EmulatorIoPort host t (io_is_write io) (io_port io) (ucast (io_size io)) data m)"
    unfolding EmulatorIoPort_def whp_io_device_def Let_def sz port if_False simp_thms swap [OF apart] push case_prod_beta
    by (intro if_cong refl; simp add: f_def byte io_mask_def)
  then show "fst (whp_io_device host t io data m) = m'" "\<not> io_is_write io \<Longrightarrow> snd (whp_io_device host t io data m) = v AND io_mask (io_size io)"
    using assms(3) by (simp_all add: f_def)
qed

lemma io_mask_bits:
  assumes "io_size io = 1 \<or> io_size io = 2 \<or> io_size io = 4"
  shows "bit (io_mask (io_size io)) k \<longleftrightarrow> k < 8 * unat (io_size io)"
proof -
  have "io_mask (io_size io) = mask (8 * unat (io_size io))"
    using assms by (auto simp: io_mask_def mask_eq_exp_minus_1)
  then show ?thesis using assms by (auto simp: bit_simps)
qed

text \<open>C10. The fallback for port accesses does what the emulator does. For every port but those of the interrupt controllers, the
  interval timer and the speaker, a single access of 1, 2 or 4 bytes changes the machine exactly as
  the callback of the emulator does with the low bytes of RAX; a read puts the callback's value into the
  low bytes of RAX and leaves its other bits, a write leaves RAX as it is; the instruction pointer moves behind the instruction and no other
  register changes.\<close>
theorem io_fallback_agrees:
  assumes "reg_laws api" and "get_register api p i RAX = Some rax" and "\<not> emulator_only (io_port io)"
    and "HandleWhpIo host t api p i rip io m = Inr (m', p')"
    and "EmulatorIoPort host t (io_is_write io) (io_port io) (ucast (io_size io)) (ucast rax AND io_mask (io_size io)) m = (n, v)"
  shows "m' = n \<and> get_register api p' i RIP = Some (rip + ucast (io_count io)) \<and>
    (\<exists>rax'. get_register api p' i RAX = Some rax' \<and> (\<forall>k < 64. bit rax' k =
       (if io_is_write io \<or> 8 * unat (io_size io) \<le> k then bit rax k else bit v k))) \<and>
    (\<forall>j r. j = i \<and> (r = RIP \<or> r = RAX) \<or> get_register api p' j r = get_register api p j r)"
proof -
  have sz: "io_size io = 1 \<or> io_size io = 2 \<or> io_size io = 4" using assms(4) by (simp add: HandleWhpIo_def)
  obtain d w where dev: "whp_io_device host t io (ucast rax AND io_mask (io_size io)) m = (d, w)"
    by (cases "whp_io_device host t io (ucast rax AND io_mask (io_size io)) m")
  have d: "d = n" "\<not> io_is_write io \<Longrightarrow> w = v AND io_mask (io_size io)"
    using whp_io_device_agrees [OF assms(3) sz assms(5)] dev by simp_all
  let ?rs = "if io_is_write io then [] else [(RAX, rax AND NOT (ucast (io_mask (io_size io))) OR ucast w)]"
  have p': "set_registers api p i (?rs @ [(RIP, rip + ucast (io_count io))]) = Some p'" and m': "m' = n"
    using assms(2,4) sz d dev
    by (auto simp: HandleWhpIo_def GetRegister64_def CheckSome_def SetRip_def SetRaxRip_def Let_def split: if_split_asm option.split_asm)
  have regs: "get_register api p' j r =
      (if j = i then case map_of (?rs @ [(RIP, rip + ucast (io_count io))]) r of Some x \<Rightarrow> Some x | None \<Rightarrow> get_register api p j r
       else get_register api p j r)" for j r
    using assms(1) p' unfolding reg_laws_def by blast
  have bits: "bit (rax AND NOT (ucast (io_mask (io_size io))) OR ucast w) k = (if 8 * unat (io_size io) \<le> k then bit rax k else bit v k)"
    if "\<not> io_is_write io" "k < 64" for k
    using that d(2) sz by (auto simp: bit_simps io_mask_bits [OF sz])
  show ?thesis using m' bits by (cases "io_is_write io") (auto simp: regs assms(2))
qed


text \<open>The registers of each processor as a function.\<close>

definition plain_reg_api :: "(u32 \<Rightarrow> xreg \<Rightarrow> u64) reg_api" where
  "plain_reg_api = \<lparr>get_register = \<lambda>p i r. Some (p i r),
     set_registers = \<lambda>p i rs. Some (\<lambda>j r. if j = i then case map_of rs r of Some v \<Rightarrow> v | None \<Rightarrow> p j r else p j r),
     translate_gva = \<lambda>_ _ gva. (True, gva)\<rparr>"

lemma plain_reg_laws: "reg_laws plain_reg_api"
  by (auto simp: reg_laws_def plain_reg_api_def split: option.split)

text \<open>Reading the line status register of an idle serial port.\<close>

theorem io_fallback_agrees_witness:
  "\<exists>m' p' rax'. HandleWhpIo sample_host sample_moment plain_reg_api (\<lambda>_ _. 0xAABBCC00) 0 0x1000
      (sample_io\<lparr>io_count := 1, io_port := 0x3FD, io_is_write := False\<rparr>) sample_machine = Inr (m', p') \<and>
    get_register plain_reg_api p' 0 RIP = Some 0x1001 \<and> get_register plain_reg_api p' 0 RAX = Some rax' \<and> bit rax' 9 = bit (0xAABBCC00 :: u64) 9"
proof -
  let ?io = "sample_io\<lparr>io_count := 1, io_port := 0x3FD, io_is_write := False\<rparr>"
  let ?p = "\<lambda>_ _. 0xAABBCC00 :: u64"
  obtain n v where e: "EmulatorIoPort sample_host sample_moment (io_is_write ?io) (io_port ?io) (ucast (io_size ?io))
      (ucast (0xAABBCC00 :: u64) AND io_mask (io_size ?io)) sample_machine = (n, v)" by fastforce
  obtain m' p' where h: "HandleWhpIo sample_host sample_moment plain_reg_api ?p 0 0x1000 ?io sample_machine = Inr (m', p')"
    by (simp add: HandleWhpIo_def sample_io_def GetRegister64_def SetRip_def SetRaxRip_def CheckSome_def plain_reg_api_def Let_def case_prod_beta)
  have "get_register plain_reg_api ?p 0 RAX = Some 0xAABBCC00" "\<not> emulator_only (io_port ?io)"
    by (simp_all add: plain_reg_api_def emulator_only_def)
  from io_fallback_agrees [OF plain_reg_laws this h e]
  obtain rax' where "get_register plain_reg_api p' 0 RIP = Some 0x1001" "get_register plain_reg_api p' 0 RAX = Some rax'"
      "\<forall>k < 64. bit rax' k = (if io_is_write ?io \<or> 8 * unat (io_size ?io) \<le> k then bit (0xAABBCC00 :: u64) k else bit v k)"
    by auto
  then have "bit rax' 9 = bit (0xAABBCC00 :: u64) 9" by (auto simp: sample_io_def dest: spec [of _ 9])
  with \<open>get_register plain_reg_api p' 0 RIP = Some 0x1001\<close> \<open>get_register plain_reg_api p' 0 RAX = Some rax'\<close> h show ?thesis by blast
qed

text \<open>Opening the gate of the speaker timer through port 0x61, by which Linux calibrates its clock: the emulator's callback opens it, the fallback
  ignores the write.\<close>

theorem port61_fallback_ignores_gate:
  "pit_channel2_gated (m_pit (fst (EmulatorIoPort sample_host sample_moment True 0x61 1 1 sample_machine))) \<and>
   (\<exists>m' p'. HandleWhpIo sample_host sample_moment plain_reg_api (\<lambda>_ _. 1) 0 0x1000 (sample_io\<lparr>io_count := 1, io_port := 0x61\<rparr>) sample_machine =
      Inr (m', p') \<and> \<not> pit_channel2_gated (m_pit m'))"
  by (simp add: EmulatorIoPort_def HandleWhpIo_def whp_io_device_def sample_io_def GetRegister64_def SetRip_def CheckSome_def plain_reg_api_def
      Let_def kNodeVmmExitPort_def kNodeVmmConsolePort_def kCom1Base_def pit_set_channel2_gate_def)
    (simp add: sample_machine_def machine_init_def Let_def pit_init_def pit_schedule_next_irq_def)

section \<open>CPUID and MSRs\<close>

lemma bit_low: "bit (low x) k \<longleftrightarrow> k < 32 \<and> bit x k"
  by (auto simp: low_def bit_simps dest: bit_imp_le_length)

text \<open>A write to the two writable registers of the Hyper-V interface is read back. After an accepted WRMSR of the guest's identity or
  of its hypercall page, an accepted RDMSR of the same register on any processor returns the written 64 bits in EDX and EAX, with
  the upper halves of both registers zero, and moves the instruction pointer on; nothing but that register of the interface has
  changed.\<close>
theorem msr_roundtrip:
  assumes "reg_laws api" and "n = kHvMsrGuestOsId \<or> n = kHvMsrHypercall"
    and "HandleWhpMsr api p i rip len \<lparr>ma_number = n, ma_is_write = True, ma_rax = rax, ma_rdx = rdx\<rparr> now hv = Inr (p1, hv1)"
    and "HandleWhpMsr api q j rip2 len2 \<lparr>ma_number = n, ma_is_write = False, ma_rax = a, ma_rdx = d\<rparr> now2 hv1 = Inr (q1, hv2)"
  shows "get_register api q1 j RAX = Some (low rax) \<and> get_register api q1 j RDX = Some (low rdx) \<and>
    get_register api q1 j RIP = Some (rip2 + ucast len2) \<and> hv2 = hv1 \<and>
    hv1 = (if n = kHvMsrGuestOsId then hv\<lparr>guest_os_id := low rax OR push_bit 32 (low rdx)\<rparr> else hv\<lparr>hypercall := low rax OR push_bit 32 (low rdx)\<rparr>)"
proof -
  have mask: "x AND 0xFFFFFFFF = low x" for x :: u64
    by (rule bit_word_eqI) (auto simp: bit_low and_masks bit_simps)
  let ?w = "low rax OR push_bit 32 (low rdx)"
  have val: "low ?w = low rax" "drop_bit 32 ?w = low rdx"
    by (rule bit_word_eqI; auto simp: bit_low bit_simps dest: bit_imp_le_length)+
  have hv1: "hv1 = (if n = kHvMsrGuestOsId then hv\<lparr>guest_os_id := ?w\<rparr> else hv\<lparr>hypercall := ?w\<rparr>)"
    using assms(2,3) by (auto simp: HandleWhpMsr_def mask hv_consts Let_def split: if_splits)
  then have v: "msr_value hv1 j now2 n = ?w" using assms(2) by (auto simp: msr_value_def hv_consts)
  obtain q0 where q0: "set_registers api q j [(RAX, low rax), (RIP, rip2 + ucast len2)] = Some q0"
      and q1: "set_registers api q0 j [(RDX, low rdx)] = Some q1" and "hv2 = hv1"
    using assms(4) unfolding HandleWhpMsr_def Let_def msr_access.simps v mask val by (auto simp: SetRaxRip_def CheckSome_def split: option.splits)
  have r0: "get_register api q0 j r = (case map_of [(RAX, low rax), (RIP, rip2 + ucast len2)] r of Some v \<Rightarrow> Some v | None \<Rightarrow> get_register api q j r)" for r
    using assms(1) q0 unfolding reg_laws_def by (metis (no_types, lifting))
  have r1: "get_register api q1 j r = (case map_of [(RDX, low rdx)] r of Some v \<Rightarrow> Some v | None \<Rightarrow> get_register api q0 j r)" for r
    using assms(1) q1 unfolding reg_laws_def by (metis (no_types, lifting))
  show ?thesis using hv1 \<open>hv2 = hv1\<close> by (simp add: r1 r0)
qed


theorem msr_roundtrip_witness:
  "\<exists>p1 hv1 q1. HandleWhpMsr plain_reg_api (\<lambda>_ _. 0) 0 0x1000 2 \<lparr>ma_number = kHvMsrGuestOsId, ma_is_write = True, ma_rax = 0x11223344, ma_rdx = 0x8100\<rparr> 0
      \<lparr>tsc_frequency_hz = 1, apic_frequency_hz = 1, guest_os_id = 0, hypercall = 0, hv_started_at = 0\<rparr> = Inr (p1, hv1) \<and>
    HandleWhpMsr plain_reg_api p1 1 0x2000 2 \<lparr>ma_number = kHvMsrGuestOsId, ma_is_write = False, ma_rax = 0, ma_rdx = 0\<rparr> 5 hv1 = Inr (q1, hv1) \<and>
    get_register plain_reg_api q1 1 RAX = Some (low 0x11223344) \<and> get_register plain_reg_api q1 1 RDX = Some (low 0x8100)"
proof -
  let ?w = "\<lparr>ma_number = kHvMsrGuestOsId, ma_is_write = True, ma_rax = 0x11223344, ma_rdx = 0x8100\<rparr>"
  let ?r = "\<lparr>ma_number = kHvMsrGuestOsId, ma_is_write = False, ma_rax = 0, ma_rdx = 0\<rparr>"
  let ?hv = "\<lparr>tsc_frequency_hz = 1, apic_frequency_hz = 1, guest_os_id = 0, hypercall = 0, hv_started_at = 0\<rparr>"
  obtain p1 hv1 where w: "HandleWhpMsr plain_reg_api (\<lambda>_ _. 0) 0 0x1000 2 ?w 0 ?hv = Inr (p1, hv1)"
    by (simp add: HandleWhpMsr_def SetRip_def CheckSome_def plain_reg_api_def Let_def)
  obtain q1 hv2 where r: "HandleWhpMsr plain_reg_api p1 1 0x2000 2 ?r 5 hv1 = Inr (q1, hv2)"
    by (simp add: HandleWhpMsr_def SetRaxRip_def CheckSome_def plain_reg_api_def Let_def)
  show ?thesis using msr_roundtrip [OF plain_reg_laws _ w r] w r by blast
qed

text \<open>The leaves of CPUID that the handler changes: leaf 1 shows a hypervisor and hides the deadline timer, leaf 6 hides the
  always-running timer, leaf 0x80000007 shows an invariant clock; every other bit of them is the hypervisor's.\<close>

lemma bit_set_one: "bit (x OR push_bit n 1 :: u64) k \<longleftrightarrow> bit x k \<or> k = n \<and> n < 64"
  by (auto simp: bit_simps)

lemma bit_clear_one: "n < 32 \<Longrightarrow> bit (x AND ucast (NOT (push_bit n 1) :: u32) :: u64) k \<longleftrightarrow> k < 32 \<and> k \<noteq> n \<and> bit x k"
  by (auto simp: bit_simps)

lemma cpuid_leaf_bits:
  "cpuid_result cpus 1 a b c d = (low a, low b, r1, low d) \<Longrightarrow> bit r1 k \<longleftrightarrow> k = 31 \<or> k \<noteq> 24 \<and> bit (low c) k"
  "cpuid_result cpus 6 a b c d = (r6, low b, low c, low d) \<Longrightarrow> bit r6 k \<longleftrightarrow> k \<noteq> 2 \<and> bit (low a) k"
  "cpuid_result cpus 0x80000007 a b c d = (low a, low b, low c, r7) \<Longrightarrow> bit r7 k \<longleftrightarrow> k = 8 \<or> bit (low d) k"
proof -
  have lt: "(24 :: nat) < 32" "(2 :: nat) < 32" by simp_all
  have r: "cpuid_result cpus 1 a b c d = (low a, low b, (low c OR push_bit 31 1) AND ucast (NOT (push_bit 24 1) :: u32), low d)"
    "cpuid_result cpus 6 a b c d = (low a AND ucast (NOT (push_bit 2 1) :: u32), low b, low c, low d)"
    "cpuid_result cpus 0x80000007 a b c d = (low a, low b, low c, low d OR push_bit 8 1)"
    by (simp_all add: cpuid_result_def hv_consts)
  have bits: "bit ((low c OR push_bit 31 1) AND ucast (NOT (push_bit 24 1) :: u32)) k \<longleftrightarrow> k = 31 \<or> k \<noteq> 24 \<and> bit (low c) k"
    "bit (low a AND ucast (NOT (push_bit 2 1) :: u32)) k \<longleftrightarrow> k \<noteq> 2 \<and> bit (low a) k"
    "bit (low d OR push_bit 8 1) k \<longleftrightarrow> k = 8 \<or> bit (low d) k"
    unfolding bit_clear_one [OF lt(1)] bit_clear_one [OF lt(2)] bit_set_one bit_low by auto
  show "cpuid_result cpus 1 a b c d = (low a, low b, r1, low d) \<Longrightarrow> bit r1 k \<longleftrightarrow> k = 31 \<or> k \<noteq> 24 \<and> bit (low c) k"
    "cpuid_result cpus 6 a b c d = (r6, low b, low c, low d) \<Longrightarrow> bit r6 k \<longleftrightarrow> k \<noteq> 2 \<and> bit (low a) k"
    "cpuid_result cpus 0x80000007 a b c d = (low a, low b, low c, r7) \<Longrightarrow> bit r7 k \<longleftrightarrow> k = 8 \<or> bit (low d) k"
    using bits unfolding r prod.inject by blast+
qed

end
