(* ===== verification/Hvf_Layout.thy ===== *)
theory Hvf_Layout
  imports Bytes
begin

unbundle bit_operations_syntax

text \<open>
  The address map of the Arm machine (native/hvf/backend.cc): device windows, interrupt numbers, and the
  view of guest RAM, whose first byte has the guest address \<open>kRamBase\<close>. A pointer into the host
  buffer is its offset.
\<close>

section \<open>Constants\<close>

definition kGicDistBase :: u64 where [source_consts]: "kGicDistBase = 0x08000000"
definition kGicRedistBase :: u64 where [source_consts]: "kGicRedistBase = 0x080A0000"
definition kUartBase :: u64 where [source_consts]: "kUartBase = 0x09000000"
definition kPl031RtcBase :: u64 where [source_consts]: "kPl031RtcBase = 0x09010000"
definition kFwCfgBase :: u64 where [source_consts]: "kFwCfgBase = 0x09020000"
definition kPl061GpioBase :: u64 where [source_consts]: "kPl061GpioBase = 0x09030000"
definition arm_VirtioMmioBase :: u64 where [source_consts]: "arm_VirtioMmioBase = 0x0A000000"
definition kVirtioMmioSize :: u64 where [source_consts]: "kVirtioMmioSize = 0x200"
definition kVirtioMmioStride :: u64 where [source_consts]: "kVirtioMmioStride = 0x200"
definition kVirtioMmioCount :: u32 where [source_consts]: "kVirtioMmioCount = 32"
definition kExitDevBase :: u64 where [source_consts]: "kExitDevBase = 0x0B000000"
definition kPcieMmioBase :: u64 where [source_consts]: "kPcieMmioBase = 0x10000000"
definition kPcieMmioSize :: u64 where [source_consts]: "kPcieMmioSize = 0x2EFF0000"
definition kPciePioBase :: u64 where [source_consts]: "kPciePioBase = 0x3EFF0000"
definition kPciePioSize :: u64 where [source_consts]: "kPciePioSize = 0x00010000"
definition kPcieEcamBase :: u64 where [source_consts]: "kPcieEcamBase = 0x3F000000"
definition kPcieEcamSize :: u64 where [source_consts]: "kPcieEcamSize = 0x01000000"
definition kRamBase :: u64 where [source_consts]: "kRamBase = 0x40000000"
definition kDtbOffset :: u64 where [source_consts]: "kDtbOffset = 0x00000000"
definition kKernelOffset :: u64 where [source_consts]: "kKernelOffset = 0x00400000"
definition kGicRedistributorBytesPerCpu :: u32 where [source_consts]: "kGicRedistributorBytesPerCpu = 0x20000"
definition kUartSpi :: u32 where [source_consts]: "kUartSpi = 1"
definition kRtcSpi :: u32 where [source_consts]: "kRtcSpi = 2"
definition kPcieFirstSpi :: u32 where [source_consts]: "kPcieFirstSpi = 3"
definition kPcieIntxCount :: u32 where [source_consts]: "kPcieIntxCount = 4"
definition kGpioSpi :: u32 where [source_consts]: "kGpioSpi = 7"
definition kVirtioFirstSpi :: u32 where [source_consts]: "kVirtioFirstSpi = 16"
definition kUartIntid :: u32 where [source_consts]: "kUartIntid = 32 + kUartSpi"
definition kPciRangeIoPort :: u32 where [source_consts]: "kPciRangeIoPort = 0x01000000"
definition kPciRangeMmio32 :: u32 where [source_consts]: "kPciRangeMmio32 = 0x02000000"

definition VirtioMmioBaseForSlot :: "u32 \<Rightarrow> u64" where
  "VirtioMmioBaseForSlot slot = arm_VirtioMmioBase + ucast slot * kVirtioMmioStride"

definition VirtioMmioIntidForSlot :: "u32 \<Rightarrow> u32" where
  "VirtioMmioIntidForSlot slot = 32 + kVirtioFirstSpi + slot"

definition IsQemuVirtioMmioAddress :: "u64 \<Rightarrow> bool" where
  "IsQemuVirtioMmioAddress ipa \<longleftrightarrow>
     arm_VirtioMmioBase \<le> ipa \<and> ipa < arm_VirtioMmioBase + ucast kVirtioMmioCount * kVirtioMmioStride"

definition VirtioMmioOffset :: "u64 \<Rightarrow> u64" where
  "VirtioMmioOffset ipa = (ipa - arm_VirtioMmioBase) mod kVirtioMmioStride"

definition PcieBusCount :: u32 where
  "PcieBusCount = ucast (kPcieEcamSize div 0x100000)"

definition GicRedistributorBytes :: "u32 \<Rightarrow> u32" where
  "GicRedistributorBytes cpus = kGicRedistributorBytesPerCpu * cpus"

section \<open>Guest RAM\<close>

text \<open>The host buffer and its size; bytes beyond the size stand for the host memory behind it.\<close>

record arm_memory =
  am_data :: ram
  am_size :: u64

definition contains_guest_range :: "arm_memory \<Rightarrow> u64 \<Rightarrow> u64 \<Rightarrow> bool" where
  "contains_guest_range mem gpa n =
    (if gpa < kRamBase then False
     else let off = gpa - kRamBase in off \<le> am_size mem \<and> n \<le> am_size mem - off)"

definition arm_offset :: "arm_memory \<Rightarrow> u64 \<Rightarrow> u64 \<Rightarrow> nat result" where
  "arm_offset mem gpa n =
    (let off = (if kRamBase \<le> gpa then gpa - kRamBase else gpa)
     in rbind (Check (off \<le> am_size mem \<and> n \<le> am_size mem - off) ''guest memory access out of bounds'') (\<lambda>_. Inr (unat off)))"

definition guest_offset :: "arm_memory \<Rightarrow> u64 \<Rightarrow> u64 \<Rightarrow> nat result" where
  "guest_offset mem gpa n =
    rbind (Check (contains_guest_range mem gpa n) ''guest physical memory access out of bounds'') (\<lambda>_. Inr (unat (gpa - kRamBase)))"

lemma guest_offset_Inr:
  "guest_offset mem gpa n = Inr p \<longleftrightarrow>
     unat kRamBase \<le> unat gpa \<and> p = unat gpa - unat kRamBase \<and> p + unat n \<le> unat (am_size mem)"
proof (cases "kRamBase \<le> gpa")
  case True
  then have off: "unat (gpa - kRamBase) = unat gpa - unat kRamBase" by (rule unat_diff_le)
  show ?thesis
  proof (cases "gpa - kRamBase \<le> am_size mem")
    case inside: True
    then have "unat (am_size mem - (gpa - kRamBase)) = unat (am_size mem) - (unat gpa - unat kRamBase)"
      by (simp add: unat_diff_le off)
    then have "n \<le> am_size mem - (gpa - kRamBase) \<longleftrightarrow> unat gpa - unat kRamBase + unat n \<le> unat (am_size mem)"
      using inside by (auto simp: word_le_nat_alt off)
    then show ?thesis using True inside
      by (auto simp: guest_offset_def contains_guest_range_def Let_def off word_le_nat_alt word_less_nat_alt)
  next
    case False
    then show ?thesis
      by (auto simp: guest_offset_def contains_guest_range_def Let_def off word_le_nat_alt)
  qed
next
  case False
  then show ?thesis by (auto simp: guest_offset_def contains_guest_range_def word_le_nat_alt word_less_nat_alt)
qed

end
