(* ===== verification/Fdt.thy ===== *)
theory Fdt
  imports Hvf_Layout
begin

unbundle bit_operations_syntax

text \<open>
  The flattened device tree that the Arm machine hands to its kernel (class FdtBuilder of
  native/hvf/backend.cc). The builder is a list of appending operations run in the order of the code; the
  random bytes of the host are parameters. A reader written from the device tree specification checks the
  header, splits the blob into its blocks, decodes the token stream and rebuilds the tree.
\<close>

section \<open>The builder\<close>

text \<open>The bytes that WriteU32BE and WriteU64BE store.\<close>

definition WriteU32BE :: "u32 \<Rightarrow> bytes" where
  "WriteU32BE v = [ucast (drop_bit 24 v), ucast (drop_bit 16 v), ucast (drop_bit 8 v), ucast v]"

definition WriteU64BE :: "u64 \<Rightarrow> bytes" where
  "WriteU64BE v = WriteU32BE (ucast (drop_bit 32 v)) @ WriteU32BE (ucast v)"

definition RandomU64 :: "bytes \<Rightarrow> u64" where
  "RandomU64 data = fold (\<lambda>i out. out OR push_bit (8 * i) (ucast (data ! i))) [0 ..< 8] 0"

text \<open>snprintf with \%x.\<close>

definition hex_digit :: "nat \<Rightarrow> char" where
  "hex_digit n = (if n < 10 then char_of (48 + n) else char_of (87 + n))"

fun to_hex :: "nat \<Rightarrow> string" where
  "to_hex n = (if n < 16 then [hex_digit n] else to_hex (n div 16) @ [hex_digit (n mod 16)])"

declare to_hex.simps [simp del]

definition ToHex :: "u32 \<Rightarrow> string" where "ToHex v = to_hex (unat v)"
definition ToHex64 :: "u64 \<Rightarrow> string" where "ToHex64 v = to_hex (unat v)"

record fdt =
  fdt_buf :: bytes
  fdt_str :: bytes

type_synonym fdt_op = "fdt \<Rightarrow> fdt"

definition FDT_BEGIN_NODE :: u32 where "FDT_BEGIN_NODE = 1"
definition FDT_END_NODE :: u32 where "FDT_END_NODE = 2"
definition FDT_PROP :: u32 where "FDT_PROP = 3"
definition FDT_END :: u32 where "FDT_END = 9"

definition AppendU32 :: "u32 \<Rightarrow> fdt_op" where
  "AppendU32 v f = f\<lparr>fdt_buf := fdt_buf f @ WriteU32BE v\<rparr>"

definition AppendStr :: "string \<Rightarrow> fdt_op" where
  "AppendStr s f = f\<lparr>fdt_buf := fdt_buf f @ string_bytes s @ [0]\<rparr>"

definition Align4 :: fdt_op where
  "Align4 f = f\<lparr>fdt_buf := fdt_buf f @ replicate ((4 - length (fdt_buf f) mod 4) mod 4) 0\<rparr>"

definition AddString :: "string \<Rightarrow> fdt \<Rightarrow> u32 \<times> fdt" where
  "AddString s f = (of_nat (length (fdt_str f)), f\<lparr>fdt_str := fdt_str f @ string_bytes s @ [0]\<rparr>)"

text \<open>The data of a property is a list that holds at least \<open>n\<close> bytes, so the test for a null pointer
  never fails.\<close>

definition AppendPropRaw :: "string \<Rightarrow> bytes \<Rightarrow> u32 \<Rightarrow> fdt_op" where
  "AppendPropRaw name data n f =
    (let f = AppendU32 FDT_PROP f;
         f = AppendU32 n f;
         (off, f) = AddString name f;
         f = AppendU32 off f;
         f = (if 0 < n then f\<lparr>fdt_buf := fdt_buf f @ take (unat n) data\<rparr> else f)
     in Align4 f)"

definition AppendPropU32 :: "string \<Rightarrow> u32 \<Rightarrow> fdt_op" where
  "AppendPropU32 name v = AppendPropRaw name (WriteU32BE v) 4"

definition AppendPropU64 :: "string \<Rightarrow> u64 \<Rightarrow> fdt_op" where
  "AppendPropU64 name v = AppendPropRaw name (WriteU64BE v) 8"

definition AppendPropStr :: "string \<Rightarrow> string \<Rightarrow> fdt_op" where
  "AppendPropStr name v = AppendPropRaw name (string_bytes v @ [0]) (of_nat (length v + 1))"

definition AppendPropStringList :: "string \<Rightarrow> string list \<Rightarrow> fdt_op" where
  "AppendPropStringList name vs =
    (let data = concat (map (\<lambda>v. string_bytes v @ [0]) vs) in AppendPropRaw name data (of_nat (length data)))"

definition AppendPropFlag :: "string \<Rightarrow> fdt_op" where
  "AppendPropFlag name = AppendPropRaw name [] 0"

definition AppendPropReg :: "string \<Rightarrow> u64 \<Rightarrow> u64 \<Rightarrow> fdt_op" where
  "AppendPropReg name base sz =
    AppendPropRaw name (WriteU32BE (ucast (drop_bit 32 base)) @ WriteU32BE (ucast base)
      @ WriteU32BE (ucast (drop_bit 32 sz)) @ WriteU32BE (ucast sz)) 16"

text \<open>A local array filled by WriteU32BE at successive offsets, and its size.\<close>

definition AppendPropCells :: "string \<Rightarrow> u32 list \<Rightarrow> fdt_op" where
  "AppendPropCells name cells = AppendPropRaw name (concat (map WriteU32BE cells)) (of_nat (4 * length cells))"

definition AppendVirtioNode :: "u64 \<Rightarrow> u32 \<Rightarrow> fdt_op list" where
  "AppendVirtioNode base spi =
    [AppendU32 FDT_BEGIN_NODE, AppendStr (''virtio_mmio@'' @ ToHex64 base), Align4,
     AppendPropStr ''compatible'' ''virtio,mmio'', AppendPropReg ''reg'' base kVirtioMmioSize,
     AppendPropU32 ''interrupt-parent'' 1, AppendPropCells ''interrupts'' [0, spi, 1],
     AppendPropFlag ''dma-coherent'', AppendU32 FDT_END_NODE]"

definition pcie_interrupt_map :: "u32 list" where
  "pcie_interrupt_map =
    concat (map (\<lambda>slot. concat (map (\<lambda>pin.
      [push_bit 11 slot, 0, 0, pin + 1, 1, 0, 0, 0, kPcieFirstSpi + (pin + slot) mod kPcieIntxCount, 4])
        [0, 1, 2, 3])) [0, 1, 2, 3])"

definition cpu_node_ops :: "u32 \<Rightarrow> u32 \<Rightarrow> fdt_op list" where
  "cpu_node_ops cpus i =
    [AppendU32 FDT_BEGIN_NODE, AppendStr (''cpu@'' @ ToHex i), Align4,
     AppendPropStr ''device_type'' ''cpu'', AppendPropStr ''compatible'' ''arm,arm-v8'', AppendPropU32 ''reg'' i]
    @ (if 1 < cpus then [AppendPropStr ''enable-method'' ''psci''] else [])
    @ [AppendU32 FDT_END_NODE]"

definition root_ops :: "string \<Rightarrow> bytes \<Rightarrow> bytes \<Rightarrow> fdt_op list" where
  "root_ops cmdline rnd8 rnd32 =
    [AppendU32 FDT_BEGIN_NODE, AppendStr '''', Align4,
     AppendPropU32 ''#address-cells'' 2, AppendPropU32 ''#size-cells'' 2,
     AppendPropStr ''compatible'' ''linux,dummy-virt'', AppendPropStr ''model'' ''node-vmm-hvf'',
     AppendPropU32 ''interrupt-parent'' 1, AppendPropFlag ''dma-coherent'',
     AppendU32 FDT_BEGIN_NODE, AppendStr ''aliases'', Align4,
     AppendPropStr ''serial0'' ''/pl011@9000000'', AppendU32 FDT_END_NODE,
     AppendU32 FDT_BEGIN_NODE, AppendStr ''chosen'', Align4,
     AppendPropStr ''bootargs'' cmdline, AppendPropStr ''stdout-path'' ''/pl011@9000000'',
     AppendPropU64 ''kaslr-seed'' (RandomU64 rnd8), AppendPropRaw ''rng-seed'' rnd32 32, AppendU32 FDT_END_NODE]"

definition cpus_ops :: "u32 \<Rightarrow> fdt_op list" where
  "cpus_ops cpus =
    [AppendU32 FDT_BEGIN_NODE, AppendStr ''cpus'', Align4,
     AppendPropU32 ''#address-cells'' 1, AppendPropU32 ''#size-cells'' 0]
    @ concat (map (\<lambda>i. cpu_node_ops cpus (of_nat i)) [0 ..< unat cpus])
    @ [AppendU32 FDT_END_NODE,
     AppendU32 FDT_BEGIN_NODE, AppendStr ''psci'', Align4,
     AppendPropStringList ''compatible'' [''arm,psci-1.0'', ''arm,psci-0.2'', ''arm,psci''],
     AppendPropStr ''method'' ''hvc'', AppendU32 FDT_END_NODE]"

definition memory_ops :: "u64 \<Rightarrow> u64 \<Rightarrow> u32 \<Rightarrow> fdt_op list" where
  "memory_ops ram_base ram_size cpus =
    [AppendU32 FDT_BEGIN_NODE, AppendStr (''memory@'' @ ToHex64 ram_base), Align4,
     AppendPropStr ''device_type'' ''memory'', AppendPropReg ''reg'' ram_base ram_size, AppendU32 FDT_END_NODE,
     AppendU32 FDT_BEGIN_NODE, AppendStr ''intc@8000000'', Align4,
     AppendPropU32 ''phandle'' 1, AppendPropStr ''compatible'' ''arm,gic-v3'',
     AppendPropU32 ''#address-cells'' 2, AppendPropU32 ''#size-cells'' 2, AppendPropU32 ''#interrupt-cells'' 3,
     AppendPropFlag ''interrupt-controller'', AppendPropFlag ''ranges'',
     AppendPropCells ''reg'' [ucast (drop_bit 32 kGicDistBase), ucast kGicDistBase, 0, 0x10000,
       ucast (drop_bit 32 kGicRedistBase), ucast kGicRedistBase, 0, GicRedistributorBytes cpus],
     AppendU32 FDT_END_NODE,
     AppendU32 FDT_BEGIN_NODE, AppendStr ''timer'', Align4,
     AppendPropStringList ''compatible'' [''arm,armv8-timer'', ''arm,armv7-timer''],
     AppendPropCells ''interrupts'' (concat (map (\<lambda>ppi. [1, ppi, 4]) [13, 14, 11, 10])),
     AppendPropFlag ''always-on'', AppendU32 FDT_END_NODE]"

definition peripheral_ops :: "fdt_op list" where
  "peripheral_ops =
    [AppendU32 FDT_BEGIN_NODE, AppendStr ''pl011@9000000'', Align4,
     AppendPropStringList ''compatible'' [''arm,pl011'', ''arm,primecell''], AppendPropReg ''reg'' kUartBase 0x1000,
     AppendPropCells ''interrupts'' [0, kUartSpi, 4], AppendPropU32 ''interrupt-parent'' 1,
     AppendPropStringList ''clock-names'' [''uartclk'', ''apb_pclk''], AppendPropCells ''clocks'' [2, 3],
     AppendU32 FDT_END_NODE,
     AppendU32 FDT_BEGIN_NODE, AppendStr ''uartclk'', Align4,
     AppendPropU32 ''phandle'' 2, AppendPropStr ''compatible'' ''fixed-clock'', AppendPropU32 ''#clock-cells'' 0,
     AppendPropU32 ''clock-frequency'' 24000000, AppendU32 FDT_END_NODE,
     AppendU32 FDT_BEGIN_NODE, AppendStr ''apb-pclk'', Align4,
     AppendPropU32 ''phandle'' 3, AppendPropStr ''compatible'' ''fixed-clock'', AppendPropU32 ''#clock-cells'' 0,
     AppendPropU32 ''clock-frequency'' 24000000, AppendU32 FDT_END_NODE,
     AppendU32 FDT_BEGIN_NODE, AppendStr ''pl031@9010000'', Align4,
     AppendPropStringList ''compatible'' [''arm,pl031'', ''arm,primecell''], AppendPropReg ''reg'' kPl031RtcBase 0x1000,
     AppendPropCells ''interrupts'' [0, kRtcSpi, 4], AppendPropU32 ''interrupt-parent'' 1, AppendPropU32 ''clocks'' 3,
     AppendPropStr ''clock-names'' ''apb_pclk'', AppendU32 FDT_END_NODE,
     AppendU32 FDT_BEGIN_NODE, AppendStr ''pl061@9030000'', Align4,
     AppendPropStringList ''compatible'' [''arm,pl061'', ''arm,primecell''], AppendPropReg ''reg'' kPl061GpioBase 0x1000,
     AppendPropU32 ''#gpio-cells'' 2, AppendPropFlag ''gpio-controller'',
     AppendPropCells ''interrupts'' [0, kGpioSpi, 4], AppendPropU32 ''interrupt-parent'' 1, AppendPropU32 ''clocks'' 3,
     AppendPropStr ''clock-names'' ''apb_pclk'', AppendPropU32 ''phandle'' 4, AppendU32 FDT_END_NODE,
     AppendU32 FDT_BEGIN_NODE, AppendStr ''gpio-keys'', Align4,
     AppendPropStr ''compatible'' ''gpio-keys'',
     AppendU32 FDT_BEGIN_NODE, AppendStr ''poweroff'', Align4,
     AppendPropStr ''label'' ''GPIO Key Poweroff'', AppendPropU32 ''linux,code'' 116,
     AppendPropCells ''gpios'' [4, 3, 0], AppendU32 FDT_END_NODE, AppendU32 FDT_END_NODE,
     AppendU32 FDT_BEGIN_NODE, AppendStr ''fw-cfg@9020000'', Align4,
     AppendPropStr ''compatible'' ''qemu,fw-cfg-mmio'', AppendPropReg ''reg'' kFwCfgBase 0x18,
     AppendPropFlag ''dma-coherent'', AppendU32 FDT_END_NODE]"

definition virtio_ops :: "fdt_op list" where
  "virtio_ops =
    concat (map (\<lambda>slot. AppendVirtioNode (arm_VirtioMmioBase + of_nat slot * kVirtioMmioStride) (kVirtioFirstSpi + of_nat slot))
      [0 ..< unat kVirtioMmioCount])"

definition pcie_ops :: "fdt_op list" where
  "pcie_ops =
    [AppendU32 FDT_BEGIN_NODE, AppendStr ''pcie@10000000'', Align4,
     AppendPropStr ''compatible'' ''pci-host-ecam-generic'', AppendPropStr ''device_type'' ''pci'',
     AppendPropU32 ''#address-cells'' 3, AppendPropU32 ''#size-cells'' 2, AppendPropU32 ''linux,pci-domain'' 0,
     AppendPropCells ''bus-range'' [0, PcieBusCount - 1], AppendPropFlag ''dma-coherent'',
     AppendPropReg ''reg'' kPcieEcamBase kPcieEcamSize,
     AppendPropCells ''ranges'' [kPciRangeIoPort, 0, 0, ucast (drop_bit 32 kPciePioBase), ucast kPciePioBase,
       ucast (drop_bit 32 kPciePioSize), ucast kPciePioSize, kPciRangeMmio32, ucast (drop_bit 32 kPcieMmioBase),
       ucast kPcieMmioBase, ucast (drop_bit 32 kPcieMmioBase), ucast kPcieMmioBase, ucast (drop_bit 32 kPcieMmioSize),
       ucast kPcieMmioSize],
     AppendPropU32 ''#interrupt-cells'' 1, AppendPropCells ''interrupt-map'' pcie_interrupt_map,
     AppendPropCells ''interrupt-map-mask'' [0x1800, 0, 0, 0x7], AppendU32 FDT_END_NODE,
     AppendU32 FDT_BEGIN_NODE, AppendStr ''exit@b000000'', Align4,
     AppendPropStr ''compatible'' ''node-vmm,exit'', AppendPropReg ''reg'' kExitDevBase 0x1000, AppendU32 FDT_END_NODE,
     AppendU32 FDT_END_NODE, AppendU32 FDT_END]"

definition build_ops :: "u64 \<Rightarrow> u64 \<Rightarrow> u32 \<Rightarrow> string \<Rightarrow> bytes \<Rightarrow> bytes \<Rightarrow> fdt_op list" where
  "build_ops ram_base ram_size cpus cmdline rnd8 rnd32 =
    root_ops cmdline rnd8 rnd32 @ cpus_ops cpus @ memory_ops ram_base ram_size cpus @ peripheral_ops @ virtio_ops @ pcie_ops"

definition run_ops :: "fdt_op list \<Rightarrow> fdt_op" where
  "run_ops ops f = fold (\<lambda>op f. op f) ops f"

definition fdt_header :: "bytes \<Rightarrow> u32 \<Rightarrow> u32 \<Rightarrow> u32 \<Rightarrow> u32 \<Rightarrow> bytes" where
  "fdt_header h total_size strings_off strings_size struct_size =
    (let h = buf_put h 0 (WriteU32BE 0xD00DFEED); h = buf_put h 4 (WriteU32BE total_size); h = buf_put h 8 (WriteU32BE 56);
         h = buf_put h 12 (WriteU32BE strings_off); h = buf_put h 16 (WriteU32BE 40); h = buf_put h 20 (WriteU32BE 17);
         h = buf_put h 24 (WriteU32BE 16); h = buf_put h 28 (WriteU32BE 0); h = buf_put h 32 (WriteU32BE strings_size)
     in buf_put h 36 (WriteU32BE struct_size))"

definition fdt_Build :: "u64 \<Rightarrow> u64 \<Rightarrow> u32 \<Rightarrow> string \<Rightarrow> bytes \<Rightarrow> bytes \<Rightarrow> bytes" where
  "fdt_Build ram_base ram_size cpus cmdline rnd8 rnd32 =
    (let f = run_ops (build_ops ram_base ram_size cpus cmdline rnd8 rnd32) \<lparr>fdt_buf = replicate (40 + 16) 0, fdt_str = []\<rparr>;
         struct_size = of_nat (length (fdt_buf f) - 56);
         strings_off = of_nat (length (fdt_buf f));
         f = Align4 (f\<lparr>fdt_buf := fdt_buf f @ fdt_str f\<rparr>);
         total_size = of_nat (length (fdt_buf f))
     in fdt_header (fdt_buf f) total_size strings_off (of_nat (length (fdt_str f))) struct_size)"

section \<open>The reader\<close>

datatype fdt_token = FBegin string | FProp string bytes | FEnd | FFin

datatype fdt_tree = Node string "(string \<times> bytes) list" "fdt_tree list"

definition be_word :: "bytes \<Rightarrow> u32" where
  "be_word bs = fold (\<lambda>b w. push_bit 8 w OR ucast b) bs 0"

definition pad4 :: "nat \<Rightarrow> nat" where
  "pad4 n = 4 * ((n + 3) div 4)"

definition c_string :: "bytes \<Rightarrow> string" where
  "c_string bs = map (\<lambda>b. char_of (unat b)) (takeWhile (\<lambda>b. b \<noteq> 0) bs)"

text \<open>The token stream of the structure block, up to the end token; names of properties are offsets into the
  strings block.\<close>

function fdt_tokens :: "bytes \<Rightarrow> bytes \<Rightarrow> fdt_token list option" where
  "fdt_tokens strs bs =
    (if length bs < 4 then None
     else let tag = be_word (take 4 bs); r = drop 4 bs
     in if tag = FDT_BEGIN_NODE
        then if 0 \<notin> set r then None
             else let name = c_string r in map_option ((#) (FBegin name)) (fdt_tokens strs (drop (pad4 (length name + 1)) r))
        else if tag = FDT_END_NODE then map_option ((#) FEnd) (fdt_tokens strs r)
        else if tag = FDT_PROP
        then let n = unat (be_word (take 4 r)); off = unat (be_word (take 4 (drop 4 r))); d = drop 8 r
             in if length r < 8 + pad4 n \<or> 0 \<notin> set (drop off strs) then None
                else map_option ((#) (FProp (c_string (drop off strs)) (take n d))) (fdt_tokens strs (drop (pad4 n) d))
        else if tag = FDT_END \<and> r = [] then Some [FFin] else None)"
  by pat_completeness auto
termination by (relation "measure (\<lambda>(strs, bs). length bs)") auto

declare fdt_tokens.simps [simp del]

text \<open>The tree of a token stream, with the open nodes on a stack: a node's properties come before its children.\<close>

fun read_tree :: "(string \<times> (string \<times> bytes) list \<times> fdt_tree list) list \<Rightarrow> fdt_token list \<Rightarrow> fdt_tree option" where
  "read_tree st (FBegin name # ts) = read_tree ((name, [], []) # st) ts"
| "read_tree ((name, ps, cs) # st) (FProp p d # ts) = (if cs = [] then read_tree ((name, ps @ [(p, d)], cs) # st) ts else None)"
| "read_tree ((name, ps, cs) # (name', ps', cs') # st) (FEnd # ts) = read_tree ((name', ps', cs' @ [Node name ps cs]) # st) ts"
| "read_tree [(name, ps, cs)] [FEnd, FFin] = Some (Node name ps cs)"
| "read_tree _ _ = None"

definition fdt_word :: "bytes \<Rightarrow> nat \<Rightarrow> u32" where
  "fdt_word blob i = be_word (take 4 (drop (4 * i) blob))"

definition parse_fdt :: "bytes \<Rightarrow> fdt_tree option" where
  "parse_fdt blob =
    (let h = fdt_word blob;
         total_size = unat (h 1); off_struct = unat (h 2); off_strings = unat (h 3); off_rsv = unat (h 4);
         size_strings = unat (h 8); size_struct = unat (h 9)
     in if length blob < 40 \<or> h 0 \<noteq> 0xD00DFEED \<or> total_size \<noteq> length blob \<or> h 5 \<noteq> 17 \<or> h 6 \<noteq> 16
          \<or> off_struct mod 4 \<noteq> 0 \<or> off_rsv mod 8 \<noteq> 0 \<or> off_rsv + 16 > off_struct
          \<or> take 16 (drop off_rsv blob) \<noteq> replicate 16 0
          \<or> off_struct + size_struct > off_strings \<or> off_strings + size_strings > total_size then None
        else case fdt_tokens (take size_strings (drop off_strings blob)) (take size_struct (drop off_struct blob)) of
          None \<Rightarrow> None | Some ts \<Rightarrow> read_tree [] ts)"

section \<open>The tree of the machine\<close>

definition cells :: "u32 list \<Rightarrow> bytes" where "cells vs = concat (map WriteU32BE vs)"
definition strings :: "string list \<Rightarrow> bytes" where "strings vs = concat (map (\<lambda>v. string_bytes v @ [0]) vs)"
definition window :: "u64 \<Rightarrow> u64 \<Rightarrow> bytes" where
  "window base sz = cells [ucast (drop_bit 32 base), ucast base, ucast (drop_bit 32 sz), ucast sz]"

definition cpu_node :: "u32 \<Rightarrow> u32 \<Rightarrow> fdt_tree" where
  "cpu_node cpus i = Node (''cpu@'' @ ToHex i)
    ([(''device_type'', strings [''cpu'']), (''compatible'', strings [''arm,arm-v8'']), (''reg'', cells [i])]
     @ (if 1 < cpus then [(''enable-method'', strings [''psci''])] else [])) []"

definition virtio_node :: "u64 \<Rightarrow> u32 \<Rightarrow> fdt_tree" where
  "virtio_node base spi = Node (''virtio_mmio@'' @ ToHex64 base)
    [(''compatible'', strings [''virtio,mmio'']), (''reg'', window base 0x200), (''interrupt-parent'', cells [1]),
     (''interrupts'', cells [0, spi, 1]), (''dma-coherent'', [])] []"

definition clock_node :: "string \<Rightarrow> u32 \<Rightarrow> fdt_tree" where
  "clock_node name phandle = Node name
    [(''phandle'', cells [phandle]), (''compatible'', strings [''fixed-clock'']), (''#clock-cells'', cells [0]),
     (''clock-frequency'', cells [24000000])] []"

definition front_nodes :: "u64 \<Rightarrow> u64 \<Rightarrow> u32 \<Rightarrow> string \<Rightarrow> bytes \<Rightarrow> bytes \<Rightarrow> fdt_tree list" where
  "front_nodes ram_base ram_size cpus cmdline rnd8 rnd32 =
    [Node ''aliases'' [(''serial0'', strings [''/pl011@9000000''])] [],
     Node ''chosen'' [(''bootargs'', strings [cmdline]), (''stdout-path'', strings [''/pl011@9000000'']),
       (''kaslr-seed'', WriteU64BE (RandomU64 rnd8)), (''rng-seed'', rnd32)] [],
     Node ''cpus'' [(''#address-cells'', cells [1]), (''#size-cells'', cells [0])]
       (map (\<lambda>i. cpu_node cpus (of_nat i)) [0 ..< unat cpus]),
     Node ''psci'' [(''compatible'', strings [''arm,psci-1.0'', ''arm,psci-0.2'', ''arm,psci'']), (''method'', strings [''hvc''])] [],
     Node (''memory@'' @ ToHex64 ram_base) [(''device_type'', strings [''memory'']), (''reg'', window ram_base ram_size)] [],
     Node ''intc@8000000'' [(''phandle'', cells [1]), (''compatible'', strings [''arm,gic-v3'']), (''#address-cells'', cells [2]),
       (''#size-cells'', cells [2]), (''#interrupt-cells'', cells [3]), (''interrupt-controller'', []), (''ranges'', []),
       (''reg'', cells [0, 0x08000000, 0, 0x10000, 0, 0x080A0000, 0, 0x20000 * cpus])] [],
     Node ''timer'' [(''compatible'', strings [''arm,armv8-timer'', ''arm,armv7-timer'']),
       (''interrupts'', cells [1, 13, 4, 1, 14, 4, 1, 11, 4, 1, 10, 4]), (''always-on'', [])] []]"

definition peripheral_nodes :: "fdt_tree list" where
  "peripheral_nodes =
    [Node ''pl011@9000000'' [(''compatible'', strings [''arm,pl011'', ''arm,primecell'']), (''reg'', window 0x09000000 0x1000),
       (''interrupts'', cells [0, 1, 4]), (''interrupt-parent'', cells [1]), (''clock-names'', strings [''uartclk'', ''apb_pclk'']),
       (''clocks'', cells [2, 3])] [],
     clock_node ''uartclk'' 2, clock_node ''apb-pclk'' 3,
     Node ''pl031@9010000'' [(''compatible'', strings [''arm,pl031'', ''arm,primecell'']), (''reg'', window 0x09010000 0x1000),
       (''interrupts'', cells [0, 2, 4]), (''interrupt-parent'', cells [1]), (''clocks'', cells [3]),
       (''clock-names'', strings [''apb_pclk''])] [],
     Node ''pl061@9030000'' [(''compatible'', strings [''arm,pl061'', ''arm,primecell'']), (''reg'', window 0x09030000 0x1000),
       (''#gpio-cells'', cells [2]), (''gpio-controller'', []), (''interrupts'', cells [0, 7, 4]), (''interrupt-parent'', cells [1]),
       (''clocks'', cells [3]), (''clock-names'', strings [''apb_pclk'']), (''phandle'', cells [4])] [],
     Node ''gpio-keys'' [(''compatible'', strings [''gpio-keys''])]
       [Node ''poweroff'' [(''label'', strings [''GPIO Key Poweroff'']), (''linux,code'', cells [116]), (''gpios'', cells [4, 3, 0])] []],
     Node ''fw-cfg@9020000'' [(''compatible'', strings [''qemu,fw-cfg-mmio'']), (''reg'', window 0x09020000 0x18), (''dma-coherent'', [])] []]"

definition virtio_nodes :: "fdt_tree list" where
  "virtio_nodes = map (\<lambda>slot. virtio_node (0x0A000000 + of_nat slot * 0x200) (16 + of_nat slot)) [0 ..< 32]"

definition pcie_nodes :: "fdt_tree list" where
  "pcie_nodes =
    [Node ''pcie@10000000'' [(''compatible'', strings [''pci-host-ecam-generic'']), (''device_type'', strings [''pci'']),
       (''#address-cells'', cells [3]), (''#size-cells'', cells [2]), (''linux,pci-domain'', cells [0]), (''bus-range'', cells [0, 15]),
       (''dma-coherent'', []), (''reg'', window 0x3F000000 0x01000000),
       (''ranges'', cells [0x01000000, 0, 0, 0, 0x3EFF0000, 0, 0x10000, 0x02000000, 0, 0x10000000, 0, 0x10000000, 0, 0x2EFF0000]),
       (''#interrupt-cells'', cells [1]), (''interrupt-map'', cells pcie_interrupt_map),
       (''interrupt-map-mask'', cells [0x1800, 0, 0, 7])] [],
     Node ''exit@b000000'' [(''compatible'', strings [''node-vmm,exit'']), (''reg'', window 0x0B000000 0x1000)] []]"

definition machine_tree :: "u64 \<Rightarrow> u64 \<Rightarrow> u32 \<Rightarrow> string \<Rightarrow> bytes \<Rightarrow> bytes \<Rightarrow> fdt_tree" where
  "machine_tree ram_base ram_size cpus cmdline rnd8 rnd32 =
    Node '''' [(''#address-cells'', cells [2]), (''#size-cells'', cells [2]), (''compatible'', strings [''linux,dummy-virt'']),
        (''model'', strings [''node-vmm-hvf'']), (''interrupt-parent'', cells [1]), (''dma-coherent'', [])]
      (front_nodes ram_base ram_size cpus cmdline rnd8 rnd32 @ peripheral_nodes @ virtio_nodes @ pcie_nodes)"

section \<open>Tokens\<close>

fun tokens_of :: "fdt_tree \<Rightarrow> fdt_token list" where
  "tokens_of (Node name ps cs) = FBegin name # map (\<lambda>(p, d). FProp p d) ps @ concat (map tokens_of cs) @ [FEnd]"

text \<open>What one token adds to the structure block, given the length of the strings block so far, and to the
  strings block.\<close>

fun token_bytes :: "nat \<Rightarrow> fdt_token \<Rightarrow> bytes" where
  "token_bytes off (FBegin name) = WriteU32BE FDT_BEGIN_NODE @ string_bytes name @ replicate (pad4 (length name + 1) - length name) 0"
| "token_bytes off (FProp p d) = WriteU32BE FDT_PROP @ WriteU32BE (of_nat (length d)) @ WriteU32BE (of_nat off) @ d
     @ replicate (pad4 (length d) - length d) 0"
| "token_bytes off FEnd = WriteU32BE FDT_END_NODE"
| "token_bytes off FFin = WriteU32BE FDT_END"

fun token_name :: "fdt_token \<Rightarrow> bytes" where
  "token_name (FProp p d) = string_bytes p @ [0]"
| "token_name _ = []"

fun stream :: "nat \<Rightarrow> fdt_token list \<Rightarrow> bytes" where
  "stream off [] = []"
| "stream off (t # ts) = token_bytes off t @ stream (off + length (token_name t)) ts"

abbreviation names :: "fdt_token list \<Rightarrow> bytes" where "names ts \<equiv> concat (map token_name ts)"

fun token_ops :: "fdt_token \<Rightarrow> fdt_op list" where
  "token_ops (FBegin name) = [AppendU32 FDT_BEGIN_NODE, AppendStr name, Align4]"
| "token_ops (FProp p d) = [AppendPropRaw p d (of_nat (length d))]"
| "token_ops FEnd = [AppendU32 FDT_END_NODE]"
| "token_ops FFin = [AppendU32 FDT_END]"

fun token_ok :: "fdt_token \<Rightarrow> bool" where
  "token_ok (FBegin name) = (CHR 0x00 \<notin> set name)"
| "token_ok (FProp p d) = (CHR 0x00 \<notin> set p \<and> length d < 2 ^ 32)"
| "token_ok _ = True"

lemma length_WriteU32BE [simp]: "length (WriteU32BE v) = 4" by (simp add: WriteU32BE_def)

lemma pad4_mod [simp]: "pad4 n mod 4 = 0" "n \<le> pad4 n"
  by (simp_all add: pad4_def)

lemma pad4_add [simp]: "m mod 4 = 0 \<Longrightarrow> pad4 (m + n) = m + pad4 n"
  unfolding pad4_def by presburger

lemma align_pad4: "(4 - n mod 4) mod 4 = pad4 n - n"
proof -
  have n: "n = 4 * (n div 4) + n mod 4" by simp
  have "n mod 4 = 0 \<or> n mod 4 = 1 \<or> n mod 4 = 2 \<or> n mod 4 = 3" by linarith
  moreover have "pad4 n = 4 * (n div 4) + pad4 (n mod 4)" using pad4_add [of "4 * (n div 4)" "n mod 4"] by simp
  ultimately show ?thesis using n by (elim disjE) (simp_all add: pad4_def)
qed

lemma length_token_bytes_mod [simp]: "length (token_bytes off t) mod 4 = 0"
proof (cases t)
  case (FBegin name)
  have "length name \<le> pad4 (length name + 1)" using pad4_mod(2) [of "length name + 1"] by linarith
  with FBegin show ?thesis by (simp add: mod_simps)
next
  case (FProp p d)
  have "length d \<le> pad4 (length d)" by simp
  moreover have "(12 + pad4 (length d)) mod 4 = 0" unfolding pad4_def by presburger
  ultimately show ?thesis by (simp add: FProp)
qed simp_all

lemma Align4_eq: "Align4 f = f\<lparr>fdt_buf := fdt_buf f @ replicate (pad4 (length (fdt_buf f)) - length (fdt_buf f)) 0\<rparr>"
  by (simp add: Align4_def align_pad4)

lemma unat_of_nat_u32: "n < 4294967296 \<Longrightarrow> unat (of_nat n :: u32) = n"
  by (simp add: unat_of_nat take_bit_eq_mod)

lemma run_token:
  assumes "token_ok t" and m: "length (fdt_buf f) mod 4 = 0"
  shows "run_ops (token_ops t) f = f\<lparr>fdt_buf := fdt_buf f @ token_bytes (length (fdt_str f)) t, fdt_str := fdt_str f @ token_name t\<rparr>"
proof (cases t)
  case (FBegin name)
  let ?n = "length (fdt_buf f)"
  have "(?n + 4) mod 4 = 0" using m by presburger
  then have pad: "pad4 (?n + (5 + length name)) = ?n + 4 + pad4 (length name + 1)"
    using pad4_add [of "?n + 4" "length name + 1"] by (simp add: ac_simps)
  have "pad4 (length name + 1) - length name = Suc (pad4 (length name + 1) - (length name + 1))"
    using pad4_mod(2) [of "length name + 1"] by linarith
  then show ?thesis using FBegin pad by (simp add: run_ops_def AppendU32_def AppendStr_def Align4_eq)
next
  case (FProp p d)
  with assms have "unat (of_nat (length d) :: u32) = length d" "(of_nat (length d) :: u32) = 0 \<longleftrightarrow> d = []"
    by (auto simp: unat_of_nat_u32 unat_eq_0 [symmetric])
  moreover have "(length (fdt_buf f) + 12) mod 4 = 0" using m by presburger
  then have "pad4 (length (fdt_buf f) + 12 + length d) = length (fdt_buf f) + 12 + pad4 (length d)" by (rule pad4_add)
  ultimately show ?thesis using FProp
    by (cases "d = []") (simp_all add: run_ops_def AppendPropRaw_def AppendU32_def AddString_def Align4_eq word_gt_0 ac_simps)
qed (simp_all add: run_ops_def AppendU32_def)

lemma run_tokens:
  assumes "\<forall>t \<in> set ts. token_ok t" and "length (fdt_buf f) mod 4 = 0"
  shows "run_ops (concat (map token_ops ts)) f = f\<lparr>fdt_buf := fdt_buf f @ stream (length (fdt_str f)) ts, fdt_str := fdt_str f @ names ts\<rparr>"
  using assms
proof (induction ts arbitrary: f)
  case Nil
  then show ?case by (simp add: run_ops_def)
next
  case (Cons t ts)
  let ?f = "f\<lparr>fdt_buf := fdt_buf f @ token_bytes (length (fdt_str f)) t, fdt_str := fdt_str f @ token_name t\<rparr>"
  have "run_ops (concat (map token_ops (t # ts))) f = run_ops (concat (map token_ops ts)) (run_ops (token_ops t) f)"
    by (simp add: run_ops_def)
  also have "run_ops (token_ops t) f = ?f" using Cons.prems by (intro run_token) auto
  also have "length (fdt_buf ?f) mod 4 = 0" using Cons.prems(2) length_token_bytes_mod [of "length (fdt_str f)" t]
    by (simp add: mod_add_eq [symmetric])
  then have "run_ops (concat (map token_ops ts)) ?f
      = ?f\<lparr>fdt_buf := fdt_buf ?f @ stream (length (fdt_str ?f)) ts, fdt_str := fdt_str ?f @ names ts\<rparr>"
    using Cons.prems(1) by (intro Cons.IH) auto
  finally show ?case by simp
qed

section \<open>The reader undoes the builder\<close>

lemma be_word_WriteU32BE [simp]: "be_word (WriteU32BE v) = v"
proof (rule bit_word_eqI)
  fix n :: nat assume "n < LENGTH(32)"
  then consider "n < 8" | "8 \<le> n" "n < 16" | "16 \<le> n" "n < 24" | "24 \<le> n" "n < 32" by (simp add: not_less) linarith
  then show "bit (be_word (WriteU32BE v)) n = bit v n"
    by cases (auto simp: be_word_def WriteU32BE_def bit_simps)
qed

lemma of_char_word [simp]: "char_of (unat (of_char c :: u8)) = c" "(of_char c :: u8) = 0 \<longleftrightarrow> c = CHR 0x00"
proof -
  have *: "unat (of_char c :: u8) = of_char c" for c
  proof -
    have "unat (of_nat (of_char c) :: u8) = of_char c" by (simp add: unat_of_nat take_bit_eq_mod)
    then show ?thesis by (simp add: of_nat_of_char)
  qed
  show c: "char_of (unat (of_char c :: u8)) = c" by (simp add: *)
  show "(of_char c :: u8) = 0 \<longleftrightarrow> c = CHR 0x00"
  proof
    assume "(of_char c :: u8) = 0"
    with c have "c = char_of (0 :: nat)" by simp
    then show "c = CHR 0x00" by (simp add: char_of_def)
  qed simp
qed

lemma c_string_append: "CHR 0x00 \<notin> set s \<Longrightarrow> c_string (string_bytes s @ 0 # r) = s"
proof -
  assume "CHR 0x00 \<notin> set s"
  then have "takeWhile (\<lambda>b. b \<noteq> 0) (string_bytes s @ 0 # r) = string_bytes s"
    by (subst takeWhile_append2) (auto simp: string_bytes_def)
  then show ?thesis by (simp add: c_string_def) (simp add: string_bytes_def comp_def)
qed

lemma fdt_tokens_begin:
  "CHR 0x00 \<notin> set name \<Longrightarrow> fdt_tokens strs (token_bytes off (FBegin name) @ r) = map_option ((#) (FBegin name)) (fdt_tokens strs r)"
proof -
  assume ok: "CHR 0x00 \<notin> set name"
  let ?k = "pad4 (length name + 1) - (length name + 1)"
  let ?r = "string_bytes name @ 0 # replicate ?k 0 @ r"
  have le: "length name + 1 \<le> pad4 (length name + 1)" by simp
  then have "token_bytes off (FBegin name) @ r = WriteU32BE FDT_BEGIN_NODE @ ?r"
    by (simp add: Suc_diff_le [symmetric] Suc_diff_Suc replicate_Suc [symmetric] del: replicate_Suc)
  moreover have "c_string ?r = name" by (rule c_string_append [OF ok])
  moreover have "drop (pad4 (length name + 1)) ?r = r" using pad4_mod(2) [of "Suc (length name)"] by (simp add: drop_Cons' del: pad4_mod(2))
  ultimately show ?thesis by (subst fdt_tokens.simps) (simp add: Let_def)
qed

lemma fdt_tokens_prop:
  assumes "length d < 2 ^ 32" "off < 2 ^ 32" "CHR 0x00 \<notin> set p" "drop off strs = string_bytes p @ 0 # q"
  shows "fdt_tokens strs (token_bytes off (FProp p d) @ r) = map_option ((#) (FProp p d)) (fdt_tokens strs r)"
proof -
  have "c_string (drop off strs) = p" "0 \<in> set (drop off strs)"
    using assms(3,4) c_string_append by simp_all
  moreover have "\<not> length d + (pad4 (length d) + length r - length d) < pad4 (length d)" using pad4_mod(2) [of "length d"] by linarith
  ultimately show ?thesis using assms(1,2)
    by (subst fdt_tokens.simps) (simp add: Let_def unat_of_nat_u32 FDT_BEGIN_NODE_def FDT_END_NODE_def FDT_PROP_def)
qed

lemma fdt_tokens_end: "fdt_tokens strs (token_bytes off FEnd @ r) = map_option ((#) FEnd) (fdt_tokens strs r)"
  by (subst fdt_tokens.simps) (simp add: FDT_BEGIN_NODE_def FDT_END_NODE_def)

lemma fdt_tokens_stream:
  assumes "\<forall>t \<in> set ts. token_ok t" and "FFin \<notin> set ts" and "length (pre @ names ts) < 2 ^ 32"
  shows "fdt_tokens (pre @ names ts @ post) (stream (length pre) ts @ WriteU32BE FDT_END) = Some (ts @ [FFin])"
  using assms
proof (induction ts arbitrary: pre)
  case Nil
  show ?case by (subst fdt_tokens.simps) (simp add: FDT_BEGIN_NODE_def FDT_END_NODE_def FDT_PROP_def FDT_END_def)
next
  case (Cons t ts)
  have IH: "fdt_tokens (pre @ names (t # ts) @ post) (stream (length pre + length (token_name t)) ts @ WriteU32BE FDT_END) = Some (ts @ [FFin])"
    using Cons.IH [of "pre @ token_name t"] Cons.prems by simp
  show ?case
  proof (cases t)
    case (FBegin name)
    with IH Cons.prems show ?thesis by (simp add: fdt_tokens_begin del: token_bytes.simps)
  next
    case (FProp p d)
    then have "drop (length pre) (pre @ names (t # ts) @ post) = string_bytes p @ 0 # names ts @ post" by simp
    with FProp IH Cons.prems show ?thesis by (simp add: fdt_tokens_prop del: token_bytes.simps)
  next
    case FEnd
    with IH Cons.prems show ?thesis by (simp add: fdt_tokens_end del: token_bytes.simps)
  next
    case FFin
    with Cons.prems show ?thesis by simp
  qed
qed

lemma read_tree_props:
  "read_tree ((name, ps, []) # st) (map (\<lambda>(p, d). FProp p d) qs @ ts) = read_tree ((name, ps @ qs, []) # st) ts"
  by (induction qs arbitrary: ps) auto

lemma read_tree_tokens:
  "read_tree ((name, ps, cs) # st) (tokens_of t @ ts) = read_tree ((name, ps, cs @ [t]) # st) ts"
proof (induction t arbitrary: name ps cs st ts)
  case (Node n qs ds)
  have "read_tree ((n, qs, bs) # (name, ps, cs) # st) (concat (map tokens_of es) @ FEnd # ts)
      = read_tree ((name, ps, cs @ [Node n qs (bs @ es)]) # st) ts" if "set es \<subseteq> set ds" for es bs
    using that
  proof (induction es arbitrary: bs)
    case (Cons e es)
    then show ?case using Node.IH [of e] by simp
  qed simp
  from this [of ds "[]"] show ?case by (simp add: read_tree_props)
qed

lemma read_tree_root: "read_tree [] (tokens_of t @ [FFin]) = Some t"
proof (cases t)
  case (Node n qs ds)
  have "read_tree [(n, qs, bs)] (concat (map tokens_of es) @ [FEnd, FFin]) = Some (Node n qs (bs @ es))" for es bs
  proof (induction es arbitrary: bs)
    case (Cons e es)
    then show ?case by (simp add: read_tree_tokens)
  qed simp
  then show ?thesis by (simp add: Node read_tree_props)
qed

section \<open>The builder emits the tree\<close>

definition tree_ops :: "fdt_tree \<Rightarrow> fdt_op list" where
  "tree_ops t = concat (map token_ops (tokens_of t))"

lemma tree_ops_Node:
  "tree_ops (Node name ps cs) = [AppendU32 FDT_BEGIN_NODE, AppendStr name, Align4]
     @ map (\<lambda>(p, d). AppendPropRaw p d (of_nat (length d))) ps @ concat (map tree_ops cs) @ [AppendU32 FDT_END_NODE]"
proof -
  have "concat (map token_ops (map (\<lambda>(p, d). FProp p d) ps)) = map (\<lambda>(p, d). AppendPropRaw p d (of_nat (length d))) ps"
    by (induction ps) auto
  moreover have "concat (map token_ops (concat (map tokens_of cs))) = concat (map tree_ops cs)"
    by (induction cs) (auto simp: tree_ops_def)
  ultimately show ?thesis by (simp add: tree_ops_def)
qed

lemma length_cells [simp]: "length (cells vs) = 4 * length vs"
  by (induction vs) (simp_all add: cells_def)

lemma append_props:
  "AppendPropU32 p v = AppendPropRaw p (cells [v]) (of_nat (length (cells [v])))"
  "AppendPropStr p s = AppendPropRaw p (strings [s]) (of_nat (length (strings [s])))"
  "AppendPropStringList p vs = AppendPropRaw p (strings vs) (of_nat (length (strings vs)))"
  "AppendPropFlag p = AppendPropRaw p [] (of_nat (length ([] :: bytes)))"
  "AppendPropReg p base sz = AppendPropRaw p (window base sz) (of_nat (length (window base sz)))"
  "AppendPropCells p ws = AppendPropRaw p (cells ws) (of_nat (length (cells ws)))"
  "AppendPropU64 p w = AppendPropRaw p (WriteU64BE w) (of_nat (length (WriteU64BE w)))"
  by (simp_all add: AppendPropU32_def AppendPropStr_def AppendPropStringList_def AppendPropFlag_def AppendPropReg_def
      AppendPropCells_def AppendPropU64_def strings_def window_def WriteU64BE_def Let_def) (simp_all add: cells_def)

lemma cpu_node_emitted: "cpu_node_ops cpus i = tree_ops (cpu_node cpus i)"
  by (simp add: cpu_node_ops_def cpu_node_def tree_ops_Node append_props)

lemma virtio_node_emitted: "AppendVirtioNode base spi = tree_ops (virtio_node base spi)"
  by (simp add: AppendVirtioNode_def virtio_node_def tree_ops_Node append_props kVirtioMmioSize_def)

lemma virtio_emitted: "virtio_ops = concat (map tree_ops virtio_nodes)"
  by (simp add: virtio_ops_def virtio_nodes_def virtio_node_emitted comp_def source_consts)

lemma peripherals_emitted: "peripheral_ops = concat (map tree_ops peripheral_nodes)"
  by (simp add: peripheral_ops_def peripheral_nodes_def clock_node_def tree_ops_Node append_props source_consts)

lemma front_emitted:
  assumes "length rnd32 = 32"
  shows "root_ops cmdline rnd8 rnd32 @ cpus_ops cpus @ memory_ops ram_base ram_size cpus
    = take 9 (root_ops cmdline rnd8 rnd32) @ concat (map tree_ops (front_nodes ram_base ram_size cpus cmdline rnd8 rnd32))"
  using assms
  by (simp add: root_ops_def cpus_ops_def memory_ops_def front_nodes_def tree_ops_Node append_props cpu_node_emitted comp_def
      GicRedistributorBytes_def source_consts)

lemma pcie_emitted: "pcie_ops = concat (map tree_ops pcie_nodes) @ [AppendU32 FDT_END_NODE, AppendU32 FDT_END]"
  by (simp add: pcie_ops_def pcie_nodes_def tree_ops_Node append_props PcieBusCount_def source_consts)

lemma build_emitted:
  assumes "length rnd32 = 32"
  shows "build_ops ram_base ram_size cpus cmdline rnd8 rnd32
    = concat (map token_ops (tokens_of (machine_tree ram_base ram_size cpus cmdline rnd8 rnd32) @ [FFin]))"
proof -
  let ?t = "machine_tree ram_base ram_size cpus cmdline rnd8 rnd32"
  have "build_ops ram_base ram_size cpus cmdline rnd8 rnd32 = tree_ops ?t @ [AppendU32 FDT_END]"
    using front_emitted [OF assms, of cmdline rnd8 cpus ram_base ram_size]
    by (simp add: build_ops_def virtio_emitted peripherals_emitted pcie_emitted machine_tree_def tree_ops_Node
        append_assoc [symmetric] del: append_assoc) (simp add: root_ops_def append_props)
  then show ?thesis by (simp add: tree_ops_def)
qed

section \<open>Names and sizes\<close>

lemma hex_digit_plain [simp]: "n < 16 \<Longrightarrow> hex_digit n \<noteq> CHR 0x00" "n < 16 \<Longrightarrow> CHR 0x00 \<noteq> hex_digit n"
proof -
  show *: "hex_digit n \<noteq> CHR 0x00" if "n < 16" using that by (auto simp: hex_digit_def char_of_eq_iff take_bit_eq_mod)
  show "CHR 0x00 \<noteq> hex_digit n" if "n < 16" using * [OF that] by (rule not_sym)
qed

lemma to_hex_plain [simp]: "CHR 0x00 \<notin> set (to_hex n)"
proof (induction n rule: to_hex.induct)
  case (1 n)
  then show ?case by (subst to_hex.simps) auto
qed

lemma length_to_hex: "n < 16 ^ k \<Longrightarrow> 0 < k \<Longrightarrow> length (to_hex n) \<le> k"
proof (induction k arbitrary: n)
  case (Suc k)
  show ?case
  proof (cases "n < 16")
    case False
    then have "0 < k" using Suc.prems by (cases k) auto
    moreover have "n div 16 < 16 ^ k" using Suc.prems by (simp add: less_mult_imp_div_less mult.commute)
    ultimately show ?thesis using False Suc.IH by (subst to_hex.simps) simp
  qed (subst to_hex.simps, simp)
qed simp

definition tree_ok :: "fdt_tree \<Rightarrow> bool" where
  "tree_ok t \<longleftrightarrow> list_all token_ok (tokens_of t) \<and> FFin \<notin> set (tokens_of t)"

lemma tree_ok_Node [simp]:
  "tree_ok (Node name ps cs) \<longleftrightarrow> CHR 0x00 \<notin> set name \<and> list_all (\<lambda>(p, d). CHR 0x00 \<notin> set p \<and> length d < 2 ^ 32) ps \<and> list_all tree_ok cs"
proof -
  have "list_all token_ok (map (\<lambda>(p, d). FProp p d) ps) \<longleftrightarrow> list_all (\<lambda>(p, d). CHR 0x00 \<notin> set p \<and> length d < 2 ^ 32) ps"
    by (induction ps) auto
  moreover have "list_all token_ok (concat (map tokens_of cs)) \<and> FFin \<notin> set (concat (map tokens_of cs)) \<longleftrightarrow> list_all tree_ok cs"
    by (induction cs) (auto simp: tree_ok_def)
  moreover have "FFin \<notin> set (map (\<lambda>(p, d). FProp p d) ps)" by auto
  ultimately show ?thesis by (auto simp: tree_ok_def)
qed

definition token_cost :: "fdt_token \<Rightarrow> nat" where
  "token_cost t = length (token_bytes 0 t) + length (token_name t)"

definition tree_cost :: "fdt_tree \<Rightarrow> nat" where
  "tree_cost t = sum_list (map token_cost (tokens_of t))"

lemma tree_cost_Node [simp]:
  "tree_cost (Node name ps cs) = 8 + pad4 (length name + 1) + sum_list (map (\<lambda>(p, d). 13 + pad4 (length d) + length p) ps) + sum_list (map tree_cost cs)"
proof -
  have "length (string_bytes name @ replicate (pad4 (length name + 1) - length name) (0 :: u8)) = pad4 (length name + 1)"
    using pad4_mod(2) [of "length name + 1"] by (simp del: pad4_mod(2))
  then have "token_cost (FBegin name) = 4 + pad4 (length name + 1)" "token_cost FEnd = 4" by (simp_all add: token_cost_def)
  moreover have "sum_list (map token_cost (map (\<lambda>(p, d). FProp p d) ps)) = sum_list (map (\<lambda>(p, d). 13 + pad4 (length d) + length p) ps)"
    by (induction ps) (auto simp: token_cost_def)
  moreover have "sum_list (map token_cost (concat (map tokens_of cs))) = sum_list (map tree_cost cs)"
    by (induction cs) (auto simp: tree_cost_def)
  ultimately show ?thesis by (simp add: tree_cost_def)
qed

lemma stream_cost: "length (stream off ts) + length (names ts) = sum_list (map token_cost ts)"
proof (induction ts arbitrary: off)
  case (Cons t ts)
  have "length (token_bytes off t) = length (token_bytes 0 t)" by (cases t) auto
  with Cons [of "off + length (token_name t)"] show ?case by (simp add: token_cost_def)
qed simp

lemma sum_list_le: "\<forall>x \<in> set xs. f x \<le> (K :: nat) \<Longrightarrow> sum_list (map f xs) \<le> K * length xs"
  by (induction xs) auto

lemma length_strings [simp]: "length (strings []) = 0" "length (strings (s # ss)) = length s + 1 + length (strings ss)"
  by (simp_all add: strings_def)

lemma length_window [simp]: "length (window base sz) = 16" by (simp add: window_def)

lemma length_ToHex: "length (ToHex v) \<le> 8" "length (ToHex64 w) \<le> 16"
proof -
  show "length (ToHex v) \<le> 8" unfolding ToHex_def using unat_u32_less [of v] by (intro length_to_hex) simp_all
  show "length (ToHex64 w) \<le> 16" unfolding ToHex64_def using unat_u64_less [of w] by (intro length_to_hex) simp_all
qed

lemma ToHex_plain [simp]: "CHR 0x00 \<notin> set (ToHex v)" "CHR 0x00 \<notin> set (ToHex64 w)"
  by (simp_all add: ToHex_def ToHex64_def)

lemma pad4_le: "pad4 n \<le> n + 3" by (simp add: pad4_def)

lemma length_interrupt_map [simp]: "length pcie_interrupt_map = 160" by (simp add: pcie_interrupt_map_def)

lemma cpu_node_facts: "tree_ok (cpu_node cpus i)" "tree_cost (cpu_node cpus i) \<le> 250"
proof -
  have "4 * ((8 + length (ToHex i)) div 4) \<le> 16" using length_ToHex(1) [of i] by linarith
  then show "tree_cost (cpu_node cpus i) \<le> 250" by (simp add: cpu_node_def pad4_def)
qed (simp add: cpu_node_def)

lemma virtio_node_facts: "tree_ok (virtio_node base spi)" "tree_cost (virtio_node base spi) \<le> 250"
  using length_ToHex(2) [of base] pad4_le [of "length (ToHex64 base) + 13"]
  by (simp_all add: virtio_node_def pad4_def)

lemma front_nodes_ok:
  "length rnd32 = 32 \<Longrightarrow> length cmdline \<le> 0x200000 \<Longrightarrow> list_all tree_ok (front_nodes ram_base ram_size cpus cmdline rnd8 rnd32)"
  by (simp add: front_nodes_def list_all_iff cpu_node_facts WriteU64BE_def)

lemma front_nodes_cost:
  assumes "length rnd32 = 32" and "cpus \<le> 64" and "length cmdline \<le> 0x200000"
  shows "sum_list (map tree_cost (front_nodes ram_base ram_size cpus cmdline rnd8 rnd32)) \<le> 0x200000 + 20000"
proof -
  have "sum_list (map tree_cost (map (\<lambda>i. cpu_node cpus (of_nat i)) [0 ..< unat cpus])) \<le> 250 * length (map (\<lambda>i. cpu_node cpus (of_nat i)) [0 ..< unat cpus])"
    by (intro sum_list_le) (auto simp: cpu_node_facts)
  also have "\<dots> \<le> 250 * 64" using assms(2) by (simp add: word_le_nat_alt)
  finally show ?thesis
    using assms pad4_le [of "length cmdline + 1"] length_ToHex(2) [of ram_base] pad4_le [of "length (ToHex64 ram_base) + 8"]
    by (simp add: front_nodes_def pad4_def WriteU64BE_def)
qed

lemma other_nodes_ok: "list_all tree_ok (peripheral_nodes @ virtio_nodes @ pcie_nodes)"
  by (simp add: peripheral_nodes_def clock_node_def pcie_nodes_def) (simp add: virtio_nodes_def list_all_iff virtio_node_facts)

lemma other_nodes_cost: "sum_list (map tree_cost (peripheral_nodes @ virtio_nodes @ pcie_nodes)) \<le> 20000"
proof -
  have "sum_list (map tree_cost virtio_nodes) \<le> 250 * length virtio_nodes"
    by (intro sum_list_le) (auto simp: virtio_nodes_def virtio_node_facts)
  moreover have "length virtio_nodes = 32" by (simp add: virtio_nodes_def)
  moreover have "sum_list (map tree_cost peripheral_nodes) + sum_list (map tree_cost pcie_nodes) \<le> 10000"
    by (simp add: peripheral_nodes_def clock_node_def pcie_nodes_def pad4_def)
  ultimately show ?thesis by simp
qed

section \<open>The blob\<close>

lemma put_cell: "off = 4 * length vs \<Longrightarrow> buf_put (cells vs @ h) off (WriteU32BE v) = cells (vs @ [v]) @ drop 4 h"
  by (simp add: buf_put_def) (simp add: cells_def)

lemma read_cell: "i < length hs \<Longrightarrow> be_word (take 4 (drop (4 * i) (cells hs @ r))) = hs ! i"
proof (induction hs arbitrary: i)
  case (Cons v hs)
  have "cells (v # hs) = WriteU32BE v @ cells hs" by (simp add: cells_def)
  with Cons show ?case by (cases i) auto
qed simp

lemma fdt_header_eq:
  "fdt_header h total_size strings_off strings_size struct_size
    = cells [0xD00DFEED, total_size, 56, strings_off, 40, 17, 16, 0, strings_size, struct_size] @ drop 40 h"
proof -
  have "buf_put h 0 (WriteU32BE v) = cells [v] @ drop 4 h" for v by (simp add: buf_put_def cells_def)
  then show ?thesis by (simp add: fdt_header_def Let_def put_cell)
qed

lemma fdt_Build_eq:
  assumes "length rnd32 = 32" and t: "t = machine_tree ram_base ram_size cpus cmdline rnd8 rnd32" and ok: "tree_ok t"
    and S: "S = stream 0 (tokens_of t) @ WriteU32BE FDT_END" and N: "N = names (tokens_of t)"
  shows "fdt_Build ram_base ram_size cpus cmdline rnd8 rnd32 =
    cells [0xD00DFEED, of_nat (56 + pad4 (length S + length N)), 56, of_nat (56 + length S), 40, 17, 16, 0, of_nat (length N), of_nat (length S)]
    @ replicate 16 0 @ S @ N @ replicate (pad4 (length S + length N) - (length S + length N)) 0"
proof -
  let ?ts = "tokens_of t @ [FFin]"
  have "run_ops (concat (map token_ops ?ts)) \<lparr>fdt_buf = replicate 56 0, fdt_str = []\<rparr> = \<lparr>fdt_buf = replicate 56 0 @ stream 0 ?ts, fdt_str = names ?ts\<rparr>"
    using ok by (subst run_tokens) (auto simp: tree_ok_def list_all_iff)
  moreover have "stream off (us @ [FFin]) = stream off us @ WriteU32BE FDT_END" for off us by (induction us arbitrary: off) auto
  ultimately have run: "run_ops (build_ops ram_base ram_size cpus cmdline rnd8 rnd32) \<lparr>fdt_buf = replicate 56 0, fdt_str = []\<rparr>
      = \<lparr>fdt_buf = replicate 56 0 @ S, fdt_str = N\<rparr>"
    using build_emitted [OF assms(1)] by (simp add: S N t)
  define B where "B = replicate 56 0 @ S @ N @ replicate (pad4 (length S + length N) - (length S + length N)) (0 :: u8)"
  have pad: "pad4 (56 + (length S + length N)) = 56 + pad4 (length S + length N)" by (rule pad4_add) simp
  have "Align4 \<lparr>fdt_buf = replicate 56 0 @ S @ N, fdt_str = N\<rparr> = \<lparr>fdt_buf = B, fdt_str = N\<rparr>"
    using pad by (simp add: Align4_eq B_def add.assoc)
  moreover have "length B = 56 + pad4 (length S + length N)" using pad4_mod(2) [of "length S + length N"] by (simp add: B_def del: pad4_mod(2))
  moreover have "drop 40 B = replicate 16 0 @ drop 56 B" by (simp add: B_def)
  ultimately show ?thesis by (simp add: fdt_Build_def run fdt_header_eq Let_def) (simp add: B_def)
qed

text \<open>C13. For 1 to 64 processors and a command line of at most 2 MiB, a reader of device trees that
  checks magic, version, block bounds, the empty reserve map, names and nesting accepts the blob the builder
  makes and finds exactly the machine's tree in it: the memory, the processors with their enable method, the
  interrupt controller and timer, every device with its register window and interrupt, the command line
  and the seeds. The blob always fits below the kernel.\<close>
theorem fdt_Build_parses:
  assumes "length rnd32 = 32" and "cpus \<le> 64" and "length cmdline \<le> 0x200000"
  shows "parse_fdt (fdt_Build ram_base ram_size cpus cmdline rnd8 rnd32) = Some (machine_tree ram_base ram_size cpus cmdline rnd8 rnd32) \<and>
    length (fdt_Build ram_base ram_size cpus cmdline rnd8 rnd32) < unat kKernelOffset"
proof -
  define t where "t = machine_tree ram_base ram_size cpus cmdline rnd8 rnd32"
  define S N where S: "S = stream 0 (tokens_of t) @ WriteU32BE FDT_END" and N: "N = names (tokens_of t)"
  have ok: "tree_ok t" using front_nodes_ok [OF assms(1,3)] other_nodes_ok by (simp add: t_def machine_tree_def)
  have "tree_cost t \<le> 0x200000 + 40300" using front_nodes_cost [OF assms, of ram_base ram_size rnd8] other_nodes_cost by (simp add: t_def machine_tree_def pad4_def)
  then have small: "length S + length N \<le> 0x200000 + 40304" using stream_cost [of 0 "tokens_of t"] by (simp add: S N tree_cost_def)
  let ?n = "length S + length N" and ?b = "fdt_Build ram_base ram_size cpus cmdline rnd8 rnd32"
  let ?h = "[0xD00DFEED, of_nat (56 + pad4 ?n), 56, of_nat (56 + length S), 40, 17, 16, 0, of_nat (length N), of_nat (length S)] :: u32 list"
  have b: "?b = cells ?h @ replicate 16 0 @ S @ N @ replicate (pad4 ?n - ?n) 0"
    by (rule fdt_Build_eq [OF assms(1) t_def ok S N])
  have pad: "?n \<le> pad4 ?n" "pad4 ?n \<le> ?n + 3" using pad4_le [of ?n] by simp_all
  then have len: "length ?b = 56 + pad4 ?n" by (simp add: b del: pad4_mod(2))
  have h: "fdt_word ?b i = ?h ! i" if "i < 10" for i
    unfolding b fdt_word_def using that by (intro read_cell) simp
  have words: "unat (of_nat (56 + pad4 ?n) :: u32) = 56 + pad4 ?n" "unat (of_nat (56 + length S) :: u32) = 56 + length S"
      "unat (of_nat (length N) :: u32) = length N" "unat (of_nat (length S) :: u32) = length S"
    using small pad by - (rule unat_of_nat_u32, linarith)+
  have blocks: "take 16 (drop 40 ?b) = replicate 16 0" "take (length S) (drop 56 ?b) = S" "take (length N) (drop (56 + length S) ?b) = N"
    by (simp_all add: b)
  have "fdt_tokens N S = Some (tokens_of t @ [FFin])"
    using fdt_tokens_stream [of "tokens_of t" "[]" "[]"] ok small by (simp add: S N tree_ok_def list_all_iff)
  then have "parse_fdt ?b = Some t"
    using pad len blocks words(1,2) [unfolded of_nat_add of_nat_numeral]
    by (simp add: parse_fdt_def Let_def h words read_tree_root del: pad4_mod(2))
  moreover have "length ?b < unat kKernelOffset" using small pad by (simp add: len kKernelOffset_def)
  ultimately show ?thesis by (simp add: t_def)
qed

theorem fdt_Build_parses_witness:
  "parse_fdt (fdt_Build 0x40000000 0x10000000 2 ''console=ttyAMA0'' (replicate 8 1) (replicate 32 2))
    = Some (machine_tree 0x40000000 0x10000000 2 ''console=ttyAMA0'' (replicate 8 1) (replicate 32 2))"
  using fdt_Build_parses [of "replicate 32 2" 2 "''console=ttyAMA0''" "0x40000000" "0x10000000" "replicate 8 1"] by simp

end
