(* ===== verification/Arm_Boot.thy ===== *)
theory Arm_Boot
  imports Fdt
begin

unbundle bit_operations_syntax

text \<open>
  How the Arm machine is prepared (native/hvf/backend.cc): LoadArm64Image, the part of RunVm that places the
  device tree, and InitVcpuRegisters. The bytes of the kernel file and the random bytes are parameters;
  registers are set by calls of the hypervisor, whose list is the model of InitVcpuRegisters.
\<close>

section \<open>The kernel image\<close>

record image_info =
  im_load_offset :: u64
  im_image_size :: u64

definition kArm64Magic :: u32 where "kArm64Magic = 0x644D5241"

definition LoadArm64Image :: "bytes \<Rightarrow> arm_memory \<Rightarrow> (arm_memory \<times> image_info) result" where
  "LoadArm64Image data mem =
    rbind (Check (64 \<le> length data) ''ARM64 Image too small'') (\<lambda>_.
    let magic = ReadU32 ((!) data) 56
    in rbind (Check (magic = kArm64Magic) ''not an ARM64 Image (bad magic at offset 56)'') (\<lambda>_.
    let image_size = ReadU64 ((!) data) 16;
        image_size = (if image_size = 0 then of_nat (length data) else image_size);
        load_gpa = kKernelOffset
    in rbind (Check (load_gpa + of_nat (length data) \<le> am_size mem) ''ARM64 Image too large for guest RAM'') (\<lambda>_.
       rbind (arm_offset mem load_gpa (of_nat (length data))) (\<lambda>p.
       Inr (mem\<lparr>am_data := memcpy (am_data mem) p data\<rparr>, \<lparr>im_load_offset = load_gpa, im_image_size = image_size\<rparr>)))))"

section \<open>The machine\<close>

text \<open>Guest memory, the entry point and the address of the device tree.\<close>

definition arm_prepare :: "bytes \<Rightarrow> arm_memory \<Rightarrow> u32 \<Rightarrow> string \<Rightarrow> bytes \<Rightarrow> bytes \<Rightarrow> (arm_memory \<times> u64 \<times> u64) result" where
  "arm_prepare data mem cpus cmdline rnd8 rnd32 =
    rbind (LoadArm64Image data mem) (\<lambda>(mem, kinfo).
    let dtb = fdt_Build kRamBase (am_size mem) cpus cmdline rnd8 rnd32
    in rbind (Check (length dtb < unat kKernelOffset) ''DTB too large'') (\<lambda>_.
       rbind (arm_offset mem kDtbOffset (of_nat (length dtb))) (\<lambda>p.
       Inr (mem\<lparr>am_data := memcpy (am_data mem) p dtb\<rparr>, kRamBase + im_load_offset kinfo, kRamBase + kDtbOffset))))"

datatype arm_reg = HV_REG_PC | HV_REG_X nat | HV_REG_CPSR | HV_SYS_REG_MPIDR_EL1

definition InitVcpuRegisters :: "u32 \<Rightarrow> u64 \<Rightarrow> u64 \<Rightarrow> (arm_reg \<times> u64) list" where
  "InitVcpuRegisters cpu_index pc x0 =
    [(HV_REG_PC, pc), (HV_REG_X 0, x0), (HV_REG_X 1, 0), (HV_REG_X 2, 0), (HV_REG_X 3, 0), (HV_REG_CPSR, 0x3C5),
     (HV_SYS_REG_MPIDR_EL1, ucast cpu_index)]"

section \<open>What the kernel finds\<close>

definition arm64_image :: "bytes \<Rightarrow> bool" where
  "arm64_image data \<longleftrightarrow> 64 \<le> length data \<and> ReadU32 ((!) data) 56 = 0x644D5241"

lemma arm_offset_low:
  assumes "off < kRamBase" and "unat off + n < 2 ^ 64"
  shows "arm_offset mem off (of_nat n) =
    (if unat off + n \<le> unat (am_size mem) then Inr (unat off) else Inl ''guest memory access out of bounds'')"
proof -
  have n: "unat (of_nat n :: u64) = n" using assms(2) by (intro unat_of_nat_u64) simp
  have "off \<le> am_size mem \<and> of_nat n \<le> am_size mem - off \<longleftrightarrow> unat off + n \<le> unat (am_size mem)"
    by (auto simp: word_le_nat_alt n unat_diff_le)
  then show ?thesis using assms(1) by (auto simp: arm_offset_def Check_def not_le [symmetric])
qed

lemma LoadArm64Image_cases:
  assumes "length data < 2 ^ 63"
  shows "LoadArm64Image data mem =
    (if length data < 64 then Inl ''ARM64 Image too small''
     else if \<not> arm64_image data then Inl ''not an ARM64 Image (bad magic at offset 56)''
     else if unat (am_size mem) < 0x400000 + length data then Inl ''ARM64 Image too large for guest RAM''
     else Inr (mem\<lparr>am_data := memcpy (am_data mem) 0x400000 data\<rparr>, \<lparr>im_load_offset = 0x400000,
       im_image_size = (if ReadU64 ((!) data) 16 = 0 then of_nat (length data) else ReadU64 ((!) data) 16)\<rparr>))"
proof -
  have "unat (kKernelOffset + of_nat (length data)) = 0x400000 + length data"
    using assms by (subst unat_add_no_wrap) (simp_all add: kKernelOffset_def unat_of_nat_u64)
  then have "kKernelOffset + of_nat (length data) \<le> am_size mem \<longleftrightarrow> 0x400000 + length data \<le> unat (am_size mem)"
    by (simp add: word_le_nat_alt)
  moreover have "arm_offset mem kKernelOffset (of_nat (length data)) =
      (if 0x400000 + length data \<le> unat (am_size mem) then Inr 0x400000 else Inl ''guest memory access out of bounds'')"
    using assms arm_offset_low [of kKernelOffset "length data" mem] by (simp add: kKernelOffset_def kRamBase_def)
  ultimately show ?thesis
    by (auto simp: LoadArm64Image_def arm64_image_def kArm64Magic_def Let_def Check_def kKernelOffset_def)
qed

text \<open>C40. The Arm machine is prepared exactly for a file that is a 64-bit Arm kernel image and fits into guest RAM
  from 4 MiB on; a shorter file, a file without the magic word and a file that does not fit are refused with
  their own errors, the guest not started. In the prepared memory a reader of device trees finds the machine's
  tree, with the size of its RAM, at the address given to the processor in X0, the image lies unchanged at
  the entry point, and every other byte is as it was.\<close>
theorem arm_prepare_exact:
  assumes "length rnd32 = 32" and "cpus \<le> 64" and "length cmdline \<le> 0x200000" and "length data < 2 ^ 63"
  shows "arm_prepare data mem cpus cmdline rnd8 rnd32 =
    (if length data < 64 then Inl ''ARM64 Image too small''
     else if \<not> arm64_image data then Inl ''not an ARM64 Image (bad magic at offset 56)''
     else if unat (am_size mem) < 0x400000 + length data then Inl ''ARM64 Image too large for guest RAM''
     else let dtb = fdt_Build 0x40000000 (am_size mem) cpus cmdline rnd8 rnd32
          in Inr (mem\<lparr>am_data := memcpy (memcpy (am_data mem) 0x400000 data) 0 dtb\<rparr>, 0x40400000, 0x40000000)) \<and>
    (\<forall>mem' pc x0. arm_prepare data mem cpus cmdline rnd8 rnd32 = Inr (mem', pc, x0) \<longrightarrow>
      (\<exists>n < 0x400000. parse_fdt (read_bytes (am_data mem') (unat (x0 - kRamBase)) n) = Some (machine_tree kRamBase (am_size mem) cpus cmdline rnd8 rnd32) \<and>
        read_bytes (am_data mem') (unat (pc - kRamBase)) (length data) = data \<and>
        (\<forall>a. n \<le> a \<and> a < 0x400000 \<or> 0x400000 + length data \<le> a \<longrightarrow> am_data mem' a = am_data mem a)))"
proof -
  let ?dtb = "fdt_Build 0x40000000 (am_size mem) cpus cmdline rnd8 rnd32"
  let ?m = "memcpy (memcpy (am_data mem) 0x400000 data) 0 ?dtb"
  have dtb: "parse_fdt ?dtb = Some (machine_tree kRamBase (am_size mem) cpus cmdline rnd8 rnd32)" "length ?dtb < 0x400000"
    using fdt_Build_parses [OF assms(1-3), of kRamBase "am_size mem" rnd8] by (simp_all add: kRamBase_def kKernelOffset_def)
  have off: "arm_offset m kDtbOffset (of_nat (length ?dtb)) =
      (if length ?dtb \<le> unat (am_size m) then Inr 0 else Inl ''guest memory access out of bounds'')" for m
    using arm_offset_low [of kDtbOffset "length ?dtb" m] dtb(2) by (simp add: kDtbOffset_def kRamBase_def)
  have cases: "arm_prepare data mem cpus cmdline rnd8 rnd32 =
    (if length data < 64 then Inl ''ARM64 Image too small''
     else if \<not> arm64_image data then Inl ''not an ARM64 Image (bad magic at offset 56)''
     else if unat (am_size mem) < 0x400000 + length data then Inl ''ARM64 Image too large for guest RAM''
     else Inr (mem\<lparr>am_data := ?m\<rparr>, 0x40400000, 0x40000000))"
    using dtb(2) by (simp add: arm_prepare_def LoadArm64Image_cases [OF assms(4)] Let_def off kRamBase_def)
      (simp add: kKernelOffset_def kDtbOffset_def)
  have "read_bytes ?m 0 (length ?dtb) = ?dtb" "read_bytes ?m 0x400000 (length data) = data"
    using dtb(2) by (simp_all add: read_bytes_memcpy_disjoint)
  moreover have "?m a = am_data mem a" if "length ?dtb \<le> a \<and> a < 0x400000 \<or> 0x400000 + length data \<le> a" for a
    using that dtb(2) by (auto simp: memcpy_outside)
  ultimately show ?thesis using dtb unfolding cases
    by (auto simp: Let_def kRamBase_def intro!: exI [of _ "length ?dtb"])
qed

theorem arm_prepare_exact_witness:
  "\<exists>mem'. arm_prepare (replicate 56 0 @ [0x41, 0x52, 0x4D, 0x64, 0, 0, 0, 0]) \<lparr>am_data = (\<lambda>_. 0xCC), am_size = 0x1000000\<rparr> 2 ''quiet''
      (replicate 8 1) (replicate 32 2) = Inr (mem', 0x40400000, 0x40000000) \<and> am_data mem' 0x800000 = 0xCC"
proof -
  let ?data = "replicate 56 0 @ [0x41, 0x52, 0x4D, 0x64, 0, 0, 0, 0] :: bytes"
  let ?p = "arm_prepare ?data \<lparr>am_data = (\<lambda>_. 0xCC), am_size = 0x1000000\<rparr> 2 ''quiet'' (replicate 8 1) (replicate 32 2)"
  have "arm64_image ?data" by (simp add: arm64_image_def ReadU32_def nth_append)
  with arm_prepare_exact [of "replicate 32 2" 2 "''quiet''" ?data "\<lparr>am_data = (\<lambda>_. 0xCC), am_size = 0x1000000\<rparr>" "replicate 8 1"]
  obtain mem' where p: "?p = Inr (mem', 0x40400000, 0x40000000)" by (auto simp: Let_def)
  moreover have "am_data mem' 0x800000 = 0xCC"
    using arm_prepare_exact [of "replicate 32 2" 2 "''quiet''" ?data "\<lparr>am_data = (\<lambda>_. 0xCC), am_size = 0x1000000\<rparr>" "replicate 8 1", THEN conjunct2] p
    by auto
  ultimately show ?thesis by blast
qed

end
