(* ===== verification/Arm_Psci.thy ===== *)
theory Arm_Psci
  imports Arm_Boot "HOL-Library.Sublist"
begin

text \<open>
  The processors of the Arm machine (native/hvf/backend.cc): the PSCI calls of the guest, by which one processor
  starts another and switches itself off, the slots that the processor threads share, and the threads of RunVm
  (vcpu_main) with the pause and stop requests of the host. A section under lifecycle_mu is one step of the
  relation below; between two steps any other thread may run. \<open>hv_accepted\<close> and \<open>hv_started\<close> record the accepted
  CPU_ON calls and the register initialisations, in order.
\<close>

section \<open>PSCI\<close>

definition kPsciVersion :: u64 where [source_consts]: "kPsciVersion = 0x84000000"
definition kPsciCpuSuspend32 :: u64 where [source_consts]: "kPsciCpuSuspend32 = 0x84000001"
definition kPsciCpuOff :: u64 where [source_consts]: "kPsciCpuOff = 0x84000002"
definition kPsciCpuOn32 :: u64 where [source_consts]: "kPsciCpuOn32 = 0x84000003"
definition kPsciAffinityInfo32 :: u64 where [source_consts]: "kPsciAffinityInfo32 = 0x84000004"
definition kPsciMigrateInfoType :: u64 where [source_consts]: "kPsciMigrateInfoType = 0x84000006"
definition kPsciSystemOff :: u64 where [source_consts]: "kPsciSystemOff = 0x84000008"
definition kPsciSystemReset :: u64 where [source_consts]: "kPsciSystemReset = 0x84000009"
definition kPsciFeatures :: u64 where [source_consts]: "kPsciFeatures = 0x8400000A"
definition kPsciCpuSuspend64 :: u64 where [source_consts]: "kPsciCpuSuspend64 = 0xC4000001"
definition kPsciCpuOn64 :: u64 where [source_consts]: "kPsciCpuOn64 = 0xC4000003"
definition kPsciAffinityInfo64 :: u64 where [source_consts]: "kPsciAffinityInfo64 = 0xC4000004"

text \<open>The return codes, as the 64-bit register holds them.\<close>

definition kPsciSuccess :: u64 where [source_consts]: "kPsciSuccess = 0"
definition kPsciNotSupported :: u64 where [source_consts]: "kPsciNotSupported = - 1"
definition kPsciInvalidParams :: u64 where [source_consts]: "kPsciInvalidParams = - 2"
definition kPsciDenied :: u64 where [source_consts]: "kPsciDenied = - 3"
definition kPsciAlreadyOn :: u64 where [source_consts]: "kPsciAlreadyOn = - 4"

definition PsciFeatureSupported :: "u64 \<Rightarrow> bool" where
  "PsciFeatureSupported function_id \<longleftrightarrow>
    function_id \<in> {kPsciVersion, kPsciCpuOff, kPsciCpuOn32, kPsciCpuOn64, kPsciAffinityInfo32, kPsciAffinityInfo64,
      kPsciMigrateInfoType, kPsciSystemOff, kPsciSystemReset, kPsciFeatures}"

datatype PsciCpuState = Off | OnPending | On

record cpu_slot =
  sl_created :: bool
  sl_live :: bool
  sl_powered :: bool
  sl_start_requested :: bool
  sl_paused :: bool
  sl_state :: PsciCpuState
  sl_entry :: u64
  sl_context :: u64

definition slot_init :: cpu_slot where
  "slot_init = \<lparr>sl_created = False, sl_live = False, sl_powered = False, sl_start_requested = False, sl_paused = False,
     sl_state = Off, sl_entry = 0, sl_context = 0\<rparr>"

definition CpuIndexFromMpidr :: "u64 \<Rightarrow> u32 \<Rightarrow> u32 option" where
  "CpuIndexFromMpidr mpidr cpus =
    (if mpidr AND NOT 0xFF \<noteq> 0 then None
     else let index = ucast (mpidr AND 0xFF) in if cpus \<le> index then None else Some index)"

definition PoweredCpuCountLocked :: "cpu_slot list \<Rightarrow> nat" where
  "PoweredCpuCountLocked slots = max (length (filter (\<lambda>slot. sl_state slot \<noteq> Off) slots)) 1"

fun affinity_scan :: "cpu_slot list \<Rightarrow> bool \<Rightarrow> u64" where
  "affinity_scan [] pending = (if pending then 2 else 1)"
| "affinity_scan (slot # slots) pending =
    (if sl_state slot = On then 0 else affinity_scan slots (if sl_state slot = OnPending then True else pending))"

definition PsciAffinityInfoState :: "cpu_slot list \<Rightarrow> u64 \<Rightarrow> u64 \<Rightarrow> u64" where
  "PsciAffinityInfoState slots mpidr level =
    (if level = 0
     then case CpuIndexFromMpidr mpidr (of_nat (length slots)) of
            None \<Rightarrow> kPsciInvalidParams
          | Some target \<Rightarrow> (case sl_state (slots ! unat target) of On \<Rightarrow> 0 | Off \<Rightarrow> 1 | OnPending \<Rightarrow> 2)
     else if level \<le> 3 \<and> mpidr = 0 then affinity_scan slots False
     else kPsciInvalidParams)"

text \<open>The HVC exit of a processor: the new value of X0, if it is set, the slots, the stop request, if one is made,
  and whether the processor leaves the guest.\<close>

record psci_result =
  pr_x0 :: "u64 option"
  pr_slots :: "cpu_slot list"
  pr_stop :: "(string \<times> int) option"
  pr_powered_off :: bool

definition psci_return :: "cpu_slot list \<Rightarrow> u64 \<Rightarrow> psci_result" where
  "psci_return slots ret = \<lparr>pr_x0 = Some ret, pr_slots = slots, pr_stop = None, pr_powered_off = False\<rparr>"

definition psci_stop :: "cpu_slot list \<Rightarrow> string \<Rightarrow> psci_result" where
  "psci_stop slots reason = \<lparr>pr_x0 = None, pr_slots = slots, pr_stop = Some (reason, 0), pr_powered_off = False\<rparr>"

definition psci_cpu_on :: "u32 \<Rightarrow> cpu_slot list \<Rightarrow> u64 \<Rightarrow> u64 \<Rightarrow> u64 \<Rightarrow> psci_result" where
  "psci_cpu_on cpus slots x1 x2 x3 =
    (case CpuIndexFromMpidr x1 cpus of
       None \<Rightarrow> psci_return slots kPsciInvalidParams
     | Some target \<Rightarrow>
        if x2 = 0 then psci_return slots kPsciInvalidParams
        else let slot = slots ! unat target
        in if target = 0 \<or> sl_state slot \<noteq> Off \<or> sl_start_requested slot then psci_return slots kPsciAlreadyOn
           else psci_return
             (slots[unat target := slot\<lparr>sl_entry := x2, sl_context := x3, sl_start_requested := True, sl_state := OnPending\<rparr>])
             kPsciSuccess)"

definition psci_cpu_off :: "nat \<Rightarrow> cpu_slot list \<Rightarrow> psci_result" where
  "psci_cpu_off cpu_index slots =
    (if cpu_index = 0 then psci_stop slots ''hlt''
     else \<lparr>pr_x0 = None,
       pr_slots = slots[cpu_index := (slots ! cpu_index)\<lparr>sl_powered := False, sl_state := Off, sl_paused := False\<rparr>],
       pr_stop = None, pr_powered_off = True\<rparr>)"

definition psci_hvc :: "nat \<Rightarrow> u32 \<Rightarrow> cpu_slot list \<Rightarrow> u64 \<Rightarrow> u64 \<Rightarrow> u64 \<Rightarrow> u64 \<Rightarrow> psci_result" where
  "psci_hvc cpu_index cpus slots x0 x1 x2 x3 =
    (if x0 = kPsciVersion then psci_return slots 0x00010000
     else if x0 = kPsciFeatures then psci_return slots (if PsciFeatureSupported x1 then kPsciSuccess else kPsciNotSupported)
     else if x0 = kPsciMigrateInfoType then psci_return slots 2
     else if x0 = kPsciAffinityInfo32 \<or> x0 = kPsciAffinityInfo64 then psci_return slots (PsciAffinityInfoState slots x1 x2)
     else if x0 = kPsciCpuSuspend32 \<or> x0 = kPsciCpuSuspend64 then psci_return slots kPsciDenied
     else if x0 = kPsciCpuOn32 \<or> x0 = kPsciCpuOn64 then psci_cpu_on cpus slots x1 x2 x3
     else if x0 = kPsciCpuOff then psci_cpu_off cpu_index slots
     else if x0 = kPsciSystemOff then psci_stop slots ''shutdown''
     else if x0 = kPsciSystemReset then psci_stop slots ''reset''
     else psci_return slots kPsciNotSupported)"

section \<open>The threads\<close>

definition kControlRun :: int where [source_consts]: "kControlRun = 0"
definition kControlPause :: int where [source_consts]: "kControlPause = 1"
definition kControlStop :: int where [source_consts]: "kControlStop = 2"
definition kControlStateStarting :: int where [source_consts]: "kControlStateStarting = 0"
definition kControlStateRunning :: int where [source_consts]: "kControlStateRunning = 1"
definition kControlStatePaused :: int where [source_consts]: "kControlStatePaused = 2"
definition kControlStateStopping :: int where [source_consts]: "kControlStateStopping = 3"

text \<open>Where a processor thread is: before its vCPU exists, waiting for all of them, at the head of its outer loop
  (with boot_cpu_started), waiting to be started, about to set its registers, at the head of its run loop, in the
  guest, in the pause, past the run loop, past the outer loop, at its end.\<close>

datatype vcpu_loc = At_Create | At_Start | At_Outer bool | At_Wait | At_Init u64 u64 | At_Loop | At_Guest | At_Pause
  | At_Leave | At_Exit | At_Done

record hvf =
  hv_slots :: "cpu_slot list"
  hv_locs :: "vcpu_loc list"
  hv_start_vcpus :: bool
  hv_created_vcpus :: nat
  hv_paused_vcpus :: nat
  hv_thread_error :: string
  hv_stop_requested :: bool
  hv_exit :: "(string \<times> int) option"
  hv_control :: int
  hv_accepted :: "(nat \<times> u64 \<times> u64) list"
  hv_started :: "(nat \<times> u64 \<times> u64) list"

definition hvf_init :: "u32 \<Rightarrow> hvf" where
  "hvf_init cpus = \<lparr>hv_slots = replicate (unat cpus) slot_init, hv_locs = replicate (unat cpus) At_Create, hv_start_vcpus = False,
     hv_created_vcpus = 0, hv_paused_vcpus = 0, hv_thread_error = [], hv_stop_requested = False, hv_exit = None,
     hv_control = kControlStateStarting, hv_accepted = [], hv_started = []\<rparr>"

abbreviation upd_slot :: "hvf \<Rightarrow> nat \<Rightarrow> (cpu_slot \<Rightarrow> cpu_slot) \<Rightarrow> hvf" where
  "upd_slot s i f \<equiv> s\<lparr>hv_slots := (hv_slots s)[i := f (hv_slots s ! i)]\<rparr>"

abbreviation goto :: "nat \<Rightarrow> vcpu_loc \<Rightarrow> hvf \<Rightarrow> hvf" where
  "goto i l s \<equiv> s\<lparr>hv_locs := (hv_locs s)[i := l]\<rparr>"

text \<open>request_stop: the first reason is kept. The wake-up of the other threads is the freedom of the scheduler.\<close>

definition request_stop :: "string \<Rightarrow> int \<Rightarrow> hvf \<Rightarrow> hvf" where
  "request_stop reason code s =
    s\<lparr>hv_exit := (if hv_exit s = None then Some (reason, code) else hv_exit s), hv_stop_requested := True\<rparr>"

text \<open>The creation of a vCPU, and what the main thread waits for.\<close>

definition vcpu_created :: "nat \<Rightarrow> hvf \<Rightarrow> hvf" where
  "vcpu_created i s = (upd_slot s i (\<lambda>sl. sl\<lparr>sl_created := True, sl_live := True, sl_powered := (i = 0),
     sl_state := (if i = 0 then On else Off)\<rparr>))\<lparr>hv_created_vcpus := hv_created_vcpus s + 1\<rparr>"

text \<open>The wait of a processor that is off, from the moment its predicate holds: it ends at a stop, or takes the
  request that a CPU_ON left in its slot.\<close>

definition take_start :: "nat \<Rightarrow> hvf \<Rightarrow> hvf" where
  "take_start i s =
    (if hv_stop_requested s then goto i At_Exit s
     else let sl = hv_slots s ! i
     in goto i (At_Init (sl_entry sl) (sl_context sl))
          (upd_slot s i (\<lambda>sl. sl\<lparr>sl_start_requested := False, sl_powered := True, sl_state := On\<rparr>)))"

definition start_ready :: "nat \<Rightarrow> hvf \<Rightarrow> bool" where
  "start_ready i s \<longleftrightarrow> hv_stop_requested s \<or> sl_start_requested (hv_slots s ! i)"

definition outer_loop :: "u64 \<Rightarrow> u64 \<Rightarrow> nat \<Rightarrow> bool \<Rightarrow> hvf \<Rightarrow> hvf" where
  "outer_loop entry_ipa dtb_ipa i boot_cpu_started s =
    (if i = 0 \<and> \<not> boot_cpu_started then goto i (At_Init entry_ipa dtb_ipa) s
     else let s = (if hv_stop_requested s then s
            else upd_slot s i (\<lambda>sl. sl\<lparr>sl_powered := False, sl_state := Off, sl_paused := False\<rparr>))
     in if start_ready i s then take_start i s else goto i At_Wait s)"

definition init_vcpu :: "nat \<Rightarrow> u64 \<Rightarrow> u64 \<Rightarrow> hvf \<Rightarrow> hvf" where
  "init_vcpu i pc x0 s = goto i At_Loop (s\<lparr>hv_control := kControlStateRunning, hv_started := hv_started s @ [(i, pc, x0)]\<rparr>)"

text \<open>handle_pause_if_requested: the section that announces the pause, and the one that ends it.\<close>

definition pause_begin :: "nat \<Rightarrow> hvf \<Rightarrow> hvf" where
  "pause_begin i s =
    (let s = (if sl_paused (hv_slots s ! i) then s
              else (upd_slot s i (\<lambda>sl. sl\<lparr>sl_paused := True\<rparr>))\<lparr>hv_paused_vcpus := hv_paused_vcpus s + 1\<rparr>)
     in if PoweredCpuCountLocked (hv_slots s) \<le> hv_paused_vcpus s then s\<lparr>hv_control := kControlStatePaused\<rparr> else s)"

definition pause_end :: "nat \<Rightarrow> hvf \<Rightarrow> hvf" where
  "pause_end i s =
    (if sl_paused (hv_slots s ! i)
     then (upd_slot s i (\<lambda>sl. sl\<lparr>sl_paused := False\<rparr>))\<lparr>hv_paused_vcpus := hv_paused_vcpus s - 1\<rparr> else s)"

text \<open>The head of the run loop; \<open>command\<close> and \<open>command'\<close> are the values that the two reads of the control word return.\<close>

definition run_loop_head :: "bool \<Rightarrow> nat \<Rightarrow> int \<Rightarrow> int \<Rightarrow> hvf \<Rightarrow> hvf" where
  "run_loop_head control_enabled i command command' s =
    (if hv_stop_requested s then goto i At_Leave s
     else if \<not> control_enabled then goto i At_Guest s
     else if command = kControlStop
     then goto i At_Leave (request_stop ''host-stop'' 0 (s\<lparr>hv_control := kControlStateStopping\<rparr>))
     else if command' = kControlPause then goto i At_Pause (pause_begin i s)
     else goto i At_Guest (s\<lparr>hv_control := kControlStateRunning\<rparr>))"

definition pause_wake :: "nat \<Rightarrow> hvf \<Rightarrow> hvf" where
  "pause_wake i s =
    (let s = pause_end i s
     in if hv_stop_requested s then goto i At_Leave s
        else goto i At_Guest (s\<lparr>hv_control := kControlStateRunning\<rparr>))"

definition accepted_on :: "u32 \<Rightarrow> cpu_slot list \<Rightarrow> u64 \<Rightarrow> u64 \<Rightarrow> u64 \<Rightarrow> u64 \<Rightarrow> (nat \<times> u64 \<times> u64) list" where
  "accepted_on cpus slots x0 x1 x2 x3 =
    (if (x0 = kPsciCpuOn32 \<or> x0 = kPsciCpuOn64) \<and> pr_x0 (psci_cpu_on cpus slots x1 x2 x3) = Some kPsciSuccess
     then [(unat (x1 AND 0xFF), x2, x3)] else [])"

definition hvc_exit :: "nat \<Rightarrow> u64 \<Rightarrow> u64 \<Rightarrow> u64 \<Rightarrow> u64 \<Rightarrow> hvf \<Rightarrow> hvf" where
  "hvc_exit i x0 x1 x2 x3 s =
    (let cpus = of_nat (length (hv_slots s));
         r = psci_hvc i cpus (hv_slots s) x0 x1 x2 x3;
         s = s\<lparr>hv_slots := pr_slots r, hv_accepted := hv_accepted s @ accepted_on cpus (hv_slots s) x0 x1 x2 x3\<rparr>;
         s = (case pr_stop r of None \<Rightarrow> s | Some (reason, code) \<Rightarrow> request_stop reason code s)
     in goto i (if pr_powered_off r then At_Leave else At_Loop) s)"

text \<open>The end of the run loop, of the outer loop and of the thread.\<close>

definition leave_run_loop :: "nat \<Rightarrow> hvf \<Rightarrow> hvf" where
  "leave_run_loop i s = (if hv_stop_requested s \<or> i = 0 then goto i At_Exit s else goto i (At_Outer False) s)"

definition vcpu_finish :: "nat \<Rightarrow> hvf \<Rightarrow> hvf" where
  "vcpu_finish i s = goto i At_Done (upd_slot s i (\<lambda>sl. sl\<lparr>sl_live := False, sl_powered := False, sl_state := Off\<rparr>))"

definition vcpu_throw :: "string \<Rightarrow> hvf \<Rightarrow> hvf" where
  "vcpu_throw what s =
    request_stop ''hv-error'' (- 1) (if hv_thread_error s = [] then s\<lparr>hv_thread_error := what\<rparr> else s)"

text \<open>The steps. An exit other than HVC either goes on (\<open>Exit_Continue\<close>) or ends the run (\<open>Exit_Stop\<close>); a call of the
  hypervisor may fail (\<open>Throw\<close>); the monitor, the input thread and the exit device request a stop (\<open>Request\<close>).\<close>

datatype hvf_event = Create nat | Create_Throw nat bool string | Start | Begin nat | Outer nat | Wake nat | Init_Regs nat | Loop_Head nat int int
  | Unpause nat int | Hvc nat u64 u64 u64 u64 | Exit_Continue nat | Exit_Stop nat string int | Throw nat string | Leave nat
  | Finish nat | Request string int

fun hvf_step :: "u64 \<Rightarrow> u64 \<Rightarrow> bool \<Rightarrow> hvf \<Rightarrow> hvf_event \<Rightarrow> hvf option" where
  "hvf_step entry dtb ctl s (Create i) = (if hv_locs s ! i = At_Create then Some (goto i At_Start (vcpu_created i s)) else None)"
| "hvf_step entry dtb ctl s (Create_Throw i active what) =
    (if hv_locs s ! i = At_Create then Some (goto i (if active then At_Exit else At_Done) (vcpu_throw what s)) else None)"
| "hvf_step entry dtb ctl s Start =
    (if hv_created_vcpus s = length (hv_slots s) \<and> hv_thread_error s = [] then Some (s\<lparr>hv_start_vcpus := True\<rparr>) else None)"
| "hvf_step entry dtb ctl s (Begin i) =
    (if hv_locs s ! i = At_Start \<and> (hv_start_vcpus s \<or> hv_stop_requested s) then Some (goto i (At_Outer False) s) else None)"
| "hvf_step entry dtb ctl s (Outer i) = (case hv_locs s ! i of At_Outer b \<Rightarrow> Some (outer_loop entry dtb i b s) | _ \<Rightarrow> None)"
| "hvf_step entry dtb ctl s (Wake i) = (if hv_locs s ! i = At_Wait \<and> start_ready i s then Some (take_start i s) else None)"
| "hvf_step entry dtb ctl s (Init_Regs i) = (case hv_locs s ! i of At_Init pc x0 \<Rightarrow> Some (init_vcpu i pc x0 s) | _ \<Rightarrow> None)"
| "hvf_step entry dtb ctl s (Loop_Head i c c') = (if hv_locs s ! i = At_Loop then Some (run_loop_head ctl i c c' s) else None)"
| "hvf_step entry dtb ctl s (Unpause i c) =
    (if hv_locs s ! i = At_Pause \<and> (hv_stop_requested s \<or> c \<noteq> kControlPause) then Some (pause_wake i s) else None)"
| "hvf_step entry dtb ctl s (Hvc i x0 x1 x2 x3) = (if hv_locs s ! i = At_Guest then Some (hvc_exit i x0 x1 x2 x3 s) else None)"
| "hvf_step entry dtb ctl s (Exit_Continue i) = (if hv_locs s ! i = At_Guest then Some (goto i At_Loop s) else None)"
| "hvf_step entry dtb ctl s (Exit_Stop i reason code) =
    (if hv_locs s ! i = At_Guest then Some (goto i At_Leave (request_stop reason code s)) else None)"
| "hvf_step entry dtb ctl s (Throw i what) =
    (if hv_locs s ! i = At_Guest \<or> (case hv_locs s ! i of At_Init pc x0 \<Rightarrow> True | _ \<Rightarrow> False)
     then Some (goto i At_Exit (vcpu_throw what s)) else None)"
| "hvf_step entry dtb ctl s (Leave i) = (if hv_locs s ! i = At_Leave then Some (leave_run_loop i s) else None)"
| "hvf_step entry dtb ctl s (Finish i) = (if hv_locs s ! i = At_Exit then Some (vcpu_finish i s) else None)"
| "hvf_step entry dtb ctl s (Request reason code) = Some (request_stop reason code s)"

fun cpu_of :: "hvf_event \<Rightarrow> nat option" where
  "cpu_of (Create i) = Some i" | "cpu_of (Create_Throw i _ _) = Some i" | "cpu_of Start = None" | "cpu_of (Begin i) = Some i"
| "cpu_of (Outer i) = Some i" | "cpu_of (Wake i) = Some i" | "cpu_of (Init_Regs i) = Some i" | "cpu_of (Loop_Head i _ _) = Some i"
| "cpu_of (Unpause i _) = Some i" | "cpu_of (Hvc i _ _ _ _) = Some i" | "cpu_of (Exit_Continue i) = Some i"
| "cpu_of (Exit_Stop i _ _) = Some i" | "cpu_of (Throw i _) = Some i" | "cpu_of (Leave i) = Some i" | "cpu_of (Finish i) = Some i"
| "cpu_of (Request _ _) = None"

inductive hvf_run :: "u64 \<Rightarrow> u64 \<Rightarrow> bool \<Rightarrow> u32 \<Rightarrow> hvf \<Rightarrow> bool" for entry dtb ctl cpus where
  hvf_run_init: "hvf_run entry dtb ctl cpus (hvf_init cpus)"
| hvf_run_step: "hvf_run entry dtb ctl cpus s \<Longrightarrow> (case cpu_of e of None \<Rightarrow> True | Some i \<Rightarrow> i < unat cpus) \<Longrightarrow>
    hvf_step entry dtb ctl s e = Some s' \<Longrightarrow> hvf_run entry dtb ctl cpus s'"

section \<open>The invariant of the threads\<close>

definition log_of :: "nat \<Rightarrow> (nat \<times> u64 \<times> u64) list \<Rightarrow> (u64 \<times> u64) list" where
  "log_of i xs = map snd (filter (\<lambda>x. fst x = i) xs)"

lemma log_of_simps [simp]: "log_of i [] = []" "log_of i (xs @ ys) = log_of i xs @ log_of i ys"
  "log_of i ((j, p) # xs) = (if j = i then p # log_of i xs else log_of i xs)"
  by (simp_all add: log_of_def)

fun in_flight :: "vcpu_loc \<Rightarrow> (u64 \<times> u64) list" where
  "in_flight (At_Init pc x0) = [(pc, x0)]"
| "in_flight _ = []"

definition pending :: "cpu_slot \<Rightarrow> (u64 \<times> u64) list" where
  "pending sl = (if sl_start_requested sl then [(sl_entry sl, sl_context sl)] else [])"

text \<open>Whether the slot of a processor that is off, or of one that runs, fits where its thread is.\<close>

definition off_slot :: "cpu_slot \<Rightarrow> bool" where
  "off_slot sl \<longleftrightarrow> sl_state sl = (if sl_start_requested sl then OnPending else Off)"

definition on_slot :: "cpu_slot \<Rightarrow> bool" where
  "on_slot sl \<longleftrightarrow> sl_state sl = On \<and> \<not> sl_start_requested sl"

fun loc_ok :: "nat \<Rightarrow> bool \<Rightarrow> bool \<Rightarrow> cpu_slot \<Rightarrow> vcpu_loc \<Rightarrow> bool" where
  "loc_ok i stop start sl At_Create \<longleftrightarrow> \<not> sl_created sl \<and> \<not> start \<and> off_slot sl \<and> \<not> sl_start_requested sl"
| "loc_ok i stop start sl At_Start \<longleftrightarrow> (if i = 0 then on_slot sl else off_slot sl \<and> (sl_start_requested sl \<longrightarrow> start))"
| "loc_ok i stop start sl (At_Outer b) \<longleftrightarrow> (start \<or> stop) \<and> \<not> b \<and> (if i = 0 then on_slot sl else stop \<or> off_slot sl)"
| "loc_ok i stop start sl At_Wait \<longleftrightarrow> (start \<or> stop) \<and> i \<noteq> 0 \<and> (stop \<or> off_slot sl)"
| "loc_ok i stop start sl (At_Init pc x0) \<longleftrightarrow> (start \<or> stop) \<and> on_slot sl"
| "loc_ok i stop start sl At_Loop \<longleftrightarrow> (start \<or> stop) \<and> on_slot sl"
| "loc_ok i stop start sl At_Guest \<longleftrightarrow> start \<and> on_slot sl"
| "loc_ok i stop start sl At_Pause \<longleftrightarrow> start \<and> on_slot sl"
| "loc_ok i stop start sl At_Leave \<longleftrightarrow> (start \<or> stop) \<and> (stop \<or> i \<noteq> 0 \<and> off_slot sl)"
| "loc_ok i stop start sl At_Exit \<longleftrightarrow> stop"
| "loc_ok i stop start sl At_Done \<longleftrightarrow> stop"

definition log_ok :: "u64 \<Rightarrow> u64 \<Rightarrow> nat \<Rightarrow> bool \<Rightarrow> cpu_slot \<Rightarrow> vcpu_loc \<Rightarrow> (u64 \<times> u64) list \<Rightarrow> (u64 \<times> u64) list \<Rightarrow> bool" where
  "log_ok entry dtb i stop sl l acc started \<longleftrightarrow>
    (if i = 0
     then acc = [] \<and> \<not> sl_start_requested sl \<and> prefix (started @ in_flight l) [(entry, dtb)] \<and>
       (l \<in> {At_Create, At_Start, At_Outer False} \<longrightarrow> started = [])
     else prefix (started @ in_flight l) acc \<and> (\<not> stop \<longrightarrow> acc = started @ in_flight l @ pending sl))"

definition cpu_ok :: "u64 \<Rightarrow> u64 \<Rightarrow> nat \<Rightarrow> hvf \<Rightarrow> bool" where
  "cpu_ok entry dtb i s \<longleftrightarrow>
    (let sl = hv_slots s ! i; l = hv_locs s ! i
     in (sl_paused sl \<longleftrightarrow> l = At_Pause) \<and> loc_ok i (hv_stop_requested s) (hv_start_vcpus s) sl l \<and>
        log_ok entry dtb i (hv_stop_requested s) sl l (log_of i (hv_accepted s)) (log_of i (hv_started s)))"

definition counts_ok :: "hvf \<Rightarrow> bool" where
  "counts_ok s \<longleftrightarrow> length (hv_locs s) = length (hv_slots s) \<and>
    hv_paused_vcpus s = length (filter sl_paused (hv_slots s)) \<and> hv_created_vcpus s = length (filter sl_created (hv_slots s))"

definition hvf_ok :: "u64 \<Rightarrow> u64 \<Rightarrow> u32 \<Rightarrow> hvf \<Rightarrow> bool" where
  "hvf_ok entry dtb cpus s \<longleftrightarrow> length (hv_slots s) = unat cpus \<and> counts_ok s \<and> (\<forall>i < unat cpus. cpu_ok entry dtb i s)"

lemma length_filter_update:
  assumes "i < length xs"
  shows "length (filter P (xs[i := x])) + of_bool (P (xs ! i)) = length (filter P xs) + of_bool (P x)"
proof -
  have "filter P (xs[i := x]) = filter P (take i xs) @ filter P [x] @ filter P (drop (Suc i) xs)"
    by (simp add: upd_conv_take_nth_drop [OF assms])
  moreover have "filter P xs = filter P (take i xs) @ filter P [xs ! i] @ filter P (drop (Suc i) xs)"
    by (subst id_take_nth_drop [OF assms]) simp
  ultimately show ?thesis by simp
qed

lemma loc_ok_mono:
  "loc_ok i stop start sl l \<Longrightarrow> (stop \<Longrightarrow> stop') \<Longrightarrow> (start \<longleftrightarrow> start') \<Longrightarrow> loc_ok i stop' start' sl l"
  by (cases l) auto

lemma log_ok_mono:
  "log_ok entry dtb i stop sl l acc started \<Longrightarrow> (stop \<Longrightarrow> stop') \<Longrightarrow> log_ok entry dtb i stop' sl l acc started"
  by (auto simp: log_ok_def split: if_splits)

text \<open>A step that changes nothing of a processor keeps its part of the invariant, also when a stop is requested.\<close>

lemma cpu_ok_frame:
  assumes "cpu_ok entry dtb j s" and "hv_slots s' ! j = hv_slots s ! j" and "hv_locs s' ! j = hv_locs s ! j"
    and "hv_stop_requested s \<Longrightarrow> hv_stop_requested s'" and "hv_start_vcpus s' = hv_start_vcpus s"
    and "log_of j (hv_accepted s') = log_of j (hv_accepted s)" and "log_of j (hv_started s') = log_of j (hv_started s)"
  shows "cpu_ok entry dtb j s'"
proof -
  let ?sl = "hv_slots s ! j" and ?l = "hv_locs s ! j"
  have "loc_ok j (hv_stop_requested s') (hv_start_vcpus s) ?sl ?l"
    using assms(1,4) by - (rule loc_ok_mono [of j "hv_stop_requested s" "hv_start_vcpus s"], simp_all add: cpu_ok_def Let_def)
  moreover have "log_ok entry dtb j (hv_stop_requested s') ?sl ?l (log_of j (hv_accepted s)) (log_of j (hv_started s))"
    using assms(1,4) by - (rule log_ok_mono [of entry dtb j "hv_stop_requested s"], simp_all add: cpu_ok_def Let_def)
  moreover have "sl_paused ?sl \<longleftrightarrow> ?l = At_Pause" using assms(1) by (simp add: cpu_ok_def Let_def)
  ultimately show ?thesis by (simp add: cpu_ok_def Let_def assms(2,3,5-7))
qed

text \<open>A step of one processor that changes its own slot and its own place only.\<close>

lemma hvf_ok_local:
  assumes ok: "hvf_ok entry dtb cpus s" and i: "i < unat cpus"
    and slots: "hv_slots s' = (hv_slots s)[i := sl]" and locs: "hv_locs s' = (hv_locs s)[i := l]"
    and stop: "hv_stop_requested s \<Longrightarrow> hv_stop_requested s'" and start: "hv_start_vcpus s' = hv_start_vcpus s"
    and acc: "hv_accepted s' = hv_accepted s" and started: "\<And>j. j \<noteq> i \<Longrightarrow> log_of j (hv_started s') = log_of j (hv_started s)"
    and paused: "hv_paused_vcpus s' + of_bool (sl_paused (hv_slots s ! i)) = hv_paused_vcpus s + of_bool (sl_paused sl)"
    and created: "hv_created_vcpus s' + of_bool (sl_created (hv_slots s ! i)) = hv_created_vcpus s + of_bool (sl_created sl)"
    and new: "cpu_ok entry dtb i s'"
  shows "hvf_ok entry dtb cpus s'"
proof -
  have n: "i < length (hv_slots s)" "length (hv_locs s) = length (hv_slots s)"
    using ok i by (simp_all add: hvf_ok_def counts_ok_def)
  have "cpu_ok entry dtb j s'" if "j < unat cpus" for j
  proof (cases "j = i")
    case False
    then show ?thesis using ok that stop
      by - (rule cpu_ok_frame [of entry dtb j s], simp_all add: hvf_ok_def slots locs start acc started)
  qed (simp add: new)
  moreover have "counts_ok s'"
    using ok n paused created length_filter_update [OF n(1), of sl_paused sl] length_filter_update [OF n(1), of sl_created sl]
    by (simp add: hvf_ok_def counts_ok_def slots locs)
  ultimately show ?thesis using ok by (simp add: hvf_ok_def slots)
qed

lemma hvf_okD:
  assumes "hvf_ok entry dtb cpus s" and "i < unat cpus"
  shows "i < length (hv_slots s)" "i < length (hv_locs s)" "cpu_ok entry dtb i s"
  using assms by (auto simp: hvf_ok_def counts_ok_def)

lemmas cpu_ok_defs = cpu_ok_def log_ok_def Let_def on_slot_def off_slot_def pending_def

text \<open>The same for a step that changes the place only, and perhaps requests a stop or sets the control word.\<close>

lemma hvf_ok_goto:
  assumes "hvf_ok entry dtb cpus s" and "i < unat cpus" and "hv_slots s' = hv_slots s" and "hv_locs s' = (hv_locs s)[i := l]"
    and "hv_stop_requested s \<Longrightarrow> hv_stop_requested s'" and "hv_start_vcpus s' = hv_start_vcpus s"
    and "hv_accepted s' = hv_accepted s" and "hv_started s' = hv_started s"
    and "hv_paused_vcpus s' = hv_paused_vcpus s" and "hv_created_vcpus s' = hv_created_vcpus s"
    and "cpu_ok entry dtb i s'"
  shows "hvf_ok entry dtb cpus s'"
  by (rule hvf_ok_local [OF assms(1,2), where sl = "hv_slots s ! i" and l = l]) (simp_all add: assms(3-))

lemma create_ok:
  assumes "hvf_ok entry dtb cpus s" and "i < unat cpus" and "hv_locs s ! i = At_Create"
  shows "hvf_ok entry dtb cpus (goto i At_Start (vcpu_created i s))"
  using assms(3) hvf_okD [OF assms(1,2)]
  by - (rule hvf_ok_local [OF assms(1,2), where l = At_Start], auto simp: vcpu_created_def cpu_ok_defs)

lemma create_throw_ok:
  assumes "hvf_ok entry dtb cpus s" and "i < unat cpus" and "hv_locs s ! i = At_Create"
  shows "hvf_ok entry dtb cpus (goto i (if active then At_Exit else At_Done) (vcpu_throw what s))"
  using assms(3) hvf_okD [OF assms(1,2)]
  by - (rule hvf_ok_goto [OF assms(1,2), where l = "if active then At_Exit else At_Done"],
      auto simp: vcpu_throw_def request_stop_def cpu_ok_defs)

lemma start_ok:
  assumes "hvf_ok entry dtb cpus s" and "hv_created_vcpus s = length (hv_slots s)"
  shows "hvf_ok entry dtb cpus (s\<lparr>hv_start_vcpus := True\<rparr>)"
proof -
  have "length (filter sl_created (hv_slots s)) = length (hv_slots s)"
    using assms by (simp add: hvf_ok_def counts_ok_def)
  then have "sl_created (hv_slots s ! i)" if "i < length (hv_slots s)" for i
    using that by (metis filter_id_conv length_filter_less nth_mem less_irrefl)
  then have created: "hv_locs s ! i \<noteq> At_Create" if "i < unat cpus" for i
    using hvf_okD [OF assms(1) that] by (auto simp: cpu_ok_def Let_def)
  have "cpu_ok entry dtb i (s\<lparr>hv_start_vcpus := True\<rparr>)" if "i < unat cpus" for i
    using hvf_okD [OF assms(1) that] created [OF that] by (cases "hv_locs s ! i") (auto simp: cpu_ok_def Let_def)
  then show ?thesis using assms(1) by (simp add: hvf_ok_def counts_ok_def)
qed

lemma begin_ok:
  assumes "hvf_ok entry dtb cpus s" and "i < unat cpus" and "hv_locs s ! i = At_Start" and "hv_start_vcpus s \<or> hv_stop_requested s"
  shows "hvf_ok entry dtb cpus (goto i (At_Outer False) s)"
  using assms(3,4) hvf_okD [OF assms(1,2)]
  by - (rule hvf_ok_goto [OF assms(1,2), where l = "At_Outer False"], auto simp: cpu_ok_defs split: if_splits)

lemma take_start_ok:
  assumes "hvf_ok entry dtb cpus s" and "i < unat cpus" and "hv_locs s ! i = At_Wait" and "start_ready i s"
  shows "hvf_ok entry dtb cpus (take_start i s)"
proof (cases "hv_stop_requested s")
  case True
  then show ?thesis using assms(3) hvf_okD [OF assms(1,2)]
    by - (rule hvf_ok_goto [OF assms(1,2), where l = At_Exit], auto simp: take_start_def cpu_ok_defs)
next
  case False
  let ?sl = "hv_slots s ! i"
  show ?thesis using False assms(3,4) hvf_okD [OF assms(1,2)]
    by - (rule hvf_ok_local [OF assms(1,2), where l = "At_Init (sl_entry ?sl) (sl_context ?sl)"
            and sl = "?sl\<lparr>sl_start_requested := False, sl_powered := True, sl_state := On\<rparr>"],
        auto simp: take_start_def start_ready_def cpu_ok_defs split: if_splits)
qed

lemma outer_ok:
  assumes "hvf_ok entry dtb cpus s" and "i < unat cpus" and "hv_locs s ! i = At_Outer b"
  shows "hvf_ok entry dtb cpus (outer_loop entry dtb i b s)"
proof (cases "i = 0")
  case True
  then show ?thesis using assms(3) hvf_okD [OF assms(1,2)]
    by - (rule hvf_ok_goto [OF assms(1,2), where l = "At_Init entry dtb"], auto simp: outer_loop_def cpu_ok_defs)
next
  case False
  define s1 where "s1 = (if hv_stop_requested s then s
    else upd_slot s i (\<lambda>sl. sl\<lparr>sl_powered := False, sl_state := Off, sl_paused := False\<rparr>))"
  note known = assms(3) hvf_okD [OF assms(1,2)]
  show ?thesis
  proof (cases "start_ready i s1")
    case True
    then have ready: "hv_stop_requested s \<or> sl_start_requested (hv_slots s ! i)"
      using known by (auto simp: s1_def start_ready_def split: if_splits)
    show ?thesis
    proof (cases "hv_stop_requested s")
      case stop: True
      then show ?thesis using False True known
        by - (rule hvf_ok_goto [OF assms(1,2), where l = At_Exit],
            auto simp: outer_loop_def s1_def take_start_def start_ready_def cpu_ok_defs)
    next
      case go: False
      let ?sl = "hv_slots s ! i"
      show ?thesis using False go True ready known
        by - (rule hvf_ok_local [OF assms(1,2), where l = "At_Init (sl_entry ?sl) (sl_context ?sl)"
              and sl = "?sl\<lparr>sl_paused := False, sl_start_requested := False, sl_powered := True, sl_state := On\<rparr>"],
            auto simp: outer_loop_def s1_def take_start_def start_ready_def cpu_ok_defs)
    qed
  next
    case wait: False
    then have "\<not> hv_stop_requested s" "\<not> sl_start_requested (hv_slots s ! i)"
      using known by (auto simp: s1_def start_ready_def split: if_splits)
    then show ?thesis using False known
      by - (rule hvf_ok_local [OF assms(1,2), where l = At_Wait
            and sl = "(hv_slots s ! i)\<lparr>sl_powered := False, sl_state := Off, sl_paused := False\<rparr>"],
          auto simp: outer_loop_def start_ready_def cpu_ok_defs)
  qed
qed

lemma init_ok:
  assumes "hvf_ok entry dtb cpus s" and "i < unat cpus" and "hv_locs s ! i = At_Init pc x0"
  shows "hvf_ok entry dtb cpus (init_vcpu i pc x0 s)"
  using assms(3) hvf_okD [OF assms(1,2)]
  by - (rule hvf_ok_local [OF assms(1,2), where l = At_Loop and sl = "hv_slots s ! i"],
      auto simp: init_vcpu_def cpu_ok_defs split: if_splits)

lemma pause_begin_ok:
  assumes "hvf_ok entry dtb cpus s" and "i < unat cpus" and "hv_locs s ! i = At_Loop" and "\<not> hv_stop_requested s"
  shows "hvf_ok entry dtb cpus (goto i At_Pause (pause_begin i s))"
  using assms(3,4) hvf_okD [OF assms(1,2)]
  by - (rule hvf_ok_local [OF assms(1,2), where l = At_Pause and sl = "(hv_slots s ! i)\<lparr>sl_paused := True\<rparr>"],
      auto simp: pause_begin_def cpu_ok_defs split: if_splits)

lemma loop_head_ok:
  assumes "hvf_ok entry dtb cpus s" and "i < unat cpus" and "hv_locs s ! i = At_Loop"
  shows "hvf_ok entry dtb cpus (run_loop_head ctl i c c' s)"
proof -
  note known = assms(3) hvf_okD [OF assms(1,2)]
  have leave: "hvf_ok entry dtb cpus (goto i At_Leave s)" if "hv_stop_requested s"
    using that known by - (rule hvf_ok_goto [OF assms(1,2), where l = At_Leave], auto simp: cpu_ok_defs split: if_splits)
  have stop: "hvf_ok entry dtb cpus (goto i At_Leave (request_stop ''host-stop'' 0 (s\<lparr>hv_control := kControlStateStopping\<rparr>)))"
    using known by - (rule hvf_ok_goto [OF assms(1,2), where l = At_Leave], auto simp: request_stop_def cpu_ok_defs split: if_splits)
  have guest: "hvf_ok entry dtb cpus (goto i At_Guest (s\<lparr>hv_control := k\<rparr>))" if "\<not> hv_stop_requested s" for k
    using that known by - (rule hvf_ok_goto [OF assms(1,2), where l = At_Guest], auto simp: cpu_ok_defs split: if_splits)
  show ?thesis
    using leave stop guest [of "hv_control s"] guest [of kControlStateRunning] pause_begin_ok [OF assms]
    by (simp add: run_loop_head_def)
qed

lemma pause_wake_ok:
  assumes "hvf_ok entry dtb cpus s" and "i < unat cpus" and "hv_locs s ! i = At_Pause"
  shows "hvf_ok entry dtb cpus (pause_wake i s)"
proof -
  note known = assms(3) hvf_okD [OF assms(1,2)]
  have paused: "sl_paused (hv_slots s ! i)" using known by (auto simp: cpu_ok_def Let_def)
  have "0 < length (filter sl_paused (hv_slots s))" using paused known(2) by (auto simp: filter_empty_conv intro: nth_mem)
  then have pos: "0 < hv_paused_vcpus s" using assms(1) by (simp add: hvf_ok_def counts_ok_def)
  let ?l = "if hv_stop_requested s then At_Leave else At_Guest"
  show ?thesis using paused known pos
    by - (rule hvf_ok_local [OF assms(1,2), where l = ?l and sl = "(hv_slots s ! i)\<lparr>sl_paused := False\<rparr>"],
        auto simp: pause_wake_def pause_end_def cpu_ok_defs split: if_splits)
qed

lemma goto_stop_ok:
  assumes "hvf_ok entry dtb cpus s" and "i < unat cpus" and "\<not> sl_paused (hv_slots s ! i)" and "hv_locs s ! i \<noteq> At_Create"
    and "l \<in> {At_Exit, At_Leave}" and "in_flight (hv_locs s ! i) = [] \<or> l = At_Exit" and "hv_slots s' = hv_slots s"
    and "hv_locs s' = (hv_locs s)[i := l]"
    and "hv_stop_requested s'" and "hv_start_vcpus s' = hv_start_vcpus s" and "hv_accepted s' = hv_accepted s"
    and "hv_started s' = hv_started s" and "hv_paused_vcpus s' = hv_paused_vcpus s" and "hv_created_vcpus s' = hv_created_vcpus s"
  shows "hvf_ok entry dtb cpus s'"
  using assms(3-6) hvf_okD [OF assms(1,2)]
  by - (rule hvf_ok_goto [OF assms(1,2) assms(7,8)], auto simp: assms(7-) cpu_ok_defs split: if_splits dest: append_prefixD)

lemma exit_stop_ok:
  assumes "hvf_ok entry dtb cpus s" and "i < unat cpus" and "hv_locs s ! i = At_Guest"
  shows "hvf_ok entry dtb cpus (goto i At_Leave (request_stop reason code s))"
  using assms(3) hvf_okD [OF assms(1,2)]
  by - (rule goto_stop_ok [OF assms(1,2), where l = At_Leave], auto simp: request_stop_def cpu_ok_def Let_def)

lemma throw_ok:
  assumes "hvf_ok entry dtb cpus s" and "i < unat cpus" and "hv_locs s ! i = At_Guest \<or> in_flight (hv_locs s ! i) \<noteq> []"
  shows "hvf_ok entry dtb cpus (goto i At_Exit (vcpu_throw what s))"
  using assms(3) hvf_okD [OF assms(1,2)]
  by - (rule goto_stop_ok [OF assms(1,2), where l = At_Exit], auto simp: vcpu_throw_def request_stop_def cpu_ok_def Let_def)

lemma exit_continue_ok:
  assumes "hvf_ok entry dtb cpus s" and "i < unat cpus" and "hv_locs s ! i = At_Guest"
  shows "hvf_ok entry dtb cpus (goto i At_Loop s)"
  using assms(3) hvf_okD [OF assms(1,2)]
  by - (rule hvf_ok_goto [OF assms(1,2), where l = At_Loop], auto simp: cpu_ok_defs split: if_splits)

lemma leave_ok:
  assumes "hvf_ok entry dtb cpus s" and "i < unat cpus" and "hv_locs s ! i = At_Leave"
  shows "hvf_ok entry dtb cpus (leave_run_loop i s)"
  using assms(3) hvf_okD [OF assms(1,2)]
  by - (rule hvf_ok_goto [OF assms(1,2), where l = "if hv_stop_requested s \<or> i = 0 then At_Exit else At_Outer False"],
      auto simp: leave_run_loop_def cpu_ok_defs split: if_splits)

lemma finish_ok:
  assumes "hvf_ok entry dtb cpus s" and "i < unat cpus" and "hv_locs s ! i = At_Exit"
  shows "hvf_ok entry dtb cpus (vcpu_finish i s)"
  using assms(3) hvf_okD [OF assms(1,2)]
  by - (rule hvf_ok_local [OF assms(1,2), where l = At_Done and sl = "(hv_slots s ! i)\<lparr>sl_live := False, sl_powered := False, sl_state := Off\<rparr>"],
      auto simp: vcpu_finish_def cpu_ok_defs split: if_splits)

lemma psci_request_ok:
  assumes "hvf_ok entry dtb cpus s"
  shows "hvf_ok entry dtb cpus (request_stop reason code s)"
proof -
  have "cpu_ok entry dtb i (request_stop reason code s)" if "i < unat cpus" for i
    by (rule cpu_ok_frame [OF hvf_okD(3) [OF assms that]]) (simp_all add: request_stop_def)
  then show ?thesis using assms by (simp add: hvf_ok_def counts_ok_def request_stop_def)
qed

section \<open>What a PSCI call changes\<close>

lemma CpuIndexFromMpidr_Some:
  assumes "CpuIndexFromMpidr mpidr cpus = Some t"
  shows "unat t < unat cpus \<and> unat t = unat (mpidr AND 0xFF)"
proof -
  have t: "t = ucast (mpidr AND 0xFF)" "\<not> cpus \<le> t"
    using assms by (auto simp: CpuIndexFromMpidr_def Let_def split: if_splits)
  have "unat (mpidr AND 0xFF) < 256" by (simp add: and_mask_8 unat_take_bit)
  then have "unat (ucast (mpidr AND 0xFF) :: u32) = unat (mpidr AND 0xFF)"
    by (simp add: unsigned_ucast_eq take_bit_nat_eq_self)
  then show ?thesis using t by (simp add: word_le_nat_alt)
qed

definition on_request :: "cpu_slot \<Rightarrow> u64 \<Rightarrow> u64 \<Rightarrow> cpu_slot" where
  "on_request sl x2 x3 = sl\<lparr>sl_entry := x2, sl_context := x3, sl_start_requested := True, sl_state := OnPending\<rparr>"

lemma psci_cpu_on_cases:
  obtains (refused) "pr_slots (psci_cpu_on cpus slots x1 x2 x3) = slots"
      "pr_x0 (psci_cpu_on cpus slots x1 x2 x3) \<noteq> Some kPsciSuccess"
    | (accepted) t where "0 < t" "t < unat cpus" "t = unat (x1 AND 0xFF)" "sl_state (slots ! t) = Off" "\<not> sl_start_requested (slots ! t)"
      "x2 \<noteq> 0" "psci_cpu_on cpus slots x1 x2 x3 = psci_return (slots[t := on_request (slots ! t) x2 x3]) kPsciSuccess"
proof (cases "CpuIndexFromMpidr x1 cpus")
  case None
  then show thesis by (intro refused) (simp_all add: psci_cpu_on_def psci_return_def source_consts)
next
  case (Some t)
  note t = CpuIndexFromMpidr_Some [OF Some]
  show thesis
  proof (cases "x2 = 0 \<or> t = 0 \<or> sl_state (slots ! unat t) \<noteq> Off \<or> sl_start_requested (slots ! unat t)")
    case True
    then show thesis using Some by (intro refused) (auto simp: psci_cpu_on_def psci_return_def source_consts Let_def)
  next
    case False
    then show thesis using Some t
      by (intro accepted [of "unat t"]) (auto simp: psci_cpu_on_def on_request_def Let_def unat_gt_0 unsigned_eq_0_iff)
  qed
qed

lemma psci_cpu_on_quiet: "pr_stop (psci_cpu_on cpus slots x1 x2 x3) = None" "\<not> pr_powered_off (psci_cpu_on cpus slots x1 x2 x3)"
  by (auto simp: psci_cpu_on_def psci_return_def Let_def split: option.split)

lemma psci_hvc_cases:
  obtains (same) "pr_slots (psci_hvc i cpus slots x0 x1 x2 x3) = slots" "\<not> pr_powered_off (psci_hvc i cpus slots x0 x1 x2 x3)"
      "accepted_on cpus slots x0 x1 x2 x3 = []"
    | (cpu_on) t where "0 < t" "t < unat cpus" "sl_state (slots ! t) = Off" "\<not> sl_start_requested (slots ! t)"
      "psci_hvc i cpus slots x0 x1 x2 x3 = psci_return (slots[t := on_request (slots ! t) x2 x3]) kPsciSuccess"
      "accepted_on cpus slots x0 x1 x2 x3 = [(t, x2, x3)]"
    | (cpu_off) "i \<noteq> 0" "psci_hvc i cpus slots x0 x1 x2 x3 = psci_cpu_off i slots" "accepted_on cpus slots x0 x1 x2 x3 = []"
proof (cases "x0 = kPsciCpuOn32 \<or> x0 = kPsciCpuOn64")
  case True
  then have on: "psci_hvc i cpus slots x0 x1 x2 x3 = psci_cpu_on cpus slots x1 x2 x3"
    by (auto simp: psci_hvc_def source_consts)
  show thesis
  proof (cases rule: psci_cpu_on_cases [of cpus slots x1 x2 x3])
    case refused
    then show thesis using True on psci_cpu_on_quiet by (intro same) (simp_all add: accepted_on_def)
  next
    case (accepted t)
    then show thesis using True on by (intro cpu_on [of t]) (simp_all add: accepted_on_def psci_return_def)
  qed
next
  case other: False
  show thesis
  proof (cases "x0 = kPsciCpuOff \<and> i \<noteq> 0")
    case True
    then show thesis using other by (intro cpu_off) (auto simp: psci_hvc_def accepted_on_def source_consts)
  next
    case False
    then show thesis using other
      by (intro same) (auto simp: psci_hvc_def accepted_on_def psci_return_def psci_stop_def psci_cpu_off_def)
  qed
qed

lemma hvf_ok_on_request:
  assumes ok: "hvf_ok entry dtb cpus s" and t: "0 < t" "t < unat cpus" and off: "sl_state (hv_slots s ! t) = Off" "\<not> sl_start_requested (hv_slots s ! t)"
    and start: "hv_start_vcpus s"
  shows "hvf_ok entry dtb cpus (s\<lparr>hv_slots := (hv_slots s)[t := on_request (hv_slots s ! t) x2 x3], hv_accepted := hv_accepted s @ [(t, x2, x3)]\<rparr>)"
    (is "hvf_ok entry dtb cpus ?s")
proof -
  note known = hvf_okD [OF ok t(2)]
  have "cpu_ok entry dtb t ?s"
    using known t off start by (cases "hv_locs s ! t") (auto simp: on_request_def cpu_ok_defs split: if_splits)
  moreover have "cpu_ok entry dtb j ?s" if "j < unat cpus" "j \<noteq> t" for j
    by (rule cpu_ok_frame [OF hvf_okD(3) [OF ok that(1)]]) (use that in simp_all)
  moreover have "counts_ok ?s"
    using ok length_filter_update [OF known(1), of sl_paused "on_request (hv_slots s ! t) x2 x3"]
      length_filter_update [OF known(1), of sl_created "on_request (hv_slots s ! t) x2 x3"]
    by (simp add: hvf_ok_def counts_ok_def on_request_def)
  ultimately show ?thesis using ok by (auto simp: hvf_ok_def)
qed

lemma hvc_ok:
  assumes ok: "hvf_ok entry dtb cpus s" and i: "i < unat cpus" and guest: "hv_locs s ! i = At_Guest"
  shows "hvf_ok entry dtb cpus (hvc_exit i x0 x1 x2 x3 s)"
proof -
  have n: "of_nat (length (hv_slots s)) = cpus" using ok by (simp add: hvf_ok_def)
  note known = guest hvf_okD [OF ok i]
  show ?thesis
  proof (cases rule: psci_hvc_cases [of i cpus "hv_slots s" x0 x1 x2 x3])
    case same
    show ?thesis
    proof (cases "pr_stop (psci_hvc i cpus (hv_slots s) x0 x1 x2 x3)")
      case None
      then have "hvc_exit i x0 x1 x2 x3 s = goto i At_Loop s" using same by (simp add: hvc_exit_def n Let_def)
      then show ?thesis using exit_continue_ok [OF ok i guest] by simp
    next
      case (Some p)
      obtain reason code where "p = (reason, code)" by (cases p)
      then have "hvc_exit i x0 x1 x2 x3 s = request_stop reason code (goto i At_Loop s)"
        using Some same by (simp add: hvc_exit_def n Let_def request_stop_def)
      then show ?thesis using psci_request_ok [OF exit_continue_ok [OF ok i guest]] by simp
    qed
  next
    case (cpu_on t)
    have start: "hv_start_vcpus s" and ti: "t \<noteq> i"
      using known cpu_on(3) by (auto simp: cpu_ok_def Let_def on_slot_def)
    let ?s = "s\<lparr>hv_slots := (hv_slots s)[t := on_request (hv_slots s ! t) x2 x3], hv_accepted := hv_accepted s @ [(t, x2, x3)]\<rparr>"
    have "hvc_exit i x0 x1 x2 x3 s = goto i At_Loop ?s"
      using cpu_on(5,6) by (simp add: hvc_exit_def n Let_def psci_return_def)
    moreover have "hvf_ok entry dtb cpus (goto i At_Loop ?s)"
      using guest by (intro exit_continue_ok [OF hvf_ok_on_request [OF ok cpu_on(1-4) start] i]) simp
    ultimately show ?thesis by simp
  next
    case cpu_off
    then show ?thesis using known
      by - (rule hvf_ok_local [OF ok i, where l = At_Leave and sl = "(hv_slots s ! i)\<lparr>sl_powered := False, sl_state := Off, sl_paused := False\<rparr>"],
          auto simp: hvc_exit_def n Let_def psci_cpu_off_def cpu_ok_defs split: if_splits)
  qed
qed

lemma hvf_init_ok: "hvf_ok entry dtb cpus (hvf_init cpus)"
  by (auto simp: hvf_ok_def counts_ok_def hvf_init_def slot_init_def cpu_ok_defs)

lemma hvf_step_ok:
  assumes "hvf_ok entry dtb cpus s" and "case cpu_of e of None \<Rightarrow> True | Some i \<Rightarrow> i < unat cpus"
    and "hvf_step entry dtb ctl s e = Some s'"
  shows "hvf_ok entry dtb cpus s'"
  using assms
  by (cases e) (auto simp: create_ok create_throw_ok [where active = True, simplified] create_throw_ok [where active = False, simplified] start_ok begin_ok take_start_ok loop_head_ok pause_wake_ok hvc_ok
      exit_continue_ok exit_stop_ok leave_ok finish_ok psci_request_ok throw_ok split: if_splits vcpu_loc.splits
      intro: outer_ok init_ok throw_ok)

lemma hvf_run_ok: "hvf_run entry dtb ctl cpus s \<Longrightarrow> hvf_ok entry dtb cpus s"
  by (induction rule: hvf_run.induct) (auto intro: hvf_init_ok hvf_step_ok)

section \<open>What the guest and the host can rely on\<close>

fun hvf_steps :: "u64 \<Rightarrow> u64 \<Rightarrow> bool \<Rightarrow> hvf \<Rightarrow> hvf_event list \<Rightarrow> hvf option" where
  "hvf_steps entry dtb ctl s [] = Some s"
| "hvf_steps entry dtb ctl s (e # es) = (case hvf_step entry dtb ctl s e of None \<Rightarrow> None | Some s' \<Rightarrow> hvf_steps entry dtb ctl s' es)"

lemma hvf_run_steps:
  assumes "hvf_run entry dtb ctl cpus s" and "\<forall>e \<in> set es. case cpu_of e of None \<Rightarrow> True | Some i \<Rightarrow> i < unat cpus"
    and "hvf_steps entry dtb ctl s es = Some s'"
  shows "hvf_run entry dtb ctl cpus s'"
  using assms
proof (induction es arbitrary: s)
  case (Cons e es)
  then obtain s1 where "hvf_step entry dtb ctl s e = Some s1" "hvf_steps entry dtb ctl s1 es = Some s'"
    by (auto split: option.splits)
  with Cons show ?case using hvf_run_step [of entry dtb ctl cpus s e s1] by simp
qed simp

text \<open>A run with two processors: the first starts the second with entry 0x1000 and context 7.\<close>

definition two_cpus :: "hvf_event list" where
  "two_cpus = [Create 0, Create 1, Start, Begin 0, Begin 1, Outer 0, Init_Regs 0, Loop_Head 0 0 0,
     Hvc 0 kPsciCpuOn64 1 0x1000 7, Outer 1]"

text \<open>C11. CPU_ON starts its target exactly once. Whatever the guest calls and however the threads, the host and failing hypervisor
  calls interleave, the processor threads other than the first initialise their registers with the entry points and contexts of the
  accepted CPU_ON calls for them, in that order, and nothing else; unless a stop was requested, an accepted
  call that has not run yet is the one the thread is about to take or is taking. The first processor runs the kernel's
  entry point with the device tree's address, once, and no CPU_ON for it is accepted.\<close>
theorem psci_on_starts_once:
  assumes "hvf_run entry dtb ctl cpus s" and "0 < i" and "i < unat cpus"
  shows "prefix (log_of i (hv_started s)) (log_of i (hv_accepted s)) \<and>
    (\<not> hv_stop_requested s \<longrightarrow>
      log_of i (hv_accepted s) = log_of i (hv_started s) @ in_flight (hv_locs s ! i) @ pending (hv_slots s ! i)) \<and>
    log_of 0 (hv_accepted s) = [] \<and> prefix (log_of 0 (hv_started s)) [(entry, dtb)]"
proof -
  have ok: "hvf_ok entry dtb cpus s" by (rule hvf_run_ok [OF assms(1)])
  have "0 < unat cpus" using assms(3) by simp
  from hvf_okD(3) [OF ok assms(3)] hvf_okD(3) [OF ok this] show ?thesis
    using assms(2) by (auto simp: cpu_ok_def Let_def log_ok_def dest: append_prefixD)
qed

theorem psci_on_starts_once_witness:
  "\<exists>s. hvf_steps 0x40400000 0x40000000 True (hvf_init 2) (two_cpus @ [Init_Regs 1]) = Some s \<and>
    log_of 1 (hv_started s) = [(0x1000, 7)] \<and> prefix (log_of 1 (hv_started s)) (log_of 1 (hv_accepted s))"
proof -
  let ?s = "the (hvf_steps 0x40400000 0x40000000 True (hvf_init 2) (two_cpus @ [Init_Regs 1]))"
  have steps: "hvf_steps 0x40400000 0x40000000 True (hvf_init 2) (two_cpus @ [Init_Regs 1]) = Some ?s" by code_simp
  have "\<forall>e \<in> set (two_cpus @ [Init_Regs 1]). case cpu_of e of None \<Rightarrow> True | Some i \<Rightarrow> i < unat (2 :: u32)" by code_simp
  then have "hvf_run 0x40400000 0x40000000 True 2 ?s" using hvf_run_steps [OF hvf_run_init _ steps] by blast
  from psci_on_starts_once [OF this, of 1] have "prefix (log_of 1 (hv_started ?s)) (log_of 1 (hv_accepted ?s))" by simp
  moreover have "log_of 1 (hv_started ?s) = [(0x1000, 7)]" by code_simp
  ultimately show ?thesis using steps by blast
qed

text \<open>An accepted CPU_ON takes effect. In every state that is reached without a stop, if a processor has a pending request, then
  at most three steps of its own thread, which no other thread can prevent, set its registers to the entry point and context of
  the request.\<close>
theorem psci_on_served:
  assumes "hvf_run entry dtb ctl cpus s" and "0 < i" and "i < unat cpus" and "\<not> hv_stop_requested s"
    and "sl_start_requested (hv_slots s ! i)"
  shows "\<exists>es s'. length es \<le> 3 \<and> (\<forall>e \<in> set es. cpu_of e = Some i) \<and> hvf_steps entry dtb ctl s es = Some s' \<and> hv_locs s' ! i = At_Loop \<and>
    hv_started s' = hv_started s @ [(i, sl_entry (hv_slots s ! i), sl_context (hv_slots s ! i))] \<and> hv_accepted s' = hv_accepted s"
proof -
  note known = hvf_okD [OF hvf_run_ok [OF assms(1)] assms(3)]
  have ok: "loc_ok i False (hv_start_vcpus s) (hv_slots s ! i) (hv_locs s ! i)"
    using known(3) assms(4) by (simp add: cpu_ok_def Let_def)
  have outer: "\<exists>s'. hvf_steps entry dtb ctl t [Outer i, Init_Regs i] = Some s' \<and> hv_locs s' ! i = At_Loop \<and>
      hv_started s' = hv_started s @ [(i, sl_entry (hv_slots s ! i), sl_context (hv_slots s ! i))] \<and> hv_accepted s' = hv_accepted s"
    if "t = goto i (At_Outer b) s" for t b
    using known(1,2) assms(2,4,5) by (simp add: that outer_loop_def take_start_def start_ready_def init_vcpu_def)
  show ?thesis
  proof (cases "hv_locs s ! i")
    case At_Start
    then have "hvf_step entry dtb ctl s (Begin i) = Some (goto i (At_Outer False) s)"
      using ok assms(2,5) by simp
    with outer [OF refl, of False] show ?thesis by (intro exI [of _ "[Begin i, Outer i, Init_Regs i]"]) simp
  next
    case (At_Outer b)
    then have "goto i (At_Outer b) s = s" by (metis (no_types, lifting) list_update_id hvf.surjective hvf.update_convs(2))
    with outer [of s b] show ?thesis by (intro exI [of _ "[Outer i, Init_Regs i]"]) simp
  next
    case At_Wait
    then show ?thesis using known(1,2) assms(4,5)
      by (intro exI [of _ "[Wake i, Init_Regs i]"]) (simp add: take_start_def start_ready_def init_vcpu_def Let_def)
  next
    case At_Leave
    then have "hvf_step entry dtb ctl s (Leave i) = Some (goto i (At_Outer False) s)"
      using assms(2,4) by (simp add: leave_run_loop_def)
    with outer [OF refl, of False] show ?thesis by (intro exI [of _ "[Leave i, Outer i, Init_Regs i]"]) simp
  qed (use ok assms(5) in \<open>simp_all add: on_slot_def\<close>)
qed

theorem psci_on_served_witness:
  "\<exists>es s'. length es \<le> 3 \<and>
    hvf_steps 0x40400000 0x40000000 True (the (hvf_steps 0x40400000 0x40000000 True (hvf_init 2) (butlast two_cpus))) es = Some s' \<and>
    hv_started s' = [(0, 0x40400000, 0x40000000), (1, 0x1000, 7)]"
proof -
  let ?s = "the (hvf_steps 0x40400000 0x40000000 True (hvf_init 2) (butlast two_cpus))"
  have steps: "hvf_steps 0x40400000 0x40000000 True (hvf_init 2) (butlast two_cpus) = Some ?s" by code_simp
  have "\<forall>e \<in> set (butlast two_cpus). case cpu_of e of None \<Rightarrow> True | Some i \<Rightarrow> i < unat (2 :: u32)" by code_simp
  then have r: "hvf_run 0x40400000 0x40000000 True 2 ?s" using hvf_run_steps [OF hvf_run_init _ steps] by blast
  have "\<not> hv_stop_requested ?s" "sl_start_requested (hv_slots ?s ! 1)" by code_simp+
  then obtain es s' where es: "length es \<le> 3" "hvf_steps 0x40400000 0x40000000 True ?s es = Some s'"
    "hv_started s' = hv_started ?s @ [(1, sl_entry (hv_slots ?s ! 1), sl_context (hv_slots ?s ! 1))]"
    using psci_on_served [OF r, of 1] by auto
  have "hv_started ?s @ [(1, sl_entry (hv_slots ?s ! 1), sl_context (hv_slots ?s ! 1))] = [(0, 0x40400000, 0x40000000), (1, 0x1000, 7)]"
    by code_simp
  with es show ?thesis by metis
qed

lemma filter_length_le:
  "\<forall>x \<in> set xs. P x \<longrightarrow> Q x \<Longrightarrow> length (filter P xs) \<le> length (filter Q xs)"
  by (induction xs) auto

lemma filter_length_subset:
  assumes "\<forall>x \<in> set xs. P x \<longrightarrow> Q x" and "length (filter Q xs) \<le> length (filter P xs)" and "x \<in> set xs" and "Q x"
  shows "P x"
  using assms
proof (induction xs)
  case (Cons y ys)
  then show ?case using filter_length_le [of ys P Q] by (auto split: if_splits)
qed simp



text \<open>A pause can go unreported. There is a reachable state of a machine with two processors in which the only
  processor that is on is in the pause and the other has switched itself off after it: the control word still reads "running", and
  no step other than the end of the pause or a request to stop changes anything, so a host that waits
  for "paused" waits as long as it asks for the pause.\<close>
theorem pause_report_can_be_missed:
  "\<exists>s. hvf_run 0x40400000 0x40000000 True 2 s \<and> hv_control s = kControlStateRunning \<and>
    hv_locs s ! 0 = At_Pause \<and> sl_state (hv_slots s ! 1) = Off \<and>
    (\<forall>e. (\<exists>i \<ge> 2. cpu_of e = Some i) \<or> hvf_step 0x40400000 0x40000000 True s e \<in> {None, Some s} \<or>
      (\<exists>i c. e = Unpause i c \<and> c \<noteq> kControlPause) \<or> (\<exists>reason code. e = Request reason code))"
proof -
  let ?es = "two_cpus @ [Init_Regs 1, Loop_Head 1 0 0, Loop_Head 0 0 1, Hvc 1 kPsciCpuOff 0 0 0, Leave 1, Outer 1]"
  define s where "s = the (hvf_steps 0x40400000 0x40000000 True (hvf_init 2) ?es)"
  have steps: "hvf_steps 0x40400000 0x40000000 True (hvf_init 2) ?es = Some s" unfolding s_def by code_simp
  have "\<forall>e \<in> set ?es. case cpu_of e of None \<Rightarrow> True | Some i \<Rightarrow> i < unat (2 :: u32)" by code_simp
  then have r: "hvf_run 0x40400000 0x40000000 True 2 s" using hvf_run_steps [OF hvf_run_init _ steps] by blast
  have locs: "hv_locs s = [At_Pause, At_Wait]" unfolding s_def by code_simp
  have rest: "hv_control s = kControlStateRunning" "\<not> hv_stop_requested s" "hv_start_vcpus s" "sl_state (hv_slots s ! 1) = Off"
    "\<not> sl_start_requested (hv_slots s ! 1)" unfolding s_def by code_simp+
  have "(\<exists>i \<ge> 2. cpu_of e = Some i) \<or> hvf_step 0x40400000 0x40000000 True s e \<in> {None, Some s} \<or>
      (\<exists>i c. e = Unpause i c \<and> c \<noteq> kControlPause) \<or> (\<exists>reason code. e = Request reason code)" for e
  proof (cases "cpu_of e")
    case None
    moreover have "s\<lparr>hv_start_vcpus := True\<rparr> = s" using rest(3) by simp
    ultimately show ?thesis by (cases e) simp_all
  next
    case (Some i)
    consider (high) "2 \<le> i" | (zero) "i = 0" | (one) "i = 1" by linarith
    then show ?thesis
    proof cases
      case zero
      then show ?thesis using Some rest(2) by (cases e) (simp_all add: locs)
    next
      case one
      then show ?thesis using Some rest(2,5) by (cases e) (simp_all add: locs start_ready_def)
    qed (use Some in blast)
  qed
  moreover have "hv_locs s ! 0 = At_Pause" by (simp add: locs)
  ultimately show ?thesis using r rest(1,4) by blast
qed

end
