(* ===== verification/Whp_Run.thy ===== *)
theory Whp_Run
  imports Whp_Exits Arm_Psci Fdt
begin

unbundle bit_operations_syntax

text \<open>
  The run loop of the Windows backend (native/whp/backend.cc: struct RunControl, WhpExitReason, DescribeWhpExit, and from RunVm finish,
  record_error, the watchdog, the timer thread, vcpu_loop, make_result and the code that starts and joins the
  threads). Every thread is a place in its code; a step of a thread runs to its next atomic access, and a section under device_mu is
  one step. What the outside decides at a step, the command word of the host, the clock, the exit of the processor, the calls that the
  instruction emulator of the platform makes, is the record \<open>reading\<close>. The waits with a time limit are the freedom of the scheduler.
\<close>

section \<open>Exits and their names\<close>

datatype exit_reason = X64Halt | MemoryAccess | X64IoPortAccess | UnrecoverableException | InvalidVpRegisterValue | UnsupportedFeature
  | X64InterruptWindow | X64ApicEoi | X64MsrAccess | X64Cpuid | Canceled | OtherReason u32

record mem_access =
  mx_gpa :: u64
  mx_gva :: u64
  mx_type :: nat
  mx_count :: u8

record vp_exception =
  ve_type :: u8
  ve_code :: u32
  ve_param :: u64

text \<open>WHV_RUN_VP_EXIT_CONTEXT: the members of its union side by side.\<close>

record whp_exit =
  ex_reason :: exit_reason
  ex_rip :: u64
  ex_len :: u8
  ex_vp :: exit_context
  ex_io :: io_context
  ex_mem :: mem_access
  ex_exc :: vp_exception
  ex_eoi :: u32
  ex_msr :: msr_access
  ex_cpuid :: cpuid_access
  ex_cpuid_rcx :: u64

text \<open>std::to_string of an unsigned number.\<close>

fun to_dec :: "nat \<Rightarrow> string" where
  "to_dec n = (if n < 10 then [hex_digit n] else to_dec (n div 10) @ [hex_digit (n mod 10)])"

declare to_dec.simps [simp del]

fun WhpExitReason :: "exit_reason \<Rightarrow> string" where
  "WhpExitReason X64Halt = ''hlt''"
| "WhpExitReason MemoryAccess = ''memory-access''"
| "WhpExitReason X64IoPortAccess = ''io-port''"
| "WhpExitReason UnrecoverableException = ''unrecoverable-exception''"
| "WhpExitReason InvalidVpRegisterValue = ''invalid-vp-register''"
| "WhpExitReason UnsupportedFeature = ''unsupported-feature''"
| "WhpExitReason X64InterruptWindow = ''interrupt-window''"
| "WhpExitReason X64ApicEoi = ''apic-eoi''"
| "WhpExitReason X64MsrAccess = ''msr-access''"
| "WhpExitReason X64Cpuid = ''cpuid''"
| "WhpExitReason Canceled = ''canceled''"
| "WhpExitReason (OtherReason n) = ''whp-exit-'' @ to_dec (unat n)"

definition Hex :: "u64 \<Rightarrow> string" where "Hex v = ''0x'' @ to_hex (unat v)"

definition DescribeWhpExit :: "whp_exit \<Rightarrow> string" where
  "DescribeWhpExit x = ''exit='' @ WhpExitReason (ex_reason x) @ '' rip='' @ Hex (ex_rip x) @
    (case ex_reason x of
       X64IoPortAccess \<Rightarrow> '' port='' @ Hex (ucast (io_port (ex_io x))) @ '' size='' @ to_dec (unat (io_size (ex_io x))) @
         '' write='' @ to_dec (of_bool (io_is_write (ex_io x))) @ '' len='' @ to_dec (unat (io_count (ex_io x))) @ '' rax='' @ Hex (io_rax (ex_io x))
     | MemoryAccess \<Rightarrow> '' gpa='' @ Hex (mx_gpa (ex_mem x)) @ '' gva='' @ Hex (mx_gva (ex_mem x)) @ '' access='' @ to_dec (mx_type (ex_mem x)) @
         '' len='' @ to_dec (unat (mx_count (ex_mem x)))
     | UnrecoverableException \<Rightarrow> '' exception='' @ to_dec (unat (ve_type (ex_exc x))) @ '' error='' @ Hex (ucast (ve_code (ex_exc x))) @
         '' param='' @ Hex (ve_param (ex_exc x))
     | X64ApicEoi \<Rightarrow> '' vector='' @ Hex (ucast (ex_eoi x))
     | X64MsrAccess \<Rightarrow> '' msr='' @ Hex (ucast (ma_number (ex_msr x))) @ '' write='' @ to_dec (of_bool (ma_is_write (ex_msr x)))
     | X64Cpuid \<Rightarrow> '' leaf='' @ Hex (ca_rax (ex_cpuid x) AND 0xFFFFFFFF) @ '' subleaf='' @ Hex (ex_cpuid_rcx x AND 0xFFFFFFFF)
     | _ \<Rightarrow> [])"

section \<open>The state of a run\<close>

definition kControlStateExited :: int where [source_consts]: "kControlStateExited = 4"

text \<open>What RunVm fixes before it starts its threads; \<open>c_control\<close> tells whether the host gave a control array, \<open>c_start\<close> is a time in
  nanoseconds.\<close>

record ('f, 'p) run_config =
  c_host :: "'f host"
  c_vp :: "'p vp_api"
  c_reg :: "'p reg_api"
  c_cpus :: nat
  c_rootfs :: bool
  c_timeout_ms :: nat
  c_start :: int
  c_control :: bool

text \<open>A call of the emulator back into the devices.\<close>

datatype callback = Io_Callback bool u16 u16 u32 | Memory_Callback bool u64 bytes

fun callback_event :: "callback \<Rightarrow> machine_event" where
  "callback_event (Io_Callback write port sz data) = Port_Access write port sz data"
| "callback_event (Memory_Callback write gpa data) = Memory_Access write gpa data"

text \<open>What an emulation did: its calls, the registers it left, whether the call succeeded, and its status.\<close>

record 'p emulation =
  em_calls :: "callback list"
  em_p :: 'p
  em_hr :: "unit result"
  em_successful :: bool
  em_status :: nat

record 'p reading =
  rd_command :: int
  rd_now :: int
  rd_moment :: moment
  rd_run :: "('p \<times> whp_exit) result"
  rd_emu :: "'p emulation"

record run_result =
  rr_reason :: string
  rr_code :: exit_reason
  rr_runs :: u32
  rr_console :: bytes

text \<open>Where a thread is. \<open>L_Stopping\<close>, \<open>L_Cas\<close> and \<open>L_Store\<close> are inside a stop and inside finish, with the place they return to. The places from
  \<open>L_Join\<close> on are those of the main thread after its processor has returned; the places \<open>W_\<close> are those of the watchdog.\<close>

datatype vloc =
    L_Top | L_Command | L_Stopping vloc | L_Cas string exit_reason vloc | L_Store string exit_reason vloc
  | L_Pause_In | L_Pause_Report | L_Pause_Wait | L_Pause_Out | L_Pause_Command | L_Pause_Test | L_Pause_Running
  | L_Halted | L_Pre_Run | L_Run | L_Exit whp_exit | L_Dispatch whp_exit | L_Error string | L_Return
  | L_Join | L_Exited | L_Stop_Watchdog | L_Join_Watchdog | L_Result "run_result result"
  | W_Loop | W_Command | W_Deadline | W_Cancel | W_End

record vcpu_local =
  lo_halted :: bool
  lo_last :: "whp_exit option"
  lo_paused_at :: int

text \<open>The shared variables of RunVm. Thread i is that of processor i, and the last one is the watchdog. The interrupt state of processor 0 is in
  the machine. \<open>vm_first\<close> and \<open>vm_errors\<close> record the first successful finish and all recorded errors.\<close>

record ('f, 'p) vm =
  vm_m :: "'f machine"
  vm_p :: 'p
  vm_aps :: "irq_state list"
  vm_hv :: HyperVState
  vm_done :: bool
  vm_timeout :: bool
  vm_wd_done :: bool
  vm_runs :: u64
  vm_paused :: nat
  vm_halted :: nat
  vm_ext_ms :: int
  vm_reason :: string
  vm_code :: exit_reason
  vm_error :: string
  vm_state :: int
  vm_locs :: "vloc list"
  vm_local :: "vcpu_local list"
  vm_first :: "(string \<times> exit_reason) option"
  vm_errors :: "string list"

definition vm_init :: "('f, 'p) run_config \<Rightarrow> 'f machine \<Rightarrow> 'p \<Rightarrow> HyperVState \<Rightarrow> ('f, 'p) vm" where
  "vm_init c m p hv = \<lparr>vm_m = m, vm_p = p, vm_aps = map (\<lambda>i. irq_state_init (of_nat i)) [0 ..< c_cpus c], vm_hv = hv, vm_done = False,
     vm_timeout = False, vm_wd_done = False, vm_runs = 0, vm_paused = 0, vm_halted = 0, vm_ext_ms = 0, vm_reason = ''host-stop'',
     vm_code = Canceled, vm_error = [], vm_state = (if c_control c then kControlStateRunning else kControlStateStarting),
     vm_locs = replicate (c_cpus c) L_Top @ [W_Loop],
     vm_local = replicate (c_cpus c) \<lparr>lo_halted = False, lo_last = None, lo_paused_at = 0\<rparr>, vm_first = None, vm_errors = []\<rparr>"

abbreviation at :: "nat \<Rightarrow> vloc \<Rightarrow> ('f, 'p) vm \<Rightarrow> ('f, 'p) vm" where
  "at i l s \<equiv> s\<lparr>vm_locs := (vm_locs s)[i := l]\<rparr>"

abbreviation upd_local :: "nat \<Rightarrow> (vcpu_local \<Rightarrow> vcpu_local) \<Rightarrow> ('f, 'p) vm \<Rightarrow> ('f, 'p) vm" where
  "upd_local i f s \<equiv> s\<lparr>vm_local := (vm_local s)[i := f (vm_local s ! i)]\<rparr>"

definition command_of :: "('f, 'p) run_config \<Rightarrow> 'p reading \<Rightarrow> int" where
  "command_of c r = (if \<not> c_control c then kControlRun else rd_command r)"

definition set_state :: "('f, 'p) run_config \<Rightarrow> int \<Rightarrow> ('f, 'p) vm \<Rightarrow> ('f, 'p) vm" where
  "set_state c st s = (if c_control c then s\<lparr>vm_state := st\<rparr> else s)"

definition cancel_all :: "('f, 'p) vm \<Rightarrow> ('f, 'p) vm" where
  "cancel_all s = s\<lparr>vm_m := (vm_m s)\<lparr>m_cancels := m_cancels (vm_m s) + 1\<rparr>\<rparr>"

definition vcpu_irq :: "('f, 'p) vm \<Rightarrow> nat \<Rightarrow> irq_state" where
  "vcpu_irq s i = (if i = 0 then m_bsp (vm_m s) else vm_aps s ! i)"

definition put_irq :: "nat \<Rightarrow> irq_state \<Rightarrow> ('f, 'p) vm \<Rightarrow> ('f, 'p) vm" where
  "put_irq i v s = (if i = 0 then s\<lparr>vm_m := (vm_m s)\<lparr>m_bsp := v\<rparr>\<rparr> else s\<lparr>vm_aps := (vm_aps s)[i := v]\<rparr>)"

definition timeout_message :: "('f, 'p) run_config \<Rightarrow> string" where
  "timeout_message c = ''VM timed out after '' @ to_dec (c_timeout_ms c) @ ''ms''"

text \<open>The return of vcpu_loop: the main thread calls finish once more and joins the others.\<close>

definition returned :: "nat \<Rightarrow> vloc" where
  "returned i = (if i = 0 then L_Cas ''host-stop'' Canceled L_Join else L_Return)"

section \<open>The exits\<close>

text \<open>After the devices have served a port access: the guest may have asked for its end.\<close>

definition io_exit_done :: "nat \<Rightarrow> ('f, 'p) vm \<Rightarrow> ('f, 'p) vm \<times> vloc" where
  "io_exit_done i s =
    (s, if ge_requested (m_exit (vm_m s)) then L_Cas ''guest-exit'' X64IoPortAccess (returned i)
        else if uart_contains (m_uart (vm_m s)) kHalted \<or> uart_contains (m_uart (vm_m s)) kRestarting
        then L_Cas ''halted-console'' X64Halt (returned i) else L_Top)"

definition io_exit :: "('f, 'p) run_config \<Rightarrow> 'p reading \<Rightarrow> nat \<Rightarrow> whp_exit \<Rightarrow> ('f, 'p) vm \<Rightarrow> (('f, 'p) vm \<times> vloc) option" where
  "io_exit c r i x s =
    (case PrepareWhpIoContext (c_reg c) (vm_p s) (of_nat i) (m_mem (vm_m s)) (ex_rip x) (ex_io x) of
       Inl e \<Rightarrow> Some (s, L_Error e)
     | Inr io \<Rightarrow> Option.bind (machine_run (c_host c) (vm_m s) (map (\<lambda>call. (rd_moment r, callback_event call)) (em_calls (rd_emu r)))) (\<lambda>m.
         let s = s\<lparr>vm_m := m, vm_p := em_p (rd_emu r)\<rparr>
         in if em_hr (rd_emu r) \<noteq> Inr () \<or> \<not> em_successful (rd_emu r)
            then case HandleWhpIo (c_host c) (rd_moment r) (c_reg c) (vm_p s) (of_nat i) (ex_rip x) io (vm_m s) of
                   Inl e \<Rightarrow> Some (s, L_Error e)
                 | Inr (m, p) \<Rightarrow> Some (io_exit_done i (s\<lparr>vm_m := m, vm_p := p\<rparr>))
            else Some (io_exit_done i s)))"

definition mmio_exit :: "('f, 'p) run_config \<Rightarrow> 'p reading \<Rightarrow> nat \<Rightarrow> whp_exit \<Rightarrow> ('f, 'p) vm \<Rightarrow> (('f, 'p) vm \<times> vloc) option" where
  "mmio_exit c r i x s =
    Option.bind (machine_run (c_host c) (vm_m s) (map (\<lambda>call. (rd_moment r, callback_event call)) (em_calls (rd_emu r)))) (\<lambda>m.
      let s = s\<lparr>vm_m := m, vm_p := em_p (rd_emu r)\<rparr>
      in Some (s, case em_hr (rd_emu r) of Inl e \<Rightarrow> L_Error e
           | Inr _ \<Rightarrow> if em_successful (rd_emu r) then L_Top
                      else L_Error (''WHP MMIO emulation failed with status '' @ to_dec (em_status (rd_emu r)) @
                             '' gpa=0x'' @ to_dec (unat (mx_gpa (ex_mem x))))))"

text \<open>A HLT of a guest without a disk: the machine ends when all processors have halted.\<close>

definition park :: "('f, 'p) run_config \<Rightarrow> nat \<Rightarrow> ('f, 'p) vm \<Rightarrow> ('f, 'p) vm \<times> vloc" where
  "park c i s =
    (let s = (upd_local i (\<lambda>l. l\<lparr>lo_halted := True\<rparr>) s)\<lparr>vm_halted := vm_halted s + 1\<rparr>
     in (s, if vm_halted s = c_cpus c then L_Cas ''hlt'' X64Halt L_Top else L_Top))"

definition dispatch :: "('f, 'p) run_config \<Rightarrow> 'p reading \<Rightarrow> nat \<Rightarrow> whp_exit \<Rightarrow> ('f, 'p) vm \<Rightarrow> (('f, 'p) vm \<times> vloc) option" where
  "dispatch c r i x s =
    (let deliver = h_deliver (c_host c)
     in case ex_reason x of
       X64Halt \<Rightarrow> Some (if c_rootfs c
         then case halt_exit (c_vp c) (vm_p s) (vcpu_irq s i) of (p, v) \<Rightarrow> ((put_irq i v s)\<lparr>vm_p := p\<rparr>, L_Top) else park c i s)
     | X64IoPortAccess \<Rightarrow> io_exit c r i x s
     | MemoryAccess \<Rightarrow> mmio_exit c r i x s
     | X64ApicEoi \<Rightarrow> Some (s\<lparr>vm_m := (vm_m s)\<lparr>m_ioapic := eoi deliver (m_ioapic (vm_m s)) (ex_eoi x)\<rparr>\<rparr>, L_Top)
     | X64InterruptWindow \<Rightarrow> Some (case window_exit (c_vp c) (vm_p s) (vcpu_irq s i) of (p, v) \<Rightarrow>
         let s = (put_irq i v s)\<lparr>vm_p := p\<rparr> in (s\<lparr>vm_m := (vm_m s)\<lparr>m_ioapic := drain_pending deliver (m_ioapic (vm_m s))\<rparr>\<rparr>, L_Top))
     | X64Cpuid \<Rightarrow> Some (case HandleWhpCpuid (c_reg c) (vm_p s) (of_nat i) (ex_rip x) (ex_len x) (ex_cpuid x) (of_nat (c_cpus c)) of
         Inl e \<Rightarrow> (s, L_Error e) | Inr p \<Rightarrow> (s\<lparr>vm_p := p\<rparr>, L_Top))
     | X64MsrAccess \<Rightarrow> Some (case HandleWhpMsr (c_reg c) (vm_p s) (of_nat i) (ex_rip x) (ex_len x) (ex_msr x) (rd_now r) (vm_hv s) of
         Inl e \<Rightarrow> (s, L_Error e) | Inr (p, hv) \<Rightarrow> (s\<lparr>vm_p := p, vm_hv := hv\<rparr>, L_Top))
     | Canceled \<Rightarrow> Some (s, if vm_timeout s then L_Error (timeout_message c) else if vm_done s then returned i else L_Top)
     | reason \<Rightarrow> Some (s, L_Cas (WhpExitReason reason) reason (returned i)))"

section \<open>The threads\<close>

text \<open>The section under device_mu before a processor enters the guest.\<close>

definition pre_run :: "('f, 'p) run_config \<Rightarrow> nat \<Rightarrow> ('f, 'p) vm \<Rightarrow> ('f, 'p) vm" where
  "pre_run c i s =
    (let s = (if c_rootfs c \<and> i = 0
              then case TryDeliverPendingExtInt (c_vp c) (vm_p s) (vcpu_irq s 0) of (_, p, v) \<Rightarrow> (put_irq 0 v s)\<lparr>vm_p := p\<rparr> else s)
     in s\<lparr>vm_m := (vm_m s)\<lparr>m_ioapic := drain_pending (h_deliver (c_host c)) (m_ioapic (vm_m s))\<rparr>\<rparr>)"

text \<open>run_vp has returned.\<close>

definition run_returned :: "('f, 'p) run_config \<Rightarrow> 'p reading \<Rightarrow> nat \<Rightarrow> ('f, 'p) vm \<Rightarrow> ('f, 'p) vm" where
  "run_returned c r i s =
    (case rd_run r of
       Inl e \<Rightarrow> at i (L_Error (if vm_timeout s
           then timeout_message c @ (case lo_last (vm_local s ! i) of None \<Rightarrow> [] | Some x \<Rightarrow> '' last '' @ DescribeWhpExit x) else e)) s
     | Inr (p, x) \<Rightarrow> at i (L_Exit x) (put_irq i (UpdateVcpuFromExit (vcpu_irq s i) (ex_vp x))
           ((upd_local i (\<lambda>l. l\<lparr>lo_last := Some x\<rparr>) s)\<lparr>vm_p := p, vm_runs := vm_runs s + 1\<rparr>)))"

text \<open>record_error up to its call of finish.\<close>

definition record_error :: "('f, 'p) run_config \<Rightarrow> string \<Rightarrow> ('f, 'p) vm \<Rightarrow> ('f, 'p) vm" where
  "record_error c message s =
    (let detail = (if message = [] then if vm_timeout s then timeout_message c else ''unknown WHP vCPU runner error'' else message)
     in s\<lparr>vm_error := (if vm_error s = [] then detail else vm_error s), vm_errors := vm_errors s @ [detail]\<rparr>)"

definition make_result :: "('f, 'p) run_config \<Rightarrow> ('f, 'p) vm \<Rightarrow> run_result result" where
  "make_result c s =
    (if vm_timeout s \<and> vm_error s = [] then Inl (timeout_message c)
     else if vm_error s \<noteq> [] then Inl (vm_error s)
     else Inr \<lparr>rr_reason = vm_reason s, rr_code = vm_code s, rr_runs = (if 0xFFFFFFFF < vm_runs s then 0xFFFFFFFF else ucast (vm_runs s)),
            rr_console = u_console (m_uart (vm_m s))\<rparr>)"

text \<open>The main thread after the join of the watchdog: a result that is an error passes through the handler that sets the state again.\<close>

definition deliver_result :: "('f, 'p) run_config \<Rightarrow> nat \<Rightarrow> ('f, 'p) vm \<Rightarrow> ('f, 'p) vm" where
  "deliver_result c i s = (let r = make_result c s in at i (L_Result r) (case r of Inl _ \<Rightarrow> set_state c kControlStateExited s | Inr _ \<Rightarrow> s))"

definition deadline_passed :: "('f, 'p) run_config \<Rightarrow> 'p reading \<Rightarrow> ('f, 'p) vm \<Rightarrow> bool" where
  "deadline_passed c r s \<longleftrightarrow> 0 < c_timeout_ms c \<and> c_start c + 1000000 * (int (c_timeout_ms c) + vm_ext_ms s) < rd_now r"

text \<open>finish: the compare-exchange on vm_done, and what the winner does. \<open>l\<close> is the place after the call.\<close>

definition finish_cas :: "nat \<Rightarrow> string \<Rightarrow> exit_reason \<Rightarrow> vloc \<Rightarrow> ('f, 'p) vm \<Rightarrow> ('f, 'p) vm" where
  [simp]: "finish_cas i reason code l s =
    (if vm_done s then at i l s else at i (L_Store reason code l) (s\<lparr>vm_done := True, vm_first := Some (reason, code)\<rparr>))"

definition finish_store :: "nat \<Rightarrow> string \<Rightarrow> exit_reason \<Rightarrow> vloc \<Rightarrow> ('f, 'p) vm \<Rightarrow> ('f, 'p) vm" where
  [simp]: "finish_store i reason code l s = at i l (cancel_all (s\<lparr>vm_reason := reason, vm_code := code\<rparr>))"

text \<open>A processor enters and leaves the pause.\<close>

definition pause_enter :: "('f, 'p) run_config \<Rightarrow> nat \<Rightarrow> 'p reading \<Rightarrow> ('f, 'p) vm \<Rightarrow> ('f, 'p) vm" where
  [simp]: "pause_enter c i r s = at i (if vm_paused s + 1 = c_cpus c then L_Pause_Report else L_Pause_Wait)
     ((upd_local i (\<lambda>l. l\<lparr>lo_paused_at := rd_now r\<rparr>) s)\<lparr>vm_paused := vm_paused s + 1\<rparr>)"

definition pause_leave :: "('f, 'p) run_config \<Rightarrow> nat \<Rightarrow> 'p reading \<Rightarrow> ('f, 'p) vm \<Rightarrow> ('f, 'p) vm" where
  [simp]: "pause_leave c i r s = at i L_Pause_Command (s\<lparr>vm_paused := vm_paused s - 1,
     vm_ext_ms := (if 0 < c_timeout_ms c \<and> i = 0 then vm_ext_ms s + (rd_now r - lo_paused_at (vm_local s ! i)) div 1000000 else vm_ext_ms s)\<rparr>)"

text \<open>The watchdog: what it does with the command of the host, and the test of the deadline.\<close>

definition watchdog_command :: "('f, 'p) run_config \<Rightarrow> nat \<Rightarrow> 'p reading \<Rightarrow> ('f, 'p) vm \<Rightarrow> ('f, 'p) vm" where
  [simp]: "watchdog_command c i r s =
    (if command_of c r = kControlStop then at i (L_Stopping W_End) s
     else if command_of c r = kControlPause then at i W_Loop (cancel_all s) else at i W_Deadline s)"

definition watchdog_deadline :: "('f, 'p) run_config \<Rightarrow> nat \<Rightarrow> 'p reading \<Rightarrow> ('f, 'p) vm \<Rightarrow> ('f, 'p) vm" where
  [simp]: "watchdog_deadline c i r s = (if deadline_passed c r s then at i W_Cancel (s\<lparr>vm_timeout := True\<rparr>) else at i W_Loop s)"

text \<open>One step of thread i; None: the thread waits for another one, has ended, or does not return from a device.\<close>

definition thread_step :: "('f, 'p) run_config \<Rightarrow> nat \<Rightarrow> 'p reading \<Rightarrow> ('f, 'p) vm \<Rightarrow> ('f, 'p) vm option" where
  "thread_step c i r s =
    (case vm_locs s ! i of
       L_Top \<Rightarrow> Some (at i (if vm_done s then returned i else L_Command) s)
     | L_Command \<Rightarrow> Some (at i (if command_of c r = kControlStop then L_Stopping (returned i)
         else if command_of c r = kControlPause then L_Pause_In else L_Halted) s)
     | L_Stopping l \<Rightarrow> Some (at i (L_Cas ''host-stop'' Canceled l) (set_state c kControlStateStopping s))
     | L_Cas reason code l \<Rightarrow> Some (finish_cas i reason code l s)
     | L_Store reason code l \<Rightarrow> Some (finish_store i reason code l s)
     | L_Pause_In \<Rightarrow> Some (pause_enter c i r s)
     | L_Pause_Report \<Rightarrow> Some (at i L_Pause_Wait (set_state c kControlStatePaused s))
     | L_Pause_Wait \<Rightarrow> Some (if command_of c r = kControlPause \<and> \<not> vm_done s \<and> \<not> vm_timeout s then s else at i L_Pause_Out s)
     | L_Pause_Out \<Rightarrow> Some (pause_leave c i r s)
     | L_Pause_Command \<Rightarrow> Some (at i (if command_of c r = kControlStop then L_Stopping (returned i) else L_Pause_Test) s)
     | L_Pause_Test \<Rightarrow> Some (at i (if vm_done s then L_Halted else L_Pause_Running) s)
     | L_Pause_Running \<Rightarrow> Some (at i L_Halted (set_state c kControlStateRunning s))
     | L_Halted \<Rightarrow> Some (at i (if lo_halted (vm_local s ! i) then L_Top else L_Pre_Run) s)
     | L_Pre_Run \<Rightarrow> Some (at i L_Run (pre_run c i s))
     | L_Run \<Rightarrow> Some (run_returned c r i s)
     | L_Exit x \<Rightarrow> Some (at i (if vm_timeout s then L_Error (timeout_message c @ '' last '' @ DescribeWhpExit x) else L_Dispatch x) s)
     | L_Dispatch x \<Rightarrow> map_option (\<lambda>(s, l). at i l s) (dispatch c r i x s)
     | L_Error message \<Rightarrow> Some (at i (L_Cas ''host-error'' Canceled (returned i)) (record_error c message s))
     | L_Join \<Rightarrow> if \<forall>k \<in> {1 ..< c_cpus c}. vm_locs s ! k = L_Return then Some (at i L_Exited s) else None
     | L_Exited \<Rightarrow> Some (at i L_Stop_Watchdog (set_state c kControlStateExited s))
     | L_Stop_Watchdog \<Rightarrow> Some (at i L_Join_Watchdog (s\<lparr>vm_wd_done := True\<rparr>))
     | L_Join_Watchdog \<Rightarrow> if vm_locs s ! c_cpus c = W_End then Some (deliver_result c i s) else None
     | W_Loop \<Rightarrow> Some (at i (if vm_wd_done s then W_End else W_Command) s)
     | W_Command \<Rightarrow> Some (watchdog_command c i r s)
     | W_Deadline \<Rightarrow> Some (watchdog_deadline c i r s)
     | W_Cancel \<Rightarrow> Some (at i W_End (cancel_all s))
     | L_Return \<Rightarrow> None | L_Result _ \<Rightarrow> None | W_End \<Rightarrow> None)"

text \<open>The timer thread works only while the guest has a disk, the machine is not done and the host lets it run. Typed bytes and network frames come from the other
  threads.\<close>

datatype 'p vm_event = Thread nat "'p reading" | Timer_Round "'p reading" | Typed bytes | Frame bytes

fun vm_step :: "('f, 'p) run_config \<Rightarrow> ('f, 'p) vm \<Rightarrow> 'p vm_event \<Rightarrow> ('f, 'p) vm option" where
  "vm_step c s (Thread i r) = (if i \<le> c_cpus c then thread_step c i r s else None)"
| "vm_step c s (Timer_Round r) =
    (if c_rootfs c \<and> \<not> vm_done s \<and> command_of c r = kControlRun
     then map_option (\<lambda>m. s\<lparr>vm_m := m\<rparr>) (timer_tick (c_host c) (rd_moment r) (vm_m s)) else Some s)"
| "vm_step c s (Typed bs) = Some (s\<lparr>vm_m := fst (input_round (c_host c) bs (vm_m s))\<rparr>)"
| "vm_step c s (Frame bs) = Some (s\<lparr>vm_m := net_frame (c_host c) bs (vm_m s)\<rparr>)"

fun vm_run :: "('f, 'p) run_config \<Rightarrow> ('f, 'p) vm \<Rightarrow> 'p vm_event list \<Rightarrow> ('f, 'p) vm option" where
  "vm_run c s [] = Some s"
| "vm_run c s (e # es) = Option.bind (vm_step c s e) (\<lambda>s. vm_run c s es)"

end
