(* ===== verification/First_Finish.thy ===== *)
theory First_Finish
  imports Prelude
begin

text \<open>
  The protocol by which the threads of a machine agree on how it ended (finish in native/whp/backend.cc and native/kvm/backend.cc), as an interface: a thread that
  wins the exchange of a flag has the outcome to store, and stores it in a later step. Whatever the threads do besides, the outcome is that of the first finish as soon as no thread
  has one to store. Both run loops implement it.
\<close>

section \<open>Lists of places\<close>

lemma list_all_update: "list_all P xs \<Longrightarrow> P x \<Longrightarrow> list_all P (xs[i := x])"
  by (induction xs arbitrary: i) (auto split: nat.split)

lemma list_ex_update: "list_ex P (xs[i := x]) \<Longrightarrow> P x \<or> list_ex P xs"
  by (induction xs arbitrary: i) (auto split: nat.splits)

lemma list_ex_keep: "list_ex P xs \<Longrightarrow> (i < length xs \<and> P (xs ! i) \<longrightarrow> P x) \<Longrightarrow> list_ex P (xs[i := x])"
  by (induction xs arbitrary: i) (auto split: nat.split)

lemma list_ex_nth: "i < length xs \<Longrightarrow> P (xs ! i) \<Longrightarrow> list_ex P xs"
  by (auto simp: list_ex_iff)

lemma list_all_nth: "list_all P xs \<Longrightarrow> i < length xs \<Longrightarrow> P (xs ! i)"
  by (simp add: list_all_length)

section \<open>The protocol\<close>

text \<open>\<open>store l\<close>: the outcome that a thread at l has to store; \<open>late l\<close>: a place that is reached only after a finish.\<close>

locale first_finish =
  fixes locs :: "'s \<Rightarrow> 'l list" and ended :: "'s \<Rightarrow> bool" and first :: "'s \<Rightarrow> 'o option" and outcome :: "'s \<Rightarrow> 'o"
    and store :: "'l \<Rightarrow> 'o option" and late :: "'l \<Rightarrow> bool" and step :: "'s \<Rightarrow> nat \<Rightarrow> 's \<Rightarrow> bool"
  assumes one_thread: "step s i s' \<Longrightarrow> i < length (locs s) \<and> (\<exists>l. locs s' = (locs s)[i := l])"
    and store_late: "store l \<noteq> None \<Longrightarrow> late l"
    and cases: "step s i s' \<Longrightarrow>
      (first s' = first s \<and> ended s' = ended s \<and> outcome s' = outcome s \<and> store (locs s ! i) = None \<and> store (locs s' ! i) = None \<and> (late (locs s' ! i) \<longrightarrow> ended s \<or> late (locs s ! i))) \<or>
      (\<not> ended s \<and> ended s' \<and> first s' = store (locs s' ! i) \<and> store (locs s' ! i) \<noteq> None) \<or>
      (store (locs s ! i) = Some (outcome s') \<and> first s' = first s \<and> ended s' = ended s \<and> store (locs s' ! i) = None)"
begin

definition agreed :: "'s \<Rightarrow> bool" where
  "agreed s \<longleftrightarrow> (first s = None \<longleftrightarrow> \<not> ended s) \<and> list_all (\<lambda>l. store l = None \<or> store l = first s) (locs s) \<and>
     (ended s \<longrightarrow> first s = Some (outcome s) \<or> list_ex (\<lambda>l. store l \<noteq> None) (locs s)) \<and> (list_ex late (locs s) \<longrightarrow> ended s)"

lemma agreed_step:
  assumes inv: "agreed s" and step: "step s i s'"
  shows "agreed s'"
proof -
  obtain l where l: "locs s' = (locs s)[i := l]" and n: "i < length (locs s)" using one_thread [OF step] by blast
  have nl: "locs s' ! i = l" using l n by simp
  have now: "late (locs s ! i) \<Longrightarrow> ended s" using inv list_ex_nth [OF n, of late] by (simp add: agreed_def)
  have stored: "store (locs s ! i) = None \<or> store (locs s ! i) = first s" using inv list_all_nth [OF _ n] by (fastforce simp: agreed_def)
  from cases [OF step] show ?thesis unfolding nl
  proof (elim disjE)
    assume a: "first s' = first s \<and> ended s' = ended s \<and> outcome s' = outcome s \<and> store (locs s ! i) = None \<and> store l = None \<and> (late l \<longrightarrow> ended s \<or> late (locs s ! i))"
    then show ?thesis
      using inv now list_ex_keep [of "\<lambda>l. store l \<noteq> None" "locs s" i l] list_ex_update [of late "locs s" i l]
      by (auto simp: agreed_def l list_all_update)
  next
    assume a: "\<not> ended s \<and> ended s' \<and> first s' = store l \<and> store l \<noteq> None"
    have "\<not> list_ex late (locs s)" using inv a by (auto simp: agreed_def)
    then have "list_all (\<lambda>k. store k = None \<or> store k = first s') (locs s)" using store_late by (fastforce simp: list_ex_iff list_all_iff)
    then show ?thesis using a list_ex_nth [of i "locs s'" "\<lambda>l. store l \<noteq> None"] n nl by (auto simp: agreed_def l list_all_update)
  next
    assume a: "store (locs s ! i) = Some (outcome s') \<and> first s' = first s \<and> ended s' = ended s \<and> store l = None"
    then have "first s' = Some (outcome s')" using stored by auto
    moreover have "ended s" using a now store_late by auto
    ultimately show ?thesis using inv a by (auto simp: agreed_def l list_all_update)
  qed
qed

text \<open>When no thread has an outcome to store, the outcome is the first one.\<close>

lemma outcome_first: "agreed s \<Longrightarrow> ended s \<Longrightarrow> \<forall>i < length (locs s). store (locs s ! i) = None \<Longrightarrow> first s = Some (outcome s)"
  by (auto simp: agreed_def list_ex_iff in_set_conv_nth)

lemma late_ended: "agreed s \<Longrightarrow> i < length (locs s) \<Longrightarrow> late (locs s ! i) \<Longrightarrow> ended s"
  using list_ex_nth [of i "locs s" late] by (simp add: agreed_def)

end

end
