(* ===== verification/Whp_Run_Proofs.thy ===== *)
theory Whp_Run_Proofs
  imports Whp_Run First_Finish
begin

text \<open>
  What holds of every run of the threads of Whp_Run: the end of the machine is reported as it happened first, a pause is reported when and only when
  every processor is in it, after the end every thread comes to its own end, and the devices stay within their bounds.
\<close>

section \<open>What a step leaves alone\<close>

abbreviation control where
  "control s \<equiv> (vm_done s, vm_timeout s, vm_wd_done s, vm_paused s, vm_reason s, vm_code s, vm_error s, vm_state s, vm_first s, vm_errors s)"

lemma put_irq_frame [simp]:
  "vm_done (put_irq i v s) = vm_done s" "vm_timeout (put_irq i v s) = vm_timeout s" "vm_wd_done (put_irq i v s) = vm_wd_done s" "vm_paused (put_irq i v s) = vm_paused s"
  "vm_reason (put_irq i v s) = vm_reason s" "vm_code (put_irq i v s) = vm_code s" "vm_error (put_irq i v s) = vm_error s" "vm_state (put_irq i v s) = vm_state s"
  "vm_first (put_irq i v s) = vm_first s" "vm_errors (put_irq i v s) = vm_errors s" "vm_locs (put_irq i v s) = vm_locs s" "vm_local (put_irq i v s) = vm_local s"
  "vm_halted (put_irq i v s) = vm_halted s"
  by (simp_all add: put_irq_def)

lemma cancel_frame [simp]:
  "vm_done (cancel_all s) = vm_done s" "vm_timeout (cancel_all s) = vm_timeout s" "vm_wd_done (cancel_all s) = vm_wd_done s" "vm_paused (cancel_all s) = vm_paused s"
  "vm_reason (cancel_all s) = vm_reason s" "vm_code (cancel_all s) = vm_code s" "vm_error (cancel_all s) = vm_error s" "vm_state (cancel_all s) = vm_state s"
  "vm_first (cancel_all s) = vm_first s" "vm_errors (cancel_all s) = vm_errors s" "vm_locs (cancel_all s) = vm_locs s" "vm_local (cancel_all s) = vm_local s"
  "vm_halted (cancel_all s) = vm_halted s"
  by (simp_all add: cancel_all_def)

lemma pre_run_frame [simp]:
  "vm_done (pre_run c i s) = vm_done s" "vm_timeout (pre_run c i s) = vm_timeout s" "vm_wd_done (pre_run c i s) = vm_wd_done s" "vm_paused (pre_run c i s) = vm_paused s"
  "vm_reason (pre_run c i s) = vm_reason s" "vm_code (pre_run c i s) = vm_code s" "vm_error (pre_run c i s) = vm_error s" "vm_state (pre_run c i s) = vm_state s"
  "vm_first (pre_run c i s) = vm_first s" "vm_errors (pre_run c i s) = vm_errors s" "vm_locs (pre_run c i s) = vm_locs s" "vm_local (pre_run c i s) = vm_local s"
  "vm_halted (pre_run c i s) = vm_halted s"
  by (simp_all add: pre_run_def Let_def case_prod_beta)

text \<open>Where an exit leads.\<close>

definition exit_to :: "nat \<Rightarrow> nat \<Rightarrow> bool \<Rightarrow> nat \<Rightarrow> vloc \<Rightarrow> bool" where
  "exit_to cpus i done halted l \<longleftrightarrow> l = L_Top \<or> (\<exists>e. l = L_Error e) \<or>
     (\<exists>reason code. l = L_Cas reason code (returned i) \<and> (reason, code) \<noteq> (''hlt'', X64Halt)) \<or> (l = returned i \<and> done) \<or>
     (l = L_Cas ''hlt'' X64Halt L_Top \<and> halted = cpus)"

definition exit_frame :: "('f, 'p) run_config \<Rightarrow> nat \<Rightarrow> ('f, 'p) vm \<Rightarrow> ('f, 'p) vm \<times> vloc \<Rightarrow> bool" where
  "exit_frame c i s y \<longleftrightarrow> (case y of (s', l) \<Rightarrow>
     vm_locs s' = vm_locs s \<and> control s' = control s \<and> exit_to (c_cpus c) i (vm_done s) (vm_halted s') l \<and>
     (vm_local s' = vm_local s \<and> vm_halted s' = vm_halted s \<or>
      vm_local s' = (vm_local s)[i := (vm_local s ! i)\<lparr>lo_halted := True\<rparr>] \<and> vm_halted s' = vm_halted s + 1))"

lemma exit_to_intros:
  "exit_to cpus i done halted L_Top" "exit_to cpus i done halted (L_Error e)"
  "reason \<noteq> ''hlt'' \<or> code \<noteq> X64Halt \<Longrightarrow> exit_to cpus i done halted (L_Cas reason code (returned i))"
  "done \<Longrightarrow> exit_to cpus i done halted (returned i)" "exit_to cpus i done cpus (L_Cas ''hlt'' X64Halt L_Top)"
  by (simp_all add: exit_to_def)

lemma frame_devices:
  "exit_to (c_cpus c) i (vm_done s) (vm_halted s) l \<Longrightarrow> exit_frame c i s (s\<lparr>vm_m := m, vm_p := p\<rparr>, l)"
  "exit_to (c_cpus c) i (vm_done s) (vm_halted s) l \<Longrightarrow> exit_frame c i s (s\<lparr>vm_m := m\<rparr>, l)"
  "exit_to (c_cpus c) i (vm_done s) (vm_halted s) l \<Longrightarrow> exit_frame c i s (s\<lparr>vm_p := p\<rparr>, l)"
  "exit_to (c_cpus c) i (vm_done s) (vm_halted s) l \<Longrightarrow> exit_frame c i s (s\<lparr>vm_p := p, vm_hv := hv\<rparr>, l)"
  "exit_to (c_cpus c) i (vm_done s) (vm_halted s) l \<Longrightarrow> exit_frame c i s (s, l)"
  "exit_to (c_cpus c) i (vm_done s) (vm_halted s) l \<Longrightarrow> exit_frame c i s ((put_irq i v s)\<lparr>vm_p := p\<rparr>, l)"
  "exit_to (c_cpus c) i (vm_done s) (vm_halted s) l \<Longrightarrow> exit_frame c i s ((put_irq i v s)\<lparr>vm_p := p, vm_m := m\<rparr>, l)"
  by (auto simp: exit_frame_def put_irq_def)

lemma frame_io_done: "exit_frame c i s (io_exit_done i (s\<lparr>vm_m := m, vm_p := p\<rparr>))"
  unfolding io_exit_done_def by (intro frame_devices) (auto intro: exit_to_intros)

lemma frame_io: "io_exit c r i x s = Some y \<Longrightarrow> exit_frame c i s y"
  unfolding io_exit_def Let_def bind_eq_Some_conv
  by (auto simp: bind_eq_Some_conv frame_io_done frame_devices exit_to_intros split: if_split_asm sum.split_asm)

lemma frame_mmio: "mmio_exit c r i x s = Some y \<Longrightarrow> exit_frame c i s y"
  unfolding mmio_exit_def Let_def
  by (auto simp: bind_eq_Some_conv frame_devices exit_to_intros split: sum.split)

lemma frame_park: "exit_frame c i s (park c i s)"
  by (simp add: park_def Let_def exit_frame_def exit_to_def)

lemma dispatch_frame: "dispatch c r i x s = Some y \<Longrightarrow> exit_frame c i s y"
  unfolding dispatch_def Let_def
  by (cases "ex_reason x")
    (auto simp: frame_io frame_mmio frame_park frame_devices exit_to_intros split: sum.split prod.split)


lemmas dispatch_frameD = dispatch_frame [unfolded exit_frame_def, where y = "(s', l)" for s' l, simplified]

section \<open>Where each thread can be\<close>

fun proc_loc :: "nat \<Rightarrow> vloc \<Rightarrow> bool" where
  "proc_loc i (L_Stopping l) \<longleftrightarrow> l = returned i"
| "proc_loc i (L_Cas reason code l) \<longleftrightarrow> l = L_Top \<or> l = returned i \<or> (i = 0 \<and> l = L_Join)"
| "proc_loc i (L_Store reason code l) \<longleftrightarrow> l = L_Top \<or> l = returned i \<or> (i = 0 \<and> l = L_Join)"
| "proc_loc i L_Return \<longleftrightarrow> i \<noteq> 0"
| "proc_loc i L_Join \<longleftrightarrow> i = 0"
| "proc_loc i L_Exited \<longleftrightarrow> i = 0"
| "proc_loc i L_Stop_Watchdog \<longleftrightarrow> i = 0"
| "proc_loc i L_Join_Watchdog \<longleftrightarrow> i = 0"
| "proc_loc i (L_Result _) \<longleftrightarrow> i = 0"
| "proc_loc i l \<longleftrightarrow> l \<notin> {W_Loop, W_Command, W_Deadline, W_Cancel, W_End}"

fun wd_loc :: "vloc \<Rightarrow> bool" where
  "wd_loc (L_Stopping l) \<longleftrightarrow> l = W_End"
| "wd_loc (L_Cas reason code l) \<longleftrightarrow> l = W_End"
| "wd_loc (L_Store reason code l) \<longleftrightarrow> l = W_End"
| "wd_loc l \<longleftrightarrow> l \<in> {W_Loop, W_Command, W_Deadline, W_Cancel, W_End}"

definition shape_inv :: "('f, 'p) run_config \<Rightarrow> ('f, 'p) vm \<Rightarrow> bool" where
  "shape_inv c s \<longleftrightarrow> 0 < c_cpus c \<and> length (vm_locs s) = Suc (c_cpus c) \<and> length (vm_local s) = c_cpus c \<and>
     (\<forall>i < c_cpus c. proc_loc i (vm_locs s ! i)) \<and> wd_loc (vm_locs s ! c_cpus c)"

text \<open>A step moves its own thread only.\<close>

lemma record_error_frame [simp]:
  "vm_locs (record_error c e s) = vm_locs s" "vm_local (record_error c e s) = vm_local s" "vm_halted (record_error c e s) = vm_halted s"
  "vm_done (record_error c e s) = vm_done s" "vm_timeout (record_error c e s) = vm_timeout s" "vm_wd_done (record_error c e s) = vm_wd_done s"
  "vm_paused (record_error c e s) = vm_paused s" "vm_reason (record_error c e s) = vm_reason s" "vm_code (record_error c e s) = vm_code s"
  "vm_state (record_error c e s) = vm_state s" "vm_first (record_error c e s) = vm_first s"
  by (simp_all add: record_error_def Let_def)

lemma set_state_frame [simp]:
  "vm_locs (set_state c st s) = vm_locs s" "vm_local (set_state c st s) = vm_local s" "vm_halted (set_state c st s) = vm_halted s"
  "vm_done (set_state c st s) = vm_done s" "vm_timeout (set_state c st s) = vm_timeout s" "vm_wd_done (set_state c st s) = vm_wd_done s"
  "vm_paused (set_state c st s) = vm_paused s" "vm_reason (set_state c st s) = vm_reason s" "vm_code (set_state c st s) = vm_code s"
  "vm_error (set_state c st s) = vm_error s" "vm_first (set_state c st s) = vm_first s" "vm_errors (set_state c st s) = vm_errors s"
  "vm_runs (set_state c st s) = vm_runs s" "vm_m (set_state c st s) = vm_m s"
  "vm_state (set_state c st s) = (if c_control c then st else vm_state s)"
  by (simp_all add: set_state_def)

lemma step_locs: "thread_step c i r s = Some s' \<Longrightarrow> \<exists>l. vm_locs s' = (vm_locs s)[i := l]"
  unfolding thread_step_def
  by (cases "vm_locs s ! i")
    (auto simp: run_returned_def deliver_result_def Let_def dest!: dispatch_frameD
      split: if_split_asm sum.splits intro: list_update_id [symmetric])

lemma exit_proc_loc: "exit_to cpus i done halted l \<Longrightarrow> proc_loc i l"
  by (auto simp: exit_to_def returned_def)

lemma returned_proc_loc [simp]: "proc_loc i (returned i)"
  by (simp add: returned_def)

lemma shape_step:
  assumes inv: "shape_inv c s" and step: "thread_step c i r s = Some s'" and i: "i \<le> c_cpus c"
  shows "shape_inv c s'"
proof -
  obtain l where l: "vm_locs s' = (vm_locs s)[i := l]" using step_locs [OF step] by blast
  have n: "length (vm_locs s) = Suc (c_cpus c)" "i < length (vm_locs s)" using inv i by (simp_all add: shape_inv_def)
  have p: "proc_loc i (vm_locs s ! i)" if "i < c_cpus c" using inv that by (simp add: shape_inv_def)
  have w: "wd_loc (vm_locs s ! i)" if "\<not> i < c_cpus c" using inv that i by (simp add: shape_inv_def)
  have l': "l = vm_locs s' ! i" using l n by simp
  have "proc_loc i l" if "i < c_cpus c"
    using p [OF that] step n unfolding l' thread_step_def
    by (cases "vm_locs s ! i")
      (auto simp: run_returned_def deliver_result_def Let_def dest!: dispatch_frameD exit_proc_loc split: if_split_asm sum.splits)
  moreover have "wd_loc l" if "\<not> i < c_cpus c"
    using w [OF that] step n unfolding l' thread_step_def
    by (cases "vm_locs s ! i") (auto split: if_split_asm)
  moreover have "length (vm_local s') = length (vm_local s)"
    using step unfolding thread_step_def
    by (cases "vm_locs s ! i")
      (auto simp: run_returned_def deliver_result_def Let_def dest!: dispatch_frameD split: if_split_asm sum.splits)
  ultimately show ?thesis using inv i l by (auto simp: shape_inv_def nth_list_update)
qed


section \<open>The first finish\<close>

text \<open>The outcome that a thread inside finish has to store, and the places that are reached only after a finish.\<close>

fun claim :: "vloc \<Rightarrow> (string \<times> exit_reason) option" where
  "claim (L_Store reason code _) = Some (reason, code)" | "claim _ = None"

fun is_cas :: "vloc \<Rightarrow> bool" where
  "is_cas (L_Cas _ _ _) = True" | "is_cas _ = False"

fun late :: "vloc \<Rightarrow> bool" where
  "late L_Return = True" | "late L_Join = True" | "late L_Exited = True" | "late L_Stop_Watchdog = True" | "late L_Join_Watchdog = True"
| "late (L_Result _) = True" | "late _ = False"

fun late_next :: "vloc \<Rightarrow> bool" where
  "late_next (L_Store _ _ _) = True" | "late_next l = late l"

lemma claim_iff: "claim l \<noteq> None \<longleftrightarrow> (\<exists>reason code k. l = L_Store reason code k)"
  by (cases l) auto

lemma claim_late: "claim l \<noteq> None \<Longrightarrow> late_next l"
  by (cases l) auto

lemma is_cas_iff: "is_cas l \<longleftrightarrow> (\<exists>reason code k. l = L_Cas reason code k)"
  by (cases l) auto

lemma exit_late: "exit_to cpus i done halted l \<Longrightarrow> (late_next l \<longrightarrow> done) \<and> claim l = None"
  by (auto simp: exit_to_def returned_def split: if_splits)

lemma outcome_kept:
  assumes "thread_step c i r s = Some s'" and "\<not> is_cas (vm_locs s ! i)" and "claim (vm_locs s ! i) = None"
  shows "vm_first s' = vm_first s \<and> vm_done s' = vm_done s \<and> vm_reason s' = vm_reason s \<and> vm_code s' = vm_code s"
  using assms unfolding thread_step_def
  by (cases "vm_locs s ! i")
    (auto simp: run_returned_def deliver_result_def Let_def dest!: dispatch_frameD split: if_split_asm sum.splits)

lemma late_target:
  assumes "thread_step c i r s = Some s'" and "\<not> is_cas (vm_locs s ! i)" and "claim (vm_locs s ! i) = None"
    and "i < length (vm_locs s)"
  shows "(late_next (vm_locs s' ! i) \<longrightarrow> vm_done s \<or> late_next (vm_locs s ! i)) \<and> claim (vm_locs s' ! i) = None"
  using assms unfolding thread_step_def
  by (cases "vm_locs s ! i")
    (auto simp: run_returned_def deliver_result_def Let_def returned_def dest!: dispatch_frameD exit_late split: if_split_asm sum.splits)

text \<open>Where finish leads.\<close>

lemma next_place:
  assumes "shape_inv c s" and "i \<le> c_cpus c" and "vm_locs s ! i = L_Cas reason code l \<or> vm_locs s ! i = L_Store reason code l"
  shows "claim l = None"
  using assms by (cases "i < c_cpus c") (auto simp: shape_inv_def returned_def dest!: spec [of _ i] split: if_splits)

interpretation vm_finish: first_finish vm_locs vm_done vm_first "\<lambda>s. (vm_reason s, vm_code s)" claim late_next
  "\<lambda>s i s'. i \<le> c_cpus c \<and> shape_inv c s \<and> (\<exists>r. thread_step c i r s = Some s')" for c
proof unfold_locales
  fix s i s'
  assume a: "i \<le> c_cpus c \<and> shape_inv c s \<and> (\<exists>r. thread_step c i r s = Some s')"
  then obtain r where step: "thread_step c i r s = Some s'" by blast
  have n: "i < length (vm_locs s)" using a by (simp add: shape_inv_def)
  then show "i < length (vm_locs s) \<and> (\<exists>l. vm_locs s' = (vm_locs s)[i := l])" using step_locs [OF step] by simp
  show "(vm_first s' = vm_first s \<and> vm_done s' = vm_done s \<and> (vm_reason s', vm_code s') = (vm_reason s, vm_code s) \<and> claim (vm_locs s ! i) = None \<and>
        claim (vm_locs s' ! i) = None \<and> (late_next (vm_locs s' ! i) \<longrightarrow> vm_done s \<or> late_next (vm_locs s ! i))) \<or>
      (\<not> vm_done s \<and> vm_done s' \<and> vm_first s' = claim (vm_locs s' ! i) \<and> claim (vm_locs s' ! i) \<noteq> None) \<or>
      (claim (vm_locs s ! i) = Some (vm_reason s', vm_code s') \<and> vm_first s' = vm_first s \<and> vm_done s' = vm_done s \<and> claim (vm_locs s' ! i) = None)"
  proof (cases "is_cas (vm_locs s ! i) \<or> claim (vm_locs s ! i) \<noteq> None")
    case True
    then obtain reason code l where l: "vm_locs s ! i = L_Cas reason code l \<or> vm_locs s ! i = L_Store reason code l"
      unfolding is_cas_iff claim_iff by blast
    then have "claim l = None" using next_place a by blast
    with l show ?thesis using step n by (elim disjE; cases "vm_done s") (auto simp: thread_step_def)
  next
    case False
    then have "\<not> is_cas (vm_locs s ! i)" "claim (vm_locs s ! i) = None" by blast+
    with outcome_kept [OF step this] late_target [OF step this n] show ?thesis by simp
  qed
qed (rule claim_late)

abbreviation finish_inv :: "('f, 'p) vm \<Rightarrow> bool" where
  "finish_inv \<equiv> vm_finish.agreed"

lemmas finish_inv_def = vm_finish.agreed_def

lemma finish_step: "finish_inv s \<Longrightarrow> shape_inv c s \<Longrightarrow> i \<le> c_cpus c \<Longrightarrow> thread_step c i r s = Some s' \<Longrightarrow> finish_inv s'"
  using vm_finish.agreed_step  by blast


section \<open>Errors\<close>

definition error_inv :: "('f, 'p) vm \<Rightarrow> bool" where
  "error_inv s \<longleftrightarrow> [] \<notin> set (vm_errors s) \<and> vm_error s = (case vm_errors s of [] \<Rightarrow> [] | e # _ \<Rightarrow> e)"

lemma error_kept:
  assumes "thread_step c i r s = Some s'" and "\<And>e. vm_locs s ! i \<noteq> L_Error e"
  shows "vm_error s' = vm_error s \<and> vm_errors s' = vm_errors s"
  using assms unfolding thread_step_def
  by (cases "vm_locs s ! i")
    (auto simp: run_returned_def deliver_result_def Let_def dest!: dispatch_frameD split: if_split_asm sum.splits)

lemma error_step: "error_inv s \<Longrightarrow> thread_step c i r s = Some s' \<Longrightarrow> error_inv s'"
proof (cases "\<exists>e. vm_locs s ! i = L_Error e")
  case True
  assume inv: "error_inv s" and step: "thread_step c i r s = Some s'"
  from True obtain e where e: "vm_locs s ! i = L_Error e" by blast
  have "timeout_message c \<noteq> []" by (simp add: timeout_message_def)
  then show ?thesis using inv step e
    by (auto simp: thread_step_def record_error_def Let_def error_inv_def split: list.splits if_split_asm if_splits)
next
  case False
  then show "error_inv s \<Longrightarrow> thread_step c i r s = Some s' \<Longrightarrow> error_inv s'"
    using error_kept [of c i r s s'] by (simp add: error_inv_def)
qed

section \<open>The joins\<close>

fun joined :: "vloc \<Rightarrow> bool" where
  "joined L_Exited = True" | "joined L_Stop_Watchdog = True" | "joined L_Join_Watchdog = True" | "joined (L_Result _) = True" | "joined _ = False"

fun told :: "vloc \<Rightarrow> bool" where
  "told L_Join_Watchdog = True" | "told (L_Result _) = True" | "told _ = False"

definition join_inv :: "('f, 'p) run_config \<Rightarrow> ('f, 'p) vm \<Rightarrow> bool" where
  "join_inv c s \<longleftrightarrow> (joined (vm_locs s ! 0) \<longrightarrow> (\<forall>k. 0 < k \<and> k < c_cpus c \<longrightarrow> vm_locs s ! k = L_Return)) \<and>
     (vm_wd_done s \<longleftrightarrow> told (vm_locs s ! 0)) \<and>
     (\<forall>res. vm_locs s ! 0 = L_Result res \<longrightarrow> vm_locs s ! c_cpus c = W_End \<and> (\<exists>con.
        res = (if vm_error s \<noteq> [] then Inl (vm_error s) else if vm_timeout s then Inl (timeout_message c)
               else Inr \<lparr>rr_reason = vm_reason s, rr_code = vm_code s,
                      rr_runs = (if 0xFFFFFFFF < vm_runs s then 0xFFFFFFFF else ucast (vm_runs s)), rr_console = con\<rparr>)))"

lemma ended_thread: "vm_locs s ! i = L_Return \<or> vm_locs s ! i = W_End \<or> (\<exists>res. vm_locs s ! i = L_Result res) \<Longrightarrow> thread_step c i r s = None"
  by (elim disjE exE) (simp_all add: thread_step_def)

lemma told_kept:
  assumes "thread_step c i r s = Some s'" and "vm_locs s ! i \<noteq> L_Stop_Watchdog"
  shows "vm_wd_done s' = vm_wd_done s"
  using assms unfolding thread_step_def
  by (cases "vm_locs s ! i")
    (simp_all add: run_returned_def deliver_result_def Let_def case_prod_beta split: if_split_asm sum.splits, auto dest!: dispatch_frameD)

text \<open>The main thread comes to its last places in their order.\<close>

lemma exit_joined: "exit_to cpus i done halted l \<Longrightarrow> \<not> joined l \<and> \<not> told l"
  by (auto simp: exit_to_def returned_def split: if_splits)

lemma joined_target:
  assumes "thread_step c i r s = Some s'" and "i < length (vm_locs s)" and "i < c_cpus c \<Longrightarrow> proc_loc i (vm_locs s ! i)"
    and "\<not> i < c_cpus c \<Longrightarrow> wd_loc (vm_locs s ! i)"
  shows "(joined (vm_locs s' ! i) \<longrightarrow> joined (vm_locs s ! i) \<or> (\<forall>k \<in> {1 ..< c_cpus c}. vm_locs s ! k = L_Return)) \<and>
    (told (vm_locs s' ! i) \<longleftrightarrow> told (vm_locs s ! i) \<or> vm_locs s ! i = L_Stop_Watchdog)"
proof (cases "i < c_cpus c")
  case True
  show ?thesis
    using assms(1,2) assms(3) [OF True] unfolding thread_step_def
    by (cases "vm_locs s ! i")
      (auto simp: run_returned_def deliver_result_def Let_def returned_def dest!: dispatch_frameD exit_joined split: if_split_asm sum.splits)
next
  case False
  show ?thesis using assms(1,2) assms(4) [OF False] unfolding thread_step_def by (cases "vm_locs s ! i") (auto split: if_split_asm)
qed

lemma main_only:
  "shape_inv c s \<Longrightarrow> i \<le> c_cpus c \<Longrightarrow> i \<noteq> 0 \<Longrightarrow> vm_locs s ! i \<notin> {L_Join, L_Exited, L_Stop_Watchdog, L_Join_Watchdog} \<and> (\<forall>res. vm_locs s ! i \<noteq> L_Result res)"
  unfolding shape_inv_def by (cases "i < c_cpus c") (auto dest!: spec [of _ i])

lemma deliver_frame [simp]:
  "vm_error (deliver_result c i s) = vm_error s" "vm_timeout (deliver_result c i s) = vm_timeout s" "vm_reason (deliver_result c i s) = vm_reason s" "vm_code (deliver_result c i s) = vm_code s" "vm_runs (deliver_result c i s) = vm_runs s"
  "vm_paused (deliver_result c i s) = vm_paused s" "vm_done (deliver_result c i s) = vm_done s" "vm_first (deliver_result c i s) = vm_first s" "vm_errors (deliver_result c i s) = vm_errors s" "vm_wd_done (deliver_result c i s) = vm_wd_done s" "vm_local (deliver_result c i s) = vm_local s" "vm_halted (deliver_result c i s) = vm_halted s"
  "vm_locs (deliver_result c i s) = (vm_locs s)[i := L_Result (make_result c s)]"
  by (simp_all add: deliver_result_def Let_def split: sum.split)

lemma join_step:
  assumes inv: "join_inv c s" and shape: "shape_inv c s" and i: "i \<le> c_cpus c" and step: "thread_step c i r s = Some s'"
  shows "join_inv c s'"
proof -
  obtain l where l: "vm_locs s' = (vm_locs s)[i := l]" using step_locs [OF step] by blast
  have n: "i < length (vm_locs s)" using shape i by (simp add: shape_inv_def)
  have target: "(joined l \<longrightarrow> joined (vm_locs s ! i) \<or> (\<forall>k \<in> {1 ..< c_cpus c}. vm_locs s ! k = L_Return)) \<and>
      (told l \<longleftrightarrow> told (vm_locs s ! i) \<or> vm_locs s ! i = L_Stop_Watchdog)"
    using joined_target [OF step n] shape i n by (simp add: shape_inv_def l)
  show ?thesis
  proof (cases "i = 0")
    case False
    have blocked: "\<not> (\<exists>res. vm_locs s ! 0 = L_Result res)" if "0 < i" "i \<le> c_cpus c"
      using that inv step ended_thread [of s i c r] by (cases "i < c_cpus c") (auto simp: join_inv_def)
    have alive: "\<not> (joined (vm_locs s ! 0) \<and> i < c_cpus c)"
      using False inv step ended_thread [of s i c r] by (auto simp: join_inv_def)
    show ?thesis using inv False blocked alive told_kept [OF step] main_only [OF shape i False] i
      by (auto simp: join_inv_def l nth_list_update)
  next
    case True
    have zero: "0 < length (vm_locs s)" "0 < c_cpus c" "vm_locs s' ! 0 = l" using n shape by (simp_all add: shape_inv_def True l)
    have wd: "vm_wd_done s' \<longleftrightarrow> vm_wd_done s \<or> vm_locs s ! 0 = L_Stop_Watchdog"
      using told_kept [OF step] step True by (cases "vm_locs s ! 0 = L_Stop_Watchdog") (auto simp: thread_step_def)
    have last: "s' = deliver_result c 0 s \<and> vm_locs s ! c_cpus c = W_End" if "l = L_Result res" for res
    proof -
      have "vm_locs s ! 0 = L_Join_Watchdog"
        using target that True step zero ended_thread [of s 0 c r] by (cases "vm_locs s ! 0") (auto simp: thread_step_def)
      then show ?thesis using step True by (simp add: thread_step_def split: if_split_asm)
    qed
    have "vm_locs s' ! k = L_Return" if "joined l" "0 < k" "k < c_cpus c" for k
      using that inv target True by (auto simp: join_inv_def l)
    moreover have "vm_wd_done s' \<longleftrightarrow> told l" using wd inv target True by (auto simp: join_inv_def)
    moreover have "\<exists>con. res = (if vm_error s' \<noteq> [] then Inl (vm_error s') else if vm_timeout s' then Inl (timeout_message c)
        else Inr \<lparr>rr_reason = vm_reason s', rr_code = vm_code s',
               rr_runs = (if 0xFFFFFFFF < vm_runs s' then 0xFFFFFFFF else ucast (vm_runs s')), rr_console = con\<rparr>)" if "l = L_Result res" for res
      using last [OF that] zero that by (intro exI [of _ "u_console (m_uart (vm_m s))"]) (auto simp: make_result_def)
    moreover have "vm_locs s' ! c_cpus c = W_End" if "l = L_Result res" for res using last [OF that] zero by (simp add: l True)
    ultimately show ?thesis unfolding join_inv_def zero by blast
  qed
qed


section \<open>The pause\<close>

definition in_pause :: "vloc \<Rightarrow> bool" where
  "in_pause l \<longleftrightarrow> l = L_Pause_Report \<or> l = L_Pause_Wait \<or> l = L_Pause_Out"

definition needs_control :: "vloc \<Rightarrow> bool" where
  "needs_control l \<longleftrightarrow> l = L_Pause_In \<or> l = L_Pause_Report"

definition pause_inv :: "('f, 'p) run_config \<Rightarrow> ('f, 'p) vm \<Rightarrow> bool" where
  "pause_inv c s \<longleftrightarrow> vm_paused s = length (filter in_pause (vm_locs s)) \<and> (list_ex needs_control (vm_locs s) \<longrightarrow> c_control c) \<and>
     (vm_paused s = c_cpus c \<longrightarrow> L_Pause_Report \<in> set (vm_locs s) \<or> vm_state s = kControlStatePaused \<or> vm_state s = kControlStateStopping)"

lemma wd_not_pausing: "wd_loc l \<Longrightarrow> \<not> in_pause l \<and> \<not> needs_control l \<and> l \<noteq> L_Pause_Out"
  by (cases l) (auto simp: in_pause_def needs_control_def)

lemma all_in_pause:
  assumes "shape_inv c s" and "length (filter in_pause (vm_locs s)) = c_cpus c" and "i < c_cpus c"
  shows "in_pause (vm_locs s ! i)"
proof -
  let ?ps = "take (c_cpus c) (vm_locs s)"
  have n: "length (vm_locs s) = Suc (c_cpus c)" and w: "\<not> in_pause (vm_locs s ! c_cpus c)"
    using assms(1) wd_not_pausing by (auto simp: shape_inv_def)
  have "vm_locs s = ?ps @ [vm_locs s ! c_cpus c]" using n by (simp add: take_Suc_conv_app_nth [symmetric])
  then have "filter in_pause (vm_locs s) = filter in_pause ?ps @ filter in_pause [vm_locs s ! c_cpus c]" by (metis filter_append)
  then have "length (filter in_pause ?ps) = length ?ps" using assms(2) n w by simp
  then have "\<forall>l \<in> set ?ps. in_pause l" by (metis length_filter_less less_irrefl)
  then show ?thesis using assms(3) n by (metis in_set_conv_nth length_take lessI min.absorb4 nth_take)
qed

lemma exit_not_pausing: "exit_to cpus i done halted l \<Longrightarrow> \<not> in_pause l \<and> \<not> needs_control l"
  by (auto simp: exit_to_def returned_def in_pause_def needs_control_def split: if_splits)

lemma returned_not_pausing [simp]: "\<not> in_pause (returned i)" "\<not> needs_control (returned i)"
  by (simp_all add: returned_def in_pause_def needs_control_def)

lemma next_not_pausing:
  "proc_loc i (L_Cas reason code l) \<or> proc_loc i (L_Store reason code l) \<or> wd_loc (L_Cas reason code l) \<or> wd_loc (L_Store reason code l) \<Longrightarrow>
   \<not> in_pause l \<and> \<not> needs_control l"
  by (auto simp: in_pause_def needs_control_def returned_def split: if_splits)

text \<open>The three kinds of step after which the place of the thread is not that of the code alone.\<close>

fun open_next :: "vloc \<Rightarrow> bool" where
  "open_next (L_Dispatch _) = True" | "open_next (L_Cas _ _ _) = True" | "open_next (L_Store _ _ _) = True" | "open_next _ = False"

lemma open_step:
  assumes "thread_step c i r s = Some s'" and "open_next (vm_locs s ! i)" and "i < length (vm_locs s)"
    and "proc_loc i (vm_locs s ! i) \<or> wd_loc (vm_locs s ! i)"
  shows "\<not> in_pause (vm_locs s' ! i) \<and> \<not> needs_control (vm_locs s' ! i) \<and> vm_paused s' = vm_paused s \<and> vm_state s' = vm_state s"
proof (cases "vm_locs s ! i")
  case (L_Dispatch x)
  then obtain t l where "dispatch c r i x s = Some (t, l)" "s' = at i l t" using assms(1) by (auto simp: thread_step_def)
  with assms(3) show ?thesis using exit_not_pausing by (auto dest!: dispatch_frameD)
next
  case (L_Cas reason code l)
  then have "s' = (if vm_done s then at i l s else at i (L_Store reason code l) (s\<lparr>vm_done := True, vm_first := Some (reason, code)\<rparr>))"
    using assms(1) by (simp add: thread_step_def)
  with assms(3,4) L_Cas show ?thesis using next_not_pausing [of i reason code l] by (auto simp: in_pause_def needs_control_def)
next
  case (L_Store reason code l)
  then have "s' = at i l (cancel_all (s\<lparr>vm_reason := reason, vm_code := code\<rparr>))" using assms(1) by (simp add: thread_step_def)
  with assms(3,4) L_Store show ?thesis using next_not_pausing [of i reason code l] by auto
qed (use assms(2) in simp_all)

lemma mem_keep: "x \<in> set xs \<Longrightarrow> xs ! i \<noteq> x \<Longrightarrow> x \<in> set (xs[i := l])"
  by (metis in_set_conv_nth length_list_update nth_list_update_neq)

text \<open>How a step changes the count.\<close>

lemma pause_count:
  assumes "thread_step c i r s = Some s'" and "i < length (vm_locs s)" and "vm_locs s ! i = L_Pause_Out \<Longrightarrow> 0 < vm_paused s"
    and "proc_loc i (vm_locs s ! i) \<or> wd_loc (vm_locs s ! i)"
  shows "vm_paused s' + of_bool (in_pause (vm_locs s ! i)) = vm_paused s + of_bool (in_pause (vm_locs s' ! i))"
proof (cases "open_next (vm_locs s ! i)")
  case True
  then have "\<not> in_pause (vm_locs s ! i)" by (cases "vm_locs s ! i") (simp_all add: in_pause_def)
  with open_step [OF assms(1) True assms(2,4)] show ?thesis by simp
next
  case False
  then show ?thesis
    using assms(1-3) unfolding thread_step_def
    by (cases "vm_locs s ! i")
      (auto simp: run_returned_def in_pause_def returned_def split: if_split_asm sum.splits)
qed

lemma pause_control:
  assumes "thread_step c i r s = Some s'" and "i < length (vm_locs s)" and "needs_control (vm_locs s' ! i)"
    and "proc_loc i (vm_locs s ! i) \<or> wd_loc (vm_locs s ! i)"
  shows "c_control c \<or> needs_control (vm_locs s ! i)"
proof (cases "open_next (vm_locs s ! i)")
  case True
  with open_step [OF assms(1) True assms(2,4)] assms(3) show ?thesis by simp
next
  case False
  then show ?thesis
    using assms(1-3) unfolding thread_step_def
    by (cases "vm_locs s ! i")
      (auto simp: run_returned_def needs_control_def returned_def command_of_def source_consts split: if_split_asm sum.splits)
qed

text \<open>The step by which all processors are in the pause, or stay in it.\<close>

lemma pause_settles:
  assumes "thread_step c i r s = Some s'" and "i < length (vm_locs s)" and "in_pause (vm_locs s' ! i)"
    and "proc_loc i (vm_locs s ! i) \<or> wd_loc (vm_locs s ! i)" and "c_control c \<or> \<not> needs_control (vm_locs s ! i)" and "vm_paused s' = c_cpus c"
  shows "vm_locs s' ! i = L_Pause_Report \<or> vm_state s' = kControlStatePaused \<or>
    (vm_locs s ! i \<noteq> L_Pause_Report \<and> in_pause (vm_locs s ! i) \<and> vm_state s' = vm_state s)"
proof (cases "open_next (vm_locs s ! i)")
  case True
  with open_step [OF assms(1) True assms(2,4)] assms(3) show ?thesis by simp
next
  case False
  then show ?thesis
    using assms unfolding thread_step_def
    by (cases "vm_locs s ! i")
      (auto simp: run_returned_def deliver_result_def Let_def in_pause_def needs_control_def returned_def split: if_split_asm sum.splits)
qed

lemma wd_state: "thread_step c i r s = Some s' \<Longrightarrow> wd_loc (vm_locs s ! i) \<Longrightarrow> vm_state s' = vm_state s \<or> vm_state s' = kControlStateStopping"
  unfolding thread_step_def by (cases "vm_locs s ! i") (auto split: if_split_asm)

lemma pause_step:
  assumes inv: "pause_inv c s" and shape: "shape_inv c s" and i: "i \<le> c_cpus c" and step: "thread_step c i r s = Some s'"
  shows "pause_inv c s'"
proof -
  obtain l where l: "vm_locs s' = (vm_locs s)[i := l]" using step_locs [OF step] by blast
  have n: "i < length (vm_locs s)" using shape i by (simp add: shape_inv_def)
  have l': "vm_locs s' ! i = l" using l n by simp
  have kind: "if i < c_cpus c then proc_loc i (vm_locs s ! i) else wd_loc (vm_locs s ! i)" using shape i by (simp add: shape_inv_def)
  then have kinds: "proc_loc i (vm_locs s ! i) \<or> wd_loc (vm_locs s ! i)" by (simp split: if_splits)
  have "0 < length (filter in_pause (vm_locs s))" if "in_pause (vm_locs s ! i)"
    using that n by (auto simp: filter_empty_conv intro: nth_mem)
  then have out: "vm_locs s ! i = L_Pause_Out \<Longrightarrow> 0 < vm_paused s" using inv by (simp add: pause_inv_def in_pause_def)
  have count: "vm_paused s' = length (filter in_pause (vm_locs s'))"
    using pause_count [OF step n out kinds] length_filter_update [OF n, of in_pause l] inv n by (simp add: pause_inv_def l)
  have control: "list_ex needs_control (vm_locs s') \<longrightarrow> c_control c"
    using pause_control [OF step n _ kinds] list_ex_update [of needs_control "vm_locs s" i l] list_ex_nth [OF n, of needs_control] inv n
    by (auto simp: pause_inv_def l)
  have "L_Pause_Report \<in> set (vm_locs s') \<or> vm_state s' = kControlStatePaused \<or> vm_state s' = kControlStateStopping"
    if all: "vm_paused s' = c_cpus c"
  proof (cases "i < c_cpus c")
    case True
    have p: "in_pause (vm_locs s' ! i)"
      using all_in_pause [OF shape_step [OF shape step i] _ True] count all by simp
    have "c_control c \<or> \<not> needs_control (vm_locs s ! i)" using inv list_ex_nth [OF n, of needs_control] by (auto simp: pause_inv_def)
    from pause_settles [OF step n p kinds this all]
    consider "l = L_Pause_Report" | "vm_state s' = kControlStatePaused"
      | "vm_locs s ! i \<noteq> L_Pause_Report" "in_pause (vm_locs s ! i)" "vm_state s' = vm_state s" unfolding l' by blast
    then show ?thesis
    proof cases
      case 1
      then show ?thesis using n set_update_memI [OF n] by (simp add: l)
    next
      case 3
      have "vm_paused s = c_cpus c" using pause_count [OF step n out kinds] p 3 all by simp
      then have "L_Pause_Report \<in> set (vm_locs s) \<or> vm_state s = kControlStatePaused \<or> vm_state s = kControlStateStopping"
        using inv by (simp add: pause_inv_def)
      moreover have "L_Pause_Report \<in> set (vm_locs s')" if "L_Pause_Report \<in> set (vm_locs s)"
        using that 3(1) by (simp add: l mem_keep)
      ultimately show ?thesis using 3 by auto
    qed simp
  next
    case False
    then have w: "wd_loc (vm_locs s ! i)" using kind by simp
    have "i = c_cpus c" using False i by simp
    then have "wd_loc l" using shape_step [OF shape step i] l' by (simp add: shape_inv_def)
    then have nl: "\<not> in_pause (vm_locs s ! i)" "vm_locs s ! i \<noteq> L_Pause_Report" "\<not> in_pause l"
      using wd_not_pausing [OF w] wd_not_pausing [of l] by (auto simp: in_pause_def)
    then have "vm_paused s = c_cpus c" using pause_count [OF step n out kinds] all by (simp add: l')
    moreover have "L_Pause_Report \<in> set (vm_locs s')" if "L_Pause_Report \<in> set (vm_locs s)"
      using that nl by (simp add: l mem_keep)
    ultimately show ?thesis using wd_state [OF step w] inv by (auto simp: pause_inv_def)
  qed
  with count control show ?thesis by (simp add: pause_inv_def)
qed


section \<open>Halted processors\<close>

fun running :: "vloc \<Rightarrow> bool" where
  "running L_Pre_Run = True" | "running L_Run = True" | "running (L_Exit _) = True" | "running (L_Dispatch _) = True" | "running _ = False"

fun hlt_loc :: "vloc \<Rightarrow> bool" where
  "hlt_loc (L_Cas reason code _) \<longleftrightarrow> reason = ''hlt'' \<and> code = X64Halt"
| "hlt_loc (L_Store reason code _) \<longleftrightarrow> reason = ''hlt'' \<and> code = X64Halt"
| "hlt_loc _ \<longleftrightarrow> False"

definition halt_inv :: "('f, 'p) run_config \<Rightarrow> ('f, 'p) vm \<Rightarrow> bool" where
  "halt_inv c s \<longleftrightarrow> vm_halted s = length (filter lo_halted (vm_local s)) \<and>
     (\<forall>i < c_cpus c. running (vm_locs s ! i) \<longrightarrow> \<not> lo_halted (vm_local s ! i)) \<and>
     (list_ex hlt_loc (vm_locs s) \<or> vm_first s = Some (''hlt'', X64Halt) \<longrightarrow> vm_halted s = c_cpus c)"

lemma not_halting [simp]: "\<not> running (returned i)" "\<not> hlt_loc (returned i)"
  by (simp_all add: returned_def)

lemma exit_halting: "exit_to cpus i done halted l \<Longrightarrow> \<not> running l \<and> (hlt_loc l \<longrightarrow> halted = cpus)"
  by (auto simp: exit_to_def)

text \<open>A step other than that of an exit halts no processor and starts no report of it.\<close>

lemma halt_kept:
  assumes "thread_step c i r s = Some s'" and "i < length (vm_locs s)" and "\<And>x. vm_locs s ! i \<noteq> L_Dispatch x"
    and "proc_loc i (vm_locs s ! i) \<or> wd_loc (vm_locs s ! i)"
  shows "vm_halted s' = vm_halted s \<and> (hlt_loc (vm_locs s' ! i) \<longrightarrow> hlt_loc (vm_locs s ! i)) \<and>
    (vm_first s' = Some (''hlt'', X64Halt) \<longrightarrow> hlt_loc (vm_locs s ! i) \<or> vm_first s = Some (''hlt'', X64Halt))"
  using assms unfolding thread_step_def
  by (cases "vm_locs s ! i") (auto simp: run_returned_def split: if_split_asm sum.splits)

lemma local_kept:
  assumes "thread_step c i r s = Some s'" and "\<And>x. vm_locs s ! i \<noteq> L_Dispatch x" and "length (vm_local s) = c_cpus c"
  shows "map lo_halted (vm_local s') = map lo_halted (vm_local s)"
proof -
  have upd: "map lo_halted ((vm_local s)[i := f (vm_local s ! i)]) = map lo_halted (vm_local s)" if "\<And>l. lo_halted (f l) = lo_halted l" for f
    using that by (cases "i < length (vm_local s)") (simp_all add: map_update list_update_same_conv list_update_beyond)
  show ?thesis
    using assms(1,2) unfolding thread_step_def
    by (cases "vm_locs s ! i") (auto simp: run_returned_def upd split: if_split_asm sum.splits)
qed

lemma running_target:
  assumes "thread_step c i r s = Some s'" and "i < length (vm_locs s)" and "running (vm_locs s' ! i)"
    and "proc_loc i (vm_locs s ! i) \<or> wd_loc (vm_locs s ! i)" and "\<And>x. vm_locs s ! i \<noteq> L_Dispatch x"
  shows "running (vm_locs s ! i) \<or> \<not> lo_halted (vm_local s ! i)"
  using assms unfolding thread_step_def
  by (cases "vm_locs s ! i") (auto simp: run_returned_def split: if_split_asm sum.splits)

lemma count_halted: "length (filter lo_halted xs) = length (filter id (map lo_halted xs))"
  by (simp add: filter_map comp_def)

lemma halt_step:
  assumes inv: "halt_inv c s" and shape: "shape_inv c s" and i: "i \<le> c_cpus c" and step: "thread_step c i r s = Some s'"
  shows "halt_inv c s'"
proof (cases "\<exists>x. vm_locs s ! i = L_Dispatch x")
  case True
  then obtain x where x: "vm_locs s ! i = L_Dispatch x" by blast
  then obtain t l where d: "dispatch c r i x s = Some (t, l)" and s': "s' = at i l t" using step by (auto simp: thread_step_def)
  have i': "i < c_cpus c" using shape i x by (cases "i = c_cpus c") (auto simp: shape_inv_def)
  have n: "i < length (vm_locs s)" "i < length (vm_local s)" "length (vm_local s) = c_cpus c" using shape i' by (simp_all add: shape_inv_def)
  have run: "\<not> lo_halted (vm_local s ! i)" using inv i' x by (auto simp: halt_inv_def)
  have same: "vm_locs t = vm_locs s" "vm_first t = vm_first s" and target: "\<not> running l" "hlt_loc l \<Longrightarrow> vm_halted t = c_cpus c"
    and halted: "vm_local t = vm_local s \<and> vm_halted t = vm_halted s \<or>
      vm_local t = (vm_local s)[i := (vm_local s ! i)\<lparr>lo_halted := True\<rparr>] \<and> vm_halted t = vm_halted s + 1"
    using dispatch_frameD [OF d] exit_halting by (blast, blast, blast, blast, simp)
  have count: "vm_halted s' = length (filter lo_halted (vm_local s'))"
  proof -
    have "length (filter lo_halted ((vm_local s)[i := (vm_local s ! i)\<lparr>lo_halted := True\<rparr>])) = length (filter lo_halted (vm_local s)) + 1"
      using length_filter_update [OF n(2), of lo_halted "(vm_local s ! i)\<lparr>lo_halted := True\<rparr>"] run by simp
    moreover have "vm_halted s = length (filter lo_halted (vm_local s))" using inv by (simp add: halt_inv_def)
    ultimately show ?thesis using halted by (elim disjE) (simp_all add: s')
  qed
  have up: "vm_halted s \<le> vm_halted s'" and len: "length (vm_local s') = c_cpus c" using halted n(3) by (elim disjE; simp add: s')+
  have "vm_halted s' \<le> c_cpus c" using count len length_filter_le [of lo_halted "vm_local s'"] by simp
  then have full: "vm_halted s' = c_cpus c" if "vm_halted s = c_cpus c" using that up by simp
  have "vm_halted s' = c_cpus c" if "list_ex hlt_loc (vm_locs s') \<or> vm_first s' = Some (''hlt'', X64Halt)"
  proof -
    have "hlt_loc l \<or> list_ex hlt_loc (vm_locs s) \<or> vm_first s = Some (''hlt'', X64Halt)"
      using that list_ex_update [of hlt_loc "vm_locs s" i l] by (auto simp: s' same)
    then show ?thesis using target(2) full inv by (auto simp: s' halt_inv_def)
  qed
  moreover have "\<not> lo_halted (vm_local s' ! j)" if "running (vm_locs s' ! j)" "j < c_cpus c" for j
  proof -
    have "j \<noteq> i" using that(1) target(1) n by (auto simp: s' same)
    then show ?thesis using that inv halted by (auto simp: s' same halt_inv_def)
  qed
  ultimately show ?thesis using count by (simp add: halt_inv_def)
next
  case False
  obtain l where l: "vm_locs s' = (vm_locs s)[i := l]" using step_locs [OF step] by blast
  have n: "i < length (vm_locs s)" "length (vm_local s) = c_cpus c" using shape i by (simp_all add: shape_inv_def)
  have l': "vm_locs s' ! i = l" using l n by simp
  have kinds: "proc_loc i (vm_locs s ! i) \<or> wd_loc (vm_locs s ! i)" using shape i by (cases "i = c_cpus c") (auto simp: shape_inv_def)
  have nd: "vm_locs s ! i \<noteq> L_Dispatch x" for x using False by simp
  have kept: "map lo_halted (vm_local s') = map lo_halted (vm_local s)" by (rule local_kept [OF step nd n(2)])
  have same: "lo_halted (vm_local s' ! j) = lo_halted (vm_local s ! j)" if "j < c_cpus c" for j
    using kept that n(2) by (metis length_map nth_map)
  have "list_ex hlt_loc (vm_locs s') \<or> vm_first s' = Some (''hlt'', X64Halt) \<longrightarrow>
      list_ex hlt_loc (vm_locs s) \<or> vm_first s = Some (''hlt'', X64Halt)"
    using halt_kept [OF step n(1) nd kinds] list_ex_update [of hlt_loc "vm_locs s" i l] list_ex_nth [OF n(1), of hlt_loc] n(1) by (auto simp: l)
  moreover have "\<not> lo_halted (vm_local s' ! j)" if "running (vm_locs s' ! j)" "j < c_cpus c" for j
    using that inv same running_target [OF step n(1) _ kinds nd] n by (cases "j = i") (auto simp: halt_inv_def l l')
  moreover have "length (filter lo_halted (vm_local s')) = length (filter lo_halted (vm_local s))"
    unfolding count_halted kept ..
  ultimately show ?thesis using inv halt_kept [OF step n(1) nd kinds] unfolding halt_inv_def by metis
qed


section \<open>Every run\<close>

definition vm_inv :: "('f, 'p) run_config \<Rightarrow> ('f, 'p) vm \<Rightarrow> bool" where
  "vm_inv c s \<longleftrightarrow> shape_inv c s \<and> finish_inv s \<and> error_inv s \<and> join_inv c s \<and> pause_inv c s \<and> halt_inv c s"

lemma vm_init_inv: "0 < c_cpus c \<Longrightarrow> vm_inv c (vm_init c m p hv)"
proof -
  assume pos: "0 < c_cpus c"
  let ?s = "vm_init c m p hv"
  have locs: "vm_locs ?s ! i = (if i < c_cpus c then L_Top else W_Loop)" if "i \<le> c_cpus c" for i
    using that by (simp add: vm_init_def nth_append)
  have none: "\<not> list_ex P (vm_locs ?s)" if "\<not> P L_Top" "\<not> P W_Loop" for P
    using that by (auto simp: vm_init_def list_ex_iff)
  have all: "list_all P (vm_locs ?s)" if "P L_Top" "P W_Loop" for P
    using that by (auto simp: vm_init_def list_all_iff)
  have paused: "filter in_pause (vm_locs ?s) = []" by (simp add: vm_init_def in_pause_def filter_empty_conv)
  have halted: "filter lo_halted (vm_local ?s) = []" by (simp add: vm_init_def filter_empty_conv)
  have fields: "length (vm_locs ?s) = Suc (c_cpus c)" "length (vm_local ?s) = c_cpus c" "vm_first ?s = None" "\<not> vm_done ?s" "vm_errors ?s = []"
      "vm_error ?s = []" "\<not> vm_wd_done ?s" "vm_paused ?s = 0" "vm_halted ?s = 0"
    by (simp_all add: vm_init_def)
  have "shape_inv c ?s" "finish_inv ?s" "error_inv ?s" "join_inv c ?s" "pause_inv c ?s" "halt_inv c ?s"
    using pos by (simp_all add: shape_inv_def finish_inv_def error_inv_def join_inv_def pause_inv_def halt_inv_def locs none all paused halted
        fields needs_control_def)
  then show ?thesis by (simp add: vm_inv_def)
qed

lemma devices_kept:
  "shape_inv c (s\<lparr>vm_m := m\<rparr>) = shape_inv c s" "finish_inv (s\<lparr>vm_m := m\<rparr>) = finish_inv s" "error_inv (s\<lparr>vm_m := m\<rparr>) = error_inv s"
  "join_inv c (s\<lparr>vm_m := m\<rparr>) = join_inv c s" "pause_inv c (s\<lparr>vm_m := m\<rparr>) = pause_inv c s" "halt_inv c (s\<lparr>vm_m := m\<rparr>) = halt_inv c s"
  by (simp_all add: shape_inv_def finish_inv_def error_inv_def join_inv_def pause_inv_def halt_inv_def)

lemma devices_inv: "vm_inv c s \<Longrightarrow> vm_inv c (s\<lparr>vm_m := m\<rparr>)"
  by (simp add: vm_inv_def devices_kept)

lemma vm_step_inv: "vm_inv c s \<Longrightarrow> vm_step c s e = Some s' \<Longrightarrow> vm_inv c s'"
proof (cases e)
  case (Thread i r)
  assume "vm_inv c s" "vm_step c s e = Some s'"
  then show ?thesis using Thread shape_step [of c s i r s'] finish_step [of s c i r s'] error_step [of s c i r s'] join_step [of c s i r s']
      pause_step [of c s i r s'] halt_step [of c s i r s']
    by (simp add: vm_inv_def split: if_split_asm)
qed (auto simp: devices_inv split: if_split_asm)

lemma vm_run_inv: "vm_inv c s \<Longrightarrow> vm_run c s es = Some s' \<Longrightarrow> vm_inv c s'"
  by (induction es arbitrary: s) (auto simp: bind_eq_Some_conv intro: vm_step_inv)

lemma reachable_inv: "vm_run c (vm_init c m p hv) es = Some s \<Longrightarrow> 0 < c_cpus c \<Longrightarrow> vm_inv c s"
  by (rule vm_run_inv [OF vm_init_inv])


section \<open>The way to the end\<close>

text \<open>How many steps a thread has left at most, once the machine is done, or the watchdog is told.\<close>

fun proc_rank :: "vloc \<Rightarrow> nat" where
  "proc_rank L_Return = 0" | "proc_rank (L_Result _) = 0" | "proc_rank L_Join_Watchdog = 1" | "proc_rank L_Stop_Watchdog = 2"
| "proc_rank L_Exited = 3" | "proc_rank L_Join = 4" | "proc_rank L_Top = 6" | "proc_rank (L_Error _) = 7" | "proc_rank (L_Dispatch _) = 8"
| "proc_rank (L_Exit _) = 9" | "proc_rank L_Run = 10" | "proc_rank L_Pre_Run = 11" | "proc_rank L_Halted = 12" | "proc_rank L_Pause_Running = 13"
| "proc_rank L_Pause_Test = 14" | "proc_rank L_Pause_Command = 15" | "proc_rank L_Pause_Out = 16" | "proc_rank L_Pause_Wait = 17"
| "proc_rank L_Pause_Report = 18" | "proc_rank L_Pause_In = 19" | "proc_rank L_Command = 20"
| "proc_rank (L_Stopping l) = proc_rank l + 2" | "proc_rank (L_Cas _ _ l) = proc_rank l + 1" | "proc_rank (L_Store _ _ l) = proc_rank l + 1"
| "proc_rank _ = 0"

fun wd_rank :: "vloc \<Rightarrow> nat" where
  "wd_rank W_End = 0" | "wd_rank W_Loop = 1" | "wd_rank W_Cancel = 1" | "wd_rank W_Deadline = 2" | "wd_rank W_Command = 4"
| "wd_rank (L_Stopping _) = 3" | "wd_rank (L_Cas _ _ _) = 2" | "wd_rank (L_Store _ _ _) = 1" | "wd_rank _ = 0"

definition vm_rank :: "('f, 'p) run_config \<Rightarrow> ('f, 'p) vm \<Rightarrow> nat" where
  "vm_rank c s = sum_list (map proc_rank (take (c_cpus c) (vm_locs s))) + (if vm_wd_done s then wd_rank (vm_locs s ! c_cpus c) else 4)"

lemma returned_rank: "proc_rank (returned i) \<le> 5"
  by (simp add: returned_def)

lemma exit_rank: "exit_to cpus i done halted l \<Longrightarrow> proc_rank l \<le> 7"
  using returned_rank [of i] by (auto simp: exit_to_def)

lemma done_mono: "thread_step c i r s = Some s' \<Longrightarrow> vm_done s \<Longrightarrow> vm_done s'"
proof (cases "is_cas (vm_locs s ! i) \<or> claim (vm_locs s ! i) \<noteq> None")
  case True
  then obtain reason code l where "vm_locs s ! i = L_Cas reason code l \<or> vm_locs s ! i = L_Store reason code l"
    unfolding is_cas_iff claim_iff by blast
  then show "thread_step c i r s = Some s' \<Longrightarrow> vm_done s \<Longrightarrow> vm_done s'" by (elim disjE) (simp_all add: thread_step_def, auto)
next
  case False
  then have "\<not> is_cas (vm_locs s ! i)" "claim (vm_locs s ! i) = None" by blast+
  then show "thread_step c i r s = Some s' \<Longrightarrow> vm_done s \<Longrightarrow> vm_done s'" using outcome_kept by fastforce
qed

lemma proc_rank_step:
  assumes "thread_step c i r s = Some s'" and "vm_done s" and "proc_loc i (vm_locs s ! i)" and "i < length (vm_locs s)"
  shows "proc_rank (vm_locs s' ! i) < proc_rank (vm_locs s ! i)"
proof (cases "\<exists>x. vm_locs s ! i = L_Dispatch x")
  case True
  then obtain x where x: "vm_locs s ! i = L_Dispatch x" by blast
  then obtain t l where d: "dispatch c r i x s = Some (t, l)" and s': "s' = at i l t" using assms(1) by (auto simp: thread_step_def)
  have "vm_locs t = vm_locs s" "proc_rank l \<le> 7" using dispatch_frameD [OF d] exit_rank by (blast, blast)
  then show ?thesis using assms(4) by (simp add: s' x)
next
  case False
  then show ?thesis
    using assms returned_rank [of i] unfolding thread_step_def
    by (cases "vm_locs s ! i") (auto simp: run_returned_def split: if_split_asm sum.splits)
qed

lemma wd_rank_step:
  assumes "thread_step c i r s = Some s'" and "wd_loc (vm_locs s ! i)" and "vm_wd_done s" and "vm_done s" and "i < length (vm_locs s)"
  shows "wd_rank (vm_locs s' ! i) < wd_rank (vm_locs s ! i)"
  using assms unfolding thread_step_def
  by (cases "vm_locs s ! i") (auto split: if_split_asm)

lemma wd_rank_le: "wd_loc l \<Longrightarrow> wd_rank l \<le> 4"
  by (cases l) auto

lemma sum_list_update_rank:
  "i < length xs \<Longrightarrow> sum_list (map f (xs[i := x])) + f (xs ! i) = sum_list (map f xs) + (f x :: nat)"
  by (induction xs arbitrary: i) (auto split: nat.split)

text \<open>A step of a processor lowers the rank, and so does one of the watchdog that has been told; no step raises it.\<close>

lemma rank_step:
  assumes inv: "vm_inv c s" and dn: "vm_done s" and i: "i \<le> c_cpus c" and step: "thread_step c i r s = Some s'"
  shows "vm_rank c s' + of_bool (i < c_cpus c \<or> vm_wd_done s) \<le> vm_rank c s"
proof -
  obtain l where l: "vm_locs s' = (vm_locs s)[i := l]" using step_locs [OF step] by blast
  have shape: "shape_inv c s" using inv by (simp add: vm_inv_def)
  have n: "i < length (vm_locs s)" "length (vm_locs s) = Suc (c_cpus c)" using shape i by (simp_all add: shape_inv_def)
  show ?thesis
  proof (cases "i < c_cpus c")
    case True
    then have p: "proc_loc i (vm_locs s ! i)" using shape by (simp add: shape_inv_def)
    have less: "proc_rank l < proc_rank (vm_locs s ! i)" using proc_rank_step [OF step dn p n(1)] n(1) by (simp add: l)
    have wd: "wd_rank (vm_locs s ! c_cpus c) \<le> 4" using shape by (simp add: shape_inv_def wd_rank_le)
    have "vm_wd_done s \<Longrightarrow> vm_wd_done s'"
      using told_kept [OF step] step by (cases "vm_locs s ! i = L_Stop_Watchdog") (auto simp: thread_step_def)
    then have le: "(if vm_wd_done s' then wd_rank (vm_locs s' ! c_cpus c) else 4) \<le> (if vm_wd_done s then wd_rank (vm_locs s ! c_cpus c) else 4)"
      using wd True by (auto simp: l)
    have "take (c_cpus c) (vm_locs s') = (take (c_cpus c) (vm_locs s))[i := l]" by (simp add: l take_update_swap)
    then have "sum_list (map proc_rank (take (c_cpus c) (vm_locs s'))) + proc_rank (vm_locs s ! i) =
        sum_list (map proc_rank (take (c_cpus c) (vm_locs s))) + proc_rank l"
      using sum_list_update_rank [of i "take (c_cpus c) (vm_locs s)" proc_rank l] True n by simp
    with less le show ?thesis unfolding vm_rank_def using True by simp
  next
    case False
    then have e: "i = c_cpus c" using i by simp
    have w: "wd_loc (vm_locs s ! i)" using shape by (simp add: shape_inv_def e)
    have same: "vm_wd_done s' = vm_wd_done s" using told_kept [OF step] w by (cases "vm_locs s ! i") auto
    have "take (c_cpus c) (vm_locs s') = take (c_cpus c) (vm_locs s)" by (simp add: l e)
    then show ?thesis using wd_rank_step [OF step w _ dn n(1)] same by (auto simp: vm_rank_def e)
  qed
qed

end
