(* ===== verification/Whp_Run_Results.thy ===== *)
theory Whp_Run_Results
  imports Whp_Run_Proofs
begin

text \<open>
  What the host can rely on of a run of the Windows backend: the result it gets, that it gets one, what a reported pause means, and that the
  devices and guest RAM stay within their bounds under every interleaving of the threads.
\<close>

section \<open>The result\<close>


section \<open>The end comes\<close>

lemma can_dispatch: "\<exists>r. dispatch c r i x s \<noteq> None"
proof -
  let ?r = "undefined\<lparr>rd_emu := undefined\<lparr>em_calls := []\<rparr>\<rparr>"
  have "dispatch c ?r i x s \<noteq> None"
    unfolding dispatch_def io_exit_def mmio_exit_def Let_def
    by (cases "ex_reason x") (simp_all split: sum.split)
  then show ?thesis by blast
qed

lemma can_step:
  assumes "vm_locs s ! i \<notin> {L_Return, L_Join, L_Join_Watchdog, W_End}" and "\<And>res. vm_locs s ! i \<noteq> L_Result res"
  shows "\<exists>r s'. thread_step c i r s = Some s'"
proof (cases "\<exists>x. vm_locs s ! i = L_Dispatch x")
  case True
  then obtain x where "vm_locs s ! i = L_Dispatch x" by blast
  then show ?thesis using can_dispatch [of c i x s] by (auto simp: thread_step_def)
next
  case False
  have "thread_step c i undefined s \<noteq> None" using assms False unfolding thread_step_def by (cases "vm_locs s ! i") auto
  then show ?thesis by blast
qed

lemma progress:
  assumes inv: "vm_inv c s" and dn: "vm_done s" and none: "\<And>res. vm_locs s ! 0 \<noteq> L_Result res"
  shows "\<exists>e s'. vm_step c s e = Some s' \<and> vm_rank c s' < vm_rank c s"
proof -
  have shape: "shape_inv c s" and pos: "0 < c_cpus c" using inv by (simp_all add: vm_inv_def shape_inv_def)
  have go: ?thesis if "\<exists>r s'. thread_step c i r s = Some s'" "i < c_cpus c \<or> i = c_cpus c \<and> vm_wd_done s" for i
  proof -
    from that(1) obtain r s' where st: "thread_step c i r s = Some s'" by blast
    have "i \<le> c_cpus c" "i < c_cpus c \<or> vm_wd_done s" using that(2) by auto
    then have "vm_step c s (Thread i r) = Some s'" "vm_rank c s' < vm_rank c s" using st rank_step [OF inv dn _ st] by simp_all
    then show ?thesis by blast
  qed
  have p0: "proc_loc 0 (vm_locs s ! 0)" using shape pos by (simp add: shape_inv_def)
  consider "vm_locs s ! 0 = L_Join" | "vm_locs s ! 0 = L_Join_Watchdog" | "vm_locs s ! 0 \<notin> {L_Return, L_Join, L_Join_Watchdog, W_End}"
    using p0 by (cases "vm_locs s ! 0") auto
  then show ?thesis
  proof cases
    case 1
    show ?thesis
    proof (cases "\<forall>k \<in> {1 ..< c_cpus c}. vm_locs s ! k = L_Return")
      case True
      then have "\<exists>r s'. thread_step c 0 r s = Some s'" using 1 by (simp add: thread_step_def)
      then show ?thesis using go pos by blast
    next
      case False
      then obtain k where k: "0 < k" "k < c_cpus c" "vm_locs s ! k \<noteq> L_Return" by (auto simp: Suc_le_eq)
      have "proc_loc k (vm_locs s ! k)" using shape k by (simp add: shape_inv_def)
      then have "\<exists>r s'. thread_step c k r s = Some s'" using k by (intro can_step) auto
      then show ?thesis using go k by blast
    qed
  next
    case 2
    then have wd: "vm_wd_done s" using inv by (simp add: vm_inv_def join_inv_def)
    show ?thesis
    proof (cases "vm_locs s ! c_cpus c = W_End")
      case True
      then have "\<exists>r s'. thread_step c 0 r s = Some s'" using 2 by (simp add: thread_step_def)
      then show ?thesis using go pos by blast
    next
      case False
      have "wd_loc (vm_locs s ! c_cpus c)" using shape by (simp add: shape_inv_def)
      then have "\<exists>r s'. thread_step c (c_cpus c) r s = Some s'" using False by (intro can_step) auto
      then show ?thesis using go wd by blast
    qed
  next
    case 3
    then show ?thesis using go [OF can_step] none pos by blast
  qed
qed

fun processor_step :: "nat \<Rightarrow> 'p vm_event \<Rightarrow> bool" where
  "processor_step cpus (Thread i _) \<longleftrightarrow> i < cpus"
| "processor_step cpus _ \<longleftrightarrow> False"

lemma device_rank [simp]: "vm_rank c (s\<lparr>vm_m := m\<rparr>) = vm_rank c s"
  by (simp add: vm_rank_def)

lemma step_rank:
  assumes "vm_inv c s" and "vm_done s" and "vm_step c s e = Some s'"
  shows "vm_rank c s' + of_bool (processor_step (c_cpus c) e) \<le> vm_rank c s \<and> vm_done s'"
proof (cases e)
  case (Thread i r)
  then have "i \<le> c_cpus c" "thread_step c i r s = Some s'" using assms(3) by (simp_all split: if_split_asm)
  then show ?thesis using rank_step [OF assms(1,2), of i r s'] done_mono [of c i r s s'] assms(2) Thread
    by (auto simp: of_bool_def split: if_splits)
qed (use assms in \<open>auto split: if_split_asm\<close>)

lemma run_rank:
  "vm_inv c s \<Longrightarrow> vm_done s \<Longrightarrow> vm_run c s es = Some s' \<Longrightarrow>
   vm_rank c s' + length (filter (processor_step (c_cpus c)) es) \<le> vm_rank c s \<and> vm_inv c s' \<and> vm_done s'"
proof (induction es arbitrary: s)
  case (Cons e es)
  then obtain s1 where s1: "vm_step c s e = Some s1" "vm_run c s1 es = Some s'" by (auto simp: bind_eq_Some_conv)
  from Cons.IH [OF vm_step_inv [OF Cons.prems(1) s1(1)] _ s1(2)] step_rank [OF Cons.prems(1,2) s1(1)]
  show ?case by (auto split: if_splits)
qed simp

lemma proc_rank_le: "proc_loc i l \<Longrightarrow> proc_rank l \<le> 20"
  using returned_rank [of i] by (cases l) auto

lemma vm_rank_le: "vm_inv c s \<Longrightarrow> vm_rank c s \<le> 20 * c_cpus c + 4"
proof -
  assume "vm_inv c s"
  then have shape: "shape_inv c s" by (simp add: vm_inv_def)
  have "\<forall>l \<in> set (take (c_cpus c) (vm_locs s)). proc_rank l \<le> 20"
    using shape proc_rank_le by (fastforce simp: shape_inv_def in_set_conv_nth)
  then have "sum_list (map proc_rank (take (c_cpus c) (vm_locs s))) \<le> sum_list (map (\<lambda>_. 20) (take (c_cpus c) (vm_locs s)))"
    by (intro sum_list_mono) simp
  also have "\<dots> = 20 * c_cpus c" using shape by (simp add: shape_inv_def sum_list_triv)
  finally have p: "sum_list (map proc_rank (take (c_cpus c) (vm_locs s))) \<le> 20 * c_cpus c" .
  have "wd_rank (vm_locs s ! c_cpus c) \<le> 4" using shape by (simp add: shape_inv_def wd_rank_le)
  with p show ?thesis by (simp add: vm_rank_def)
qed

lemma reaches_result:
  assumes "vm_inv c s" and "vm_done s"
  shows "\<exists>es s' res. vm_run c s es = Some s' \<and> vm_locs s' ! 0 = L_Result res"
  using assms
proof (induction "vm_rank c s" arbitrary: s rule: less_induct)
  case less
  show ?case
  proof (cases "\<exists>res. vm_locs s ! 0 = L_Result res")
    case True
    then have "vm_run c s [] = Some s" by simp
    with True show ?thesis by blast
  next
    case False
    then obtain e s1 where e: "vm_step c s e = Some s1" "vm_rank c s1 < vm_rank c s" using progress [OF less.prems] by blast
    have "vm_inv c s1" "vm_done s1" using vm_step_inv [OF less.prems(1) e(1)] step_rank [OF less.prems e(1)] by simp_all
    from less.hyps [OF e(2) this] obtain es s' res where "vm_run c s1 es = Some s'" "vm_locs s' ! 0 = L_Result res" by blast
    then have "vm_run c s (e # es) = Some s'" using e(1) by simp
    with \<open>vm_locs s' ! 0 = L_Result res\<close> show ?thesis by blast
  qed
qed


section \<open>The pause\<close>



section \<open>The devices\<close>

lemma whp_io_device_rel: "machine_ok m \<Longrightarrow> machine_rel m (fst (whp_io_device host t io data m))"
proof -
  assume ok: "machine_ok m"
  have d: "uart_ok (m_uart m)" "cmos_ok (m_cmos m)" using ok by (simp_all add: machine_ok_def)
  have cmos: "cmos_ok (cmos_write_port (m_cmos m) port v)" "cmos_ok (snd (cmos_read_port (m_cmos m) port w))" for port v w
    using cmos_machine.step_inv [OF d(2), of "CmosWrite port v"] cmos_machine.step_inv [OF d(2), of "CmosRead port w"] by simp_all
  note ops = device_rel [OF ok] uart_done_rel [OF ok] machine_rel_refl [OF ok] cmos
    emit_ok [OF d(1)] uart_write_ok [OF d(1)] uart_read_ok [OF d(1)]
  have split: "machine_rel m (fst x) \<Longrightarrow> machine_rel m (fst y) \<Longrightarrow> machine_rel m (fst (if c then x else y))" for c x y by simp
  show ?thesis unfolding whp_io_device_def Let_def case_prod_beta by (intro split) (simp_all add: ops)
qed

lemma HandleWhpIo_rel: "machine_ok m \<Longrightarrow> HandleWhpIo host t api p i rip io m = Inr (m', p') \<Longrightarrow> machine_rel m m'"
  using whp_io_device_rel [of m host t io] unfolding HandleWhpIo_def Let_def case_prod_beta by (auto split: if_split_asm)

text \<open>The interrupt state of the boot processor is not part of what is compared.\<close>

lemma bsp_rel: "machine_ok m \<Longrightarrow> machine_rel m (m\<lparr>m_bsp := b\<rparr>)"
  by (simp add: machine_rel_def machine_ok_def)

lemma put_irq_rel: "machine_ok (vm_m s) \<Longrightarrow> machine_rel (vm_m s) (vm_m (put_irq i v s))"
  by (simp add: put_irq_def bsp_rel machine_rel_refl)

lemma drain_rel: "machine_ok m \<Longrightarrow> machine_rel m (m\<lparr>m_ioapic := drain_pending d (m_ioapic m)\<rparr>)"
  using ioapic_run.step_inv [of "m_ioapic m" d Io_Drain] ioapic_step_log [of "m_ioapic m" d Io_Drain]
  by (intro device_rel) (simp_all add: machine_ok_def)

lemma eoi_rel: "machine_ok m \<Longrightarrow> machine_rel m (m\<lparr>m_ioapic := eoi d (m_ioapic m) v\<rparr>)"
  using ioapic_run.step_inv [of "m_ioapic m" d "Io_Eoi v"] ioapic_step_log [of "m_ioapic m" d "Io_Eoi v"]
  by (intro device_rel) (simp_all add: machine_ok_def)

abbreviation host_ok where
  "host_ok c \<equiv> api_bounded (h_files (c_host c)) \<and> rand_bounded (h_rand (c_host c))"

lemma io_exit_rel:
  assumes "machine_ok (vm_m s)" and "host_ok c" and "io_exit c r i x s = Some (s', l)"
  shows "machine_rel (vm_m s) (vm_m s')"
proof (cases "PrepareWhpIoContext (c_reg c) (vm_p s) (of_nat i) (m_mem (vm_m s)) (ex_rip x) (ex_io x)")
  case (Inl e)
  then show ?thesis using assms by (simp add: io_exit_def machine_rel_refl)
next
  case (Inr io)
  then obtain m where m: "machine_run (c_host c) (vm_m s) (map (\<lambda>call. (rd_moment r, callback_event call)) (em_calls (rd_emu r))) = Some m"
    using assms(3) by (auto simp: io_exit_def bind_eq_Some_conv)
  have rel: "machine_rel (vm_m s) m" using machine_run_rel [OF _ _ assms(1) m] assms(2) by simp
  show ?thesis
  proof (cases "em_hr (rd_emu r) \<noteq> Inr () \<or> \<not> em_successful (rd_emu r)")
    case False
    then show ?thesis using assms(3) rel by (auto simp: io_exit_def Inr m io_exit_done_def Let_def)
  next
    case True
    then show ?thesis
      using assms(3) rel machine_rel_trans [OF rel HandleWhpIo_rel [OF machine_rel_ok [OF rel]]]
      by (cases "HandleWhpIo (c_host c) (rd_moment r) (c_reg c) (em_p (rd_emu r)) (of_nat i) (ex_rip x) io m")
        (auto simp: io_exit_def Inr m io_exit_done_def Let_def)
  qed
qed

lemma mmio_exit_rel:
  assumes "machine_ok (vm_m s)" and "host_ok c" and "mmio_exit c r i x s = Some (s', l)"
  shows "machine_rel (vm_m s) (vm_m s')"
  using machine_run_rel [OF _ _ assms(1)] assms by (auto simp: mmio_exit_def bind_eq_Some_conv Let_def)

lemma dispatch_rel:
  assumes ok: "machine_ok (vm_m s)" and host: "host_ok c" and res: "dispatch c r i x s = Some (s', l)"
  shows "machine_rel (vm_m s) (vm_m s')"
proof -
  have put: "machine_rel (vm_m s) ((vm_m (put_irq i v s))\<lparr>m_ioapic := drain_pending d (m_ioapic (vm_m (put_irq i v s)))\<rparr>)" for v d
    using machine_rel_trans [OF put_irq_rel [OF ok] drain_rel [OF machine_rel_ok [OF put_irq_rel [OF ok]]]] .
  show ?thesis
    using res io_exit_rel [OF ok host] mmio_exit_rel [OF ok host] put_irq_rel [OF ok] put eoi_rel [OF ok] machine_rel_refl [OF ok]
    unfolding dispatch_def Let_def
    by (cases "ex_reason x") (auto simp: park_def Let_def split: if_split_asm sum.split_asm prod.split_asm)
qed

lemma pre_run_rel:
  assumes ok: "machine_ok (vm_m s)"
  shows "machine_rel (vm_m s) (vm_m (pre_run c i s))"
proof -
  note p = put_irq_rel [OF ok, of 0]
  show ?thesis using drain_rel [OF ok] machine_rel_trans [OF p drain_rel [OF machine_rel_ok [OF p]]]
    by (simp add: pre_run_def Let_def case_prod_beta)
qed

lemma thread_rel:
  assumes ok: "machine_ok (vm_m s)" and host: "host_ok c" and step: "thread_step c i r s = Some s'"
  shows "machine_rel (vm_m s) (vm_m s')"
proof -
  have cancel: "machine_rel (vm_m s) (vm_m (cancel_all (s\<lparr>vm_reason := a, vm_code := b\<rparr>)))" "machine_rel (vm_m s) (vm_m (cancel_all s))" for a b
    using device_rel(9) [OF ok] by (simp_all add: cancel_all_def)
  have irq: "machine_rel (vm_m s) (vm_m (put_irq i v (s\<lparr>vm_local := ls, vm_p := p, vm_runs := n\<rparr>)))" for v ls p n
    using put_irq_rel [of "s\<lparr>vm_local := ls, vm_p := p, vm_runs := n\<rparr>" i v] ok by simp
  have err: "vm_m (record_error c e s) = vm_m s" for e by (simp add: record_error_def Let_def)
  have res: "vm_m (deliver_result c i s) = vm_m s" by (simp add: deliver_result_def Let_def split: sum.split)
  show ?thesis
    using step machine_rel_refl [OF ok] dispatch_rel [OF ok host, of r i] cancel irq err res pre_run_rel [OF ok, of c i]
    unfolding thread_step_def
    by (cases "vm_locs s ! i") (simp_all add: run_returned_def case_prod_beta split: if_split_asm sum.split_asm, auto)
qed

lemma vm_run_append: "vm_run c s (es @ fs) = Option.bind (vm_run c s es) (\<lambda>s. vm_run c s fs)"
  by (induction es arbitrary: s) (simp_all add: Option.bind_assoc)

lemma vm_step_rel:
  assumes ok: "machine_ok (vm_m s)" and host: "host_ok c" and step: "vm_step c s e = Some s'"
  shows "machine_rel (vm_m s) (vm_m s')"
  using step thread_rel [OF ok host] timer_tick_rel [OF ok] input_round_rel [OF ok] net_frame_rel [OF ok] machine_rel_refl [OF ok]
  by (cases e) (auto split: if_split_asm)

lemma vm_run_rel:
  "machine_ok (vm_m s) \<Longrightarrow> host_ok c \<Longrightarrow> vm_run c s es = Some s' \<Longrightarrow> machine_rel (vm_m s) (vm_m s')"
proof (induction es arbitrary: s)
  case (Cons e es)
  then obtain s1 where s1: "vm_step c s e = Some s1" "vm_run c s1 es = Some s'" by (auto simp: bind_eq_Some_conv)
  have r: "machine_rel (vm_m s) (vm_m s1)" by (rule vm_step_rel [OF Cons.prems(1,2) s1(1)])
  show ?case by (rule machine_rel_trans [OF r Cons.IH [OF machine_rel_ok [OF r] Cons.prems(2) s1(2)]])
qed (simp add: machine_rel_refl)

text \<open>C1. Whatever the guest, the network, the user and the host do, and however the threads interleave, the machine stays within its bounds. In
  every run of the processors, the watchdog, the timer thread, the console and the network, every device is well formed; no byte of host
  memory outside guest RAM has changed; no base image under an overlay and no read-only disk has changed; the interrupts that the I/O APIC had accepted
  at an earlier moment are still the first in its log, in their order; and so are the packets of the network card. Only that the
  file and random calls of the host do not return more bytes than asked for is assumed: the exits that the hypervisor reports, the registers it returns and the calls that
  its instruction emulator makes are arbitrary.\<close>
theorem vm_confined:
  assumes "api_bounded (h_files (c_host c))" and "rand_bounded (h_rand (c_host c))"
    and "vm_run c (vm_init c (machine_init t mem disks lim echo con env network) p hv) es1 = Some s1" and "vm_run c s1 es2 = Some s2"
  shows "machine_ok (vm_m s2) \<and> same_outside mem (m_mem (vm_m s2)) \<and> length (m_blks (vm_m s2)) = length disks \<and>
    (\<forall>i < length disks. disk_protected (disks ! i) (b_disk (m_blks (vm_m s2) ! i))) \<and>
    prefix (io_log (m_ioapic (vm_m s1))) (io_log (m_ioapic (vm_m s2))) \<and> rel_option net_kept (m_net (vm_m s1)) (m_net (vm_m s2))"
proof -
  let ?m0 = "machine_init t mem disks lim echo con env network"
  have m0: "vm_m (vm_init c ?m0 p hv) = ?m0" by (simp add: vm_init_def)
  have r1: "machine_rel ?m0 (vm_m s1)" using vm_run_rel [OF _ _ assms(3)] assms(1,2) by (simp add: m0 machine_init_ok)
  have r2: "machine_rel (vm_m s1) (vm_m s2)" using vm_run_rel [OF machine_rel_ok [OF r1] _ assms(4)] assms(1,2) by simp
  have "list_all2 blk_kept (m_blks ?m0) (m_blks (vm_m s2))" "same_outside mem (m_mem (vm_m s2))"
    using machine_rel_trans [OF r1 r2] by (simp_all add: machine_rel_def machine_init_blks)
  then have "length (m_blks (vm_m s2)) = length disks \<and> (\<forall>i < length disks. disk_protected (disks ! i) (b_disk (m_blks (vm_m s2) ! i)))"
    by (auto simp: list_all2_conv_all_nth machine_init_blks blk_kept_def blk_init_def)
  with \<open>same_outside mem (m_mem (vm_m s2))\<close> r2 show ?thesis by (simp add: machine_rel_def)
qed


section \<open>A run to its end\<close>

text \<open>One processor on a hypervisor that takes every call, a guest with a disk, a time limit of one second. The guest asks for its end
  through the exit port.\<close>

definition sample_config :: "(bytes, u32 \<Rightarrow> xreg \<Rightarrow> u64) run_config" where
  "sample_config = \<lparr>c_host = sample_host,
     c_vp = \<lparr>get_vp_registers = \<lambda>_ _ _. None, set_vp_registers = \<lambda>p _ _ _. (True, p), request_interrupt = \<lambda>p _. (True, p)\<rparr>,
     c_reg = plain_reg_api, c_cpus = 1, c_rootfs = True, c_timeout_ms = 1000, c_start = 0, c_control = True\<rparr>"

definition exit_access :: whp_exit where
  "exit_access = \<lparr>ex_reason = X64IoPortAccess, ex_rip = 0x1000, ex_len = 1,
     ex_vp = \<lparr>xc_interruption_pending = False, xc_interrupt_shadow = False, xc_rflags = 2\<rparr>,
     ex_io = sample_io\<lparr>io_count := 1, io_port := 0x501\<rparr>, ex_mem = \<lparr>mx_gpa = 0, mx_gva = 0, mx_type = 0, mx_count = 0\<rparr>,
     ex_exc = \<lparr>ve_type = 0, ve_code = 0, ve_param = 0\<rparr>, ex_eoi = 0, ex_msr = \<lparr>ma_number = 0, ma_is_write = False, ma_rax = 0, ma_rdx = 0\<rparr>,
     ex_cpuid = \<lparr>ca_rax = 0, ca_default_rax = 0, ca_default_rbx = 0, ca_default_rcx = 0, ca_default_rdx = 0\<rparr>, ex_cpuid_rcx = 0\<rparr>"

definition sample_reading :: "int \<Rightarrow> int \<Rightarrow> (u32 \<Rightarrow> xreg \<Rightarrow> u64) reading" where
  "sample_reading command now = \<lparr>rd_command = command, rd_now = now, rd_moment = sample_moment, rd_run = Inr (\<lambda>_ _. 0, exit_access),
     rd_emu = \<lparr>em_calls = [Io_Callback True 0x501 1 0], em_p = \<lambda>_ _. 0, em_hr = Inr (), em_successful = True, em_status = 0\<rparr>\<rparr>"

definition sample_vm :: "(bytes, u32 \<Rightarrow> xreg \<Rightarrow> u64) vm" where
  "sample_vm = vm_init sample_config sample_machine (\<lambda>_ _. 0)
     \<lparr>tsc_frequency_hz = 0, apic_frequency_hz = 0, guest_os_id = 0, hypercall = 0, hv_started_at = 0\<rparr>"

lemmas sample_defs = sample_config_def exit_access_def sample_reading_def command_of_def source_consts

lemma sample_machine_fields:
  "m_ioapic sample_machine = attach_waker ioapic_init" "m_bsp sample_machine = irq_state_init 0" "m_exit sample_machine = \<lparr>ge_requested = False, ge_status = 0\<rparr>"
  by (simp_all add: sample_machine_def machine_init_def Let_def)


lemma sample_vm_fields [simp]:
  "vm_m sample_vm = sample_machine" "vm_done sample_vm = False" "vm_timeout sample_vm = False" "vm_wd_done sample_vm = False" "vm_paused sample_vm = 0"
  "vm_runs sample_vm = 0" "vm_error sample_vm = []" "vm_errors sample_vm = []" "vm_first sample_vm = None" "vm_locs sample_vm = [L_Top, W_Loop]"
  "vm_local sample_vm = [\<lparr>lo_halted = False, lo_last = None, lo_paused_at = 0\<rparr>]" "vm_p sample_vm = (\<lambda>_ _. 0)" "vm_ext_ms sample_vm = 0"
  by (simp_all add: sample_vm_def vm_init_def sample_config_def)

lemma sample_config_fields [simp]:
  "c_host sample_config = sample_host" "c_cpus sample_config = 1" "c_rootfs sample_config = True" "c_timeout_ms sample_config = 1000"
  "c_start sample_config = 0" "c_control sample_config = True" "c_reg sample_config = plain_reg_api"
  by (simp_all add: sample_config_def)

lemmas step_defs = thread_step_def sample_reading_def command_of_def source_consts returned_def set_state_def cancel_all_def

lemma sample_stop:
  "\<exists>s. vm_run sample_config sample_vm (replicate 4 (Thread 0 (sample_reading 2 0))) = Some s \<and> vm_done s \<and>
     vm_locs s = [L_Store ''host-stop'' Canceled (returned 0), W_Loop] \<and> vm_first s = Some (''host-stop'', Canceled) \<and> vm_errors s = [] \<and>
     \<not> vm_timeout s \<and> \<not> vm_wd_done s \<and> vm_error s = [] \<and> vm_runs s = 0"
  by (simp add: eval_nat_numeral step_defs)


lemma sample_result:
  "\<exists>s res. vm_run sample_config sample_vm (replicate 9 (Thread 0 (sample_reading 2 0)) @ [Thread 1 (sample_reading 2 0), Thread 0 (sample_reading 2 0)]) = Some s \<and>
     vm_locs s ! 0 = L_Result res \<and> vm_first s = Some (''host-stop'', Canceled) \<and> vm_errors s = [] \<and> \<not> vm_timeout s \<and> vm_runs s = 0"
  by (simp add: eval_nat_numeral step_defs deliver_result_def make_result_def Let_def)



text \<open>The processor reads pause, announces it and waits.\<close>

lemma sample_pause:
  "\<exists>s. vm_run sample_config sample_vm (replicate 4 (Thread 0 (sample_reading 1 0))) = Some s \<and> vm_locs s ! 0 = L_Pause_Wait \<and> vm_state s = kControlStatePaused"
  by (simp add: eval_nat_numeral step_defs)


theorem vm_confined_witness:
  "\<exists>s. vm_run sample_config sample_vm [Typed [0x68], Thread 0 (sample_reading 0 0)] = Some s \<and> machine_ok (vm_m s) \<and>
     disk_protected sample_disk (b_disk (m_blks (vm_m s) ! 0))"
proof -
  obtain s where s: "vm_run sample_config sample_vm [Typed [0x68], Thread 0 (sample_reading 0 0)] = Some s" by (simp add: step_defs)
  have "vm_run sample_config s [] = Some s" by simp
  from vm_confined [OF _ _ s [unfolded sample_vm_def sample_machine_def] this] sample_host_ok s show ?thesis by fastforce
qed

lemma ext_frame [simp]: "vm_ext_ms (put_irq i v s) = vm_ext_ms s" "vm_ext_ms (pre_run c i s) = vm_ext_ms s"
  by (simp_all add: put_irq_def pre_run_def Let_def case_prod_beta)

text \<open>The write to the exit port, on any state of the devices.\<close>

lemma exit_dispatch:
  "dispatch sample_config (sample_reading k now) 0 exit_access s = Some (s\<lparr>vm_m := (vm_m s)\<lparr>m_exit := \<lparr>ge_requested = True, ge_status = 0\<rparr>\<rparr>, vm_p := \<lambda>_ _. 0\<rparr>,
     L_Cas ''guest-exit'' X64IoPortAccess (returned 0))"
  by (simp add: dispatch_def exit_access_def io_exit_def sample_reading_def PrepareWhpIoContext_def GetRegister64_def CheckSome_def
      plain_reg_api_def sample_io_def EmulatorIoPort_def kNodeVmmExitPort_def kNodeVmmConsolePort_def io_exit_done_def Let_def)

lemma sample_entry:
  "\<exists>s. vm_run sample_config sample_vm (replicate 6 (Thread 0 (sample_reading 0 0))) = Some s \<and> vm_locs s = [L_Dispatch exit_access, W_Loop] \<and>
     \<not> vm_done s \<and> \<not> vm_timeout s \<and> \<not> vm_wd_done s \<and> vm_errors s = [] \<and> vm_error s = [] \<and> vm_ext_ms s = 0"
  by (simp add: eval_nat_numeral thread_step_def command_of_def source_consts run_returned_def sample_reading_def)

lemma sample_exit:
  assumes "vm_locs s = [L_Dispatch exit_access, W_Loop]" "\<not> vm_done s" "\<not> vm_timeout s" "\<not> vm_wd_done s" "vm_errors s = []" "vm_error s = []"
    "vm_ext_ms s = 0"
  shows "\<exists>s'. vm_run sample_config s (replicate 3 (Thread 0 (sample_reading 0 0))) = Some s' \<and>
    vm_locs s' = [L_Cas ''host-stop'' Canceled L_Join, W_Loop] \<and> vm_done s' \<and> \<not> vm_timeout s' \<and> \<not> vm_wd_done s' \<and> vm_errors s' = [] \<and>
    vm_error s' = [] \<and> vm_ext_ms s' = 0 \<and> vm_first s' = Some (''guest-exit'', X64IoPortAccess)"
  using assms by (simp add: eval_nat_numeral thread_step_def exit_dispatch returned_def cancel_all_def)

lemma sample_late:
  assumes "vm_locs s = [l, W_Loop]" "\<not> vm_timeout s" "\<not> vm_wd_done s" "vm_ext_ms s = 0"
  shows "vm_run sample_config s (replicate 4 (Thread 1 (sample_reading 0 2000000000))) =
    Some (cancel_all (s\<lparr>vm_locs := [l, W_Cancel], vm_timeout := True\<rparr>)\<lparr>vm_locs := [l, W_End]\<rparr>)"
  using assms by (simp add: eval_nat_numeral thread_step_def command_of_def sample_reading_def source_consts deadline_passed_def cancel_all_def)

text \<open>A guest that has ended can still be reported as timed out. The watchdog does not look at vm_done: here the guest asks for its end and
  its processor calls finish first, with the reason guest-exit and without any error; the deadline passes before the main thread stops the watchdog, and
  the result is the timeout.\<close>
theorem late_timeout_hides_exit:
  "\<exists>es s. vm_run sample_config sample_vm es = Some s \<and> vm_first s = Some (''guest-exit'', X64IoPortAccess) \<and> vm_errors s = [] \<and>
     vm_locs s ! 0 = L_Result (Inl (timeout_message sample_config))"
proof -
  let ?t = "Thread 0 (sample_reading 0 0)" and ?w = "Thread 1 (sample_reading 0 2000000000)"
  obtain s where s: "vm_run sample_config sample_vm (replicate 6 ?t) = Some s" "vm_locs s = [L_Dispatch exit_access, W_Loop]"
      "\<not> vm_done s" "\<not> vm_timeout s" "\<not> vm_wd_done s" "vm_errors s = []" "vm_error s = []" "vm_ext_ms s = 0" using sample_entry by blast
  obtain s' where s': "vm_run sample_config s (replicate 3 ?t) = Some s'"
      "vm_locs s' = [L_Cas ''host-stop'' Canceled L_Join, W_Loop]" "vm_done s'" "\<not> vm_timeout s'" "\<not> vm_wd_done s'" "vm_errors s' = []" "vm_error s' = []"
      "vm_ext_ms s' = 0" "vm_first s' = Some (''guest-exit'', X64IoPortAccess)" using sample_exit [OF s(2-8)] by blast
  define late where "late = cancel_all (s'\<lparr>vm_locs := [L_Cas ''host-stop'' Canceled L_Join, W_Cancel], vm_timeout := True\<rparr>)
      \<lparr>vm_locs := [L_Cas ''host-stop'' Canceled L_Join, W_End]\<rparr>"
  have w: "vm_run sample_config s' (replicate 4 ?w) = Some late" unfolding late_def by (rule sample_late [OF s'(2,4,5,8)])
  have l: "vm_locs late = [L_Cas ''host-stop'' Canceled L_Join, W_End]" "vm_done late" "vm_timeout late" "vm_errors late = []" "vm_error late = []"
      "vm_first late = Some (''guest-exit'', X64IoPortAccess)" using s' by (simp_all add: late_def)
  have "\<exists>s''. vm_run sample_config late (replicate 5 ?t) = Some s'' \<and> vm_first s'' = Some (''guest-exit'', X64IoPortAccess) \<and> vm_errors s'' = [] \<and>
      vm_locs s'' ! 0 = L_Result (Inl (timeout_message sample_config))"
    using l by (simp add: eval_nat_numeral thread_step_def set_state_def deliver_result_def make_result_def Let_def)
  then obtain s'' where s'': "vm_run sample_config late (replicate 5 ?t) = Some s''" "vm_first s'' = Some (''guest-exit'', X64IoPortAccess)"
      "vm_errors s'' = []" "vm_locs s'' ! 0 = L_Result (Inl (timeout_message sample_config))" by blast
  have "vm_run sample_config sample_vm (replicate 6 ?t @ replicate 3 ?t @ replicate 4 ?w @ replicate 5 ?t) = Some s''"
    by (simp only: vm_run_append s(1) s'(1) w s''(1) Option.bind.bind_lunit)
  with s''(2-4) show ?thesis by blast
qed

end
