(* ===== verification/Host_Input.thy ===== *)
theory Host_Input
  imports Uart_Proofs
begin

text \<open>
  The way of typed bytes into the guest (native/whp/backend.cc, RunVm: deliver_uart_input, queue_host_input, the control handler, the input
  thread and the pump thread). The input thread reads the host's console or pipe and queues what it has read; the pump thread takes chunks from the
  queue and offers them to the receiver of the serial port; a control handler puts an interrupt character at
  the front of the queue. A section under host_input_mu or device_mu is one step of the relation \<open>input_step\<close>.
  Bytes of the queue carry a mark that tells the interrupt characters of the control handler from typed bytes; \<open>ip_typed\<close>,
  \<open>ip_sent\<close>, \<open>ip_read\<close> and \<open>ip_lost\<close> record history: what was handed to the queue, what the receiver accepted, what the guest has read,
  and whether the queue has dropped typed bytes.
\<close>

definition kHostInputQueueLimit :: nat where "kHostInputQueueLimit = 1024 * 1024"
definition kHostInputPumpChunk :: nat where "kHostInputPumpChunk = 256"

type_synonym marked = "(bool \<times> u8) list"

record input_path =
  ip_reader :: "bytes option"
  ip_queue :: marked
  ip_chunk :: marked
  ip_done :: bool
  ip_uart :: uart
  ip_typed :: bytes
  ip_sent :: marked
  ip_read :: bytes
  ip_lost :: bool

text \<open>deliver_console_bytes: a carriage return before a line feed in the same buffer is dropped.\<close>

fun normalize_input :: "bytes \<Rightarrow> bytes" where
  "normalize_input (x # y # bs) = (if x = 0x0D \<and> y = 0x0A then 0x0A # normalize_input bs else x # normalize_input (y # bs))"
| "normalize_input bs = bs"

text \<open>queue_host_input at the front, for one byte: the newest bytes give way.\<close>

definition queue_front :: "u8 \<Rightarrow> input_path \<Rightarrow> input_path" where
  "queue_front b s =
    (let keep = min (length (ip_queue s)) (kHostInputQueueLimit - 1)
     in s\<lparr>ip_queue := (True, b) # take keep (ip_queue s), ip_lost := ip_lost s \<or> keep < length (ip_queue s)\<rparr>)"

text \<open>queue_host_input at the back; None while it waits. After the end the bytes are dropped.\<close>

definition queue_back :: "bytes \<Rightarrow> input_path \<Rightarrow> input_path option" where
  "queue_back bs s =
    (if ip_done s then Some (s\<lparr>ip_reader := None, ip_lost := True\<rparr>)
     else if length (ip_queue s) + length bs \<le> kHostInputQueueLimit
     then Some (s\<lparr>ip_reader := None, ip_queue := ip_queue s @ map (Pair False) bs\<rparr>) else None)"

text \<open>The pump takes a chunk.\<close>

definition pump_take :: "input_path \<Rightarrow> input_path" where
  "pump_take s = (let k = min kHostInputPumpChunk (length (ip_queue s)) in s\<lparr>ip_chunk := take k (ip_queue s), ip_queue := drop k (ip_queue s)\<rparr>)"

text \<open>A round of deliver_uart_input.\<close>

definition deliver_round :: "input_path \<Rightarrow> input_path" where
  "deliver_round s =
    (case enqueue_rx (ip_uart s) (map snd (ip_chunk s)) of (u, accepted) \<Rightarrow>
       s\<lparr>ip_uart := u, ip_chunk := drop accepted (ip_chunk s), ip_sent := ip_sent s @ take accepted (ip_chunk s)\<rparr>)"

inductive input_step :: "input_path \<Rightarrow> input_path \<Rightarrow> bool" where
  read_console: "\<lbrakk>ip_reader s = None; \<not> ip_done s; 0 < length buf; length buf \<le> 4096\<rbrakk>
    \<Longrightarrow> input_step s (s\<lparr>ip_reader := Some (normalize_input buf), ip_typed := ip_typed s @ normalize_input buf\<rparr>)"
| read_pipe: "\<lbrakk>ip_reader s = None; \<not> ip_done s; byte \<noteq> 0x0D\<rbrakk>
    \<Longrightarrow> input_step s (s\<lparr>ip_reader := Some [byte], ip_typed := ip_typed s @ [byte]\<rparr>)"
| enqueue: "\<lbrakk>ip_reader s = Some bs; queue_back bs s = Some s'\<rbrakk> \<Longrightarrow> input_step s s'"
| ctrl_c: "input_step s (queue_front 0x03 s)"
| take_chunk: "\<lbrakk>ip_chunk s = []; \<not> ip_done s; ip_queue s \<noteq> []\<rbrakk> \<Longrightarrow> input_step s (pump_take s)"
| deliver: "\<lbrakk>ip_chunk s \<noteq> []; \<not> ip_done s\<rbrakk> \<Longrightarrow> input_step s (deliver_round s)"
| guest_read: "\<lbrakk>rx_stream (ip_uart s) \<noteq> []; uart_read (ip_uart s) 0 = (x, u)\<rbrakk>
    \<Longrightarrow> input_step s (s\<lparr>ip_uart := u, ip_read := ip_read s @ [x]\<rparr>)"
| stop: "input_step s (s\<lparr>ip_done := True\<rparr>)"

definition input_init :: "uart \<Rightarrow> input_path" where
  "input_init u = \<lparr>ip_reader = None, ip_queue = [], ip_chunk = [], ip_done = False, ip_uart = u, ip_typed = [], ip_sent = [], ip_read = [], ip_lost = False\<rparr>"

section \<open>Nothing is lost or overtaken\<close>

text \<open>The typed bytes of a marked list.\<close>

definition typed_of :: "marked \<Rightarrow> bytes" where
  "typed_of q = map snd (filter (\<lambda>(c, _). \<not> c) q)"

lemma typed_of_append [simp]: "typed_of (p @ q) = typed_of p @ typed_of q" "typed_of ((True, b) # q) = typed_of q" "typed_of [] = []"
  by (simp_all add: typed_of_def)

lemma typed_of_one [simp]: "typed_of [(False, b)] = [b]"
  by (simp add: typed_of_def)

lemma typed_of_pairs [simp]: "typed_of (map (Pair False) bs) = bs"
  by (induction bs) (simp_all add: typed_of_def)

lemma typed_of_split: "typed_of (take k q) @ typed_of (drop k q) @ z = typed_of q @ z"
  by (metis append.assoc append_take_drop_id typed_of_append(1))

definition in_flight :: "input_path \<Rightarrow> marked" where
  "in_flight s = ip_chunk s @ ip_queue s @ (case ip_reader s of None \<Rightarrow> [] | Some bs \<Rightarrow> map (Pair False) bs)"

definition input_inv :: "input_path \<Rightarrow> bool" where
  "input_inv s \<longleftrightarrow> rx_ok (ip_uart s) \<and> u_lcr (ip_uart s) AND 0x80 = 0 \<and> ip_read s @ rx_stream (ip_uart s) = map snd (ip_sent s) \<and>
     (ip_lost s \<or> typed_of (ip_sent s @ in_flight s) = ip_typed s) \<and>
     length (ip_queue s) \<le> kHostInputQueueLimit \<and> length (ip_chunk s) \<le> kHostInputPumpChunk \<and> (\<forall>bs. ip_reader s = Some bs \<longrightarrow> length bs \<le> 4096)"

lemma length_normalize_input: "length (normalize_input bs) \<le> length bs"
  by (induction bs rule: normalize_input.induct) auto

lemma input_step_inv: "input_step s s' \<Longrightarrow> input_inv s \<Longrightarrow> input_inv s'"
proof (induction rule: input_step.induct)
  case (read_console s buf)
  then show ?case using length_normalize_input [of buf] by (auto simp: input_inv_def in_flight_def)
next
  case (enqueue s bs s')
  then show ?case by (auto simp: input_inv_def in_flight_def queue_back_def split: if_splits)
next
  case (ctrl_c s)
  show ?case
  proof (cases "length (ip_queue s) \<le> kHostInputQueueLimit - 1")
    case True
    then have "min (length (ip_queue s)) (kHostInputQueueLimit - 1) = length (ip_queue s)" by simp
    then show ?thesis using ctrl_c True by (auto simp: input_inv_def in_flight_def queue_front_def Let_def kHostInputQueueLimit_def)
  qed (use ctrl_c in \<open>auto simp: input_inv_def in_flight_def queue_front_def Let_def kHostInputQueueLimit_def\<close>)
next
  case (take_chunk s)
  then show ?case by (auto simp: input_inv_def in_flight_def pump_take_def Let_def typed_of_split)
next
  case (deliver s)
  obtain u k where e: "enqueue_rx (ip_uart s) (map snd (ip_chunk s)) = (u, k)" by fastforce
  from rx.put_law [OF _ e] deliver(3) have u: "rx_ok u" "u_lcr u AND 0x80 = 0" "rx_stream u = rx_stream (ip_uart s) @ take k (map snd (ip_chunk s))"
    by (simp_all add: input_inv_def)
  then show ?case using deliver by (auto simp: input_inv_def in_flight_def deliver_round_def e take_map typed_of_split)
next
  case (guest_read s x u)
  then show ?case using rx.get_law [of "ip_uart s" x u] by (auto simp: input_inv_def in_flight_def)
qed (auto simp: input_inv_def in_flight_def)


lemma input_run_inv: "input_step\<^sup>*\<^sup>* s s' \<Longrightarrow> input_inv s \<Longrightarrow> input_inv s'"
  by (induction rule: rtranclp_induct) (auto intro: input_step_inv)

lemma input_init_inv: "uart_ok u \<Longrightarrow> rx_stream u = [] \<Longrightarrow> u_lcr u AND 0x80 = 0 \<Longrightarrow> input_inv (input_init u)"
  by (simp add: input_inv_def input_init_def in_flight_def uart_ok_def)

section \<open>Everything can arrive\<close>

text \<open>The bytes on their way, counted by how far they still have to go.\<close>

definition distance :: "input_path \<Rightarrow> nat" where
  "distance s = 4 * (case ip_reader s of None \<Rightarrow> 0 | Some bs \<Rightarrow> Suc (length bs)) + 3 * length (ip_queue s) + 2 * length (ip_chunk s) +
     length (rx_stream (ip_uart s))"

lemma input_progress:
  assumes "input_inv s" and "\<not> ip_done s" and "distance s \<noteq> 0"
  shows "\<exists>s'. input_step s s' \<and> distance s' < distance s \<and> \<not> ip_done s' \<and> ip_typed s' = ip_typed s \<and> ip_lost s' = ip_lost s"
proof (cases "rx_stream (ip_uart s) = []")
  case False
  obtain x u where r: "uart_read (ip_uart s) 0 = (x, u)" by fastforce
  have "rx_stream (ip_uart s) = x # rx_stream u" using rx.get_law [OF _ False r] assms(1) by (simp add: input_inv_def)
  then show ?thesis using input_step.guest_read [OF False r] assms(2)
    by (intro exI [of _ "s\<lparr>ip_uart := u, ip_read := ip_read s @ [x]\<rparr>"]) (auto simp: distance_def)
next
  case empty: True
  show ?thesis
  proof (cases "ip_chunk s = []")
    case False
    obtain u k where e: "enqueue_rx (ip_uart s) (map snd (ip_chunk s)) = (u, k)" by fastforce
    have k: "k = min (length (ip_chunk s)) kRxCapacity" "rx_stream u = take k (map snd (ip_chunk s))"
      using rx.put_law [OF _ e] assms(1) empty by (simp_all add: input_inv_def)
    then have "0 < k" "k \<le> length (ip_chunk s)" using False by (auto simp: kRxCapacity_def)
    then show ?thesis using input_step.deliver [OF False assms(2)] k(2) empty assms(2)
      by (intro exI [of _ "deliver_round s"]) (auto simp: distance_def deliver_round_def e)
  next
    case chunk: True
    show ?thesis
    proof (cases "ip_queue s = []")
      case False
      let ?k = "min kHostInputPumpChunk (length (ip_queue s))"
      have "0 < ?k" "?k \<le> length (ip_queue s)" using False by (auto simp: kHostInputPumpChunk_def)
      then show ?thesis using input_step.take_chunk [OF chunk assms(2) False] chunk assms(2)
        by (intro exI [of _ "pump_take s"]) (auto simp: distance_def pump_take_def Let_def min_def)
    next
      case True
      then obtain bs where bs: "ip_reader s = Some bs" using assms(3) chunk empty by (auto simp: distance_def split: option.splits)
      then have "length bs \<le> kHostInputQueueLimit" using assms(1) by (auto simp: input_inv_def kHostInputQueueLimit_def)
      then have "queue_back bs s = Some (s\<lparr>ip_reader := None, ip_queue := map (Pair False) bs\<rparr>)" using assms(2) True by (simp add: queue_back_def)
      from input_step.enqueue [OF bs this] show ?thesis using bs True assms(2)
        by (intro exI [of _ "s\<lparr>ip_reader := None, ip_queue := map (Pair False) bs\<rparr>"]) (auto simp: distance_def)
    qed
  qed
qed

lemma input_drains:
  assumes "input_inv s" and "\<not> ip_done s"
  shows "\<exists>s'. input_step\<^sup>*\<^sup>* s s' \<and> distance s' = 0 \<and> ip_typed s' = ip_typed s \<and> ip_lost s' = ip_lost s"
  using assms
proof (induction "distance s" arbitrary: s rule: less_induct)
  case less
  show ?case
  proof (cases "distance s = 0")
    case False
    obtain s1 where s1: "input_step s s1" "distance s1 < distance s" "\<not> ip_done s1" "ip_typed s1 = ip_typed s" "ip_lost s1 = ip_lost s"
      using input_progress [OF less.prems False] by blast
    obtain s' where "input_step\<^sup>*\<^sup>* s1 s'" "distance s' = 0" "ip_typed s' = ip_typed s1" "ip_lost s' = ip_lost s1"
      using less.hyps [OF s1(2) input_step_inv [OF s1(1) less.prems(1)] s1(3)] by blast
    then show ?thesis using s1 by (intro exI [of _ s']) (auto intro: converse_rtranclp_into_rtranclp)
  qed auto
qed

text \<open>The user has typed h and Enter at a fresh serial port.\<close>

definition sample_uart :: uart where
  "sample_uart = uart_init 100 False False None"

definition sample_input :: input_path where
  "sample_input = (input_init sample_uart)\<lparr>ip_reader := Some [0x68, 0x0A], ip_typed := [0x68, 0x0A]\<rparr>"

lemma sample_input_ok:
  "uart_ok sample_uart" "rx_stream sample_uart = []" "u_lcr sample_uart AND 0x80 = 0" "input_step\<^sup>*\<^sup>* (input_init sample_uart) sample_input"
proof -
  show "uart_ok sample_uart" by (simp add: sample_uart_def uart_init_ok)
  show "rx_stream sample_uart = []" "u_lcr sample_uart AND 0x80 = 0"
    by (simp_all add: sample_uart_def uart_init_def rx_stream_def dr_def fifo_enabled_def source_consts)
  have "input_step (input_init sample_uart) sample_input"
    using input_step.read_console [of "input_init sample_uart" "[0x68, 0x0D, 0x0A]"] by (simp add: sample_input_def input_init_def)
  then show "input_step\<^sup>*\<^sup>* (input_init sample_uart) sample_input" by blast
qed



text \<open>No typed byte is stuck. From every reachable state of the input path that has not been stopped, the pump and a guest that reads
  its data register can bring everything in: there is a continuation without new input after which nothing is on its way, and the guest has read
  all that the pump sent, in particular every typed byte if the queue dropped none.\<close>
theorem typed_bytes_arrive:
  assumes "uart_ok u" and "rx_stream u = []" and "u_lcr u AND 0x80 = 0" and "input_step\<^sup>*\<^sup>* (input_init u) s" and "\<not> ip_done s"
  shows "\<exists>s'. input_step\<^sup>*\<^sup>* s s' \<and> in_flight s' = [] \<and> ip_typed s' = ip_typed s \<and> ip_read s' = map snd (ip_sent s') \<and>
    (ip_lost s \<or> typed_of (ip_sent s') = ip_typed s)"
proof -
  have i: "input_inv s" by (rule input_run_inv [OF assms(4) input_init_inv [OF assms(1-3)]])
  obtain s' where s': "input_step\<^sup>*\<^sup>* s s'" "distance s' = 0" "ip_typed s' = ip_typed s" "ip_lost s' = ip_lost s"
    using input_drains [OF i assms(5)] by blast
  have "in_flight s' = []" "rx_stream (ip_uart s') = []" using s'(2) by (auto simp: distance_def in_flight_def split: option.splits)
  with input_run_inv [OF s'(1) i] s' show ?thesis by (intro exI [of _ s']) (auto simp: input_inv_def)
qed


theorem typed_bytes_arrive_witness:
  "\<exists>s'. input_step\<^sup>*\<^sup>* sample_input s' \<and> in_flight s' = [] \<and> typed_of (ip_sent s') = [0x68, 0x0A] \<and> ip_read s' = map snd (ip_sent s')"
  using typed_bytes_arrive [OF sample_input_ok] by (auto simp: sample_input_def input_init_def)

end
