(* ===== verification/Guest_Console.thy ===== *)
theory Guest_Console
  imports Uart_Proofs
begin

unbundle bit_operations_syntax

text \<open>
  The program that carries the terminal inside the guest (src/guest/node-vmm-console.cc): it owns the first serial port, runs the shell of the
  user on a pseudo terminal, and copies bytes between the two. The ports are a record \<open>ports\<close> on an abstract device, the calls of the guest's kernel a record
  \<open>guest_os\<close> on its state. The device is then the serial port that the Windows backend models, so that the program and the device are
  proved together. The copying loops are without a bound in the source, so they are partial functions here.
\<close>

section \<open>What the program calls\<close>

record 'd ports =
  p_inb :: "'d \<Rightarrow> u16 \<Rightarrow> u8 \<times> 'd"
  p_outb :: "'d \<Rightarrow> u8 \<Rightarrow> u16 \<Rightarrow> 'd"

text \<open>read returns data, or fails with EINTR or EAGAIN, or ends in another way; write takes the byte, or fails; poll returns, or fails.\<close>

datatype read_result = Got bytes | Read_Again | Read_End
datatype write_result = Wrote | Write_Eintr | Write_Again | Write_Fail
datatype poll_result = Polled | Poll_Eintr | Poll_Fail
datatype wait_status = Exited nat | Signaled nat | Other_Status

record 'k guest_os =
  g_poll :: "'k \<Rightarrow> nat \<Rightarrow> poll_result \<times> 'k"
  g_read :: "'k \<Rightarrow> read_result \<times> 'k"
  g_write :: "'k \<Rightarrow> u8 \<Rightarrow> write_result \<times> 'k"
  g_poll_out :: "'k \<Rightarrow> 'k"
  g_waitpid :: "'k \<Rightarrow> wait_status option \<times> 'k"

section \<open>The serial port\<close>

definition kCom1 :: u16 where [source_consts]: "kCom1 = 0x3f8"
definition kRbr :: u16 where [source_consts]: "kRbr = 0"
definition kThr :: u16 where [source_consts]: "kThr = 0"
definition kIer :: u16 where [source_consts]: "kIer = 1"
definition kFcr :: u16 where [source_consts]: "kFcr = 2"
definition kLcr :: u16 where [source_consts]: "kLcr = 3"
definition kMcr :: u16 where [source_consts]: "kMcr = 4"
definition kLsr :: u16 where [source_consts]: "kLsr = 5"
definition kIdlePollMs :: nat where "kIdlePollMs = 20"
definition kExitDrainPollMs :: nat where "kExitDrainPollMs = 10"
definition kExitDrainPolls :: nat where "kExitDrainPolls = 5"

definition serial_init :: "'d ports \<Rightarrow> 'd \<Rightarrow> 'd" where
  "serial_init dev d =
    (let d = p_outb dev d 0x00 (kCom1 + kIer);
         d = p_outb dev d 0x80 (kCom1 + kLcr);
         d = p_outb dev d 0x01 (kCom1 + 0);
         d = p_outb dev d 0x00 (kCom1 + 1);
         d = p_outb dev d 0x03 (kCom1 + kLcr);
         d = p_outb dev d 0x01 (kCom1 + kFcr)
     in p_outb dev d 0x03 (kCom1 + kMcr))"

text \<open>The loop of serial_write_byte, \<open>n\<close> rounds before its end; the byte is written in any case.\<close>

fun write_when_ready :: "'d ports \<Rightarrow> u8 \<Rightarrow> nat \<Rightarrow> 'd \<Rightarrow> 'd" where
  "write_when_ready dev b 0 d = p_outb dev d b (kCom1 + kThr)"
| "write_when_ready dev b (Suc n) d =
    (case p_inb dev d (kCom1 + kLsr) of (v, d) \<Rightarrow>
       if v AND 0x20 \<noteq> 0 then p_outb dev d b (kCom1 + kThr) else write_when_ready dev b n d)"

definition serial_write_byte :: "'d ports \<Rightarrow> u8 \<Rightarrow> 'd \<Rightarrow> 'd" where
  "serial_write_byte dev b d = write_when_ready dev b 100000 d"

text \<open>The second component is g_last_serial_byte.\<close>

fun serial_write :: "'d ports \<Rightarrow> bytes \<Rightarrow> 'd \<times> u8 \<Rightarrow> 'd \<times> u8" where
  "serial_write dev [] s = s"
| "serial_write dev (b # bs) (d, last_byte) =
    (let d = (if b = 0x0A \<and> last_byte \<noteq> 0x0D then serial_write_byte dev 0x0D d else d)
     in serial_write dev bs (serial_write_byte dev b d, b))"

section \<open>The size of the terminal\<close>

text \<open>strtol of the C library in base 10: the white space, a sign, the digits, the value held at the limits of long; if there is no
  digit the end is the beginning.\<close>

definition is_space :: "char \<Rightarrow> bool" where
  "is_space c \<longleftrightarrow> c = CHR '' '' \<or> (9 \<le> (of_char c :: nat) \<and> (of_char c :: nat) \<le> 13)"

definition is_digit :: "char \<Rightarrow> bool" where
  "is_digit c \<longleftrightarrow> 48 \<le> (of_char c :: nat) \<and> (of_char c :: nat) \<le> 57"

definition strtol :: "string \<Rightarrow> int \<times> string" where
  "strtol raw =
    (let s = dropWhile is_space raw;
         neg = (s \<noteq> [] \<and> hd s = CHR ''-'');
         s = (if s \<noteq> [] \<and> hd s \<in> {CHR ''-'', CHR ''+''} then tl s else s);
         digits = takeWhile is_digit s;
         n = foldl (\<lambda>n c. 10 * n + (of_char c - 48)) 0 digits :: int;
         n = (if neg then - n else n)
     in if digits = [] then (0, raw) else (max (- (2 ^ 63)) (min (2 ^ 63 - 1) n), dropWhile is_digit s))"

definition env_ushort :: "string option \<Rightarrow> u16 \<Rightarrow> u16" where
  "env_ushort raw fallback =
    (case raw of None \<Rightarrow> fallback
     | Some raw \<Rightarrow> if raw = [] then fallback
         else case strtol raw of (parsed, rest) \<Rightarrow>
           if rest = raw \<or> rest \<noteq> [] \<or> parsed \<le> 0 \<or> 1000 < parsed then fallback else of_int parsed)"

text \<open>ws_col and ws_row, from NODE_VMM_TTY_COLS and NODE_VMM_TTY_ROWS.\<close>

definition env_winsize :: "string option \<Rightarrow> string option \<Rightarrow> u16 \<times> u16" where
  "env_winsize cols rows = (env_ushort cols 80, env_ushort rows 24)"

section \<open>The copying loop\<close>

fun write_master_byte :: "'k guest_os \<Rightarrow> u8 \<Rightarrow> nat \<Rightarrow> 'k \<Rightarrow> bool \<times> 'k" where
  "write_master_byte os ch 0 k = (False, k)"
| "write_master_byte os ch (Suc attempts) k =
    (case g_write os k ch of (r, k) \<Rightarrow>
       (case r of Wrote \<Rightarrow> (True, k) | Write_Eintr \<Rightarrow> write_master_byte os ch attempts k
        | Write_Again \<Rightarrow> write_master_byte os ch attempts (g_poll_out os k) | Write_Fail \<Rightarrow> (False, k)))"

fun child_status_code :: "wait_status \<Rightarrow> nat" where
  "child_status_code (Exited n) = n"
| "child_status_code (Signaled n) = 128 + n"
| "child_status_code Other_Status = 1"

text \<open>The variables of main. \<open>cp_taken\<close> records what has been read from the shell, \<open>cp_typed\<close> what has been read from the serial port, with whether the
  pseudo terminal took it.\<close>

record ('d, 'k) console_prog =
  cp_dev :: 'd
  cp_os :: 'k
  cp_last :: u8
  cp_status :: wait_status
  cp_child_done :: bool
  cp_drain_ticks :: nat
  cp_did_work :: bool
  cp_taken :: bytes
  cp_typed :: "(u8 \<times> bool) list"

text \<open>The inner loop over read.\<close>

partial_function (option) drain_master ::
  "'k guest_os \<Rightarrow> 'd ports \<Rightarrow> ('d, 'k) console_prog \<Rightarrow> ('d, 'k) console_prog option" where
  "drain_master os dev s =
    (case g_read os (cp_os s) of (r, k) \<Rightarrow>
       (case r of
          Got bs \<Rightarrow> if bs = [] then Some (s\<lparr>cp_os := k\<rparr>)
            else (case serial_write dev bs (cp_dev s, cp_last s) of (d, l) \<Rightarrow>
              drain_master os dev (s\<lparr>cp_dev := d, cp_last := l, cp_os := k, cp_drain_ticks := 0, cp_did_work := True, cp_taken := cp_taken s @ bs\<rparr>))
        | Read_Again \<Rightarrow> Some (s\<lparr>cp_os := k\<rparr>)
        | Read_End \<Rightarrow> Some (s\<lparr>cp_os := k\<rparr>)))"

text \<open>The loop over the received bytes, \<open>n\<close> rounds before its end. The result of write_master_byte is not looked at.\<close>

fun pump_input :: "'k guest_os \<Rightarrow> 'd ports \<Rightarrow> nat \<Rightarrow> ('d, 'k) console_prog \<Rightarrow> ('d, 'k) console_prog" where
  "pump_input os dev 0 s = s"
| "pump_input os dev (Suc n) s =
    (case p_inb dev (cp_dev s) (kCom1 + kLsr) of (v, d) \<Rightarrow>
       if v AND 0x01 = 0 then s\<lparr>cp_dev := d\<rparr>
       else case p_inb dev d (kCom1 + kRbr) of (ch, d) \<Rightarrow>
         case write_master_byte os ch 1000 (cp_os s) of (ok, k) \<Rightarrow>
           pump_input os dev n (s\<lparr>cp_dev := d, cp_os := k, cp_did_work := True, cp_typed := cp_typed s @ [(ch, ok)]\<rparr>))"

text \<open>The end of a round: has the child ended, or has the program been idle for long enough? True: break.\<close>

definition check_child :: "'k guest_os \<Rightarrow> ('d, 'k) console_prog \<Rightarrow> bool \<times> ('d, 'k) console_prog" where
  "check_child os s =
    (if \<not> cp_child_done s
     then case g_waitpid os (cp_os s) of (rc, k) \<Rightarrow>
       (False, case rc of None \<Rightarrow> s\<lparr>cp_os := k\<rparr> | Some status \<Rightarrow> s\<lparr>cp_os := k, cp_status := status, cp_child_done := True\<rparr>)
     else if \<not> cp_did_work s
     then let s = s\<lparr>cp_drain_ticks := cp_drain_ticks s + 1\<rparr> in (kExitDrainPolls \<le> cp_drain_ticks s, s)
     else (False, s))"

text \<open>A round of the outer loop. None: it does not end.\<close>

definition console_round :: "'k guest_os \<Rightarrow> 'd ports \<Rightarrow> ('d, 'k) console_prog \<Rightarrow> (bool \<times> ('d, 'k) console_prog) option" where
  "console_round os dev s =
    (case g_poll os (cp_os s) (if cp_child_done s then kExitDrainPollMs else kIdlePollMs) of (prc, k) \<Rightarrow>
       let s = s\<lparr>cp_os := k, cp_did_work := False\<rparr>
       in if prc = Poll_Fail then Some (True, s)
          else Option.bind (drain_master os dev s) (\<lambda>s. Some (check_child os (pump_input os dev 512 s))))"

partial_function (option) console_loop ::
  "'k guest_os \<Rightarrow> 'd ports \<Rightarrow> ('d, 'k) console_prog \<Rightarrow> ('d, 'k) console_prog option" where
  "console_loop os dev s =
    Option.bind (console_round os dev s) (\<lambda>(stop, s). if stop then Some s else console_loop os dev s)"

text \<open>main after the start of the child: the loop, and the exit code of the program.\<close>

definition console_start :: "'d ports \<Rightarrow> 'd \<Rightarrow> 'k \<Rightarrow> ('d, 'k) console_prog" where
  "console_start dev d k = \<lparr>cp_dev = serial_init dev d, cp_os = k, cp_last = 0, cp_status = Exited 0, cp_child_done = False, cp_drain_ticks = 0,
     cp_did_work = False, cp_taken = [], cp_typed = []\<rparr>"

definition console_main :: "'k guest_os \<Rightarrow> 'd ports \<Rightarrow> 'd \<Rightarrow> 'k \<Rightarrow> (nat \<times> ('d, 'k) console_prog) option" where
  "console_main os dev d k = map_option (\<lambda>s. (child_status_code (cp_status s), s)) (console_loop os dev (console_start dev d k))"

lemma write_at_once:
  "0 < n \<Longrightarrow> p_inb dev d (kCom1 + kLsr) = (v, d') \<Longrightarrow> v AND 0x20 \<noteq> 0 \<Longrightarrow> write_when_ready dev b n d = p_outb dev d' b (kCom1 + kThr)"
  by (cases n) simp_all

section \<open>What the program relies on of its serial port\<close>

text \<open>\<open>ready l d\<close>: the port is set up, and \<open>l\<close> is the last byte written to it or a byte other than a carriage return. \<open>out\<close> is what has
  been taken for the other end. A device may answer a query of the cursor position itself instead of passing it on.\<close>

locale serial_line =
  fixes dev :: "'d ports" and ready :: "u8 \<Rightarrow> 'd \<Rightarrow> bool" and out :: "'d \<Rightarrow> bytes"
  assumes lsr_ready: "ready l d \<Longrightarrow> fst (p_inb dev d (kCom1 + kLsr)) AND 0x20 \<noteq> 0"
    and inb_keeps: "ready l d \<Longrightarrow> off = kRbr \<or> off = kLsr \<Longrightarrow>
      ready l (snd (p_inb dev d (kCom1 + off))) \<and> out (snd (p_inb dev d (kCom1 + off))) = out d"
    and outb_sends: "ready l d \<Longrightarrow> \<not> suffix cursor_query (out d @ [b]) \<Longrightarrow> b = 0x0A \<longrightarrow> l = 0x0D \<Longrightarrow>
      ready b (p_outb dev d b (kCom1 + kThr)) \<and> out (p_outb dev d b (kCom1 + kThr)) = out d @ [b]"
begin

lemma write_byte:
  assumes "ready l d" and "\<not> suffix cursor_query (out d @ [b])" and "b = 0x0A \<longrightarrow> l = 0x0D"
  shows "ready b (serial_write_byte dev b d) \<and> out (serial_write_byte dev b d) = out d @ [b]"
proof -
  obtain v d' where v: "p_inb dev d (kCom1 + kLsr) = (v, d')" by fastforce
  have "v AND 0x20 \<noteq> 0" "ready l d'" "out d' = out d" using lsr_ready [OF assms(1)] inb_keeps [OF assms(1), of kLsr] v by simp_all
  moreover have "serial_write_byte dev b d = p_outb dev d' b (kCom1 + kThr)"
    unfolding serial_write_byte_def using v \<open>v AND 0x20 \<noteq> 0\<close> by (intro write_at_once) simp_all
  ultimately show ?thesis using outb_sends [of l d' b] assms(2,3) by simp
qed

text \<open>What is sent is the text with every lone line feed completed.\<close>

lemma write_text:
  "ready l d \<Longrightarrow> \<not> sublist cursor_query (out d @ fst (NormalizeCrlf bs l)) \<Longrightarrow> serial_write dev bs (d, l) = (d', l') \<Longrightarrow>
   ready l' d' \<and> out d' = out d @ fst (NormalizeCrlf bs l) \<and> l' = snd (NormalizeCrlf bs l)"
proof (induction bs arbitrary: d l)
  case (Cons b bs)
  obtain more l1 where rest: "NormalizeCrlf bs b = (more, l1)" by fastforce
  have no: "\<not> suffix cursor_query (out d @ xs)" if "prefix xs (fst (NormalizeCrlf (b # bs) l))" for xs
    using Cons.prems(2) that by (meson prefix_imp_sublist prefix_order.refl same_prefix_prefix sublist_order.order.trans suffix_imp_sublist)
  show ?case
  proof (cases "b = 0x0A \<and> l \<noteq> 0x0D")
    case True
    let ?d = "serial_write_byte dev 0x0D d"
    have cr: "ready 0x0D ?d" "out ?d = out d @ [0x0D]" using write_byte [OF Cons.prems(1), of "0x0D"] no [of "[0x0D]"] True rest by simp_all
    have b: "ready b (serial_write_byte dev b ?d)" "out (serial_write_byte dev b ?d) = out d @ [0x0D, b]"
      using write_byte [OF cr(1), of b] cr(2) no [of "[0x0D, b]"] True rest by simp_all
    show ?thesis using Cons.IH [OF b(1)] b(2) Cons.prems(2,3) True rest by (auto simp: Let_def)
  next
    case False
    have b: "ready b (serial_write_byte dev b d)" "out (serial_write_byte dev b d) = out d @ [b]"
      using write_byte [OF Cons.prems(1), of b] no [of "[b]"] False rest by auto
    show ?thesis using Cons.IH [OF b(1)] b(2) Cons.prems(2,3) False rest by (auto simp: Let_def)
  qed
qed simp

text \<open>The line holds the text of the shell so far.\<close>

definition carried :: "bytes \<Rightarrow> ('d, 'k) console_prog \<Rightarrow> bool" where
  "carried base s \<longleftrightarrow> (\<not> sublist cursor_query (base @ fst (NormalizeCrlf (cp_taken s) 0)) \<longrightarrow>
     ready (cp_last s) (cp_dev s) \<and> out (cp_dev s) = base @ fst (NormalizeCrlf (cp_taken s) 0) \<and> cp_last s = snd (NormalizeCrlf (cp_taken s) 0))"

lemma carried_fields [simp]:
  "carried base (s\<lparr>cp_os := k\<rparr>) = carried base s" "carried base (s\<lparr>cp_os := k, cp_did_work := w\<rparr>) = carried base s"
  "carried base (s\<lparr>cp_drain_ticks := n\<rparr>) = carried base s"
  "carried base (s\<lparr>cp_os := k, cp_status := st, cp_child_done := c\<rparr>) = carried base s"
  by (simp_all add: carried_def)

lemma carried_write:
  assumes "carried base s" and "serial_write dev bs (cp_dev s, cp_last s) = (d, l)"
  shows "carried base (s\<lparr>cp_dev := d, cp_last := l, cp_os := k, cp_drain_ticks := n, cp_did_work := w, cp_taken := cp_taken s @ bs\<rparr>)"
proof -
  let ?t = "fst (NormalizeCrlf (cp_taken s) 0)" and ?n = "fst (NormalizeCrlf bs (snd (NormalizeCrlf (cp_taken s) 0)))"
  have app: "fst (NormalizeCrlf (cp_taken s @ bs) 0) = ?t @ ?n"
      "snd (NormalizeCrlf (cp_taken s @ bs) 0) = snd (NormalizeCrlf bs (snd (NormalizeCrlf (cp_taken s) 0)))"
    using NormalizeCrlf_append [of "cp_taken s" bs 0] by (simp_all add: Let_def case_prod_beta)
  show ?thesis unfolding carried_def
  proof
    assume "\<not> sublist cursor_query (base @ fst (NormalizeCrlf (cp_taken (s\<lparr>cp_dev := d, cp_last := l, cp_os := k, cp_drain_ticks := n, cp_did_work := w,
        cp_taken := cp_taken s @ bs\<rparr>)) 0))"
    then have no: "\<not> sublist cursor_query ((base @ ?t) @ ?n)" by (simp add: app)
    then have "\<not> sublist cursor_query (base @ ?t)" by (meson prefixI prefix_imp_sublist sublist_order.order.trans)
    then have c: "ready (cp_last s) (cp_dev s)" "out (cp_dev s) = base @ ?t" "cp_last s = snd (NormalizeCrlf (cp_taken s) 0)"
      using assms(1) by (auto simp: carried_def)
    show "ready (cp_last (s\<lparr>cp_dev := d, cp_last := l, cp_os := k, cp_drain_ticks := n, cp_did_work := w, cp_taken := cp_taken s @ bs\<rparr>))
          (cp_dev (s\<lparr>cp_dev := d, cp_last := l, cp_os := k, cp_drain_ticks := n, cp_did_work := w, cp_taken := cp_taken s @ bs\<rparr>)) \<and>
        out (cp_dev (s\<lparr>cp_dev := d, cp_last := l, cp_os := k, cp_drain_ticks := n, cp_did_work := w, cp_taken := cp_taken s @ bs\<rparr>)) =
          base @ fst (NormalizeCrlf (cp_taken (s\<lparr>cp_dev := d, cp_last := l, cp_os := k, cp_drain_ticks := n, cp_did_work := w, cp_taken := cp_taken s @ bs\<rparr>)) 0) \<and>
        cp_last (s\<lparr>cp_dev := d, cp_last := l, cp_os := k, cp_drain_ticks := n, cp_did_work := w, cp_taken := cp_taken s @ bs\<rparr>) =
          snd (NormalizeCrlf (cp_taken (s\<lparr>cp_dev := d, cp_last := l, cp_os := k, cp_drain_ticks := n, cp_did_work := w, cp_taken := cp_taken s @ bs\<rparr>)) 0)"
      using write_text [OF c(1) _ assms(2)] no c by (auto simp: app)
  qed
qed

lemma drain_carried: "drain_master os dev s = Some s' \<Longrightarrow> carried base s \<Longrightarrow> carried base s'"
proof -
  have "dev' = dev \<longrightarrow> carried base s \<longrightarrow> carried base s'" if "drain_master os dev' s = Some s'" for dev'
  proof (rule drain_master.raw_induct [OF _ that, where P = "\<lambda>os dev' s s'. dev' = dev \<longrightarrow> carried base s \<longrightarrow> carried base s'"], intro impI)
    fix drain os dev' and s s' :: "('d, 'k) console_prog"
    assume IH: "\<And>os dev' s s'. drain os dev' s = Some s' \<Longrightarrow> dev' = dev \<longrightarrow> carried base s \<longrightarrow> carried base s'"
      and body: "(case g_read os (cp_os s) of (r, k) \<Rightarrow>
       (case r of
          Got bs \<Rightarrow> if bs = [] then Some (s\<lparr>cp_os := k\<rparr>)
            else (case serial_write dev' bs (cp_dev s, cp_last s) of (d, l) \<Rightarrow>
              drain os dev' (s\<lparr>cp_dev := d, cp_last := l, cp_os := k, cp_drain_ticks := 0, cp_did_work := True, cp_taken := cp_taken s @ bs\<rparr>))
        | Read_Again \<Rightarrow> Some (s\<lparr>cp_os := k\<rparr>)
        | Read_End \<Rightarrow> Some (s\<lparr>cp_os := k\<rparr>))) = Some s'"
      and dev: "dev' = dev" and c: "carried base s"
    obtain r k where r: "g_read os (cp_os s) = (r, k)" by fastforce
    show "carried base s'"
    proof (cases "\<exists>bs. r = Got bs \<and> bs \<noteq> []")
      case True
      then obtain bs where bs: "r = Got bs" "bs \<noteq> []" by blast
      obtain d l where w: "serial_write dev bs (cp_dev s, cp_last s) = (d, l)" by fastforce
      show ?thesis using IH carried_write [OF c w, where k = k and n = 0 and w = True] body bs by (simp add: r dev w)
    next
      case False
      then show ?thesis using body c by (cases r) (auto simp: r)
    qed
  qed
  then show "drain_master os dev s = Some s' \<Longrightarrow> carried base s \<Longrightarrow> carried base s'" by blast
qed

lemma carried_input:
  assumes "carried base s" and "p_inb dev (cp_dev s) (kCom1 + off) = (v, d)" and "off = kRbr \<or> off = kLsr"
  shows "carried base (s\<lparr>cp_dev := d\<rparr>)"
  using assms(1) inb_keeps [OF _ assms(3), of "cp_last s" "cp_dev s"] assms(2) by (auto simp: carried_def)

lemma pump_carried: "carried base s \<Longrightarrow> carried base (pump_input os dev n s)"
proof (induction n arbitrary: s)
  case (Suc n)
  obtain v d where lsr: "p_inb dev (cp_dev s) (kCom1 + kLsr) = (v, d)" by fastforce
  obtain ch d' where rbr: "p_inb dev d (kCom1 + kRbr) = (ch, d')" by fastforce
  obtain ok k where w: "write_master_byte os ch 1000 (cp_os s) = (ok, k)" by fastforce
  have 1: "carried base (s\<lparr>cp_dev := d\<rparr>)" by (rule carried_input [OF Suc.prems lsr]) simp
  have "carried base (s\<lparr>cp_dev := d, cp_dev := d'\<rparr>)" using carried_input [OF 1, of kRbr ch d'] rbr by simp
  then have "carried base (s\<lparr>cp_dev := d', cp_os := k, cp_did_work := True, cp_typed := cp_typed s @ [(ch, ok)]\<rparr>)" by (auto simp: carried_def)
  then show ?case using 1 Suc.IH by (simp add: lsr rbr w)
qed simp

lemma check_carried: "carried base s \<Longrightarrow> carried base (snd (check_child os s))"
  by (auto simp: check_child_def Let_def split: prod.split option.split)

lemma round_carried: "console_round os dev s = Some (stop, s') \<Longrightarrow> carried base s \<Longrightarrow> carried base s'"
proof -
  assume round: "console_round os dev s = Some (stop, s')" and c: "carried base s"
  obtain prc k where p: "g_poll os (cp_os s) (if cp_child_done s then kExitDrainPollMs else kIdlePollMs) = (prc, k)" by fastforce
  show "carried base s'"
  proof (cases "prc = Poll_Fail")
    case False
    then obtain s1 where s1: "drain_master os dev (s\<lparr>cp_os := k, cp_did_work := False\<rparr>) = Some s1"
        and s': "(stop, s') = check_child os (pump_input os dev 512 s1)"
      using round by (auto simp: console_round_def p bind_eq_Some_conv)
    have "carried base s1" using drain_carried [OF s1] c by simp
    then show ?thesis using check_carried [OF pump_carried] s' by (metis snd_conv)
  qed (use round c p in \<open>auto simp: console_round_def\<close>)
qed

lemma loop_carried: "console_loop os dev s = Some s' \<Longrightarrow> carried base s \<Longrightarrow> carried base s'"
proof -
  have "dev' = dev \<longrightarrow> carried base s \<longrightarrow> carried base s'" if "console_loop os dev' s = Some s'" for dev'
  proof (rule console_loop.raw_induct [OF _ that, where P = "\<lambda>os dev' s s'. dev' = dev \<longrightarrow> carried base s \<longrightarrow> carried base s'"], intro impI)
    fix loop os dev' and s s' :: "('d, 'k) console_prog"
    assume IH: "\<And>os dev' s s'. loop os dev' s = Some s' \<Longrightarrow> dev' = dev \<longrightarrow> carried base s \<longrightarrow> carried base s'"
      and body: "Option.bind (console_round os dev' s) (\<lambda>(stop, s). if stop then Some s else loop os dev' s) = Some s'"
      and dev: "dev' = dev" and c: "carried base s"
    then obtain stop s1 where s1: "console_round os dev s = Some (stop, s1)" "(if stop then Some s1 else loop os dev s1) = Some s'"
      by (auto simp: bind_eq_Some_conv)
    show "carried base s'" using round_carried [OF s1(1) c] s1(2) IH by (auto split: if_splits)
  qed
  then show "console_loop os dev s = Some s' \<Longrightarrow> carried base s \<Longrightarrow> carried base s'" by blast
qed

text \<open>Everything that the shell has written, in order, when the program ends.\<close>

lemma all_carried:
  assumes "console_main os dev d k = Some (code, s)" and "ready 0 (serial_init dev d)" and "\<not> sublist cursor_query (out (serial_init dev d) @ fst (NormalizeCrlf (cp_taken s) 0))"
  shows "out (cp_dev s) = out (serial_init dev d) @ fst (NormalizeCrlf (cp_taken s) 0)"
proof -
  have "carried (out (serial_init dev d)) (console_start dev d k)" using assms(2) by (simp add: carried_def console_start_def)
  then show ?thesis using loop_carried assms(1,3) by (fastforce simp: console_main_def carried_def)
qed

end


section \<open>The serial port of the machine\<close>

text \<open>The guest's port instructions reach the modelled 16550; \<open>info\<close> is what the host console answers to a query of the cursor.\<close>

definition uart_ports :: "console_info \<Rightarrow> uart ports" where
  "uart_ports info = \<lparr>p_inb = \<lambda>u port. uart_read u (port - kCom1), p_outb = \<lambda>u b port. uart_write info u (port - kCom1) b\<rparr>"

text \<open>The transmit side of the device.\<close>

definition tx_view :: "uart \<Rightarrow> u8 \<times> u8 \<times> bytes \<times> bool \<times> bool \<times> u8 \<times> bytes \<times> bytes" where
  "tx_view u = (u_lcr u, u_mcr u, u_terminal_query u, u_echo_stdout u, bit (u_lsr u) 5, u_last_stdout_byte u, u_stdout u, u_tx_fifo u)"

definition line_ready :: "u8 \<Rightarrow> uart \<Rightarrow> bool" where
  "line_ready l u \<longleftrightarrow> u_lcr u AND 0x80 = 0 \<and> u_mcr u AND 0x10 = 0 \<and> strict_prefix (u_terminal_query u) cursor_query \<and> u_echo_stdout u \<and>
     bit (u_lsr u) 5 \<and> u_tx_fifo u = [] \<and> (l = 0x0D \<longrightarrow> u_last_stdout_byte u = 0x0D \<and> u_terminal_query u = [])"

text \<open>What the device has taken: the output of the host, and the beginning of a query that it still holds back.\<close>

definition line_out :: "uart \<Rightarrow> bytes" where
  "line_out u = u_stdout u @ u_terminal_query u"

lemma tx_view_ready: "tx_view u' = tx_view u \<Longrightarrow> line_ready l u' = line_ready l u \<and> line_out u' = line_out u"
  by (simp add: tx_view_def line_ready_def line_out_def)

lemma tx_view_update [simp]: "tx_view (update_interrupt u) = tx_view u"
  by (simp add: update_interrupt_def Let_def tx_view_def)

lemma bit_thre: "v AND 0x20 \<noteq> 0 \<longleftrightarrow> bit (v :: u8) 5"
proof -
  have "(0x20 :: u8) = push_bit 5 1" by (simp add: push_bit_eq_mult)
  then show ?thesis using bit_iff_and_push_bit_not_eq_0 [of v 5] by simp
qed

lemma thre_kept: "bit (v OR kLsrDr) 5 = bit v 5" "bit (v AND NOT kLsrDr) 5 = bit v 5" "bit (v AND NOT lsr_errors) 5 = bit v 5"
  by (simp_all add: kLsrDr_def kLsrOe_def kLsrPe_def kLsrFe_def kLsrBi_def bit_simps)

lemma tx_view_errors: "tx_view (u\<lparr>u_lsr := u_lsr u AND NOT lsr_errors\<rparr>) = tx_view u"
  unfolding tx_view_def using thre_kept(3) [of "u_lsr u"] by simp

lemma tx_view_drain [simp]: "tx_view (drain_rx_staging u) = tx_view u"
  by (simp add: drain_rx_staging_def Let_def tx_view_def thre_kept split: prod.split)

lemma tx_view_rbr: "tx_view (snd (uart_read_rbr u)) = tx_view u"
proof -
  have lsr: "tx_view (v\<lparr>u_lsr := u_lsr v AND NOT kLsrDr\<rparr>) = tx_view v" for v by (simp add: tx_view_def thre_kept)
  have t: "tx_view (v\<lparr>u_timeout_ipending := x\<rparr>) = tx_view v" "tx_view (v\<lparr>u_rx_fifo := f\<rparr>) = tx_view v" for v f x
    by (simp_all add: tx_view_def)
  show ?thesis by (simp add: uart_read_rbr_def Let_def lsr t)
qed

lemma crlf_plain: "0x0A \<notin> set bs \<Longrightarrow> NormalizeCrlf bs l = (bs, if bs = [] then l else last bs)"
  by (induction bs arbitrary: l) auto

lemma emit_view:
  assumes "u_echo_stdout u" and "bs \<noteq> []" and "NormalizeCrlf bs (u_last_stdout_byte u) = (bs, last bs)"
  shows "tx_view (emit_tx_locked u bs) = (u_lcr u, u_mcr u, u_terminal_query u, True, bit (u_lsr u) 5, last bs, u_stdout u @ bs, u_tx_fifo u)"
proof -
  have t: "tx_view (track_console_markers u bs) = tx_view u" for u bs
    by (induction u bs rule: track_console_markers.induct) (simp_all add: tx_view_def case_prod_beta Let_def)
  then have f: "tx_view (track_console_markers u bs) = tx_view u" .
  show ?thesis using assms f by (simp add: emit_tx_locked_def write_stdout_def tx_view_def Let_def)
qed

lemma transmit_view:
  assumes "u_echo_stdout u" and "u_mcr u AND 0x10 = 0" and "u_tx_fifo u = []" and "b = 0x0A \<longrightarrow> u_last_stdout_byte u = 0x0D"
  shows "tx_view (transmit_byte u b) = (u_lcr u, u_mcr u, u_terminal_query u, True, True, b, u_stdout u @ [b], [])"
proof -
  have crlf: "NormalizeCrlf [b] (u_last_stdout_byte v) = ([b], last [b])" if "u_last_stdout_byte v = u_last_stdout_byte u" for v
    using assms(4) that by auto
  have idle: "tx_view (v\<lparr>u_lsr := u_lsr v OR lsr_tx_idle, u_thr_ipending := True\<rparr>) = (u_lcr u, u_mcr u, u_terminal_query u, True, True, b, u_stdout u @ [b], [])"
    if "tx_view v = (u_lcr u, u_mcr u, u_terminal_query u, True, t, b, u_stdout u @ [b], [])" for v t
    using that by (simp add: tx_view_def bit_simps kLsrThre_def kLsrTemt_def)
  show ?thesis
  proof (cases "fifo_enabled u")
    case True
    let ?v = "u\<lparr>u_tsr := b, u_tx_fifo := []\<rparr>"
    have "transmit_byte u b = ((emit_tx_locked ?v [b])\<lparr>u_tx_fifo := []\<rparr>)\<lparr>u_lsr := u_lsr (emit_tx_locked ?v [b]) OR lsr_tx_idle, u_thr_ipending := True\<rparr>"
      using True assms by (simp add: transmit_byte_def kFifoSize_def shift_out_def Let_def)
    moreover have "tx_view ((emit_tx_locked ?v [b])\<lparr>u_tx_fifo := []\<rparr>) = (u_lcr u, u_mcr u, u_terminal_query u, True, bit (u_lsr u) 5, b, u_stdout u @ [b], [])"
      using emit_view [of ?v "[b]"] assms crlf [of ?v] by (simp add: tx_view_def)
    ultimately show ?thesis using idle [of "(emit_tx_locked ?v [b])\<lparr>u_tx_fifo := []\<rparr>"] by simp
  next
    case False
    let ?v = "u\<lparr>u_tsr := b\<rparr>"
    have "transmit_byte u b = (emit_tx_locked ?v [b])\<lparr>u_lsr := u_lsr (emit_tx_locked ?v [b]) OR lsr_tx_idle, u_thr_ipending := True\<rparr>"
      using False assms by (simp add: transmit_byte_def shift_out_def Let_def)
    moreover have "tx_view (emit_tx_locked ?v [b]) = (u_lcr u, u_mcr u, u_terminal_query u, True, bit (u_lsr u) 5, b, u_stdout u @ [b], [])"
      using emit_view [of ?v "[b]"] assms crlf [of ?v] by simp
    ultimately show ?thesis using idle [of "emit_tx_locked ?v [b]"] by simp
  qed
qed

lemma query_bytes: "strict_prefix q cursor_query \<Longrightarrow> 0x0A \<notin> set q \<and> 0x0D \<notin> set q"
  by (auto simp: strict_prefix_def cursor_query_def dest!: set_mono_prefix)

lemma send_byte:
  assumes r: "line_ready l u" and no: "\<not> suffix cursor_query (line_out u @ [b])" and lf: "b = 0x0A \<longrightarrow> l = 0x0D"
  shows "line_ready b (uart_write info u 0 b) \<and> line_out (uart_write info u 0 b) = line_out u @ [b]"
proof -
  let ?u = "u\<lparr>u_thr := b, u_lsr := u_lsr u AND NOT lsr_tx_idle\<rparr>" and ?q = "u_terminal_query u @ [b]"
  note lr = r [unfolded line_ready_def]
  have w: "uart_write info u 0 b = handle_tx_byte info u b" using lr by (simp add: uart_write_def)
  have q: "?q \<noteq> cursor_query"
  proof
    assume "?q = cursor_query"
    then have "line_out u @ [b] = u_stdout u @ cursor_query" by (simp add: line_out_def)
    then show False using no by (simp add: suffix_def)
  qed
  show ?thesis
  proof (cases "u_terminal_query u \<noteq> [] \<or> b = 0x1B")
    case False
    have "tx_view (uart_write info u 0 b) = (u_lcr u, u_mcr u, [], True, True, b, u_stdout u @ [b], [])"
      using transmit_view [of ?u b] lr lf False by (simp add: w handle_tx_byte_def)
    then show ?thesis using lr False by (auto simp: tx_view_def line_ready_def line_out_def cursor_query_def)
  next
    case True
    have b: "b \<noteq> 0x0A" using True lr lf by auto
    have tail: "b = 0x0D \<longrightarrow> take (length ?q) cursor_query \<noteq> ?q"
    proof (intro impI notI)
      assume "b = 0x0D" "take (length ?q) cursor_query = ?q"
      then have "0x0D \<in> set (take (length ?q) cursor_query)" by simp
      then have "0x0D \<in> set cursor_query" by (rule in_set_takeD)
      then show False by (simp add: cursor_query_def)
    qed
    show ?thesis
    proof (cases "take (length ?q) cursor_query = ?q")
      case hold: True
      have "tx_view (?u\<lparr>u_terminal_query := ?q\<rparr>) = (u_lcr u, u_mcr u, ?q, True, False, u_last_stdout_byte u, u_stdout u, [])"
        using lr by (simp add: tx_view_def bit_simps kLsrThre_def kLsrTemt_def)
      then have "tx_view (uart_write info u 0 b) = (u_lcr u, u_mcr u, ?q, True, True, u_last_stdout_byte u, u_stdout u, [])"
        using True hold q lr by (simp add: w handle_tx_byte_def Let_def del: length_append append_Cons)
          (simp add: tx_view_def bit_simps kLsrThre_def kLsrTemt_def)
      moreover have "strict_prefix ?q cursor_query" using hold q by (metis strict_prefix_def take_is_prefix)
      ultimately show ?thesis using lr hold tail by (auto simp: tx_view_def line_ready_def line_out_def)
    next
      case flush: False
      have crlf: "NormalizeCrlf ?q (u_last_stdout_byte u) = (?q, last ?q)"
        using query_bytes [of "u_terminal_query u"] lr b by (subst crlf_plain) auto
      define e where "e = emit_tx_locked (?u\<lparr>u_terminal_query := ?q\<rparr>) ?q"
      have e: "tx_view e = (u_lcr u, u_mcr u, ?q, True, False, b, u_stdout u @ ?q, [])"
        using emit_view [of "?u\<lparr>u_terminal_query := ?q\<rparr>" ?q] lr crlf by (simp add: e_def bit_simps kLsrThre_def kLsrTemt_def)
      have "handle_tx_byte info u b = update_interrupt (e\<lparr>u_terminal_query := [], u_lsr := u_lsr e OR lsr_tx_idle, u_thr_ipending := True\<rparr>)"
        using True flush lr unfolding e_def by (simp add: handle_tx_byte_def Let_def del: length_append append_Cons append_assoc)
      then have "tx_view (uart_write info u 0 b) = (u_lcr u, u_mcr u, [], True, True, b, u_stdout u @ ?q, [])"
        using e by (simp add: w) (simp add: tx_view_def bit_simps kLsrThre_def kLsrTemt_def)
      then show ?thesis using lr by (auto simp: tx_view_def line_ready_def line_out_def cursor_query_def)
    qed
  qed
qed

text \<open>The modelled device keeps the contract.\<close>

interpretation com1: serial_line "uart_ports info" line_ready line_out for info
proof unfold_locales
  fix l u
  assume r: "line_ready l u"
  have lsr: "uart_read u 5 = (u_lsr u, if u_lsr u AND lsr_errors \<noteq> 0 then update_interrupt (u\<lparr>u_lsr := u_lsr u AND NOT lsr_errors\<rparr>) else u)"
    by (simp add: uart_read_def)
  then have thre: "tx_view (snd (uart_read u 5)) = tx_view u"
    unfolding lsr using tx_view_errors [of u] by (simp only: snd_conv tx_view_update split: if_split) blast
  show "fst (p_inb (uart_ports info) u (kCom1 + kLsr)) AND 0x20 \<noteq> 0"
    using r lsr by (simp add: uart_ports_def source_consts bit_thre line_ready_def)
  fix off :: u16
  assume off: "off = kRbr \<or> off = kLsr"
  have "tx_view (snd (uart_read u off)) = tx_view u"
    using off thre tx_view_rbr [of u] r by (auto simp: source_consts uart_read_def line_ready_def)
  then show "line_ready l (snd (p_inb (uart_ports info) u (kCom1 + off))) \<and> line_out (snd (p_inb (uart_ports info) u (kCom1 + off))) = line_out u"
    using tx_view_ready [of "snd (uart_read u off)" u l] r by (simp add: uart_ports_def)
next
  fix l u and b :: u8
  assume "line_ready l u" "\<not> suffix cursor_query (line_out u @ [b])" "b = 0x0A \<longrightarrow> l = 0x0D"
  then show "line_ready b (p_outb (uart_ports info) u b (kCom1 + kThr)) \<and> line_out (p_outb (uart_ports info) u b (kCom1 + kThr)) = line_out u @ [b]"
    using send_byte [of l u b info] by (simp add: uart_ports_def source_consts)
qed


section \<open>The set-up of the port\<close>

lemma tx_view_fields:
  "tx_view (u\<lparr>u_ier := v\<rparr>) = tx_view u" "tx_view (u\<lparr>u_dll := v\<rparr>) = tx_view u" "tx_view (u\<lparr>u_dlh := v\<rparr>) = tx_view u"
  "tx_view (u\<lparr>u_fcr := v\<rparr>) = tx_view u" "tx_view (u\<lparr>u_thr_ipending := p\<rparr>) = tx_view u" "tx_view (u\<lparr>u_msr := v\<rparr>) = tx_view u"
  by (simp_all add: tx_view_def)

text \<open>The registers that serial_init sets.\<close>

definition set_up :: "uart \<Rightarrow> u8 \<times> u8 \<times> u8 \<times> u8 \<times> u8 \<times> u8" where
  "set_up u = (u_ier u, u_lcr u, u_dll u, u_dlh u, u_fcr u, u_mcr u)"

lemma set_up_frame [simp]: "set_up (update_interrupt u) = set_up u" "set_up (drain_rx_staging u) = set_up u"
  by (simp_all add: update_interrupt_def drain_rx_staging_def set_up_def Let_def split: prod.split)

lemma write_registers:
  assumes "u_lcr u AND 0x80 = 0"
  shows "set_up (uart_write info u 1 0) = (0, u_lcr u, u_dll u, u_dlh u, u_fcr u, u_mcr u)" "tx_view (uart_write info u 1 0) = tx_view u"
  using assms by (simp_all add: uart_write_def Let_def tx_view_fields) (simp_all add: set_up_def tx_view_def)

lemma write_lcr:
  assumes "v AND 0x40 = 0"
  shows "set_up (uart_write info u 3 v) = (u_ier u, v, u_dll u, u_dlh u, u_fcr u, u_mcr u)"
    "tx_view (uart_write info u 3 v) = (v, snd (tx_view u))"
  using assms by (simp_all add: uart_write_def Let_def) (simp_all add: set_up_def tx_view_def)

lemma write_divisor:
  assumes "u_lcr u AND 0x80 \<noteq> 0"
  shows "uart_write info u 0 v = u\<lparr>u_dll := v\<rparr>" "uart_write info u 1 v = u\<lparr>u_dlh := v\<rparr>"
  using assms by (simp_all add: uart_write_def)

lemma write_fcr_mcr:
  "set_up (uart_write info u 2 1) = (u_ier u, u_lcr u, u_dll u, u_dlh u, 1, u_mcr u)" "tx_view (uart_write info u 2 1) = tx_view u"
  "set_up (uart_write info u 4 3) = (u_ier u, u_lcr u, u_dll u, u_dlh u, u_fcr u, 3)"
  "tx_view (uart_write info u 4 3) = (u_lcr u, 3, snd (snd (tx_view u)))"
  by (simp_all add: uart_write_def Let_def kFcrEnable_def kFcrTriggerMask_def kFcrClearRx_def kFcrClearTx_def update_msr_delta_def tx_view_fields)
    (simp_all add: set_up_def tx_view_def)

text \<open>serial_init brings the serial port of the machine into the state that the program relies on. Whatever the kernel had left in the registers, with the divisor latch closed,
  afterwards no interrupt is enabled, the line is eight bits without parity with the divisor one and the latch closed, the FIFOs are on and
  the modem lines are up; nothing has been sent and nothing that was waiting to be sent is lost. With the host's echo on and no query half received,
  the port is ready for any first byte.\<close>
theorem serial_init_exact:
  assumes "uart_ok u" and "u_lcr u AND 0x80 = 0" and "bit (u_lsr u) 5" and "u_echo_stdout u" and "strict_prefix (u_terminal_query u) cursor_query"
  shows "set_up (serial_init (uart_ports info) u) = (0, 0x03, 0x01, 0x00, kFcrEnable, 0x03) \<and>
    line_out (serial_init (uart_ports info) u) = line_out u \<and> line_ready 0 (serial_init (uart_ports info) u)"
proof -
  let ?w = "uart_write info"
  define u1 where "u1 = ?w u 1 0"
  define u2 where "u2 = ?w u1 3 0x80"
  define u3 where "u3 = u2\<lparr>u_dll := 1, u_dlh := 0\<rparr>"
  define u4 where "u4 = ?w u3 3 3"
  define u5 where "u5 = ?w u4 2 1"
  have dlab: "u_lcr u2 = 0x80" using write_lcr(1) [of "0x80" info u1] by (simp add: u2_def set_up_def)
  have i: "serial_init (uart_ports info) u = ?w u5 4 3"
    using dlab by (simp add: serial_init_def uart_ports_def source_consts Let_def u1_def [symmetric] u2_def [symmetric] write_divisor
        u3_def [symmetric] u4_def [symmetric] u5_def [symmetric])
  have s1: "set_up u1 = (0, u_lcr u, u_dll u, u_dlh u, u_fcr u, u_mcr u)" "tx_view u1 = tx_view u" using write_registers [OF assms(2)] by (simp_all add: u1_def)
  have s3: "set_up u3 = (0, 0x80, 1, 0, u_fcr u, u_mcr u)" "tx_view u3 = (0x80, snd (tx_view u))"
    using write_lcr [of "0x80" info u1] s1 by (simp_all add: u3_def u2_def [symmetric]) (simp_all add: set_up_def tx_view_def)
  have s5: "set_up u5 = (0, 3, 1, 0, 1, u_mcr u)" "tx_view u5 = (3, snd (tx_view u))"
    using write_lcr [of 3 info u3] s3 write_fcr_mcr(1,2) [of info u4] by (simp_all add: u5_def [symmetric] u4_def [symmetric]) (simp_all add: set_up_def)
  have t: "set_up (?w u5 4 3) = (0, 3, 1, 0, 1, 3)" "tx_view (?w u5 4 3) = (3, 3, snd (snd (tx_view u)))"
    using s5 write_fcr_mcr(3,4) [of info u5] by (simp_all add: set_up_def tx_view_def)
  have "u_tx_fifo u = []" using assms(1) by (simp add: uart_ok_def)
  then show ?thesis using t assms by (simp add: i kFcrEnable_def line_ready_def line_out_def tx_view_def set_up_def)
qed



section \<open>The end of the program\<close>

text \<open>A kernel whose calls bring nothing new, as long as \<open>Q\<close> holds of its state.\<close>

definition quiet :: "'k guest_os \<Rightarrow> ('k \<Rightarrow> bool) \<Rightarrow> bool" where
  "quiet os Q \<longleftrightarrow> (\<forall>k ms. Q k \<longrightarrow> fst (g_poll os k ms) \<noteq> Poll_Fail \<and> Q (snd (g_poll os k ms))) \<and>
     (\<forall>k. Q k \<longrightarrow> (\<forall>bs. fst (g_read os k) = Got bs \<longrightarrow> bs = []) \<and> Q (snd (g_read os k)))"

lemma quiet_poll: "quiet os Q \<Longrightarrow> Q k \<Longrightarrow> g_poll os k ms = (r, k') \<Longrightarrow> r \<noteq> Poll_Fail \<and> Q k'"
  unfolding quiet_def by (metis fst_conv snd_conv)

lemma quiet_read: "quiet os Q \<Longrightarrow> Q k \<Longrightarrow> g_read os k = (r, k') \<Longrightarrow> (\<forall>bs. r = Got bs \<longrightarrow> bs = []) \<and> Q k'"
  unfolding quiet_def by (metis fst_conv snd_conv)

text \<open>A port on which nothing has been typed.\<close>

locale silent_line = serial_line dev ready out for dev :: "'d ports" and ready and out +
  fixes silent :: "'d \<Rightarrow> bool"
  assumes silent_lsr: "silent d \<Longrightarrow> fst (p_inb dev d (kCom1 + kLsr)) AND 0x01 = 0 \<and> silent (snd (p_inb dev d (kCom1 + kLsr))) \<and>
      out (snd (p_inb dev d (kCom1 + kLsr))) = out d"
begin

lemma idle_round:
  assumes "quiet os Q" and "Q (cp_os s)" and "cp_child_done s" and "silent (cp_dev s)"
  shows "\<exists>s'. console_round os dev s = Some (kExitDrainPolls \<le> cp_drain_ticks s + 1, s') \<and> Q (cp_os s') \<and> cp_child_done s' \<and>
    silent (cp_dev s') \<and> cp_drain_ticks s' = cp_drain_ticks s + 1 \<and> cp_status s' = cp_status s \<and> cp_taken s' = cp_taken s \<and>
    out (cp_dev s') = out (cp_dev s)"
proof -
  obtain prc k where p: "g_poll os (cp_os s) kExitDrainPollMs = (prc, k)" by fastforce
  have k: "prc \<noteq> Poll_Fail" "Q k" using quiet_poll [OF assms(1,2) p] by simp_all
  obtain r k1 where r: "g_read os k = (r, k1)" by fastforce
  have k1: "Q k1" "\<And>bs. r = Got bs \<Longrightarrow> bs = []" using quiet_read [OF assms(1) k(2) r] by simp_all
  have drain: "drain_master os dev (s\<lparr>cp_os := k, cp_did_work := False\<rparr>) = Some (s\<lparr>cp_os := k1, cp_did_work := False\<rparr>)"
    using k1(2) by (subst drain_master.simps, cases r) (auto simp: r)
  obtain v u where v: "p_inb dev (cp_dev s) (kCom1 + kLsr) = (v, u)" by fastforce
  have u: "v AND 0x01 = 0" "silent u" "out u = out (cp_dev s)" using silent_lsr [OF assms(4)] v by simp_all
  have "pump_input os dev (Suc n) (s\<lparr>cp_os := k1, cp_did_work := False\<rparr>) = s\<lparr>cp_os := k1, cp_did_work := False, cp_dev := u\<rparr>" for n
    using u v by simp
  from this [of 511] have pump: "pump_input os dev 512 (s\<lparr>cp_os := k1, cp_did_work := False\<rparr>) = s\<lparr>cp_os := k1, cp_did_work := False, cp_dev := u\<rparr>"
    by simp
  let ?s = "s\<lparr>cp_os := k1, cp_did_work := False, cp_dev := u, cp_drain_ticks := cp_drain_ticks s + 1\<rparr>"
  have "console_round os dev s = Some (kExitDrainPolls \<le> cp_drain_ticks s + 1, ?s)"
    using assms(3) k(1) by (simp add: console_round_def p drain pump check_child_def)
  then show ?thesis using assms(3) k1(1) u by (intro exI [of _ ?s]) simp
qed

lemma idle_loop:
  assumes "quiet os Q" and "Q (cp_os s)" and "cp_child_done s" and "silent (cp_dev s)"
  shows "\<exists>s'. console_loop os dev s = Some s' \<and> cp_status s' = cp_status s \<and> cp_taken s' = cp_taken s \<and>
    out (cp_dev s') = out (cp_dev s)"
  using assms(2-)
proof (induction "kExitDrainPolls - cp_drain_ticks s" arbitrary: s rule: less_induct)
  case less
  obtain s1 where s1: "console_round os dev s = Some (kExitDrainPolls \<le> cp_drain_ticks s + 1, s1)" "Q (cp_os s1)" "cp_child_done s1"
      "silent (cp_dev s1)" "cp_drain_ticks s1 = cp_drain_ticks s + 1" "cp_status s1 = cp_status s" "cp_taken s1 = cp_taken s"
      "out (cp_dev s1) = out (cp_dev s)"
    using idle_round [OF assms(1) less.prems] by blast
  show ?case
  proof (cases "kExitDrainPolls \<le> cp_drain_ticks s + 1")
    case True
    then show ?thesis using s1 by (subst console_loop.simps) simp
  next
    case False
    have "kExitDrainPolls - cp_drain_ticks s1 < kExitDrainPolls - cp_drain_ticks s" using False s1(5) by simp
    from less.hyps [OF this s1(2-4)] False s1 show ?thesis by (subst console_loop.simps) simp
  qed
qed

end

lemma lsr_read_silent:
  assumes "u_lsr u AND 0x01 = 0"
  shows "fst (uart_read u 5) AND 0x01 = 0 \<and> u_lsr (snd (uart_read u 5)) AND 0x01 = 0 \<and> line_out (snd (uart_read u 5)) = line_out u"
proof -
  have b: "v AND 0x01 = 0 \<longleftrightarrow> \<not> bit v 0" for v :: u8 by (simp add: and_one_eq bit_0 odd_iff_mod_2_eq_one)
  have "tx_view (snd (uart_read u 5)) = tx_view u"
    using tx_view_errors [of u] by (simp add: uart_read_def)
  moreover have "u_lsr (update_interrupt v) = u_lsr v" for v by (simp add: update_interrupt_def Let_def)
  ultimately show ?thesis
    using assms tx_view_ready [of "snd (uart_read u 5)" u] by (auto simp: uart_read_def b bit_simps)
qed

interpretation com1_silent: silent_line "uart_ports info" line_ready line_out "\<lambda>u. u_lsr u AND 0x01 = 0" for info
  by unfold_locales (use lsr_read_silent in \<open>simp add: uart_ports_def source_consts\<close>)

text \<open>The program ends once its shell has. When the child has ended, the pseudo terminal has nothing more to read and no typed byte waits in
  the serial port, the loop returns after at most five idle rounds, with the status of the child and without having lost or added a byte of output.\<close>
theorem console_exits_when_idle:
  assumes "quiet os Q" and "Q (cp_os s)" and "cp_child_done s" and "u_lsr (cp_dev s) AND 0x01 = 0"
  shows "\<exists>s'. console_loop os (uart_ports info) s = Some s' \<and> cp_status s' = cp_status s \<and> cp_taken s' = cp_taken s \<and>
    line_out (cp_dev s') = line_out (cp_dev s)"
  by (rule com1_silent.idle_loop [OF assms])

text \<open>The status that the program holds is one that waitpid gave.\<close>

definition status_known :: "'k guest_os \<Rightarrow> ('d, 'k) console_prog \<Rightarrow> bool" where
  "status_known os s \<longleftrightarrow> (cp_child_done s \<longrightarrow> (\<exists>k k'. g_waitpid os k = (Some (cp_status s), k')))"

lemma drain_status: "drain_master os dev s = Some s' \<Longrightarrow> cp_child_done s' = cp_child_done s \<and> cp_status s' = cp_status s"
proof -
  assume d: "drain_master os dev s = Some s'"
  show ?thesis
    by (rule drain_master.raw_induct [OF _ d, where P = "\<lambda>os dev s s'. cp_child_done s' = cp_child_done s \<and> cp_status s' = cp_status s"])
      (fastforce split: prod.splits read_result.splits if_splits)
qed

lemma pump_status: "cp_child_done (pump_input os dev n s) = cp_child_done s \<and> cp_status (pump_input os dev n s) = cp_status s"
  by (induction n arbitrary: s) (simp_all split: prod.split)

lemma round_status:
  assumes "console_round os dev s = Some (stop, s')" and "status_known os s" and "\<And>k ms. fst (g_poll os k ms) \<noteq> Poll_Fail"
  shows "status_known os s' \<and> (stop \<longrightarrow> cp_child_done s')"
proof -
  obtain prc k where p: "g_poll os (cp_os s) (if cp_child_done s then kExitDrainPollMs else kIdlePollMs) = (prc, k)" by fastforce
  have "prc \<noteq> Poll_Fail" using assms(3) [of "cp_os s" "if cp_child_done s then kExitDrainPollMs else kIdlePollMs"] by (simp add: p)
  then obtain s1 where s1: "drain_master os dev (s\<lparr>cp_os := k, cp_did_work := False\<rparr>) = Some s1"
      and s': "(stop, s') = check_child os (pump_input os dev 512 s1)"
    using assms(1) by (auto simp: console_round_def p bind_eq_Some_conv)
  have "status_known os (pump_input os dev 512 s1)"
    using drain_status [OF s1] pump_status [of os dev 512 s1] assms(2) by (simp add: status_known_def)
  then show ?thesis using s' by (auto simp: check_child_def status_known_def Let_def split: if_splits prod.splits option.splits)
qed



section \<open>A shell that says one line\<close>

text \<open>The kernel of the example holds what the shell will still write; the shell ends with status 3 at the first look.\<close>

definition sample_os :: "bytes list guest_os" where
  "sample_os = \<lparr>g_poll = \<lambda>k _. (Polled, k), g_read = \<lambda>k. (case k of [] \<Rightarrow> (Read_Again, []) | bs # k \<Rightarrow> (Got bs, k)), g_write = \<lambda>k _. (Wrote, k),
     g_poll_out = \<lambda>k. k, g_waitpid = \<lambda>k. (Some (Exited 3), k)\<rparr>"

lemma sample_os_quiet: "quiet sample_os (\<lambda>k. k = [])"
  by (simp add: quiet_def sample_os_def)

text \<open>A port on which nothing has been typed carries the line of this shell, and the program ends with the status 3.\<close>

context silent_line begin

lemma first_round:
  assumes "serial_write dev bs (serial_init dev d, 0) = (d', l)" and "silent d'" and "bs \<noteq> []"
  shows "\<exists>s. console_round sample_os dev (console_start dev d [bs]) = Some (False, s) \<and> cp_os s = [] \<and>
    cp_child_done s \<and> cp_status s = Exited 3 \<and> cp_taken s = bs \<and> silent (cp_dev s)"
proof -
  define c where "c = console_start dev d [bs]"
  have c: "cp_os c = [bs]" "\<not> cp_child_done c" "cp_dev c = serial_init dev d" "cp_last c = 0" "cp_taken c = []"
    by (simp_all add: c_def console_start_def)
  let ?s0 = "c\<lparr>cp_did_work := False\<rparr>"
  let ?s1 = "?s0\<lparr>cp_dev := d', cp_last := l, cp_os := [], cp_drain_ticks := 0, cp_did_work := True, cp_taken := bs\<rparr>"
  have reads: "g_read sample_os (xs # k) = (Got xs, k)" "g_read sample_os [] = (Read_Again, [])" for xs k by (simp_all add: sample_os_def)
  have "drain_master sample_os dev ?s1 = Some ?s1" by (subst drain_master.simps) (simp add: reads)
  moreover have "drain_master sample_os dev ?s0 = drain_master sample_os dev ?s1"
    using assms(3) by (subst drain_master.simps) (simp add: reads c assms(1) del: serial_write.simps)
  ultimately have drain: "drain_master sample_os dev ?s0 = Some ?s1" by simp
  obtain v u where v: "p_inb dev d' (kCom1 + kLsr) = (v, u)" by fastforce
  have u: "v AND 0x01 = 0" "silent u" using silent_lsr [OF assms(2)] v by simp_all
  have "pump_input sample_os dev (Suc n) ?s1 = ?s1\<lparr>cp_dev := u\<rparr>" for n using u v by simp
  from this [of 511] have pump: "pump_input sample_os dev 512 ?s1 = ?s1\<lparr>cp_dev := u\<rparr>" by simp
  have poll: "g_poll sample_os k ms = (Polled, k)" "g_waitpid sample_os k = (Some (Exited 3), k)" for k ms by (simp_all add: sample_os_def)
  have "console_round sample_os dev c = Some (check_child sample_os (?s1\<lparr>cp_dev := u\<rparr>))"
    using drain pump c(2) by (simp add: console_round_def poll)
  moreover have "check_child sample_os (?s1\<lparr>cp_dev := u\<rparr>) = (False, ?s1\<lparr>cp_dev := u, cp_status := Exited 3, cp_child_done := True\<rparr>)"
    using c(2) by (simp add: check_child_def poll)
  ultimately show ?thesis using u unfolding c_def [symmetric] by simp
qed

lemma sample_run:
  assumes "serial_write dev bs (serial_init dev d, 0) = (d', l)" and "silent d'" and "bs \<noteq> []"
  shows "\<exists>s. console_main sample_os dev d [bs] = Some (3, s) \<and> cp_taken s = bs"
proof -
  obtain s1 where s1: "console_round sample_os dev (console_start dev d [bs]) = Some (False, s1)" "cp_os s1 = []" "cp_child_done s1"
      "cp_status s1 = Exited 3" "cp_taken s1 = bs" "silent (cp_dev s1)"
    using first_round [OF assms] by blast
  obtain s' where s': "console_loop sample_os dev s1 = Some s'" "cp_status s' = Exited 3" "cp_taken s' = bs"
    using idle_loop [OF sample_os_quiet s1(2,3,6)] s1(4,5) by auto
  have "console_loop sample_os dev (console_start dev d [bs]) = Some s'" using s1(1) s'(1) by (subst console_loop.simps) simp
  then show ?thesis using s'(2,3) by (simp add: console_main_def)
qed

end

definition sample_port :: uart where
  "sample_port = uart_init 100 True False None"

lemma sample_port_ok: "uart_ok sample_port" "u_lcr sample_port AND 0x80 = 0" "bit (u_lsr sample_port) 5" "u_echo_stdout sample_port"
  "strict_prefix (u_terminal_query sample_port) cursor_query" "line_out sample_port = []" "u_lsr sample_port AND 0x01 = 0"
  unfolding sample_port_def by (rule uart_init_ok) (simp_all add: uart_init_def cursor_query_def line_out_def kLsrThre_def kLsrTemt_def bit_simps)

theorem serial_init_exact_witness:
  "set_up (serial_init (uart_ports None) sample_port) = (0, 0x03, 0x01, 0x00, kFcrEnable, 0x03) \<and> line_ready 0 (serial_init (uart_ports None) sample_port)"
  using serial_init_exact [OF sample_port_ok(1-5), of None] by simp

text \<open>The port after its set-up and the three bytes that the line becomes.\<close>

definition put :: "uart \<Rightarrow> u8 \<Rightarrow> uart" where
  "put u b = uart_write None (snd (uart_read u 5)) 0 b"

lemma ready_put: "line_ready l u \<Longrightarrow> serial_write_byte (uart_ports None) b u = put u b"
  using com1.lsr_ready [of l u None] unfolding serial_write_byte_def put_def
  by (subst write_at_once [where d = u]) (auto simp: uart_ports_def source_consts)

definition hello_port :: uart where
  "hello_port = put (put (put (serial_init (uart_ports None) sample_port) 0x68) 0x0D) 0x0A"

lemma hello_port_silent: "u_lsr hello_port AND 0x01 = 0"
  by code_simp

lemma hello_written: "serial_write (uart_ports None) [0x68, 0x0A] (serial_init (uart_ports None) sample_port, 0) = (hello_port, 0x0A)"
proof -
  let ?u0 = "serial_init (uart_ports None) sample_port"
  have u0: "line_ready 0 ?u0" "line_out ?u0 = []" using serial_init_exact [OF sample_port_ok(1-5), of None] sample_port_ok(6) by simp_all
  have "\<not> suffix cursor_query ([] @ [0x68])" "\<not> suffix cursor_query ([0x68] @ [0x0D])" by (simp_all add: cursor_query_def suffix_def Cons_eq_append_conv)
  then have u1: "line_ready 0x68 (put ?u0 0x68)" "line_out (put ?u0 0x68) = [0x68]"
      and "line_ready 0x0D (put (put ?u0 0x68) 0x0D)"
    using com1.write_byte [OF u0(1), of "0x68" None] com1.write_byte [of "0x68" "put ?u0 0x68" "0x0D" None] u0(2) ready_put [OF u0(1), of "0x68"]
      ready_put [of "0x68" "put ?u0 0x68" "0x0D"] by simp_all
  then show ?thesis using ready_put [OF u0(1)] ready_put [OF u1(1)] ready_put by (simp add: hello_port_def Let_def)
qed

lemma sample_console_run:
  "\<exists>s. console_main sample_os (uart_ports None) sample_port [[0x68, 0x0A]] = Some (3, s) \<and> cp_taken s = [0x68, 0x0A]"
  by (rule com1_silent.sample_run [OF hello_written hello_port_silent]) simp


theorem console_exits_when_idle_witness:
  "\<exists>s'. console_loop sample_os (uart_ports None) ((console_start (uart_ports None) hello_port [])\<lparr>cp_child_done := True, cp_dev := hello_port\<rparr>) = Some s' \<and>
     line_out (cp_dev s') = line_out hello_port"
  using console_exits_when_idle [OF sample_os_quiet, of "(console_start (uart_ports None) hello_port [])\<lparr>cp_child_done := True, cp_dev := hello_port\<rparr>" None]
    hello_port_silent by (auto simp: console_start_def)


end
