(* ===== verification/Kvm_Uart.thy ===== *)
theory Kvm_Uart
  imports Guest_Console
begin

unbundle bit_operations_syntax

text \<open>
  The serial port of the Linux backend (native/kvm/backend.cc, class Uart and HandleIo). It has no FIFO registers: the receiver is one queue and the
  transmitter is always empty. A section under mu_ is part of one step. \<open>ku_irqs\<close> holds the levels given to KVM_IRQ_LINE, the newest last,
  and \<open>ku_sent\<close> the bytes given to write on the standard output, whose result the code ignores; an ioctl that fails is not modelled. The port meets
  the contract \<open>serial_line\<close> of the console program, as the one of the Windows backend does.
\<close>

section \<open>The device\<close>

record kvm_uart =
  ku_ier :: u8
  ku_iir :: u8
  ku_lcr :: u8
  ku_mcr :: u8
  ku_scr :: u8
  ku_dll :: u8
  ku_dlh :: u8
  ku_limit :: nat
  ku_echo :: bool
  ku_output_seen :: bool
  ku_console :: bytes
  ku_last :: u8
  ku_rx :: bytes
  ku_query :: bytes
  ku_halted :: "bool \<times> nat"
  ku_restarting :: "bool \<times> nat"
  ku_irqs :: "bool list"
  ku_sent :: bytes

definition kvm_uart_init :: "nat \<Rightarrow> bool \<Rightarrow> kvm_uart" where
  "kvm_uart_init limit echo = \<lparr>ku_ier = 0, ku_iir = 0x01, ku_lcr = 0, ku_mcr = 0x03, ku_scr = 0, ku_dll = 0, ku_dlh = 0, ku_limit = limit, ku_echo = echo,
     ku_output_seen = False, ku_console = [], ku_last = 0, ku_rx = [], ku_query = [], ku_halted = (False, 0), ku_restarting = (False, 0),
     ku_irqs = [], ku_sent = []\<rparr>"

definition kvm_set_irq :: "bool \<Rightarrow> kvm_uart \<Rightarrow> kvm_uart" where
  "kvm_set_irq level u = u\<lparr>ku_irqs := ku_irqs u @ [level]\<rparr>"

definition kvm_update_interrupt :: "kvm_uart \<Rightarrow> kvm_uart" where
  "kvm_update_interrupt u =
    (if ku_ier u AND 0x01 \<noteq> 0 \<and> ku_rx u \<noteq> [] then kvm_set_irq True (u\<lparr>ku_iir := 0x04\<rparr>)
     else if ku_ier u AND 0x02 \<noteq> 0 then kvm_set_irq True (u\<lparr>ku_iir := 0x02\<rparr>)
     else kvm_set_irq False (u\<lparr>ku_iir := 0x01\<rparr>))"

definition kvm_uart_read :: "kvm_uart \<Rightarrow> u16 \<Rightarrow> u8 \<times> kvm_uart" where
  "kvm_uart_read u offset =
    (let dlab = (ku_lcr u AND 0x80 \<noteq> 0)
     in if offset = 0 then (if dlab then (ku_dll u, u)
          else (if ku_rx u \<noteq> [] then hd (ku_rx u) else 0, kvm_update_interrupt (u\<lparr>ku_rx := tl (ku_rx u)\<rparr>)))
        else if offset = 1 then (if dlab then ku_dlh u else ku_ier u, u)
        else if offset = 2 then (0xC0 OR ku_iir u, if ku_iir u = 0x02 then kvm_update_interrupt (kvm_set_irq False u) else u)
        else if offset = 3 then (ku_lcr u, u)
        else if offset = 4 then (ku_mcr u, u)
        else if offset = 5 then (0x60 OR (if ku_rx u = [] then 0x00 else 0x01), u)
        else if offset = 6 then (0xB0, u)
        else if offset = 7 then (ku_scr u, u)
        else (0, u))"

definition kvm_enqueue_rx :: "bytes \<Rightarrow> kvm_uart \<Rightarrow> kvm_uart" where
  "kvm_enqueue_rx data u = kvm_update_interrupt (u\<lparr>ku_rx := ku_rx u @ take (4096 - length (ku_rx u)) data\<rparr>)"

text \<open>To the front the bytes go one by one from the last.\<close>

definition kvm_enqueue_rx_locked :: "bytes \<Rightarrow> bool \<Rightarrow> kvm_uart \<Rightarrow> kvm_uart" where
  "kvm_enqueue_rx_locked data front u =
    kvm_update_interrupt (u\<lparr>ku_rx := if front then fold (\<lambda>b rx. if length rx < 4096 then b # rx else rx) (rev data) (ku_rx u)
       else fold (\<lambda>b rx. if length rx < 4096 then rx @ [b] else rx) data (ku_rx u)\<rparr>)"

definition kvm_track_markers :: "bytes \<Rightarrow> kvm_uart \<Rightarrow> kvm_uart" where
  "kvm_track_markers bs u = u\<lparr>ku_halted := foldl (marker_step kHalted) (ku_halted u) bs,
     ku_restarting := foldl (marker_step kRestarting) (ku_restarting u) bs\<rparr>"

definition kvm_write_stdout :: "bytes \<Rightarrow> kvm_uart \<Rightarrow> kvm_uart" where
  "kvm_write_stdout bs u = (case NormalizeCrlf bs (ku_last u) of (normalized, l) \<Rightarrow> u\<lparr>ku_last := l, ku_sent := ku_sent u @ normalized\<rparr>)"

definition kvm_emit_tx_locked :: "bytes \<Rightarrow> kvm_uart \<Rightarrow> kvm_uart" where
  "kvm_emit_tx_locked bs u =
    (if bs = [] then u
     else let u = kvm_track_markers bs u;
              available = (if length (ku_console u) < ku_limit u then ku_limit u - length (ku_console u) else 0);
              u = (if 0 < available then u\<lparr>ku_console := ku_console u @ take (min available (length bs)) bs\<rparr> else u)
          in if ku_echo u then kvm_write_stdout bs (u\<lparr>ku_output_seen := True\<rparr>) else u)"

definition kvm_emit_bytes :: "bytes \<Rightarrow> kvm_uart \<Rightarrow> kvm_uart" where
  "kvm_emit_bytes data u = kvm_emit_tx_locked data u"

definition cursor_reply :: bytes where "cursor_reply = [0x1B, 0x5B, 0x31, 0x3B, 0x31, 0x52]"

definition kvm_handle_tx_byte :: "u8 \<Rightarrow> kvm_uart \<Rightarrow> kvm_uart" where
  "kvm_handle_tx_byte b u =
    (if ku_query u \<noteq> [] \<or> b = 0x1B
     then let q = ku_query u @ [b]; u = u\<lparr>ku_query := q\<rparr>
          in if take (length q) cursor_query = q
             then if q = cursor_query then (kvm_enqueue_rx_locked cursor_reply True u)\<lparr>ku_query := []\<rparr> else u
             else (kvm_emit_tx_locked q u)\<lparr>ku_query := []\<rparr>
     else kvm_emit_tx_locked [b] u)"

definition kvm_uart_write :: "kvm_uart \<Rightarrow> u16 \<Rightarrow> u8 \<Rightarrow> kvm_uart" where
  "kvm_uart_write u offset b =
    (let dlab = (ku_lcr u AND 0x80 \<noteq> 0)
     in if offset = 0
        then if dlab then u\<lparr>ku_dll := b\<rparr>
             else let u = kvm_handle_tx_byte b u in if ku_ier u AND 0x02 \<noteq> 0 then kvm_update_interrupt u else u
        else if offset = 1 then if dlab then u\<lparr>ku_dlh := b\<rparr> else kvm_update_interrupt (u\<lparr>ku_ier := b\<rparr>)
        else if offset = 3 then u\<lparr>ku_lcr := b\<rparr>
        else if offset = 4 then u\<lparr>ku_mcr := b\<rparr>
        else if offset = 7 then u\<lparr>ku_scr := b\<rparr>
        else u)"

definition kvm_contains :: "bytes \<Rightarrow> kvm_uart \<Rightarrow> bool" where
  "kvm_contains needle u =
    (if needle = kHalted then fst (ku_halted u) else if needle = kRestarting then fst (ku_restarting u) else sublist needle (ku_console u))"

section \<open>Port accesses\<close>

text \<open>The part of kvm_run that describes a port exit: its items, in order.\<close>

record kvm_io =
  ki_out :: bool
  ki_size :: nat
  ki_port :: u16
  ki_items :: "bytes list"

record kvm_guest_exit =
  kg_requested :: bool
  kg_status :: u32

text \<open>The ports kCom1Base, kNodeVmmExitPort and kNodeVmmConsolePort of this backend.\<close>

definition kKvmCom1Base :: u16 where "kKvmCom1Base = 0x3F8"
definition kKvmExitPort :: u16 where "kKvmExitPort = 0x501"
definition kKvmConsolePort :: u16 where "kKvmConsolePort = 0x600"

text \<open>One item: what it holds afterwards, the serial port and the exit.\<close>

definition kvm_io_item :: "kvm_io \<Rightarrow> bytes \<Rightarrow> kvm_uart \<Rightarrow> kvm_guest_exit \<Rightarrow> bytes \<times> kvm_uart \<times> kvm_guest_exit" where
  "kvm_io_item io item u g =
    (if ki_port io = kKvmExitPort \<and> ki_size io = 1
     then if ki_out io then (item, u, g\<lparr>kg_requested := True, kg_status := ucast (item ! 0)\<rparr>) else (item[0 := 0], u, g)
     else if ki_port io = kKvmConsolePort \<and> ki_size io = 1
     then if ki_out io then (item, kvm_emit_bytes (take 1 item) u, g) else (item[0 := 0], u, g)
     else if kKvmCom1Base \<le> ki_port io \<and> ki_port io < kKvmCom1Base + 8 \<and> ki_size io = 1
     then let off = ki_port io - kKvmCom1Base
          in if ki_out io then (item, kvm_uart_write u off (item ! 0), g)
             else case kvm_uart_read u off of (v, u) \<Rightarrow> (item[0 := v], u, g)
     else (if ki_out io then item else replicate (ki_size io) 0, u, g))"

fun kvm_io_loop :: "kvm_io \<Rightarrow> bytes list \<Rightarrow> kvm_uart \<Rightarrow> kvm_guest_exit \<Rightarrow> bytes list \<times> kvm_uart \<times> kvm_guest_exit" where
  "kvm_io_loop io [] u g = ([], u, g)"
| "kvm_io_loop io (item # items) u g =
    (case kvm_io_item io item u g of (item, u, g) \<Rightarrow> case kvm_io_loop io items u g of (items, u, g) \<Rightarrow> (item # items, u, g))"

definition HandleIo :: "kvm_io \<Rightarrow> kvm_uart \<Rightarrow> kvm_io \<times> kvm_uart \<times> kvm_guest_exit" where
  "HandleIo io u =
    (case kvm_io_loop io (ki_items io) u \<lparr>kg_requested = False, kg_status = 0\<rparr> of (items, u, g) \<Rightarrow> (io\<lparr>ki_items := items\<rparr>, u, g))"

section \<open>The state of the device\<close>

text \<open>What the interrupt identification says of the other registers.\<close>

definition kvm_ident :: "kvm_uart \<Rightarrow> u8" where
  "kvm_ident u = (if ku_ier u AND 0x01 \<noteq> 0 \<and> ku_rx u \<noteq> [] then 0x04 else if ku_ier u AND 0x02 \<noteq> 0 then 0x02 else 0x01)"

definition kvm_line :: "kvm_uart \<Rightarrow> bool" where
  "kvm_line u = (ku_irqs u \<noteq> [] \<and> last (ku_irqs u))"

definition kvm_uart_ok :: "kvm_uart \<Rightarrow> bool" where
  "kvm_uart_ok u \<longleftrightarrow> ku_iir u = kvm_ident u \<and> (kvm_line u \<longleftrightarrow> ku_iir u \<noteq> 0x01) \<and> length (ku_rx u) \<le> 4096 \<and> length (ku_console u) \<le> ku_limit u \<and>
     strict_prefix (ku_query u) cursor_query"

text \<open>The part that update_interrupt leaves alone.\<close>

definition kvm_rest :: "kvm_uart \<Rightarrow> bool" where
  "kvm_rest u \<longleftrightarrow> length (ku_rx u) \<le> 4096 \<and> length (ku_console u) \<le> ku_limit u \<and> strict_prefix (ku_query u) cursor_query"

lemma kvm_update_ok: "kvm_rest u \<Longrightarrow> kvm_uart_ok (kvm_update_interrupt u)"
  by (simp add: kvm_uart_ok_def kvm_rest_def kvm_update_interrupt_def kvm_set_irq_def kvm_ident_def kvm_line_def)

lemma kvm_ok_rest: "kvm_uart_ok u \<Longrightarrow> kvm_rest u"
  by (simp add: kvm_uart_ok_def kvm_rest_def)

lemma kvm_ok_fields [simp]:
  "kvm_uart_ok (u\<lparr>ku_dll := v\<rparr>) = kvm_uart_ok u" "kvm_uart_ok (u\<lparr>ku_dlh := v\<rparr>) = kvm_uart_ok u" "kvm_uart_ok (u\<lparr>ku_lcr := v\<rparr>) = kvm_uart_ok u"
  "kvm_uart_ok (u\<lparr>ku_mcr := v\<rparr>) = kvm_uart_ok u" "kvm_uart_ok (u\<lparr>ku_scr := v\<rparr>) = kvm_uart_ok u"
  by (simp_all add: kvm_uart_ok_def kvm_ident_def kvm_line_def)

lemma kvm_emit_fields [simp]:
  "ku_ier (kvm_emit_tx_locked bs u) = ku_ier u" "ku_iir (kvm_emit_tx_locked bs u) = ku_iir u" "ku_rx (kvm_emit_tx_locked bs u) = ku_rx u"
  "ku_irqs (kvm_emit_tx_locked bs u) = ku_irqs u" "ku_query (kvm_emit_tx_locked bs u) = ku_query u" "ku_lcr (kvm_emit_tx_locked bs u) = ku_lcr u"
  "ku_limit (kvm_emit_tx_locked bs u) = ku_limit u" "ku_echo (kvm_emit_tx_locked bs u) = ku_echo u"
  by (simp_all add: kvm_emit_tx_locked_def kvm_track_markers_def kvm_write_stdout_def Let_def split: prod.split)

lemma kvm_emit_console: "length (ku_console u) \<le> ku_limit u \<Longrightarrow> length (ku_console (kvm_emit_tx_locked bs u)) \<le> ku_limit u"
  by (auto simp: kvm_emit_tx_locked_def kvm_track_markers_def kvm_write_stdout_def Let_def split: prod.split)

lemma kvm_emit_ok: "kvm_uart_ok u \<Longrightarrow> kvm_uart_ok (kvm_emit_tx_locked bs u)"
  by (simp add: kvm_uart_ok_def kvm_ident_def kvm_line_def kvm_emit_console)

lemma push_front_length:
  "length rx \<le> 4096 \<Longrightarrow> length (fold (\<lambda>b rx. if length rx < 4096 then b # rx else rx) bs rx) \<le> 4096"
  by (induction bs arbitrary: rx) auto

lemma push_back_length:
  "length rx \<le> 4096 \<Longrightarrow> length (fold (\<lambda>b rx. if length rx < 4096 then rx @ [b] else rx) bs rx) \<le> 4096"
  by (induction bs arbitrary: rx) auto

lemma kvm_query_ok: "kvm_uart_ok u \<Longrightarrow> strict_prefix q cursor_query \<Longrightarrow> kvm_uart_ok (u\<lparr>ku_query := q\<rparr>)"
  by (simp add: kvm_uart_ok_def kvm_ident_def kvm_line_def)

lemma kvm_tx_ok: "kvm_uart_ok u \<Longrightarrow> kvm_uart_ok (kvm_handle_tx_byte b u)"
proof -
  assume ok: "kvm_uart_ok u"
  let ?q = "ku_query u @ [b]"
  have empty: "strict_prefix [] cursor_query" by (simp add: cursor_query_def)
  have held: "take (length ?q) cursor_query = ?q \<Longrightarrow> ?q \<noteq> cursor_query \<Longrightarrow> strict_prefix ?q cursor_query"
    by (metis strict_prefix_def take_is_prefix)
  have reply: "kvm_uart_ok ((kvm_enqueue_rx_locked cursor_reply True (u\<lparr>ku_query := q\<rparr>))\<lparr>ku_query := []\<rparr>)" for q
  proof -
    have "(kvm_enqueue_rx_locked cursor_reply True (u\<lparr>ku_query := q\<rparr>))\<lparr>ku_query := []\<rparr> = kvm_enqueue_rx_locked cursor_reply True (u\<lparr>ku_query := []\<rparr>)"
      by (simp add: kvm_enqueue_rx_locked_def kvm_update_interrupt_def kvm_set_irq_def)
    moreover have "kvm_uart_ok (kvm_enqueue_rx_locked cursor_reply True (u\<lparr>ku_query := []\<rparr>))"
      unfolding kvm_enqueue_rx_locked_def using ok push_front_length [of "ku_rx u" "rev cursor_reply"] empty
      by (intro kvm_update_ok) (auto simp: kvm_rest_def kvm_uart_ok_def)
    ultimately show ?thesis by simp
  qed
  have flush: "kvm_uart_ok ((kvm_emit_tx_locked ?q (u\<lparr>ku_query := q\<rparr>))\<lparr>ku_query := []\<rparr>)" for q
    using ok empty kvm_emit_console [of "u\<lparr>ku_query := q\<rparr>" ?q] by (simp add: kvm_uart_ok_def kvm_ident_def kvm_line_def)
  show ?thesis
    using reply flush kvm_query_ok [OF ok held] kvm_emit_ok [OF ok] by (auto simp: kvm_handle_tx_byte_def Let_def simp del: length_append)
qed

text \<open>What happens to the device: accesses of the guest, typed bytes, bytes of the console port.\<close>

datatype kvm_event = Kvm_Read u16 | Kvm_Write u16 u8 | Kvm_Typed bytes | Kvm_Emit bytes

fun kvm_uart_step :: "kvm_uart \<Rightarrow> kvm_event \<Rightarrow> kvm_uart" where
  "kvm_uart_step u (Kvm_Read off) = snd (kvm_uart_read u off)"
| "kvm_uart_step u (Kvm_Write off b) = kvm_uart_write u off b"
| "kvm_uart_step u (Kvm_Typed bs) = kvm_enqueue_rx bs u"
| "kvm_uart_step u (Kvm_Emit bs) = kvm_emit_bytes bs u"

lemma kvm_step_ok: "kvm_uart_ok u \<Longrightarrow> kvm_uart_ok (kvm_uart_step u e)"
proof (cases e)
  case (Kvm_Read off)
  assume ok: "kvm_uart_ok u"
  have "kvm_uart_ok (kvm_update_interrupt (u\<lparr>ku_rx := tl (ku_rx u)\<rparr>))" "kvm_uart_ok (kvm_update_interrupt (kvm_set_irq False u))"
    using kvm_ok_rest [OF ok] by (auto intro!: kvm_update_ok simp: kvm_rest_def kvm_set_irq_def)
  then show ?thesis using ok Kvm_Read by (simp add: kvm_uart_read_def Let_def)
next
  case (Kvm_Write off b)
  assume ok: "kvm_uart_ok u"
  have "kvm_uart_ok (kvm_update_interrupt (u\<lparr>ku_ier := b\<rparr>))" "kvm_uart_ok (kvm_update_interrupt (kvm_handle_tx_byte b u))"
    using kvm_ok_rest [OF ok] kvm_ok_rest [OF kvm_tx_ok [OF ok, of b]] by (auto intro!: kvm_update_ok simp: kvm_rest_def)
  then show ?thesis using ok kvm_tx_ok [OF ok] Kvm_Write by (simp add: kvm_uart_write_def Let_def)
next
  case (Kvm_Typed bs)
  assume "kvm_uart_ok u"
  then have "kvm_rest (u\<lparr>ku_rx := ku_rx u @ take (4096 - length (ku_rx u)) bs\<rparr>)" by (auto simp: kvm_uart_ok_def kvm_rest_def)
  then show ?thesis using kvm_update_ok Kvm_Typed by (simp add: kvm_enqueue_rx_def)
next
  case (Kvm_Emit bs)
  assume "kvm_uart_ok u"
  then show ?thesis using Kvm_Emit kvm_emit_ok by (simp add: kvm_emit_bytes_def)
qed

interpretation kvm_uart: invariant_machine kvm_uart_step kvm_uart_ok
  by unfold_locales (rule kvm_step_ok)

lemma kvm_uart_init_ok: "kvm_uart_ok (kvm_uart_init limit echo)"
  by (simp add: kvm_uart_ok_def kvm_uart_init_def kvm_ident_def kvm_line_def cursor_query_def)


section \<open>The contract of the console program\<close>

definition kvm_ports :: "kvm_uart ports" where
  "kvm_ports = \<lparr>p_inb = \<lambda>u port. kvm_uart_read u (port - kCom1), p_outb = \<lambda>u b port. kvm_uart_write u (port - kCom1) b\<rparr>"

definition kvm_ready :: "u8 \<Rightarrow> kvm_uart \<Rightarrow> bool" where
  "kvm_ready l u \<longleftrightarrow> ku_lcr u AND 0x80 = 0 \<and> ku_echo u \<and> strict_prefix (ku_query u) cursor_query \<and>
     (l = 0x0D \<longrightarrow> ku_last u = 0x0D \<and> ku_query u = [])"

text \<open>What has been given to the standard output, and the beginning of a query that is still held back.\<close>

definition kvm_out :: "kvm_uart \<Rightarrow> bytes" where
  "kvm_out u = ku_sent u @ ku_query u"

definition kvm_tx_view :: "kvm_uart \<Rightarrow> u8 \<times> bool \<times> bytes \<times> u8 \<times> bytes" where
  "kvm_tx_view u = (ku_lcr u, ku_echo u, ku_query u, ku_last u, ku_sent u)"

lemma kvm_view_ready: "kvm_tx_view u' = kvm_tx_view u \<Longrightarrow> kvm_ready l u' = kvm_ready l u \<and> kvm_out u' = kvm_out u"
  by (simp add: kvm_tx_view_def kvm_ready_def kvm_out_def)

lemma kvm_view_update [simp]: "kvm_tx_view (kvm_update_interrupt u) = kvm_tx_view u"
  by (simp add: kvm_update_interrupt_def kvm_set_irq_def kvm_tx_view_def)

lemma kvm_view_rx [simp]: "kvm_tx_view (u\<lparr>ku_rx := x\<rparr>) = kvm_tx_view u"
  by (simp add: kvm_tx_view_def)

lemma kvm_emit_view:
  assumes "ku_echo u" and "bs \<noteq> []" and "NormalizeCrlf bs (ku_last u) = (bs, last bs)"
  shows "kvm_tx_view (kvm_emit_tx_locked bs u) = (ku_lcr u, True, ku_query u, last bs, ku_sent u @ bs)"
  using assms by (simp add: kvm_emit_tx_locked_def kvm_track_markers_def kvm_write_stdout_def kvm_tx_view_def Let_def)

lemma kvm_send_byte:
  assumes r: "kvm_ready l u" and no: "\<not> suffix cursor_query (kvm_out u @ [b])" and lf: "b = 0x0A \<longrightarrow> l = 0x0D"
  shows "kvm_ready b (kvm_uart_write u 0 b) \<and> kvm_out (kvm_uart_write u 0 b) = kvm_out u @ [b]"
proof -
  let ?q = "ku_query u @ [b]"
  note kr = r [unfolded kvm_ready_def]
  have w: "kvm_tx_view (kvm_uart_write u 0 b) = kvm_tx_view (kvm_handle_tx_byte b u)" using kr by (simp add: kvm_uart_write_def Let_def)
  have q: "?q \<noteq> cursor_query"
  proof
    assume "?q = cursor_query"
    then have "kvm_out u @ [b] = ku_sent u @ cursor_query" by (simp add: kvm_out_def)
    then show False using no by (simp add: suffix_def)
  qed
  show ?thesis
  proof (cases "ku_query u \<noteq> [] \<or> b = 0x1B")
    case False
    then have "NormalizeCrlf [b] (ku_last u) = ([b], last [b])" using kr lf by auto
    then have "kvm_tx_view (kvm_uart_write u 0 b) = (ku_lcr u, True, [], b, ku_sent u @ [b])"
      using kvm_emit_view [of u "[b]"] kr False by (simp add: w kvm_handle_tx_byte_def)
    then show ?thesis using kr False by (auto simp: kvm_tx_view_def kvm_ready_def kvm_out_def cursor_query_def)
  next
    case True
    have b: "b \<noteq> 0x0A" using True kr lf by auto
    show ?thesis
    proof (cases "take (length ?q) cursor_query = ?q")
      case hold: True
      have "0x0D \<notin> set (take (length ?q) cursor_query)" by (auto simp: cursor_query_def dest!: in_set_takeD)
      then have nb: "b \<noteq> 0x0D" unfolding hold by simp
      have "kvm_tx_view (kvm_uart_write u 0 b) = (ku_lcr u, True, ?q, ku_last u, ku_sent u)"
        using True hold q kr by (simp add: w kvm_handle_tx_byte_def Let_def del: length_append) (simp add: kvm_tx_view_def)
      moreover have "strict_prefix ?q cursor_query" using hold q by (metis strict_prefix_def take_is_prefix)
      ultimately show ?thesis using kr nb by (auto simp: kvm_tx_view_def kvm_ready_def kvm_out_def)
    next
      case flush: False
      have crlf: "NormalizeCrlf ?q (ku_last u) = (?q, last ?q)"
        using query_bytes [of "ku_query u"] kr b by (subst crlf_plain) auto
      have "kvm_tx_view (kvm_emit_tx_locked ?q (u\<lparr>ku_query := ?q\<rparr>)) = (ku_lcr u, True, ?q, b, ku_sent u @ ?q)"
        using kvm_emit_view [of "u\<lparr>ku_query := ?q\<rparr>" ?q] kr crlf by simp
      then have "kvm_tx_view (kvm_uart_write u 0 b) = (ku_lcr u, True, [], b, ku_sent u @ ?q)"
        using True flush by (simp add: w kvm_handle_tx_byte_def Let_def del: length_append append_assoc) (simp add: kvm_tx_view_def)
      then show ?thesis using kr by (auto simp: kvm_tx_view_def kvm_ready_def kvm_out_def cursor_query_def)
    qed
  qed
qed

interpretation kvm_com1: serial_line kvm_ports kvm_ready kvm_out
proof unfold_locales
  fix l u and off :: u16
  assume r: "kvm_ready l u"
  show "fst (p_inb kvm_ports u (kCom1 + kLsr)) AND 0x20 \<noteq> 0"
    by (simp add: kvm_ports_def kvm_uart_read_def source_consts bit_thre bit_simps)
  assume off: "off = kRbr \<or> off = kLsr"
  have "kvm_tx_view (snd (kvm_uart_read u off)) = kvm_tx_view u"
    using off r by (auto simp: kvm_uart_read_def source_consts kvm_ready_def Let_def)
  then show "kvm_ready l (snd (p_inb kvm_ports u (kCom1 + off))) \<and> kvm_out (snd (p_inb kvm_ports u (kCom1 + off))) = kvm_out u"
    using kvm_view_ready [of "snd (kvm_uart_read u off)" u l] r by (simp add: kvm_ports_def)
next
  fix l u and b :: u8
  assume "kvm_ready l u" "\<not> suffix cursor_query (kvm_out u @ [b])" "b = 0x0A \<longrightarrow> l = 0x0D"
  then show "kvm_ready b (p_outb kvm_ports u b (kCom1 + kThr)) \<and> kvm_out (p_outb kvm_ports u b (kCom1 + kThr)) = kvm_out u @ [b]"
    using kvm_send_byte [of l u b] by (simp add: kvm_ports_def source_consts)
qed

lemma kvm_serial_init:
  assumes "ku_echo u" and "strict_prefix (ku_query u) cursor_query"
  shows "kvm_ready 0 (serial_init kvm_ports u) \<and> (ku_lcr u AND 0x80 = 0 \<longrightarrow> kvm_out (serial_init kvm_ports u) = kvm_out u)"
proof -
  have w: "ku_query (kvm_uart_write v o' b) = ku_query v \<and> ku_sent (kvm_uart_write v o' b) = ku_sent v \<and> ku_echo (kvm_uart_write v o' b) = ku_echo v \<and>
      ku_lcr (kvm_uart_write v o' b) = (if o' = 3 then b else ku_lcr v)" if "o' \<noteq> 0 \<or> ku_lcr v AND 0x80 \<noteq> 0" for v o' b
    using that by (auto simp: kvm_uart_write_def kvm_update_interrupt_def kvm_set_irq_def Let_def)
  have "\<exists>v. serial_init kvm_ports u = v \<and> ku_query v = ku_query u \<and> ku_sent v = ku_sent u \<and> ku_echo v = ku_echo u \<and> ku_lcr v = 0x03"
    by (simp add: serial_init_def kvm_ports_def source_consts Let_def w)
  then show ?thesis using assms by (auto simp: kvm_ready_def kvm_out_def)
qed


interpretation kvm_com1_silent: silent_line kvm_ports kvm_ready kvm_out "\<lambda>u. ku_rx u = []"
  by unfold_locales (simp add: kvm_ports_def kvm_uart_read_def source_consts)

section \<open>Properties\<close>

text \<open>C37. The serial port of the Linux backend never shows the guest or the interrupt controller a false state. After any sequence of accesses, typed bytes and console
  bytes, the interrupt identification names the highest pending cause, the level last given to the interrupt controller is high exactly when there is one, the
  receiver holds at most 4096 bytes and the log at most its limit, and the part of a query held back is a proper beginning of it.\<close>
theorem kvm_uart_consistent:
  "let u = run kvm_uart_step (kvm_uart_init limit echo) es
   in ku_iir u = (if ku_ier u AND 0x01 \<noteq> 0 \<and> ku_rx u \<noteq> [] then 0x04 else if ku_ier u AND 0x02 \<noteq> 0 then 0x02 else 0x01) \<and>
      (kvm_line u \<longleftrightarrow> ku_iir u \<noteq> 0x01) \<and> length (ku_rx u) \<le> 4096 \<and> length (ku_console u) \<le> ku_limit u \<and> strict_prefix (ku_query u) cursor_query"
  using kvm_uart.run_inv [OF kvm_uart_init_ok, of limit echo es] by (simp add: Let_def kvm_uart_ok_def kvm_ident_def)


definition kvm_sample :: kvm_uart where "kvm_sample = kvm_uart_init 100 True"

lemma kvm_write_byte: "serial_write_byte kvm_ports b u = kvm_uart_write u 0 b"
proof -
  have "p_inb kvm_ports u (kCom1 + kLsr) = (0x60 OR (if ku_rx u = [] then 0 else 1), u)" by (simp add: kvm_ports_def kvm_uart_read_def source_consts)
  moreover have "(0x60 OR (if ku_rx u = [] then 0 else 1) :: u8) AND 0x20 \<noteq> 0" by (simp add: bit_thre bit_simps)
  ultimately show ?thesis unfolding serial_write_byte_def by (subst write_at_once) (simp_all add: kvm_ports_def source_consts)
qed

lemma kvm_hello: "\<exists>d'. serial_write kvm_ports [0x68, 0x0A] (serial_init kvm_ports kvm_sample, 0) = (d', 0x0A) \<and> ku_rx d' = []"
proof -
  have "ku_rx (kvm_uart_write (kvm_uart_write (kvm_uart_write (serial_init kvm_ports kvm_sample) 0 0x68) 0 0x0D) 0 0x0A) = []" by code_simp
  then show ?thesis by (simp add: kvm_write_byte Let_def)
qed


text \<open>A read of the identification register does not end the interrupt of an empty transmitter, as it does on a 16550: with that interrupt enabled and nothing received,
  every read names it again, and drops and raises the line again.\<close>

lemma kvm_thre_stays:
  assumes "kvm_uart_ok u" and "ku_ier u AND 0x02 \<noteq> 0" and "ku_rx u = []"
  shows "kvm_uart_read u 2 = (0xC2, u\<lparr>ku_irqs := ku_irqs u @ [False, True]\<rparr>)"
  using assms by (simp add: kvm_uart_ok_def kvm_ident_def kvm_uart_read_def kvm_update_interrupt_def kvm_set_irq_def)

end
