(* ===== verification/Arm_Devices.thy ===== *)
theory Arm_Devices
  imports Hvf_Layout "HOL-Library.Sublist"
begin

unbundle bit_operations_syntax

text \<open>
  The small devices of the Arm machine (native/hvf/backend.cc): the PL011 serial port, the PL031 clock, fw_cfg,
  the PL061 GPIO block, and the empty PCIe host and virtio transports. Every method holds its mutex. A caller's
  buffer is a list of 8 bytes, of which a read fills a part; time(nullptr) is an argument. The call-back that
  sets the interrupt line is the field \<open>pl_line\<close>, the level last set.
\<close>

text \<open>memset(data, 0, len), then WriteU32(data, val).\<close>

definition put_u32 :: "bytes \<Rightarrow> u32 \<Rightarrow> bytes" where
  "put_u32 data val = buf_put data 0 (le_bytes 4 val)"

definition clear_buf :: "bytes \<Rightarrow> u32 \<Rightarrow> bytes" where
  "clear_buf data n = buf_put data 0 (replicate (unat n) 0)"

section \<open>PL011 serial port\<close>

record pl011 =
  pl_rx :: bytes
  pl_console :: bytes
  pl_terminal_query :: bytes
  pl_console_limit :: nat
  pl_echo_stdout :: bool
  pl_console_output_seen :: bool
  pl_cr :: u32
  pl_ibrd :: u32
  pl_fbrd :: u32
  pl_lcr_h :: u32
  pl_ifls :: u32
  pl_dmacr :: u32
  pl_imsc :: u32
  pl_ris :: u32
  pl_line :: bool
  pl_stdout :: bytes

definition pl011_init :: "nat \<Rightarrow> bool \<Rightarrow> pl011" where
  "pl011_init limit echo =
    \<lparr>pl_rx = [], pl_console = [], pl_terminal_query = [], pl_console_limit = limit, pl_echo_stdout = echo,
     pl_console_output_seen = False, pl_cr = 0x301, pl_ibrd = 13, pl_fbrd = 1, pl_lcr_h = 0x70, pl_ifls = 0x12,
     pl_dmacr = 0, pl_imsc = 0, pl_ris = 0, pl_line = False, pl_stdout = []\<rparr>"

definition kRxInterrupts :: u32 where "kRxInterrupts = 0x10 OR 0x40"
definition kPlRxCapacity :: nat where "kPlRxCapacity = 4096"

definition update_irq_locked :: "pl011 \<Rightarrow> pl011" where
  "update_irq_locked u =
    (let u = (if pl_rx u \<noteq> [] then u\<lparr>pl_ris := pl_ris u OR kRxInterrupts\<rparr>
              else u\<lparr>pl_ris := pl_ris u AND NOT kRxInterrupts\<rparr>)
     in u\<lparr>pl_line := (pl_ris u AND pl_imsc u \<noteq> 0)\<rparr>)"

definition pl011_reg :: "pl011 \<Rightarrow> u64 \<Rightarrow> u32" where
  "pl011_reg u off =
    (if off = 0x018 then (let v = 0x90; v = (if pl_rx u \<noteq> [] then v AND NOT 0x10 else v) in v AND NOT 0x20)
     else if off = 0x024 then pl_ibrd u else if off = 0x028 then pl_fbrd u else if off = 0x02C then pl_lcr_h u
     else if off = 0x030 then pl_cr u else if off = 0x034 then pl_ifls u else if off = 0x038 then pl_imsc u
     else if off = 0x03C then pl_ris u else if off = 0x040 then pl_ris u AND pl_imsc u else if off = 0x048 then pl_dmacr u
     else if off = 0xFE0 then 0x11 else if off = 0xFE4 then 0x10 else if off = 0xFE8 then 0x14 else if off = 0xFEC then 0x00
     else if off = 0xFF0 then 0x0D else if off = 0xFF4 then 0xF0 else if off = 0xFF8 then 0x05 else if off = 0xFFC then 0xB1
     else 0)"

definition pl011_read_dr :: "pl011 \<Rightarrow> u32 \<times> pl011" where
  "pl011_read_dr u =
    (case pl_rx u of [] \<Rightarrow> (0, u)
     | b # rest \<Rightarrow>
       let u = u\<lparr>pl_rx := rest\<rparr>; u = (if rest = [] then u\<lparr>pl_ris := pl_ris u AND NOT kRxInterrupts\<rparr> else u)
       in (ucast b, update_irq_locked u))"

definition pl011_read_mmio :: "pl011 \<Rightarrow> u64 \<Rightarrow> bytes \<Rightarrow> u32 \<Rightarrow> bytes \<times> pl011" where
  "pl011_read_mmio u off data n =
    (let data = clear_buf data n
     in if n = 0 \<or> 4 < n then (data, u)
        else let (val, u) = (if off = 0 then pl011_read_dr u else (pl011_reg u off, u)) in (put_u32 data val, u))"

definition pl011_emit_tx_locked :: "u8 \<Rightarrow> pl011 \<Rightarrow> pl011" where
  "pl011_emit_tx_locked c u =
    (let u = (if length (pl_console u) < pl_console_limit u then u\<lparr>pl_console := pl_console u @ [c]\<rparr> else u)
     in if pl_echo_stdout u then u\<lparr>pl_console_output_seen := True, pl_stdout := pl_stdout u @ [c]\<rparr> else u)"

text \<open>The cursor position query of a terminal and the canned answer, as bytes.\<close>

definition pl011_query :: bytes where "pl011_query = [0x1B, 0x5B, 0x36, 0x6E]"
definition pl011_response :: bytes where "pl011_response = [0x1B, 0x5B, 0x31, 0x3B, 0x31, 0x52]"

text \<open>The loop that pushes the answer to the front, last byte first, while there is room.\<close>

fun push_response :: "bytes \<Rightarrow> bytes \<Rightarrow> bytes" where
  "push_response [] rx = rx"
| "push_response (b # bs) rx = (if length rx < kPlRxCapacity then push_response bs (b # rx) else rx)"

definition handle_tx_locked :: "u8 \<Rightarrow> pl011 \<Rightarrow> pl011" where
  "handle_tx_locked c u =
    (if pl_echo_stdout u then pl011_emit_tx_locked c u
     else if pl_terminal_query u \<noteq> [] \<or> c = 0x1B
     then let u = u\<lparr>pl_terminal_query := pl_terminal_query u @ [c]\<rparr>
          in if take (length (pl_terminal_query u)) pl011_query = pl_terminal_query u
             then if pl_terminal_query u = pl011_query
                  then u\<lparr>pl_rx := push_response (rev pl011_response) (pl_rx u), pl_ris := pl_ris u OR kRxInterrupts, pl_terminal_query := []\<rparr>
                  else u
             else (fold pl011_emit_tx_locked (pl_terminal_query u) u)\<lparr>pl_terminal_query := []\<rparr>
     else pl011_emit_tx_locked c u)"

definition pl011_write_mmio :: "pl011 \<Rightarrow> u64 \<Rightarrow> bytes \<Rightarrow> u32 \<Rightarrow> pl011" where
  "pl011_write_mmio u off data n =
    (if n = 0 \<or> 4 < n then u
     else let u = (if off = 0 then let u = handle_tx_locked (data ! 0) u in update_irq_locked (u\<lparr>pl_ris := pl_ris u OR 0x20\<rparr>) else u);
              val = ReadU32 ((!) data) 0
     in if off = 0x024 then u\<lparr>pl_ibrd := val AND 0xFFFF\<rparr> else if off = 0x028 then u\<lparr>pl_fbrd := val AND 0x3F\<rparr>
        else if off = 0x02C then u\<lparr>pl_lcr_h := val\<rparr> else if off = 0x030 then u\<lparr>pl_cr := val\<rparr>
        else if off = 0x034 then update_irq_locked (u\<lparr>pl_ifls := val AND 0x3F\<rparr>)
        else if off = 0x038 then update_irq_locked (u\<lparr>pl_imsc := val\<rparr>)
        else if off = 0x044 then update_irq_locked (u\<lparr>pl_ris := pl_ris u AND NOT val\<rparr>)
        else if off = 0x048 then u\<lparr>pl_dmacr := val\<rparr> else u)"

definition inject_char :: "u8 \<Rightarrow> pl011 \<Rightarrow> pl011" where
  "inject_char c u =
    (let u = (if length (pl_rx u) < kPlRxCapacity then u\<lparr>pl_rx := pl_rx u @ [c]\<rparr> else u)
     in update_irq_locked (u\<lparr>pl_ris := pl_ris u OR kRxInterrupts\<rparr>))"

fun inject_loop :: "bytes \<Rightarrow> bytes \<Rightarrow> bytes" where
  "inject_loop [] rx = rx"
| "inject_loop (b # bs) rx = (if length rx < kPlRxCapacity then inject_loop bs (rx @ [b]) else rx)"

definition inject_bytes :: "bytes \<Rightarrow> pl011 \<Rightarrow> pl011" where
  "inject_bytes data u =
    (let u = u\<lparr>pl_rx := inject_loop data (pl_rx u)\<rparr>;
         u = (if 0 < length data then u\<lparr>pl_ris := pl_ris u OR kRxInterrupts\<rparr> else u)
     in update_irq_locked u)"

definition refresh_irq :: "pl011 \<Rightarrow> pl011" where "refresh_irq u = update_irq_locked u"

definition irq_pending :: "pl011 \<Rightarrow> bool" where "irq_pending u \<longleftrightarrow> pl_ris u AND pl_imsc u \<noteq> 0"

section \<open>PL031 clock\<close>

record pl031 =
  rt_offset_seconds :: int
  rt_match :: u32
  rt_cr :: u32
  rt_imsc :: u32
  rt_ris :: u32

definition pl031_init :: pl031 where
  "pl031_init = \<lparr>rt_offset_seconds = 0, rt_match = 0, rt_cr = 1, rt_imsc = 0, rt_ris = 0\<rparr>"

definition current_seconds :: "pl031 \<Rightarrow> int \<Rightarrow> u32" where
  "current_seconds r now =
    (let seconds = (if now < 0 then 0 else now) + rt_offset_seconds r
     in if seconds < 0 then 0 else if 2 ^ 32 - 1 < seconds then - 1 else of_int seconds)"

definition pl031_reg :: "pl031 \<Rightarrow> int \<Rightarrow> u64 \<Rightarrow> u32" where
  "pl031_reg r now off =
    (if off = 0x000 then current_seconds r now else if off = 0x004 then rt_match r
     else if off = 0x008 then current_seconds r now else if off = 0x00C then rt_cr r else if off = 0x010 then rt_imsc r
     else if off = 0x014 then rt_ris r else if off = 0x018 then rt_ris r AND rt_imsc r
     else if off = 0xFE0 then 0x31 else if off = 0xFE4 then 0x10 else if off = 0xFE8 then 0x14 else if off = 0xFEC then 0x00
     else if off = 0xFF0 then 0x0D else if off = 0xFF4 then 0xF0 else if off = 0xFF8 then 0x05 else if off = 0xFFC then 0xB1
     else 0)"

definition pl031_read_mmio :: "pl031 \<Rightarrow> int \<Rightarrow> u64 \<Rightarrow> bytes \<Rightarrow> u32 \<Rightarrow> bytes" where
  "pl031_read_mmio r now off data n =
    (let data = clear_buf data n in if n = 0 \<or> 4 < n then data else put_u32 data (pl031_reg r now off))"

definition pl031_write_mmio :: "pl031 \<Rightarrow> int \<Rightarrow> u64 \<Rightarrow> bytes \<Rightarrow> u32 \<Rightarrow> pl031" where
  "pl031_write_mmio r now off data n =
    (if n = 0 \<or> 4 < n then r
     else let val = ReadU32 ((!) data) 0
     in if off = 0x004
        then let r = r\<lparr>rt_match := val\<rparr> in r\<lparr>rt_ris := (if rt_match r \<noteq> 0 \<and> rt_match r \<le> current_seconds r now then 1 else 0)\<rparr>
        else if off = 0x008
        then r\<lparr>rt_offset_seconds := uint val - (if now < 0 then 0 else now),
               rt_ris := (if rt_match r \<noteq> 0 \<and> rt_match r \<le> val then 1 else 0)\<rparr>
        else if off = 0x00C then r\<lparr>rt_cr := val AND 1\<rparr> else if off = 0x010 then r\<lparr>rt_imsc := val AND 1\<rparr>
        else if off = 0x01C then r\<lparr>rt_ris := rt_ris r AND NOT val\<rparr> else r)"

section \<open>fw_cfg\<close>

record fw_cfg =
  fw_cpus :: u16
  fw_selector :: u16
  fw_data_offset :: nat

definition fw_cfg_init :: "u16 \<Rightarrow> fw_cfg" where
  "fw_cfg_init cpus = \<lparr>fw_cpus = cpus, fw_selector = 0, fw_data_offset = 0\<rparr>"

definition normalize_selector :: "u16 \<Rightarrow> u16" where
  "normalize_selector raw = (if raw AND 0x00FF = 0 \<and> raw \<noteq> 0 then drop_bit 8 raw else raw)"

definition item_data :: "fw_cfg \<Rightarrow> bytes" where
  "item_data f =
    (if fw_selector f = 0x0000 then [0x51, 0x45, 0x4D, 0x55]
     else if fw_selector f = 0x0001 then [1, 0, 0, 0]
     else if fw_selector f = 0x0005 then [ucast (fw_cpus f AND 0xFF), ucast (drop_bit 8 (fw_cpus f))]
     else if fw_selector f = 0x0019 then [0, 0, 0, 0]
     else [])"

definition fw_cfg_read_byte :: "bytes \<Rightarrow> nat \<Rightarrow> bytes \<times> nat \<Rightarrow> bytes \<times> nat" where
  "fw_cfg_read_byte item i st =
    (let (data, data_offset) = st
     in (if data_offset < length item then data[i := item ! data_offset] else data, data_offset + 1))"

definition fw_cfg_read_mmio :: "fw_cfg \<Rightarrow> u64 \<Rightarrow> bytes \<Rightarrow> u32 \<Rightarrow> bytes \<times> fw_cfg" where
  "fw_cfg_read_mmio f off data n =
    (let data = clear_buf data n
     in if n = 0 \<or> 8 < n then (data, f)
        else if off < 8
        then let (data, data_offset) = fold (fw_cfg_read_byte (item_data f)) [0 ..< unat n] (data, fw_data_offset f)
             in (data, f\<lparr>fw_data_offset := data_offset\<rparr>)
        else if off = 8 \<and> 2 \<le> n then (buf_put data 0 (le_bytes 2 (fw_selector f)), f)
        else (data, f))"

definition fw_cfg_write_mmio :: "fw_cfg \<Rightarrow> u64 \<Rightarrow> bytes \<Rightarrow> u32 \<Rightarrow> fw_cfg" where
  "fw_cfg_write_mmio f off data n =
    (if n = 0 \<or> 8 < n then f
     else if off = 8
     then let raw = (if 2 \<le> n then ReadU16 ((!) data) 0 else ucast (data ! 0))
          in f\<lparr>fw_selector := normalize_selector raw, fw_data_offset := 0\<rparr>
     else f)"

section \<open>PL061 GPIO\<close>

record pl061 =
  gp_data :: u32
  gp_dir :: u32
  gp_is :: u32
  gp_ibe :: u32
  gp_iev :: u32
  gp_ie :: u32
  gp_ris :: u32
  gp_afsel :: u32

definition pl061_init :: pl061 where
  "pl061_init = \<lparr>gp_data = 0, gp_dir = 0, gp_is = 0, gp_ibe = 0, gp_iev = 0, gp_ie = 0, gp_ris = 0, gp_afsel = 0\<rparr>"

definition DataMask :: "u64 \<Rightarrow> u32" where
  "DataMask off = ucast (drop_bit 2 off AND 0xFF)"

definition pl061_reg :: "pl061 \<Rightarrow> u64 \<Rightarrow> u32" where
  "pl061_reg g off =
    (if off \<le> 0x3FC then gp_data g AND DataMask off
     else if off = 0x400 then gp_dir g else if off = 0x404 then gp_is g else if off = 0x408 then gp_ibe g
     else if off = 0x40C then gp_iev g else if off = 0x410 then gp_ie g else if off = 0x414 then gp_ris g
     else if off = 0x418 then gp_ris g AND gp_ie g else if off = 0x420 then gp_afsel g
     else if off = 0xFE0 then 0x61 else if off = 0xFE4 then 0x10 else if off = 0xFE8 then 0x14 else if off = 0xFEC then 0x00
     else if off = 0xFF0 then 0x0D else if off = 0xFF4 then 0xF0 else if off = 0xFF8 then 0x05 else if off = 0xFFC then 0xB1
     else 0)"

definition pl061_read_mmio :: "pl061 \<Rightarrow> u64 \<Rightarrow> bytes \<Rightarrow> u32 \<Rightarrow> bytes" where
  "pl061_read_mmio g off data n =
    (let data = clear_buf data n in if n = 0 \<or> 4 < n then data else put_u32 data (pl061_reg g off))"

definition pl061_write_mmio :: "pl061 \<Rightarrow> u64 \<Rightarrow> bytes \<Rightarrow> u32 \<Rightarrow> pl061" where
  "pl061_write_mmio g off data n =
    (if n = 0 \<or> 4 < n then g
     else let val = ReadU32 ((!) data) 0 AND 0xFF
     in if off \<le> 0x3FC
        then let mask = DataMask off AND gp_dir g in g\<lparr>gp_data := (gp_data g AND NOT mask) OR (val AND mask)\<rparr>
        else if off = 0x400 then g\<lparr>gp_dir := val\<rparr> else if off = 0x404 then g\<lparr>gp_is := val\<rparr>
        else if off = 0x408 then g\<lparr>gp_ibe := val\<rparr> else if off = 0x40C then g\<lparr>gp_iev := val\<rparr>
        else if off = 0x410 then g\<lparr>gp_ie := val\<rparr> else if off = 0x41C then g\<lparr>gp_ris := gp_ris g AND NOT val\<rparr>
        else if off = 0x420 then g\<lparr>gp_afsel := val\<rparr> else g)"

section \<open>Empty PCIe host and virtio transport\<close>

definition pcie_read_mmio :: "bytes \<Rightarrow> u32 \<Rightarrow> bytes" where
  "pcie_read_mmio data n = buf_put data 0 (replicate (unat n) 0xFF)"

definition empty_virtio_read_mmio :: "u64 \<Rightarrow> bytes \<Rightarrow> u32 \<Rightarrow> bytes" where
  "empty_virtio_read_mmio off data n =
    (let data = clear_buf data n
     in if n \<noteq> 4 then data
        else put_u32 data (if off = 0x000 then 0x74726976 else if off = 0x004 then 2 else if off = 0x008 then 0
          else if off = 0x00C then 0x554D4551 else if off = 0x034 then 256 else 0))"

section \<open>The serial port: status, line and queue\<close>

definition pl_synced :: "pl011 \<Rightarrow> bool" where
  "pl_synced u \<longleftrightarrow> (bit (pl_ris u) 4 \<longleftrightarrow> pl_rx u \<noteq> []) \<and> (bit (pl_ris u) 6 \<longleftrightarrow> pl_rx u \<noteq> []) \<and> (pl_line u \<longleftrightarrow> irq_pending u)"

definition pl_ok :: "pl011 \<Rightarrow> bool" where
  "pl_ok u \<longleftrightarrow> pl_synced u \<and> length (pl_rx u) \<le> kPlRxCapacity \<and> length (pl_console u) \<le> pl_console_limit u \<and>
     unat (pl_ibrd u) < 0x10000 \<and> unat (pl_fbrd u) < 0x40 \<and> unat (pl_ifls u) < 0x40 \<and>
     strict_prefix (pl_terminal_query u) pl011_query"

text \<open>The fields that \<open>update_irq_locked\<close> does not change.\<close>

definition pl_frame :: "pl011 \<Rightarrow> pl011 \<Rightarrow> bool" where
  "pl_frame u u' \<longleftrightarrow> (\<exists>ris line. u' = u\<lparr>pl_ris := ris, pl_line := line\<rparr>)"

lemma bit_kRxInterrupts: "bit kRxInterrupts n \<longleftrightarrow> n = 4 \<or> n = 6"
  by (auto simp: kRxInterrupts_def bit_numeral_rec bit_1_iff split: nat.splits)

lemma update_irq_synced: "pl_synced (update_irq_locked u)"
  by (simp add: pl_synced_def update_irq_locked_def irq_pending_def Let_def bit_simps bit_kRxInterrupts)

lemma update_irq_frame: "pl_frame u (update_irq_locked u)"
  unfolding pl_frame_def update_irq_locked_def Let_def by (cases "pl_rx u = []") force+

lemma pl_ok_frame:
  assumes "pl_frame u u'" and "pl_synced u'" and "length (pl_rx u) \<le> kPlRxCapacity" "length (pl_console u) \<le> pl_console_limit u"
    "unat (pl_ibrd u) < 0x10000" "unat (pl_fbrd u) < 0x40" "unat (pl_ifls u) < 0x40" "strict_prefix (pl_terminal_query u) pl011_query"
  shows "pl_ok u'"
  using assms by (auto simp: pl_frame_def pl_ok_def)

lemmas pl_ok_update = pl_ok_frame [OF update_irq_frame update_irq_synced]

lemma unat_and_le: "unat ((v :: u32) AND w) \<le> unat w"
  using word_and_le1 [of v w] by (simp add: word_le_nat_alt)

lemma push_response_length: "length rx \<le> kPlRxCapacity \<Longrightarrow> length (push_response bs rx) \<le> kPlRxCapacity"
  by (induction bs arbitrary: rx) auto

lemma inject_loop_eq: "length rx \<le> kPlRxCapacity \<Longrightarrow> inject_loop bs rx = rx @ take (kPlRxCapacity - length rx) bs"
  by (induction bs arbitrary: rx) (auto simp: take_Cons' Suc_diff_le)

definition console_only :: "pl011 \<Rightarrow> pl011 \<Rightarrow> bool" where
  "console_only u u' \<longleftrightarrow> pl_rx u' = pl_rx u \<and> pl_console_limit u' = pl_console_limit u \<and> pl_ibrd u' = pl_ibrd u \<and>
     pl_fbrd u' = pl_fbrd u \<and> pl_ifls u' = pl_ifls u \<and> pl_terminal_query u' = pl_terminal_query u \<and>
     (length (pl_console u) \<le> pl_console_limit u \<longrightarrow> length (pl_console u') \<le> pl_console_limit u)"

lemma pl011_emit_console_only: "console_only u (pl011_emit_tx_locked c u)"
  by (auto simp: console_only_def pl011_emit_tx_locked_def Let_def)

lemma fold_console_only: "console_only u v \<Longrightarrow> console_only u (fold pl011_emit_tx_locked bs v)"
proof (induction bs arbitrary: v)
  case (Cons b bs)
  have "console_only u (pl011_emit_tx_locked b v)" using Cons.prems pl011_emit_console_only [of v b] by (auto simp: console_only_def)
  then show ?case by (simp add: Cons.IH)
qed simp

lemma prefix_query: "take (length q) pl011_query = q \<Longrightarrow> q \<noteq> pl011_query \<Longrightarrow> strict_prefix q pl011_query"
  by (metis strict_prefixI take_is_prefix)

lemma handle_tx_fields:
  assumes "pl_ok u" and v: "v = handle_tx_locked c u"
  shows "length (pl_rx v) \<le> kPlRxCapacity \<and> length (pl_console v) \<le> pl_console_limit v \<and>
    pl_ibrd v = pl_ibrd u \<and> pl_fbrd v = pl_fbrd u \<and> pl_ifls v = pl_ifls u \<and> strict_prefix (pl_terminal_query v) pl011_query"
proof -
  let ?q = "pl_terminal_query u @ [c]" and ?w = "u\<lparr>pl_terminal_query := pl_terminal_query u @ [c]\<rparr>"
  have nil: "strict_prefix [] pl011_query" by (simp add: pl011_query_def)
  have refl: "console_only ?w ?w" by (simp add: console_only_def)
  consider "v = pl011_emit_tx_locked c u" | "v = ?w" "strict_prefix ?q pl011_query"
    | "v = ?w\<lparr>pl_rx := push_response (rev pl011_response) (pl_rx u), pl_ris := pl_ris u OR kRxInterrupts, pl_terminal_query := []\<rparr>"
    | "v = (fold pl011_emit_tx_locked ?q ?w)\<lparr>pl_terminal_query := []\<rparr>"
  proof (cases "pl_echo_stdout u \<or> pl_terminal_query u = [] \<and> c \<noteq> 0x1B")
    case True
    then have "v = pl011_emit_tx_locked c u" by (auto simp: v handle_tx_locked_def)
    then show ?thesis by (rule that(1))
  next
    case False
    then have "v = (if take (length ?q) pl011_query = ?q
       then if ?q = pl011_query
            then ?w\<lparr>pl_rx := push_response (rev pl011_response) (pl_rx u), pl_ris := pl_ris u OR kRxInterrupts, pl_terminal_query := []\<rparr>
            else ?w
       else (fold pl011_emit_tx_locked ?q ?w)\<lparr>pl_terminal_query := []\<rparr>)"
      by (auto simp: v handle_tx_locked_def Let_def)
    then show ?thesis using that(2-4) prefix_query [of ?q] by presburger
  qed
  then show ?thesis
  proof cases
    case 1
    then show ?thesis using assms(1) pl011_emit_console_only [of u c] by (auto simp: pl_ok_def console_only_def)
  next
    case 2
    then show ?thesis using assms(1) by (auto simp: pl_ok_def)
  next
    case 3
    then show ?thesis using assms(1) nil by (auto simp: pl_ok_def push_response_length)
  next
    case 4
    then show ?thesis using assms(1) nil fold_console_only [OF refl, of ?q] by (auto simp: pl_ok_def console_only_def)
  qed
qed

datatype pl011_event = Pl_Read u64 bytes u32 | Pl_Write u64 bytes u32 | Pl_Inject bytes | Pl_Refresh

fun pl011_step :: "pl011 \<Rightarrow> pl011_event \<Rightarrow> pl011" where
  "pl011_step u (Pl_Read off data n) = snd (pl011_read_mmio u off data n)"
| "pl011_step u (Pl_Write off data n) = pl011_write_mmio u off data n"
| "pl011_step u (Pl_Inject data) = inject_bytes data u"
| "pl011_step u Pl_Refresh = refresh_irq u"

lemma pl011_read_ok: "pl_ok u \<Longrightarrow> pl_ok (snd (pl011_read_dr u))"
  by (auto simp: pl011_read_dr_def Let_def split: list.split intro!: pl_ok_update) (auto simp: pl_ok_def)

lemma pl011_write_ok:
  assumes "pl_ok u"
  shows "pl_ok (pl011_write_mmio u off data n)"
proof -
  have small: "unat (v AND 0xFFFF :: u32) < 0x10000" "unat (v AND 0x3F :: u32) < 0x40" for v
    using unat_and_le [of v "0xFFFF"] unat_and_le [of v "0x3F"] by simp_all
  show ?thesis
  proof (cases "off = 0")
    case True
    then show ?thesis using assms handle_tx_fields [OF assms refl, of "data ! 0"]
      by (auto simp: pl011_write_mmio_def Let_def pl_ok_def [of u] intro!: pl_ok_update)
  next
    case False
    then show ?thesis using assms small
      by (auto simp: pl011_write_mmio_def Let_def intro!: pl_ok_update) (auto simp: pl_ok_def pl_synced_def irq_pending_def)
  qed
qed

lemma inject_ok: "pl_ok u \<Longrightarrow> pl_ok (inject_bytes data u)"
  by (auto simp: inject_bytes_def Let_def intro!: pl_ok_update) (auto simp: pl_ok_def inject_loop_eq)

lemma refresh_ok: "pl_ok u \<Longrightarrow> pl_ok (refresh_irq u)"
  unfolding refresh_irq_def by (rule pl_ok_update) (simp_all add: pl_ok_def)

interpretation pl011_machine: invariant_machine pl011_step pl_ok
proof
  fix u e assume "pl_ok u"
  then show "pl_ok (pl011_step u e)"
    by (cases e) (auto simp: pl011_read_mmio_def pl011_write_ok inject_ok refresh_ok Let_def split: prod.split dest: pl011_read_ok)
qed

lemma pl011_init_ok: "pl_ok (pl011_init limit echo)"
  by (simp add: pl_ok_def pl011_init_def pl_synced_def irq_pending_def pl011_query_def)

lemma inject_rx: "pl_rx (inject_bytes xs u) = inject_loop xs (pl_rx u)"
  by (simp add: inject_bytes_def update_irq_locked_def Let_def)

lemma ucast_8_32_8: "(ucast (ucast b :: u32) :: u8) = b"
  by (rule bit_word_eqI) (simp add: bit_simps)

lemma read_dr_rx:
  assumes "pl_rx u = b # rest"
  shows "fst (pl011_read_dr u) = ucast b \<and> pl_rx (snd (pl011_read_dr u)) = rest"
  using assms by (auto simp: pl011_read_dr_def update_irq_locked_def Let_def)

interpretation pl011_queue: bounded_queue pl_ok pl_rx "\<lambda>u xs. (inject_bytes xs u, min (length xs) (kPlRxCapacity - length (pl_rx u)))"
  "\<lambda>u. case pl011_read_dr u of (v, u') \<Rightarrow> (ucast v, u')" kPlRxCapacity
proof
  fix u u' :: pl011 and xs n
  assume "pl_ok u" "(inject_bytes xs u, min (length xs) (kPlRxCapacity - length (pl_rx u))) = (u', n)"
  then show "pl_ok u' \<and> n = min (length xs) (kPlRxCapacity - length (pl_rx u)) \<and> pl_rx u' = pl_rx u @ take n xs"
    using inject_ok [of u xs] by (auto simp: inject_rx inject_loop_eq min_def pl_ok_def [of u])
next
  fix u u' :: pl011 and x :: u8
  assume "pl_ok u" "pl_rx u \<noteq> []" "(case pl011_read_dr u of (v, u') \<Rightarrow> (ucast v, u')) = (x, u')"
  then show "pl_ok u' \<and> pl_rx u = x # pl_rx u'"
    using pl011_read_ok [of u] read_dr_rx [of u] by (cases "pl_rx u") (auto simp: ucast_8_32_8 split: prod.splits)
qed

text \<open>The serial port of the Arm machine is well formed in every state that any sequence of register accesses, host
  input and refreshes reaches: the receive and time-out status bits say exactly whether input is waiting, the
  interrupt line is the masked status, the receive flag of FR agrees, at most 4096 bytes wait, the console log keeps to
  its limit, the baud rate and FIFO level registers keep to their widths, and what is held back of the output is a
  proper prefix of the cursor query.\<close>
theorem pl011_well_formed:
  assumes "u = run pl011_step (pl011_init limit echo) es"
  shows "(bit (pl_ris u) 4 \<longleftrightarrow> pl_rx u \<noteq> []) \<and> (bit (pl_ris u) 6 \<longleftrightarrow> pl_rx u \<noteq> []) \<and> (pl_line u \<longleftrightarrow> pl_ris u AND pl_imsc u \<noteq> 0) \<and>
    (bit (pl011_reg u 0x018) 4 \<longleftrightarrow> pl_rx u = []) \<and> length (pl_rx u) \<le> 4096 \<and> length (pl_console u) \<le> pl_console_limit u \<and>
    unat (pl_ibrd u) < 2 ^ 16 \<and> unat (pl_fbrd u) < 2 ^ 6 \<and> unat (pl_ifls u) < 2 ^ 6 \<and>
    strict_prefix (pl_terminal_query u) pl011_query"
proof -
  have "pl_ok u" unfolding assms by (rule pl011_machine.run_inv [OF pl011_init_ok])
  moreover have "bit (pl011_reg u 0x018) 4 \<longleftrightarrow> pl_rx u = []" by (simp add: pl011_reg_def bit_simps bit_numeral_rec)
  ultimately show ?thesis by (simp add: pl_ok_def pl_synced_def irq_pending_def kPlRxCapacity_def)
qed

theorem pl011_well_formed_witness:
  "pl_line (run pl011_step (pl011_init 16 False) [Pl_Write 0x038 [0x10, 0, 0, 0, 0, 0, 0, 0] 4, Pl_Inject [0x41]])"
proof -
  let ?u = "run pl011_step (pl011_init 16 False) [Pl_Write 0x038 [0x10, 0, 0, 0, 0, 0, 0, 0] 4, Pl_Inject [0x41]]"
  have "pl_ris ?u AND pl_imsc ?u \<noteq> 0" by code_simp
  then show ?thesis using pl011_well_formed [OF refl, of 16 False "[Pl_Write 0x038 [0x10, 0, 0, 0, 0, 0, 0, 0] 4, Pl_Inject [0x41]]"] by blast
qed

text \<open>The receive queue of the port: what the host injects, as far as it fits, is read back from the data
  register in order.\<close>
theorem pl011_receives_in_order:
  assumes "u = run pl011_step (pl011_init limit echo) es" and "length (pl_rx u) + length bs \<le> 4096"
  shows "fst (get_many (\<lambda>u. case pl011_read_dr u of (v, u') \<Rightarrow> (ucast v :: u8, u')) (length (pl_rx u) + length bs) (inject_bytes bs u)) = pl_rx u @ bs"
  using pl011_queue.put_get_many [of u bs] pl011_machine.run_inv [OF pl011_init_ok] assms by (simp add: kPlRxCapacity_def)

section \<open>The clock and the GPIO block\<close>

text \<open>Setting the clock: after a write of \<open>v\<close> to the load register at host time \<open>t\<close> the data register reads
  \<open>v\<close> plus the seconds since, and stops at the largest 32-bit value.\<close>
theorem pl031_keeps_time:
  assumes "0 \<le> t" and "t \<le> t'" and "0 < n" and "n \<le> 4" and "v = ReadU32 ((!) data) 0"
  shows "uint (current_seconds (pl031_write_mmio r t 0x008 data n) t') = min (uint v + (t' - t)) (2 ^ 32 - 1)"
proof -
  define r' where "r' = pl031_write_mmio r t 0x008 data n"
  have set: "rt_offset_seconds r' = uint v - t"
    using assms by (auto simp: r'_def pl031_write_mmio_def Let_def word_le_nat_alt word_less_nat_alt)
  have "uint (- 1 :: u32) = 4294967295" by (simp add: unsigned_minus_1_eq_mask mask_eq_exp_minus_1)
  moreover have "uint (word_of_int k :: u32) = k" if "0 \<le> k" "k \<le> 4294967295" for k
    using that by (simp add: unsigned_of_int take_bit_int_eq_self_iff)
  moreover have "0 \<le> t' + (uint v - t)" using assms(2) unsigned_greater_eq [of v, where ?'a = int] by linarith
  moreover have "\<not> t' < 0" using assms by simp
  ultimately have "uint (current_seconds r' t') = min (t' + (uint v - t)) 4294967295"
    unfolding current_seconds_def set Let_def min_def by (simp del: of_int_add of_int_diff)
  then show ?thesis by (simp add: r'_def algebra_simps)
qed

text \<open>A write to the data window changes exactly the output pins that the address selects.\<close>
lemma pl061_write_data:
  assumes "off \<le> 0x3FC" and "0 < n" and "n \<le> 4" and "i < 8"
  shows "bit (gp_data (pl061_write_mmio g off data n)) i \<longleftrightarrow>
    (if bit off (i + 2) \<and> bit (gp_dir g) i then bit (data ! 0) i else bit (gp_data g) i)"
proof -
  have "bit (ReadU32 ((!) data) 0) i \<longleftrightarrow> bit (data ! 0) i" using assms(4) by (simp add: ReadU32_def bit_simps)
  moreover have "bit (0xFF :: u32) i" "bit (0xFF :: u64) i"
    using assms(4) bit_mask_iff [of 8 i, where ?'a = "u32"] bit_mask_iff [of 8 i, where ?'a = "u64"] by (simp_all add: mask_eq_exp_minus_1)
  ultimately show ?thesis using assms
    by (auto simp: pl061_write_mmio_def Let_def DataMask_def bit_simps add.commute not_less [symmetric])
qed

end
