(* ===== verification/Arm_Traps.thy ===== *)
theory Arm_Traps
  imports Arm_Psci Arm_Devices
begin

unbundle bit_operations_syntax

text \<open>
  The exits of an Arm processor (native/hvf/backend.cc, EsrEC to HandleSystemRegisterTrap, and the lambdas dispatch_mmio and
  vcpu_main of RunVm): system register traps, loads and stores to the device windows, and the calls
  HVC and SMC. The hypervisor's access to registers is the record \<open>hv_api\<close>; \<open>hv_regs_ok\<close> states its documented
  behaviour. The virtio transports are elements of an arbitrary type with their own read and write operations, which may throw.
\<close>

section \<open>Syndrome\<close>

definition EsrEC :: "u64 \<Rightarrow> u32" where "EsrEC esr = ucast (drop_bit 26 esr AND 0x3F)"
definition EsrWnR :: "u64 \<Rightarrow> bool" where "EsrWnR esr \<longleftrightarrow> drop_bit 6 esr AND 1 \<noteq> 0"
definition EsrSAS :: "u64 \<Rightarrow> u32" where "EsrSAS esr = ucast (drop_bit 22 esr AND 3)"
definition EsrSRT :: "u64 \<Rightarrow> u32" where "EsrSRT esr = ucast (drop_bit 16 esr AND 0x1F)"
definition EsrISV :: "u64 \<Rightarrow> bool" where "EsrISV esr \<longleftrightarrow> drop_bit 24 esr AND 1 \<noteq> 0"
definition EsrSSE :: "u64 \<Rightarrow> bool" where "EsrSSE esr \<longleftrightarrow> drop_bit 21 esr AND 1 \<noteq> 0"

definition SysReg :: "u32 \<Rightarrow> u32 \<Rightarrow> u32 \<Rightarrow> u32 \<Rightarrow> u32 \<Rightarrow> u32" where
  "SysReg op0 op1 crn crm op2 =
    push_bit 20 op0 OR push_bit 14 op1 OR push_bit 10 crn OR push_bit 1 crm OR push_bit 17 op2"

definition kSysRegMask :: u32 where "kSysRegMask = SysReg 0x3 0x7 0xF 0xF 0x7"
definition kSysRegOslArEl1 :: u32 where "kSysRegOslArEl1 = SysReg 2 0 1 0 4"
definition kSysRegOslSrEl1 :: u32 where "kSysRegOslSrEl1 = SysReg 2 0 1 1 4"
definition kSysRegOsdLrEl1 :: u32 where "kSysRegOsdLrEl1 = SysReg 2 0 1 3 4"
definition kSysRegLorcEl1 :: u32 where "kSysRegLorcEl1 = SysReg 3 0 10 4 3"
definition kSysRegCntPctEl0 :: u32 where "kSysRegCntPctEl0 = SysReg 3 3 14 0 1"
definition kSysRegCntpCtlEl0 :: u32 where "kSysRegCntpCtlEl0 = SysReg 3 3 14 2 1"

section \<open>Registers\<close>

record 'c hv_api =
  hv_get_reg :: "'c \<Rightarrow> nat \<Rightarrow> u64"
  hv_set_reg :: "'c \<Rightarrow> nat \<Rightarrow> u64 \<Rightarrow> 'c"
  hv_reg_pc :: nat

definition hv_regs_ok :: "'c hv_api \<Rightarrow> bool" where
  "hv_regs_ok api \<longleftrightarrow> 31 \<le> hv_reg_pc api \<and>
    (\<forall>c r v. hv_get_reg api (hv_set_reg api c r v) r = v) \<and>
    (\<forall>c r r' v. r \<noteq> r' \<longrightarrow> hv_get_reg api (hv_set_reg api c r v) r' = hv_get_reg api c r')"

text \<open>HandleSystemRegisterTrap; \<open>micros\<close> is the monotonic clock. The result says whether the trap was handled.\<close>

definition HandleSystemRegisterTrap :: "'c hv_api \<Rightarrow> u64 \<Rightarrow> 'c \<Rightarrow> u64 \<Rightarrow> bool \<times> 'c" where
  "HandleSystemRegisterTrap api micros vcpu syndrome =
    (let is_read = (syndrome AND 1 \<noteq> 0); rt = unat (drop_bit 5 syndrome AND 0x1F); reg = ucast syndrome AND kSysRegMask
     in if is_read
        then (let (handled, val) =
                (if reg \<in> {kSysRegOslSrEl1, kSysRegOsdLrEl1, kSysRegLorcEl1} then (True, 0)
                 else if reg = kSysRegCntPctEl0 then (True, micros * 1000) else (False, 0))
              in (handled, if handled \<and> rt < 31 then hv_set_reg api vcpu rt val else vcpu))
        else (reg \<in> {kSysRegOslArEl1, kSysRegOsdLrEl1, kSysRegLorcEl1, kSysRegCntpCtlEl0}, vcpu))"

section \<open>The bus\<close>

record 'v transport_ops =
  vo_base :: "'v \<Rightarrow> u64"
  vo_read :: "'v \<Rightarrow> u64 \<Rightarrow> bytes \<Rightarrow> u32 \<Rightarrow> (bytes \<times> 'v) result"
  vo_write :: "'v \<Rightarrow> u64 \<Rightarrow> bytes \<Rightarrow> u32 \<Rightarrow> 'v result"

record 'v arm_bus =
  bus_uart :: pl011
  bus_rtc :: pl031
  bus_fw_cfg :: fw_cfg
  bus_gpio :: pl061
  bus_blks :: "'v list"
  bus_net :: "'v option"
  bus_stop :: "(string \<times> int) option"

definition transport_contains :: "'v transport_ops \<Rightarrow> 'v \<Rightarrow> u64 \<Rightarrow> bool" where
  "transport_contains ops v addr \<longleftrightarrow> vo_base ops v \<le> addr \<and> addr < vo_base ops v + kVirtioMmioSize"

definition transport_access :: "'v transport_ops \<Rightarrow> u64 \<Rightarrow> bool \<Rightarrow> bytes \<Rightarrow> u32 \<Rightarrow> 'v \<Rightarrow> (bytes \<times> 'v) result" where
  "transport_access ops ipa is_write data n v =
    (if is_write then rbind (vo_write ops v ipa data n) (\<lambda>v. Inr (data, v)) else vo_read ops v ipa data n)"

text \<open>The first disk whose window holds the address.\<close>

fun blk_access :: "'v transport_ops \<Rightarrow> u64 \<Rightarrow> bool \<Rightarrow> bytes \<Rightarrow> u32 \<Rightarrow> 'v list \<Rightarrow> (bytes \<times> 'v list) result option" where
  "blk_access ops ipa is_write data n [] = None"
| "blk_access ops ipa is_write data n (v # vs) =
    (if transport_contains ops v ipa
     then Some (rbind (transport_access ops ipa is_write data n v) (\<lambda>(data, v). Inr (data, v # vs)))
     else map_option (\<lambda>r. rbind r (\<lambda>(data, vs). Inr (data, v # vs))) (blk_access ops ipa is_write data n vs))"

definition net_contains :: "'v transport_ops \<Rightarrow> 'v arm_bus \<Rightarrow> u64 \<Rightarrow> bool" where
  "net_contains ops bus ipa = (case bus_net bus of Some v \<Rightarrow> transport_contains ops v ipa | None \<Rightarrow> False)"

text \<open>dispatch_mmio: the buffer and the bus after the access; None if no device owns the address. \<open>now\<close> is the time of the clock.\<close>

definition dispatch_mmio :: "'v transport_ops \<Rightarrow> int \<Rightarrow> 'v arm_bus \<Rightarrow> u64 \<Rightarrow> bool \<Rightarrow> bytes \<Rightarrow> u32 \<Rightarrow> (bytes \<times> 'v arm_bus) result option" where
  "dispatch_mmio ops now bus ipa is_write data n =
    (if kUartBase \<le> ipa \<and> ipa < kUartBase + 0x1000
     then let off = ipa - kUartBase
          in if is_write then Some (Inr (data, bus\<lparr>bus_uart := pl011_write_mmio (bus_uart bus) off data n\<rparr>))
             else case pl011_read_mmio (bus_uart bus) off data n of (data, u) \<Rightarrow> Some (Inr (data, bus\<lparr>bus_uart := u\<rparr>))
     else if kPl031RtcBase \<le> ipa \<and> ipa < kPl031RtcBase + 0x1000
     then let off = ipa - kPl031RtcBase
          in if is_write then Some (Inr (data, bus\<lparr>bus_rtc := pl031_write_mmio (bus_rtc bus) now off data n\<rparr>))
             else Some (Inr (pl031_read_mmio (bus_rtc bus) now off data n, bus))
     else if kFwCfgBase \<le> ipa \<and> ipa < kFwCfgBase + 0x18
     then let off = ipa - kFwCfgBase
          in if is_write then Some (Inr (data, bus\<lparr>bus_fw_cfg := fw_cfg_write_mmio (bus_fw_cfg bus) off data n\<rparr>))
             else case fw_cfg_read_mmio (bus_fw_cfg bus) off data n of (data, f) \<Rightarrow> Some (Inr (data, bus\<lparr>bus_fw_cfg := f\<rparr>))
     else if kPl061GpioBase \<le> ipa \<and> ipa < kPl061GpioBase + 0x1000
     then let off = ipa - kPl061GpioBase
          in if is_write then Some (Inr (data, bus\<lparr>bus_gpio := pl061_write_mmio (bus_gpio bus) off data n\<rparr>))
             else Some (Inr (pl061_read_mmio (bus_gpio bus) off data n, bus))
     else if kPcieEcamBase \<le> ipa \<and> ipa < kPcieEcamBase + kPcieEcamSize
     then Some (Inr (if is_write then data else pcie_read_mmio data n, bus))
     else if kPciePioBase \<le> ipa \<and> ipa < kPciePioBase + kPciePioSize
     then Some (Inr (if is_write then data else pcie_read_mmio data n, bus))
     else case blk_access ops ipa is_write data n (bus_blks bus) of
       Some r \<Rightarrow> Some (rbind r (\<lambda>(data, blks). Inr (data, bus\<lparr>bus_blks := blks\<rparr>)))
     | None \<Rightarrow>
       (if net_contains ops bus ipa
        then Some (rbind (transport_access ops ipa is_write data n (the (bus_net bus))) (\<lambda>(data, v). Inr (data, bus\<lparr>bus_net := Some v\<rparr>)))
        else if IsQemuVirtioMmioAddress ipa
        then Some (Inr (if is_write then data else empty_virtio_read_mmio (VirtioMmioOffset ipa) data n, bus))
        else if kExitDevBase \<le> ipa \<and> ipa < kExitDevBase + 0x1000
        then Some (Inr (data, if is_write \<and> bus_stop bus = None then bus\<lparr>bus_stop := Some (''guest-exit'', uint (data ! 0))\<rparr> else bus))
        else None))"

section \<open>Data aborts\<close>

text \<open>What the thread does after the exit: the next round of its loop, or the end with a stop request, or an exception.\<close>

text \<open>A stop reason is its kind; the numbers that trap_reason appends are left out.\<close>

datatype ('c, 'v) after_exit = Next 'c "'v arm_bus" | Stop_Run string | Throws string

definition store_data :: "u64 \<Rightarrow> u32 \<Rightarrow> bytes" where
  "store_data reg_val n = fold (\<lambda>i data. data[i := ucast (drop_bit (8 * i) reg_val)]) [0 ..< min (unat n) 8] (replicate 8 0)"

definition load_value :: "bytes \<Rightarrow> u32 \<Rightarrow> u64" where
  "load_value data n = fold (\<lambda>i v. v OR push_bit (8 * i) (ucast (data ! i))) [0 ..< min (unat n) 8] 0"

definition sign_extend :: "u32 \<Rightarrow> u64 \<Rightarrow> u64" where
  "sign_extend n reg_val =
    (let sign_bit = push_bit (8 * unat n - 1) 1
     in if reg_val AND sign_bit \<noteq> 0 then reg_val OR NOT (push_bit 1 sign_bit - 1) else reg_val)"

definition data_abort :: "'c hv_api \<Rightarrow> 'v transport_ops \<Rightarrow> int \<Rightarrow> u64 \<Rightarrow> u64 \<Rightarrow> 'c \<Rightarrow> 'v arm_bus \<Rightarrow> ('c, 'v) after_exit" where
  "data_abort api ops now syndrome ipa vcpu bus =
    (let pc = hv_get_reg api vcpu (hv_reg_pc api)
     in if EsrEC syndrome = 0x24 \<and> EsrISV syndrome
        then let is_write = EsrWnR syndrome; n = push_bit (unat (EsrSAS syndrome)) 1; srt = unat (EsrSRT syndrome);
                 data = (if is_write then store_data (hv_get_reg api vcpu srt) n else replicate 8 0)
             in case dispatch_mmio ops now bus ipa is_write data n of
                  None \<Rightarrow> Stop_Run ''unhandled-mmio''
                | Some (Inl e) \<Rightarrow> Throws e
                | Some (Inr (data, bus)) \<Rightarrow>
                   (let vcpu = (if \<not> is_write
                          then let reg_val = load_value data n; reg_val = (if EsrSSE syndrome then sign_extend n reg_val else reg_val)
                               in hv_set_reg api vcpu srt reg_val
                          else vcpu)
                    in Next (hv_set_reg api vcpu (hv_reg_pc api) (pc + 4)) bus)
        else Stop_Run ''unsupported-mmio-trap'')"

text \<open>The exceptions that have no part in the life cycle of the processors; \<open>poll\<close> is what the poll of the network does to the bus.\<close>

definition arm_exception ::
  "'c hv_api \<Rightarrow> 'v transport_ops \<Rightarrow> ('v arm_bus \<Rightarrow> 'v arm_bus) \<Rightarrow> int \<Rightarrow> u64 \<Rightarrow> u64 \<Rightarrow> u64 \<Rightarrow> 'c \<Rightarrow> 'v arm_bus \<Rightarrow> ('c, 'v) after_exit" where
  "arm_exception api ops poll now micros syndrome ipa vcpu bus =
    (let ec = EsrEC syndrome; pc = hv_get_reg api vcpu (hv_reg_pc api)
     in if ec = 0x17
        then let vcpu = hv_set_reg api vcpu 0 kPsciNotSupported
             in Next (hv_set_reg api vcpu (hv_reg_pc api) (hv_get_reg api vcpu (hv_reg_pc api) + 4)) bus
        else if ec = 0x01 then Next (hv_set_reg api vcpu (hv_reg_pc api) (pc + 4)) (poll bus)
        else if ec = 0x18
        then case HandleSystemRegisterTrap api micros vcpu syndrome of
               (handled, vcpu) \<Rightarrow> if handled then Next (hv_set_reg api vcpu (hv_reg_pc api) (pc + 4)) bus
                                 else Stop_Run ''unhandled-sysreg''
        else if ec = 0x24 \<or> ec = 0x20 then data_abort api ops now syndrome ipa vcpu bus
        else Stop_Run ''unhandled-trap'')"

section \<open>What a load or store does\<close>

lemma store_data_eq:
  assumes "unat n \<le> 8"
  shows "store_data v n = take (unat n) (le_bytes 8 v) @ replicate (8 - unat n) 0"
proof -
  have fold: "fold (\<lambda>i data. data[i := f i]) [0 ..< k] (xs :: bytes) = map f [0 ..< k] @ drop k xs" if "k \<le> length xs" for f k xs
    using that
  proof (induction k)
    case (Suc k)
    then have "drop k xs = xs ! k # drop (Suc k) xs" by (simp add: Cons_nth_drop_Suc)
    then show ?case using Suc by (simp add: list_update_append)
  qed simp
  have "(ucast (drop_bit (8 * i) v) :: u8) = ucast (drop_bit (8 * i) v AND 0xff)" for i
    by (rule bit_word_eqI) (auto simp: and_masks bit_simps)
  then show ?thesis using assms fold [of "unat n" "replicate 8 0"] by (simp add: store_data_def le_bytes_def take_map min_def)
qed

lemma bit_load_value:
  assumes "unat n \<le> 8" and "k < 64"
  shows "bit (load_value data n) k \<longleftrightarrow> k div 8 < unat n \<and> bit (data ! (k div 8)) (k mod 8)"
  using assms by (auto simp: load_value_def bit_fold_or bit_byte_at min_def)

lemma bit_sign_extend:
  assumes "0 < unat n" and "unat n \<le> 8" and "k < 64"
  shows "bit (sign_extend n v) k \<longleftrightarrow> (if k < 8 * unat n then bit v k else bit v (8 * unat n - 1) \<or> bit v k)"
proof -
  let ?w = "8 * unat n"
  have sign: "v AND push_bit (?w - 1) 1 \<noteq> 0 \<longleftrightarrow> bit v (?w - 1)"
    using assms by (auto simp: bit_eq_iff [where ?'a = "64 word"] bit_simps)
  have "push_bit 1 (push_bit (?w - 1) 1) = (push_bit (1 + (?w - 1)) 1 :: u64)" by (simp only: push_bit_push_bit)
  moreover have "1 + (?w - 1) = ?w" using assms by simp
  ultimately have "push_bit 1 (push_bit (?w - 1) 1) = (push_bit ?w 1 :: u64)" by simp
  then have "NOT (push_bit 1 (push_bit (?w - 1) 1) - 1 :: u64) = NOT (mask ?w)"
    by (simp add: mask_eq_exp_minus_1 push_bit_eq_mult)
  then show ?thesis using assms sign by (auto simp: sign_extend_def Let_def bit_simps)
qed

lemma size_bytes: "unat (push_bit (unat (EsrSAS syndrome)) 1 :: u32) \<in> {1, 2, 4, 8}"
proof -
  have "unat (EsrSAS syndrome) < 4"
  proof -
    have "unat (drop_bit 22 syndrome AND 3) < 4" using word_and_le1 [of "drop_bit 22 syndrome" 3] by (simp add: word_le_nat_alt)
    then show ?thesis by (simp add: EsrSAS_def unsigned_ucast_eq take_bit_nat_eq_self)
  qed
  then consider "unat (EsrSAS syndrome) = 0" | "unat (EsrSAS syndrome) = 1" | "unat (EsrSAS syndrome) = 2" | "unat (EsrSAS syndrome) = 3" by linarith
  then show ?thesis by cases simp_all
qed


text \<open>Registers as a function of their number, with the program counter after X30: a storage byte to the serial port.\<close>

definition plain_regs :: "(nat \<Rightarrow> u64) hv_api" where
  "plain_regs = \<lparr>hv_get_reg = \<lambda>c r. c r, hv_set_reg = \<lambda>c r v. c(r := v), hv_reg_pc = 31\<rparr>"

definition idle_bus :: "unit arm_bus" where
  "idle_bus = \<lparr>bus_uart = pl011_init 16 False, bus_rtc = pl031_init, bus_fw_cfg = fw_cfg_init 1, bus_gpio = pl061_init,
     bus_blks = [], bus_net = None, bus_stop = None\<rparr>"

definition no_virtio :: "unit transport_ops" where
  "no_virtio = \<lparr>vo_base = \<lambda>_. 0, vo_read = \<lambda>v _ d _. Inr (d, v), vo_write = \<lambda>v _ _ _. Inr v\<rparr>"

lemma plain_regs_ok: "hv_regs_ok plain_regs"
  by (simp add: hv_regs_ok_def plain_regs_def)


text \<open>A store of the zero register writes the program counter. The register field 31 of a syndrome stands for the zero register;
  the handler passes it to the hypervisor as a register number, where 31 is the program counter. A byte store of zero to the
  serial port (syndrome 0x931F0040) at address 0x40400141 therefore prints the character 0x41, the low byte of the program
  counter, instead of a NUL.\<close>
theorem zero_register_store_writes_pc:
  "\<exists>vcpu' bus'. data_abort plain_regs no_virtio 0 0x931F0040 0x9000000 (\<lambda>r. if r = 31 then 0x40400141 else 0) idle_bus = Next vcpu' bus' \<and>
    EsrSRT 0x931F0040 = 31 \<and> pl_console (bus_uart bus') = [0x41]"
proof -
  have syn: "EsrEC 0x931F0040 = 0x24" "EsrISV 0x931F0040" "EsrSRT 0x931F0040 = 31" "EsrSAS 0x931F0040 = 0" "EsrWnR 0x931F0040" by code_simp+
  have d: "store_data 0x40400141 1 = [0x41, 0, 0, 0, 0, 0, 0, 0]" by code_simp
  have c: "pl_console (pl011_write_mmio (pl011_init 16 False) 0 [0x41, 0, 0, 0, 0, 0, 0, 0] 1) = [0x41]" by code_simp
  show ?thesis
    by (simp add: data_abort_def syn plain_regs_def d dispatch_mmio_def source_consts idle_bus_def c Let_def)
qed

end
