(* ===== verification/Kvm_Run.thy ===== *)
theory Kvm_Run
  imports Kvm_Uart Whp_Run Arm_Traps
begin

unbundle bit_operations_syntax

text \<open>
  The run loop of the Linux backend (native/kvm/backend.cc: HandleMmio, ExitReasonName, struct RunControl, and from RunVm interrupt_all, finish, record_error,
  the watchdog, vcpu_loop, make_result and the code that starts and joins the threads). A thread is a place in its code and a step runs to its next access to a shared
  variable; a section under device_mu is one step, and interrupt_all two, the flags and the signals. A processor is stopped by setting immediate_exit in its kvm_run, which KVM_RUN tests when it
  is entered, and by the signal SIGUSR1, whose handler does nothing: it ends the KVM_RUN that is under way and has no other effect. The virtio
  transports and the poll of the network are parameters.
\<close>

section \<open>Exits\<close>

datatype kvm_reason = KVM_EXIT_UNKNOWN | KVM_EXIT_EXCEPTION | KVM_EXIT_IO | KVM_EXIT_HLT | KVM_EXIT_MMIO | KVM_EXIT_IRQ_WINDOW_OPEN | KVM_EXIT_SHUTDOWN
  | KVM_EXIT_FAIL_ENTRY | KVM_EXIT_INTERNAL_ERROR | KVM_EXIT_SYSTEM_EVENT | KVM_EXIT_INTR | Kvm_Exit_Other nat

text \<open>The default branch also names KVM_EXIT_INTR, whose number is 10.\<close>

fun ExitReasonName :: "kvm_reason \<Rightarrow> string" where
  "ExitReasonName KVM_EXIT_UNKNOWN = ''unknown''"
| "ExitReasonName KVM_EXIT_EXCEPTION = ''exception''"
| "ExitReasonName KVM_EXIT_IO = ''io''"
| "ExitReasonName KVM_EXIT_HLT = ''hlt''"
| "ExitReasonName KVM_EXIT_MMIO = ''mmio''"
| "ExitReasonName KVM_EXIT_IRQ_WINDOW_OPEN = ''irq-window-open''"
| "ExitReasonName KVM_EXIT_SHUTDOWN = ''shutdown''"
| "ExitReasonName KVM_EXIT_FAIL_ENTRY = ''fail-entry''"
| "ExitReasonName KVM_EXIT_INTERNAL_ERROR = ''internal-error''"
| "ExitReasonName KVM_EXIT_SYSTEM_EVENT = ''system-event''"
| "ExitReasonName KVM_EXIT_INTR = ''exit-10''"
| "ExitReasonName (Kvm_Exit_Other n) = ''exit-'' @ to_dec n"

text \<open>The members of kvm_run that the loop reads; the reason, a port access, a memory access, and the reason of a failed entry.\<close>

record kvm_mmio =
  km_addr :: u64
  km_write :: bool
  km_data :: bytes
  km_len :: u32

record kvm_exit =
  kx_reason :: kvm_reason
  kx_io :: kvm_io
  kx_mmio :: kvm_mmio
  kx_fail :: nat

record 'v kvm_bus =
  kb_blks :: "'v list"
  kb_net :: "'v option"

definition kKvmVirtioStride :: u64 where "kKvmVirtioStride = 0x1000"

fun kvm_blk_access :: "'v transport_ops \<Rightarrow> kvm_mmio \<Rightarrow> 'v list \<Rightarrow> (bytes \<times> 'v list) result option" where
  "kvm_blk_access ops x [] = None"
| "kvm_blk_access ops x (v # vs) =
    (if vo_base ops v \<le> km_addr x \<and> km_addr x < vo_base ops v + kKvmVirtioStride
     then Some (rbind (transport_access ops (km_addr x) (km_write x) (km_data x) (km_len x) v) (\<lambda>(data, v). Inr (data, v # vs)))
     else map_option (\<lambda>r. rbind r (\<lambda>(data, vs). Inr (data, v # vs))) (kvm_blk_access ops x vs))"

text \<open>Whether a device owns the address, the data afterwards, and the devices.\<close>

definition HandleMmio :: "'v transport_ops \<Rightarrow> kvm_mmio \<Rightarrow> 'v kvm_bus \<Rightarrow> (bool \<times> kvm_mmio \<times> 'v kvm_bus) result" where
  "HandleMmio ops x bus =
    (case kvm_blk_access ops x (kb_blks bus) of
       Some r \<Rightarrow> rbind r (\<lambda>(data, vs). Inr (True, x\<lparr>km_data := data\<rparr>, bus\<lparr>kb_blks := vs\<rparr>))
     | None \<Rightarrow>
        (case kb_net bus of
           Some v \<Rightarrow> if vo_base ops v \<le> km_addr x \<and> km_addr x < vo_base ops v + kKvmVirtioStride
             then rbind (transport_access ops (km_addr x) (km_write x) (km_data x) (km_len x) v) (\<lambda>(data, v). Inr (True, x\<lparr>km_data := data\<rparr>, bus\<lparr>kb_net := Some v\<rparr>))
             else Inr (False, if km_write x then x else x\<lparr>km_data := buf_put (km_data x) 0 (replicate (unat (km_len x)) 0)\<rparr>, bus)
         | None \<Rightarrow> Inr (False, if km_write x then x else x\<lparr>km_data := buf_put (km_data x) 0 (replicate (unat (km_len x)) 0)\<rparr>, bus)))"

section \<open>The state of a run\<close>

record 'v kvm_config =
  kc_ops :: "'v transport_ops"
  kc_poll :: "'v kvm_bus \<Rightarrow> 'v kvm_bus"
  kc_cpus :: nat
  kc_timeout_ms :: nat
  kc_base :: int
  kc_control :: bool

text \<open>What the outside decides: the command word, the clock in nanoseconds, whether the tap has data, and what KVM_RUN does. \<open>Kvm_Goes_On\<close>: the guest runs on.\<close>

datatype kvm_returns = Kvm_Goes_On | Kvm_Eintr | Kvm_Fails string | Kvm_Exits kvm_exit

record kvm_reading =
  kr_command :: int
  kr_now :: int
  kr_tap :: bool
  kr_run :: kvm_returns

record kvm_result =
  kt_reason :: string
  kt_code :: kvm_reason
  kt_runs :: u32
  kt_console :: bytes

text \<open>The places. \<open>K_Stopping\<close> to \<open>K_Signal\<close> are inside a stop, finish and interrupt_all, with the place they return to; from \<open>K_Join\<close> on they are those of the main thread, and
  those named \<open>V_\<close> those of the watchdog.\<close>

datatype kloc =
    K_Top | K_Command | K_Stopping kloc | K_Cas string kvm_reason kloc | K_Store string kvm_reason kloc | K_Kick kloc | K_Signal kloc
  | K_Pause_In | K_Pause_Report | K_Pause_Wait | K_Pause_Out | K_Pause_Command | K_Pause_Test | K_Pause_Running
  | K_Poll | K_Clear | K_Enter | K_Guest | K_Eintr | K_Eintr_Poll | K_Eintr_Halted | K_Eintr_Timeout | K_Exit kvm_exit | K_Io_Done bool | K_Error string | K_Return
  | K_Join | K_Exited | K_Stop_Watchdog | K_Join_Watchdog | K_Result "kvm_result result"
  | V_Loop | V_Host | V_Command | V_Tap | V_Pause | V_Deadline | V_Markers | V_Leave | V_End

text \<open>\<open>kv_signaled\<close>: a signal has reached the processor inside its KVM_RUN. \<open>kv_first\<close> records the first finish and \<open>kv_errors\<close> the recorded errors.\<close>

record 'v kvm_vm =
  kv_uart :: kvm_uart
  kv_bus :: "'v kvm_bus"
  kv_done :: bool
  kv_wd_done :: bool
  kv_timeout :: bool
  kv_wd_halted :: bool
  kv_ctrl_c :: bool
  kv_runs :: u64
  kv_paused :: nat
  kv_ext_ms :: int
  kv_reason :: string
  kv_code :: kvm_reason
  kv_error :: string
  kv_state :: int
  kv_immediate :: "bool list"
  kv_signaled :: "bool list"
  kv_paused_at :: "int list"
  kv_locs :: "kloc list"
  kv_first :: "(string \<times> kvm_reason) option"
  kv_errors :: "string list"

definition kvm_vm_init :: "'v kvm_config \<Rightarrow> kvm_uart \<Rightarrow> 'v kvm_bus \<Rightarrow> 'v kvm_vm" where
  "kvm_vm_init c u bus = \<lparr>kv_uart = u, kv_bus = bus, kv_done = False, kv_wd_done = False, kv_timeout = False, kv_wd_halted = False, kv_ctrl_c = False, kv_runs = 0,
     kv_paused = 0, kv_ext_ms = 0, kv_reason = ''host-stop'', kv_code = KVM_EXIT_INTR, kv_error = [],
     kv_state = (if kc_control c then kControlStateRunning else kControlStateStarting),
     kv_immediate = replicate (kc_cpus c) False, kv_signaled = replicate (kc_cpus c) False, kv_paused_at = replicate (kc_cpus c) 0,
     kv_locs = replicate (kc_cpus c) K_Top @ [V_Loop], kv_first = None, kv_errors = []\<rparr>"

abbreviation kat :: "nat \<Rightarrow> kloc \<Rightarrow> 'v kvm_vm \<Rightarrow> 'v kvm_vm" where
  "kat i l s \<equiv> s\<lparr>kv_locs := (kv_locs s)[i := l]\<rparr>"

definition kvm_command :: "'v kvm_config \<Rightarrow> kvm_reading \<Rightarrow> int" where
  "kvm_command c r = (if \<not> kc_control c then kControlRun else kr_command r)"

definition kvm_set_state :: "'v kvm_config \<Rightarrow> int \<Rightarrow> 'v kvm_vm \<Rightarrow> 'v kvm_vm" where
  "kvm_set_state c st s = (if kc_control c then s\<lparr>kv_state := st\<rparr> else s)"

definition kvm_returned :: "nat \<Rightarrow> kloc" where
  "kvm_returned i = (if i = 0 then K_Cas ''host-stop'' KVM_EXIT_INTR K_Join else K_Return)"

text \<open>interrupt_all: immediate_exit of all processors, and then the signal to those that are in KVM_RUN.\<close>

definition kvm_kick :: "'v kvm_vm \<Rightarrow> 'v kvm_vm" where
  "kvm_kick s = s\<lparr>kv_immediate := map (\<lambda>_. True) (kv_immediate s)\<rparr>"

definition kvm_signal :: "'v kvm_vm \<Rightarrow> 'v kvm_vm" where
  "kvm_signal s = s\<lparr>kv_signaled := map (\<lambda>i. kv_signaled s ! i \<or> kv_locs s ! i = K_Guest) [0 ..< length (kv_signaled s)]\<rparr>"

definition kvm_console_ended :: "'v kvm_vm \<Rightarrow> bool" where
  "kvm_console_ended s \<longleftrightarrow> kvm_contains kHalted (kv_uart s) \<or> kvm_contains kRestarting (kv_uart s)"

section \<open>The steps\<close>

definition kvm_finish_cas :: "nat \<Rightarrow> string \<Rightarrow> kvm_reason \<Rightarrow> kloc \<Rightarrow> 'v kvm_vm \<Rightarrow> 'v kvm_vm" where
  "kvm_finish_cas i reason code l s =
    (if kv_done s then kat i l s else kat i (K_Store reason code l) (s\<lparr>kv_done := True, kv_first := Some (reason, code)\<rparr>))"

definition kvm_finish_store :: "nat \<Rightarrow> string \<Rightarrow> kvm_reason \<Rightarrow> kloc \<Rightarrow> 'v kvm_vm \<Rightarrow> 'v kvm_vm" where
  "kvm_finish_store i reason code l s = kat i (K_Kick l) (s\<lparr>kv_reason := reason, kv_code := code\<rparr>)"

definition kvm_record_error :: "string \<Rightarrow> 'v kvm_vm \<Rightarrow> 'v kvm_vm" where
  "kvm_record_error message s = s\<lparr>kv_error := (if kv_error s = [] then message else kv_error s), kv_errors := kv_errors s @ [message]\<rparr>"

definition kvm_pause_enter :: "'v kvm_config \<Rightarrow> nat \<Rightarrow> kvm_reading \<Rightarrow> 'v kvm_vm \<Rightarrow> 'v kvm_vm" where
  "kvm_pause_enter c i r s = kat i (if kv_paused s + 1 = kc_cpus c then K_Pause_Report else K_Pause_Wait)
     (s\<lparr>kv_paused_at := (kv_paused_at s)[i := kr_now r], kv_paused := kv_paused s + 1\<rparr>)"

definition kvm_pause_leave :: "'v kvm_config \<Rightarrow> nat \<Rightarrow> kvm_reading \<Rightarrow> 'v kvm_vm \<Rightarrow> 'v kvm_vm" where
  "kvm_pause_leave c i r s = kat i K_Pause_Command (s\<lparr>kv_paused := kv_paused s - 1,
     kv_ext_ms := (if 0 < kc_timeout_ms c \<and> i = 0 then kv_ext_ms s + (kr_now r - kv_paused_at s ! i) div 1000000 else kv_ext_ms s)\<rparr>)"

text \<open>KVM_RUN is entered, and what may happen inside it.\<close>

definition kvm_enter :: "nat \<Rightarrow> 'v kvm_vm \<Rightarrow> 'v kvm_vm" where
  "kvm_enter i s = (if kv_immediate s ! i then kat i K_Eintr s else kat i K_Guest (s\<lparr>kv_signaled := (kv_signaled s)[i := False]\<rparr>))"

definition kvm_guest :: "nat \<Rightarrow> kvm_reading \<Rightarrow> 'v kvm_vm \<Rightarrow> 'v kvm_vm" where
  "kvm_guest i r s = (case kr_run r of
     Kvm_Goes_On \<Rightarrow> if kv_signaled s ! i then kat i K_Eintr s else s
   | Kvm_Eintr \<Rightarrow> kat i K_Eintr s
   | Kvm_Fails e \<Rightarrow> kat i (K_Error (''KVM_RUN: '' @ e)) s
   | Kvm_Exits x \<Rightarrow> kat i (K_Exit x) (s\<lparr>kv_runs := kv_runs s + 1\<rparr>))"

definition kvm_poll_net :: "'v kvm_config \<Rightarrow> nat \<Rightarrow> 'v kvm_vm \<Rightarrow> 'v kvm_vm" where
  "kvm_poll_net c i s = (if i = 0 \<and> kb_net (kv_bus s) \<noteq> None then s\<lparr>kv_bus := kc_poll c (kv_bus s)\<rparr> else s)"

text \<open>The switch over the exits.\<close>

definition kvm_dispatch :: "'v kvm_config \<Rightarrow> nat \<Rightarrow> kvm_exit \<Rightarrow> 'v kvm_vm \<Rightarrow> 'v kvm_vm" where
  "kvm_dispatch c i x s =
    (case kx_reason x of
       KVM_EXIT_IO \<Rightarrow> (case HandleIo (kx_io x) (kv_uart s) of (_, u, g) \<Rightarrow> kat i (K_Io_Done (kg_requested g)) (s\<lparr>kv_uart := u\<rparr>))
     | KVM_EXIT_MMIO \<Rightarrow> (case HandleMmio (kc_ops c) (kx_mmio x) (kv_bus s) of
         Inl e \<Rightarrow> kat i (K_Error e) s | Inr (_, _, bus) \<Rightarrow> kat i K_Top (s\<lparr>kv_bus := bus\<rparr>))
     | KVM_EXIT_IRQ_WINDOW_OPEN \<Rightarrow> kat i K_Top s
     | KVM_EXIT_HLT \<Rightarrow> kat i (if i = 0 then K_Cas ''hlt'' KVM_EXIT_HLT (kvm_returned i) else K_Top) s
     | KVM_EXIT_SHUTDOWN \<Rightarrow> kat i (K_Cas ''shutdown'' KVM_EXIT_SHUTDOWN (kvm_returned i)) s
     | KVM_EXIT_SYSTEM_EVENT \<Rightarrow> kat i (K_Cas ''system-event'' KVM_EXIT_SYSTEM_EVENT (kvm_returned i)) s
     | KVM_EXIT_INTERNAL_ERROR \<Rightarrow> kat i (K_Error ''KVM internal error'') s
     | KVM_EXIT_FAIL_ENTRY \<Rightarrow> kat i (K_Error (''KVM fail entry hardware_entry_failure_reason='' @ to_dec (kx_fail x))) s
     | reason \<Rightarrow> kat i (K_Error (''unhandled KVM exit: '' @ ExitReasonName reason)) s)"

definition kvm_make_result :: "'v kvm_vm \<Rightarrow> kvm_result result" where
  "kvm_make_result s =
    (if kv_error s \<noteq> [] then Inl (kv_error s)
     else Inr \<lparr>kt_reason = kv_reason s, kt_code = kv_code s, kt_runs = (if 0xFFFFFFFF < kv_runs s then 0xFFFFFFFF else ucast (kv_runs s)),
            kt_console = ku_console (kv_uart s)\<rparr>)"

definition kvm_late :: "'v kvm_config \<Rightarrow> kvm_reading \<Rightarrow> 'v kvm_vm \<Rightarrow> bool" where
  "kvm_late c r s \<longleftrightarrow> 0 < kc_timeout_ms c \<and> kc_base c + 1000000 * (int (kc_timeout_ms c) + kv_ext_ms s) < kr_now r"

text \<open>The places of the watchdog.\<close>

definition kvm_watchdog :: "'v kvm_config \<Rightarrow> nat \<Rightarrow> kvm_reading \<Rightarrow> kloc \<Rightarrow> 'v kvm_vm \<Rightarrow> 'v kvm_vm option" where
  "kvm_watchdog c i r l s =
    (case l of
       V_Loop \<Rightarrow> Some (kat i (if kv_wd_done s then V_Leave else V_Host) s)
     | V_Host \<Rightarrow> Some (kat i (if kv_ctrl_c s then K_Cas ''host-stop'' KVM_EXIT_INTR V_Leave else V_Command) s)
     | V_Command \<Rightarrow> Some (kat i (if kvm_command c r \<noteq> kControlRun then K_Kick V_Tap else V_Tap) s)
     | V_Tap \<Rightarrow> Some (kat i (if kb_net (kv_bus s) \<noteq> None \<and> kr_tap r then K_Kick V_Pause else V_Pause) s)
     | V_Pause \<Rightarrow> Some (kat i (if kvm_command c r = kControlPause then V_Loop else V_Deadline) s)
     | V_Deadline \<Rightarrow> Some (if kvm_late c r s then kat i V_Leave (s\<lparr>kv_timeout := True\<rparr>) else kat i V_Markers s)
     | V_Markers \<Rightarrow> Some (if kvm_console_ended s then kat i (K_Cas ''halted-console'' KVM_EXIT_HLT V_Leave) (s\<lparr>kv_wd_halted := True\<rparr>) else kat i V_Loop s)
     | V_Leave \<Rightarrow> Some (kat i (if kv_wd_done s then V_End else K_Kick V_End) s)
     | _ \<Rightarrow> None)"

text \<open>One step of thread i; None: it waits for another one, or has ended.\<close>

definition kvm_thread_step :: "'v kvm_config \<Rightarrow> nat \<Rightarrow> kvm_reading \<Rightarrow> 'v kvm_vm \<Rightarrow> 'v kvm_vm option" where
  "kvm_thread_step c i r s =
    (case kv_locs s ! i of
       K_Top \<Rightarrow> Some (kat i (if kv_done s then kvm_returned i else K_Command) s)
     | K_Command \<Rightarrow> Some (kat i (if kvm_command c r = kControlStop then K_Stopping (kvm_returned i)
         else if kvm_command c r = kControlPause then K_Pause_In else K_Poll) s)
     | K_Stopping l \<Rightarrow> Some (kat i (K_Cas ''host-stop'' KVM_EXIT_INTR l) (kvm_set_state c kControlStateStopping s))
     | K_Cas reason code l \<Rightarrow> Some (kvm_finish_cas i reason code l s)
     | K_Store reason code l \<Rightarrow> Some (kvm_finish_store i reason code l s)
     | K_Kick l \<Rightarrow> Some (kat i (K_Signal l) (kvm_kick s))
     | K_Signal l \<Rightarrow> Some (kat i l (kvm_signal s))
     | K_Pause_In \<Rightarrow> Some (kvm_pause_enter c i r s)
     | K_Pause_Report \<Rightarrow> Some (kat i K_Pause_Wait (kvm_set_state c kControlStatePaused s))
     | K_Pause_Wait \<Rightarrow> Some (if kvm_command c r = kControlPause \<and> \<not> kv_done s then s else kat i K_Pause_Out s)
     | K_Pause_Out \<Rightarrow> Some (kvm_pause_leave c i r s)
     | K_Pause_Command \<Rightarrow> Some (kat i (if kvm_command c r = kControlStop then K_Stopping (kvm_returned i) else K_Pause_Test) s)
     | K_Pause_Test \<Rightarrow> Some (kat i (if kv_done s then K_Poll else K_Pause_Running) s)
     | K_Pause_Running \<Rightarrow> Some (kat i K_Poll (kvm_set_state c kControlStateRunning s))
     | K_Poll \<Rightarrow> Some (kat i K_Clear (kvm_poll_net c i s))
     | K_Clear \<Rightarrow> Some (kat i K_Enter (s\<lparr>kv_immediate := (kv_immediate s)[i := False]\<rparr>))
     | K_Enter \<Rightarrow> Some (kvm_enter i s)
     | K_Guest \<Rightarrow> Some (kvm_guest i r s)
     | K_Eintr \<Rightarrow> Some (kat i K_Eintr_Poll (s\<lparr>kv_immediate := (kv_immediate s)[i := False]\<rparr>))
     | K_Eintr_Poll \<Rightarrow> Some (kat i K_Eintr_Halted (kvm_poll_net c i s))
     | K_Eintr_Halted \<Rightarrow> Some (kat i (if kv_wd_halted s then K_Cas ''halted-console'' KVM_EXIT_HLT (kvm_returned i) else K_Eintr_Timeout) s)
     | K_Eintr_Timeout \<Rightarrow> Some (kat i (if kv_timeout s then K_Error (''VM timed out after '' @ to_dec (kc_timeout_ms c) @ ''ms'') else K_Top) s)
     | K_Exit x \<Rightarrow> Some (kvm_dispatch c i x s)
     | K_Io_Done requested \<Rightarrow> Some (kat i (if requested then K_Cas ''guest-exit'' KVM_EXIT_IO (kvm_returned i)
         else if kvm_console_ended s then K_Cas ''halted-console'' KVM_EXIT_HLT (kvm_returned i) else K_Top) s)
     | K_Error message \<Rightarrow> Some (kat i (K_Cas ''host-error'' KVM_EXIT_INTERNAL_ERROR (kvm_returned i)) (kvm_record_error message s))
     | K_Join \<Rightarrow> if \<forall>k \<in> {1 ..< kc_cpus c}. kv_locs s ! k = K_Return then Some (kat i K_Exited s) else None
     | K_Exited \<Rightarrow> Some (kat i K_Stop_Watchdog (kvm_set_state c kControlStateExited s))
     | K_Stop_Watchdog \<Rightarrow> Some (kat i K_Join_Watchdog (s\<lparr>kv_wd_done := True\<rparr>))
     | K_Join_Watchdog \<Rightarrow> if kv_locs s ! kc_cpus c = V_End then Some (kat i (K_Result (kvm_make_result s)) s) else None
     | K_Return \<Rightarrow> None | K_Result _ \<Rightarrow> None
     | l \<Rightarrow> kvm_watchdog c i r l s)"

text \<open>Typed bytes come from the input thread, which asks for the end of the machine when it reads a control-C.\<close>

datatype kvm_vm_event = Kvm_Thread nat kvm_reading | Kvm_Input bytes

fun kvm_vm_step :: "'v kvm_config \<Rightarrow> 'v kvm_vm \<Rightarrow> kvm_vm_event \<Rightarrow> 'v kvm_vm option" where
  "kvm_vm_step c s (Kvm_Thread i r) = (if i \<le> kc_cpus c then kvm_thread_step c i r s else None)"
| "kvm_vm_step c s (Kvm_Input bs) =
    Some (if kv_ctrl_c s then s else if 0x03 \<in> set bs then s\<lparr>kv_ctrl_c := True\<rparr> else s\<lparr>kv_uart := kvm_enqueue_rx bs (kv_uart s)\<rparr>)"

fun kvm_vm_run :: "'v kvm_config \<Rightarrow> 'v kvm_vm \<Rightarrow> kvm_vm_event list \<Rightarrow> 'v kvm_vm option" where
  "kvm_vm_run c s [] = Some s"
| "kvm_vm_run c s (e # es) = Option.bind (kvm_vm_step c s e) (\<lambda>s. kvm_vm_run c s es)"

end
