(* ===== verification/Kvm_Run_Results.thy ===== *)
theory Kvm_Run_Results
  imports Kvm_Run First_Finish
begin

text \<open>
  What the host can rely on of a run of the Linux backend: the result it gets is the first thing that happened, as on Windows; and what it cannot rely on: a run that is over need not
  return, because the request to leave the guest is lost when it comes just before a processor enters it.
\<close>

section \<open>Where each thread can be\<close>

fun kproc :: "nat \<Rightarrow> kloc \<Rightarrow> bool" where
  "kproc i (K_Stopping l) \<longleftrightarrow> l = kvm_returned i"
| "kproc i (K_Cas reason code l) \<longleftrightarrow> l = kvm_returned i \<or> i = 0 \<and> l = K_Join"
| "kproc i (K_Store reason code l) \<longleftrightarrow> l = kvm_returned i \<or> i = 0 \<and> l = K_Join"
| "kproc i (K_Kick l) \<longleftrightarrow> l = kvm_returned i \<or> i = 0 \<and> l = K_Join"
| "kproc i (K_Signal l) \<longleftrightarrow> l = kvm_returned i \<or> i = 0 \<and> l = K_Join"
| "kproc i K_Return \<longleftrightarrow> i \<noteq> 0"
| "kproc i K_Join \<longleftrightarrow> i = 0"
| "kproc i K_Exited \<longleftrightarrow> i = 0"
| "kproc i K_Stop_Watchdog \<longleftrightarrow> i = 0"
| "kproc i K_Join_Watchdog \<longleftrightarrow> i = 0"
| "kproc i (K_Result _) \<longleftrightarrow> i = 0"
| "kproc i l \<longleftrightarrow> l \<notin> {V_Loop, V_Host, V_Command, V_Tap, V_Pause, V_Deadline, V_Markers, V_Leave, V_End}"

fun kwd :: "kloc \<Rightarrow> bool" where
  "kwd (K_Cas reason code l) \<longleftrightarrow> l = V_Leave"
| "kwd (K_Store reason code l) \<longleftrightarrow> l = V_Leave"
| "kwd (K_Kick l) \<longleftrightarrow> l \<in> {V_Tap, V_Pause, V_Leave, V_End}"
| "kwd (K_Signal l) \<longleftrightarrow> l \<in> {V_Tap, V_Pause, V_Leave, V_End}"
| "kwd l \<longleftrightarrow> l \<in> {V_Loop, V_Host, V_Command, V_Tap, V_Pause, V_Deadline, V_Markers, V_Leave, V_End}"

definition kvm_shape :: "'v kvm_config \<Rightarrow> 'v kvm_vm \<Rightarrow> bool" where
  "kvm_shape c s \<longleftrightarrow> 0 < kc_cpus c \<and> length (kv_locs s) = Suc (kc_cpus c) \<and> (\<forall>i < kc_cpus c. kproc i (kv_locs s ! i)) \<and> kwd (kv_locs s ! kc_cpus c)"

text \<open>Where an exit leads, and what it leaves alone.\<close>

definition kvm_exit_to :: "nat \<Rightarrow> kloc \<Rightarrow> bool" where
  "kvm_exit_to i l \<longleftrightarrow> l = K_Top \<or> (\<exists>b. l = K_Io_Done b) \<or> (\<exists>e. l = K_Error e) \<or> (\<exists>reason code. l = K_Cas reason code (kvm_returned i))"

lemma kvm_dispatch_to: "\<exists>l u bus. kvm_dispatch c i x s = kat i l (s\<lparr>kv_uart := u, kv_bus := bus\<rparr>) \<and> kvm_exit_to i l"
proof -
  have here: "\<exists>l u bus. kat i k s = kat i l (s\<lparr>kv_uart := u, kv_bus := bus\<rparr>) \<and> kvm_exit_to i l" if "kvm_exit_to i k" for k
    using that by (intro exI [of _ k] exI [of _ "kv_uart s"] exI [of _ "kv_bus s"]) simp
  have io: "\<exists>l u bus. kat i k (s\<lparr>kv_uart := u'\<rparr>) = kat i l (s\<lparr>kv_uart := u, kv_bus := bus\<rparr>) \<and> kvm_exit_to i l" if "kvm_exit_to i k" for k u'
    using that by (intro exI [of _ k] exI [of _ u'] exI [of _ "kv_bus s"]) simp
  have mmio: "\<exists>l u bus. kat i k (s\<lparr>kv_bus := bus'\<rparr>) = kat i l (s\<lparr>kv_uart := u, kv_bus := bus\<rparr>) \<and> kvm_exit_to i l" if "kvm_exit_to i k" for k bus'
    using that by (intro exI [of _ k] exI [of _ "kv_uart s"] exI [of _ bus']) simp
  show ?thesis
  proof (cases "kx_reason x")
    case KVM_EXIT_IO
    obtain y u g where "HandleIo (kx_io x) (kv_uart s) = (y, u, g)" by (metis prod_cases3)
    then show ?thesis using io [of "K_Io_Done (kg_requested g)" u] KVM_EXIT_IO by (simp add: kvm_dispatch_def kvm_exit_to_def)
  next
    case KVM_EXIT_MMIO
    show ?thesis
    proof (cases "HandleMmio (kc_ops c) (kx_mmio x) (kv_bus s)")
      case (Inl e)
      then show ?thesis using here [of "K_Error e"] KVM_EXIT_MMIO by (simp add: kvm_dispatch_def kvm_exit_to_def)
    next
      case (Inr y)
      then show ?thesis using mmio [of K_Top "snd (snd y)"] KVM_EXIT_MMIO by (simp add: kvm_dispatch_def kvm_exit_to_def case_prod_beta)
    qed
  qed (simp only: kvm_dispatch_def kvm_reason.case, rule here, simp add: kvm_exit_to_def)+
qed

text \<open>The definitions of the steps, to be unfolded together.\<close>

lemmas kvm_steps = kvm_thread_step_def kvm_watchdog_def kvm_finish_cas_def kvm_finish_store_def kvm_kick_def kvm_signal_def kvm_pause_enter_def kvm_pause_leave_def
  kvm_poll_net_def kvm_enter_def kvm_guest_def kvm_set_state_def kvm_record_error_def

lemma kvm_dispatchD:
  assumes "kvm_thread_step c i r s = Some s'" and "kv_locs s ! i = K_Exit x"
  obtains l u bus where "s' = kat i l (s\<lparr>kv_uart := u, kv_bus := bus\<rparr>)" and "kvm_exit_to i l"
  using kvm_dispatch_to [of c i x s] assms by (auto simp: kvm_thread_step_def)


lemma kvm_step_locs: "kvm_thread_step c i r s = Some s' \<Longrightarrow> \<exists>l. kv_locs s' = (kv_locs s)[i := l]"
proof (cases "\<exists>x. kv_locs s ! i = K_Exit x")
  case False
  then show "kvm_thread_step c i r s = Some s' \<Longrightarrow> ?thesis" unfolding kvm_steps
    by (cases "kv_locs s ! i") (auto split: if_split_asm kvm_returns.split_asm intro: list_update_id [symmetric])
qed (auto elim!: kvm_dispatchD)

lemma kvm_returned_place [simp]: "kproc i (kvm_returned i)"
  by (simp add: kvm_returned_def)

lemma kvm_exit_place: "kvm_exit_to i l \<Longrightarrow> kproc i l"
  by (auto simp: kvm_exit_to_def kvm_returned_def)

lemma kvm_proc_step:
  assumes "kvm_thread_step c i r s = Some s'" and "kproc i (kv_locs s ! i)" and "i < length (kv_locs s)"
  shows "kproc i (kv_locs s' ! i)"
proof (cases "\<exists>x. kv_locs s ! i = K_Exit x")
  case True
  then show ?thesis using assms by (auto elim!: kvm_dispatchD simp: kvm_exit_place)
next
  case False
  then show ?thesis using assms unfolding kvm_steps
    by (cases "kv_locs s ! i") (auto split: if_split_asm kvm_returns.split_asm)
qed

lemma kvm_wd_step:
  assumes "kvm_thread_step c i r s = Some s'" and "kwd (kv_locs s ! i)" and "i < length (kv_locs s)"
  shows "kwd (kv_locs s' ! i)"
  using assms unfolding kvm_steps by (cases "kv_locs s ! i") (auto split: if_split_asm)

lemma kvm_shape_step:
  assumes inv: "kvm_shape c s" and i: "i \<le> kc_cpus c" and step: "kvm_thread_step c i r s = Some s'"
  shows "kvm_shape c s'"
proof -
  obtain l where l: "kv_locs s' = (kv_locs s)[i := l]" using kvm_step_locs [OF step] by blast
  have n: "i < length (kv_locs s)" using inv i by (simp add: kvm_shape_def)
  have "i < kc_cpus c \<Longrightarrow> kproc i l" using kvm_proc_step [OF step _ n] inv n by (simp add: kvm_shape_def l)
  moreover have "i = kc_cpus c \<Longrightarrow> kwd l" using kvm_wd_step [OF step _ n] inv n by (simp add: kvm_shape_def l)
  ultimately show ?thesis using inv i by (auto simp: kvm_shape_def l nth_list_update)
qed

section \<open>The first finish\<close>

fun kclaim :: "kloc \<Rightarrow> (string \<times> kvm_reason) option" where
  "kclaim (K_Store reason code _) = Some (reason, code)" | "kclaim _ = None"

fun klate :: "kloc \<Rightarrow> bool" where
  "klate (K_Store _ _ _) = True" | "klate (K_Kick l) = (l = K_Join \<or> l = K_Return)" | "klate (K_Signal l) = (l = K_Join \<or> l = K_Return)"
| "klate K_Return = True" | "klate K_Join = True" | "klate K_Exited = True" | "klate K_Stop_Watchdog = True" | "klate K_Join_Watchdog = True"
| "klate (K_Result _) = True" | "klate _ = False"

fun kcas :: "kloc \<Rightarrow> bool" where
  "kcas (K_Cas _ _ _) = True" | "kcas _ = False"

lemma kclaim_iff: "kclaim l \<noteq> None \<longleftrightarrow> (\<exists>reason code k. l = K_Store reason code k)"
  by (cases l) auto

lemma kcas_iff: "kcas l \<longleftrightarrow> (\<exists>reason code k. l = K_Cas reason code k)"
  by (cases l) auto

lemma kclaim_late: "kclaim l \<noteq> None \<Longrightarrow> klate l"
  by (cases l) auto

lemma kvm_returned_late [simp]: "klate (kvm_returned i) \<longleftrightarrow> i \<noteq> 0" "kvm_returned i = K_Return \<longleftrightarrow> i \<noteq> 0" "kclaim (kvm_returned i) = None"
  by (simp_all add: kvm_returned_def)

lemma kvm_exit_late: "kvm_exit_to i l \<Longrightarrow> \<not> klate l \<and> kclaim l = None"
  by (auto simp: kvm_exit_to_def)

lemma kvm_outcome_kept:
  assumes "kvm_thread_step c i r s = Some s'" and "\<not> kcas (kv_locs s ! i)" and "kclaim (kv_locs s ! i) = None"
  shows "kv_first s' = kv_first s \<and> kv_done s' = kv_done s \<and> kv_reason s' = kv_reason s \<and> kv_code s' = kv_code s"
proof (cases "\<exists>x. kv_locs s ! i = K_Exit x")
  case True
  then show ?thesis using assms by (auto elim!: kvm_dispatchD)
next
  case False
  then show ?thesis using assms unfolding kvm_steps
    by (cases "kv_locs s ! i") (auto split: if_split_asm kvm_returns.split_asm)
qed

lemma kvm_late_target:
  assumes "kvm_thread_step c i r s = Some s'" and "\<not> kcas (kv_locs s ! i)" and "kclaim (kv_locs s ! i) = None" and "i < length (kv_locs s)"
    and "kproc i (kv_locs s ! i) \<or> kwd (kv_locs s ! i)"
  shows "(klate (kv_locs s' ! i) \<longrightarrow> kv_done s \<or> klate (kv_locs s ! i)) \<and> kclaim (kv_locs s' ! i) = None"
proof (cases "\<exists>x. kv_locs s ! i = K_Exit x")
  case True
  then show ?thesis using assms by (auto elim!: kvm_dispatchD dest!: kvm_exit_late)
next
  case False
  then show ?thesis using assms unfolding kvm_steps
    by (cases "kv_locs s ! i") (auto split: if_split_asm kvm_returns.split_asm)
qed

lemma kvm_next_place: "kproc i (K_Cas reason code l) \<or> kwd (K_Cas reason code l) \<Longrightarrow> kclaim l = None"
  by (auto simp: kvm_returned_def split: if_splits)

lemma kvm_place: "kvm_shape c s \<Longrightarrow> i \<le> kc_cpus c \<Longrightarrow> kproc i (kv_locs s ! i) \<or> kwd (kv_locs s ! i)"
  unfolding kvm_shape_def by (cases "i < kc_cpus c") auto

interpretation kvm_finish: first_finish kv_locs kv_done kv_first "\<lambda>s. (kv_reason s, kv_code s)" kclaim klate
  "\<lambda>s i s'. i \<le> kc_cpus c \<and> kvm_shape c s \<and> (\<exists>r. kvm_thread_step c i r s = Some s')" for c
proof unfold_locales
  fix s i s'
  assume a: "i \<le> kc_cpus c \<and> kvm_shape c s \<and> (\<exists>r. kvm_thread_step c i r s = Some s')"
  then obtain r where step: "kvm_thread_step c i r s = Some s'" by blast
  have n: "i < length (kv_locs s)" using a by (simp add: kvm_shape_def)
  have place: "kproc i (kv_locs s ! i) \<or> kwd (kv_locs s ! i)" using kvm_place a by blast
  show "i < length (kv_locs s) \<and> (\<exists>l. kv_locs s' = (kv_locs s)[i := l])" using n kvm_step_locs [OF step] by simp
  show "(kv_first s' = kv_first s \<and> kv_done s' = kv_done s \<and> (kv_reason s', kv_code s') = (kv_reason s, kv_code s) \<and> kclaim (kv_locs s ! i) = None \<and>
        kclaim (kv_locs s' ! i) = None \<and> (klate (kv_locs s' ! i) \<longrightarrow> kv_done s \<or> klate (kv_locs s ! i))) \<or>
      (\<not> kv_done s \<and> kv_done s' \<and> kv_first s' = kclaim (kv_locs s' ! i) \<and> kclaim (kv_locs s' ! i) \<noteq> None) \<or>
      (kclaim (kv_locs s ! i) = Some (kv_reason s', kv_code s') \<and> kv_first s' = kv_first s \<and> kv_done s' = kv_done s \<and> kclaim (kv_locs s' ! i) = None)"
  proof (cases "kcas (kv_locs s ! i) \<or> kclaim (kv_locs s ! i) \<noteq> None")
    case True
    then obtain reason code l where l: "kv_locs s ! i = K_Cas reason code l \<or> kv_locs s ! i = K_Store reason code l"
      unfolding kcas_iff kclaim_iff by blast
    have "kv_locs s ! i = K_Cas reason code l \<Longrightarrow> kclaim l = None" using kvm_next_place place by metis
    with l show ?thesis using step n by (elim disjE; cases "kv_done s") (auto simp: kvm_thread_step_def kvm_finish_cas_def kvm_finish_store_def)
  next
    case False
    then have "\<not> kcas (kv_locs s ! i)" "kclaim (kv_locs s ! i) = None" by blast+
    with kvm_outcome_kept [OF step this] kvm_late_target [OF step this n place] show ?thesis by simp
  qed
qed (rule kclaim_late)


section \<open>Errors and joins\<close>

text \<open>The first recorded message that is not empty.\<close>

definition first_error :: "string list \<Rightarrow> string" where
  "first_error es = (case filter (\<lambda>e. e \<noteq> []) es of [] \<Rightarrow> [] | e # _ \<Rightarrow> e)"

lemma first_error_snoc: "first_error (es @ [e]) = (if first_error es = [] then e else first_error es)"
proof -
  have "\<forall>x \<in> set (filter (\<lambda>e. e \<noteq> []) es). x \<noteq> []" by simp
  then show ?thesis by (cases "filter (\<lambda>e. e \<noteq> []) es") (auto simp: first_error_def)
qed

lemma kvm_error_kept:
  assumes "kvm_thread_step c i r s = Some s'" and "kv_error s = first_error (kv_errors s)"
  shows "kv_error s' = first_error (kv_errors s') \<and> ((\<forall>e. kv_locs s ! i \<noteq> K_Error e) \<longrightarrow> kv_error s' = kv_error s)"
proof (cases "\<exists>x. kv_locs s ! i = K_Exit x")
  case True
  then show ?thesis using assms by (auto elim!: kvm_dispatchD)
next
  case False
  then show ?thesis using assms unfolding kvm_steps
    by (cases "kv_locs s ! i") (auto simp: first_error_snoc split: if_split_asm kvm_returns.split_asm)
qed

fun kjoined :: "kloc \<Rightarrow> bool" where
  "kjoined K_Exited = True" | "kjoined K_Stop_Watchdog = True" | "kjoined K_Join_Watchdog = True" | "kjoined (K_Result _) = True" | "kjoined _ = False"

definition kvm_join_inv :: "'v kvm_config \<Rightarrow> 'v kvm_vm \<Rightarrow> bool" where
  "kvm_join_inv c s \<longleftrightarrow> (kjoined (kv_locs s ! 0) \<longrightarrow> (\<forall>k. 0 < k \<and> k < kc_cpus c \<longrightarrow> kv_locs s ! k = K_Return)) \<and>
     (\<forall>res. kv_locs s ! 0 = K_Result res \<longrightarrow> kv_locs s ! kc_cpus c = V_End \<and> (\<exists>con.
        res = (if kv_error s \<noteq> [] then Inl (kv_error s)
               else Inr \<lparr>kt_reason = kv_reason s, kt_code = kv_code s, kt_runs = (if 0xFFFFFFFF < kv_runs s then 0xFFFFFFFF else ucast (kv_runs s)), kt_console = con\<rparr>)))"

lemma kvm_ended: "kv_locs s ! i = K_Return \<or> kv_locs s ! i = V_End \<or> (\<exists>res. kv_locs s ! i = K_Result res) \<Longrightarrow> kvm_thread_step c i r s = None"
  by (elim disjE exE) (simp_all add: kvm_thread_step_def kvm_watchdog_def)

text \<open>The main thread comes to its last places in their order.\<close>

lemma kvm_main_step:
  assumes step: "kvm_thread_step c 0 r s = Some s'" and place: "kproc 0 (kv_locs s ! 0)" and n: "0 < length (kv_locs s)"
  shows "(kjoined (kv_locs s' ! 0) \<longrightarrow> kjoined (kv_locs s ! 0) \<or> (\<forall>k \<in> {1 ..< kc_cpus c}. kv_locs s ! k = K_Return)) \<and>
    (\<forall>res. kv_locs s' ! 0 = K_Result res \<longrightarrow> kv_locs s ! kc_cpus c = V_End \<and> s' = kat 0 (K_Result (kvm_make_result s)) s)"
proof (cases "\<exists>x. kv_locs s ! 0 = K_Exit x")
  case True
  then show ?thesis using step n by (auto elim!: kvm_dispatchD simp: kvm_exit_to_def kvm_returned_def)
next
  case False
  then show ?thesis using step place n unfolding kvm_steps
    by (cases "kv_locs s ! 0") (auto simp: kvm_returned_def split: if_split_asm kvm_returns.split_asm)
qed

lemma kvm_join_step:
  assumes inv: "kvm_join_inv c s" and shape: "kvm_shape c s" and i: "i \<le> kc_cpus c" and step: "kvm_thread_step c i r s = Some s'"
  shows "kvm_join_inv c s'"
proof -
  obtain l where l: "kv_locs s' = (kv_locs s)[i := l]" using kvm_step_locs [OF step] by blast
  have n: "0 < length (kv_locs s)" "0 < kc_cpus c" using shape by (simp_all add: kvm_shape_def)
  show ?thesis
  proof (cases "i = 0")
    case False
    have "\<not> (\<exists>res. kv_locs s ! 0 = K_Result res)"
      using False i inv step kvm_ended [of s i c r] by (cases "i < kc_cpus c") (auto simp: kvm_join_inv_def)
    moreover have "\<not> (kjoined (kv_locs s ! 0) \<and> i < kc_cpus c)"
      using False inv step kvm_ended [of s i c r] by (auto simp: kvm_join_inv_def)
    ultimately show ?thesis using inv False by (auto simp: kvm_join_inv_def l nth_list_update)
  next
    case True
    have place: "kproc 0 (kv_locs s ! 0)" using shape by (simp add: kvm_shape_def)
    note main = kvm_main_step [OF step [unfolded True] place n(1)]
    have "kv_locs s' ! k = K_Return" if "kjoined (kv_locs s' ! 0)" "0 < k" "k < kc_cpus c" for k
      using that main inv True by (auto simp: kvm_join_inv_def l)
    moreover have "kv_locs s' ! kc_cpus c = V_End \<and> (\<exists>con.
        res = (if kv_error s' \<noteq> [] then Inl (kv_error s')
               else Inr \<lparr>kt_reason = kv_reason s', kt_code = kv_code s', kt_runs = (if 0xFFFFFFFF < kv_runs s' then 0xFFFFFFFF else ucast (kv_runs s')), kt_console = con\<rparr>))"
      if "kv_locs s' ! 0 = K_Result res" for res
    proof -
      have s': "s' = kat 0 (K_Result (kvm_make_result s)) s" "kv_locs s ! kc_cpus c = V_End" using main that by blast+
      then have "res = kvm_make_result s" using that n by simp
      with s' n show ?thesis by (auto simp: kvm_make_result_def)
    qed
    ultimately show ?thesis unfolding kvm_join_inv_def by blast
  qed
qed

section \<open>Every run\<close>

definition kvm_inv :: "'v kvm_config \<Rightarrow> 'v kvm_vm \<Rightarrow> bool" where
  "kvm_inv c s \<longleftrightarrow> kvm_shape c s \<and> kvm_finish.agreed s \<and> kv_error s = first_error (kv_errors s) \<and> kvm_join_inv c s"

lemma kvm_vm_init_inv: "0 < kc_cpus c \<Longrightarrow> kvm_inv c (kvm_vm_init c u bus)"
  by (auto simp: kvm_inv_def kvm_shape_def kvm_vm_init_def kvm_finish.agreed_def first_error_def kvm_join_inv_def nth_append list_all_iff list_ex_iff)

lemma kvm_input_inv: "kvm_inv c (s\<lparr>kv_ctrl_c := b\<rparr>) = kvm_inv c s" "kvm_inv c (s\<lparr>kv_uart := u\<rparr>) = kvm_inv c s"
  by (simp_all add: kvm_inv_def kvm_shape_def kvm_finish.agreed_def kvm_join_inv_def)

lemma kvm_vm_step_inv:
  assumes inv: "kvm_inv c s" and step: "kvm_vm_step c s e = Some s'"
  shows "kvm_inv c s'"
proof (cases e)
  case (Kvm_Thread i r)
  then have i: "i \<le> kc_cpus c" and st: "kvm_thread_step c i r s = Some s'" using step by (simp_all split: if_split_asm)
  have shape: "kvm_shape c s" and agreed: "kvm_finish.agreed s" using inv by (simp_all add: kvm_inv_def)
  have "kvm_finish.agreed s'" using kvm_finish.agreed_step [OF agreed] i shape st by blast
  then show ?thesis
    using inv kvm_shape_step [OF shape i st] kvm_error_kept [OF st] kvm_join_step [OF _ shape i st] by (simp add: kvm_inv_def)
next
  case (Kvm_Input bs)
  then show ?thesis using step inv by (auto simp: kvm_input_inv split: if_split_asm)
qed

lemma kvm_vm_run_inv: "kvm_inv c s \<Longrightarrow> kvm_vm_run c s es = Some s' \<Longrightarrow> kvm_inv c s'"
  by (induction es arbitrary: s) (auto simp: bind_eq_Some_conv dest: kvm_vm_step_inv)



section \<open>The lost request\<close>

text \<open>Two processors, no limit of time, no control word.\<close>

definition kvm_pair :: "'v transport_ops \<Rightarrow> ('v kvm_bus \<Rightarrow> 'v kvm_bus) \<Rightarrow> 'v kvm_config" where
  "kvm_pair ops poll = \<lparr>kc_ops = ops, kc_poll = poll, kc_cpus = 2, kc_timeout_ms = 0, kc_base = 0, kc_control = False\<rparr>"

definition kvm_quiet_reading :: "kvm_returns \<Rightarrow> kvm_reading" where
  "kvm_quiet_reading ret = \<lparr>kr_command = 0, kr_now = 0, kr_tap = False, kr_run = ret\<rparr>"

text \<open>The guest writes its status to the exit port.\<close>

definition kvm_exit_access :: kvm_exit where
  "kvm_exit_access = \<lparr>kx_reason = KVM_EXIT_IO, kx_io = \<lparr>ki_out = True, ki_size = 1, ki_port = kKvmExitPort, ki_items = [[0]]\<rparr>,
     kx_mmio = \<lparr>km_addr = 0, km_write = False, km_data = [], km_len = 0\<rparr>, kx_fail = 0\<rparr>"

text \<open>Nothing happens that would make processor 0 leave the guest by itself.\<close>

fun kvm_quiet :: "kvm_vm_event \<Rightarrow> bool" where
  "kvm_quiet (Kvm_Thread i r) \<longleftrightarrow> (i = 0 \<longrightarrow> kr_run r = Kvm_Goes_On) \<and> \<not> kr_tap r"
| "kvm_quiet (Kvm_Input bs) \<longleftrightarrow> 0x03 \<notin> set bs"

definition kvm_stuck :: "'v kvm_vm \<Rightarrow> bool" where
  "kvm_stuck s \<longleftrightarrow> (\<exists>l. kv_locs s = [K_Guest, K_Return, l] \<and> l \<in> {V_Loop, V_Host, V_Command, V_Tap, V_Pause, V_Deadline, V_Markers}) \<and>
     \<not> kv_signaled s ! 0 \<and> \<not> kv_wd_done s \<and> \<not> kv_ctrl_c s \<and> \<not> kvm_console_ended s"

lemma kvm_rx_console: "kvm_contains needle (kvm_enqueue_rx bs u) = kvm_contains needle u"
  by (simp add: kvm_contains_def kvm_enqueue_rx_def kvm_update_interrupt_def kvm_set_irq_def)

lemma kvm_stuck_step:
  assumes "kvm_stuck s" and "kvm_quiet e" and "kvm_vm_step (kvm_pair ops poll) s e = Some s'"
  shows "kvm_stuck s'"
proof (cases e)
  case (Kvm_Input bs)
  then show ?thesis using assms by (auto simp: kvm_stuck_def kvm_console_ended_def kvm_rx_console)
next
  case (Kvm_Thread i r)
  have c: "kc_cpus (kvm_pair ops poll) = 2" "kc_timeout_ms (kvm_pair ops poll) = 0" "kvm_command (kvm_pair ops poll) r = kControlRun"
    by (simp_all add: kvm_pair_def kvm_command_def)
  have st: "i \<le> 2" "kvm_thread_step (kvm_pair ops poll) i r s = Some s'" using assms(3) Kvm_Thread c by (simp_all split: if_split_asm)
  from assms(1) obtain l where l: "kv_locs s = [K_Guest, K_Return, l]" "l \<in> {V_Loop, V_Host, V_Command, V_Tap, V_Pause, V_Deadline, V_Markers}"
    and q: "\<not> kv_signaled s ! 0" "\<not> kv_wd_done s" "\<not> kv_ctrl_c s" "\<not> kvm_console_ended s" by (auto simp: kvm_stuck_def)
  consider "i = 0" | "i = 1" | "i = 2" using st(1) by linarith
  then show ?thesis
  proof cases
    case 1
    then have "s' = s" using st(2) l(1) q(1) assms(2) Kvm_Thread by (simp add: kvm_thread_step_def kvm_guest_def)
    then show ?thesis using assms(1) by simp
  next
    case 2
    then show ?thesis using st(2) l(1) by (simp add: kvm_thread_step_def)
  next
    case 3
    have "\<not> kvm_late (kvm_pair ops poll) r s" by (simp add: kvm_late_def c)
    moreover have "kControlRun \<noteq> kControlPause" by (simp add: source_consts)
    ultimately have "\<exists>k \<in> {V_Loop, V_Host, V_Command, V_Tap, V_Pause, V_Deadline, V_Markers}. s' = kat 2 k s"
      using st(2) l 3 q assms(2) Kvm_Thread by (auto simp: kvm_thread_step_def kvm_watchdog_def c)
    then show ?thesis using l(1) q by (auto simp: kvm_stuck_def kvm_console_ended_def)
  qed
qed

lemma kvm_stuck_run:
  "kvm_stuck s \<Longrightarrow> \<forall>e \<in> set es. kvm_quiet e \<Longrightarrow> kvm_vm_run (kvm_pair ops poll) s es = Some s' \<Longrightarrow> kvm_stuck s'"
  by (induction es arbitrary: s) (auto simp: bind_eq_Some_conv dest: kvm_stuck_step)


definition kvm_lost_events :: "kvm_vm_event list" where
  "kvm_lost_events = replicate 5 (Kvm_Thread 1 (kvm_quiet_reading Kvm_Goes_On)) @ replicate 3 (Kvm_Thread 0 (kvm_quiet_reading Kvm_Goes_On)) @
     Kvm_Thread 1 (kvm_quiet_reading (Kvm_Exits kvm_exit_access)) # replicate 6 (Kvm_Thread 1 (kvm_quiet_reading Kvm_Goes_On)) @
     replicate 2 (Kvm_Thread 0 (kvm_quiet_reading Kvm_Goes_On))"

lemma kvm_exit_io: "HandleIo (kx_io kvm_exit_access) u = (kx_io kvm_exit_access, u, \<lparr>kg_requested = True, kg_status = 0\<rparr>)"
  by (simp add: HandleIo_def kvm_exit_access_def kvm_io_item_def)

lemma kvm_exit_reason: "kx_reason kvm_exit_access = KVM_EXIT_IO"
  by (simp add: kvm_exit_access_def)

lemma kvm_repeat:
  "replicate 2 x = [x, x]" "replicate 3 x = [x, x, x]" "replicate 5 x = [x, x, x, x, x]" "replicate 6 x = [x, x, x, x, x, x]"
  "replicate 9 x = [x, x, x, x, x, x, x, x, x]"
  by (simp_all add: numeral_eq_Suc)

lemma kvm_lost_run:
  "\<exists>s. kvm_vm_run (kvm_pair ops poll) (kvm_vm_init (kvm_pair ops poll) u bus) kvm_lost_events = Some s \<and> kv_first s = Some (''guest-exit'', KVM_EXIT_IO) \<and>
     kv_locs s = [K_Guest, K_Return, V_Loop] \<and> \<not> kv_signaled s ! 0 \<and> \<not> kv_wd_done s \<and> \<not> kv_ctrl_c s \<and> kv_uart s = u"
  by (simp add: kvm_lost_events_def kvm_steps kvm_dispatch_def kvm_exit_io kvm_exit_reason kvm_returned_def kvm_vm_init_def kvm_pair_def kvm_quiet_reading_def kvm_command_def
      source_consts kvm_repeat numeral_2_eq_2 upt_rec)

text \<open>C6. A run that is over need not return on Linux. A processor clears immediate_exit just before it enters the guest, and the handler of the signal that interrupt_all sends does
  nothing, so a finish that comes before both reaches that processor neither way: there is a run of two processors in which one has ended the machine with the exit status of the guest
  while the other enters the guest, and however the run goes on from there, as long as the guest does not leave by itself, the tap device has no data and no control-C is typed, that
  processor is still in the guest: the host never gets the result. With a time limit the host would get the error of the timeout in place of the exit status.\<close>
theorem kvm_finish_can_be_lost:
  assumes "\<not> kvm_contains kHalted u" and "\<not> kvm_contains kRestarting u"
  shows "\<exists>es s. kvm_vm_run (kvm_pair ops poll) (kvm_vm_init (kvm_pair ops poll) u bus) es = Some s \<and> kv_first s = Some (''guest-exit'', KVM_EXIT_IO) \<and>
    (\<forall>es' s'. (\<forall>e \<in> set es'. kvm_quiet e) \<and> kvm_vm_run (kvm_pair ops poll) s es' = Some s' \<longrightarrow> kv_locs s' ! 0 = K_Guest \<and> kv_locs s' ! 1 = K_Return)"
proof -
  obtain s where s: "kvm_vm_run (kvm_pair ops poll) (kvm_vm_init (kvm_pair ops poll) u bus) kvm_lost_events = Some s" "kv_first s = Some (''guest-exit'', KVM_EXIT_IO)"
    and stuck: "kv_locs s = [K_Guest, K_Return, V_Loop]" "\<not> kv_signaled s ! 0" "\<not> kv_wd_done s" "\<not> kv_ctrl_c s" "kv_uart s = u"
    using kvm_lost_run [of ops poll u bus] by blast
  have "kvm_stuck s" using stuck assms by (simp add: kvm_stuck_def kvm_console_ended_def)
  then have "kv_locs s' ! 0 = K_Guest \<and> kv_locs s' ! 1 = K_Return"
    if "\<forall>e \<in> set es'. kvm_quiet e" "kvm_vm_run (kvm_pair ops poll) s es' = Some s'" for es' s'
    using kvm_stuck_run [OF _ that] by (auto simp: kvm_stuck_def)
  with s show ?thesis by blast
qed


section \<open>Instances\<close>

definition kvm_sample_bus :: "unit kvm_bus" where
  "kvm_sample_bus = \<lparr>kb_blks = [], kb_net = None\<rparr>"

text \<open>The same run, when the guest leaves after all: the first processor joins the second, stops the watchdog and gives the result.\<close>

definition kvm_return_events :: "kvm_vm_event list" where
  "kvm_return_events = Kvm_Thread 0 (kvm_quiet_reading Kvm_Eintr) # replicate 9 (Kvm_Thread 0 (kvm_quiet_reading Kvm_Goes_On)) @
     replicate 2 (Kvm_Thread 2 (kvm_quiet_reading Kvm_Goes_On)) @ [Kvm_Thread 0 (kvm_quiet_reading Kvm_Goes_On)]"

lemma kvm_make_one:
  "kv_error s = [] \<Longrightarrow> kv_runs s = 1 \<Longrightarrow> kvm_make_result s = Inr \<lparr>kt_reason = kv_reason s, kt_code = kv_code s, kt_runs = 1, kt_console = ku_console (kv_uart s)\<rparr>"
  by (simp add: kvm_make_result_def)

lemma kvm_return_run:
  "\<exists>s. kvm_vm_run (kvm_pair ops poll) (kvm_vm_init (kvm_pair ops poll) u bus) (kvm_lost_events @ kvm_return_events) = Some s \<and>
     kv_locs s ! 0 = K_Result (Inr \<lparr>kt_reason = ''guest-exit'', kt_code = KVM_EXIT_IO, kt_runs = 1, kt_console = ku_console u\<rparr>) \<and> kv_errors s = [] \<and> kv_runs s = 1"
  by (simp add: kvm_lost_events_def kvm_return_events_def kvm_steps kvm_dispatch_def kvm_exit_io kvm_exit_reason kvm_returned_def kvm_vm_init_def kvm_pair_def
      kvm_quiet_reading_def kvm_command_def kvm_make_one source_consts kvm_repeat numeral_2_eq_2 upt_rec)


theorem kvm_finish_can_be_lost_witness:
  "\<exists>es s. kvm_vm_run (kvm_pair no_virtio id) (kvm_vm_init (kvm_pair no_virtio id) (kvm_uart_init 100 True) kvm_sample_bus) es = Some s \<and>
     kv_first s = Some (''guest-exit'', KVM_EXIT_IO) \<and> kv_locs s ! 0 = K_Guest"
proof -
  have u: "\<not> kvm_contains kHalted (kvm_uart_init 100 True)" "\<not> kvm_contains kRestarting (kvm_uart_init 100 True)" by code_simp+
  obtain es s where s: "kvm_vm_run (kvm_pair no_virtio id) (kvm_vm_init (kvm_pair no_virtio id) (kvm_uart_init 100 True) kvm_sample_bus) es = Some s"
    "kv_first s = Some (''guest-exit'', KVM_EXIT_IO)"
    "\<And>es' s'. (\<forall>e \<in> set es'. kvm_quiet e) \<and> kvm_vm_run (kvm_pair no_virtio id) s es' = Some s' \<Longrightarrow> kv_locs s' ! 0 = K_Guest \<and> kv_locs s' ! 1 = K_Return"
    using kvm_finish_can_be_lost [OF u, of no_virtio id kvm_sample_bus] by blast
  then have "kv_locs s ! 0 = K_Guest" using s(3) [of "[]" s] by simp
  with s show ?thesis by blast
qed

end
