(* ===== verification/Arm_Blk.thy ===== *)
theory Arm_Blk
  imports Queue_State Block_Disk Hvf_Layout
begin

unbundle bit_operations_syntax

text \<open>
  The virtio-blk device of the Arm machine (native/hvf/backend.cc, PreadAll to PwriteAll, the virtio descriptor helpers and class
  VirtioBlk). Queue addresses are guest physical addresses, so they go through \<open>guest_offset\<close>. The sector bitmap is the one of
  Block_Disk, whose functions it shares. The file calls of the host are the record \<open>posix\<close>: a call that a signal
  interrupts is made again, and the field is the outcome of the call that is not interrupted; \<open>None\<close> is a failed one.
  A throwing step returns the state it leaves behind. \<open>ab_line\<close> is the level last given to gic_inject.
\<close>

section \<open>The disk\<close>

record 'f posix =
  pread :: "'f \<Rightarrow> nat \<Rightarrow> nat \<Rightarrow> bytes option"
  pwrite :: "'f \<Rightarrow> nat \<Rightarrow> bytes \<Rightarrow> (nat \<times> 'f) option"
  fsync :: "'f \<Rightarrow> bool"

function arm_pread_loop :: "'f posix \<Rightarrow> 'f \<Rightarrow> nat \<Rightarrow> nat \<Rightarrow> nat \<Rightarrow> bytes \<Rightarrow> bytes \<times> unit result" where
  "arm_pread_loop api f pos len ndone dst =
    (if ndone < len
     then case pread api f (pos + ndone) (len - ndone) of
            None \<Rightarrow> (dst, Inl ''pread disk'')
          | Some got \<Rightarrow> if length got = 0 then (dst, Inl ''pread disk'')
                        else arm_pread_loop api f pos len (ndone + length got) (dst @ got)
     else (dst, Inr ()))"
  by pat_completeness auto

termination
  by (relation "measure (\<lambda>(_, _, _, len, ndone, _). len - ndone)") (auto simp: neq_Nil_conv)

declare arm_pread_loop.simps [simp del]

definition arm_PreadAll :: "'f posix \<Rightarrow> 'f \<Rightarrow> nat \<Rightarrow> u64 \<Rightarrow> bytes \<times> unit result" where
  "arm_PreadAll api f len off = arm_pread_loop api f (unat off) len 0 []"

function arm_pwrite_loop :: "'f posix \<Rightarrow> 'f \<Rightarrow> bytes \<Rightarrow> nat \<Rightarrow> nat \<Rightarrow> 'f \<times> unit result" where
  "arm_pwrite_loop api f src pos ndone =
    (if ndone < length src
     then case pwrite api f (pos + ndone) (drop ndone src) of
            None \<Rightarrow> (f, Inl ''pwrite disk'')
          | Some (wrote, f') \<Rightarrow> if wrote = 0 then (f', Inl ''pwrite disk'') else arm_pwrite_loop api f' src pos (ndone + wrote)
     else (f, Inr ()))"
  by pat_completeness auto

termination
  by (relation "measure (\<lambda>(_, _, src, _, ndone). length src - ndone)") auto

declare arm_pwrite_loop.simps [simp del]

definition arm_PwriteAll :: "'f posix \<Rightarrow> 'f \<Rightarrow> bytes \<Rightarrow> u64 \<Rightarrow> 'f \<times> unit result" where
  "arm_PwriteAll api f src off = arm_pwrite_loop api f src (unat off) 0"

text \<open>prepare_partial_overlay: the loop over the sectors, and the whole.\<close>

fun arm_prepare_sectors :: "'f posix \<Rightarrow> u64 \<Rightarrow> u64 \<Rightarrow> nat list \<Rightarrow> 'f vdisk \<Rightarrow> 'f vdisk \<times> unit result" where
  "arm_prepare_sectors api off end' [] d = (d, Inr ())"
| "arm_prepare_sectors api off end' (s # ss) d =
    (let ss_start = of_nat s * 512 :: u64; full = (off \<le> ss_start \<and> ss_start + 512 \<le> end')
     in if full \<or> sector_dirty d (of_nat s) then arm_prepare_sectors api off end' ss d
        else case arm_PreadAll api (vd_base d) 512 ss_start of
          (_, Inl e) \<Rightarrow> (d, Inl e)
        | (buf, Inr _) \<Rightarrow>
            (case arm_PwriteAll api (the (vd_overlay d)) buf ss_start of
               (f, Inl e) \<Rightarrow> (d\<lparr>vd_overlay := Some f\<rparr>, Inl e)
             | (f, Inr _) \<Rightarrow> arm_prepare_sectors api off end' ss (d\<lparr>vd_overlay := Some f\<rparr>)))"

definition arm_prepare_partial_overlay :: "'f posix \<Rightarrow> 'f vdisk \<Rightarrow> u64 \<Rightarrow> u64 \<Rightarrow> 'f vdisk \<times> unit result" where
  "arm_prepare_partial_overlay api d off len =
    (if \<not> has_overlay d \<or> len = 0 then (d, Inr ())
     else let end' = off + len in arm_prepare_sectors api off end' [unat (off div 512) ..< unat ((end' - 1) div 512) + 1] d)"

definition DiskOffset :: "'f vdisk \<Rightarrow> u64 \<Rightarrow> u64 \<Rightarrow> string \<Rightarrow> u64 result" where
  "DiskOffset d sector len op =
    rbind (Check (sector \<le> 0xFFFFFFFFFFFFFFFF div 512) (''virtio-blk '' @ op @ '' sector offset overflow'')) (\<lambda>_.
    let off = sector * 512; max_off = 0x7FFFFFFFFFFFFFFF in
    rbind (Check (off \<le> vd_disk_bytes d \<and> len \<le> vd_disk_bytes d - off) (''virtio-blk '' @ op @ '' out of range'')) (\<lambda>_.
    rbind (Check (off \<le> max_off) (''virtio-blk '' @ op @ '' offset exceeds host off_t'')) (\<lambda>_.
    rbind (Check (len = 0 \<or> len - 1 \<le> max_off - off) (''virtio-blk '' @ op @ '' range exceeds host off_t'')) (\<lambda>_. Inr off))))"

function arm_read_chunks :: "'f posix \<Rightarrow> 'f vdisk \<Rightarrow> u64 \<Rightarrow> nat \<Rightarrow> nat \<Rightarrow> bytes \<Rightarrow> bytes \<times> unit result" where
  "arm_read_chunks api d off len ndone dst =
    (if ndone < len
     then let cur = off + of_nat ndone; s = cur div 512; in_s = unat (cur mod 512); chunk = min (len - ndone) (512 - in_s);
              fd = (if sector_dirty d s then the (vd_overlay d) else vd_base d)
          in case arm_PreadAll api fd chunk cur of
               (bs, Inl e) \<Rightarrow> (dst @ bs, Inl e)
             | (bs, Inr _) \<Rightarrow> arm_read_chunks api d off len (ndone + chunk) (dst @ bs)
     else (dst, Inr ()))"
  by pat_completeness auto

termination
proof (relation "measure (\<lambda>(_, _, _, len, ndone, _). len - ndone)", goal_cases)
  case (2 api d off len ndone dst cur s in_s chunk)
  have "unat (cur mod 512) < 512" by (simp add: unat_mod)
  with 2 show ?case by simp
qed simp

declare arm_read_chunks.simps [simp del]

definition arm_ReadDisk :: "'f posix \<Rightarrow> 'f vdisk \<Rightarrow> u64 \<Rightarrow> u64 \<Rightarrow> bytes \<times> unit result" where
  "arm_ReadDisk api d sector len =
    (case DiskOffset d sector len ''read'' of Inl e \<Rightarrow> ([], Inl e) | Inr off \<Rightarrow>
     if \<not> has_overlay d then arm_PreadAll api (vd_base d) (unat len) off else arm_read_chunks api d off (unat len) 0 [])"

definition arm_WriteDisk :: "'f posix \<Rightarrow> 'f vdisk \<Rightarrow> u64 \<Rightarrow> bytes \<Rightarrow> 'f vdisk \<times> unit result" where
  "arm_WriteDisk api d sector src =
    (let len = of_nat (length src) :: u64
     in case rbind (Check (\<not> vd_read_only d) ''virtio-blk write on read-only disk'') (\<lambda>_. DiskOffset d sector len ''write'') of
          Inl e \<Rightarrow> (d, Inl e)
        | Inr off \<Rightarrow>
           (case arm_prepare_partial_overlay api d off len of
              (d, Inl e) \<Rightarrow> (d, Inl e)
            | (d, Inr _) \<Rightarrow>
               (case arm_PwriteAll api (write_handle d) src off of
                  (f, Inl e) \<Rightarrow> (set_write_handle d f, Inl e)
                | (f, Inr _) \<Rightarrow> (mark_dirty_range (set_write_handle d f) off len, Inr ()))))"

text \<open>Opening the disk, in the constructor. open and fstat are fields of \<open>arm_open\<close>; ftruncate sets the length of the overlay.\<close>

record 'f arm_open =
  open_disk :: "string \<Rightarrow> bool \<Rightarrow> 'f option"
  open_overlay :: "string \<Rightarrow> 'f option"
  fstat_size :: "'f \<Rightarrow> int option"
  ftruncate :: "'f \<Rightarrow> int \<Rightarrow> 'f option"

definition arm_require :: "'a option \<Rightarrow> string \<Rightarrow> 'a result" where
  "arm_require x what = (case x of Some a \<Rightarrow> Inr a | None \<Rightarrow> Inl what)"

definition arm_disk_open :: "'f arm_open \<Rightarrow> string \<Rightarrow> string \<Rightarrow> bool \<Rightarrow> 'f vdisk result" where
  "arm_disk_open os path overlay_path read_only =
    (let overlay = (overlay_path \<noteq> []) in
     rbind (Check (\<not> (read_only \<and> overlay)) ''read-only disk cannot use an overlay'') (\<lambda>_.
     rbind (arm_require (open_disk os path (\<not> (overlay \<or> read_only))) (''open rootfs '' @ path)) (\<lambda>base.
     rbind (arm_require (fstat_size os base) (''stat rootfs '' @ path)) (\<lambda>n.
     rbind (Check (0 \<le> n) ''negative rootfs size'') (\<lambda>_.
     let disk_bytes = of_int n; sectors = disk_bytes div 512;
         d = \<lparr>vd_base = base, vd_overlay = None, vd_dirty = [], vd_disk_bytes = disk_bytes, vd_sectors = sectors, vd_read_only = read_only\<rparr>
     in if overlay
        then rbind (Check (overlay_path \<noteq> path) ''overlayPath must not equal rootfsPath'') (\<lambda>_.
             rbind (arm_require (open_overlay os overlay_path) (''open overlay '' @ overlay_path)) (\<lambda>f.
             rbind (arm_require (ftruncate os f n) ''truncate overlay'') (\<lambda>f.
             Inr (d\<lparr>vd_overlay := Some f, vd_dirty := replicate (unat ((sectors + 7) div 8)) 0\<rparr>))))
        else Inr d)))))"


section \<open>Guest memory and rings\<close>

definition am_write :: "arm_memory \<Rightarrow> nat \<Rightarrow> bytes \<Rightarrow> arm_memory" where
  "am_write mem p bs = mem\<lparr>am_data := memcpy (am_data mem) p bs\<rparr>"

definition am_read :: "arm_memory \<Rightarrow> nat \<Rightarrow> nat \<Rightarrow> bytes" where
  "am_read mem p n = read_bytes (am_data mem) p n"

definition kVirtioStatusDeviceNeedsReset :: u32 where [source_consts]: "kVirtioStatusDeviceNeedsReset = 0x40"

definition arm_queue_default :: vq where
  "arm_queue_default = \<lparr>q_size = 256, q_ready = False, q_last_avail = 0, q_desc_addr = 0, q_driver_addr = 0, q_device_addr = 0\<rparr>"

definition IsPowerOfTwo :: "u32 \<Rightarrow> bool" where
  "IsPowerOfTwo v \<longleftrightarrow> v \<noteq> 0 \<and> v AND (v - 1) = 0"

definition ValidVirtQueue :: "arm_memory \<Rightarrow> vq \<Rightarrow> bool" where
  "ValidVirtQueue mem q =
    (if \<not> IsPowerOfTwo (q_size q) \<or> kMaxQueueSize < q_size q then False
     else if q_desc_addr q mod 16 \<noteq> 0 \<or> q_driver_addr q mod 2 \<noteq> 0 \<or> q_device_addr q mod 4 \<noteq> 0 then False
     else if \<not> contains_guest_range mem (q_desc_addr q) (ucast (q_size q) * 16) then False
     else if \<not> contains_guest_range mem (q_driver_addr q) (6 + ucast (q_size q) * 2) then False
     else if \<not> contains_guest_range mem (q_device_addr q) (6 + ucast (q_size q) * 8) then False
     else True)"

definition arm_ReadDesc :: "arm_memory \<Rightarrow> vq \<Rightarrow> u16 \<Rightarrow> desc result" where
  "arm_ReadDesc mem q idx =
    rbind (Check (ucast idx < q_size q) ''virtio descriptor index out of bounds'') (\<lambda>_.
    rbind (guest_offset mem (q_desc_addr q + ucast idx * 16) 16) (\<lambda>p.
    Inr \<lparr>d_addr = ReadU64 (am_data mem) p, d_len = ReadU32 (am_data mem) (p + 8),
         d_flags = ReadU16 (am_data mem) (p + 12), d_next = ReadU16 (am_data mem) (p + 14)\<rparr>))"

definition arm_chain_push :: "desc list \<Rightarrow> desc \<Rightarrow> desc list result" where
  "arm_chain_push chain d =
    rbind (Check (length chain < unat kMaxQueueSize) ''virtio descriptor chain too long'') (\<lambda>_. Inr (chain @ [d]))"

function arm_walk_loop :: "arm_memory \<Rightarrow> vq \<Rightarrow> u16 list \<Rightarrow> desc list \<Rightarrow> u16 \<Rightarrow> desc list result" where
  "arm_walk_loop mem q seen chain idx =
    rbind (Check (ucast idx < q_size q) ''descriptor next out of bounds'') (\<lambda>_.
    rbind (Check (idx \<notin> set seen) ''descriptor cycle'') (\<lambda>_.
    rbind (arm_ReadDesc mem q idx) (\<lambda>d.
    rbind (Check (d_flags d AND 4 = 0) ''indirect descriptors not supported'') (\<lambda>_.
    rbind (arm_chain_push chain d) (\<lambda>chain'.
    if d_flags d AND 1 = 0 then Inr chain' else arm_walk_loop mem q (idx # seen) chain' (d_next d))))))"
  by pat_completeness auto

text \<open>Every round marks one more index below the queue size.\<close>

termination
proof (relation "measure (\<lambda>(_, q, seen, _, _). card ({i :: u16. ucast i < q_size q} - set seen))", goal_cases)
  case (2 mem q seen chain idx)
  then have "idx \<in> {i :: u16. ucast i < q_size q} - set seen" by simp
  then have "card ({i :: u16. ucast i < q_size q} - set seen - {idx}) < card ({i :: u16. ucast i < q_size q} - set seen)"
    by (intro card_Diff1_less finite)
  moreover have "{i :: u16. ucast i < q_size q} - set (idx # seen) = {i. ucast i < q_size q} - set seen - {idx}" by auto
  ultimately show ?case by (simp only: in_measure split_conv)
qed simp

declare arm_walk_loop.simps [simp del]

definition WalkChain :: "arm_memory \<Rightarrow> vq \<Rightarrow> u16 \<Rightarrow> desc list result" where
  "WalkChain mem q head = arm_walk_loop mem q [] [] head"

definition PushUsed :: "arm_memory \<Rightarrow> vq \<Rightarrow> u32 \<Rightarrow> u32 \<Rightarrow> arm_memory \<times> unit result" where
  "PushUsed mem q ident written =
    (case guest_offset mem (q_device_addr q + 2) 2 of Inl e \<Rightarrow> (mem, Inl e) | Inr idxp \<Rightarrow>
     let used = ReadU16 (am_data mem) idxp; entry = q_device_addr q + 4 + ucast (ucast used mod q_size q) * 8
     in case guest_offset mem entry 8 of Inl e \<Rightarrow> (mem, Inl e) | Inr p \<Rightarrow>
     let mem = mem\<lparr>am_data := WriteU32 (am_data mem) p ident\<rparr>
     in case guest_offset mem (entry + 4) 4 of Inl e \<Rightarrow> (mem, Inl e) | Inr p4 \<Rightarrow>
     let mem = mem\<lparr>am_data := WriteU32 (am_data mem) p4 written\<rparr>
     in (mem\<lparr>am_data := WriteU16 (am_data mem) idxp (used + 1)\<rparr>, Inr ()))"

section \<open>Requests\<close>

fun arm_read_data :: "'f posix \<Rightarrow> 'f vdisk \<Rightarrow> desc list \<Rightarrow> arm_memory \<Rightarrow> u64 \<Rightarrow> u32 \<Rightarrow> arm_memory \<times> u32 \<times> unit result" where
  "arm_read_data api disk [] mem sector written = (mem, written, Inr ())"
| "arm_read_data api disk (d # ds) mem sector written =
    (case rbind (Check (d_flags d AND 2 \<noteq> 0) ''virtio-blk read desc must be writable'') (\<lambda>_.
          rbind (Check (d_len d mod 512 = 0) ''virtio-blk read length not sector-aligned'') (\<lambda>_.
          guest_offset mem (d_addr d) (ucast (d_len d)))) of
       Inl e \<Rightarrow> (mem, written, Inl e)
     | Inr p \<Rightarrow>
        (case arm_ReadDisk api disk sector (ucast (d_len d)) of
           (bs, Inl e) \<Rightarrow> (am_write mem p bs, written, Inl e)
         | (bs, Inr _) \<Rightarrow>
             if \<not> written \<le> 0xFFFFFFFF - d_len d then (am_write mem p bs, written, Inl ''virtio-blk read byte count overflow'')
             else arm_read_data api disk ds (am_write mem p bs) (sector + ucast (d_len d div 512)) (written + d_len d)))"

fun arm_write_data :: "'f posix \<Rightarrow> arm_memory \<Rightarrow> desc list \<Rightarrow> 'f vdisk \<Rightarrow> u64 \<Rightarrow> 'f vdisk \<times> unit result" where
  "arm_write_data api mem [] disk sector = (disk, Inr ())"
| "arm_write_data api mem (d # ds) disk sector =
    (case rbind (Check (d_flags d AND 2 = 0) ''virtio-blk write desc must be read-only'') (\<lambda>_.
          rbind (Check (d_len d mod 512 = 0) ''virtio-blk write length not sector-aligned'') (\<lambda>_.
          guest_offset mem (d_addr d) (ucast (d_len d)))) of
       Inl e \<Rightarrow> (disk, Inl e)
     | Inr p \<Rightarrow>
        (case arm_WriteDisk api disk sector (am_read mem p (unat (d_len d))) of
           (disk, Inl e) \<Rightarrow> (disk, Inl e)
         | (disk, Inr _) \<Rightarrow> arm_write_data api mem ds disk (sector + ucast (d_len d div 512))))"

text \<open>node-vmm with its terminating NUL, to the first data descriptor.\<close>

definition arm_blk_id :: bytes where
  "arm_blk_id = [0x6E, 0x6F, 0x64, 0x65, 0x2D, 0x76, 0x6D, 0x6D, 0]"

definition arm_get_id :: "desc list \<Rightarrow> arm_memory \<Rightarrow> arm_memory \<times> u32 \<times> unit result" where
  "arm_get_id ds mem =
    (case ds of [] \<Rightarrow> (mem, 0, Inr ())
     | d # _ \<Rightarrow> let n = min (d_len d) (of_nat (length arm_blk_id))
                in case guest_offset mem (d_addr d) (ucast n) of
                     Inl e \<Rightarrow> (mem, 0, Inl e) | Inr p \<Rightarrow> (am_write mem p (take (unat n) arm_blk_id), n, Inr ()))"

text \<open>The switch on the request type: memory, disk, bytes written, status byte, and whether it threw.\<close>

definition arm_dispatch ::
  "'f posix \<Rightarrow> u32 \<Rightarrow> u64 \<Rightarrow> desc list \<Rightarrow> arm_memory \<Rightarrow> 'f vdisk \<Rightarrow> arm_memory \<times> 'f vdisk \<times> u32 \<times> u8 \<times> unit result" where
  "arm_dispatch api type sector data mem disk =
    (if type = 0 then case arm_read_data api disk data mem sector 0 of (mem, written, r) \<Rightarrow> (mem, disk, written, 0, r)
     else if type = 1 then case arm_write_data api mem data disk sector of (disk, r) \<Rightarrow> (mem, disk, 0, 0, r)
     else if type = 4 then (mem, disk, 0, 0, Check (fsync api (write_handle disk)) ''virtio-blk flush'')
     else if type = 8 then case arm_get_id data mem of (mem, written, r) \<Rightarrow> (mem, disk, written, 0, r)
     else (mem, disk, 0, 2, Inr ()))"

definition arm_header_checks :: "arm_memory \<Rightarrow> vq \<Rightarrow> u16 \<Rightarrow> (desc list \<times> nat) result" where
  "arm_header_checks mem q head =
    rbind (WalkChain mem q head) (\<lambda>chain.
    rbind (Check (2 \<le> length chain) ''virtio-blk chain too short'') (\<lambda>_.
    let hdr = chain ! 0; stat_d = chain ! (length chain - 1) in
    rbind (Check (16 \<le> d_len hdr) ''virtio-blk header too short'') (\<lambda>_.
    rbind (Check (d_flags stat_d AND 2 \<noteq> 0 \<and> 1 \<le> d_len stat_d) ''virtio-blk status desc invalid'') (\<lambda>_.
    rbind (guest_offset mem (d_addr hdr) 16) (\<lambda>p. Inr (chain, p))))))"

text \<open>The body of the try block.\<close>

definition arm_try :: "'f posix \<Rightarrow> arm_memory \<Rightarrow> 'f vdisk \<Rightarrow> vq \<Rightarrow> u16 \<Rightarrow> arm_memory \<times> 'f vdisk \<times> u32 \<times> unit result" where
  "arm_try api mem disk q head =
    (case arm_header_checks mem q head of Inl e \<Rightarrow> (mem, disk, 0, Inl e) | Inr (chain, p) \<Rightarrow>
     let type = ReadU32 (am_data mem) p; sector = ReadU64 (am_data mem) (p + 8);
         stat_d = chain ! (length chain - 1); data = take (length chain - 2) (drop 1 chain)
     in case arm_dispatch api type sector data mem disk of
          (mem, disk, written, status, Inl e) \<Rightarrow> (mem, disk, written, Inl e)
        | (mem, disk, written, status, Inr _) \<Rightarrow>
           (case guest_offset mem (d_addr stat_d) 1 of Inl e \<Rightarrow> (mem, disk, written, Inl e)
            | Inr sp \<Rightarrow> (case PushUsed (am_write mem sp [status]) q (ucast head) (written + 1) of (mem, r) \<Rightarrow> (mem, disk, written, r))))"

text \<open>The handler: status 1 if the chain can still be walked, then the used element.\<close>

definition arm_fail_status :: "arm_memory \<Rightarrow> vq \<Rightarrow> u16 \<Rightarrow> arm_memory" where
  "arm_fail_status mem q head =
    (case WalkChain mem q head of
       Inl _ \<Rightarrow> mem
     | Inr chain \<Rightarrow> if chain = [] then mem
         else case guest_offset mem (d_addr (chain ! (length chain - 1))) 1 of Inl _ \<Rightarrow> mem | Inr sp \<Rightarrow> am_write mem sp [1])"

definition arm_process_request :: "'f posix \<Rightarrow> arm_memory \<Rightarrow> 'f vdisk \<Rightarrow> vq \<Rightarrow> u16 \<Rightarrow> arm_memory \<times> 'f vdisk \<times> unit result" where
  "arm_process_request api mem disk q head =
    (case arm_try api mem disk q head of
       (mem, disk, written, Inr _) \<Rightarrow> (mem, disk, Inr ())
     | (mem, disk, written, Inl _) \<Rightarrow>
        (case PushUsed (arm_fail_status mem q head) q (ucast head) written of (mem, r) \<Rightarrow> (mem, disk, r)))"

function arm_queue_loop ::
  "'f posix \<Rightarrow> vq \<Rightarrow> u16 \<Rightarrow> arm_memory \<Rightarrow> 'f vdisk \<Rightarrow> u16 \<Rightarrow> arm_memory \<times> 'f vdisk \<times> u16 \<times> unit result" where
  "arm_queue_loop api q avail mem disk last_avail =
    (if last_avail = avail then (mem, disk, last_avail, Inr ())
     else case guest_offset mem (q_driver_addr q + 4 + ucast (ucast last_avail mod q_size q) * 2) 2 of
            Inl e \<Rightarrow> (mem, disk, last_avail, Inl e)
          | Inr p \<Rightarrow>
             (case arm_process_request api mem disk q (ReadU16 (am_data mem) p) of
                (mem', disk', Inl e) \<Rightarrow> (mem', disk', last_avail + 1, Inl e)
              | (mem', disk', Inr _) \<Rightarrow> arm_queue_loop api q avail mem' disk' (last_avail + 1)))"
  by pat_completeness auto

termination
  by (relation "measure (\<lambda>(_, _, avail, _, _, last_avail). unat (avail - last_avail))") (auto simp: avail_distance_decreases)

declare arm_queue_loop.simps [simp del]

definition arm_handle_queue :: "'f posix \<Rightarrow> arm_memory \<Rightarrow> 'f vdisk \<Rightarrow> vq \<Rightarrow> arm_memory \<times> 'f vdisk \<times> u16 \<times> unit result" where
  "arm_handle_queue api mem disk q =
    (case guest_offset mem (q_driver_addr q + 2) 2 of Inl e \<Rightarrow> (mem, disk, q_last_avail q, Inl e)
     | Inr p \<Rightarrow> arm_queue_loop api q (ReadU16 (am_data mem) p) mem disk (q_last_avail q))"

section \<open>Registers\<close>

record 'f arm_blk =
  ab_mem :: arm_memory
  ab_base :: u64
  ab_intid :: u32
  ab_disk :: "'f vdisk"
  ab_status :: u32
  ab_drv_features :: u64
  ab_dev_features_sel :: u32
  ab_drv_features_sel :: u32
  ab_queue_sel :: u32
  ab_interrupt_status :: u32
  ab_queues :: "vq list"
  ab_line :: bool

definition arm_blk_init :: "arm_memory \<Rightarrow> u32 \<Rightarrow> 'f vdisk \<Rightarrow> 'f arm_blk" where
  "arm_blk_init mem slot disk = \<lparr>ab_mem = mem, ab_base = VirtioMmioBaseForSlot slot, ab_intid = VirtioMmioIntidForSlot slot, ab_disk = disk,
     ab_status = 0, ab_drv_features = 0, ab_dev_features_sel = 0, ab_drv_features_sel = 0, ab_queue_sel = 0, ab_interrupt_status = 0,
     ab_queues = (replicate 8 arm_queue_default)[0 := arm_queue_default\<lparr>q_size := kMaxQueueSize\<rparr>], ab_line = False\<rparr>"

definition arm_blk_read_reg :: "'f arm_blk \<Rightarrow> u32 \<Rightarrow> u32" where
  "arm_blk_read_reg b off =
    (if off = 0x000 then 0x74726976
     else if off = 0x004 then 2
     else if off = 0x008 then 2
     else if off = 0x00C then 0x554D4551
     else if off = 0x010
     then let f = push_bit 32 1 OR push_bit 9 1 :: u64 in if ab_dev_features_sel b = 1 then ucast (drop_bit 32 f) else ucast f
     else if off = 0x034 then kMaxQueueSize
     else if off = 0x044 then (if q_ready (ab_queues b ! unat (ab_queue_sel b)) then 1 else 0)
     else if off = 0x060 then ab_interrupt_status b
     else if off = 0x070 then ab_status b
     else 0)"

text \<open>read_mmio: the first \<open>n\<close> bytes of the buffer afterwards.\<close>

definition arm_blk_read_mmio :: "'f arm_blk \<Rightarrow> u64 \<Rightarrow> u32 \<Rightarrow> bytes" where
  "arm_blk_read_mmio b addr n =
    (let off = ucast (addr - ab_base b) :: u32; data = replicate (unat n) 0
     in if off < 0x100 then if n \<noteq> 4 then data else le_bytes 4 (arm_blk_read_reg b off)
        else let cfg = le_bytes 8 (vd_sectors (ab_disk b)) @ le_bytes 4 (0 :: u32) @ le_bytes 4 (128 :: u32); cfg_off = unat (off - 0x100)
             in if cfg_off < 16 then buf_put data 0 (take (min (unat n) (16 - cfg_off)) (drop cfg_off cfg)) else data)"

definition arm_blk_reset :: "'f arm_blk \<Rightarrow> 'f arm_blk" where
  "arm_blk_reset b = b\<lparr>ab_status := 0, ab_drv_features := 0, ab_dev_features_sel := 0, ab_drv_features_sel := 0, ab_queue_sel := 0,
     ab_interrupt_status := 0, ab_queues := replicate (length (ab_queues b)) arm_queue_default, ab_line := False\<rparr>"

definition arm_put_queue :: "'f arm_blk \<Rightarrow> (vq \<Rightarrow> vq) \<Rightarrow> 'f arm_blk" where
  "arm_put_queue b f = (let i = unat (ab_queue_sel b) in b\<lparr>ab_queues := (ab_queues b)[i := f (ab_queues b ! i)]\<rparr>)"

definition arm_queue_ready :: "'f arm_blk \<Rightarrow> u32 \<Rightarrow> 'f arm_blk" where
  "arm_queue_ready b value =
    (if value = 0 then arm_put_queue b (\<lambda>q. q\<lparr>q_ready := False\<rparr>)
     else if ValidVirtQueue (ab_mem b) (ab_queues b ! unat (ab_queue_sel b)) then arm_put_queue b (\<lambda>q. q\<lparr>q_ready := True\<rparr>)
     else (arm_put_queue b (\<lambda>q. q\<lparr>q_ready := False\<rparr>))\<lparr>ab_status := ab_status b OR kVirtioStatusDeviceNeedsReset\<rparr>)"

definition arm_blk_notify :: "'f posix \<Rightarrow> 'f arm_blk \<Rightarrow> u32 \<Rightarrow> 'f arm_blk \<times> unit result" where
  "arm_blk_notify api b value =
    (if value < 8 \<and> q_ready (ab_queues b ! unat value)
     then let i = unat value; q = ab_queues b ! i
          in case arm_handle_queue api (ab_mem b) (ab_disk b) q of (mem, disk, last_avail, r) \<Rightarrow>
             let b = b\<lparr>ab_mem := mem, ab_disk := disk, ab_queues := (ab_queues b)[i := q\<lparr>q_last_avail := last_avail\<rparr>]\<rparr>
             in case r of Inl e \<Rightarrow> (b, Inl e)
                | Inr _ \<Rightarrow> (b\<lparr>ab_interrupt_status := ab_interrupt_status b OR 1, ab_line := True\<rparr>, Inr ())
     else (b, Inr ()))"

definition arm_blk_ack :: "'f arm_blk \<Rightarrow> u32 \<Rightarrow> 'f arm_blk" where
  "arm_blk_ack b value =
    (let b = b\<lparr>ab_interrupt_status := ab_interrupt_status b AND NOT value\<rparr>
     in if ab_interrupt_status b = 0 then b\<lparr>ab_line := False\<rparr> else b)"

definition arm_blk_write_reg :: "'f posix \<Rightarrow> 'f arm_blk \<Rightarrow> u32 \<Rightarrow> u32 \<Rightarrow> 'f arm_blk \<times> unit result" where
  "arm_blk_write_reg api b off value =
    (if off = 0x050 then arm_blk_notify api b value
     else (if off = 0x014 then b\<lparr>ab_dev_features_sel := value\<rparr>
       else if off = 0x024 then b\<lparr>ab_drv_features_sel := value\<rparr>
       else if off = 0x020
       then b\<lparr>ab_drv_features := (if ab_drv_features_sel b = 0 then set_low (ab_drv_features b) value else set_high (ab_drv_features b) value)\<rparr>
       else if off = 0x030 then (if value < 8 then b\<lparr>ab_queue_sel := value\<rparr> else b)
       else if off = 0x038 then (if 1 \<le> value \<and> value \<le> kMaxQueueSize then arm_put_queue b (\<lambda>q. q\<lparr>q_size := value\<rparr>) else b)
       else if off = 0x044 then arm_queue_ready b value
       else if off = 0x064 then arm_blk_ack b value
       else if off = 0x070 then (if value = 0 then arm_blk_reset b else b\<lparr>ab_status := value\<rparr>)
       else if off = 0x080 then arm_put_queue b (\<lambda>q. q\<lparr>q_desc_addr := set_low (q_desc_addr q) value\<rparr>)
       else if off = 0x084 then arm_put_queue b (\<lambda>q. q\<lparr>q_desc_addr := set_high (q_desc_addr q) value\<rparr>)
       else if off = 0x090 then arm_put_queue b (\<lambda>q. q\<lparr>q_driver_addr := set_low (q_driver_addr q) value\<rparr>)
       else if off = 0x094 then arm_put_queue b (\<lambda>q. q\<lparr>q_driver_addr := set_high (q_driver_addr q) value\<rparr>)
       else if off = 0x0A0 then arm_put_queue b (\<lambda>q. q\<lparr>q_device_addr := set_low (q_device_addr q) value\<rparr>)
       else if off = 0x0A4 then arm_put_queue b (\<lambda>q. q\<lparr>q_device_addr := set_high (q_device_addr q) value\<rparr>)
       else b, Inr ()))"

definition arm_blk_write_mmio :: "'f posix \<Rightarrow> 'f arm_blk \<Rightarrow> u64 \<Rightarrow> bytes \<Rightarrow> u32 \<Rightarrow> 'f arm_blk \<times> unit result" where
  "arm_blk_write_mmio api b addr data n =
    (let off = ucast (addr - ab_base b) :: u32
     in if 0x100 \<le> off \<or> n \<noteq> 4 then (b, Inr ()) else arm_blk_write_reg api b off (ReadU32 ((!) data) 0))"

end
