(* ===== verification/Arm_Blk_Proofs.thy ===== *)
theory Arm_Blk_Proofs
  imports Arm_Blk
begin

unbundle bit_operations_syntax

text \<open>
  The virtio-blk device of the Arm machine: its guest memory is that of the other devices at shifted addresses, so the
  facts of Virtqueue and Queue_State about chains and rings apply to it; its disk keeps the contract of Block_Disk; and whatever the guest
  writes to its registers and rings, it stays inside guest RAM and the writable file, and its interrupt line tells its interrupt status.
\<close>

section \<open>The same memory at shifted addresses\<close>

definition ram_of :: "arm_memory \<Rightarrow> guest_memory" where
  "ram_of mem = \<lparr>gm_data = am_data mem, gm_len = am_size mem\<rparr>"

definition shifted :: "vq \<Rightarrow> vq" where
  "shifted q = q\<lparr>q_desc_addr := q_desc_addr q - kRamBase, q_driver_addr := q_driver_addr q - kRamBase,
     q_device_addr := q_device_addr q - kRamBase\<rparr>"

text \<open>The buffer ends below 2^64 as the guest sees it.\<close>

definition mem_fits :: "arm_memory \<Rightarrow> bool" where
  "mem_fits mem \<longleftrightarrow> unat (am_size mem) \<le> 2 ^ 63"

lemma ram_of_simps [simp]:
  "gm_len (ram_of mem) = am_size mem" "gm_data (ram_of mem) = am_data mem"
  "ram_of (mem\<lparr>am_data := d\<rparr>) = (ram_of mem)\<lparr>gm_data := d\<rparr>"
  "ram_of (am_write mem p bs) = gm_write (ram_of mem) p bs"
  by (simp_all add: ram_of_def am_write_def gm_write_def)

lemma guest_offset_ram:
  assumes "mem_fits mem"
  shows "guest_offset mem a n = Inr p \<longleftrightarrow> gm_ptr (ram_of mem) (a - kRamBase) n = Inr p"
proof (cases "kRamBase \<le> a")
  case True
  then have "unat (a - kRamBase) = unat a - unat kRamBase" "unat kRamBase \<le> unat a" by (simp_all add: unat_diff_le word_le_nat_alt)
  then show ?thesis by (auto simp: guest_offset_Inr gm_ptr_Inr)
next
  case False
  then have a: "unat a < unat kRamBase" by (simp add: word_le_nat_alt)
  have "unat (a - kRamBase) = 2 ^ 64 - unat kRamBase + unat a"
    using a by (simp add: unat_sub_if' word_le_nat_alt source_consts)
  then have "\<not> unat (a - kRamBase) + unat n \<le> unat (am_size mem)" using assms a by (simp add: mem_fits_def source_consts)
  then show ?thesis using a by (auto simp: guest_offset_Inr gm_ptr_Inr)
qed

lemma guest_offset_Inl:
  "mem_fits mem \<Longrightarrow> (\<exists>e. guest_offset mem a n = Inl e) \<longleftrightarrow> (\<exists>e. gm_ptr (ram_of mem) (a - kRamBase) n = Inl e)"
  using guest_offset_ram [of mem a n] by (metis sum.exhaust sum.distinct(1))


text \<open>Two outcomes that differ at most in the message of the error.\<close>

definition agree :: "'a result \<Rightarrow> 'a result \<Rightarrow> bool" where
  "agree r r' \<longleftrightarrow> (\<forall>x. r = Inr x \<longleftrightarrow> r' = Inr x)"

lemma agree_cases:
  assumes "agree r r'"
  obtains x where "r = Inr x" "r' = Inr x" | e e' where "r = Inl e" "r' = Inl e'"
proof (cases r)
  case (Inl e)
  then show ?thesis using assms that(2) unfolding agree_def by (cases r') auto
next
  case (Inr x)
  then show ?thesis using assms that(1) unfolding agree_def by blast
qed

lemma agree_offset: "mem_fits mem \<Longrightarrow> agree (guest_offset mem a n) (gm_ptr (ram_of mem) (a - kRamBase) n)"
  by (simp add: agree_def guest_offset_ram)

lemma agree_Inl [simp]: "agree (Inl e) (Inl e')" and agree_Inr [simp]: "agree (Inr x) (Inr y) \<longleftrightarrow> x = y"
  and agree_mixed [simp]: "\<not> agree (Inr x) (Inl e)" "\<not> agree (Inl e) (Inr x)"
  by (auto simp: agree_def)

lemma agree_bind: "agree r r' \<Longrightarrow> (\<And>x. r = Inr x \<Longrightarrow> agree (f x) (g x)) \<Longrightarrow> agree (rbind r f) (rbind r' g)"
  by (erule agree_cases) simp_all

lemma agree_Check: "agree (Check c m) (Check c m')"
  by (cases c) (simp_all add: Check_def)

lemma shifted_simps [simp]: "q_size (shifted q) = q_size q" "q_last_avail (shifted q) = q_last_avail q"
  by (simp_all add: shifted_def)

lemma walk_loop_agree:
  assumes "mem_fits mem"
  shows "agree (arm_walk_loop mem q seen chain idx) (walk_chain_loop (ram_of mem) (q_desc_addr (shifted q)) (q_size q) seen chain idx)"
  using assms
proof (induction mem q seen chain idx rule: arm_walk_loop.induct)
  case (1 mem q seen chain idx)
  let ?loop = "walk_chain_loop (ram_of mem) (q_desc_addr (shifted q)) (q_size q)"
  let ?a = "q_desc_addr q + ucast idx * 16"
  have a: "q_desc_addr (shifted q) + ucast idx * 16 = ?a - kRamBase" by (simp add: shifted_def)
  show ?case
  proof (cases "ucast idx < q_size q \<and> idx \<notin> set seen")
    case True
    show ?thesis using agree_offset [OF "1.prems", of ?a 16]
    proof (cases rule: agree_cases)
      case (1 p)
      let ?d = "read_desc (ram_of mem) p"
      have rd: "arm_ReadDesc mem q idx = Inr ?d" using True 1 by (simp add: arm_ReadDesc_def read_desc_def)
      have left: "arm_walk_loop mem q seen chain idx = rbind (Check (d_flags ?d AND 4 = 0) ''indirect descriptors not supported'') (\<lambda>_.
          rbind (arm_chain_push chain ?d) (\<lambda>c. if d_flags ?d AND 1 = 0 then Inr c else arm_walk_loop mem q (idx # seen) c (d_next ?d)))"
        using True rd by (subst arm_walk_loop.simps) simp
      have right: "?loop seen chain idx = rbind (Check (d_flags ?d AND 4 = 0) ''virtio indirect descriptors are not supported'') (\<lambda>_.
          rbind (arm_chain_push chain ?d) (\<lambda>c. if d_flags ?d AND 1 = 0 then Inr c else ?loop (idx # seen) c (d_next ?d)))"
        using True 1 by (subst walk_chain_loop.simps) (simp add: a Let_def arm_chain_push_def DescChain_push_def source_consts)
      have IH: "agree (arm_walk_loop mem q (idx # seen) c (d_next ?d)) (?loop (idx # seen) c (d_next ?d))"
        if "d_flags ?d AND 4 = 0" "arm_chain_push chain ?d = Inr c" "d_flags ?d AND 1 \<noteq> 0" for c
        using "1.IH" [of "()" "()" ?d "()" c] True rd that "1.prems" by simp
      show ?thesis unfolding left right
        by (rule agree_bind [OF agree_Check]) (rule agree_bind, simp add: agree_def, use IH in auto)
    next
      case (2 e e')
      then have "arm_ReadDesc mem q idx = Inl e" using True by (simp add: arm_ReadDesc_def)
      then show ?thesis using True 2 by (subst arm_walk_loop.simps, subst walk_chain_loop.simps) (simp add: a)
    qed
  next
    case False
    then show ?thesis by (subst arm_walk_loop.simps, subst walk_chain_loop.simps) (auto simp: rbind_eq_Inr agree_def)
  qed
qed

lemma WalkChain_agree:
  "mem_fits mem \<Longrightarrow> agree (WalkChain mem q head) (walk_chain_inline (ram_of mem) (q_desc_addr (shifted q)) (q_size q) head)"
  by (simp add: WalkChain_def walk_chain_inline_def walk_loop_agree)

lemma PushUsed_ram:
  assumes "mem_fits mem"
  shows "ram_of (fst (PushUsed mem q i w)) = fst (push_used_inline (ram_of mem) (q_device_addr (shifted q)) (q_size q) i w)"
    and "agree (snd (PushUsed mem q i w)) (snd (push_used_inline (ram_of mem) (q_device_addr (shifted q)) (q_size q) i w))"
proof -
  have fits: "mem_fits (mem\<lparr>am_data := d\<rparr>)" for d using assms by (simp add: mem_fits_def)
  have step: "agree (guest_offset (mem\<lparr>am_data := d\<rparr>) b n) (gm_ptr ((ram_of mem)\<lparr>gm_data := d\<rparr>) (b - kRamBase) n)" for b n d
    using agree_offset [OF fits, of d b n] by simp
  have "ram_of (fst (PushUsed mem q i w)) = fst (push_used_inline (ram_of mem) (q_device_addr (shifted q)) (q_size q) i w) \<and>
      agree (snd (PushUsed mem q i w)) (snd (push_used_inline (ram_of mem) (q_device_addr (shifted q)) (q_size q) i w))"
    using agree_offset [OF assms, of "q_device_addr q + 2" 2]
  proof (cases rule: agree_cases)
    case (1 p)
    let ?u = "ReadU16 (am_data mem) p"
    let ?e = "q_device_addr q + 4 + ucast (ucast ?u mod q_size q) * 8"
    have e: "q_device_addr (shifted q) + 4 + ucast (ucast ?u mod q_size q) * 8 = ?e - kRamBase"
      "?e - kRamBase + 4 = ?e + 4 - kRamBase" "q_device_addr (shifted q) + 2 = q_device_addr q + 2 - kRamBase"
      by (simp_all add: shifted_def)
    show ?thesis using agree_offset [OF assms, of ?e 8]
    proof (cases rule: agree_cases)
      case in8: (1 p8)
      let ?d = "WriteU32 (am_data mem) p8 i"
      have left: "PushUsed mem q i w = (case guest_offset (mem\<lparr>am_data := ?d\<rparr>) (?e + 4) 4 of Inl e \<Rightarrow> (mem\<lparr>am_data := ?d\<rparr>, Inl e)
          | Inr p4 \<Rightarrow> (mem\<lparr>am_data := WriteU16 (WriteU32 ?d p4 w) p (?u + 1)\<rparr>, Inr ()))"
        unfolding PushUsed_def 1 in8 sum.case Let_def by (simp split: sum.split)
      have right: "push_used_inline (ram_of mem) (q_device_addr (shifted q)) (q_size q) i w =
          (case gm_ptr ((ram_of mem)\<lparr>gm_data := ?d\<rparr>) (?e + 4 - kRamBase) 4 of Inl e \<Rightarrow> ((ram_of mem)\<lparr>gm_data := ?d\<rparr>, Inl e)
          | Inr p4 \<Rightarrow> ((ram_of mem)\<lparr>gm_data := WriteU16 (WriteU32 ?d p4 w) p (?u + 1)\<rparr>, Inr ()))"
        unfolding push_used_inline_def e 1 sum.case Let_def ram_of_simps in8 by (simp split: sum.split)
      show ?thesis unfolding left right using step [of ?d "?e + 4" 4] by (cases rule: agree_cases) (simp_all only: sum.case fst_conv snd_conv ram_of_simps agree_Inl agree_Inr)
    next
      case out8: 2
      then show ?thesis using 1 by (simp add: PushUsed_def push_used_inline_def Let_def e)
    qed
  next
    case 2
    then show ?thesis by (simp add: PushUsed_def push_used_inline_def shifted_def algebra_simps)
  qed
  then show "ram_of (fst (PushUsed mem q i w)) = fst (push_used_inline (ram_of mem) (q_device_addr (shifted q)) (q_size q) i w)"
    "agree (snd (PushUsed mem q i w)) (snd (push_used_inline (ram_of mem) (q_device_addr (shifted q)) (q_size q) i w))" by blast+
qed


section \<open>What holds for every host and every guest\<close>

definition posix_bounded :: "'f posix \<Rightarrow> bool" where
  "posix_bounded api \<longleftrightarrow> (\<forall>f pos n bs. pread api f pos n = Some bs \<longrightarrow> length bs \<le> n)"

lemma arm_pread_loop_bounded:
  "posix_bounded api \<Longrightarrow> length dst = ndone \<Longrightarrow> ndone \<le> len \<Longrightarrow> length (fst (arm_pread_loop api f pos len ndone dst)) \<le> len"
proof (induction api f pos len ndone dst rule: arm_pread_loop.induct)
  case (1 api f pos len ndone dst)
  show ?case
  proof (cases "ndone < len")
    case True
    show ?thesis
    proof (cases "pread api f (pos + ndone) (len - ndone)")
      case (Some got)
      then have "length got \<le> len - ndone" using "1.prems"(1) unfolding posix_bounded_def by blast
      with Some True "1.prems" "1.IH" [OF True Some] show ?thesis by (subst arm_pread_loop.simps) auto
    qed (use True "1.prems" in \<open>subst arm_pread_loop.simps, simp\<close>)
  qed (use "1.prems" in \<open>subst arm_pread_loop.simps, simp\<close>)
qed

lemma arm_PreadAll_bounded: "posix_bounded api \<Longrightarrow> length (fst (arm_PreadAll api f len off)) \<le> len"
  using arm_pread_loop_bounded [of api "[]" 0 len f "unat off"] by (simp add: arm_PreadAll_def)

lemma arm_read_chunks_bounded:
  "\<lbrakk>posix_bounded api; length dst \<le> ndone; ndone \<le> len\<rbrakk> \<Longrightarrow> length (fst (arm_read_chunks api d off len ndone dst)) \<le> len"
proof (induction api d off len ndone dst rule: arm_read_chunks.induct)
  case (1 api d off len ndone dst)
  show ?case
  proof (cases "ndone < len")
    case True
    let ?cb = "off + of_nat ndone"
    let ?n = "min (len - ndone) (512 - unat (?cb mod 512))"
    let ?f = "if sector_dirty d (?cb div 512) then the (vd_overlay d) else vd_base d"
    obtain bs r where r: "arm_PreadAll api ?f ?n ?cb = (bs, r)" by (cases "arm_PreadAll api ?f ?n ?cb")
    have "length bs \<le> ?n" using arm_PreadAll_bounded [OF "1.prems"(1), of ?f ?n ?cb] r by simp
    with r True "1.prems" "1.IH" [OF True refl refl refl refl refl r [symmetric]] show ?thesis
      by (subst arm_read_chunks.simps) (auto simp: Let_def split: sum.splits)
  qed (use "1.prems" in \<open>subst arm_read_chunks.simps, simp\<close>)
qed

lemma arm_ReadDisk_bounded: "posix_bounded api \<Longrightarrow> length (fst (arm_ReadDisk api d s n)) \<le> unat n"
  by (auto simp: arm_ReadDisk_def arm_PreadAll_bounded arm_read_chunks_bounded split: sum.splits)

lemma arm_prepare_sectors_protected:
  "has_overlay d \<Longrightarrow> \<not> vd_read_only d \<Longrightarrow> disk_protected d (fst (arm_prepare_sectors api off e ss d))"
proof (induction ss arbitrary: d)
  case (Cons s ss)
  have upd: "disk_protected d (d\<lparr>vd_overlay := Some f\<rparr>)" for f
    using Cons.prems by (simp add: disk_protected_def has_overlay_def)
  have "disk_protected d (fst (arm_prepare_sectors api off e ss (d\<lparr>vd_overlay := Some f\<rparr>)))" for f
    using Cons.IH [of "d\<lparr>vd_overlay := Some f\<rparr>"] Cons.prems upd [of f] disk_protected_trans
    by (fastforce simp: has_overlay_def)
  then show ?case using Cons upd by (simp add: Let_def split: prod.splits sum.splits)
qed simp

lemma write_handle_protected: "\<not> vd_read_only d \<Longrightarrow> disk_protected d (set_write_handle d f)"
  by (auto simp: disk_protected_def set_write_handle_def has_overlay_def split: option.splits)

lemma mark_protected: "\<not> vd_read_only d \<Longrightarrow> disk_protected d (mark_dirty_range d a n)"
  by (simp add: disk_protected_def mark_dirty_range_def has_overlay_def Let_def mark_fold_frame del: upt_Suc)

lemma arm_WriteDisk_protected: "disk_protected d (fst (arm_WriteDisk api d s src))"
proof (cases "vd_read_only d")
  case False
  have "disk_protected d (fst (arm_prepare_partial_overlay api d a n))" for a n
    using arm_prepare_sectors_protected [of d api] False by (auto simp: arm_prepare_partial_overlay_def Let_def)
  then have prep: "arm_prepare_partial_overlay api d a n = (x, r) \<Longrightarrow> disk_protected d x" for a n x r
    by (metis fst_conv)
  have fin: "disk_protected d (mark_dirty_range (set_write_handle x f) a n)" "disk_protected d (set_write_handle x f)"
    if "disk_protected d x" for x f a n
    using that False write_handle_protected mark_protected disk_protected_trans by (metis disk_protected_def)+
  show ?thesis
    by (auto simp: arm_WriteDisk_def Let_def split: sum.splits prod.splits intro: fin dest: prep)
qed (simp add: arm_WriteDisk_def Let_def)

text \<open>The host memory behind the buffer and its size.\<close>

definition ram_kept :: "arm_memory \<Rightarrow> arm_memory \<Rightarrow> bool" where
  "ram_kept mem mem' \<longleftrightarrow> same_outside (ram_of mem) (ram_of mem')"

lemma ram_kept_refl [simp]: "ram_kept m m" by (simp add: ram_kept_def)
lemma ram_kept_trans: "ram_kept a b \<Longrightarrow> ram_kept b c \<Longrightarrow> ram_kept a c"
  unfolding ram_kept_def by (rule same_outside_trans)
lemma ram_kept_size: "ram_kept m m' \<Longrightarrow> am_size m' = am_size m" using same_outside_len [of "ram_of m" "ram_of m'"] by (simp add: ram_kept_def)

lemma am_write_safe: "guest_offset mem a n = Inr p \<Longrightarrow> length bs \<le> unat n \<Longrightarrow> ram_kept mem (am_write mem p bs)"
  unfolding ram_kept_def ram_of_simps by (rule same_outside_gm_write) (auto simp: guest_offset_Inr)

lemma am_store_safe:
  assumes "guest_offset mem a n = Inr p"
  shows "4 \<le> unat n \<Longrightarrow> ram_kept mem (mem\<lparr>am_data := WriteU32 (am_data mem) p v\<rparr>)"
    and "2 \<le> unat n \<Longrightarrow> ram_kept mem (mem\<lparr>am_data := WriteU16 (am_data mem) p h\<rparr>)"
  using am_write_safe [OF assms, of "le_bytes 4 v"] am_write_safe [OF assms, of "le_bytes 2 h"]
  by (simp_all add: am_write_def WriteU32_memcpy WriteU16_memcpy)

lemma guest_offset_kept: "ram_kept mem mem' \<Longrightarrow> guest_offset mem' a n = guest_offset mem a n"
  by (simp add: guest_offset_def contains_guest_range_def ram_kept_size)

lemma PushUsed_safe: "ram_kept mem (fst (PushUsed mem q i w))"
proof (cases "guest_offset mem (q_device_addr q + 2) 2")
  case p: (Inr p)
  let ?e = "q_device_addr q + 4 + ucast (ucast (ReadU16 (am_data mem) p) mod q_size q) * 8"
  show ?thesis
  proof (cases "guest_offset mem ?e 8")
    case p8: (Inr p8)
    let ?m1 = "mem\<lparr>am_data := WriteU32 (am_data mem) p8 i\<rparr>"
    have k1: "ram_kept mem ?m1" using am_store_safe(1) [OF p8] by simp
    show ?thesis
    proof (cases "guest_offset ?m1 (?e + 4) 4")
      case (Inl e)
      then show ?thesis using k1 p p8 unfolding PushUsed_def Let_def by simp
    next
      case p4: (Inr p4)
      let ?m2 = "?m1\<lparr>am_data := WriteU32 (am_data ?m1) p4 w\<rparr>"
      have k2: "ram_kept mem ?m2" using am_store_safe(1) [OF p4] ram_kept_trans [OF k1] by simp
      have "guest_offset ?m2 (q_device_addr q + 2) 2 = Inr p" using p guest_offset_kept [OF k2] by simp
      from am_store_safe(2) [OF this] have "ram_kept mem (?m2\<lparr>am_data := WriteU16 (am_data ?m2) p (ReadU16 (am_data mem) p + 1)\<rparr>)"
        using ram_kept_trans [OF k2] by simp
      then show ?thesis unfolding PushUsed_def p p8 sum.case Let_def p4 fst_conv .
    qed
  qed (simp add: PushUsed_def Let_def p)
qed (simp add: PushUsed_def)

lemma arm_read_data_safe: "posix_bounded api \<Longrightarrow> ram_kept mem (fst (arm_read_data api disk ds mem sector w))"
proof (induction ds arbitrary: mem sector w)
  case (Cons d ds)
  show ?case
  proof (cases "rbind (Check (d_flags d AND 2 \<noteq> 0) ''virtio-blk read desc must be writable'') (\<lambda>_.
      rbind (Check (d_len d mod 512 = 0) ''virtio-blk read length not sector-aligned'') (\<lambda>_. guest_offset mem (d_addr d) (ucast (d_len d))))")
    case (Inr p)
    obtain bs r where r: "arm_ReadDisk api disk sector (ucast (d_len d)) = (bs, r)" by fastforce
    have "guest_offset mem (d_addr d) (ucast (d_len d)) = Inr p" using Inr by simp
    moreover have "length bs \<le> unat (ucast (d_len d) :: u64)"
      using arm_ReadDisk_bounded [OF Cons.prems, of disk sector "ucast (d_len d)"] r by simp
    ultimately have "ram_kept mem (am_write mem p bs)" by (rule am_write_safe)
    with Inr r Cons show ?thesis by (cases r) (simp_all, blast intro: ram_kept_trans)
  qed simp
qed simp

lemma arm_get_id_safe: "ram_kept mem (fst (arm_get_id ds mem))"
  by (auto simp: arm_get_id_def Let_def ucast_len split: list.splits sum.splits intro!: am_write_safe)

lemma arm_write_data_protected: "disk_protected disk (fst (arm_write_data api mem ds disk sector))"
proof (induction ds arbitrary: disk sector)
  case (Cons d ds)
  have "arm_WriteDisk api disk s bs = (disk', r) \<Longrightarrow> disk_protected disk disk'" for s bs disk' r
    using arm_WriteDisk_protected [of disk api s bs] by simp
  with Cons.IH show ?case by (auto split: sum.splits prod.splits) (metis disk_protected_trans)
qed simp

lemma arm_dispatch_confined:
  assumes "posix_bounded api" and "arm_dispatch api type sector data mem disk = (mem', disk', w, st, r)"
  shows "ram_kept mem mem' \<and> disk_protected disk disk'"
  using assms(2) arm_read_data_safe [OF assms(1), of mem disk data sector 0] arm_get_id_safe [of mem data]
    arm_write_data_protected [of disk api mem data sector]
  by (auto simp: arm_dispatch_def split: if_splits prod.splits)

lemma arm_try_confined:
  assumes "posix_bounded api" and "arm_try api mem disk q head = (mem', disk', w, r)"
  shows "ram_kept mem mem' \<and> disk_protected disk disk'"
proof (cases "arm_header_checks mem q head")
  case (Inl e)
  then show ?thesis using assms(2) by (simp add: arm_try_def)
next
  case (Inr cp)
  obtain chain p where cp: "cp = (chain, p)" by (cases cp)
  let ?data = "take (length chain - 2) (drop 1 chain)" and ?s = "chain ! (length chain - 1)"
  obtain m d w' st r' where disp: "arm_dispatch api (ReadU32 (am_data mem) p) (ReadU64 (am_data mem) (p + 8)) ?data mem disk
      = (m, d, w', st, r')" using prod_cases5 by blast
  note conf = arm_dispatch_confined [OF assms(1) disp]
  have "ram_kept m (fst (PushUsed (am_write m sp [st]) q i k))" if "guest_offset m (d_addr ?s) 1 = Inr sp" for sp i k
    using am_write_safe [OF that, of "[st]"] PushUsed_safe ram_kept_trans by fastforce
  then have "PushUsed (am_write m sp [st]) q i k = (m', x) \<Longrightarrow> guest_offset m (d_addr ?s) 1 = Inr sp \<Longrightarrow> ram_kept mem m'" for sp i k m' x
    using conf ram_kept_trans by (metis fst_conv)
  then show ?thesis using assms(2) conf
    by (auto simp: arm_try_def Inr cp disp Let_def simp del: One_nat_def split: sum.splits prod.splits)
qed

lemma arm_fail_status_safe: "ram_kept mem (arm_fail_status mem q head)"
  by (auto simp: arm_fail_status_def split: sum.splits intro: am_write_safe)

lemma arm_process_confined:
  assumes "posix_bounded api" and "arm_process_request api mem disk q head = (mem', disk', r)"
  shows "ram_kept mem mem' \<and> disk_protected disk disk'"
proof -
  obtain m d w r' where t: "arm_try api mem disk q head = (m, d, w, r')" using prod_cases4 by blast
  have "ram_kept m (fst (PushUsed (arm_fail_status m q head) q i k))" for i k
    using PushUsed_safe arm_fail_status_safe ram_kept_trans by blast
  then show ?thesis using assms(2) arm_try_confined [OF assms(1) t]
    by (cases r') (auto simp: arm_process_request_def t split: prod.splits intro: ram_kept_trans, metis fst_conv ram_kept_trans)
qed

lemma arm_queue_loop_confined:
  "posix_bounded api \<Longrightarrow> arm_queue_loop api q avail mem disk la = (mem', disk', l, r) \<Longrightarrow> ram_kept mem mem' \<and> disk_protected disk disk'"
proof (induction api q avail mem disk la rule: arm_queue_loop.induct)
  case (1 api q avail mem disk la)
  show ?case
  proof (cases "la = avail")
    case False
    show ?thesis
    proof (cases "guest_offset mem (q_driver_addr q + 4 + ucast (ucast la mod q_size q) * 2) 2")
      case (Inl e)
      then show ?thesis using "1.prems" False by (subst (asm) arm_queue_loop.simps) simp
    next
      case p: (Inr p)
      obtain m d rr where pr: "arm_process_request api mem disk q (ReadU16 (am_data mem) p) = (m, d, rr)"
        using prod_cases3 by blast
      note conf = arm_process_confined [OF "1.prems"(1) pr]
      show ?thesis
      proof (cases rr)
        case (Inl e)
        then show ?thesis using "1.prems" False p pr conf by (subst (asm) arm_queue_loop.simps) simp
      next
        case (Inr u)
        then have "arm_queue_loop api q avail m d (la + 1) = (mem', disk', l, r)"
          using "1.prems" False p pr by (subst (asm) arm_queue_loop.simps) simp
        then show ?thesis
          using "1.IH" [OF False p pr [symmetric] refl, of u] Inr "1.prems"(1) conf
          by (auto intro: ram_kept_trans disk_protected_trans)
      qed
    qed
  qed (use "1.prems" in \<open>simp add: arm_queue_loop.simps [of api q avail mem disk avail]\<close>)
qed

lemma arm_handle_queue_confined:
  "posix_bounded api \<Longrightarrow> arm_handle_queue api mem disk q = (mem', disk', l, r) \<Longrightarrow> ram_kept mem mem' \<and> disk_protected disk disk'"
  by (auto simp: arm_handle_queue_def split: sum.splits dest: arm_queue_loop_confined)


section \<open>The register file\<close>

definition arm_blk_ok :: "'f arm_blk \<Rightarrow> bool" where
  "arm_blk_ok b \<longleftrightarrow> length (ab_queues b) = 8 \<and> ab_queue_sel b < 8 \<and> (\<forall>q \<in> set (ab_queues b). vq_ok q) \<and>
     (ab_line b \<longleftrightarrow> ab_interrupt_status b \<noteq> 0)"

text \<open>A store of the guest: address, buffer and width.\<close>

definition arm_blk_step :: "'f posix \<Rightarrow> 'f arm_blk \<Rightarrow> u64 \<times> bytes \<times> u32 \<Rightarrow> 'f arm_blk" where
  "arm_blk_step api b w = fst (arm_blk_write_mmio api b (fst w) (fst (snd w)) (snd (snd w)))"

definition arm_blk_kept :: "'f arm_blk \<Rightarrow> 'f arm_blk \<Rightarrow> bool" where
  "arm_blk_kept b b' \<longleftrightarrow> ram_kept (ab_mem b) (ab_mem b') \<and> disk_protected (ab_disk b) (ab_disk b') \<and> ab_base b' = ab_base b \<and> ab_intid b' = ab_intid b"

lemma arm_queue_default_ok [simp]: "vq_ok arm_queue_default"
  by (simp add: vq_ok_def arm_queue_default_def source_consts)

lemma arm_put_frame [simp]:
  "ab_mem (arm_put_queue b f) = ab_mem b" "ab_disk (arm_put_queue b f) = ab_disk b" "ab_base (arm_put_queue b f) = ab_base b"
  "ab_intid (arm_put_queue b f) = ab_intid b" "ab_queue_sel (arm_put_queue b f) = ab_queue_sel b"
  "ab_line (arm_put_queue b f) = ab_line b" "ab_interrupt_status (arm_put_queue b f) = ab_interrupt_status b"
  "length (ab_queues (arm_put_queue b f)) = length (ab_queues b)" "ab_status (arm_put_queue b f) = ab_status b"
  by (simp_all add: arm_put_queue_def Let_def)

lemma arm_put_ok: "arm_blk_ok b \<Longrightarrow> (\<And>q. vq_ok q \<Longrightarrow> vq_ok (f q)) \<Longrightarrow> arm_blk_ok (arm_put_queue b f)"
  by (auto simp: arm_blk_ok_def arm_put_queue_def Let_def word_less_nat_alt dest!: set_update_subset_insert [THEN subsetD])

lemma arm_blk_fields_ok [simp]:
  "arm_blk_ok (b\<lparr>ab_dev_features_sel := x\<rparr>) = arm_blk_ok b" "arm_blk_ok (b\<lparr>ab_drv_features_sel := x\<rparr>) = arm_blk_ok b"
  "arm_blk_ok (b\<lparr>ab_drv_features := y\<rparr>) = arm_blk_ok b" "arm_blk_ok (b\<lparr>ab_status := x\<rparr>) = arm_blk_ok b"
  by (simp_all add: arm_blk_ok_def)

lemma arm_queue_ready_ok: "arm_blk_ok b \<Longrightarrow> arm_blk_ok (arm_queue_ready b v)"
  by (auto simp: arm_queue_ready_def vq_ok_def intro!: arm_put_ok)

lemma arm_notify_ok: "arm_blk_ok b \<Longrightarrow> arm_blk_ok (fst (arm_blk_notify api b v))"
  unfolding arm_blk_notify_def Let_def
  by (auto simp: arm_blk_ok_def vq_ok_def word_less_nat_alt or_eq_0_iff split: prod.splits sum.splits
      dest!: set_update_subset_insert [THEN subsetD])

lemma arm_ack_ok: "arm_blk_ok b \<Longrightarrow> arm_blk_ok (arm_blk_ack b v)"
  by (auto simp: arm_blk_ack_def arm_blk_ok_def Let_def)

lemma arm_write_reg_ok: "arm_blk_ok b \<Longrightarrow> arm_blk_ok (fst (arm_blk_write_reg api b off v))"
proof -
  assume b: "arm_blk_ok b"
  have "arm_blk_ok (arm_blk_reset b)" using b by (simp add: arm_blk_ok_def arm_blk_reset_def)
  moreover have "v < 8 \<Longrightarrow> arm_blk_ok (b\<lparr>ab_queue_sel := v\<rparr>)" using b by (simp add: arm_blk_ok_def)
  moreover have "1 \<le> v \<Longrightarrow> v \<le> kMaxQueueSize \<Longrightarrow> arm_blk_ok (arm_put_queue b (\<lambda>q. q\<lparr>q_size := v\<rparr>))"
    using b by (auto intro!: arm_put_ok simp: vq_ok_def word_less_nat_alt word_le_nat_alt)
  moreover have "arm_blk_ok (arm_put_queue b (\<lambda>q. q\<lparr>q_desc_addr := f q\<rparr>))" "arm_blk_ok (arm_put_queue b (\<lambda>q. q\<lparr>q_driver_addr := f q\<rparr>))"
    "arm_blk_ok (arm_put_queue b (\<lambda>q. q\<lparr>q_device_addr := f q\<rparr>))" for f
    using b by (auto intro!: arm_put_ok simp: vq_ok_def)
  ultimately show ?thesis using b arm_queue_ready_ok [OF b] arm_notify_ok [OF b] arm_ack_ok [OF b]
    unfolding arm_blk_write_reg_def by simp
qed

interpretation arm_blk_machine: invariant_machine "arm_blk_step api" arm_blk_ok for api
  by unfold_locales (auto simp: arm_blk_step_def arm_blk_write_mmio_def Let_def intro: arm_write_reg_ok)

lemma arm_blk_init_ok: "arm_blk_ok (arm_blk_init mem slot disk)"
proof -
  have "arm_queue_default\<lparr>q_size := kMaxQueueSize\<rparr> = arm_queue_default" by (simp add: arm_queue_default_def source_consts)
  then have q: "ab_queues (arm_blk_init mem slot disk) = (replicate 8 arm_queue_default)[0 := arm_queue_default]"
    by (simp add: arm_blk_init_def)
  have "\<forall>q \<in> set (ab_queues (arm_blk_init mem slot disk)). vq_ok q"
    unfolding q by (auto dest!: set_update_subset_insert [THEN subsetD])
  then show ?thesis by (simp add: arm_blk_ok_def arm_blk_init_def)
qed

lemma arm_kept_refl [simp]: "arm_blk_kept b b" by (simp add: arm_blk_kept_def)
lemma arm_kept_trans: "arm_blk_kept a b \<Longrightarrow> arm_blk_kept b c \<Longrightarrow> arm_blk_kept a c"
  by (auto simp: arm_blk_kept_def intro: ram_kept_trans disk_protected_trans)

lemma arm_notify_kept: "posix_bounded api \<Longrightarrow> arm_blk_kept b (fst (arm_blk_notify api b v))"
  by (auto simp: arm_blk_notify_def arm_blk_kept_def Let_def dest: arm_handle_queue_confined split: prod.splits sum.splits)

lemma arm_write_reg_kept:
  assumes "posix_bounded api"
  shows "arm_blk_kept b (fst (arm_blk_write_reg api b off v))"
proof -
  have split: "arm_blk_kept b x \<Longrightarrow> arm_blk_kept b y \<Longrightarrow> arm_blk_kept b (if c then x else y)" for c and x y :: "'a arm_blk" by simp
  show ?thesis
  proof (cases "off = 0x050")
    case False
    show ?thesis unfolding arm_blk_write_reg_def if_not_P [OF False] fst_conv
      by (intro split) (simp_all add: arm_blk_kept_def arm_blk_reset_def arm_queue_ready_def arm_blk_ack_def Let_def)
  qed (simp add: arm_blk_write_reg_def arm_notify_kept [OF assms])
qed

lemma arm_run_kept:
  assumes "posix_bounded api" and "arm_blk_ok b"
  shows "arm_blk_kept b (run (arm_blk_step api) b accs)"
proof (rule arm_blk_machine.run_rel [OF _ _ _ assms(2)])
  show "arm_blk_kept s (arm_blk_step api s e)" for s e
    using arm_write_reg_kept [OF assms(1)] by (simp add: arm_blk_step_def arm_blk_write_mmio_def Let_def)
qed (auto intro: arm_kept_trans)

section \<open>Completion\<close>

lemma contains_offset: "contains_guest_range mem a n \<Longrightarrow> unat kRamBase \<le> unat a \<and> unat a - unat kRamBase + unat n \<le> unat (am_size mem)"
  using guest_offset_Inr [of mem a n "unat (a - kRamBase)"] by (auto simp: guest_offset_def)

lemma valid_rings:
  assumes "ValidVirtQueue mem q"
  shows "rings_in_ram (ram_of mem) (shifted q)" "vq_ok (shifted q)"
proof -
  have size: "unat (q_size q) \<le> 256" "0 < unat (q_size q)"
    using assms by (auto simp: ValidVirtQueue_def IsPowerOfTwo_def word_le_nat_alt unat_gt_0 source_consts not_less split: if_splits)
  have n: "unat (6 + ucast (q_size q) * 2 :: u64) = 6 + 2 * unat (q_size q)" "unat (6 + ucast (q_size q) * 8 :: u64) = 6 + 8 * unat (q_size q)"
    using size by (simp_all add: unat_word_ariths ucast_len)
  have c: "contains_guest_range mem (q_driver_addr q) (6 + ucast (q_size q) * 2)" "contains_guest_range mem (q_device_addr q) (6 + ucast (q_size q) * 8)"
    using assms by (auto simp: ValidVirtQueue_def split: if_splits)
  have sh: "unat kRamBase \<le> unat a \<Longrightarrow> unat (a - kRamBase) = unat a - unat kRamBase" for a :: u64
    by (intro unat_diff_le) (simp add: word_le_nat_alt)
  show "rings_in_ram (ram_of mem) (shifted q)"
    using contains_offset [OF c(1)] contains_offset [OF c(2)] unfolding n by (simp add: rings_in_ram_def shifted_def sh) arith
  show "vq_ok (shifted q)" using size by (simp add: vq_ok_def word_le_nat_alt word_less_nat_alt source_consts)
qed

lemma valid_kept: "ram_kept mem mem' \<Longrightarrow> ValidVirtQueue mem' q = ValidVirtQueue mem q"
  by (simp add: ValidVirtQueue_def contains_guest_range_def ram_kept_size)

lemma valid_last_avail [simp]: "ValidVirtQueue mem (q\<lparr>q_last_avail := x\<rparr>) = ValidVirtQueue mem q"
  by (simp add: ValidVirtQueue_def)

lemma fits_kept: "ram_kept mem mem' \<Longrightarrow> mem_fits mem' = mem_fits mem"
  by (simp add: mem_fits_def ram_kept_size)

lemma PushUsed_valid:
  assumes "mem_fits mem" and "ValidVirtQueue mem q"
  shows "snd (PushUsed mem q i w) = Inr ()"
  using PushUsed_ram(2) [OF assms(1), of q i w] push_used_in_ram [OF valid_rings [OF assms(2)] refl, of i w] by (simp add: agree_def)

lemma arm_process_completes:
  assumes "posix_bounded api" and "mem_fits mem" and "ValidVirtQueue mem q"
  shows "\<exists>mem' disk'. arm_process_request api mem disk q head = (mem', disk', Inr ())"
proof -
  obtain m d w r where t: "arm_try api mem disk q head = (m, d, w, r)" using prod_cases4 by blast
  have k: "ram_kept mem (arm_fail_status m q head)"
    using arm_try_confined [OF assms(1) t] arm_fail_status_safe ram_kept_trans by blast
  have "snd (PushUsed (arm_fail_status m q head) q (ucast head) w) = Inr ()"
    by (rule PushUsed_valid) (use assms fits_kept [OF k] valid_kept [OF k] in auto)
  then show ?thesis by (cases r) (auto simp: arm_process_request_def t split: prod.splits)
qed

lemma arm_queue_loop_completes:
  "\<lbrakk>posix_bounded api; mem_fits mem; ValidVirtQueue mem q\<rbrakk>
   \<Longrightarrow> \<exists>mem' disk'. arm_queue_loop api q avail mem disk la = (mem', disk', avail, Inr ())"
proof (induction api q avail mem disk la rule: arm_queue_loop.induct)
  case (1 api q avail mem disk la)
  show ?case
  proof (cases "la = avail")
    case False
    let ?a = "q_driver_addr q + 4 + ucast (ucast la mod q_size q) * 2"
    have a: "q_driver_addr (shifted q) + 4 + ucast (ucast la mod q_size (shifted q)) * 2 = ?a - kRamBase" by (simp add: shifted_def)
    have "unat (?a - kRamBase) + 2 \<le> unat (am_size mem)"
      using avail_slot_address [OF valid_rings [OF "1.prems"(3)], of la] unfolding a by simp
    then have "gm_ptr (ram_of mem) (?a - kRamBase) 2 = Inr (unat (?a - kRamBase))" by (simp add: gm_ptr_Inr)
    then have p: "guest_offset mem ?a 2 = Inr (unat (?a - kRamBase))" using guest_offset_ram [OF "1.prems"(2)] by blast
    obtain m d where pr: "arm_process_request api mem disk q (ReadU16 (am_data mem) (unat (?a - kRamBase))) = (m, d, Inr ())"
      using arm_process_completes [OF "1.prems"] by blast
    then have k: "ram_kept mem m" using arm_process_confined [OF "1.prems"(1) pr] by blast
    show ?thesis
      using "1.IH" [OF False p pr [symmetric] refl refl] "1.prems" fits_kept [OF k] valid_kept [OF k] False p pr
      by (simp add: arm_queue_loop.simps [of api q avail mem disk la])
  qed (simp add: arm_queue_loop.simps [of api q avail mem disk avail])
qed

lemma avail_index_offset:
  assumes "mem_fits mem" and "ValidVirtQueue mem q"
  shows "guest_offset mem (q_driver_addr q + 2) 2 = Inr (unat (q_driver_addr q + 2 - kRamBase))"
proof -
  have a: "q_driver_addr (shifted q) + 2 = q_driver_addr q + 2 - kRamBase" by (simp add: shifted_def)
  have "unat (q_driver_addr q + 2 - kRamBase) + 2 \<le> unat (am_size mem)"
    using avail_index_address [OF valid_rings(1) [OF assms(2)]] valid_rings(1) [OF assms(2)] unfolding a by (simp add: rings_in_ram_def)
  then show ?thesis by (simp add: guest_offset_ram [OF assms(1)] gm_ptr_Inr)
qed


section \<open>The disk as one array of bytes\<close>

text \<open>Reliable file calls make progress inside the file, as POSIX says of regular files.\<close>

definition posix_reliable :: "'f posix \<Rightarrow> ('f \<Rightarrow> bytes) \<Rightarrow> bool" where
  "posix_reliable api contents \<longleftrightarrow>
    (\<forall>f pos n. 0 < n \<and> pos < length (contents f) \<longrightarrow>
       (\<exists>k. 0 < k \<and> k \<le> n \<and> pos + k \<le> length (contents f) \<and> pread api f pos n = Some (take k (drop pos (contents f))))) \<and>
    (\<forall>f pos bs. bs \<noteq> [] \<and> pos + length bs \<le> length (contents f) \<longrightarrow>
       (\<exists>k f'. 0 < k \<and> k \<le> length bs \<and> pwrite api f pos bs = Some (k, f') \<and> contents f' = buf_put (contents f) pos (take k bs)))"

lemma arm_pread_loop_ok:
  assumes api: "posix_reliable api contents" and len: "pos + len \<le> length (contents f)"
    and "ndone \<le> len" and "dst = take ndone (drop pos (contents f))"
  shows "arm_pread_loop api f pos len ndone dst = (take len (drop pos (contents f)), Inr ())"
  using assms(3,4)
proof (induction "len - ndone" arbitrary: ndone dst rule: less_induct)
  case less
  show ?case
  proof (cases "ndone < len")
    case True
    then have "0 < len - ndone" "pos + ndone < length (contents f)" using len by simp_all
    then obtain k where k: "0 < k" "k \<le> len - ndone" "pos + ndone + k \<le> length (contents f)"
      "pread api f (pos + ndone) (len - ndone) = Some (take k (drop (pos + ndone) (contents f)))"
      using api unfolding posix_reliable_def by meson
    have "dst @ take k (drop (pos + ndone) (contents f)) = take (ndone + k) (drop pos (contents f))"
      using take_add [of ndone k "drop pos (contents f)"] by (simp add: less.prems(2) add.commute)
    with True k less.prems len less.hyps [of "ndone + k" "dst @ take k (drop (pos + ndone) (contents f))"]
    show ?thesis by (subst arm_pread_loop.simps) auto
  next
    case False
    with less.prems show ?thesis by (subst arm_pread_loop.simps) simp
  qed
qed

lemma arm_PreadAll_ok:
  "posix_reliable api contents \<Longrightarrow> unat off + len \<le> length (contents f) \<Longrightarrow>
   arm_PreadAll api f len off = (take len (drop (unat off) (contents f)), Inr ())"
  using arm_pread_loop_ok [of api contents "unat off" len f 0 "[]"] by (simp add: arm_PreadAll_def)

lemma arm_pwrite_loop_ok:
  assumes api: "posix_reliable api contents" and len: "pos + length src \<le> length c"
    and "ndone \<le> length src" and "contents f = buf_put c pos (take ndone src)"
  shows "\<exists>f'. arm_pwrite_loop api f src pos ndone = (f', Inr ()) \<and> contents f' = buf_put c pos src"
  using assms(3,4)
proof (induction "length src - ndone" arbitrary: ndone f rule: less_induct)
  case less
  show ?case
  proof (cases "ndone < length src")
    case True
    have "drop ndone src \<noteq> []" "pos + ndone + length (drop ndone src) \<le> length (contents f)" using True len less.prems by simp_all
    then obtain k f' where k: "0 < k" "k \<le> length (drop ndone src)" "pwrite api f (pos + ndone) (drop ndone src) = Some (k, f')"
      "contents f' = buf_put (contents f) (pos + ndone) (take k (drop ndone src))"
      using api unfolding posix_reliable_def by meson
    have "buf_put (buf_put c pos (take ndone src)) (pos + ndone) (take k (drop ndone src)) = buf_put c pos (take ndone src @ take k (drop ndone src))"
      using buf_put_two [of pos "take ndone src" "take k (drop ndone src)" c] True k(2) len by simp
    then have "contents f' = buf_put c pos (take (ndone + k) src)" using k(4) less.prems(2) by (simp add: take_add)
    with True k less.hyps [of "ndone + k" f'] show ?thesis by (subst arm_pwrite_loop.simps) auto
  next
    case False
    with less.prems show ?thesis by (subst arm_pwrite_loop.simps) simp
  qed
qed

lemma arm_PwriteAll_ok:
  "posix_reliable api contents \<Longrightarrow> unat off + length src \<le> length (contents f) \<Longrightarrow>
   \<exists>f'. arm_PwriteAll api f src off = (f', Inr ()) \<and> contents f' = buf_put (contents f) (unat off) src"
  using arm_pwrite_loop_ok [of api contents "unat off" src "contents f" 0 f] by (simp add: arm_PwriteAll_def buf_put_def)

lemma arm_read_chunks_ok:
  assumes api: "posix_reliable api contents" and ok: "disk_ok contents d"
    and range: "unat off + len \<le> unat (vd_disk_bytes d)"
    and "ndone \<le> len" and "dst = take ndone (drop (unat off) (disk_view contents d))"
  shows "arm_read_chunks api d off len ndone dst = (take len (drop (unat off) (disk_view contents d)), Inr ())"
  using assms(4,5)
proof (induction "len - ndone" arbitrary: ndone dst rule: less_induct)
  case less
  show ?case
  proof (cases "ndone < len")
    case True
    let ?a = "unat off + ndone"
    let ?n = "min (len - ndone) (512 - ?a mod 512)"
    let ?f = "if sector_dirty d (of_nat (?a div 512)) then the (vd_overlay d) else vd_base d"
    have big: "unat (vd_disk_bytes d) < 2 ^ 63" using ok by (simp add: disk_ok_def)
    have nd: "unat (of_nat ndone :: u64) = ndone" using True range big by (intro unat_of_nat_u64) simp
    have "?a < 2 ^ LENGTH(64)" using True range big by simp
    then have a: "unat (off + of_nat ndone) = ?a" by (subst unat_add_no_wrap) (simp_all only: nd)
    have "?a div 512 < 18446744073709551616" using \<open>?a < 2 ^ LENGTH(64)\<close> by simp
    then have sec: "(off + of_nat ndone) div 512 = of_nat (?a div 512)"
      by (simp only: word_unat_eq_iff unat_div_512 a unat_of_nat_u64)
    have n: "0 < ?n" "?n \<le> 512 - ?a mod 512" "?a + ?n \<le> unat (vd_disk_bytes d)" using True range by auto
    note sf = sector_file_view [OF ok refl chunk_in_sector [OF n(1,2)] n(3) refl]
    have pr: "arm_PreadAll api ?f ?n (off + of_nat ndone) = (take ?n (drop ?a (disk_view contents d)), Inr ())"
      using arm_PreadAll_ok [OF api, of "off + of_nat ndone" ?n ?f] n(3) by (simp only: a sf)
    have "dst @ take ?n (drop ?a (disk_view contents d)) = take (ndone + ?n) (drop (unat off) (disk_view contents d))"
      using take_add [of ndone ?n "drop (unat off) (disk_view contents d)"] by (simp add: less.prems(2) add.commute)
    then have "arm_read_chunks api d off len (ndone + ?n) (dst @ take ?n (drop ?a (disk_view contents d)))
        = (take len (drop (unat off) (disk_view contents d)), Inr ())"
      using True n(1) by (intro less.hyps) auto
    then show ?thesis using True pr by (subst arm_read_chunks.simps) (simp add: Let_def sec unat_div_512 a)
  next
    case False
    with less.prems show ?thesis by (subst arm_read_chunks.simps) simp
  qed
qed

text \<open>DiskOffset accepts exactly the accesses inside the disk.\<close>

lemma DiskOffset_iff:
  assumes "unat (vd_disk_bytes d) < 2 ^ 63"
  shows "DiskOffset d sector len op = Inr off \<longleftrightarrow> unat sector * 512 + unat len \<le> unat (vd_disk_bytes d) \<and> off = sector * 512"
    and "unat sector * 512 + unat len \<le> unat (vd_disk_bytes d) \<Longrightarrow> unat (sector * 512) = unat sector * 512"
proof -
  show m: "unat (sector * 512) = unat sector * 512" if "unat sector * 512 + unat len \<le> unat (vd_disk_bytes d)"
    using that assms by (simp add: unat_word_ariths)
  show "DiskOffset d sector len op = Inr off \<longleftrightarrow> unat sector * 512 + unat len \<le> unat (vd_disk_bytes d) \<and> off = sector * 512"
  proof (cases "unat sector \<le> 0xFFFFFFFFFFFFFFFF div 512")
    case True
    then have s: "sector \<le> 0xFFFFFFFFFFFFFFFF div 512" and o: "unat (sector * 512) = unat sector * 512"
      by (simp_all add: word_le_nat_alt unat_div unat_word_ariths)
    have r: "sector * 512 \<le> vd_disk_bytes d \<and> len \<le> vd_disk_bytes d - sector * 512 \<longleftrightarrow> unat sector * 512 + unat len \<le> unat (vd_disk_bytes d)"
    proof (cases "sector * 512 \<le> vd_disk_bytes d")
      case True
      then have "unat (vd_disk_bytes d - sector * 512) = unat (vd_disk_bytes d) - unat sector * 512" "unat sector * 512 \<le> unat (vd_disk_bytes d)"
        using unat_diff_le [OF True] o by (simp_all add: word_le_nat_alt)
      then show ?thesis using True by (auto simp: word_le_nat_alt)
    qed (auto simp: word_le_nat_alt o)
    have fits: "sector * 512 \<le> 0x7FFFFFFFFFFFFFFF \<and> (len = 0 \<or> len - 1 \<le> 0x7FFFFFFFFFFFFFFF - sector * 512)"
      if "unat sector * 512 + unat len \<le> unat (vd_disk_bytes d)"
    proof -
      have le: "sector * 512 \<le> 0x7FFFFFFFFFFFFFFF" using that assms o by (simp add: word_le_nat_alt)
      have "unat (0x7FFFFFFFFFFFFFFF - sector * 512) = 0x7FFFFFFFFFFFFFFF - unat sector * 512" using unat_diff_le [OF le] o by simp
      moreover have "len \<noteq> 0 \<Longrightarrow> unat (len - 1) = unat len - 1" by (simp add: unat_minus_one)
      ultimately have "len \<noteq> 0 \<Longrightarrow> unat (len - 1) \<le> unat (0x7FFFFFFFFFFFFFFF - sector * 512)" using that assms by simp
      then show ?thesis using le by (auto simp: word_le_nat_alt)
    qed
    show ?thesis using s r fits by (auto simp: DiskOffset_def Let_def)
  next
    case False
    then show ?thesis using assms by (auto simp: DiskOffset_def word_le_nat_alt unat_div)
  qed
qed

lemma arm_ReadDisk_view:
  assumes api: "posix_reliable api contents" and ok: "disk_ok contents d" and range: "unat sector * 512 + unat len \<le> unat (vd_disk_bytes d)"
  shows "arm_ReadDisk api d sector len = (take (unat len) (drop (unat sector * 512) (disk_view contents d)), Inr ())"
proof -
  have big: "unat (vd_disk_bytes d) < 2 ^ 63" using ok by (simp add: disk_ok_def)
  note m = DiskOffset_iff(2) [OF big range]
  have off: "DiskOffset d sector len ''read'' = Inr (sector * 512)" using DiskOffset_iff(1) [OF big] range by blast
  show ?thesis
  proof (cases "has_overlay d")
    case True
    then show ?thesis using arm_read_chunks_ok [OF api ok, of "sector * 512" "unat len" 0 "[]"] range by (simp add: arm_ReadDisk_def off m)
  next
    case False
    have "length (contents (vd_base d)) = unat (vd_disk_bytes d)" using ok by (simp add: disk_ok_def)
    then show ?thesis using arm_PreadAll_ok [OF api, of "sector * 512" "unat len" "vd_base d"] range False disk_view_no_overlay [OF ok False]
      by (simp add: arm_ReadDisk_def off m)
  qed
qed

lemma arm_prepare_covered:
  "(\<And>s. s \<in> set ss \<Longrightarrow> off \<le> of_nat s * 512 \<and> of_nat s * 512 + 512 \<le> e) \<Longrightarrow> arm_prepare_sectors api off e ss d = (d, Inr ())"
  by (induction ss) (simp_all add: Let_def)

lemma arm_prepare_whole_sectors:
  assumes "A * 512 + L * 512 < 2 ^ 63" and "unat off = A * 512" and "unat len = L * 512"
  shows "arm_prepare_partial_overlay api d off len = (d, Inr ())"
proof (cases "len = 0")
  case False
  then have L: "0 < L" using assms(3) by (metis gr0I mult_0 unat_eq_0)
  have "arm_prepare_sectors api off (off + len) [A ..< A + L] d = (d, Inr ())"
    using run_covered [OF assms(1) L assms(2,3)] by (intro arm_prepare_covered) auto
  then show ?thesis using run_words(3) [OF assms(1) L assms(2,3)] by (simp add: arm_prepare_partial_overlay_def Let_def del: upt_Suc)
qed (simp add: arm_prepare_partial_overlay_def)

lemma arm_WriteDisk_view:
  assumes api: "posix_reliable api contents" and ok: "disk_ok contents d" and ro: "\<not> vd_read_only d"
    and range: "unat sector * 512 + length src \<le> unat (vd_disk_bytes d)" and len: "length src = L * 512"
  shows "\<exists>d'. arm_WriteDisk api d sector src = (d', Inr ()) \<and> disk_ok contents d'
    \<and> disk_view contents d' = buf_put (disk_view contents d) (unat sector * 512) src
    \<and> (has_overlay d \<longrightarrow> vd_base d' = vd_base d) \<and> has_overlay d' = has_overlay d
    \<and> vd_disk_bytes d' = vd_disk_bytes d \<and> vd_read_only d' = vd_read_only d"
proof -
  let ?off = "sector * 512" and ?n = "of_nat (length src) :: u64"
  have big: "unat (vd_disk_bytes d) < 2 ^ 63" using ok by (simp add: disk_ok_def)
  have n: "unat ?n = length src" using range big by (subst unat_of_nat_u64) auto
  have range': "unat sector * 512 + unat ?n \<le> unat (vd_disk_bytes d)" using range n by simp
  note m = DiskOffset_iff(2) [OF big range']
  have off: "DiskOffset d sector ?n ''write'' = Inr ?off" using DiskOffset_iff(1) [OF big] range' by blast
  obtain f where f: "arm_PwriteAll api (write_handle d) src ?off = (f, Inr ())"
    "contents f = buf_put (contents (write_handle d)) (unat sector * 512) src"
    using arm_PwriteAll_ok [OF api, of ?off src "write_handle d"] range write_handle_length [OF ok] m by auto
  have "arm_prepare_partial_overlay api d ?off ?n = (d, Inr ())"
    by (rule arm_prepare_whole_sectors [OF _ m trans [OF n len]]) (use range big len in linarith)
  then have wd: "arm_WriteDisk api d sector src = (mark_dirty_range (set_write_handle d f) ?off ?n, Inr ())"
    using ro by (simp add: arm_WriteDisk_def Let_def off f)
  then show ?thesis using written_view [OF ok range len f(2) refl] by blast
qed

end
