(* ===== verification/Arm_Blk_Results.thy ===== *)
theory Arm_Blk_Results
  imports Arm_Blk_Proofs
begin

unbundle bit_operations_syntax

text \<open>
  What the guest of the Arm machine can rely on of its disk, and what its host can: the disk as a block store
  (locale \<open>block_store\<close> of Block_Disk), the invariant of the device, and the completion of every notification of a valid queue.
\<close>

section \<open>The block store\<close>

type_synonym 'f arm_store = "'f posix \<times> ('f \<Rightarrow> bytes) \<times> 'f vdisk"

fun arm_store_view :: "'f arm_store \<Rightarrow> bytes" where
  "arm_store_view (api, c, d) = disk_view c d"

fun arm_store_rd :: "'f arm_store \<Rightarrow> nat \<Rightarrow> nat \<Rightarrow> bytes option" where
  "arm_store_rd (api, c, d) s n = (case arm_ReadDisk api d (of_nat s) (of_nat n) of (bs, Inr _) \<Rightarrow> Some bs | (_, Inl _) \<Rightarrow> None)"

fun arm_store_wr :: "'f arm_store \<Rightarrow> nat \<Rightarrow> bytes \<Rightarrow> 'f arm_store option" where
  "arm_store_wr (api, c, d) s bs = (case arm_WriteDisk api d (of_nat s) bs of (d', Inr _) \<Rightarrow> Some (api, c, d') | (_, Inl _) \<Rightarrow> None)"

text \<open>\<open>base\<close> is the image under an overlay.\<close>

fun arm_store_ok :: "'f option \<Rightarrow> 'f arm_store \<Rightarrow> bool" where
  "arm_store_ok base (api, c, d) \<longleftrightarrow> posix_reliable api c \<and> disk_ok c d \<and> \<not> vd_read_only d \<and>
     base = (if has_overlay d then Some (vd_base d) else None)"

lemma arm_store_laws:
  assumes ok: "arm_store_ok base (api, c, d)" and fit: "s * 512 + n \<le> unat (vd_disk_bytes d)"
  shows "arm_store_rd (api, c, d) s n = Some (take n (drop (s * 512) (disk_view c d)))"
    and "length bs = n \<Longrightarrow> 512 dvd n \<Longrightarrow> \<exists>d'. arm_store_wr (api, c, d) s bs = Some (api, c, d') \<and> arm_store_ok base (api, c, d')
      \<and> disk_view c d' = buf_put (disk_view c d) (s * 512) bs"
proof -
  have big: "unat (vd_disk_bytes d) < 2 ^ 63" using ok by (simp add: disk_ok_def)
  have s: "unat (of_nat s :: u64) = s" and n: "unat (of_nat n :: u64) = n"
    using fit big by (auto intro!: unat_of_nat_u64)
  have api: "posix_reliable api c" "disk_ok c d" "\<not> vd_read_only d" using ok by simp_all
  show "arm_store_rd (api, c, d) s n = Some (take n (drop (s * 512) (disk_view c d)))"
    using arm_ReadDisk_view [OF api(1,2), of "of_nat s" "of_nat n"] fit by (simp add: s n)
  assume "length bs = n" and "512 dvd n"
  then obtain L where L: "length bs = L * 512" by (metis dvd_def mult.commute)
  have "unat (of_nat s :: u64) * 512 + length bs \<le> unat (vd_disk_bytes d)" using fit \<open>length bs = n\<close> s by simp
  from arm_WriteDisk_view [OF api this L] obtain d' where d': "arm_WriteDisk api d (of_nat s) bs = (d', Inr ())" "disk_ok c d'"
      "disk_view c d' = buf_put (disk_view c d) (s * 512) bs" "has_overlay d \<Longrightarrow> vd_base d' = vd_base d" "has_overlay d' = has_overlay d"
      "vd_read_only d' = vd_read_only d"
    unfolding s by blast
  have "arm_store_ok base (api, c, d')" using ok d' by simp
  then show "\<exists>d'. arm_store_wr (api, c, d) s bs = Some (api, c, d') \<and> arm_store_ok base (api, c, d')
      \<and> disk_view c d' = buf_put (disk_view c d) (s * 512) bs"
    using d'(1,3) by (intro exI [of _ d']) simp
qed

interpretation arm_disk: block_store "arm_store_ok base" arm_store_view arm_store_rd arm_store_wr for base
proof
  fix d :: "'a arm_store" and s n :: nat and bs :: bytes
  obtain api c v where d: "d = (api, c, v)" by (cases d)
  assume ok: "arm_store_ok base d"
  show "arm_store_rd d s n = Some (take n (drop (s * 512) (arm_store_view d)))" if "s * 512 + n \<le> length (arm_store_view d)"
    using arm_store_laws(1) [of base api c v s n] ok that by (simp add: d)
  show "\<exists>d'. arm_store_wr d s bs = Some d' \<and> arm_store_ok base d' \<and> arm_store_view d' = buf_put (arm_store_view d) (s * 512) bs"
    if "s * 512 + length bs \<le> length (arm_store_view d)" "512 dvd length bs"
  proof -
    from arm_store_laws(2) [of base api c v s "length bs" bs] ok that obtain v' where
      "arm_store_wr (api, c, v) s bs = Some (api, c, v')" "arm_store_ok base (api, c, v')" "disk_view c v' = buf_put (disk_view c v) (s * 512) bs"
      unfolding d arm_store_view.simps length_disk_view by blast
    then show ?thesis unfolding d by (intro exI [of _ "(api, c, v')"]) (simp only: arm_store_view.simps simp_thms)
  qed
qed

definition list_posix :: "bytes posix" where
  "list_posix = \<lparr>pread = (\<lambda>f pos n. Some (take n (drop pos f))), pwrite = (\<lambda>f pos bs. Some (length bs, buf_put f pos bs)), fsync = (\<lambda>_. True)\<rparr>"

lemma list_posix_reliable: "posix_reliable list_posix (\<lambda>f. f)"
  unfolding posix_reliable_def
proof (intro conjI allI impI)
  fix f :: bytes and pos n :: nat assume "0 < n \<and> pos < length f"
  then show "\<exists>k. 0 < k \<and> k \<le> n \<and> pos + k \<le> length f \<and> pread list_posix f pos n = Some (take k (drop pos f))"
    by (intro exI [of _ "min n (length f - pos)"]) (auto simp: list_posix_def min_def)
qed (auto simp: list_posix_def)

lemma list_posix_bounded: "posix_bounded list_posix"
  by (simp add: posix_bounded_def list_posix_def)

text \<open>C24. The disk of the Arm machine is one flat array of sectors, with or without an overlay. After any sequence of whole-sector
  writes inside it, every read returns the last bytes written to each sector and the image's bytes elsewhere, however the host splits
  the transfers; under an overlay the image itself is never written.\<close>
theorem hvf_disk_refines_flat_disk:
  assumes "posix_reliable api contents" and "disk_ok contents d" and "\<not> vd_read_only d"
    and "writes_fit (unat (vd_disk_bytes d)) ws" and "s * 512 + n \<le> unat (vd_disk_bytes d)"
  shows "\<exists>d'. apply_writes arm_store_wr ws (api, contents, d) = Some (api, contents, d') \<and> (has_overlay d \<longrightarrow> vd_base d' = vd_base d)
    \<and> arm_ReadDisk api d' (of_nat s) (of_nat n) = (take n (drop (s * 512) (fold flat_write ws (disk_view contents d))), Inr ())"
proof -
  let ?base = "if has_overlay d then Some (vd_base d) else None"
  obtain st where st: "apply_writes arm_store_wr ws (api, contents, d) = Some st" "arm_store_ok ?base st"
    "arm_store_view st = fold flat_write ws (disk_view contents d)"
    using arm_disk.writes_refine [of ?base "(api, contents, d)" ws] assms by auto
  have same: "apply_writes arm_store_wr ws (api, contents, d) = Some st \<Longrightarrow> \<exists>d'. st = (api, contents, d')" for d st
    by (induction ws arbitrary: d) (auto split: option.splits sum.splits prod.splits simp: bind_eq_Some_conv)
  then obtain d' where d': "st = (api, contents, d')" using st(1) by blast
  have "length (fold flat_write ws v) = length v" if "writes_fit (length v) ws" for v
    using that by (induction ws arbitrary: v) (auto simp: flat_write_def writes_fit_def)
  then have "length (disk_view contents d') = unat (vd_disk_bytes d)" using st(3) assms(4) by (simp add: d')
  then have fit: "s * 512 + n \<le> unat (vd_disk_bytes d')" using assms(5) by simp
  have ok: "posix_reliable api contents" "disk_ok contents d'" using st(2) by (simp_all add: d')
  have "unat (vd_disk_bytes d') < 2 ^ 63" using ok(2) by (simp add: disk_ok_def)
  then have w: "unat (of_nat s :: u64) = s" "unat (of_nat n :: u64) = n" using fit by (auto intro!: unat_of_nat_u64)
  have "arm_ReadDisk api d' (of_nat s) (of_nat n) = (take n (drop (s * 512) (disk_view contents d')), Inr ())"
    using arm_ReadDisk_view [OF ok, of "of_nat s" "of_nat n"] fit by (simp add: w)
  then show ?thesis using st by (intro exI [of _ d']) (auto simp: d' split: if_splits)
qed

theorem hvf_disk_refines_flat_disk_witness:
  "\<exists>d'. apply_writes arm_store_wr [(1, replicate 512 9)] (list_posix, (\<lambda>f. f), sample_disk) = Some (list_posix, (\<lambda>f. f), d')
     \<and> arm_ReadDisk list_posix d' (of_nat 1) (of_nat 512) = (replicate 512 9, Inr ()) \<and> vd_base d' = replicate 1024 7"
proof -
  have "writes_fit (unat (vd_disk_bytes sample_disk)) [(1, replicate 512 9)]" "vd_disk_bytes sample_disk = 1024"
    "vd_base sample_disk = replicate 1024 7"
    by (simp_all add: writes_fit_def sample_disk_def)
  moreover have "take 512 (drop (1 * 512) (flat_write (1, replicate 512 9) (disk_view (\<lambda>f. f) sample_disk))) = replicate 512 9"
    by (simp add: flat_write_def buf_put_def sample_disk_def)
  ultimately show ?thesis
    using hvf_disk_refines_flat_disk [OF list_posix_reliable sample_disk_ok(1,3), of "[(1, replicate 512 9)]" 1 512] sample_disk_ok(2) by fastforce
qed

section \<open>The device\<close>



text \<open>C25. A notification of a queue that passes the device's own check always returns without an exception. For every content of the rings, the descriptors and the
  disk, the device has then consumed all requests up to the guest's index, malformed ones included, and raised its interrupt; the queue is still
  valid and ready, so the same holds of the next notification.\<close>
theorem hvf_notify_completes:
  assumes "posix_bounded api" and "length (ab_queues b) = 8" and "v < 8" and "q = ab_queues b ! unat v" and "q_ready q"
    and "ValidVirtQueue (ab_mem b) q" and "unat (am_size (ab_mem b)) \<le> 2 ^ 63"
  shows "\<exists>b'. arm_blk_notify api b v = (b', Inr ())
    \<and> ab_queues b' = (ab_queues b)[unat v := q\<lparr>q_last_avail := ReadU16 (am_data (ab_mem b)) (unat (q_driver_addr q + 2 - kRamBase))\<rparr>]
    \<and> bit (ab_interrupt_status b') 0 \<and> ab_line b' \<and> ValidVirtQueue (ab_mem b') (ab_queues b' ! unat v)"
proof -
  let ?a = "ReadU16 (am_data (ab_mem b)) (unat (q_driver_addr q + 2 - kRamBase))"
  have fits: "mem_fits (ab_mem b)" using assms(7) by (simp add: mem_fits_def)
  obtain m d where loop: "arm_queue_loop api q ?a (ab_mem b) (ab_disk b) (q_last_avail q) = (m, d, ?a, Inr ())"
    using arm_queue_loop_completes [OF assms(1) fits assms(6)] by blast
  then have h: "arm_handle_queue api (ab_mem b) (ab_disk b) q = (m, d, ?a, Inr ())"
    unfolding arm_handle_queue_def avail_index_offset [OF fits assms(6)] by (simp only: sum.case)
  have "ram_kept (ab_mem b) m" using arm_handle_queue_confined [OF assms(1) h] by blast
  then have "ValidVirtQueue m (q\<lparr>q_last_avail := ?a\<rparr>)" using valid_kept [of "ab_mem b" m q] assms(6) by simp
  moreover have "unat v < length (ab_queues b)" using assms(2,3) by (simp add: word_less_nat_alt)
  ultimately show ?thesis using assms(3-5) h by (simp add: arm_blk_notify_def Let_def bit_simps)
qed

text \<open>A queue of eight entries whose rings lie one after the other at the start of RAM, with two requests waiting that make no sense.\<close>

definition arm_sample :: "bytes arm_blk" where
  "arm_sample = (arm_blk_init \<lparr>am_data = (\<lambda>a. if a = 0x1002 then 2 else 0), am_size = 0x10000\<rparr> 0 sample_disk)
     \<lparr>ab_queues := \<lparr>q_size = 8, q_ready = True, q_last_avail = 0, q_desc_addr = 0x40000000, q_driver_addr = 0x40001000, q_device_addr = 0x40002000\<rparr>
        # replicate 7 arm_queue_default\<rparr>"

lemma arm_sample_valid: "ValidVirtQueue (ab_mem arm_sample) (ab_queues arm_sample ! 0)" "length (ab_queues arm_sample) = 8"
  "q_ready (ab_queues arm_sample ! 0)" "unat (am_size (ab_mem arm_sample)) \<le> 2 ^ 63"
  by (simp_all add: ValidVirtQueue_def IsPowerOfTwo_def arm_sample_def arm_blk_init_def contains_guest_range_def source_consts)

theorem hvf_notify_completes_witness:
  "\<exists>b'. arm_blk_notify list_posix arm_sample 0 = (b', Inr ()) \<and> q_last_avail (ab_queues b' ! 0) = 2 \<and> ab_line b'"
proof -
  have a: "ReadU16 (am_data (ab_mem arm_sample)) (unat (q_driver_addr (ab_queues arm_sample ! 0) + 2 - kRamBase)) = 2"
    by (simp add: arm_sample_def arm_blk_init_def source_consts ReadU16_def)
  obtain b' where b': "arm_blk_notify list_posix arm_sample 0 = (b', Inr ())" "ab_line b'"
      "ab_queues b' = (ab_queues arm_sample)[0 := (ab_queues arm_sample ! 0)\<lparr>q_last_avail := 2\<rparr>]"
    using hvf_notify_completes [OF list_posix_bounded arm_sample_valid(2) _ refl _ _ arm_sample_valid(4), of 0] arm_sample_valid(1,3) a by auto
  then show ?thesis using arm_sample_valid(2) by simp
qed

text \<open>The check is made only when the guest sets the ready bit. A guest that moves a ring of a ready queue afterwards keeps the bit, and its next
  notification throws out of the device, where vcpu_main ends the machine.\<close>

theorem ready_queue_can_leave_ram:
  "\<exists>b e. arm_blk_write_reg list_posix arm_sample 0x094 1 = (b, Inr ()) \<and> q_ready (ab_queues b ! 0) \<and>
     \<not> ValidVirtQueue (ab_mem b) (ab_queues b ! 0) \<and> snd (arm_blk_write_reg list_posix b 0x050 0) = Inl e"
  by (simp add: arm_blk_write_reg_def arm_put_queue_def arm_sample_def arm_blk_init_def Let_def ValidVirtQueue_def IsPowerOfTwo_def
      arm_blk_notify_def arm_handle_queue_def guest_offset_def contains_guest_range_def set_high_def source_consts)

end
