(* ===== verification/Kvm_Snapshot.thy ===== *)
theory Kvm_Snapshot
  imports Guest_Memory
begin

unbundle bit_operations_syntax

text \<open>
  The RAM snapshots of the KVM backend (native/kvm/backend.cc, WriteAll to CreateVmWithMemory): the loops that move
  bytes to and from files, sparse memory files, the file of the processor state, and the file of the pages that
  were written since a base snapshot. The host is an argument: which calls of open, ftruncate and mkdir succeed, and what
  each read or write call answers, which may move fewer bytes than asked for, be interrupted, or fail. A loop that is interrupted
  for ever does not return and has the value None. \<open>fair_host\<close> states the documented behaviour that the
  round trips rely on.
\<close>

section \<open>Moving bytes\<close>

datatype xfer = Moved nat | Interrupted | Failed

type_synonym calls = "nat \<Rightarrow> nat \<Rightarrow> xfer"

text \<open>The loop that ReadAll, WriteAll and PwriteAll share: \<open>move\<close> is the effect of a call that moves at most \<open>n\<close> bytes at offset
  \<open>ndone\<close>, with the count it returns; \<open>host k n\<close> is the answer to the k-th call, for n bytes.\<close>

partial_function (option) xfer_loop ::
  "calls \<Rightarrow> (nat \<Rightarrow> nat \<Rightarrow> 's \<Rightarrow> nat \<times> 's) \<Rightarrow> string \<Rightarrow> string \<Rightarrow> nat \<Rightarrow> nat \<Rightarrow> nat \<Rightarrow> 's \<Rightarrow> (nat \<times> 's \<times> unit result) option" where
  "xfer_loop host move err short len k ndone s =
    (if ndone < len
     then case host k (len - ndone) of
            Interrupted \<Rightarrow> xfer_loop host move err short len (k + 1) ndone s
          | Failed \<Rightarrow> Some (k + 1, s, Inl err)
          | Moved n \<Rightarrow> (case move ndone (min n (len - ndone)) s of (m, s') \<Rightarrow>
              if m = 0 then Some (k + 1, s', Inl short)
              else xfer_loop host move err short len (k + 1) (ndone + m) s')
     else Some (k, s, Inr ()))"

definition WriteAll :: "calls \<Rightarrow> nat \<Rightarrow> bytes \<Rightarrow> bytes \<Rightarrow> string \<Rightarrow> (nat \<times> bytes \<times> unit result) option" where
  "WriteAll host k file' src what =
    xfer_loop host (\<lambda>ndone n f. (n, f @ take n (drop ndone src))) what (''short write '' @ what) (length src) k 0 file'"

definition PwriteAll_posix :: "calls \<Rightarrow> nat \<Rightarrow> bytes \<Rightarrow> bytes \<Rightarrow> nat \<Rightarrow> (nat \<times> bytes \<times> unit result) option" where
  "PwriteAll_posix host k file' src off =
    xfer_loop host (\<lambda>ndone n f. (n, buf_put f (off + ndone) (take n (drop ndone src)))) ''pwrite disk'' ''short disk write''
      (length src) k 0 file'"

text \<open>ReadAll returns the bytes it has stored at its destination and the new file position.\<close>

definition read_move :: "bytes \<Rightarrow> nat \<Rightarrow> nat \<Rightarrow> nat \<times> bytes \<Rightarrow> nat \<times> nat \<times> bytes" where
  "read_move file' ndone n = (\<lambda>(pos, dst). let got = take n (drop pos file') in (length got, pos + length got, dst @ got))"

definition ReadAll :: "calls \<Rightarrow> nat \<Rightarrow> bytes \<Rightarrow> nat \<Rightarrow> nat \<Rightarrow> string \<Rightarrow> (nat \<times> (nat \<times> bytes) \<times> unit result) option" where
  "ReadAll host k file' pos len what =
    xfer_loop host (read_move file') what (''short read '' @ what) len k 0 (pos, [])"

text \<open>The host answers every call for at least one byte with a positive count, or interrupts it, and does not interrupt
  for ever.\<close>

definition fair_host :: "calls \<Rightarrow> bool" where
  "fair_host host \<longleftrightarrow> (\<forall>k n. 0 < n \<longrightarrow> host k n = Interrupted \<or> (\<exists>m > 0. host k n = Moved m)) \<and>
    (\<forall>k. \<exists>j \<ge> k. \<forall>n. host j n \<noteq> Interrupted)"

text \<open>A transfer is regular when moving \<open>n\<close> bytes and then the rest is the same as moving all of them; \<open>after i\<close> is
  the state once \<open>i\<close> bytes have been moved.\<close>

locale transfer =
  fixes move :: "nat \<Rightarrow> nat \<Rightarrow> 's \<Rightarrow> nat \<times> 's" and len :: nat and after :: "nat \<Rightarrow> 's"
  assumes move_after: "0 < n \<Longrightarrow> i + n \<le> len \<Longrightarrow> move i n (after i) = (n, after (i + n))"
begin

lemma completes:
  assumes "fair_host host" and "i \<le> len"
  shows "\<exists>k'. xfer_loop host move err short len k i (after i) = Some (k', after len, Inr ())"
  using assms(2)
proof (induction "len - i" arbitrary: i k rule: less_induct)
  case less
  show ?case
  proof (cases "i < len")
    case False
    then show ?thesis using less.prems by (subst xfer_loop.simps) simp
  next
    case True
    obtain j where j: "k \<le> j" "\<And>n. host j n \<noteq> Interrupted" using assms(1) unfolding fair_host_def by metis
    have answer: "host k' n = Interrupted \<or> (\<exists>m > 0. host k' n = Moved m)" if "0 < n" for k' n
      using assms(1) that by (auto simp: fair_host_def)
    have go: "\<exists>k''. xfer_loop host move err short len k' i (after i) = Some (k'', after len, Inr ())"
      if "host k' (len - i) = Moved m" "0 < m" for k' m
    proof -
      let ?m = "min m (len - i)"
      have "move i ?m (after i) = (?m, after (i + ?m))" using True that by (intro move_after) auto
      moreover have "\<exists>k''. xfer_loop host move err short len (k' + 1) (i + ?m) (after (i + ?m)) = Some (k'', after len, Inr ())"
        using True that by (intro less.hyps) auto
      ultimately show ?thesis using True that by (subst xfer_loop.simps) simp
    qed
    show ?thesis using j(1)
    proof (induction "j - k" arbitrary: k)
      case 0
      then have "k = j" by simp
      then show ?case using answer [of "len - i" j] j(2) go True by auto
    next
      case (Suc d)
      show ?case
      proof (cases "host k (len - i) = Interrupted")
        case True
        moreover have "\<exists>k'. xfer_loop host move err short len (k + 1) i (after i) = Some (k', after len, Inr ())"
          using Suc.hyps(2) by (intro Suc.hyps(1)) auto
        ultimately show ?thesis using \<open>i < len\<close> by (subst xfer_loop.simps) simp
      next
        case False
        then show ?thesis using answer [of "len - i" k] go True by auto
      qed
    qed
  qed
qed

end

interpretation write_all: transfer "\<lambda>ndone n f. (n, f @ take n (drop ndone src))" "length src" "\<lambda>i. file' @ take i src" for src file'
  by unfold_locales (simp add: take_add)

lemma buf_put_extend:
  assumes "off + i + n \<le> length f" and "i + n \<le> length src"
  shows "buf_put (buf_put f off (take i src)) (off + i) (take n (drop i src)) = buf_put f off (take (i + n) src)"
proof (rule nth_equalityI)
  show "length (buf_put (buf_put f off (take i src)) (off + i) (take n (drop i src))) = length (buf_put f off (take (i + n) src))"
    using assms by simp
next
  fix j assume "j < length (buf_put (buf_put f off (take i src)) (off + i) (take n (drop i src)))"
  then have "j < length f" using assms by simp
  then show "buf_put (buf_put f off (take i src)) (off + i) (take n (drop i src)) ! j = buf_put f off (take (i + n) src) ! j"
    using assms by (auto simp: nth_buf_put)
qed

lemma write_all_ok:
  assumes "fair_host host"
  shows "\<exists>k'. WriteAll host k file' src what = Some (k', file' @ src, Inr ())"
  using write_all.completes [OF assms, of 0 src] by (simp add: WriteAll_def)

lemma pwrite_transfer:
  assumes "off + length src \<le> length file'"
  shows "transfer (\<lambda>ndone n f. (n, buf_put f (off + ndone) (take n (drop ndone src)))) (length src) (\<lambda>i. buf_put file' off (take i src))"
  by unfold_locales (use assms in \<open>simp add: buf_put_extend\<close>)

lemma pwrite_all_ok:
  assumes "fair_host host" and "off + length src \<le> length file'"
  shows "\<exists>k'. PwriteAll_posix host k file' src off = Some (k', buf_put file' off src, Inr ())"
  using transfer.completes [OF pwrite_transfer [OF assms(2)] assms(1), of 0] by (simp add: PwriteAll_posix_def buf_put_def)

lemma read_transfer:
  assumes "pos + len \<le> length file'"
  shows "transfer (read_move file') len (\<lambda>i. (pos + i, take i (drop pos file')))"
  by unfold_locales (use assms in \<open>simp add: read_move_def Let_def take_add add.commute [of pos]\<close>)

lemma read_all_ok:
  assumes "fair_host host" and "pos + len \<le> length file'"
  shows "\<exists>k'. ReadAll host k file' pos len what = Some (k', (pos + len, take len (drop pos file')), Inr ())"
  using transfer.completes [OF read_transfer [OF assms(2)] assms(1), of 0] by (simp add: ReadAll_def)

section \<open>Sparse memory files\<close>

definition kSnapshotPageSize :: u64 where [source_consts]: "kSnapshotPageSize = 4096"

record snap_host =
  sh_open :: "string \<Rightarrow> bool"
  sh_truncate :: "string \<Rightarrow> bool"
  sh_mkdir :: "string \<Rightarrow> bool option"
  sh_call :: calls

text \<open>\<open>sh_mkdir\<close> is Some True for a directory that was made, Some False for a path that exists and is no directory,
  None for any other failure; an existing directory counts as made.\<close>

type_synonym file_system = "string \<rightharpoonup> bytes"

definition IsZeroPage :: "bytes \<Rightarrow> bool" where
  "IsZeroPage src \<longleftrightarrow> list_all (\<lambda>b. b = 0) src"

function sparse_loop :: "calls \<Rightarrow> bytes \<Rightarrow> nat \<Rightarrow> bytes \<Rightarrow> nat \<Rightarrow> u64 \<Rightarrow> (nat \<times> bytes \<times> u64 result) option" where
  "sparse_loop host src k f off pages_written =
    (if off < length src
     then let chunk = min (unat kSnapshotPageSize) (length src - off); page = take chunk (drop off src)
          in if IsZeroPage page then sparse_loop host src k f (off + unat kSnapshotPageSize) pages_written
             else case PwriteAll_posix host k f page off of
                    None \<Rightarrow> None
                  | Some (k, f, Inl e) \<Rightarrow> Some (k, f, Inl e)
                  | Some (k, f, Inr _) \<Rightarrow> sparse_loop host src k f (off + unat kSnapshotPageSize) (pages_written + 1)
     else Some (k, f, Inr pages_written))"
  by pat_completeness auto
termination by (relation "measure (\<lambda>(_, src, _, _, off, _). length src - off)") (auto simp: source_consts)

declare sparse_loop.simps [simp del]

definition WriteSparseMemoryFile ::
  "snap_host \<Rightarrow> nat \<Rightarrow> file_system \<Rightarrow> string \<Rightarrow> bytes \<Rightarrow> (nat \<times> file_system \<times> u64 result) option" where
  "WriteSparseMemoryFile h k fs path src =
    (if \<not> sh_open h path then Some (k, fs, Inl (''open sparse memory '' @ path))
     else if \<not> sh_truncate h path then Some (k, fs(path \<mapsto> []), Inl (''truncate sparse memory '' @ path))
     else case sparse_loop (sh_call h) src k (replicate (length src) 0) 0 0 of
            None \<Rightarrow> None | Some (k, f, r) \<Rightarrow> Some (k, fs(path \<mapsto> f), r))"

text \<open>The file that is left when the pages below \<open>off\<close> are done: zero pages are holes of the truncated file.\<close>

lemma IsZeroPage_replicate: "IsZeroPage xs \<longleftrightarrow> xs = replicate (length xs) 0"
  unfolding IsZeroPage_def list_all_iff by (metis in_set_replicate replicate_length_same)

lemma sparse_page:
  assumes "off < length src" and "chunk = min 4096 (length src - off)"
  shows "take (off + 4096) src @ replicate (length src - (off + 4096)) (0 :: u8) =
      take off src @ take chunk (drop off src) @ replicate (length src - (off + chunk)) 0"
proof -
  have "take (off + 4096) src = take off src @ take chunk (drop off src)"
    using assms by (auto simp: take_add min_def)
  moreover have "length src - (off + 4096) = length src - (off + chunk)" using assms by auto
  ultimately show ?thesis by simp
qed

lemma sparse_loop_ok:
  assumes "fair_host host" and "f = take off src @ replicate (length src - off) 0"
  shows "\<exists>k' n. sparse_loop host src k f off pages = Some (k', src, Inr n)"
  using assms
proof (induction host src k f off pages rule: sparse_loop.induct)
  case (1 host src k f off pages)
  show ?case
  proof (cases "off < length src")
    case False
    then show ?thesis using "1.prems" by (subst sparse_loop.simps) simp
  next
    case True
    define chunk where "chunk = min 4096 (length src - off)"
    define page where "page = take chunk (drop off src)"
    have len: "length page = chunk" using True by (simp add: page_def chunk_def)
    have split: "replicate (length src - off) 0 = replicate chunk (0 :: u8) @ replicate (length src - (off + chunk)) 0"
      using True by (simp add: chunk_def flip: replicate_add)
    have next_f: "take (off + 4096) src @ replicate (length src - (off + 4096)) 0
        = take off src @ page @ replicate (length src - (off + chunk)) 0"
      using sparse_page [OF True chunk_def] by (simp add: page_def)
    show ?thesis
    proof (cases "IsZeroPage page")
      case zero: True
      then have "page = replicate chunk 0" using IsZeroPage_replicate [of page] len by simp
      then have "f = take (off + 4096) src @ replicate (length src - (off + 4096)) 0"
        using "1.prems"(2) split next_f by simp
      then show ?thesis using True zero "1.IH"(1) [of chunk page] "1.prems"(1)
        by (subst sparse_loop.simps) (simp add: chunk_def page_def source_consts)
    next
      case False
      have "off + length page \<le> length f" using True "1.prems"(2) len by (auto simp: chunk_def)
      then obtain k1 where w: "PwriteAll_posix host k f page off = Some (k1, buf_put f off page, Inr ())"
        using pwrite_all_ok [OF "1.prems"(1)] by blast
      have "buf_put f off page = take (off + 4096) src @ replicate (length src - (off + 4096)) 0"
        using True len by (simp add: "1.prems"(2) split next_f buf_put_def)
      then show ?thesis using True False w "1.IH"(2) [of chunk page] "1.prems"(1)
        by (subst sparse_loop.simps) (simp add: chunk_def page_def source_consts)
    qed
  qed
qed

section \<open>The full snapshot\<close>

definition kRamSnapshotMagic :: bytes where "kRamSnapshotMagic = string_bytes ''NODEKVM-RAM-001'' @ [0]"
definition kDirtySnapshotMagic :: bytes where "kDirtySnapshotMagic = string_bytes ''NODEKVM-DIRTY-001'' @ [0]"
definition kRamSnapshotVersion :: u32 where [source_consts]: "kRamSnapshotVersion = 1"
definition kDirtySnapshotVersion :: u32 where [source_consts]: "kDirtySnapshotVersion = 1"

text \<open>RamSnapshotHeader as the x86-64 ABI lays it out: 16 bytes of magic, version, mem_mib, mem_size.\<close>

definition ram_header :: "u32 \<Rightarrow> u64 \<Rightarrow> bytes" where
  "ram_header mem_mib mem_size = kRamSnapshotMagic @ le_bytes 4 kRamSnapshotVersion @ le_bytes 4 mem_mib @ le_bytes 8 mem_size"

definition EnsureDirectory :: "snap_host \<Rightarrow> string \<Rightarrow> unit result" where
  "EnsureDirectory h path =
    (case sh_mkdir h path of
       Some True \<Rightarrow> Inr ()
     | Some False \<Rightarrow> Inl (''snapshot path is not a directory: '' @ path)
     | None \<Rightarrow> Inl (''mkdir snapshot directory '' @ path))"

definition JoinPath :: "string \<Rightarrow> string \<Rightarrow> string" where
  "JoinPath dir name = (if dir = [] \<or> dir = ''/'' then dir @ name else dir @ ''/'' @ name)"

text \<open>A file that is written from its start by consecutive calls of WriteAll.\<close>

fun write_parts :: "calls \<Rightarrow> nat \<Rightarrow> bytes \<Rightarrow> (bytes \<times> string) list \<Rightarrow> (nat \<times> bytes \<times> unit result) option" where
  "write_parts host k f [] = Some (k, f, Inr ())"
| "write_parts host k f ((src, what) # parts) =
    (case WriteAll host k f src what of
       None \<Rightarrow> None
     | Some (k, f, Inl e) \<Rightarrow> Some (k, f, Inl e)
     | Some (k, f, Inr _) \<Rightarrow> write_parts host k f parts)"

definition write_new_file ::
  "snap_host \<Rightarrow> nat \<Rightarrow> file_system \<Rightarrow> string \<Rightarrow> string \<Rightarrow> (bytes \<times> string) list \<Rightarrow> (nat \<times> file_system \<times> unit result) option" where
  "write_new_file h k fs path what parts =
    (if \<not> sh_open h path then Some (k, fs, Inl (what @ path))
     else case write_parts (sh_call h) k [] parts of None \<Rightarrow> None | Some (k, f, r) \<Rightarrow> Some (k, fs(path \<mapsto> f), r))"

text \<open>The processor state is the byte image of VcpuCoreState.\<close>

definition WriteRamSnapshotFiles ::
  "snap_host \<Rightarrow> nat \<Rightarrow> file_system \<Rightarrow> string \<Rightarrow> u32 \<Rightarrow> guest_memory \<Rightarrow> bytes \<Rightarrow> (nat \<times> file_system \<times> (string \<times> string) result) option" where
  "WriteRamSnapshotFiles h k fs dir mem_mib mem state =
    (case EnsureDirectory h dir of Inl e \<Rightarrow> Some (k, fs, Inl e) | Inr _ \<Rightarrow>
     let ram_path = JoinPath dir ''mem.bin''; state_path = JoinPath dir ''vcpu.bin''
     in case write_new_file h k fs state_path ''open snapshot state ''
               [(ram_header mem_mib (gm_len mem), ''write snapshot state header''), (state, ''write snapshot vCPU state'')] of
          None \<Rightarrow> None
        | Some (k, fs, Inl e) \<Rightarrow> Some (k, fs, Inl e)
        | Some (k, fs, Inr _) \<Rightarrow>
            (case WriteSparseMemoryFile h k fs ram_path (gm_read mem 0 (unat (gm_len mem))) of
               None \<Rightarrow> None
             | Some (k, fs, Inl e) \<Rightarrow> Some (k, fs, Inl e)
             | Some (k, fs, Inr _) \<Rightarrow> Some (k, fs, Inr (ram_path, state_path))))"

definition ReadRamSnapshotState ::
  "snap_host \<Rightarrow> nat \<Rightarrow> file_system \<Rightarrow> string \<Rightarrow> nat \<Rightarrow> (nat \<times> (bytes \<times> u32 \<times> u64) result) option" where
  "ReadRamSnapshotState h k fs state_path state_size =
    (case fs state_path of None \<Rightarrow> Some (k, Inl (''open snapshot state '' @ state_path)) | Some f \<Rightarrow>
     if \<not> sh_open h state_path then Some (k, Inl (''open snapshot state '' @ state_path))
     else case ReadAll (sh_call h) k f 0 32 ''read snapshot state header'' of
       None \<Rightarrow> None
     | Some (k, _, Inl e) \<Rightarrow> Some (k, Inl e)
     | Some (k, (pos, header), Inr _) \<Rightarrow>
        if take 16 header \<noteq> kRamSnapshotMagic then Some (k, Inl ''invalid native RAM snapshot magic'')
        else if ReadU32 ((!) header) 16 \<noteq> kRamSnapshotVersion then Some (k, Inl ''unsupported native RAM snapshot version'')
        else case ReadAll (sh_call h) k f pos state_size ''read snapshot vCPU state'' of
          None \<Rightarrow> None
        | Some (k, _, Inl e) \<Rightarrow> Some (k, Inl e)
        | Some (k, (_, state), Inr _) \<Rightarrow> Some (k, Inr (state, ReadU32 ((!) header) 20, ReadU64 ((!) header) 24)))"

text \<open>The RAM part of CreateVmWithMemory for a snapshot file: a private mapping of the whole file, or an error.\<close>

definition map_snapshot_ram :: "snap_host \<Rightarrow> file_system \<Rightarrow> u32 \<Rightarrow> string \<Rightarrow> bytes result" where
  "map_snapshot_ram h fs mem_mib ram_path =
    (let nbytes = ucast mem_mib * 1024 * 1024 :: u64
     in rbind (Check (0 < nbytes \<and> nbytes \<le> push_bit 32 1) ''invalid guest memory size'') (\<lambda>_.
        case fs ram_path of None \<Rightarrow> Inl (''open snapshot RAM '' @ ram_path) | Some f \<Rightarrow>
        if \<not> sh_open h ram_path then Inl (''open snapshot RAM '' @ ram_path)
        else rbind (Check (length f = unat nbytes) ''snapshot RAM size does not match memMiB'') (\<lambda>_. Inr f)))"

lemma write_parts_ok:
  assumes "fair_host host"
  shows "\<exists>k'. write_parts host k f parts = Some (k', f @ concat (map fst parts), Inr ())"
proof (induction parts arbitrary: k f)
  case (Cons p parts)
  obtain src what where p: "p = (src, what)" by (cases p)
  obtain k1 where "WriteAll host k f src what = Some (k1, f @ src, Inr ())" using write_all_ok [OF assms] by blast
  then show ?case using Cons [of k1 "f @ src"] by (simp add: p)
qed simp

lemma write_new_file_ok:
  assumes "fair_host (sh_call h)" and "sh_open h path"
  shows "\<exists>k'. write_new_file h k fs path what parts = Some (k', fs(path \<mapsto> concat (map fst parts)), Inr ())"
proof -
  obtain k' where "write_parts (sh_call h) k [] parts = Some (k', concat (map fst parts), Inr ())"
    using write_parts_ok [OF assms(1), of k "[]" parts] by auto
  then show ?thesis using assms(2) by (simp add: write_new_file_def)
qed

lemma WriteSparseMemoryFile_ok:
  assumes "fair_host (sh_call h)" and "sh_open h path" and "sh_truncate h path"
  shows "\<exists>k' n. WriteSparseMemoryFile h k fs path src = Some (k', fs(path \<mapsto> src), Inr n)"
proof -
  obtain k' n where "sparse_loop (sh_call h) src k (replicate (length src) 0) 0 0 = Some (k', src, Inr n)"
    using sparse_loop_ok [OF assms(1), of "replicate (length src) 0" 0 src k 0] by auto
  then show ?thesis using assms(2,3) by (simp add: WriteSparseMemoryFile_def)
qed

lemma JoinPath_inj: "JoinPath dir a = JoinPath dir b \<longleftrightarrow> a = b"
  by (simp add: JoinPath_def)

lemma length_magics [simp]: "length kRamSnapshotMagic = 16" "length kDirtySnapshotMagic = 18"
  by (simp_all add: kRamSnapshotMagic_def kDirtySnapshotMagic_def)

lemma ram_header_fields:
  "length (ram_header mib sz) = 32" "take 16 (ram_header mib sz) = kRamSnapshotMagic"
  "ReadU32 ((!) (ram_header mib sz)) 16 = kRamSnapshotVersion" "ReadU32 ((!) (ram_header mib sz)) 20 = mib"
  "ReadU64 ((!) (ram_header mib sz)) 24 = sz"
  by (auto simp: ram_header_def intro!: load_from_list)

text \<open>What a host has to do for a snapshot to be taken or read: open its files, and keep the transfers going.\<close>

definition snap_ready :: "snap_host \<Rightarrow> string \<Rightarrow> bool" where
  "snap_ready h dir \<longleftrightarrow> fair_host (sh_call h) \<and> sh_mkdir h dir = Some True \<and> (\<forall>name. sh_open h (JoinPath dir name)) \<and>
    (\<forall>name. sh_truncate h (JoinPath dir name))"

lemma read_state_ok:
  assumes "fair_host (sh_call h)" and "sh_open h path" and "fs path = Some (ram_header mib sz @ state)"
  shows "\<exists>k'. ReadRamSnapshotState h k fs path (length state) = Some (k', Inr (state, mib, sz))"
proof -
  let ?f = "ram_header mib sz @ state"
  obtain k1 where r1: "ReadAll (sh_call h) k ?f 0 32 ''read snapshot state header'' = Some (k1, (32, ram_header mib sz), Inr ())"
    using read_all_ok [OF assms(1), of 0 32 ?f k] by (auto simp: ram_header_fields)
  obtain k2 where "ReadAll (sh_call h) k1 ?f 32 (length state) ''read snapshot vCPU state'' = Some (k2, (32 + length state, state), Inr ())"
    using read_all_ok [OF assms(1), of 32 "length state" ?f k1] by (auto simp: ram_header_fields)
  then show ?thesis using assms(2,3) r1 by (simp add: ReadRamSnapshotState_def ram_header_fields)
qed

text \<open>A RAM snapshot restores the machine. On a host that opens the files and moves bytes, in whatever pieces and with
  whatever interruptions, WriteRamSnapshotFiles returns; reading the state file then gives back the
  processor state and the memory size, and mapping the memory file gives back the RAM byte for byte, although pages of zeros
  are never written.\<close>
theorem ram_snapshot_roundtrip:
  assumes "snap_ready h dir" and "snap_ready h' dir" and "gm_len mem = ucast mem_mib * 1024 * 1024" and "0 < gm_len mem"
    and "unat (gm_len mem) \<le> 2 ^ 32"
  shows "\<exists>k' fs' ram_path state_path k''. WriteRamSnapshotFiles h k fs dir mem_mib mem state = Some (k', fs', Inr (ram_path, state_path)) \<and>
    ReadRamSnapshotState h' j fs' state_path (length state) = Some (k'', Inr (state, mem_mib, gm_len mem)) \<and>
    map_snapshot_ram h' fs' mem_mib ram_path = Inr (gm_read mem 0 (unat (gm_len mem)))"
proof -
  let ?ram = "JoinPath dir ''mem.bin''" and ?state = "JoinPath dir ''vcpu.bin''"
  let ?bytes = "gm_read mem 0 (unat (gm_len mem))"
  have h: "fair_host (sh_call h)" "sh_open h (JoinPath dir name)" "sh_truncate h (JoinPath dir name)"
    "fair_host (sh_call h')" "sh_open h' (JoinPath dir name)" for name
    using assms(1,2) by (auto simp: snap_ready_def)
  let ?fs1 = "fs(?state \<mapsto> ram_header mem_mib (gm_len mem) @ state)"
  obtain k1 where w1: "write_new_file h k fs ?state ''open snapshot state ''
      [(ram_header mem_mib (gm_len mem), ''write snapshot state header''), (state, ''write snapshot vCPU state'')] = Some (k1, ?fs1, Inr ())"
    using write_new_file_ok [OF h(1,2), of k fs "''vcpu.bin''" "''open snapshot state ''"
      "[(ram_header mem_mib (gm_len mem), ''write snapshot state header''), (state, ''write snapshot vCPU state'')]"] by auto
  obtain k2 n where w2: "WriteSparseMemoryFile h k1 ?fs1 ?ram ?bytes = Some (k2, ?fs1(?ram \<mapsto> ?bytes), Inr n)"
    using WriteSparseMemoryFile_ok [OF h(1,2,3)] by blast
  have "WriteRamSnapshotFiles h k fs dir mem_mib mem state = Some (k2, ?fs1(?ram \<mapsto> ?bytes), Inr (?ram, ?state))"
    using assms(1) w1 w2 by (simp add: WriteRamSnapshotFiles_def EnsureDirectory_def snap_ready_def Let_def)
  moreover obtain k3 where "ReadRamSnapshotState h' j (?fs1(?ram \<mapsto> ?bytes)) ?state (length state) = Some (k3, Inr (state, mem_mib, gm_len mem))"
    using read_state_ok [OF h(4,5), of "?fs1(?ram \<mapsto> ?bytes)" "''vcpu.bin''" mem_mib "gm_len mem" state j] by (auto simp: JoinPath_inj)
  moreover have "map_snapshot_ram h' (?fs1(?ram \<mapsto> ?bytes)) mem_mib ?ram = Inr ?bytes"
    using assms(3-5) h(5) by (simp add: map_snapshot_ram_def Let_def word_le_nat_alt gm_read_def flip: assms(3))
  ultimately show ?thesis by blast
qed

section \<open>Dirty pages\<close>

text \<open>GetDirtyPages: the bitmap is what KVM_GET_DIRTY_LOG stores, one bit per page. The inner loop takes the lowest set bit and clears
  it.\<close>

definition ctzll :: "u64 \<Rightarrow> nat" where
  "ctzll w = length (takeWhile (\<lambda>n. \<not> bit w n) [0 ..< 64])"

lemma clear_lowest_less: "w \<noteq> 0 \<Longrightarrow> unat (w AND (w - 1)) < unat (w :: u64)"
proof -
  assume "w \<noteq> 0"
  then have "unat (w - 1) = unat w - 1" "0 < unat w" by (simp_all add: unat_minus_one unat_gt_0)
  moreover have "unat (w AND (w - 1)) \<le> unat (w - 1)" using word_and_le1 [of w "w - 1"] by (simp add: word_le_nat_alt and.commute)
  ultimately show ?thesis by simp
qed

function word_pages :: "u64 \<Rightarrow> u64 \<Rightarrow> u64 \<Rightarrow> u64 list" where
  "word_pages page_count word_index word =
    (if word = 0 then []
     else let b = of_nat (ctzll word); page = word_index * 64 + b
          in (if page < page_count then [page] else []) @ word_pages page_count word_index (word AND (word - 1)))"
  by pat_completeness auto
termination by (relation "measure (\<lambda>(_, _, word). unat word)") (auto simp: clear_lowest_less)

declare word_pages.simps [simp del]

definition GetDirtyPages :: "u64 \<Rightarrow> u64 list \<Rightarrow> u64 list" where
  "GetDirtyPages mem_size bitmap =
    (let page_count = mem_size div kSnapshotPageSize
     in concat (map (\<lambda>i. word_pages page_count (of_nat i) (bitmap ! i)) [0 ..< length bitmap]))"

lemma upt_split: "i \<le> j \<Longrightarrow> j \<le> k \<Longrightarrow> [i ..< k] = [i ..< j] @ [j ..< k]"
  using upt_add_eq_append [of i j "k - j"] by simp

lemma lowest_bit_nat:
  "0 < x \<Longrightarrow> \<exists>n. bit (x :: nat) n \<and> (\<forall>m < n. \<not> bit x m) \<and> (\<forall>m. bit (x AND (x - 1)) m \<longleftrightarrow> bit x m \<and> m \<noteq> n)"
proof (induction x rule: less_induct)
  case (less x)
  show ?case
  proof (cases "odd x")
    case True
    then obtain y where x: "x = 2 * y + 1" by (elim oddE)
    have "bit (x AND (x - 1)) m \<longleftrightarrow> bit x m \<and> m \<noteq> 0" for m
      unfolding bit_and_iff by (cases m) (simp_all add: x bit_Suc bit_0)
    moreover have "bit x 0" using True by (simp add: bit_0)
    ultimately show ?thesis by blast
  next
    case False
    then obtain y where x: "x = 2 * y" by blast
    with less.prems have y: "0 < y" "y < x" by auto
    from less.IH [OF y(2,1)] obtain n where n: "bit y n" "\<forall>m < n. \<not> bit y m" "\<forall>m. bit (y AND (y - 1)) m \<longleftrightarrow> bit y m \<and> m \<noteq> n"
      by blast
    have x1: "x - 1 = 2 * (y - 1) + 1" using y by (simp add: x)
    have half: "bit x (Suc m) = bit y m" "bit (x - 1) (Suc m) = bit (y - 1) m" for m
    proof -
      have "(2 * y - 1) div 2 = y - 1" using y(1) by linarith
      then show "bit x (Suc m) = bit y m" "bit (x - 1) (Suc m) = bit (y - 1) m" by (simp_all add: x bit_Suc)
    qed
    have "\<not> bit x 0" by (simp add: x bit_0)
    then have "bit (x AND (x - 1)) m \<longleftrightarrow> bit x m \<and> m \<noteq> Suc n" for m
    proof (cases m)
      case (Suc j)
      then show ?thesis using spec [OF n(3), of j] by (simp only: bit_and_iff half nat.inject)
    qed (simp add: bit_and_iff)
    moreover have "\<forall>m < Suc n. \<not> bit x m" using n(2) \<open>\<not> bit x 0\<close> by (auto simp: less_Suc_eq_0_disj half)
    ultimately show ?thesis using n(1) half(1) by blast
  qed
qed

lemma bit_unat_word: "bit (unat (w :: u64)) m \<longleftrightarrow> bit w m"
  by (simp add: bit_unsigned_iff bit_imp_le_length)

lemma clear_lowest:
  assumes "w \<noteq> (0 :: u64)"
  shows "ctzll w < 64" "bit w (ctzll w)" "\<forall>m < ctzll w. \<not> bit w m" "bit (w AND (w - 1)) m \<longleftrightarrow> bit w m \<and> m \<noteq> ctzll w"
proof -
  have pos: "0 < unat w" using assms by (simp add: unat_gt_0)
  obtain n where n: "bit w n" "\<forall>m < n. \<not> bit w m" "\<forall>m. bit (unat w AND (unat w - 1)) m \<longleftrightarrow> bit w m \<and> m \<noteq> n"
    using lowest_bit_nat [OF pos] by (auto simp: bit_unat_word)
  have lt: "n < 64" using n(1) bit_imp_le_length [of w n] by simp
  have "ctzll w = n"
  proof -
    have "[0 ..< 64] = [0 ..< n] @ n # [Suc n ..< 64]" 
      using upt_split [of 0 n 64] lt by (simp add: upt_conv_Cons)
    moreover have "takeWhile (\<lambda>m. \<not> bit w m) ([0 ..< n] @ n # [Suc n ..< 64]) = [0 ..< n]"
      using n(1,2) by (subst takeWhile_append2) auto
    ultimately show ?thesis by (simp add: ctzll_def)
  qed
  moreover have "unat (w AND (w - 1)) = unat w AND (unat w - 1)"
    using assms by (simp add: unsigned_and_eq unat_minus_one)
  ultimately show "ctzll w < 64" "bit w (ctzll w)" "\<forall>m < ctzll w. \<not> bit w m" "bit (w AND (w - 1)) m \<longleftrightarrow> bit w m \<and> m \<noteq> ctzll w"
    using n lt bit_unat_word [of "w AND (w - 1)" m] by simp_all
qed

text \<open>The loop lists the set bits of a word in ascending order.\<close>

lemma filter_clear_lowest:
  assumes "w \<noteq> (0 :: u64)"
  shows "filter (bit w) [0 ..< 64] = ctzll w # filter (bit (w AND (w - 1))) [0 ..< 64]"
proof -
  note c = clear_lowest [OF assms]
  have split: "[0 ..< 64] = [0 ..< ctzll w] @ ctzll w # [Suc (ctzll w) ..< 64]"
    using upt_split [of 0 "ctzll w" 64] c(1) by (simp add: upt_conv_Cons)
  have low: "filter (bit w) [0 ..< ctzll w] = []" "filter (bit (w AND (w - 1))) [0 ..< ctzll w] = []"
    using c(3) by (auto simp: filter_empty_conv c(4) simp del: bit_and_iff)
  have high: "filter (bit (w AND (w - 1))) [Suc (ctzll w) ..< 64] = filter (bit w) [Suc (ctzll w) ..< 64]"
    by (rule filter_cong) (auto simp: c(4) simp del: bit_and_iff)
  show ?thesis unfolding split using c(2) low high by (simp add: c(4) del: bit_and_iff)
qed

lemma word_pages_eq:
  "word_pages page_count i w = filter (\<lambda>p. p < page_count) (map (\<lambda>b. i * 64 + of_nat b) (filter (bit w) [0 ..< 64]))"
proof (induction page_count i w rule: word_pages.induct)
  case (1 page_count i w)
  show ?case
  proof (cases "w = 0")
    case True
    then show ?thesis by (subst word_pages.simps) simp
  next
    case False
    then show ?thesis using 1 filter_clear_lowest [OF False] by (subst word_pages.simps) simp
  qed
qed

lemma concat_words:
  "concat (map (\<lambda>i. map (\<lambda>b. i * 64 + b) (filter (P i) [0 ..< 64])) [0 ..< n]) =
    filter (\<lambda>p. P (p div 64) (p mod 64)) [0 ..< n * (64 :: nat)]"
proof (induction n)
  case (Suc n)
  have "[0 ..< Suc n * 64] = [0 ..< n * 64] @ map (\<lambda>b. n * 64 + b) [0 ..< 64]"
    using upt_split [of 0 "n * 64" "Suc n * 64"] map_add_upt [of "n * 64" 64] by (simp add: add.commute)
  moreover have "filter (\<lambda>p. P (p div 64) (p mod 64)) (map (\<lambda>b. n * 64 + b) [0 ..< 64]) = map (\<lambda>b. n * 64 + b) (filter (P n) [0 ..< 64])"
    by (auto simp: filter_map comp_def intro!: arg_cong [where f = "map _"] filter_cong)
  ultimately show ?case using Suc by simp
qed simp

text \<open>GetDirtyPages lists exactly the pages of guest memory whose bit is set in the dirty bitmap, in ascending order, each once.\<close>

lemma pages_exact:
  assumes "length bitmap = (unat mem_size div 4096 + 63) div 64"
  shows "map unat (GetDirtyPages mem_size bitmap) = filter (\<lambda>p. bit (bitmap ! (p div 64)) (p mod 64)) [0 ..< unat mem_size div 4096]"
proof -
  define pc where "pc = unat mem_size div 4096"
  have pc: "unat (mem_size div kSnapshotPageSize) = pc" by (simp add: pc_def unat_div source_consts)
  have small: "unat (of_nat i * 64 + of_nat b :: u64) = i * 64 + b" if "i < length bitmap" "b < 64" for i b
  proof -
    have "i * 64 + b < 2 ^ 64" using that assms unat_u64_less [of mem_size] by simp
    moreover have "of_nat i * 64 + of_nat b = (of_nat (i * 64 + b) :: u64)" by simp
    ultimately show ?thesis using unat_of_nat_u64 [of "i * 64 + b"] by (simp only:) simp
  qed
  let ?P = "\<lambda>i b. bit (bitmap ! i) b"
  have word: "map unat (word_pages (mem_size div kSnapshotPageSize) (of_nat i) (bitmap ! i)) =
      filter (\<lambda>p. p < pc) (map (\<lambda>b. i * 64 + b) (filter (?P i) [0 ..< 64]))" if "i < length bitmap" for i
  proof -
    have "filter (\<lambda>b. bit (bitmap ! i) b \<and> unat (of_nat i * 64 + of_nat b :: u64) < pc) [0 ..< 64] =
        filter (\<lambda>b. bit (bitmap ! i) b \<and> i * 64 + b < pc) [0 ..< 64]"
      using small [OF that] by (intro filter_cong) auto
    then show ?thesis
      using small [OF that] by (auto simp: word_pages_eq filter_map comp_def word_less_nat_alt pc intro!: map_cong)
  qed
  have "map unat (GetDirtyPages mem_size bitmap) =
      filter (\<lambda>p. p < pc) (concat (map (\<lambda>i. map (\<lambda>b. i * 64 + b) (filter (?P i) [0 ..< 64])) [0 ..< length bitmap]))"
  proof -
    have "map (\<lambda>i. map unat (word_pages (mem_size div kSnapshotPageSize) (of_nat i) (bitmap ! i))) [0 ..< length bitmap] =
        map (\<lambda>i. filter (\<lambda>p. p < pc) (map (\<lambda>b. i * 64 + b) (filter (?P i) [0 ..< 64]))) [0 ..< length bitmap]"
      by (rule map_cong) (simp_all add: word)
    then show ?thesis by (simp only: GetDirtyPages_def Let_def map_concat filter_concat map_map comp_def)
  qed
  also have "\<dots> = filter (\<lambda>p. p < pc) (filter (\<lambda>p. ?P (p div 64) (p mod 64)) [0 ..< length bitmap * 64])"
    by (simp only: concat_words)
  also have "\<dots> = filter (\<lambda>p. ?P (p div 64) (p mod 64)) (filter (\<lambda>p. p < pc) [0 ..< length bitmap * 64])"
    by (simp add: conj_commute)
  also have "filter (\<lambda>p. p < pc) [0 ..< length bitmap * 64] = [0 ..< pc]"
  proof -
    have "pc \<le> length bitmap * 64" using assms by (simp add: pc_def)
    then show ?thesis using upt_split [of 0 pc "length bitmap * 64"] by simp
  qed
  finally show ?thesis by (simp add: pc_def)
qed

section \<open>The file of dirty pages\<close>

text \<open>DirtySnapshotHeader as the x86-64 ABI lays it out: 18 bytes of magic, two of padding, version, page_size, four of padding,
  page_count, dirty_pages.\<close>

definition dirty_header :: "u64 \<Rightarrow> u64 \<Rightarrow> bytes" where
  "dirty_header page_count dirty_pages = kDirtySnapshotMagic @ [0, 0] @ le_bytes 4 kDirtySnapshotVersion
     @ le_bytes 4 (ucast kSnapshotPageSize :: u32) @ [0, 0, 0, 0] @ le_bytes 8 page_count @ le_bytes 8 dirty_pages"

definition WriteDirtySnapshotFile ::
  "snap_host \<Rightarrow> nat \<Rightarrow> file_system \<Rightarrow> string \<Rightarrow> guest_memory \<Rightarrow> u64 list \<Rightarrow> (nat \<times> file_system \<times> unit result) option" where
  "WriteDirtySnapshotFile h k fs path mem dirty_pages =
    write_new_file h k fs path ''open dirty RAM delta ''
      ((dirty_header (gm_len mem div kSnapshotPageSize) (of_nat (length dirty_pages)), ''write dirty snapshot header'')
       # concat (map (\<lambda>page. [(le_bytes 8 page, ''write dirty snapshot page index''),
           (gm_read mem (unat (page * kSnapshotPageSize)) (unat kSnapshotPageSize), ''write dirty snapshot page'')]) dirty_pages))"

definition WriteFullRamFile :: "snap_host \<Rightarrow> nat \<Rightarrow> file_system \<Rightarrow> string \<Rightarrow> guest_memory \<Rightarrow> (nat \<times> file_system \<times> u64 result) option" where
  "WriteFullRamFile h k fs path mem = WriteSparseMemoryFile h k fs path (gm_read mem 0 (unat (gm_len mem)))"

definition WriteVcpuStateFile :: "snap_host \<Rightarrow> nat \<Rightarrow> file_system \<Rightarrow> string \<Rightarrow> bytes \<Rightarrow> (nat \<times> file_system \<times> unit result) option" where
  "WriteVcpuStateFile h k fs path state =
    write_new_file h k fs path ''open dirty snapshot state '' [(state, ''write dirty snapshot vCPU state'')]"

definition ReadVcpuStateFile :: "snap_host \<Rightarrow> nat \<Rightarrow> file_system \<Rightarrow> string \<Rightarrow> nat \<Rightarrow> (nat \<times> bytes result) option" where
  "ReadVcpuStateFile h k fs path state_size =
    (case fs path of None \<Rightarrow> Some (k, Inl (''open dirty snapshot state '' @ path)) | Some f \<Rightarrow>
     if \<not> sh_open h path then Some (k, Inl (''open dirty snapshot state '' @ path))
     else case ReadAll (sh_call h) k f 0 state_size ''read dirty snapshot vCPU state'' of
       None \<Rightarrow> None
     | Some (k, _, Inl e) \<Rightarrow> Some (k, Inl e)
     | Some (k, (_, state), Inr _) \<Rightarrow> Some (k, Inr state))"

text \<open>ReadAll into guest memory stores what it has read also when it throws.\<close>

fun apply_loop :: "calls \<Rightarrow> bytes \<Rightarrow> u64 \<Rightarrow> nat \<Rightarrow> nat \<Rightarrow> nat \<Rightarrow> guest_memory \<Rightarrow> (nat \<times> guest_memory \<times> unit result) option" where
  "apply_loop host f page_count 0 k pos mem = Some (k, mem, Inr ())"
| "apply_loop host f page_count (Suc n) k pos mem =
    (case ReadAll host k f pos 8 ''read dirty snapshot page index'' of
       None \<Rightarrow> None
     | Some (k, _, Inl e) \<Rightarrow> Some (k, mem, Inl e)
     | Some (k, (pos, index), Inr _) \<Rightarrow>
        (let page = ReadU64 ((!) index) 0
         in if \<not> page < page_count then Some (k, mem, Inl ''dirty snapshot page index out of bounds'')
            else case ReadAll host k f pos (unat kSnapshotPageSize) ''read dirty snapshot page'' of
              None \<Rightarrow> None
            | Some (k, (pos, bs), r) \<Rightarrow>
               (let mem = gm_write mem (unat (page * kSnapshotPageSize)) bs
                in case r of Inl e \<Rightarrow> Some (k, mem, Inl e) | Inr _ \<Rightarrow> apply_loop host f page_count n k pos mem)))"

definition ApplyDirtySnapshotFile ::
  "snap_host \<Rightarrow> nat \<Rightarrow> file_system \<Rightarrow> string \<Rightarrow> guest_memory \<Rightarrow> (nat \<times> guest_memory \<times> u64 result) option" where
  "ApplyDirtySnapshotFile h k fs path mem =
    (case fs path of None \<Rightarrow> Some (k, mem, Inl (''open dirty RAM delta '' @ path)) | Some f \<Rightarrow>
     if \<not> sh_open h path then Some (k, mem, Inl (''open dirty RAM delta '' @ path))
     else case ReadAll (sh_call h) k f 0 48 ''read dirty snapshot header'' of
       None \<Rightarrow> None
     | Some (k, _, Inl e) \<Rightarrow> Some (k, mem, Inl e)
     | Some (k, (pos, header), Inr _) \<Rightarrow>
        (let page_count = ReadU64 ((!) header) 32; dirty_pages = ReadU64 ((!) header) 40
         in case rbind (Check (take 18 header = kDirtySnapshotMagic) ''invalid dirty snapshot magic'') (\<lambda>_.
                 rbind (Check (ReadU32 ((!) header) 20 = kDirtySnapshotVersion) ''unsupported dirty snapshot version'') (\<lambda>_.
                 rbind (Check (ucast (ReadU32 ((!) header) 24) = kSnapshotPageSize) ''dirty snapshot page size mismatch'') (\<lambda>_.
                 Check (page_count = gm_len mem div kSnapshotPageSize) ''dirty snapshot page count mismatch''))) of
              Inl e \<Rightarrow> Some (k, mem, Inl e)
            | Inr _ \<Rightarrow>
               (case apply_loop (sh_call h) f page_count (unat dirty_pages) k pos mem of
                  None \<Rightarrow> None
                | Some (k, mem, Inl e) \<Rightarrow> Some (k, mem, Inl e)
                | Some (k, mem, Inr _) \<Rightarrow> Some (k, mem, Inr dirty_pages))))"

section \<open>Any file leaves the host alone\<close>

lemma read_loop_bound:
  assumes "xfer_loop host (read_move f) err short len k ndone s = Some y" and "ndone \<le> len" and "length (snd s) = ndone"
  shows "length (snd (fst (snd y))) \<le> len"
proof -
  have "\<forall>f. move = read_move f \<longrightarrow> ndone \<le> len \<longrightarrow> length (snd s) = ndone \<longrightarrow> length (snd (fst (snd y))) \<le> len"
    if "xfer_loop host move err short len k ndone s = Some y" for move
  proof (rule xfer_loop.raw_induct [OF _ that, where P = "\<lambda>host move err short len k ndone s y.
      \<forall>f. move = read_move f \<longrightarrow> ndone \<le> len \<longrightarrow> length (snd s) = ndone \<longrightarrow> length (snd (fst (snd y))) \<le> len"], goal_cases)
    case (1 loop host move err short len k ndone s y)
    show ?case
    proof (intro allI impI)
      fix f assume prems: "move = read_move f" "ndone \<le> len" "length (snd s) = ndone"
      obtain pos dst where s: "s = (pos, dst)" by (cases s)
      show "length (snd (fst (snd y))) \<le> len"
      proof (cases "ndone < len")
        case False
        then show ?thesis using 1(2) prems by auto
      next
        case True
        show ?thesis
        proof (cases "host k (len - ndone)")
          case (Moved n)
          define got where "got = take (min n (len - ndone)) (drop pos f)"
          have got: "ndone + length got \<le> len" using True by (simp add: got_def)
          have mv: "move ndone (min n (len - ndone)) s = (length got, pos + length got, dst @ got)"
            by (simp add: prems s read_move_def Let_def got_def)
          have "(if length got = 0 then Some (k + 1, (pos + length got, dst @ got), Inl short)
              else loop host move err short len (k + 1) (ndone + length got) (pos + length got, dst @ got)) = Some y"
            using 1(2) True Moved by (simp only: mv if_True xfer.case prod.case)
          then show ?thesis using 1(1) [of host move err short len "k + 1" "ndone + length got" "(pos + length got, dst @ got)" y] prems got
            by (auto simp: s split: if_splits)
        next
          case Interrupted
          then show ?thesis using 1(1) [of host move err short len "k + 1" ndone s y] 1(2) True prems by auto
        next
          case Failed
          then show ?thesis using 1(2) True prems by auto
        qed
      qed
    qed
  qed
  with assms show ?thesis by blast
qed

lemma ReadAll_bound: "ReadAll host k f pos len what = Some (k', (pos', bs), r) \<Longrightarrow> length bs \<le> len"
  using read_loop_bound [of host f what "''short read '' @ what" len k 0 "(pos, [])"] by (simp add: ReadAll_def)

lemma page_in_ram:
  assumes "page < (n :: u64) div kSnapshotPageSize"
  shows "unat (page * kSnapshotPageSize) = unat page * 4096" and "unat page * 4096 + 4096 \<le> unat n"
proof -
  have less: "unat page < unat n div 4096" using assms by (simp add: word_less_nat_alt unat_div source_consts)
  then show room: "unat page * 4096 + 4096 \<le> unat n" by linarith
  then show "unat (page * kSnapshotPageSize) = unat page * 4096"
    using unat_u64_less [of n] by (simp add: unat_word_ariths source_consts)
qed

lemma apply_loop_confined:
  assumes "apply_loop host f page_count n k pos mem = Some (k', mem', r)" and "page_count = gm_len mem div kSnapshotPageSize"
  shows "same_outside mem mem'"
  using assms
proof (induction n arbitrary: k pos mem)
  case (Suc n)
  obtain k1 pos1 index r1 where r1: "ReadAll host k f pos 8 ''read dirty snapshot page index'' = Some (k1, (pos1, index), r1)"
    using Suc.prems(1) by (auto split: option.splits)
  define page where "page = ReadU64 ((!) index) 0"
  show ?case
  proof (cases "r1 = Inr () \<and> page < page_count")
    case False
    then show ?thesis using Suc.prems(1) r1 by (cases r1) (auto simp: page_def Let_def)
  next
    case True
    obtain k2 pos2 bs r2 where r2: "ReadAll host k1 f pos1 (unat kSnapshotPageSize) ''read dirty snapshot page'' = Some (k2, (pos2, bs), r2)"
      using Suc.prems(1) r1 True by (auto simp: page_def Let_def split: option.splits)
    let ?mem = "gm_write mem (unat (page * kSnapshotPageSize)) bs"
    have "length bs \<le> 4096" using ReadAll_bound [OF r2] by (simp add: source_consts)
    then have safe: "same_outside mem ?mem"
      using True page_in_ram [of page "gm_len mem"] Suc.prems(2) by (intro same_outside_gm_write) simp
    show ?thesis
    proof (cases r2)
      case (Inl e)
      then show ?thesis using Suc.prems(1) r1 r2 True safe by (auto simp: page_def Let_def)
    next
      case (Inr u)
      then have "apply_loop host f page_count n k2 pos2 ?mem = Some (k', mem', r)"
        using Suc.prems(1) r1 r2 True by (auto simp: page_def Let_def)
      from Suc.IH [OF this] show ?thesis using safe Suc.prems(2) by (auto intro: same_outside_trans)
    qed
  qed
qed auto

text \<open>C33. A dirty-page file cannot harm the host. Whatever the file contains, and whatever its transfers answer,
  ApplyDirtySnapshotFile changes guest RAM only: it keeps the size of the memory and every byte outside it.\<close>
theorem apply_dirty_confined:
  assumes "ApplyDirtySnapshotFile h k fs path mem = Some (k', mem', r)"
  shows "same_outside mem mem'"
  using assms apply_loop_confined
  by (auto simp: ApplyDirtySnapshotFile_def Let_def split: option.splits if_splits sum.splits prod.splits)

section \<open>The round trip of the dirty pages\<close>

abbreviation page_bytes :: "guest_memory \<Rightarrow> u64 \<Rightarrow> bytes" where
  "page_bytes mem page \<equiv> gm_read mem (unat (page * kSnapshotPageSize)) (unat kSnapshotPageSize)"

definition entries :: "guest_memory \<Rightarrow> u64 list \<Rightarrow> bytes" where
  "entries mem pages = concat (map (\<lambda>page. le_bytes 8 page @ page_bytes mem page) pages)"

lemma dirty_header_fields:
  "length (dirty_header pc n) = 48" "take 18 (dirty_header pc n) = kDirtySnapshotMagic"
  "ReadU32 ((!) (dirty_header pc n)) 20 = kDirtySnapshotVersion" "ReadU32 ((!) (dirty_header pc n)) 24 = 4096"
  "ReadU64 ((!) (dirty_header pc n)) 32 = pc" "ReadU64 ((!) (dirty_header pc n)) 40 = n"
  by (auto simp: dirty_header_def source_consts intro!: load_from_list)

lemma write_dirty_ok:
  assumes "fair_host (sh_call h)" and "sh_open h path"
  shows "\<exists>k'. WriteDirtySnapshotFile h k fs path mem pages =
    Some (k', fs(path \<mapsto> dirty_header (gm_len mem div kSnapshotPageSize) (of_nat (length pages)) @ entries mem pages), Inr ())"
proof -
  let ?parts = "concat (map (\<lambda>page. [(le_bytes 8 page, ''write dirty snapshot page index''),
      (page_bytes mem page, ''write dirty snapshot page'')]) pages)"
  have "concat (map fst ?parts) = entries mem pages" by (induction pages) (simp_all add: entries_def)
  then show ?thesis
    using write_new_file_ok [OF assms, of k fs "''open dirty RAM delta ''" "(dirty_header (gm_len mem div kSnapshotPageSize)
      (of_nat (length pages)), ''write dirty snapshot header'') # ?parts"] by (simp add: WriteDirtySnapshotFile_def)
qed

definition restore_pages :: "guest_memory \<Rightarrow> u64 list \<Rightarrow> guest_memory \<Rightarrow> guest_memory" where
  "restore_pages mem pages base = fold (\<lambda>page m. gm_write m (unat (page * kSnapshotPageSize)) (page_bytes mem page)) pages base"

lemma apply_entries:
  assumes "fair_host host" and "\<forall>page \<in> set pages. page < pc" and "f = pre @ entries mem pages"
  shows "\<exists>k'. apply_loop host f pc (length pages) k (length pre) base = Some (k', restore_pages mem pages base, Inr ())"
  using assms(2,3)
proof (induction pages arbitrary: pre k base)
  case (Cons page pages)
  have len: "length (page_bytes mem page) = 4096" by (simp add: gm_read_def source_consts)
  have f: "f = pre @ le_bytes 8 page @ page_bytes mem page @ entries mem pages" using Cons.prems(2) by (simp add: entries_def)
  obtain k1 where r1: "ReadAll host k f (length pre) 8 ''read dirty snapshot page index'' = Some (k1, (length pre + 8, le_bytes 8 page), Inr ())"
    using read_all_ok [OF assms(1), of "length pre" 8 f k] by (auto simp: f)
  obtain k2 where r2: "ReadAll host k1 f (length pre + 8) (unat kSnapshotPageSize) ''read dirty snapshot page'' =
      Some (k2, (length pre + 8 + 4096, page_bytes mem page), Inr ())"
    using read_all_ok [OF assms(1), of "length pre + 8" "unat kSnapshotPageSize" f k1] len by (auto simp: f source_consts)
  have index: "ReadU64 ((!) (le_bytes 8 page)) 0 = page" by (rule load_from_list) simp_all
  let ?base = "gm_write base (unat (page * kSnapshotPageSize)) (page_bytes mem page)"
  obtain k3 where "apply_loop host f pc (length pages) k2 (length (pre @ le_bytes 8 page @ page_bytes mem page)) ?base =
      Some (k3, restore_pages mem pages ?base, Inr ())"
    using Cons.IH [of "pre @ le_bytes 8 page @ page_bytes mem page" k2 ?base] Cons.prems(1) f by auto
  then show ?case using r1 r2 index Cons.prems(1) len by (simp add: restore_pages_def add.assoc)
qed (simp add: restore_pages_def)

lemma restore_pages_data:
  assumes "\<forall>page \<in> set pages. page < gm_len mem div kSnapshotPageSize"
  shows "gm_len (restore_pages mem pages base) = gm_len base"
    and "gm_data (restore_pages mem pages base) a = (if a div 4096 \<in> unat ` set pages then gm_data mem a else gm_data base a)"
proof -
  have "gm_len (restore_pages mem pages base) = gm_len base \<and>
    gm_data (restore_pages mem pages base) a = (if a div 4096 \<in> unat ` set pages then gm_data mem a else gm_data base a)"
    using assms
  proof (induction pages arbitrary: base)
    case (Cons page pages)
    let ?p = "unat (page * kSnapshotPageSize)"
    have sz: "unat kSnapshotPageSize = 4096" by (simp add: source_consts)
    have p: "?p = unat page * 4096" using page_in_ram(1) [of page "gm_len mem"] Cons.prems by simp
    have at: "gm_data (gm_write base ?p (page_bytes mem page)) a = (if a div 4096 = unat page then gm_data mem a else gm_data base a)"
    proof (cases "a div 4096 = unat page")
      case True
      then have "unat page * 4096 \<le> a" "a < unat page * 4096 + 4096" by auto
      then show ?thesis using True by (simp add: gm_write_def memcpy_def gm_read_def p sz)
    next
      case False
      then have "a < unat page * 4096 \<or> unat page * 4096 + 4096 \<le> a" by auto
      then show ?thesis using False by (auto simp: gm_write_def memcpy_def gm_read_def p sz)
    qed
    have "restore_pages mem (page # pages) base = restore_pages mem pages (gm_write base ?p (page_bytes mem page))"
      by (simp add: restore_pages_def)
    then show ?case using Cons at by auto
  qed (simp add: restore_pages_def)
  then show "gm_len (restore_pages mem pages base) = gm_len base"
    "gm_data (restore_pages mem pages base) a = (if a div 4096 \<in> unat ` set pages then gm_data mem a else gm_data base a)" by auto
qed

lemma apply_dirty_ok:
  assumes "fair_host (sh_call h)" and "sh_open h path" and "gm_len base = gm_len mem"
    and "\<forall>page \<in> set pages. page < gm_len mem div kSnapshotPageSize" and "length pages < 2 ^ 64"
    and "fs path = Some (dirty_header (gm_len mem div kSnapshotPageSize) (of_nat (length pages)) @ entries mem pages)"
  shows "\<exists>k'. ApplyDirtySnapshotFile h k fs path base = Some (k', restore_pages mem pages base, Inr (of_nat (length pages)))"
proof -
  let ?hd = "dirty_header (gm_len mem div kSnapshotPageSize) (of_nat (length pages))"
  have n: "unat (of_nat (length pages) :: u64) = length pages" using assms(5) by (intro unat_of_nat_u64) simp
  obtain k2 where r: "ReadAll (sh_call h) k (?hd @ entries mem pages) 0 48 ''read dirty snapshot header'' = Some (k2, (48, ?hd), Inr ())"
    using read_all_ok [OF assms(1), of 0 48 "?hd @ entries mem pages" k] by (auto simp: dirty_header_fields)
  obtain k3 where a: "apply_loop (sh_call h) (?hd @ entries mem pages) (gm_len mem div kSnapshotPageSize) (length pages) k2 48 base =
      Some (k3, restore_pages mem pages base, Inr ())"
    using apply_entries [OF assms(1,4) refl, of ?hd mem k2 base] by (auto simp: dirty_header_fields)
  show ?thesis
    using assms(2,3,6) r a n by (simp add: ApplyDirtySnapshotFile_def dirty_header_fields Let_def source_consts)
qed

text \<open>C12. A base snapshot and the pages that KVM reports as dirty give back the memory. If every page of the memory that differs from
  the base has its bit set in the dirty bitmap, then writing the file of dirty pages returns, applying it to the base returns
  with the number of pages, and the result is the memory byte for byte, for all ways in which the two hosts split and interrupt the
  transfers.\<close>
theorem dirty_snapshot_roundtrip:
  assumes "fair_host (sh_call h)" and "sh_open h path" and "fair_host (sh_call h')" and "sh_open h' path"
    and "gm_len base = gm_len mem" and "4096 dvd unat (gm_len mem)"
    and "length bitmap = (unat (gm_len mem) div 4096 + 63) div 64"
    and "\<forall>p < unat (gm_len mem) div 4096. (\<exists>a. a div 4096 = p \<and> gm_data base a \<noteq> gm_data mem a) \<longrightarrow> bit (bitmap ! (p div 64)) (p mod 64)"
  shows "\<exists>k' fs' k'' mem'. WriteDirtySnapshotFile h k fs path mem (GetDirtyPages (gm_len mem) bitmap) = Some (k', fs', Inr ()) \<and>
    ApplyDirtySnapshotFile h' j fs' path base = Some (k'', mem', Inr (of_nat (length (GetDirtyPages (gm_len mem) bitmap)))) \<and>
    gm_len mem' = gm_len mem \<and> gm_read mem' 0 (unat (gm_len mem)) = gm_read mem 0 (unat (gm_len mem))"
proof -
  define pc where "pc = unat (gm_len mem) div 4096"
  define pages where "pages = GetDirtyPages (gm_len mem) bitmap"
  have exact: "map unat pages = filter (\<lambda>p. bit (bitmap ! (p div 64)) (p mod 64)) [0 ..< pc]"
    unfolding pages_def pc_def by (rule pages_exact [OF assms(7)])
  have set: "unat ` set pages = {p \<in> {0 ..< pc}. bit (bitmap ! (p div 64)) (p mod 64)}"
    by (simp only: set_map [symmetric] exact set_filter set_upt)
  have below: "\<forall>page \<in> set pages. page < gm_len mem div kSnapshotPageSize"
  proof
    fix page assume "page \<in> set pages"
    then have "unat page \<in> unat ` set pages" by (rule imageI)
    then have "unat page \<in> {0 ..< pc}" by (simp only: set mem_Collect_eq)
    then show "page < gm_len mem div kSnapshotPageSize" by (simp add: word_less_nat_alt unat_div source_consts pc_def)
  qed
  have "length pages \<le> pc" 
    using arg_cong [OF exact, of length] length_filter_le [of "\<lambda>p. bit (bitmap ! (p div 64)) (p mod 64)" "[0 ..< pc]"]
    by (simp only: length_map length_upt minus_nat.diff_0)
  then have n: "length pages < 2 ^ 64" using unat_u64_less [of "gm_len mem"] by (simp add: pc_def)
  let ?hd = "dirty_header (gm_len mem div kSnapshotPageSize) (of_nat (length pages))"
  let ?fs = "fs(path \<mapsto> ?hd @ entries mem pages)"
  obtain k1 where w: "WriteDirtySnapshotFile h k fs path mem pages = Some (k1, ?fs, Inr ())"
    using write_dirty_ok [OF assms(1,2)] by blast
  obtain k3 where "ApplyDirtySnapshotFile h' j ?fs path base = Some (k3, restore_pages mem pages base, Inr (of_nat (length pages)))"
    using apply_dirty_ok [OF assms(3,4,5) below n, of ?fs j] by auto
  moreover have "gm_data (restore_pages mem pages base) x = gm_data mem x" if "x < unat (gm_len mem)" for x
  proof -
    have "x div 4096 < pc" using that assms(6) by (auto simp: pc_def elim!: dvdE)
    then show ?thesis using assms(8) by (auto simp: restore_pages_data [OF below] set pc_def)
  qed
  then have "gm_read (restore_pages mem pages base) 0 (unat (gm_len mem)) = gm_read mem 0 (unat (gm_len mem))"
    by (auto simp: gm_read_def intro!: read_bytes_cong)
  ultimately show ?thesis using w restore_pages_data(1) [OF below] assms(5) unfolding pages_def by auto
qed

text \<open>A host that interrupts every other call and moves at most three bytes at a time, and two memories of one MiB.\<close>

definition slow_host :: snap_host where
  "slow_host = \<lparr>sh_open = \<lambda>_. True, sh_truncate = \<lambda>_. True, sh_mkdir = \<lambda>_. Some True,
     sh_call = \<lambda>k n. if even k then Interrupted else Moved 3\<rparr>"

definition zero_memory :: guest_memory where "zero_memory = \<lparr>gm_data = \<lambda>_. 0, gm_len = 0x100000\<rparr>"
definition one_byte_memory :: guest_memory where "one_byte_memory = \<lparr>gm_data = \<lambda>a. if a = 0x2007 then 0x55 else 0, gm_len = 0x100000\<rparr>"

lemma memory_lens: "gm_len zero_memory = 0x100000" "gm_len one_byte_memory = 0x100000" "sh_open slow_host path"
  by (simp_all add: zero_memory_def one_byte_memory_def slow_host_def)

lemma slow_host_ready: "snap_ready slow_host dir" "fair_host (sh_call slow_host)"
proof -
  have "\<exists>j \<ge> k. odd j" for k :: nat by (rule exI [of _ "2 * k + 1"]) simp
  then show "fair_host (sh_call slow_host)" by (auto simp: fair_host_def slow_host_def)
  then show "snap_ready slow_host dir" by (simp add: snap_ready_def) (simp add: slow_host_def)
qed

theorem ram_snapshot_roundtrip_witness:
  "\<exists>k' fs' ram_path state_path k''. WriteRamSnapshotFiles slow_host 0 Map.empty ''/snap'' 1 one_byte_memory [1, 2, 3] =
      Some (k', fs', Inr (ram_path, state_path)) \<and>
    ReadRamSnapshotState slow_host 1 fs' state_path 3 = Some (k'', Inr ([1, 2, 3], 1, 0x100000)) \<and>
    map_snapshot_ram slow_host fs' 1 ram_path = Inr (gm_read one_byte_memory 0 0x100000)"
  using ram_snapshot_roundtrip [OF slow_host_ready(1) slow_host_ready(1), of one_byte_memory 1 0 Map.empty "''/snap''" "[1, 2, 3]" 1]
  by (simp add: memory_lens numeral_3_eq_3)

theorem apply_dirty_confined_witness:
  "\<exists>k' mem'. ApplyDirtySnapshotFile slow_host 0 [''d'' \<mapsto> dirty_header 256 1 @ entries one_byte_memory [2]] ''d'' zero_memory =
      Some (k', mem', Inr 1) \<and> gm_data mem' 0x2007 = 0x55 \<and> same_outside zero_memory mem'"
proof -
  let ?fs = "[''d'' \<mapsto> dirty_header 256 1 @ entries one_byte_memory [2]]"
  obtain k' where r: "ApplyDirtySnapshotFile slow_host 0 ?fs ''d'' zero_memory = Some (k', restore_pages one_byte_memory [2] zero_memory, Inr 1)"
    using apply_dirty_ok [OF slow_host_ready(2), of "''d''" zero_memory one_byte_memory "[2]" ?fs 0]
    by (auto simp: slow_host_def zero_memory_def one_byte_memory_def source_consts)
  have "gm_data (restore_pages one_byte_memory [2] zero_memory) 0x2007 = 0x55"
    by (subst restore_pages_data(2)) (simp_all add: one_byte_memory_def source_consts)
  with r apply_dirty_confined [OF r] show ?thesis by blast
qed

theorem dirty_snapshot_roundtrip_witness:
  "\<exists>k' fs' k'' mem'. WriteDirtySnapshotFile slow_host 0 Map.empty ''d'' one_byte_memory (GetDirtyPages 0x100000 [4, 0, 0, 0]) = Some (k', fs', Inr ()) \<and>
    ApplyDirtySnapshotFile slow_host 1 fs' ''d'' zero_memory = Some (k'', mem', Inr (of_nat (length (GetDirtyPages 0x100000 [4, 0, 0, 0])))) \<and>
    gm_read mem' 0 0x100000 = gm_read one_byte_memory 0 0x100000"
proof -
  have "bit ([4, 0, 0, 0 :: u64] ! (p div 64)) (p mod 64)" if "p = 2" for p :: nat using that by (simp add: bit_numeral_rec)
  moreover have "p = 2" if "a div 4096 = p" "gm_data zero_memory a \<noteq> gm_data one_byte_memory a" for a p
    using that by (auto simp: zero_memory_def one_byte_memory_def split: if_splits)
  ultimately have hyp: "\<forall>p < unat (gm_len one_byte_memory) div 4096.
      (\<exists>a. a div 4096 = p \<and> gm_data zero_memory a \<noteq> gm_data one_byte_memory a) \<longrightarrow> bit ([4, 0, 0, 0 :: u64] ! (p div 64)) (p mod 64)"
    by blast
  show ?thesis
    using dirty_snapshot_roundtrip [OF slow_host_ready(2) memory_lens(3) slow_host_ready(2) memory_lens(3) _ _ _ hyp, where path = "''d''" and k = 0 and fs = Map.empty and j = 1]
    unfolding memory_lens by simp blast
qed

end
