(* ===== verification/Spec2Isabelle.thy ===== *)
theory Spec2Isabelle
  imports Console_Threads Boot Whp_Run_Results Host_Input Kvm_Run_Results Arm_Traps Arm_Blk_Results Kvm_Snapshot
begin

text \<open>
  node-vmm runs Linux guests from Node.js. This development models the C++ core of its Windows backend
  (native/whp and native/common): the preparation of a guest, the devices the guest sees, the
  paths by which their interrupts and their bytes reach the guest and the host, the handlers of the processors' exits, and the threads that
  run the processors from the start of the machine to its result. Of the macOS
  backend (native/hvf) it models the Arm machine: layout, device tree, devices with the disk, traps and the
  power states of the processors; of the Linux backend (native/kvm) the serial port, the run loop and the RAM snapshots; and of the guest's own programs the one that
  copies the shell's terminal to the serial port (guest/node-vmm-console.cc).

  \<^bold>\<open>The program.\<close> RunVm (native/whp/backend.cc) allocates guest RAM, loads the kernel, writes the ACPI tables, the
  Linux zero page and the MP table, builds page tables, sets the registers of the processors and runs
  one thread per processor. A processor leaves the hypervisor for port I/O, for memory-mapped I/O, for a
  halt and when an interrupt window opens; the access goes to a device model, which
  changes its registers, reads and writes guest RAM, and raises interrupts through the I/O APIC
  or, before the guest has programmed it, through the 8259A pair and a pending external interrupt of
  the processor. Disk requests end in the host's files, network frames in libslirp, console bytes in
  a buffer that a writer thread drains.

  \<^bold>\<open>Conventions.\<close> Theory Prelude names the integer types (\<open>u8\<close> to \<open>u64\<close> are words, so arithmetic wraps as in
  C++), the type \<open>result\<close> of a call that may throw, the locale \<open>invariant_machine\<close> for devices driven by a
  sequence of accesses, and shared facts. Memory seen through a byte pointer is a function from offsets (\<open>ram\<close>);
  guest RAM as devices see it is the record \<open>guest_memory\<close>, whose bytes beyond its length stand for the host
  memory behind the buffer: \<open>same_outside\<close> says they are untouched. A class is a record, a method a function
  that returns the new record; a section under a mutex is one step.

  \<^bold>\<open>Theories and sources.\<close>
  \<^item> Bytes (common/bytes.h): guards, little-endian access, bit fields; the locale \<open>memory_cell\<close> with an
    interpretation for each width says how stores and loads interact.
  \<^item> Guest_Memory (whp/guest_memory.h): the bounds check in front of every device access.
  \<^item> Page_Tables (whp/page_tables.cc): boot page tables and segments; a page walk shows the identity map.
  \<^item> Elf_Loader (whp/elf_loader.cc): the segments are in place, everything else is untouched, and each bad file is refused.
  \<^item> Boot_Params (whp/boot_params.cc): zero page, command line, MP table with its checksums.
  \<^item> Aml, Acpi (whp/backend.cc, EncodePath to CreateAcpiTables): a decoder written from the ACPI specification reads the DSDT
    back into the devices of the machine, and every table is found, with right checksum, from the root pointer.
  \<^item> Boot (whp/backend.cc, SetupLongMode, SetupWhpBootstrapVcpu, the part of RunVm before the threads start).
  \<^item> Pic, Pit, Hpet, Rtc_Timers (whp/devices): register state machines with their invariants, the deadlines of the
    timers, and the arithmetic that can overflow or hang.
  \<^item> Ioapic (whp/backend.cc, class IoApic): redirection table, level-triggered handshake, and a queue of interrupts that
    the hypervisor has refused for now; none is lost, repeated or overtaken.
  \<^item> Irq (whp/irq.h, irq.cc and the exit handlers that use them): an external interrupt is injected only when the
    processor can take it, and is kept until then.
  \<^item> Virtqueue, Queue_State (whp/virtio/desc.h and helpers of blk.cc): the descriptor walk accepts exactly the chains of distinct
    direct descriptors; a used element is stored before the index that publishes it.
  \<^item> Block_Disk (whp/win_io.h, whp/virtio/blk.cc): the base image and its sector overlay refine one flat array
    (locale \<open>block_store\<close>, interpreted with and without an overlay).
  \<^item> Virtio_Blk, Virtio_Rng (whp/virtio), Virtio_Net (whp/backend.cc, class VirtioNet): whatever the guest puts into its rings, the device touches
    guest RAM only; well-formed requests have their effect and are completed; notifications return.
  \<^item> Uart, Uart_Proofs (whp/devices/uart.cc): interrupt identification, the receiver as a bounded queue (locale
    \<open>bounded_queue\<close>), the search for shutdown markers, and the CRLF normaliser.
  \<^item> Console_Writer, Console_Threads (whp/console_writer.h): where pending output may be cut, how redraw frames are rewritten, and the
    interleavings of callers and writer thread as a step relation.
  \<^item> Machine_Bus (whp/backend.cc, EmulatorIoPort, EmulatorMemory and the device part of RunVm): all devices of the guest around one RAM and one
    I/O APIC. Every interleaving of guest accesses, timer, typed bytes and network frames keeps the invariants of all devices and stays
    inside guest RAM and the writable disks.
  \<^item> Whp_Exits (whp/backend.cc, DecodeIoInstructionLength to HandleWhpMsr): the exits that the backend handles itself; the fallback for
    port accesses agrees with the emulator's callback.
  \<^item> First_Finish: the protocol by which threads agree on how the machine ended (finish), as the locale \<open>first_finish\<close>, interpreted on the run loops of
    Windows and Linux.
  \<^item> Whp_Run, Whp_Run_Proofs, Whp_Run_Results (whp/backend.cc, RunControl, WhpExitReason, DescribeWhpExit, and from RunVm finish, record_error, the watchdog, the timer
    thread, vcpu_loop, make_result, the start and the join of the threads): each thread is a place in its code, each access to a shared atomic or section under
    device_mu a step. In every interleaving the machine stays within its bounds, the result is the first thing that happened, the pause is reported
    exactly, and once finish has been called the threads end within a bounded number of steps.
  \<^item> Guest_Console (guest/node-vmm-console.cc): the program on the other side of the serial port. It is composed with the modelled UART through the locale
    \<open>serial_line\<close>: what the shell writes reaches the host once and in order, and the program ends with its shell
    (locale \<open>silent_line\<close> for the runs without typed input).
  \<^item> Host_Input (whp/backend.cc, the input threads of RunVm): a step relation from the keyboard to the receiver of the serial
    port; nothing typed is lost, overtaken or stuck.
  \<^item> Hvf_Layout, Fdt, Arm_Boot (hvf/backend.cc, the address map, class FdtBuilder, LoadArm64Image, BuildDeviceTree): a reader written from the device tree
    specification recovers the tree; the guest is prepared exactly for images that fit.
  \<^item> Arm_Devices (hvf/backend.cc, the PL011, PL031, PL061, fw_cfg and the empty transports), Arm_Traps (the syndrome, HandleSystemRegisterTrap,
    dispatch_mmio and the data aborts of vcpu_main): a load or store has its architectural effect.
  \<^item> Arm_Blk, Arm_Blk_Proofs, Arm_Blk_Results (hvf/backend.cc, PreadAll, PwriteAll, the virtio descriptor helpers and class VirtioBlk): the disk of the Arm machine.
    Its rings are those of Virtqueue at shifted addresses, and its files keep the contract \<open>block_store\<close>.
  \<^item> Arm_Psci (hvf/backend.cc, the PSCI calls, the pause and the threads of the processors): a step relation; every accepted CPU_ON starts its target once.
  \<^item> Kvm_Uart (kvm/backend.cc, class Uart, HandleIo): the serial port of the Linux backend, with the same contract \<open>serial_line\<close> towards the console program;
    its interrupt line always agrees with its registers.
  \<^item> Kvm_Run, Kvm_Run_Results (kvm/backend.cc, HandleMmio, RunControl and the threads of RunVm): the run loop of the Linux backend as a step relation. The result is
    the first thing that happened, as on Windows; but a request to leave the guest can be lost, and with it the end of the run.
  \<^item> Kvm_Snapshot (kvm/backend.cc, WriteRamSnapshotFiles to ApplyDirtySnapshotFile): full and dirty-page snapshots
    restore RAM, and no file makes the restore write outside it (locale \<open>transfer\<close> for the host's read and write loops).
  \<^item> This theory: the preparation as a whole. The steps write the same RAM, and none spoils another.

  \<^bold>\<open>Parameters.\<close> Code outside the sources is an argument: the hypervisor calls (Irq, Ioapic, Boot), the file calls of the
  host (\<open>file_api\<close>, whose documented behaviour is the hypothesis \<open>api_reliable\<close>), the
  random generator, libslirp, the bytes of the kernel file, the steady clock and the calendar time; the register calls of both
  hypervisors (\<open>reg_laws\<close>, \<open>hv_regs_ok\<close>), the virtio transports behind the buses of the Arm and the Linux machine, the partial transfers of the host's
  files in the snapshots and on the Arm machine (\<open>posix\<close>, with the hypothesis \<open>posix_reliable\<close>), and the kernel of the guest under the console
  program (\<open>guest_os\<close>). The record \<open>reading\<close> holds what the outside decides at a step of a Windows processor: the host's command word, the clock, the exit and
  the calls that the emulator of the platform makes back into the devices; \<open>kvm_reading\<close> is its counterpart on Linux, with what KVM_RUN does.

  \<^bold>\<open>Loops.\<close> Loops over a bounded index are recursive functions with a termination proof. Three loops can run
  forever and are partial functions in the option type: the catch-up of the PIT, which is shown to return, the
  re-arming of a periodic HPET timer, which returns for the periods stated there and hangs for one shown,
  and the transmit loop of virtio-net, which returns when the rings do not overlap and hangs for the overlap shown. The
  loop of write_file, which repeats a write of zero bytes, has fuel; as many rounds as there are bytes are enough for a
  host that makes progress. The transfer loops of the snapshots are partial functions; they return for a host that
  makes progress. So are the loops of the console program, which run as long as the guest does; they end when its shell has ended and nothing more
  arrives.

  \<^bold>\<open>Not modelled.\<close> The option parsing of RunVm, the poll thread of the network backend and the loader of the hypervisor library are calls of the host system, and so are the
  fork and the pseudo terminal set-up of the console program. The copies of the boot code and of the virtio devices in the KVM backend, virtio-net of the
  Hypervisor.framework backend and the TypeScript front end are outside this development. Waits with a time limit are the freedom of the scheduler in the step relations. Debug tracing and the host's error texts are left out of the models.
\<close>

section \<open>Properties that span components\<close>



end
